(* ===== verification/Prelude.thy ===== *)
theory Prelude
  imports Main "HOL-Library.Word" "HOL-Library.Sublist"
begin

text \<open>
  The C-level vocabulary the component theories share: machine integer types, return
  codes, bounded C strings, scans of fixed-size arrays, shifting an element out of an
  array, circular indices and the deadline arithmetic on \<open>struct timespec\<close>.

  The development's fact collections: \<open>c_consts\<close> holds the unfolding equations of
  \<^verbatim>\<open>#define\<close> constants, \<open>c_index\<close> the bounds of array scans.
\<close>

named_theorems c_consts \<open>unfolding equations of preprocessor constants\<close>
named_theorems c_index \<open>bounds and characterisations of array scans\<close>

section \<open>Machine integers and return codes\<close>

type_synonym u8 = "8 word"
type_synonym u16 = "16 word"
type_synonym u32 = "32 word"
type_synonym u64 = "64 word"

abbreviation (input) OK :: int where "OK \<equiv> 0"
abbreviation (input) ERROR :: int where "ERROR \<equiv> - 1"

definition EPERM :: int where [c_consts]: "EPERM = 1"
definition ENOMEM :: int where [c_consts]: "ENOMEM = 12"
definition EBUSY :: int where [c_consts]: "EBUSY = 16"
definition EINVAL :: int where [c_consts]: "EINVAL = 22"
definition ENOSPC :: int where [c_consts]: "ENOSPC = 28"
definition ENOENT :: int where [c_consts]: "ENOENT = 2"
definition EIO :: int where [c_consts]: "EIO = 5"
definition ECHILD :: int where [c_consts]: "ECHILD = 10"
definition EACCES :: int where [c_consts]: "EACCES = 13"
definition ENOSYS :: int where [c_consts]: "ENOSYS = 38"
definition ENODATA :: int where [c_consts]: "ENODATA = 61"
definition ENETDOWN :: int where [c_consts]: "ENETDOWN = 100"
definition ETIMEDOUT :: int where [c_consts]: "ETIMEDOUT = 110"
definition EALREADY :: int where [c_consts]: "EALREADY = 114"
definition ECANCELED :: int where [c_consts]: "ECANCELED = 125"

text \<open>The data directory of the agent, from the configuration.\<close>

definition AGENT_DATA_DIR :: string where "AGENT_DATA_DIR = ''/data/agent''"

lemma unat_less_exp: "unat (x :: 'a :: len word) < 2 ^ LENGTH('a)"
  by (rule unsigned_less)

section \<open>Bounded C strings\<close>

text \<open>
  A C string is the list of its characters before the terminating NUL. Copying it into a
  zeroed \<^verbatim>\<open>char buf[n]\<close> with \<^verbatim>\<open>strncpy(buf, s, n - 1)\<close>, or with
  \<^verbatim>\<open>snprintf(buf, n, "%s", s)\<close>, leaves its first \<open>n - 1\<close> characters.
\<close>

definition cstr_copy :: "nat \<Rightarrow> string \<Rightarrow> string" where
  "cstr_copy n s = take (n - 1) s"

lemma length_cstr_copy: "0 < n \<Longrightarrow> length (cstr_copy n s) < n"
  by (simp add: cstr_copy_def)

lemma cstr_copy_fits: "length s < n \<Longrightarrow> cstr_copy n s = s"
  by (simp add: cstr_copy_def)

lemma cstr_copy_idem [simp]: "cstr_copy n (cstr_copy n s) = cstr_copy n s"
  by (simp add: cstr_copy_def)

lemma cstr_copy_eq_Nil: "1 < n \<Longrightarrow> cstr_copy n s = [] \<longleftrightarrow> s = []"
  by (auto simp: cstr_copy_def)

text \<open>A buffer read as a C string, and \<^verbatim>\<open>strstr\<close>.\<close>

definition cstr :: "string \<Rightarrow> string" where
  "cstr b = takeWhile (\<lambda>c. c \<noteq> CHR 0x00) b"

fun strstr :: "string \<Rightarrow> string \<Rightarrow> nat option" where
  "strstr [] needle = (if needle = [] then Some 0 else None)"
| "strstr (c # cs) needle = (if take (length needle) (c # cs) = needle then Some 0 else map_option Suc (strstr cs needle))"

lemma strstr_Some:
  "strstr h n = Some k \<Longrightarrow> k + length n \<le> length h \<and> take (length n) (drop k h) = n \<and> (\<forall>j<k. take (length n) (drop j h) \<noteq> n)"
proof (induction h n arbitrary: k rule: strstr.induct)
  case (1 needle)
  then show ?case by (simp split: if_splits)
next
  case (2 c cs needle)
  show ?case
  proof (cases "take (length needle) (c # cs) = needle")
    case True
    then have "length needle \<le> length (c # cs)" by (metis length_take min.cobounded1)
    with True 2(2) show ?thesis by simp
  next
    case False
    with 2(2) obtain m where m: "k = Suc m" "strstr cs needle = Some m" by auto
    have "take (length needle) (drop j (c # cs)) \<noteq> needle" if "j < k" for j
      using that False m(1) 2(1) [OF False m(2)] by (cases j) auto
    with m 2(1) [OF False m(2)] show ?thesis by auto
  qed
qed

lemma strstr_skip:
  assumes "n \<noteq> []" "hd n \<notin> set p"
  shows "strstr (p @ r) n = map_option (\<lambda>k. k + length p) (strstr r n)"
  using assms(2)
proof (induction p)
  case Nil
  then show ?case by (simp add: option.map_ident)
next
  case (Cons c p)
  have "take (length n) (c # p @ r) \<noteq> n" using Cons.prems assms(1) by (cases n) auto
  then show ?case using Cons by (simp add: option.map_comp comp_def)
qed

lemma strstr_here: "strstr (n @ r) n = Some 0"
proof (cases "n @ r")
  case (Cons a list)
  then have "take (length n) (a # list) = n" by (metis append_eq_conv_conj)
  with Cons show ?thesis by simp
qed simp

lemma strstr_None_drop: "strstr r n = None \<Longrightarrow> strstr (drop k r) n = None"
proof (induction k arbitrary: r)
  case (Suc k)
  then show ?case by (cases r) (auto split: if_splits)
qed simp

section \<open>Printing of integers\<close>

text \<open>Comparison without case in the C locale: only the ASCII letters have case.\<close>

definition to_lower :: "char \<Rightarrow> char" where
  "to_lower c = (let n = of_char c in if 65 \<le> n \<and> n \<le> (90 :: nat) then char_of (n + 32) else c)"

text \<open>The conversions \<^verbatim>\<open>%u\<close> and \<^verbatim>\<open>%d\<close>.\<close>

fun show_nat :: "nat \<Rightarrow> string" where
  "show_nat n = (if n < 10 then [char_of (48 + n)] else show_nat (n div 10) @ [char_of (48 + n mod 10)])"

declare show_nat.simps [simp del]

definition show_int :: "int \<Rightarrow> string" where
  "show_int i = (if i < 0 then CHR ''-'' # show_nat (nat (- i)) else show_nat (nat i))"

section \<open>Scanning an array for the first match\<close>

text \<open>
  \<^verbatim>\<open>for (i = 0; i < N; i++) if (P(a[i])) return i; return -1;\<close>
\<close>

fun first_idx :: "('a \<Rightarrow> bool) \<Rightarrow> 'a list \<Rightarrow> nat option" where
  "first_idx P [] = None"
| "first_idx P (x # xs) = (if P x then Some 0 else map_option Suc (first_idx P xs))"

lemma first_idx_None [c_index]: "first_idx P xs = None \<longleftrightarrow> (\<forall>x\<in>set xs. \<not> P x)"
  by (induction xs) auto

lemma first_idx_None_nth: "first_idx P xs = None \<longleftrightarrow> (\<forall>i<length xs. \<not> P (xs ! i))"
  by (simp add: first_idx_None all_set_conv_all_nth)

lemma first_idx_Some [c_index]:
  "first_idx P xs = Some i \<longleftrightarrow> i < length xs \<and> P (xs ! i) \<and> (\<forall>j<i. \<not> P (xs ! j))"
proof (induction xs arbitrary: i)
  case Nil
  then show ?case by simp
next
  case (Cons x xs)
  then show ?case
    by (cases i) (auto simp: nth_Cons split: nat.splits)
qed

lemma first_idx_SomeD:
  assumes "first_idx P xs = Some i"
  shows "i < length xs" "P (xs ! i)" "\<And>j. j < i \<Longrightarrow> \<not> P (xs ! j)"
  using assms by (auto simp: first_idx_Some)

lemma first_idx_exists: "i < length xs \<Longrightarrow> P (xs ! i) \<Longrightarrow> \<exists>j\<le>i. first_idx P xs = Some j"
proof (induction xs arbitrary: i)
  case Nil
  then show ?case by simp
next
  case (Cons x xs)
  show ?case
  proof (cases "P x")
    case True
    then show ?thesis by simp
  next
    case False
    with Cons.prems obtain k where "i = Suc k" "k < length xs" "P (xs ! k)"
      by (cases i) auto
    with Cons.IH [of k] False show ?thesis by auto
  qed
qed

lemma first_idx_unique:
  assumes "i < length xs" "P (xs ! i)" "\<And>j. j < length xs \<Longrightarrow> P (xs ! j) \<Longrightarrow> j = i"
  shows "first_idx P xs = Some i"
proof -
  have "\<not> P (xs ! j)" if "j < i" for j
    using assms(1) assms(3) [of j] that by auto
  with assms(1,2) show ?thesis by (simp add: first_idx_Some)
qed

lemma first_idx_cong_nth:
  assumes "length xs = length ys" "\<And>i. i < length xs \<Longrightarrow> P (xs ! i) \<longleftrightarrow> Q (ys ! i)"
  shows "first_idx P xs = first_idx Q ys"
  using assms
proof (induction xs ys rule: list_induct2)
  case Nil
  then show ?case by simp
next
  case (Cons x xs y ys)
  have "P x \<longleftrightarrow> Q y" using Cons.prems [of 0] by simp
  moreover have "first_idx P xs = first_idx Q ys"
    by (rule Cons.IH) (use Cons.prems [of "Suc _"] in simp)
  ultimately show ?case by simp
qed

section \<open>Closing the gap after removing an array element\<close>

text \<open>
  \<^verbatim>\<open>for (j = i; j < count - 1; j++) a[j] = a[j + 1]; count--;\<close> on the live prefix
  of the array.
\<close>

definition remove_at :: "nat \<Rightarrow> 'a list \<Rightarrow> 'a list" where
  "remove_at i xs = take i xs @ drop (Suc i) xs"

lemma length_remove_at: "i < length xs \<Longrightarrow> length (remove_at i xs) = length xs - 1"
  by (simp add: remove_at_def)

lemma set_remove_at: "set (remove_at i xs) \<subseteq> set xs"
  by (auto simp: remove_at_def dest: in_set_takeD in_set_dropD)

lemma remove_at_split: "remove_at (length as) (as @ x # bs) = as @ bs"
  by (simp add: remove_at_def)

lemma distinct_remove_at: "distinct (map f xs) \<Longrightarrow> distinct (map f (remove_at i xs))"
proof (cases "i < length xs")
  case True
  assume d: "distinct (map f xs)"
  from True have "xs = take i xs @ xs ! i # drop (Suc i) xs"
    by (simp add: id_take_nth_drop)
  with d have "distinct (map f (take i xs @ xs ! i # drop (Suc i) xs))" by metis
  then show ?thesis unfolding remove_at_def by auto
qed (simp add: remove_at_def)

section \<open>Overwriting an array element\<close>

lemma filter_update_distinct:
  assumes "distinct (filter P xs)" "\<not> P y \<or> y \<notin> set xs"
  shows "distinct (filter P (xs[i := y]))"
  using assms
proof (induction xs arbitrary: i)
  case Nil
  then show ?case by simp
next
  case (Cons x xs)
  show ?case
  proof (cases i)
    case 0
    with Cons.prems show ?thesis by (auto split: if_splits)
  next
    case (Suc k)
    have "set (xs[k := y]) \<subseteq> insert y (set xs)" by (rule set_update_subset_insert)
    moreover have "distinct (filter P (xs[k := y]))"
      using Cons.prems by (intro Cons.IH) (auto split: if_splits)
    ultimately show ?thesis
      using Suc Cons.prems by (auto split: if_splits)
  qed
qed

lemma list_all_update: "list_all P xs \<Longrightarrow> P x \<Longrightarrow> list_all P (xs[i := x])"
  unfolding list_all_iff using set_update_subset_insert [of xs i x] by auto

section \<open>Circular indices\<close>

definition next_slot :: "nat \<Rightarrow> nat \<Rightarrow> nat" where
  "next_slot n i = (i + 1) mod n"

lemma next_slot_less: "0 < n \<Longrightarrow> next_slot n i < n"
  by (simp add: next_slot_def)

lemma mod_add_inj_small:
  fixes h n i j :: nat
  assumes "i < n" "j < n" "(h + i) mod n = (h + j) mod n"
  shows "i = j"
proof (rule ccontr)
  assume ne: "i \<noteq> j"
  have "(int h + int i) mod int n = (int h + int j) mod int n"
    using assms(3) by (metis of_nat_add of_nat_mod)
  then have "int n dvd (int i - int j)"
    by (simp add: mod_eq_dvd_iff)
  moreover have "\<bar>int i - int j\<bar> < int n" "int i - int j \<noteq> 0"
    using assms(1,2) ne by auto
  ultimately show False
    using zdvd_not_zless [of "\<bar>int i - int j\<bar>" "int n"] by auto
qed

lemma mod_Suc_shift: "(Suc h mod n + k) mod n = Suc (h + k) mod (n::nat)"
  using mod_add_left_eq [of "Suc h" n k] by simp

section \<open>Deadlines\<close>

record timespec =
  tv_sec :: int
  tv_nsec :: int

definition timespec_ns :: "timespec \<Rightarrow> int" where
  "timespec_ns ts = tv_sec ts * 1000000000 + tv_nsec ts"

definition timespec_ok :: "timespec \<Rightarrow> bool" where
  "timespec_ok ts \<longleftrightarrow> 0 \<le> tv_nsec ts \<and> tv_nsec ts < 1000000000"

definition timespec_add_ms :: "timespec \<Rightarrow> int \<Rightarrow> timespec" where
  "timespec_add_ms ts ms =
     (let ts1 = ts\<lparr>tv_sec := tv_sec ts + ms div 1000,
                    tv_nsec := tv_nsec ts + (ms mod 1000) * 1000000\<rparr>
      in if tv_nsec ts1 \<ge> 1000000000
         then ts1\<lparr>tv_sec := tv_sec ts1 + 1, tv_nsec := tv_nsec ts1 - 1000000000\<rparr>
         else ts1)"

lemma timespec_add_ms_ns:
  "timespec_ns (timespec_add_ms ts ms) = timespec_ns ts + ms * 1000000"
proof -
  have "ms div 1000 * 1000000000 + ms mod 1000 * 1000000 = ms * 1000000"
    by presburger
  then show ?thesis
    unfolding timespec_ns_def timespec_add_ms_def Let_def
    by (simp add: algebra_simps)
qed

lemma timespec_add_ms_ok: "timespec_ok ts \<Longrightarrow> timespec_ok (timespec_add_ms ts ms)"
proof -
  assume ok: "timespec_ok ts"
  have "0 \<le> ms mod 1000" "ms mod 1000 < 1000" by simp_all
  with ok show ?thesis
    unfolding timespec_ok_def timespec_add_ms_def Let_def by auto
qed

end
