(* ===== verification/Fifo.thy ===== *)
theory Fifo
  imports Prelude
begin

text \<open>
  The contract of a bounded first-in-first-out queue, as the message bus promises it to its
  producers and consumers. An interleaving of their critical sections is a list of attempts:
  a \<open>Put\<close> that finds the queue full and a \<open>Get\<close> that finds it empty change nothing.
\<close>

datatype 'm attempt = Put 'm | Get

fun run_attempts ::
  "nat \<Rightarrow> ('q \<Rightarrow> nat) \<Rightarrow> ('q \<Rightarrow> 'm \<Rightarrow> 'q) \<Rightarrow> ('q \<Rightarrow> 'm \<times> 'q) \<Rightarrow>
   'm attempt list \<Rightarrow> 'q \<Rightarrow> 'm list \<times> 'm list \<times> 'q"
where
  "run_attempts cap cnt put get [] q = ([], [], q)"
| "run_attempts cap cnt put get (Put m # as) q =
     (if cnt q < cap
      then (case run_attempts cap cnt put get as (put q m) of (acc, del, q') \<Rightarrow> (m # acc, del, q'))
      else run_attempts cap cnt put get as q)"
| "run_attempts cap cnt put get (Get # as) q =
     (if cnt q = 0 then run_attempts cap cnt put get as q
      else (case get q of (m, q1) \<Rightarrow>
             (case run_attempts cap cnt put get as q1 of (acc, del, q') \<Rightarrow> (acc, m # del, q'))))"

locale bounded_fifo =
  fixes cap :: nat
    and cnt :: "'q \<Rightarrow> nat"
    and put :: "'q \<Rightarrow> 'm \<Rightarrow> 'q"
    and get :: "'q \<Rightarrow> 'm \<times> 'q"
    and lst :: "'q \<Rightarrow> 'm list"
    and invar :: "'q \<Rightarrow> bool"
  assumes cnt_lst: "invar q \<Longrightarrow> cnt q = length (lst q)"
    and cnt_cap: "invar q \<Longrightarrow> cnt q \<le> cap"
    and put_lst: "invar q \<Longrightarrow> cnt q < cap \<Longrightarrow> lst (put q m) = lst q @ [m]"
    and put_invar: "invar q \<Longrightarrow> cnt q < cap \<Longrightarrow> invar (put q m)"
    and get_lst: "invar q \<Longrightarrow> cnt q \<noteq> 0 \<Longrightarrow> lst q = fst (get q) # lst (snd (get q))"
    and get_invar: "invar q \<Longrightarrow> cnt q \<noteq> 0 \<Longrightarrow> invar (snd (get q))"
begin

lemma run_fifo:
  "invar q \<Longrightarrow> run_attempts cap cnt put get as q = (acc, del, q') \<Longrightarrow>
   invar q' \<and> lst q @ acc = del @ lst q'"
proof (induction as arbitrary: q acc del q')
  case Nil
  then show ?case by simp
next
  case (Cons a as)
  show ?case
  proof (cases a)
    case (Put m)
    show ?thesis
    proof (cases "cnt q < cap")
      case True
      obtain acc1 del1 q1 where r: "run_attempts cap cnt put get as (put q m) = (acc1, del1, q1)"
        by (cases "run_attempts cap cnt put get as (put q m)")
      from Cons.IH [OF put_invar [OF Cons.prems(1) True] r] show ?thesis
        using Cons.prems(2) Put True r by (auto simp: put_lst [OF Cons.prems(1) True])
    next
      case False
      with Cons Put show ?thesis by simp
    qed
  next
    case Get
    show ?thesis
    proof (cases "cnt q = 0")
      case True
      with Cons Get show ?thesis by simp
    next
      case False
      obtain acc1 del1 q1 where r: "run_attempts cap cnt put get as (snd (get q)) = (acc1, del1, q1)"
        by (cases "run_attempts cap cnt put get as (snd (get q))")
      from Cons.IH [OF get_invar [OF Cons.prems(1) False] r] show ?thesis
        using Cons.prems(2) Get False r get_lst [OF Cons.prems(1) False]
        by (auto split: prod.splits)
    qed
  qed
qed

lemma run_bounded:
  assumes "invar q" "run_attempts cap cnt put get as q = (acc, del, q')"
  shows "length (lst q') \<le> cap"
  using run_fifo [OF assms] cnt_lst cnt_cap by metis

text \<open>Filling an empty queue within its capacity and draining it returns the messages in order.\<close>

lemma run_puts:
  "invar q \<Longrightarrow> cnt q + length ms \<le> cap \<Longrightarrow>
   \<exists>q'. run_attempts cap cnt put get (map Put ms) q = (ms, [], q') \<and> invar q'
        \<and> lst q' = lst q @ ms"
proof (induction ms arbitrary: q)
  case Nil
  then show ?case by simp
next
  case (Cons m ms)
  have lt: "cnt q < cap" using Cons.prems(2) by simp
  have "cnt (put q m) = Suc (cnt q)"
    using Cons.prems(1) lt by (simp add: cnt_lst put_invar put_lst)
  with Cons.prems(2) have "cnt (put q m) + length ms \<le> cap" by simp
  from Cons.IH [OF put_invar [OF Cons.prems(1) lt] this] lt Cons.prems(1)
  show ?case by (auto simp: put_lst)
qed

lemma run_gets:
  "invar q \<Longrightarrow> n = length (lst q) \<Longrightarrow>
   \<exists>q'. run_attempts cap cnt put get (replicate n Get) q = ([], lst q, q') \<and> invar q' \<and> lst q' = []"
proof (induction n arbitrary: q)
  case 0
  then show ?case by simp
next
  case (Suc n)
  have ne: "cnt q \<noteq> 0" using Suc.prems by (auto simp: cnt_lst)
  have l: "lst q = fst (get q) # lst (snd (get q))" using get_lst [OF Suc.prems(1) ne] .
  with Suc.prems(2) have n: "n = length (lst (snd (get q)))" by (metis length_Cons nat.inject)
  from Suc.IH [OF get_invar [OF Suc.prems(1) ne] n] ne l show ?case
    by (auto split: prod.splits)
qed

end

end
