(* ===== verification/Message_Bus.thy ===== *)
theory Message_Bus
  imports Fifo
begin

text \<open>
  The message bus of the agent (\<^verbatim>\<open>core/message_bus.c\<close>) and its outbound tap table
  (\<^verbatim>\<open>core/message_bus_tap.c\<close>).

  A queue is the C ring buffer: the item array, \<open>head\<close>, \<open>tail\<close> and \<open>count\<close>.
  A blocking call releases the queue's mutex inside \<^verbatim>\<open>pthread_cond_timedwait\<close>; what
  the other threads did meanwhile is the explicit list of wait results handed to the call:
  for each wait its return code, the queue and the shutdown flag seen when the mutex is held
  again. A call whose wait results run out is still blocked, which is the value \<open>None\<close>.
\<close>

section \<open>Messages and queues\<close>

record agent_msg =
  msg_channel :: string
  msg_chat_id :: string
  msg_content :: "string option"
  msg_image_b64 :: "string option"

definition zero_msg :: agent_msg where
  "zero_msg = \<lparr>msg_channel = [], msg_chat_id = [], msg_content = None, msg_image_b64 = None\<rparr>"

definition AGENT_BUS_QUEUE_LEN :: nat where [c_consts]: "AGENT_BUS_QUEUE_LEN = 16"
definition AGENT_BUS_PUSH_TIMEOUT_MS :: u32 where [c_consts]: "AGENT_BUS_PUSH_TIMEOUT_MS = 5000"

record msg_queue =
  q_items :: "agent_msg list"
  q_head :: nat
  q_tail :: nat
  q_count :: nat

record wait_result =
  wr_code :: int
  wr_queue :: msg_queue
  wr_shutdown :: bool

definition msg_queue_init :: msg_queue where
  "msg_queue_init =
     \<lparr>q_items = replicate AGENT_BUS_QUEUE_LEN zero_msg, q_head = 0, q_tail = 0, q_count = 0\<rparr>"

definition msg_queue_destroy :: "msg_queue \<Rightarrow> msg_queue" where
  "msg_queue_destroy q =
     \<lparr>q_items = replicate AGENT_BUS_QUEUE_LEN zero_msg, q_head = 0, q_tail = 0, q_count = 0\<rparr>"

text \<open>The critical sections that change a queue: storing at the tail, taking from the head.\<close>

definition queue_store :: "msg_queue \<Rightarrow> agent_msg \<Rightarrow> msg_queue" where
  "queue_store q msg =
     q\<lparr>q_items := (q_items q)[q_tail q := msg],
       q_tail := (q_tail q + 1) mod AGENT_BUS_QUEUE_LEN,
       q_count := q_count q + 1\<rparr>"

definition queue_take :: "msg_queue \<Rightarrow> agent_msg \<times> msg_queue" where
  "queue_take q =
     (q_items q ! q_head q,
      q\<lparr>q_head := (q_head q + 1) mod AGENT_BUS_QUEUE_LEN, q_count := q_count q - 1\<rparr>)"

text \<open>The deadline of a timed wait on the bus.\<close>

definition bus_deadline :: "timespec \<Rightarrow> u32 \<Rightarrow> timespec" where
  "bus_deadline now timeout_ms = timespec_add_ms now (uint timeout_ms)"

fun push_wait :: "wait_result list \<Rightarrow> msg_queue \<Rightarrow> agent_msg \<Rightarrow> (int \<times> msg_queue) option" where
  "push_wait ws q msg =
     (if q_count q < AGENT_BUS_QUEUE_LEN then Some (OK, queue_store q msg)
      else (case ws of
              [] \<Rightarrow> None
            | w # ws' \<Rightarrow> if wr_code w \<noteq> 0 then Some (ERROR, wr_queue w)
                        else push_wait ws' (wr_queue w) msg))"

definition msg_queue_push ::
  "wait_result list \<Rightarrow> msg_queue \<Rightarrow> agent_msg \<Rightarrow> u32 \<Rightarrow> (int \<times> msg_queue) option"
where
  "msg_queue_push ws q msg timeout_ms =
     (if q_count q \<ge> AGENT_BUS_QUEUE_LEN \<and> timeout_ms = 0 then Some (ERROR, q)
      else push_wait ws q msg)"

fun msg_queue_pop ::
  "wait_result list \<Rightarrow> bool \<Rightarrow> msg_queue \<Rightarrow> u32 \<Rightarrow> (int \<times> agent_msg option \<times> msg_queue) option"
where
  "msg_queue_pop ws shutdown q timeout_ms =
     (if q_count q \<noteq> 0 then (case queue_take q of (m, q') \<Rightarrow> Some (OK, Some m, q'))
      else if shutdown then Some (ERROR, None, q)
      else (case ws of
              [] \<Rightarrow> None
            | w # ws' \<Rightarrow>
                if timeout_ms \<noteq> - 1 \<and> wr_code w \<noteq> 0 then Some (ERROR, None, wr_queue w)
                else msg_queue_pop ws' (wr_shutdown w) (wr_queue w) timeout_ms))"

declare push_wait.simps [simp del] msg_queue_pop.simps [simp del]

section \<open>The bus\<close>

record bus =
  bus_inbound :: msg_queue
  bus_outbound :: msg_queue
  bus_initialized :: bool
  bus_shutdown :: bool

definition message_bus_msg_free :: "agent_msg option \<Rightarrow> agent_msg option" where
  "message_bus_msg_free m = map_option (\<lambda>m. m\<lparr>msg_content := None, msg_image_b64 := None\<rparr>) m"

definition message_bus_init :: "bus \<Rightarrow> int \<times> bus" where
  "message_bus_init b =
     (if bus_initialized b then (OK, b)
      else (OK, b\<lparr>bus_inbound := msg_queue_init, bus_outbound := msg_queue_init,
                  bus_shutdown := False, bus_initialized := True\<rparr>))"

definition message_bus_destroy :: "bus \<Rightarrow> bus" where
  "message_bus_destroy b =
     (if \<not> bus_initialized b then b
      else b\<lparr>bus_inbound := msg_queue_destroy (bus_inbound b),
             bus_outbound := msg_queue_destroy (bus_outbound b),
             bus_initialized := False\<rparr>)"

definition message_bus_wakeup :: "bus \<Rightarrow> bus" where
  "message_bus_wakeup b = b\<lparr>bus_shutdown := True\<rparr>"

definition message_bus_push_inbound ::
  "wait_result list \<Rightarrow> bus \<Rightarrow> agent_msg option \<Rightarrow> (int \<times> bus) option"
where
  "message_bus_push_inbound ws b msg =
     (case msg of
        None \<Rightarrow> Some (ERROR, b)
      | Some m \<Rightarrow>
          map_option (\<lambda>(r, q). (r, b\<lparr>bus_inbound := q\<rparr>))
            (msg_queue_push ws (bus_inbound b) m AGENT_BUS_PUSH_TIMEOUT_MS))"

definition message_bus_push_outbound ::
  "wait_result list \<Rightarrow> bus \<Rightarrow> agent_msg option \<Rightarrow> (int \<times> bus) option"
where
  "message_bus_push_outbound ws b msg =
     (case msg of
        None \<Rightarrow> Some (ERROR, b)
      | Some m \<Rightarrow>
          map_option (\<lambda>(r, q). (r, b\<lparr>bus_outbound := q\<rparr>))
            (msg_queue_push ws (bus_outbound b) m AGENT_BUS_PUSH_TIMEOUT_MS))"

text \<open>The out parameter of a pop may be NULL (\<open>have_buf = False\<close>).\<close>

definition message_bus_pop_inbound ::
  "wait_result list \<Rightarrow> bus \<Rightarrow> bool \<Rightarrow> u32 \<Rightarrow> (int \<times> agent_msg option \<times> bus) option"
where
  "message_bus_pop_inbound ws b have_buf timeout_ms =
     (if \<not> have_buf then Some (ERROR, None, b)
      else map_option (\<lambda>(r, m, q). (r, m, b\<lparr>bus_inbound := q\<rparr>))
             (msg_queue_pop ws (bus_shutdown b) (bus_inbound b) timeout_ms))"

definition message_bus_pop_outbound ::
  "wait_result list \<Rightarrow> bus \<Rightarrow> bool \<Rightarrow> u32 \<Rightarrow> (int \<times> agent_msg option \<times> bus) option"
where
  "message_bus_pop_outbound ws b have_buf timeout_ms =
     (if \<not> have_buf then Some (ERROR, None, b)
      else map_option (\<lambda>(r, m, q). (r, m, b\<lparr>bus_outbound := q\<rparr>))
             (msg_queue_pop ws (bus_shutdown b) (bus_outbound b) timeout_ms))"

section \<open>The ring buffer refines a bounded list\<close>

definition queue_inv :: "msg_queue \<Rightarrow> bool" where
  "queue_inv q \<longleftrightarrow> length (q_items q) = AGENT_BUS_QUEUE_LEN \<and> q_head q < AGENT_BUS_QUEUE_LEN
     \<and> q_count q \<le> AGENT_BUS_QUEUE_LEN
     \<and> q_tail q = (q_head q + q_count q) mod AGENT_BUS_QUEUE_LEN"

definition queue_list :: "msg_queue \<Rightarrow> agent_msg list" where
  "queue_list q = map (\<lambda>k. q_items q ! ((q_head q + k) mod AGENT_BUS_QUEUE_LEN)) [0..<q_count q]"

lemma queue_len_pos: "0 < AGENT_BUS_QUEUE_LEN"
  by (simp add: c_consts)

lemma queue_init_inv: "queue_inv msg_queue_init" "queue_list msg_queue_init = []"
  by (simp_all add: queue_inv_def queue_list_def msg_queue_init_def c_consts)

lemma length_queue_list: "length (queue_list q) = q_count q"
  by (simp add: queue_list_def)

lemma queue_store_inv:
  assumes "queue_inv q" "q_count q < AGENT_BUS_QUEUE_LEN"
  shows "queue_inv (queue_store q msg)"
  using assms by (auto simp: queue_inv_def queue_store_def mod_Suc_eq)

lemma queue_store_list:
  assumes inv: "queue_inv q" and room: "q_count q < AGENT_BUS_QUEUE_LEN"
  shows "queue_list (queue_store q msg) = queue_list q @ [msg]"
proof -
  let ?n = AGENT_BUS_QUEUE_LEN
  let ?t = "(q_head q + q_count q) mod ?n"
  have len: "length (q_items q) = ?n" and tl: "q_tail q = ?t"
    using inv by (auto simp: queue_inv_def)
  have tb: "?t < ?n" using queue_len_pos by simp
  have old: "(q_items q)[?t := msg] ! ((q_head q + k) mod ?n) = q_items q ! ((q_head q + k) mod ?n)"
    if "k < q_count q" for k
  proof -
    have "(q_head q + k) mod ?n \<noteq> ?t"
      using mod_add_inj_small [of k ?n "q_count q" "q_head q"] that room by auto
    then show ?thesis by simp
  qed
  show ?thesis
    using len tb old by (auto simp: queue_list_def queue_store_def tl)
qed

lemma queue_take_inv:
  assumes "queue_inv q" "q_count q \<noteq> 0"
  shows "queue_inv (snd (queue_take q))"
proof -
  obtain c where c: "q_count q = Suc c" using assms(2) by (cases "q_count q") auto
  then show ?thesis
    using assms(1) queue_len_pos by (simp add: queue_inv_def queue_take_def mod_Suc_shift)
qed

lemma queue_take_list:
  assumes inv: "queue_inv q" and ne: "q_count q \<noteq> 0"
  shows "queue_list q = fst (queue_take q) # queue_list (snd (queue_take q))"
proof -
  let ?n = AGENT_BUS_QUEUE_LEN
  obtain c where c: "q_count q = Suc c" using ne by (cases "q_count q") auto
  have h: "q_head q < ?n" using inv by (simp add: queue_inv_def)
  have "queue_list q = q_items q ! ((q_head q + 0) mod ?n) #
      map (\<lambda>k. q_items q ! ((q_head q + Suc k) mod ?n)) [0..<c]"
    unfolding queue_list_def c upt_conv_Cons [OF zero_less_Suc] map_Suc_upt [symmetric]
    by (simp add: o_def)
  with h show ?thesis
    by (simp only: queue_take_def queue_list_def c) (simp add: mod_Suc_shift del: upt_Suc)
qed

interpretation rb: bounded_fifo AGENT_BUS_QUEUE_LEN q_count queue_store queue_take queue_list queue_inv
  by unfold_locales
    (auto simp: length_queue_list queue_store_inv queue_store_list queue_take_inv
      queue_take_list [symmetric], auto simp: queue_inv_def)

lemma push_wait_unfold:
  "push_wait [] q msg =
     (if q_count q < AGENT_BUS_QUEUE_LEN then Some (OK, queue_store q msg) else None)"
  "push_wait (w # ws) q msg =
     (if q_count q < AGENT_BUS_QUEUE_LEN then Some (OK, queue_store q msg)
      else if wr_code w \<noteq> 0 then Some (ERROR, wr_queue w) else push_wait ws (wr_queue w) msg)"
  by (subst push_wait.simps, simp)+

lemma msg_queue_pop_unfold:
  "msg_queue_pop [] sd q t =
     (if q_count q \<noteq> 0 then Some (OK, Some (fst (queue_take q)), snd (queue_take q))
      else if sd then Some (ERROR, None, q) else None)"
  "msg_queue_pop (w # ws) sd q t =
     (if q_count q \<noteq> 0 then Some (OK, Some (fst (queue_take q)), snd (queue_take q))
      else if sd then Some (ERROR, None, q)
      else if t \<noteq> - 1 \<and> wr_code w \<noteq> 0 then Some (ERROR, None, wr_queue w)
      else msg_queue_pop ws (wr_shutdown w) (wr_queue w) t)"
  by (subst msg_queue_pop.simps, simp split: prod.splits)+

lemma push_wait_cases:
  "push_wait ws q msg = Some (r, q') \<Longrightarrow>
   \<exists>q0 \<in> insert q (wr_queue ` set ws).
     (r = OK \<and> q_count q0 < AGENT_BUS_QUEUE_LEN \<and> q' = queue_store q0 msg) \<or> (r = ERROR \<and> q' = q0)"
proof (induction ws arbitrary: q)
  case Nil
  then show ?case by (simp add: push_wait_unfold split: if_splits)
next
  case (Cons w ws)
  show ?case
  proof (cases "q_count q < AGENT_BUS_QUEUE_LEN \<or> wr_code w \<noteq> 0")
    case True
    with Cons.prems show ?thesis by (auto simp: push_wait_unfold split: if_splits)
  next
    case False
    with Cons.prems have "push_wait ws (wr_queue w) msg = Some (r, q')"
      by (simp add: push_wait_unfold)
    from Cons.IH [OF this] show ?thesis by auto
  qed
qed

lemma msg_queue_pop_cases:
  "msg_queue_pop ws sd q t = Some (r, m, q') \<Longrightarrow>
   \<exists>q0 \<in> insert q (wr_queue ` set ws).
     (r = OK \<and> q_count q0 \<noteq> 0 \<and> m = Some (fst (queue_take q0)) \<and> q' = snd (queue_take q0))
     \<or> (r = ERROR \<and> m = None \<and> q' = q0)"
proof (induction ws arbitrary: sd q)
  case Nil
  then show ?case by (auto simp: msg_queue_pop_unfold split: if_splits)
next
  case (Cons w ws)
  show ?case
  proof (cases "q_count q \<noteq> 0 \<or> sd \<or> (t \<noteq> - 1 \<and> wr_code w \<noteq> 0)")
    case True
    with Cons.prems show ?thesis by (auto simp: msg_queue_pop_unfold split: if_splits)
  next
    case False
    with Cons.prems have "msg_queue_pop ws (wr_shutdown w) (wr_queue w) t = Some (r, m, q')"
      by (auto simp: msg_queue_pop_unfold split: if_splits)
    from Cons.IH [OF this] show ?thesis by auto
  qed
qed

section \<open>Properties of the bus\<close>

text \<open>
  C1. The bus queue is first-in first-out under every interleaving of its producers and
  consumers: for any sequence of push and pop critical sections, the messages delivered,
  followed by those still queued, are the ones queued at the start followed by the accepted
  ones, in order; nothing is lost, duplicated or reordered and the ring never overflows.
\<close>

theorem bus_interleaving_fifo:
  assumes "queue_inv q"
    and "run_attempts AGENT_BUS_QUEUE_LEN q_count queue_store queue_take as q = (acc, del, q')"
  shows "queue_inv q' \<and> queue_list q @ acc = del @ queue_list q'
    \<and> length (queue_list q') \<le> AGENT_BUS_QUEUE_LEN"
  using rb.run_fifo [OF assms] rb.run_bounded [OF assms] by simp

theorem bus_interleaving_fifo_witness:
  "\<exists>q'. queue_inv q' \<and> queue_list msg_queue_init @ [zero_msg\<lparr>msg_channel := ''cli''\<rparr>, zero_msg]
     = [zero_msg\<lparr>msg_channel := ''cli''\<rparr>] @ queue_list q'
     \<and> length (queue_list q') \<le> AGENT_BUS_QUEUE_LEN"
proof -
  let ?m = "zero_msg\<lparr>msg_channel := ''cli''\<rparr>"
  have "run_attempts AGENT_BUS_QUEUE_LEN q_count queue_store queue_take
      [Get, Put ?m, Put zero_msg, Get] msg_queue_init
    = ([?m, zero_msg], [?m], snd (queue_take (queue_store (queue_store msg_queue_init ?m) zero_msg)))"
    by (simp add: msg_queue_init_def queue_store_def queue_take_def c_consts zero_msg_def)
  from bus_interleaving_fifo [OF queue_init_inv(1) this] show ?thesis by blast
qed

text \<open>
  A push that returns stored its message in a queue that had room at the moment it held
  the lock (and then the abstract queue grew by exactly that message at the end) or returned
  the error and changed nothing; with timeout zero it never waits.
\<close>

theorem msg_queue_push_outcome:
  assumes "msg_queue_push ws q msg timeout_ms = Some (r, q')"
    and "queue_inv q" and "\<forall>w\<in>set ws. queue_inv (wr_queue w)"
  shows "\<exists>q0 \<in> insert q (wr_queue ` set ws). queue_inv q' \<and>
    (r = OK \<and> queue_list q' = queue_list q0 @ [msg] \<or> r = ERROR \<and> q' = q0)"
proof (cases "q_count q \<ge> AGENT_BUS_QUEUE_LEN \<and> timeout_ms = 0")
  case True
  with assms show ?thesis by (auto simp: msg_queue_push_def)
next
  case False
  then have "push_wait ws q msg = Some (r, q')"
    using assms(1) by (auto simp: msg_queue_push_def split: if_splits)
  from push_wait_cases [OF this] obtain q0 where q0: "q0 \<in> insert q (wr_queue ` set ws)"
    and c: "(r = OK \<and> q_count q0 < AGENT_BUS_QUEUE_LEN \<and> q' = queue_store q0 msg)
      \<or> (r = ERROR \<and> q' = q0)" by blast
  have "queue_inv q0" using q0 assms(2,3) by auto
  with c q0 show ?thesis by (intro bexI [of _ q0]) (auto simp: queue_store_inv queue_store_list)
qed

theorem msg_queue_push_outcome_witness:
  "\<exists>q0 \<in> {msg_queue_init}. queue_inv (queue_store msg_queue_init zero_msg) \<and>
    ((0::int) = OK \<and> queue_list (queue_store msg_queue_init zero_msg) = queue_list q0 @ [zero_msg]
     \<or> (0::int) = ERROR \<and> queue_store msg_queue_init zero_msg = q0)"
proof -
  have "msg_queue_push [] msg_queue_init zero_msg 5000
      = Some (OK, queue_store msg_queue_init zero_msg)"
    by (simp add: msg_queue_push_def push_wait.simps msg_queue_init_def c_consts)
  from msg_queue_push_outcome [OF this queue_init_inv(1)] show ?thesis by simp
qed

text \<open>
  A pop that returns OK delivers the oldest message of the queue as it was under the
  lock and leaves the rest; an error return delivers nothing and changes nothing.
\<close>

theorem msg_queue_pop_outcome:
  assumes "msg_queue_pop ws sd q timeout_ms = Some (r, m, q')"
    and "queue_inv q" and "\<forall>w\<in>set ws. queue_inv (wr_queue w)"
  shows "\<exists>q0 \<in> insert q (wr_queue ` set ws). queue_inv q' \<and>
    (r = OK \<and> (\<exists>x. m = Some x \<and> queue_list q0 = x # queue_list q')
     \<or> r = ERROR \<and> m = None \<and> q' = q0)"
proof -
  from msg_queue_pop_cases [OF assms(1)] obtain q0 where q0: "q0 \<in> insert q (wr_queue ` set ws)"
    and c: "(r = OK \<and> q_count q0 \<noteq> 0 \<and> m = Some (fst (queue_take q0)) \<and> q' = snd (queue_take q0))
      \<or> (r = ERROR \<and> m = None \<and> q' = q0)" by blast
  have "queue_inv q0" using q0 assms(2,3) by auto
  with c q0 show ?thesis
    by (intro bexI [of _ q0]) (auto simp: queue_take_inv queue_take_list [symmetric])
qed

theorem msg_queue_pop_outcome_witness:
  "\<exists>q0 \<in> {queue_store msg_queue_init zero_msg}.
     queue_inv (snd (queue_take (queue_store msg_queue_init zero_msg))) \<and>
     ((0::int) = OK \<and> (\<exists>x. Some zero_msg = Some x \<and>
        queue_list q0 = x # queue_list (snd (queue_take (queue_store msg_queue_init zero_msg))))
      \<or> (0::int) = ERROR \<and> Some zero_msg = None
        \<and> snd (queue_take (queue_store msg_queue_init zero_msg)) = q0)"
proof -
  let ?q = "queue_store msg_queue_init zero_msg"
  have "msg_queue_pop [] False ?q 0 = Some (OK, Some zero_msg, snd (queue_take ?q))"
    by (simp add: msg_queue_pop.simps queue_store_def queue_take_def msg_queue_init_def c_consts)
  moreover have "queue_inv ?q"
    by (rule queue_store_inv [OF queue_init_inv(1)]) (simp add: msg_queue_init_def c_consts)
  ultimately show ?thesis using msg_queue_pop_outcome [of "[]" False ?q 0 OK] by simp
qed

text \<open>
  After \<^verbatim>\<open>message_bus_wakeup\<close> no consumer blocks: whatever its timeout (the
  infinite one included), a pop returns at once, with the oldest message while there is one
  and with the error when the queue is empty.
\<close>

theorem wakeup_unblocks_pop:
  "message_bus_pop_inbound ws (message_bus_wakeup b) True timeout_ms =
     Some (if q_count (bus_inbound b) \<noteq> 0
           then (OK, Some (fst (queue_take (bus_inbound b))),
                 (message_bus_wakeup b)\<lparr>bus_inbound := snd (queue_take (bus_inbound b))\<rparr>)
           else (ERROR, None, message_bus_wakeup b))"
  by (simp add: message_bus_pop_inbound_def message_bus_wakeup_def msg_queue_pop.simps [of ws]
      split: prod.splits)

text \<open>
  A timed wait on the bus ends at the requested number of milliseconds after the clock
  reading, with the nanosecond field normalised.
\<close>

theorem bus_deadline_exact:
  assumes "timespec_ok now"
  shows "timespec_ok (bus_deadline now timeout_ms) \<and>
    timespec_ns (bus_deadline now timeout_ms) = timespec_ns now + uint timeout_ms * 1000000"
  using assms by (simp add: bus_deadline_def timespec_add_ms_ns timespec_add_ms_ok)

theorem bus_deadline_exact_witness:
  "timespec_ok (bus_deadline \<lparr>tv_sec = 5, tv_nsec = 999999999\<rparr> 1500) \<and>
   timespec_ns (bus_deadline \<lparr>tv_sec = 5, tv_nsec = 999999999\<rparr> 1500)
     = timespec_ns \<lparr>tv_sec = 5, tv_nsec = 999999999\<rparr> + 1500 * 1000000"
proof -
  have "timespec_ok \<lparr>tv_sec = 5, tv_nsec = 999999999\<rparr>" by (simp add: timespec_ok_def)
  from bus_deadline_exact [OF this, of 1500] show ?thesis by simp
qed

end
