(* ===== verification/Bus_Tap.thy ===== *)
theory Bus_Tap
  imports Message_Bus
begin

text \<open>
  The outbound tap table (\<^verbatim>\<open>core/message_bus_tap.c\<close>): at most four per-channel
  callbacks that intercept outbound messages. A callback is identified by its address, a
  delivery is the callback together with its cookie.
\<close>

definition TAP_MAX_SLOTS :: nat where [c_consts]: "TAP_MAX_SLOTS = 4"
definition TAP_CHANNEL_SIZE :: nat where [c_consts]: "TAP_CHANNEL_SIZE = 16"

record tap_slot =
  tap_channel :: string
  tap_cb :: "nat option"
  tap_cookie :: nat
  tap_active :: bool

definition taps_init :: "tap_slot list" where
  "taps_init = replicate TAP_MAX_SLOTS
     \<lparr>tap_channel = [], tap_cb = None, tap_cookie = 0, tap_active = False\<rparr>"

definition mbus_tap_register ::
  "tap_slot list \<Rightarrow> string option \<Rightarrow> nat option \<Rightarrow> nat \<Rightarrow> int \<times> tap_slot list"
where
  "mbus_tap_register taps channel cb cookie =
     (case (channel, cb) of
        (Some ch, Some f) \<Rightarrow>
          (case first_idx (\<lambda>t. tap_active t \<and> tap_channel t = ch) taps of
             Some _ \<Rightarrow> (ERROR, taps)
           | None \<Rightarrow>
              (case first_idx (\<lambda>t. \<not> tap_active t) taps of
                 Some i \<Rightarrow>
                   (OK, taps[i := \<lparr>tap_channel = cstr_copy TAP_CHANNEL_SIZE ch, tap_cb = Some f,
                                   tap_cookie = cookie, tap_active = True\<rparr>])
               | None \<Rightarrow> (ERROR, taps)))
      | _ \<Rightarrow> (ERROR, taps))"

definition mbus_tap_unregister :: "tap_slot list \<Rightarrow> string option \<Rightarrow> tap_slot list" where
  "mbus_tap_unregister taps channel =
     (case channel of
        None \<Rightarrow> taps
      | Some ch \<Rightarrow>
          (case first_idx (\<lambda>t. tap_active t \<and> tap_channel t = ch) taps of
             Some i \<Rightarrow> taps[i := (taps ! i)\<lparr>tap_active := False, tap_cb := None, tap_cookie := 0\<rparr>]
           | None \<Rightarrow> taps))"

text \<open>The result is the intercepted delivery, if any; \<open>None\<close> is the C value \<^verbatim>\<open>false\<close>.\<close>

definition mbus_tap_try_deliver :: "tap_slot list \<Rightarrow> agent_msg option \<Rightarrow> (nat option \<times> nat) option" where
  "mbus_tap_try_deliver taps msg =
     (case msg of
        None \<Rightarrow> None
      | Some m \<Rightarrow>
          if msg_channel m = [] then None
          else map_option (\<lambda>i. (tap_cb (taps ! i), tap_cookie (taps ! i)))
                 (first_idx (\<lambda>t. tap_active t \<and> tap_channel t = msg_channel m) taps))"

section \<open>Invariant\<close>

definition taps_inv :: "tap_slot list \<Rightarrow> bool" where
  "taps_inv taps \<longleftrightarrow> length taps = TAP_MAX_SLOTS
     \<and> (\<forall>t\<in>set taps. length (tap_channel t) < TAP_CHANNEL_SIZE \<and> (tap_active t \<longrightarrow> tap_cb t \<noteq> None))"

definition tap_of :: "tap_slot list \<Rightarrow> string \<Rightarrow> (nat option \<times> nat) option" where
  "tap_of taps ch =
     map_option (\<lambda>i. (tap_cb (taps ! i), tap_cookie (taps ! i)))
       (first_idx (\<lambda>t. tap_active t \<and> tap_channel t = ch) taps)"

lemma taps_inv_init: "taps_inv taps_init"
  by (simp add: taps_inv_def taps_init_def c_consts)

lemma taps_inv_update:
  assumes "taps_inv taps" "length (tap_channel t) < TAP_CHANNEL_SIZE" "tap_active t \<longrightarrow> tap_cb t \<noteq> None"
  shows "taps_inv (taps[i := t])"
  using assms set_update_subset_insert [of taps i t] unfolding taps_inv_def by auto

lemma tap_register_inv: "taps_inv taps \<Longrightarrow> taps_inv (snd (mbus_tap_register taps ch cb k))"
  by (auto simp: mbus_tap_register_def c_consts cstr_copy_def
      intro!: taps_inv_update split: option.splits)

lemma tap_unregister_inv: "taps_inv taps \<Longrightarrow> taps_inv (mbus_tap_unregister taps ch)"
proof -
  assume inv: "taps_inv taps"
  have "length (tap_channel (taps ! i)) < TAP_CHANNEL_SIZE" if "i < length taps" for i
    using inv that by (simp add: taps_inv_def)
  with inv show ?thesis
    by (auto simp: mbus_tap_unregister_def intro!: taps_inv_update dest: first_idx_SomeD(1)
        split: option.splits)
qed

lemma register_some:
  assumes "mbus_tap_register taps (Some ch) (Some f) k = (OK, taps')"
  obtains i where "first_idx (\<lambda>t. tap_active t \<and> tap_channel t = ch) taps = None"
    and "i < length taps" "\<not> tap_active (taps ! i)"
    and "taps' = taps[i := \<lparr>tap_channel = cstr_copy TAP_CHANNEL_SIZE ch, tap_cb = Some f,
                            tap_cookie = k, tap_active = True\<rparr>]"
  using assms by (auto simp: mbus_tap_register_def dest: first_idx_SomeD split: option.splits)

section \<open>Properties of the tap table\<close>

text \<open>
  A tap registered for a channel name that fits the slot (at most 15 characters)
  intercepts exactly the messages of that channel: the next message on it is delivered to
  the registered callback and cookie, the taps of the other channels are untouched.
\<close>

theorem tap_register_then_deliver:
  assumes "taps_inv taps" and "ch \<noteq> []" and "length ch < TAP_CHANNEL_SIZE"
    and "mbus_tap_register taps (Some ch) (Some f) k = (OK, taps')"
    and "msg_channel m \<noteq> []"
  shows "mbus_tap_try_deliver taps' (Some m) =
     (if msg_channel m = ch then Some (Some f, k) else mbus_tap_try_deliver taps (Some m))"
proof -
  let ?new = "\<lparr>tap_channel = ch, tap_cb = Some f, tap_cookie = k, tap_active = True\<rparr>"
  from assms(4) obtain i where none: "first_idx (\<lambda>t. tap_active t \<and> tap_channel t = ch) taps = None"
    and i: "i < length taps" "\<not> tap_active (taps ! i)" and t: "taps' = taps[i := ?new]"
    using assms(3) by (elim register_some) (simp add: cstr_copy_fits)
  show ?thesis
  proof (cases "msg_channel m = ch")
    case True
    have "first_idx (\<lambda>t. tap_active t \<and> tap_channel t = ch) taps' = Some i"
    proof (rule first_idx_unique)
      fix j assume "j < length taps'" "tap_active (taps' ! j) \<and> tap_channel (taps' ! j) = ch"
      then show "j = i"
        using none by (cases "j = i") (auto simp: t first_idx_None_nth)
    qed (use i t in auto)
    with True i t assms(5) show ?thesis by (simp add: mbus_tap_try_deliver_def)
  next
    case False
    let ?P = "\<lambda>t. tap_active t \<and> tap_channel t = msg_channel m"
    have same: "?P (taps' ! j) \<longleftrightarrow> ?P (taps ! j)" if "j < length taps" for j
      using i False t that by (cases "j = i") auto
    have "first_idx ?P taps' = first_idx ?P taps"
      by (rule first_idx_cong_nth) (use same t in auto)
    moreover have "taps' ! j = taps ! j" if "first_idx ?P taps = Some j" for j
      using first_idx_SomeD(2) [OF that] i t by (cases "j = i") auto
    ultimately show ?thesis
      using False assms(5) by (cases "first_idx ?P taps") (auto simp: mbus_tap_try_deliver_def)
  qed
qed

theorem tap_register_then_deliver_witness:
  "mbus_tap_try_deliver (snd (mbus_tap_register taps_init (Some ''cli'') (Some 7) 3))
     (Some (zero_msg\<lparr>msg_channel := ''cli''\<rparr>)) = Some (Some 7, 3)"
proof -
  have r: "mbus_tap_register taps_init (Some ''cli'') (Some 7) 3
      = (OK, snd (mbus_tap_register taps_init (Some ''cli'') (Some 7) 3))"
    by (simp add: mbus_tap_register_def taps_init_def c_consts numeral_eq_Suc)
  show ?thesis
    using tap_register_then_deliver [OF taps_inv_init _ _ r, of "zero_msg\<lparr>msg_channel := ''cli''\<rparr>"]
    by (simp add: c_consts zero_msg_def)
qed

text \<open>
  A channel name of 16 characters or more is stored truncated: the registration
  reports success, but no later message is delivered to it, and the duplicate check does
  not see it, so the same name can be registered again and again until the slots are gone.
\<close>

theorem tap_long_name_never_fires:
  assumes "taps_inv taps" and "TAP_CHANNEL_SIZE \<le> length ch"
    and "first_idx (\<lambda>t. \<not> tap_active t) taps = Some i"
  shows "fst (mbus_tap_register taps (Some ch) (Some f) k) = OK
    \<and> first_idx (\<lambda>t. tap_active t \<and> tap_channel t = ch)
        (snd (mbus_tap_register taps (Some ch) (Some f) k)) = None"
proof -
  have short: "\<forall>t\<in>set ts. tap_channel t \<noteq> ch" if "taps_inv ts" for ts
    using that assms(2) by (auto simp: taps_inv_def)
  have none: "first_idx (\<lambda>t. tap_active t \<and> tap_channel t = ch) ts = None" if "taps_inv ts" for ts
    using short [OF that] by (auto simp: first_idx_None)
  from none [OF assms(1)] assms(3) have "fst (mbus_tap_register taps (Some ch) (Some f) k) = OK"
    by (simp add: mbus_tap_register_def)
  with none [OF tap_register_inv [OF assms(1)]] show ?thesis by simp
qed

theorem tap_long_name_never_fires_witness:
  "fst (mbus_tap_register taps_init (Some ''a_channel_name_x'') (Some 1) 0) = OK
    \<and> first_idx (\<lambda>t. tap_active t \<and> tap_channel t = ''a_channel_name_x'')
        (snd (mbus_tap_register taps_init (Some ''a_channel_name_x'') (Some 1) 0)) = None"
  by (rule tap_long_name_never_fires [OF taps_inv_init, where i = 0])
    (simp_all add: c_consts taps_init_def numeral_eq_Suc)

end
