(* ===== verification/Arena.thy ===== *)
theory Arena
  imports Prelude
begin

text \<open>
  The per-request bump allocator (\<^verbatim>\<open>core/arena_alloc.c\<close>) on the target's 32-bit
  \<^verbatim>\<open>size_t\<close>: sizes, offsets and addresses are 32-bit words whose sums wrap around, and
  \<^verbatim>\<open>sizeof(void *)\<close> is 4. \<^verbatim>\<open>malloc\<close> is outside the repository; what it
  returned is an argument.
\<close>

unbundle bit_operations_syntax

record arena =
  ar_buf :: "u32 option"
  ar_capacity :: u32
  ar_used :: u32
  ar_alloc_count :: int

definition ARENA_ALIGN :: u32 where [c_consts]: "ARENA_ALIGN = 4"

definition align_up :: "u32 \<Rightarrow> u32 \<Rightarrow> u32" where
  "align_up n align = (n + align - 1) AND NOT (align - 1)"

definition arena_init :: "u32 option \<Rightarrow> arena option \<Rightarrow> u32 \<Rightarrow> int \<times> arena option" where
  "arena_init malloc_ret a capacity =
     (case a of
        None \<Rightarrow> (- EINVAL, None)
      | Some ar \<Rightarrow>
          if capacity = 0 then (- EINVAL, Some ar)
          else (case malloc_ret of
                  None \<Rightarrow> (- ENOMEM, Some (ar\<lparr>ar_buf := None\<rparr>))
                | Some p \<Rightarrow> (0, Some \<lparr>ar_buf = Some p, ar_capacity = capacity, ar_used = 0,
                                     ar_alloc_count = 0\<rparr>)))"

definition arena_alloc :: "arena option \<Rightarrow> u32 \<Rightarrow> u32 option \<times> arena option" where
  "arena_alloc a sz =
     (case a of
        None \<Rightarrow> (None, None)
      | Some ar \<Rightarrow>
          (case ar_buf ar of
             None \<Rightarrow> (None, Some ar)
           | Some buf \<Rightarrow>
               if sz = 0 then (None, Some ar)
               else let aligned = align_up sz ARENA_ALIGN
                    in if ar_used ar + aligned > ar_capacity ar then (None, Some ar)
                       else (Some (buf + ar_used ar),
                             Some (ar\<lparr>ar_used := ar_used ar + aligned,
                                      ar_alloc_count := ar_alloc_count ar + 1\<rparr>))))"

definition arena_reset :: "arena option \<Rightarrow> arena option" where
  "arena_reset a = map_option (\<lambda>ar. ar\<lparr>ar_used := 0, ar_alloc_count := 0\<rparr>) a"

definition arena_destroy :: "arena option \<Rightarrow> arena option" where
  "arena_destroy a =
     map_option (\<lambda>ar. \<lparr>ar_buf = None, ar_capacity = 0, ar_used = 0, ar_alloc_count = 0\<rparr>) a"

definition arena_used :: "arena option \<Rightarrow> u32" where
  "arena_used a = (case a of None \<Rightarrow> 0 | Some ar \<Rightarrow> ar_used ar)"

definition arena_remaining :: "arena option \<Rightarrow> u32" where
  "arena_remaining a = (case a of None \<Rightarrow> 0 | Some ar \<Rightarrow> ar_capacity ar - ar_used ar)"

section \<open>Alignment\<close>

lemma align_mask_bits: "(x :: u32) AND NOT (mask 2) = push_bit 2 (drop_bit 2 x)"
proof (rule bit_word_eqI)
  fix n assume "n < LENGTH(32)"
  then show "bit (x AND NOT (mask 2)) n \<longleftrightarrow> bit (push_bit 2 (drop_bit 2 x)) n"
    by (cases "2 \<le> n") (auto simp: bit_simps simp flip: add_2_eq_Suc)
qed

lemma unat_align_mask: "unat ((x :: u32) AND - 4) = unat x div 4 * 4"
proof -
  have d: "unat (drop_bit 2 x) = unat x div 4"
    by (subst unat_drop_bit_eq) (simp add: drop_bit_eq_div)
  have "unat (drop_bit 2 x) * 4 < 2 ^ 32"
    using unat_less_exp [of x] by (simp add: d)
  then have "unat (drop_bit 2 x * 4) = unat x div 4 * 4"
    by (simp add: unat_word_ariths d)
  then show ?thesis
    using align_mask_bits [of x] by (simp add: push_bit_eq_mult mask_eq_exp_minus_1)
qed

text \<open>Rounding up wraps to zero for the three largest sizes; below them it is the next multiple of 4.\<close>

lemma unat_align_up: "unat (align_up n ARENA_ALIGN) = (unat n + 3) mod 2 ^ 32 div 4 * 4"
proof -
  have "align_up n ARENA_ALIGN = (n + 3) AND - 4"
    by (simp add: align_up_def c_consts add.commute)
  moreover have "unat (n + 3) = (unat n + 3) mod 2 ^ 32"
    by (simp add: unat_word_ariths)
  ultimately show ?thesis by (simp add: unat_align_mask)
qed

lemma align_up_bounds:
  assumes "unat n + 3 < 2 ^ 32"
  shows "unat n \<le> unat (align_up n ARENA_ALIGN)" "unat (align_up n ARENA_ALIGN) \<le> unat n + 3"
    "4 dvd unat (align_up n ARENA_ALIGN)"
  using assms by (simp_all add: unat_align_up)

section \<open>Invariant and allocation sequences\<close>

definition arena_inv :: "arena \<Rightarrow> bool" where
  "arena_inv ar \<longleftrightarrow> unat (ar_used ar) \<le> unat (ar_capacity ar) \<and> 4 dvd unat (ar_used ar)"

text \<open>The buffer \<^verbatim>\<open>malloc\<close> returned: aligned, and it does not run over the end of the address space.\<close>

definition buffer_ok :: "u32 \<Rightarrow> arena \<Rightarrow> bool" where
  "buffer_ok buf ar \<longleftrightarrow> ar_buf ar = Some buf \<and> 4 dvd unat buf \<and> unat buf + unat (ar_capacity ar) < 2 ^ 32"

definition fits :: "arena \<Rightarrow> u32 \<Rightarrow> bool" where
  "fits ar sz \<longleftrightarrow> unat (ar_capacity ar) + unat sz + 3 < 2 ^ 32"

text \<open>The address ranges that a row of requests is given: the pointer returned and the size asked for.\<close>

fun alloc_seq :: "arena \<Rightarrow> u32 list \<Rightarrow> (nat \<times> nat) list" where
  "alloc_seq ar [] = []"
| "alloc_seq ar (sz # szs) =
     (case arena_alloc (Some ar) sz of
        (Some p, Some ar') \<Rightarrow> (unat p, unat sz) # alloc_seq ar' szs
      | (None, Some ar') \<Rightarrow> alloc_seq ar' szs
      | _ \<Rightarrow> [])"

definition blocks_disjoint :: "(nat \<times> nat) list \<Rightarrow> bool" where
  "blocks_disjoint bs \<longleftrightarrow> sorted_wrt (\<lambda>(p1, s1) (p2, s2). p1 + s1 \<le> p2) bs"

text \<open>The sizes that are served out of a room of so many bytes: each that still fits, rounded up to words.\<close>

definition word_round :: "nat \<Rightarrow> nat" where
  "word_round n = (n + 3) div 4 * 4"

fun granted :: "nat \<Rightarrow> nat list \<Rightarrow> nat list" where
  "granted room [] = []"
| "granted room (n # ns) =
     (if 0 < n \<and> word_round n \<le> room then n # granted (room - word_round n) ns else granted room ns)"

lemma align_up_round: "unat n + 3 < 2 ^ 32 \<Longrightarrow> unat (align_up n ARENA_ALIGN) = word_round (unat n)"
  by (simp add: unat_align_up word_round_def)

text \<open>One request, as long as nothing wraps.\<close>

lemma arena_alloc_exact:
  assumes "arena_inv ar" "buffer_ok buf ar" "fits ar sz"
  defines "room \<equiv> unat (ar_capacity ar) - unat (ar_used ar)"
  shows "if 0 < unat sz \<and> word_round (unat sz) \<le> room
    then \<exists>p ar'. arena_alloc (Some ar) sz = (Some p, Some ar') \<and> unat p = unat buf + unat (ar_used ar)
      \<and> unat (ar_used ar') = unat (ar_used ar) + word_round (unat sz)
      \<and> ar_capacity ar' = ar_capacity ar \<and> ar_buf ar' = ar_buf ar
    else arena_alloc (Some ar) sz = (None, Some ar)"
proof -
  let ?al = "align_up sz ARENA_ALIGN"
  have sz: "unat sz + 3 < 2 ^ 32" using assms(3) by (simp add: fits_def)
  have al: "unat ?al = word_round (unat sz)" by (rule align_up_round [OF sz])
  have le: "unat (ar_used ar) \<le> unat (ar_capacity ar)" using assms(1) by (simp add: arena_inv_def)
  have "unat (ar_used ar) + unat ?al < 2 ^ 32"
    using le assms(3) align_up_bounds(2) [OF sz] unfolding fits_def by linarith
  then have sum: "unat (ar_used ar + ?al) = unat (ar_used ar) + word_round (unat sz)"
    by (simp add: unat_word_ariths al)
  have "unat buf + unat (ar_used ar) < 2 ^ 32" using le assms(2) by (simp add: buffer_ok_def)
  then have ptr: "unat (buf + ar_used ar) = unat buf + unat (ar_used ar)" by (simp add: unat_word_ariths)
  have full: "ar_used ar + ?al > ar_capacity ar \<longleftrightarrow> \<not> word_round (unat sz) \<le> room"
    using le by (auto simp: word_less_nat_alt sum room_def)
  have z: "sz = 0 \<longleftrightarrow> \<not> 0 < unat sz" by (simp add: unat_eq_zero)
  show ?thesis using assms(2) full z ptr sum by (auto simp: arena_alloc_def Let_def buffer_ok_def)
qed

lemma alloc_seq_sound:
  assumes "arena_inv ar" "buffer_ok buf ar" "list_all (fits ar) szs"
  shows "blocks_disjoint (alloc_seq ar szs)
    \<and> list_all (\<lambda>(p, s). unat buf + unat (ar_used ar) \<le> p \<and> 4 dvd p \<and> p + s \<le> unat buf + unat (ar_capacity ar)) (alloc_seq ar szs)
    \<and> map snd (alloc_seq ar szs) = granted (unat (ar_capacity ar) - unat (ar_used ar)) (map unat szs)"
  using assms
proof (induction szs arbitrary: ar)
  case Nil
  then show ?case by (simp add: blocks_disjoint_def)
next
  case (Cons sz szs)
  note step = arena_alloc_exact [OF Cons.prems(1,2), of sz]
  show ?case
  proof (cases "0 < unat sz \<and> word_round (unat sz) \<le> unat (ar_capacity ar) - unat (ar_used ar)")
    case False
    then have "arena_alloc (Some ar) sz = (None, Some ar)" using step Cons.prems(3) by (auto split: if_splits)
    with Cons False show ?thesis by auto
  next
    case True
    then obtain p ar' where al: "arena_alloc (Some ar) sz = (Some p, Some ar')" and p: "unat p = unat buf + unat (ar_used ar)"
      and u: "unat (ar_used ar') = unat (ar_used ar) + word_round (unat sz)" and c: "ar_capacity ar' = ar_capacity ar" "ar_buf ar' = ar_buf ar"
      using step Cons.prems(3) by auto
    have r: "unat sz \<le> word_round (unat sz)" "4 dvd word_round (unat sz)" by (simp_all add: word_round_def)
    have inv': "arena_inv ar'" using Cons.prems(1) True u c r by (auto simp: arena_inv_def)
    have b': "buffer_ok buf ar'" using Cons.prems(2) c by (simp add: buffer_ok_def)
    have f': "list_all (fits ar') szs" using Cons.prems(3) c by (simp add: fits_def [abs_def])
    have ih: "blocks_disjoint (alloc_seq ar' szs)"
      "\<forall>(q, s) \<in> set (alloc_seq ar' szs). unat p + unat sz \<le> q \<and> unat p \<le> q \<and> 4 dvd q \<and> q + s \<le> unat buf + unat (ar_capacity ar)"
      "map snd (alloc_seq ar' szs) = granted (unat (ar_capacity ar) - unat (ar_used ar) - word_round (unat sz)) (map unat szs)"
      using Cons.IH [OF inv' b' f'] u c p r(1) by (auto simp: list_all_iff diff_diff_add)
    have here: "4 dvd unat p" "unat p + unat sz \<le> unat buf + unat (ar_capacity ar)"
      using Cons.prems(1,2) True r p by (auto simp: arena_inv_def buffer_ok_def)
    show ?thesis using ih here True p by (auto simp: al blocks_disjoint_def list_all_iff)
  qed
qed

section \<open>Properties of the allocator\<close>

text \<open>
  C27. Whatever sizes are requested in a row from an arena whose buffer lies in the address space
  (as long as size and capacity together stay below 4 GiB), the pointers returned are 4-byte
  aligned and the blocks behind them lie inside the buffer and do not overlap each other; and
  the requests that are served are exactly those that, rounded up to words, still fit in what
  the earlier ones left.
\<close>

theorem arena_blocks_disjoint:
  assumes "arena_inv ar" and "buffer_ok buf ar" and "list_all (fits ar) szs"
  shows "blocks_disjoint (alloc_seq ar szs)
    \<and> list_all (\<lambda>(p, s). 4 dvd p \<and> unat buf \<le> p \<and> p + s \<le> unat buf + unat (ar_capacity ar)) (alloc_seq ar szs)
    \<and> map snd (alloc_seq ar szs) = granted (unat (ar_capacity ar) - unat (ar_used ar)) (map unat szs)"
  using alloc_seq_sound [OF assms] by (auto simp: list_all_iff)

theorem arena_blocks_disjoint_witness:
  "blocks_disjoint (alloc_seq \<lparr>ar_buf = Some 4096, ar_capacity = 64, ar_used = 0, ar_alloc_count = 0\<rparr> [5, 100, 8])
   \<and> map snd (alloc_seq \<lparr>ar_buf = Some 4096, ar_capacity = 64, ar_used = 0, ar_alloc_count = 0\<rparr> [5, 100, 8]) = [5, 8]"
  using arena_blocks_disjoint [of "\<lparr>ar_buf = Some 4096, ar_capacity = 64, ar_used = 0, ar_alloc_count = 0\<rparr>" 4096 "[5, 100, 8]"]
  by (simp add: arena_inv_def fits_def buffer_ok_def word_round_def del: alloc_seq.simps)

text \<open>
  The capacity check wraps around: for the largest 32-bit request the rounded size is
  zero, so an arena that is already full still returns a non-NULL pointer and reserves
  nothing for it.
\<close>

theorem arena_alloc_size_wraps:
  assumes "ar_buf ar = Some buf" and "ar_used ar \<le> ar_capacity ar"
  shows "arena_alloc (Some ar) (- 1) =
    (Some (buf + ar_used ar), Some (ar\<lparr>ar_alloc_count := ar_alloc_count ar + 1\<rparr>))"
proof -
  have "align_up (- 1) ARENA_ALIGN = 0"
    by (simp add: align_up_def c_consts)
  with assms show ?thesis by (simp add: arena_alloc_def Let_def not_less)
qed

theorem arena_alloc_size_wraps_witness:
  "arena_alloc (Some \<lparr>ar_buf = Some 4096, ar_capacity = 8, ar_used = 8, ar_alloc_count = 1\<rparr>) (- 1) =
    (Some 4104, Some \<lparr>ar_buf = Some 4096, ar_capacity = 8, ar_used = 8, ar_alloc_count = 2\<rparr>)"
  using arena_alloc_size_wraps
    [of "\<lparr>ar_buf = Some 4096, ar_capacity = 8, ar_used = 8, ar_alloc_count = 1\<rparr>" 4096]
  by simp

end
