(* ===== verification/Audio_Focus.thy ===== *)
theory Audio_Focus
  imports Prelude
begin

text \<open>
  The audio focus manager (\<^verbatim>\<open>services/audioservice/audio_focus_manager.c\<close>): the AI
  voice and the music player share the speaker; AI preempts music, music is suspended and
  restored, and the focus of a process that died is reclaimed.

  The record is \<^verbatim>\<open>struct audio_focus_state_s\<close>; the event array and its count are the
  list of its live prefix. Function pointers are addresses (\<open>None\<close> is NULL). Outside the
  repository, and therefore arguments: the answer of \<^verbatim>\<open>kill(pid, 0)\<close> (0 or the errno)
  for every process, the results of the RTOS calls, and the calling process's
  \<^verbatim>\<open>getpid()\<close>. Operations run under the manager's mutex, so each is one step.
\<close>

section \<open>State\<close>

abbreviation (input) AUDIO_FOCUS_IDLE :: int where "AUDIO_FOCUS_IDLE \<equiv> 0"
abbreviation (input) AUDIO_FOCUS_AI :: int where "AUDIO_FOCUS_AI \<equiv> 1"
abbreviation (input) AUDIO_FOCUS_MUSIC :: int where "AUDIO_FOCUS_MUSIC \<equiv> 2"
abbreviation (input) AUDIO_FOCUS_CHANGE_GAIN :: int where "AUDIO_FOCUS_CHANGE_GAIN \<equiv> 1"
abbreviation (input) AUDIO_FOCUS_CHANGE_LOSS :: int where "AUDIO_FOCUS_CHANGE_LOSS \<equiv> - 1"
abbreviation (input) AUDIO_FOCUS_CHANGE_LOSS_TRANSIENT :: int
  where "AUDIO_FOCUS_CHANGE_LOSS_TRANSIENT \<equiv> - 2"
abbreviation (input) AUDIO_FOCUS_GAIN :: int where "AUDIO_FOCUS_GAIN \<equiv> 1"
abbreviation (input) AUDIO_FOCUS_GAIN_TRANSIENT :: int where "AUDIO_FOCUS_GAIN_TRANSIENT \<equiv> 2"

definition AUDIO_FOCUS_PENDING_SLOTS :: nat where [c_consts]: "AUDIO_FOCUS_PENDING_SLOTS = 4"
definition AUDIO_FOCUS_EVENT_QUEUE :: nat where [c_consts]: "AUDIO_FOCUS_EVENT_QUEUE = 8"

record focus_slot =
  fs_pid :: int
  fs_change_cb :: "nat option"
  fs_lost_cb :: "nat option"

record focus_event =
  ev_pid :: int
  ev_change :: int
  ev_change_cb :: "nat option"
  ev_lost_cb :: "nat option"

record focus_state =
  af_initialized :: bool
  af_owner :: int
  af_owner_pid :: int
  af_owner_refcount :: u32
  af_has_suspended_music :: bool
  af_suspended_music_pid :: int
  af_suspended_music_refcount :: u32
  af_callback :: "focus_slot list"
  af_pending :: "focus_slot list"
  af_events :: "focus_event list"

definition zero_slot :: focus_slot where
  "zero_slot = \<lparr>fs_pid = 0, fs_change_cb = None, fs_lost_cb = None\<rparr>"

definition zero_focus :: focus_state where
  "zero_focus = \<lparr>af_initialized = False, af_owner = 0, af_owner_pid = 0, af_owner_refcount = 0,
     af_has_suspended_music = False, af_suspended_music_pid = 0, af_suspended_music_refcount = 0,
     af_callback = replicate 3 zero_slot,
     af_pending = replicate AUDIO_FOCUS_PENDING_SLOTS zero_slot, af_events = []\<rparr>"

text \<open>The results of the RTOS calls an operation makes.\<close>

record focus_os =
  os_mutex_init :: int
  os_sem_init_errno :: int
  os_thread_create :: int
  os_mutex_lock :: int

section \<open>Helpers\<close>

definition audio_focus_type_valid :: "int \<Rightarrow> bool" where
  "audio_focus_type_valid type \<longleftrightarrow> type = AUDIO_FOCUS_AI \<or> type = AUDIO_FOCUS_MUSIC"

definition audio_focus_gain_valid :: "int \<Rightarrow> bool" where
  "audio_focus_gain_valid gain \<longleftrightarrow> gain = AUDIO_FOCUS_GAIN \<or> gain = AUDIO_FOCUS_GAIN_TRANSIENT"

definition audio_focus_pid_alive :: "(int \<Rightarrow> int) \<Rightarrow> int \<Rightarrow> bool" where
  "audio_focus_pid_alive kill pid \<longleftrightarrow> pid > 0 \<and> (kill pid = 0 \<or> kill pid = EPERM)"

definition audio_focus_add_timeout :: "int \<Rightarrow> timespec \<Rightarrow> timespec" where
  "audio_focus_add_timeout monitor_interval_ms ts = timespec_add_ms ts monitor_interval_ms"

definition audio_focus_find_pending_slot :: "focus_state \<Rightarrow> int \<Rightarrow> nat option" where
  "audio_focus_find_pending_slot s pid = first_idx (\<lambda>p. fs_pid p = pid) (af_pending s)"

definition audio_focus_find_free_pending_slot :: "focus_state \<Rightarrow> nat option" where
  "audio_focus_find_free_pending_slot s = first_idx (\<lambda>p. fs_pid p = 0) (af_pending s)"

definition audio_focus_find_callback_owner_by_pid :: "focus_state \<Rightarrow> int \<Rightarrow> int" where
  "audio_focus_find_callback_owner_by_pid s pid =
     (if fs_pid (af_callback s ! 1) = pid then AUDIO_FOCUS_AI
      else if fs_pid (af_callback s ! 2) = pid then AUDIO_FOCUS_MUSIC
      else AUDIO_FOCUS_IDLE)"

definition audio_focus_enqueue_event_locked ::
  "focus_slot \<Rightarrow> int \<Rightarrow> focus_state \<Rightarrow> bool \<times> focus_state"
where
  "audio_focus_enqueue_event_locked slot change s =
     (if fs_pid slot \<le> 0 then (False, s)
      else if fs_change_cb slot = None \<and> fs_lost_cb slot = None then (False, s)
      else if length (af_events s) \<ge> AUDIO_FOCUS_EVENT_QUEUE then (False, s)
      else (True, s\<lparr>af_events := af_events s @
              [\<lparr>ev_pid = fs_pid slot, ev_change = change, ev_change_cb = fs_change_cb slot,
                ev_lost_cb = fs_lost_cb slot\<rparr>]\<rparr>))"

definition audio_focus_assign_pending_locked :: "int \<Rightarrow> int \<Rightarrow> focus_state \<Rightarrow> focus_state" where
  "audio_focus_assign_pending_locked pid type s =
     (case audio_focus_find_pending_slot s pid of
        None \<Rightarrow> s
      | Some idx \<Rightarrow>
          if \<not> audio_focus_type_valid type then s
          else s\<lparr>af_callback := (af_callback s)[nat type :=
                     \<lparr>fs_pid = pid, fs_change_cb = fs_change_cb (af_pending s ! idx),
                      fs_lost_cb = fs_lost_cb (af_pending s ! idx)\<rparr>],
                 af_pending := (af_pending s)[idx := zero_slot]\<rparr>)"

definition audio_focus_set_owner_locked :: "int \<Rightarrow> int \<Rightarrow> u32 \<Rightarrow> focus_state \<Rightarrow> focus_state" where
  "audio_focus_set_owner_locked type pid refcount s =
     s\<lparr>af_owner := type, af_owner_pid := pid, af_owner_refcount := refcount\<rparr>"

definition clear_suspended :: "focus_state \<Rightarrow> focus_state" where
  "clear_suspended s = s\<lparr>af_has_suspended_music := False, af_suspended_music_pid := 0,
     af_suspended_music_refcount := 0\<rparr>"

definition audio_focus_restore_music_locked :: "focus_state \<Rightarrow> focus_state" where
  "audio_focus_restore_music_locked s =
     (let s1 = audio_focus_set_owner_locked AUDIO_FOCUS_MUSIC (af_suspended_music_pid s)
                 (af_suspended_music_refcount s) s;
          s2 = clear_suspended s1
      in snd (audio_focus_enqueue_event_locked (af_callback s2 ! 2) AUDIO_FOCUS_CHANGE_GAIN s2))"

definition reap_slot :: "(int \<Rightarrow> int) \<Rightarrow> focus_slot \<Rightarrow> focus_slot" where
  "reap_slot kill p =
     (if fs_pid p > 0 \<and> \<not> audio_focus_pid_alive kill (fs_pid p) then zero_slot else p)"

definition reap_owner :: "(int \<Rightarrow> int) \<Rightarrow> focus_state \<Rightarrow> focus_state" where
  "reap_owner kill s =
     (if af_owner s \<noteq> AUDIO_FOCUS_IDLE \<and> \<not> audio_focus_pid_alive kill (af_owner_pid s)
      then (if af_owner s = AUDIO_FOCUS_AI \<and> af_has_suspended_music s
               \<and> audio_focus_pid_alive kill (af_suspended_music_pid s)
            then audio_focus_restore_music_locked s
            else clear_suspended (audio_focus_set_owner_locked AUDIO_FOCUS_IDLE 0 0 s))
      else s)"

definition reap_suspended :: "(int \<Rightarrow> int) \<Rightarrow> focus_state \<Rightarrow> focus_state" where
  "reap_suspended kill s =
     (if af_has_suspended_music s \<and> \<not> audio_focus_pid_alive kill (af_suspended_music_pid s)
      then clear_suspended s else s)"

definition audio_focus_clear_dead_slots_locked :: "(int \<Rightarrow> int) \<Rightarrow> focus_state \<Rightarrow> focus_state" where
  "audio_focus_clear_dead_slots_locked kill s =
     (let s2 = reap_suspended kill (reap_owner kill s)
      in s2\<lparr>af_callback := take 1 (af_callback s2) @ map (reap_slot kill) (drop 1 (af_callback s2)),
            af_pending := map (reap_slot kill) (af_pending s2)\<rparr>)"

section \<open>Event delivery\<close>

datatype notification = Change_cb nat int | Lost_cb nat

definition deliver_event :: "focus_event \<Rightarrow> notification list" where
  "deliver_event e =
     (case ev_change_cb e of None \<Rightarrow> [] | Some f \<Rightarrow> [Change_cb f (ev_change e)]) @
     (case ev_lost_cb e of None \<Rightarrow> [] | Some f \<Rightarrow> if ev_change e < 0 then [Lost_cb f] else [])"

text \<open>
  The worker reaps and takes the queue under the lock (\<open>kill\<close>) and calls back after
  releasing it (\<open>kill'\<close>): the two liveness answers may differ.
\<close>

definition audio_focus_drain_events ::
  "focus_os \<Rightarrow> (int \<Rightarrow> int) \<Rightarrow> (int \<Rightarrow> int) \<Rightarrow> focus_state \<Rightarrow> bool \<times> notification list \<times> focus_state"
where
  "audio_focus_drain_events os kill kill' s =
     (if os_mutex_lock os < 0 then (False, [], s)
      else let s1 = audio_focus_clear_dead_slots_locked kill s; events = af_events s1
           in (events \<noteq> [],
               concat (map (\<lambda>e. if audio_focus_pid_alive kill' (ev_pid e) then deliver_event e else [])
                         events),
               s1\<lparr>af_events := []\<rparr>))"

section \<open>Operations\<close>

definition audio_focus_manager_init :: "focus_os \<Rightarrow> focus_state \<Rightarrow> int \<times> focus_state" where
  "audio_focus_manager_init os s =
     (if af_initialized s then (OK, s)
      else if os_mutex_init os < 0 then (os_mutex_init os, zero_focus)
      else if os_sem_init_errno os \<noteq> 0 then (- os_sem_init_errno os, zero_focus)
      else if os_thread_create os \<noteq> 0 then (- os_thread_create os, zero_focus)
      else (OK, audio_focus_set_owner_locked AUDIO_FOCUS_IDLE 0 0
                  (zero_focus\<lparr>af_initialized := True\<rparr>)))"

text \<open>
  Entering an operation: initialise on first use, take the lock, reap the dead. An error
  return of either call is \<open>Inl\<close>.
\<close>

definition focus_enter ::
  "focus_os \<Rightarrow> (int \<Rightarrow> int) \<Rightarrow> focus_state \<Rightarrow> (int \<times> focus_state) + focus_state"
where
  "focus_enter os kill s =
     (case audio_focus_manager_init os s of
        (ret, s1) \<Rightarrow>
          if ret < 0 then Inl (ret, s1)
          else if os_mutex_lock os < 0 then Inl (os_mutex_lock os, s1)
          else Inr (audio_focus_clear_dead_slots_locked kill s1))"

text \<open>The body of a request under the lock: return code, whether the worker is woken, new state.\<close>

definition request_locked ::
  "int \<Rightarrow> int \<Rightarrow> int \<Rightarrow> focus_state \<Rightarrow> int \<times> bool \<times> focus_state"
where
  "request_locked pid type gain_type s0 =
     (let s = audio_focus_assign_pending_locked pid type s0 in
      if af_owner s = AUDIO_FOCUS_IDLE
      then (OK, False, audio_focus_set_owner_locked type pid 1 s)
      else if af_owner s = type
      then (if af_owner_pid s \<noteq> pid then (- EBUSY, False, s)
            else (OK, False, s\<lparr>af_owner_refcount := af_owner_refcount s + 1\<rparr>))
      else if type = AUDIO_FOCUS_MUSIC then (- EBUSY, False, s)
      else if af_owner s = AUDIO_FOCUS_MUSIC
      then (let slot = af_callback s ! 2;
                (woken, s1) =
                  (if gain_type = AUDIO_FOCUS_GAIN_TRANSIENT
                   then audio_focus_enqueue_event_locked slot AUDIO_FOCUS_CHANGE_LOSS_TRANSIENT
                          (s\<lparr>af_has_suspended_music := True,
                             af_suspended_music_pid := af_owner_pid s,
                             af_suspended_music_refcount := af_owner_refcount s\<rparr>)
                   else audio_focus_enqueue_event_locked slot AUDIO_FOCUS_CHANGE_LOSS
                          (clear_suspended s));
                s2 = audio_focus_set_owner_locked AUDIO_FOCUS_AI pid 1 s1
            in (OK, woken, audio_focus_assign_pending_locked pid AUDIO_FOCUS_AI s2))
      else (- EBUSY, False, s))"

definition audio_focus_request_ex ::
  "focus_os \<Rightarrow> (int \<Rightarrow> int) \<Rightarrow> int \<Rightarrow> int \<Rightarrow> int \<Rightarrow> focus_state \<Rightarrow> int \<times> bool \<times> focus_state"
where
  "audio_focus_request_ex os kill pid type gain_type s =
     (if \<not> audio_focus_type_valid type \<or> \<not> audio_focus_gain_valid gain_type
      then (- EINVAL, False, s)
      else (case focus_enter os kill s of
              Inl (ret, s1) \<Rightarrow> (ret, False, s1)
            | Inr s1 \<Rightarrow> request_locked pid type gain_type s1))"

definition audio_focus_request ::
  "focus_os \<Rightarrow> (int \<Rightarrow> int) \<Rightarrow> int \<Rightarrow> int \<Rightarrow> focus_state \<Rightarrow> int \<times> bool \<times> focus_state"
where
  "audio_focus_request os kill pid type s =
     (if \<not> audio_focus_type_valid type then (- EINVAL, False, s)
      else audio_focus_request_ex os kill pid type
             (if type = AUDIO_FOCUS_AI then AUDIO_FOCUS_GAIN_TRANSIENT else AUDIO_FOCUS_GAIN) s)"

definition release_locked :: "(int \<Rightarrow> int) \<Rightarrow> int \<Rightarrow> int \<Rightarrow> focus_state \<Rightarrow> int \<times> bool \<times> focus_state" where
  "release_locked kill pid type s =
     (if af_owner s \<noteq> type \<or> af_owner_pid s \<noteq> pid then (OK, False, s)
      else if af_owner_refcount s > 1
      then (OK, False, s\<lparr>af_owner_refcount := af_owner_refcount s - 1\<rparr>)
      else if type = AUDIO_FOCUS_AI \<and> af_has_suspended_music s
              \<and> audio_focus_pid_alive kill (af_suspended_music_pid s)
      then (OK, True, audio_focus_restore_music_locked s)
      else (OK, False, clear_suspended (audio_focus_set_owner_locked AUDIO_FOCUS_IDLE 0 0 s)))"

definition audio_focus_release ::
  "focus_os \<Rightarrow> (int \<Rightarrow> int) \<Rightarrow> int \<Rightarrow> int \<Rightarrow> focus_state \<Rightarrow> int \<times> bool \<times> focus_state"
where
  "audio_focus_release os kill pid type s =
     (if \<not> audio_focus_type_valid type then (- EINVAL, False, s)
      else (case focus_enter os kill s of
              Inl (ret, s1) \<Rightarrow> (ret, False, s1)
            | Inr s1 \<Rightarrow> release_locked kill pid type s1))"

definition audio_focus_get_owner :: "focus_os \<Rightarrow> (int \<Rightarrow> int) \<Rightarrow> focus_state \<Rightarrow> int \<times> focus_state" where
  "audio_focus_get_owner os kill s =
     (case focus_enter os kill s of
        Inl (ret, s1) \<Rightarrow> (ret, s1)
      | Inr s1 \<Rightarrow> (af_owner s1, s1))"

text \<open>
  Both registrations store a callback with the same search: the focus the caller owns, else
  the slot it is known by, else a pending slot. \<open>upd\<close> is the field update.
\<close>

definition register_cb_locked ::
  "(focus_slot \<Rightarrow> focus_slot) \<Rightarrow> int \<Rightarrow> focus_state \<Rightarrow> int \<times> focus_state"
where
  "register_cb_locked upd pid s =
     (if af_owner s \<noteq> AUDIO_FOCUS_IDLE \<and> af_owner_pid s = pid
      then (OK, s\<lparr>af_callback := (af_callback s)[nat (af_owner s) :=
                    upd ((af_callback s ! nat (af_owner s))\<lparr>fs_pid := pid\<rparr>)]\<rparr>)
      else let type = audio_focus_find_callback_owner_by_pid s pid
           in if type \<noteq> AUDIO_FOCUS_IDLE
              then (OK, s\<lparr>af_callback := (af_callback s)[nat type := upd (af_callback s ! nat type)]\<rparr>)
              else (case (case audio_focus_find_pending_slot s pid of
                            Some i \<Rightarrow> Some i
                          | None \<Rightarrow> audio_focus_find_free_pending_slot s) of
                      None \<Rightarrow> (- ENOMEM, s)
                    | Some idx \<Rightarrow>
                        (OK, s\<lparr>af_pending := (af_pending s)[idx :=
                                 upd ((af_pending s ! idx)\<lparr>fs_pid := pid\<rparr>)]\<rparr>)))"

definition audio_focus_register_change_cb ::
  "focus_os \<Rightarrow> (int \<Rightarrow> int) \<Rightarrow> int \<Rightarrow> nat option \<Rightarrow> focus_state \<Rightarrow> int \<times> focus_state"
where
  "audio_focus_register_change_cb os kill pid cb s =
     (if cb = None then (- EINVAL, s)
      else (case focus_enter os kill s of
              Inl (ret, s1) \<Rightarrow> (ret, s1)
            | Inr s1 \<Rightarrow> register_cb_locked (\<lambda>p. p\<lparr>fs_change_cb := cb\<rparr>) pid s1))"

definition audio_focus_register_lost_cb ::
  "focus_os \<Rightarrow> (int \<Rightarrow> int) \<Rightarrow> int \<Rightarrow> nat option \<Rightarrow> focus_state \<Rightarrow> int \<times> focus_state"
where
  "audio_focus_register_lost_cb os kill pid cb s =
     (if cb = None then (- EINVAL, s)
      else (case focus_enter os kill s of
              Inl (ret, s1) \<Rightarrow> (ret, s1)
            | Inr s1 \<Rightarrow> register_cb_locked (\<lambda>p. p\<lparr>fs_lost_cb := cb\<rparr>) pid s1))"

section \<open>The invariant\<close>

definition slots_ok :: "focus_state \<Rightarrow> bool" where
  "slots_ok s \<longleftrightarrow> length (af_callback s) = 3 \<and> length (af_pending s) = AUDIO_FOCUS_PENDING_SLOTS
     \<and> list_all (\<lambda>p. 0 \<le> fs_pid p) (af_callback s) \<and> list_all (\<lambda>p. 0 \<le> fs_pid p) (af_pending s)
     \<and> distinct (filter (\<lambda>x. x \<noteq> 0) (map fs_pid (af_pending s)))"

definition events_ok :: "focus_state \<Rightarrow> bool" where
  "events_ok s \<longleftrightarrow> length (af_events s) \<le> AUDIO_FOCUS_EVENT_QUEUE
     \<and> list_all (\<lambda>e. 0 < ev_pid e \<and> (ev_change_cb e \<noteq> None \<or> ev_lost_cb e \<noteq> None)) (af_events s)"

definition owner_ok :: "focus_state \<Rightarrow> bool" where
  "owner_ok s \<longleftrightarrow>
     (if af_owner s = AUDIO_FOCUS_IDLE then af_owner_pid s = 0 \<and> af_owner_refcount s = 0
      else audio_focus_type_valid (af_owner s) \<and> 0 < af_owner_pid s)
     \<and> (if af_has_suspended_music s
         then af_owner s = AUDIO_FOCUS_AI \<and> 0 < af_suspended_music_pid s
         else af_suspended_music_pid s = 0 \<and> af_suspended_music_refcount s = 0)"

definition af_inv :: "focus_state \<Rightarrow> bool" where
  "af_inv s \<longleftrightarrow> slots_ok s \<and> events_ok s \<and> owner_ok s"

lemma filter_nonzero_map_zero:
  fixes xs :: "focus_slot list"
  assumes "distinct (filter (\<lambda>x. x \<noteq> 0) (map fs_pid xs))"
  shows "distinct (filter (\<lambda>x. x \<noteq> 0) (map fs_pid (map (reap_slot kill) xs)))"
  using assms by (induction xs) (auto simp: reap_slot_def zero_slot_def split: if_splits)

lemma focus_type_valid_simps [simp]:
  "audio_focus_type_valid AUDIO_FOCUS_AI" "audio_focus_type_valid AUDIO_FOCUS_MUSIC"
  "\<not> audio_focus_type_valid AUDIO_FOCUS_IDLE"
  by (simp_all add: audio_focus_type_valid_def)

lemma zero_slot_pid [simp]: "fs_pid zero_slot = 0"
  by (simp add: zero_slot_def)

lemma zero_focus_inv: "af_inv zero_focus"
  by (simp add: af_inv_def slots_ok_def events_ok_def owner_ok_def zero_focus_def
      AUDIO_FOCUS_PENDING_SLOTS_def eval_nat_numeral)

subsection \<open>Each helper keeps it\<close>

lemma enqueue_owner [simp]:
  "owner_ok (snd (audio_focus_enqueue_event_locked slot change s)) = owner_ok s"
  "slots_ok (snd (audio_focus_enqueue_event_locked slot change s)) = slots_ok s"
  by (simp_all add: audio_focus_enqueue_event_locked_def owner_ok_def slots_ok_def)

lemma enqueue_fields [simp]:
  "af_owner (snd (audio_focus_enqueue_event_locked slot change s)) = af_owner s"
  "af_owner_pid (snd (audio_focus_enqueue_event_locked slot change s)) = af_owner_pid s"
  "af_owner_refcount (snd (audio_focus_enqueue_event_locked slot change s)) = af_owner_refcount s"
  "af_has_suspended_music (snd (audio_focus_enqueue_event_locked slot change s)) = af_has_suspended_music s"
  "af_suspended_music_pid (snd (audio_focus_enqueue_event_locked slot change s)) = af_suspended_music_pid s"
  "af_suspended_music_refcount (snd (audio_focus_enqueue_event_locked slot change s)) =
     af_suspended_music_refcount s"
  "af_callback (snd (audio_focus_enqueue_event_locked slot change s)) = af_callback s"
  "af_pending (snd (audio_focus_enqueue_event_locked slot change s)) = af_pending s"
  "af_initialized (snd (audio_focus_enqueue_event_locked slot change s)) = af_initialized s"
  by (simp_all add: audio_focus_enqueue_event_locked_def)

lemma enqueue_events:
  "events_ok s \<Longrightarrow> events_ok (snd (audio_focus_enqueue_event_locked slot change s))"
  by (auto simp: audio_focus_enqueue_event_locked_def events_ok_def)

lemma assign_pending_fields [simp]:
  "af_owner (audio_focus_assign_pending_locked pid type s) = af_owner s"
  "af_owner_pid (audio_focus_assign_pending_locked pid type s) = af_owner_pid s"
  "af_owner_refcount (audio_focus_assign_pending_locked pid type s) = af_owner_refcount s"
  "af_has_suspended_music (audio_focus_assign_pending_locked pid type s) = af_has_suspended_music s"
  "af_suspended_music_pid (audio_focus_assign_pending_locked pid type s) = af_suspended_music_pid s"
  "af_suspended_music_refcount (audio_focus_assign_pending_locked pid type s) =
     af_suspended_music_refcount s"
  "af_events (audio_focus_assign_pending_locked pid type s) = af_events s"
  "af_initialized (audio_focus_assign_pending_locked pid type s) = af_initialized s"
  by (simp_all add: audio_focus_assign_pending_locked_def split: option.splits)

lemma assign_pending_slots:
  assumes "slots_ok s" "0 < pid"
  shows "slots_ok (audio_focus_assign_pending_locked pid type s)"
  using assms
  by (auto simp: audio_focus_assign_pending_locked_def slots_ok_def map_update
      intro!: list_all_update filter_update_distinct split: option.splits)

lemma events_ok_cong: "af_events s = af_events t \<Longrightarrow> events_ok s = events_ok t"
  by (simp add: events_ok_def)

lemma slots_ok_cong:
  "af_callback s = af_callback t \<Longrightarrow> af_pending s = af_pending t \<Longrightarrow> slots_ok s = slots_ok t"
  by (simp add: slots_ok_def)

lemma owner_ok_cong:
  "af_owner s = af_owner t \<Longrightarrow> af_owner_pid s = af_owner_pid t \<Longrightarrow>
   af_owner_refcount s = af_owner_refcount t \<Longrightarrow>
   af_has_suspended_music s = af_has_suspended_music t \<Longrightarrow>
   af_suspended_music_pid s = af_suspended_music_pid t \<Longrightarrow>
   af_suspended_music_refcount s = af_suspended_music_refcount t \<Longrightarrow> owner_ok s = owner_ok t"
  by (simp add: owner_ok_def)

lemma assign_pending_inv:
  "af_inv s \<Longrightarrow> 0 < pid \<Longrightarrow> af_inv (audio_focus_assign_pending_locked pid type s)"
  unfolding af_inv_def
  by (auto simp: assign_pending_slots events_ok_def owner_ok_def)

lemma restore_music_inv:
  assumes "af_inv s" "af_has_suspended_music s"
  shows "af_inv (audio_focus_restore_music_locked s)"
proof -
  define t where "t = clear_suspended (audio_focus_set_owner_locked AUDIO_FOCUS_MUSIC
    (af_suspended_music_pid s) (af_suspended_music_refcount s) s)"
  have "owner_ok t" "slots_ok t" "events_ok t"
    using assms by (simp_all add: t_def af_inv_def audio_focus_set_owner_locked_def
        clear_suspended_def owner_ok_def slots_ok_def audio_focus_type_valid_def events_ok_def)
  then show ?thesis
    unfolding audio_focus_restore_music_locked_def Let_def t_def [symmetric]
    by (simp add: af_inv_def enqueue_events)
qed

lemma idle_inv:
  "af_inv s \<Longrightarrow> af_inv (clear_suspended (audio_focus_set_owner_locked AUDIO_FOCUS_IDLE 0 0 s))"
  by (simp add: af_inv_def clear_suspended_def audio_focus_set_owner_locked_def owner_ok_def
      slots_ok_def events_ok_def)

lemma clear_suspended_inv: "af_inv s \<Longrightarrow> af_inv (clear_suspended s)"
  by (auto simp: af_inv_def clear_suspended_def owner_ok_def slots_ok_def events_ok_def)

lemma clear_dead_inv:
  assumes "af_inv s"
  shows "af_inv (audio_focus_clear_dead_slots_locked kill s)"
proof -
  define t where "t = reap_suspended kill (reap_owner kill s)"
  have t: "af_inv t"
    unfolding t_def reap_suspended_def reap_owner_def
    using assms by (simp add: restore_music_inv idle_inv clear_suspended_inv)
  have reap0: "0 \<le> fs_pid (reap_slot kill p)" if "0 \<le> fs_pid p" for p
    using that by (simp add: reap_slot_def)
  have "slots_ok (t\<lparr>af_callback := take 1 (af_callback t) @ map (reap_slot kill) (drop 1 (af_callback t)),
      af_pending := map (reap_slot kill) (af_pending t)\<rparr>)"
    using t reap0 filter_nonzero_map_zero [of "af_pending t" kill]
    by (auto simp: af_inv_def slots_ok_def list_all_iff dest: in_set_takeD in_set_dropD)
  then show ?thesis
    using t unfolding audio_focus_clear_dead_slots_locked_def Let_def t_def [symmetric]
    by (simp add: af_inv_def events_ok_def owner_ok_def)
qed

subsection \<open>Each operation keeps it\<close>

lemma init_inv: "af_inv s \<Longrightarrow> af_inv (snd (audio_focus_manager_init os s))"
  using zero_focus_inv
  by (auto simp: audio_focus_manager_init_def audio_focus_set_owner_locked_def af_inv_def
      owner_ok_def slots_ok_def events_ok_def zero_focus_def)

lemma enter_inv:
  "af_inv s \<Longrightarrow> (case focus_enter os kill s of Inl (ret, t) \<Rightarrow> af_inv t | Inr t \<Rightarrow> af_inv t)"
  using init_inv [of s os] clear_dead_inv
  by (auto simp: focus_enter_def split: prod.splits)

lemma preempt_owner_ok:
  "0 < pid \<Longrightarrow> owner_ok s \<Longrightarrow> af_owner s = AUDIO_FOCUS_MUSIC \<Longrightarrow>
   owner_ok (audio_focus_set_owner_locked AUDIO_FOCUS_AI pid 1
     (snd (audio_focus_enqueue_event_locked slot change
       (s\<lparr>af_has_suspended_music := True, af_suspended_music_pid := af_owner_pid s,
          af_suspended_music_refcount := af_owner_refcount s\<rparr>))))"
  "0 < pid \<Longrightarrow>
   owner_ok (audio_focus_set_owner_locked AUDIO_FOCUS_AI pid 1
     (snd (audio_focus_enqueue_event_locked slot change (clear_suspended s))))"
  by (simp_all add: owner_ok_def audio_focus_set_owner_locked_def clear_suspended_def)

lemma set_owner_parts [simp]:
  "slots_ok (audio_focus_set_owner_locked type pid refcount s) = slots_ok s"
  "events_ok (audio_focus_set_owner_locked type pid refcount s) = events_ok s"
  "slots_ok (clear_suspended s) = slots_ok s" "events_ok (clear_suspended s) = events_ok s"
  by (simp_all add: audio_focus_set_owner_locked_def clear_suspended_def slots_ok_def events_ok_def)

lemma suspend_parts [simp]:
  "slots_ok (s\<lparr>af_has_suspended_music := b, af_suspended_music_pid := p,
     af_suspended_music_refcount := n\<rparr>) = slots_ok s"
  "events_ok (s\<lparr>af_has_suspended_music := b, af_suspended_music_pid := p,
     af_suspended_music_refcount := n\<rparr>) = events_ok s"
  by (simp_all add: slots_ok_def events_ok_def)

lemma refcount_inv:
  "af_inv s \<Longrightarrow> audio_focus_type_valid (af_owner s) \<Longrightarrow> af_inv (s\<lparr>af_owner_refcount := n\<rparr>)"
  by (auto simp: af_inv_def slots_ok_def events_ok_def owner_ok_def)

lemma request_locked_inv:
  assumes inv: "af_inv s0" and pid: "0 < pid" and ty: "audio_focus_type_valid type"
  shows "af_inv (snd (snd (request_locked pid type gain s0)))"
proof -
  define s where "s = audio_focus_assign_pending_locked pid type s0"
  have s: "af_inv s" unfolding s_def by (rule assign_pending_inv [OF inv pid])
  have idle: "af_inv (audio_focus_set_owner_locked type pid 1 s)" if "af_owner s = AUDIO_FOCUS_IDLE"
    using s pid ty that
    by (auto simp: af_inv_def owner_ok_def audio_focus_set_owner_locked_def slots_ok_def events_ok_def
        split: if_splits)
  have pre: "af_inv (audio_focus_assign_pending_locked pid AUDIO_FOCUS_AI t)"
    if "owner_ok t" "slots_ok t" "events_ok t" for t
    using assign_pending_inv [of t pid] that pid by (simp add: af_inv_def)
  note parts = s [unfolded af_inv_def]
  have transient: "af_inv (audio_focus_assign_pending_locked pid AUDIO_FOCUS_AI
      (audio_focus_set_owner_locked AUDIO_FOCUS_AI pid 1 (snd (audio_focus_enqueue_event_locked slot c
        (s\<lparr>af_has_suspended_music := True, af_suspended_music_pid := q,
           af_suspended_music_refcount := af_owner_refcount s\<rparr>)))))"
    if "af_owner s = AUDIO_FOCUS_MUSIC" "af_owner_pid s = q" for slot c q
    using parts that(1) pid unfolding that(2) [symmetric] by (intro pre preempt_owner_ok) (simp_all add: enqueue_events)
  have permanent: "af_inv (audio_focus_assign_pending_locked pid AUDIO_FOCUS_AI
      (audio_focus_set_owner_locked AUDIO_FOCUS_AI pid 1 (snd (audio_focus_enqueue_event_locked slot c
        (clear_suspended s)))))" for slot c
    using parts pid by (intro pre preempt_owner_ok) (simp_all add: enqueue_events)
  show ?thesis
    using s ty idle transient permanent
    unfolding request_locked_def Let_def s_def [symmetric]
    by (simp add: refcount_inv case_prod_beta)
qed

lemma release_locked_inv:
  "af_inv s \<Longrightarrow> audio_focus_type_valid type \<Longrightarrow> af_inv (snd (snd (release_locked kill pid type s)))"
  by (auto simp: release_locked_def refcount_inv restore_music_inv idle_inv)

lemma register_cb_locked_inv:
  assumes inv: "af_inv s" and pid: "0 < pid" and upd: "\<And>p. fs_pid (upd p) = fs_pid p"
  shows "af_inv (snd (register_cb_locked upd pid s))"
proof -
  have nn: "0 \<le> fs_pid (af_callback s ! nat t)" if "t = 1 \<or> t = 2" for t
    using inv that by (auto simp: af_inv_def slots_ok_def list_all_length)
  have found: "(map fs_pid (af_pending s))[i := pid] = map fs_pid (af_pending s)"
    if "audio_focus_find_pending_slot s pid = Some i" for i
    using first_idx_SomeD(1,2) [OF that [unfolded audio_focus_find_pending_slot_def]]
    by (auto intro!: nth_equalityI simp: nth_list_update)
  have fresh: "pid \<notin> fs_pid ` set (af_pending s)" if "audio_focus_find_pending_slot s pid = None"
    using that by (auto simp: audio_focus_find_pending_slot_def first_idx_None)
  show ?thesis
    using inv pid found fresh nn
    by (auto simp: register_cb_locked_def Let_def af_inv_def slots_ok_def events_ok_def owner_ok_def
        map_update upd audio_focus_find_callback_owner_by_pid_def
        intro!: list_all_update filter_update_distinct split: option.splits)
qed

section \<open>The transition system\<close>

text \<open>
  Processes with any positive pid call the operations in any order, with any answers of the
  operating system; the worker drains the queue in between.
\<close>

inductive focus_step :: "focus_state \<Rightarrow> focus_state \<Rightarrow> bool" where
  init: "focus_step s (snd (audio_focus_manager_init os s))"
| request: "0 < pid \<Longrightarrow> focus_step s (snd (snd (audio_focus_request_ex os kill pid type gain s)))"
| release: "focus_step s (snd (snd (audio_focus_release os kill pid type s)))"
| get_owner: "focus_step s (snd (audio_focus_get_owner os kill s))"
| change_cb: "0 < pid \<Longrightarrow> focus_step s (snd (audio_focus_register_change_cb os kill pid cb s))"
| lost_cb: "0 < pid \<Longrightarrow> focus_step s (snd (audio_focus_register_lost_cb os kill pid cb s))"
| drain: "focus_step s (snd (snd (audio_focus_drain_events os kill kill' s)))"

inductive_cases focus_stepE: "focus_step s t"

inductive focus_reachable :: "focus_state \<Rightarrow> bool" where
  start: "focus_reachable zero_focus"
| step: "focus_reachable s \<Longrightarrow> focus_step s t \<Longrightarrow> focus_reachable t"

lemma request_ex_inv:
  assumes "af_inv s" "0 < pid"
  shows "af_inv (snd (snd (audio_focus_request_ex os kill pid type gain s)))"
  using enter_inv [OF assms(1), of os kill] assms
  by (auto simp: audio_focus_request_ex_def request_locked_inv split: sum.splits prod.splits)

lemma release_inv:
  assumes "af_inv s"
  shows "af_inv (snd (snd (audio_focus_release os kill pid type s)))"
  using enter_inv [OF assms, of os kill] assms
  by (auto simp: audio_focus_release_def release_locked_inv split: sum.splits prod.splits)

lemma get_owner_inv: "af_inv s \<Longrightarrow> af_inv (snd (audio_focus_get_owner os kill s))"
  using enter_inv [of s os kill]
  by (auto simp: audio_focus_get_owner_def split: sum.splits prod.splits)

lemma register_change_cb_inv:
  assumes "af_inv s" "0 < pid"
  shows "af_inv (snd (audio_focus_register_change_cb os kill pid cb s))"
  using enter_inv [OF assms(1), of os kill] assms
  by (auto simp: audio_focus_register_change_cb_def register_cb_locked_inv split: sum.splits prod.splits)

lemma register_lost_cb_inv:
  assumes "af_inv s" "0 < pid"
  shows "af_inv (snd (audio_focus_register_lost_cb os kill pid cb s))"
  using enter_inv [OF assms(1), of os kill] assms
  by (auto simp: audio_focus_register_lost_cb_def register_cb_locked_inv split: sum.splits prod.splits)

lemma drain_inv:
  assumes "af_inv s"
  shows "af_inv (snd (snd (audio_focus_drain_events os kill kill' s)))"
  using assms clear_dead_inv [OF assms, of kill]
  by (simp add: audio_focus_drain_events_def Let_def af_inv_def events_ok_def slots_ok_def owner_ok_def)

lemmas focus_op_inv = init_inv request_ex_inv release_inv get_owner_inv register_change_cb_inv
  register_lost_cb_inv drain_inv

lemma focus_step_inv: "focus_step s t \<Longrightarrow> af_inv s \<Longrightarrow> af_inv t"
  by (induction rule: focus_step.induct) (simp_all add: focus_op_inv)

lemma focus_reachable_af_inv: "focus_reachable s \<Longrightarrow> af_inv s"
  by (induction rule: focus_reachable.induct) (auto intro: zero_focus_inv focus_step_inv)

section \<open>The contract of the speaker\<close>

text \<open>
  What the clients see: nobody, music, or AI with the music it interrupted. Processes are
  pids with the number of outstanding requests.
\<close>

datatype focus_view =
    Free
  | Music_held int u32
  | Ai_held int u32 "(int \<times> u32) option"

fun spec_reap :: "(int \<Rightarrow> bool) \<Rightarrow> focus_view \<Rightarrow> focus_view" where
  "spec_reap alive Free = Free"
| "spec_reap alive (Music_held p n) = (if alive p then Music_held p n else Free)"
| "spec_reap alive (Ai_held p n m) =
     (let m' = (case m of Some (q, k) \<Rightarrow> if alive q then m else None | None \<Rightarrow> None)
      in if alive p then Ai_held p n m'
         else (case m' of Some (q, k) \<Rightarrow> Music_held q k | None \<Rightarrow> Free))"

fun spec_request :: "int \<Rightarrow> int \<Rightarrow> int \<Rightarrow> focus_view \<Rightarrow> int \<times> focus_view" where
  "spec_request pid type gain Free =
     (OK, if type = AUDIO_FOCUS_AI then Ai_held pid 1 None else Music_held pid 1)"
| "spec_request pid type gain (Music_held p n) =
     (if type = AUDIO_FOCUS_AI
      then (OK, Ai_held pid 1 (if gain = AUDIO_FOCUS_GAIN_TRANSIENT then Some (p, n) else None))
      else if p = pid then (OK, Music_held p (n + 1))
      else (- EBUSY, Music_held p n))"
| "spec_request pid type gain (Ai_held p n m) =
     (if type = AUDIO_FOCUS_AI \<and> p = pid then (OK, Ai_held p (n + 1) m)
      else (- EBUSY, Ai_held p n m))"

fun spec_release :: "int \<Rightarrow> int \<Rightarrow> focus_view \<Rightarrow> focus_view" where
  "spec_release pid type Free = Free"
| "spec_release pid type (Music_held p n) =
     (if type = AUDIO_FOCUS_MUSIC \<and> p = pid then (if n > 1 then Music_held p (n - 1) else Free)
      else Music_held p n)"
| "spec_release pid type (Ai_held p n m) =
     (if type = AUDIO_FOCUS_AI \<and> p = pid
      then (if n > 1 then Ai_held p (n - 1) m
            else (case m of Some (q, k) \<Rightarrow> Music_held q k | None \<Rightarrow> Free))
      else Ai_held p n m)"

definition focus_view :: "focus_state \<Rightarrow> focus_view" where
  "focus_view s =
     (if af_owner s = AUDIO_FOCUS_IDLE then Free
      else if af_owner s = AUDIO_FOCUS_MUSIC then Music_held (af_owner_pid s) (af_owner_refcount s)
      else Ai_held (af_owner_pid s) (af_owner_refcount s)
             (if af_has_suspended_music s
              then Some (af_suspended_music_pid s, af_suspended_music_refcount s) else None))"

lemma alive_pos: "audio_focus_pid_alive kill p \<Longrightarrow> 0 < p"
  by (simp add: audio_focus_pid_alive_def)

lemma view_clear_dead:
  assumes "af_inv s"
  shows "focus_view (audio_focus_clear_dead_slots_locked kill s) =
    spec_reap (audio_focus_pid_alive kill) (focus_view s)"
  using assms
  by (auto simp: af_inv_def owner_ok_def focus_view_def audio_focus_clear_dead_slots_locked_def
      Let_def reap_suspended_def reap_owner_def audio_focus_restore_music_locked_def
      audio_focus_set_owner_locked_def clear_suspended_def audio_focus_type_valid_def split: if_splits)

lemma view_request:
  assumes "af_inv s" "audio_focus_type_valid type"
  shows "(case request_locked pid type gain s of (ret, _, t) \<Rightarrow> (ret, focus_view t)) =
    spec_request pid type gain (focus_view s)"
  using assms
  by (auto simp: af_inv_def owner_ok_def focus_view_def request_locked_def Let_def case_prod_beta
      audio_focus_set_owner_locked_def clear_suspended_def audio_focus_type_valid_def split: if_splits)

lemma view_release:
  assumes "af_inv s" "audio_focus_type_valid type"
    and "af_has_suspended_music s \<Longrightarrow> audio_focus_pid_alive kill (af_suspended_music_pid s)"
  shows "(case release_locked kill pid type s of (ret, _, t) \<Rightarrow> (ret, focus_view t)) =
    (OK, spec_release pid type (focus_view s))"
  using assms
  by (auto simp: af_inv_def owner_ok_def focus_view_def release_locked_def Let_def
      audio_focus_restore_music_locked_def
      audio_focus_set_owner_locked_def clear_suspended_def audio_focus_type_valid_def split: if_splits)

lemma clear_dead_suspended_alive:
  "af_inv s \<Longrightarrow> af_has_suspended_music (audio_focus_clear_dead_slots_locked kill s) \<Longrightarrow>
   audio_focus_pid_alive kill (af_suspended_music_pid (audio_focus_clear_dead_slots_locked kill s))"
  by (auto simp: audio_focus_clear_dead_slots_locked_def Let_def reap_suspended_def clear_suspended_def
      split: if_splits)

text \<open>
  The contract as an interface: an implementation with an invariant and a view whose
  operations reap the dead and then act on the view as specified. The environment \<open>e\<close>
  answers the operating-system calls of one operation.
\<close>

locale speaker =
  fixes inv :: "'s \<Rightarrow> bool" and view :: "'s \<Rightarrow> focus_view"
    and ready :: "'e \<Rightarrow> bool" and alive :: "'e \<Rightarrow> int \<Rightarrow> bool"
    and request :: "'e \<Rightarrow> int \<Rightarrow> int \<Rightarrow> int \<Rightarrow> 's \<Rightarrow> int \<times> 's"
    and release :: "'e \<Rightarrow> int \<Rightarrow> int \<Rightarrow> 's \<Rightarrow> int \<times> 's"
  assumes request_refines:
      "inv s \<Longrightarrow> ready e \<Longrightarrow> 0 < pid \<Longrightarrow> audio_focus_type_valid type \<Longrightarrow> audio_focus_gain_valid gain \<Longrightarrow>
       map_prod id view (request e pid type gain s) = spec_request pid type gain (spec_reap (alive e) (view s))"
    and request_keeps:
      "inv s \<Longrightarrow> ready e \<Longrightarrow> 0 < pid \<Longrightarrow> audio_focus_type_valid type \<Longrightarrow> audio_focus_gain_valid gain \<Longrightarrow>
       inv (snd (request e pid type gain s))"
    and release_refines:
      "inv s \<Longrightarrow> ready e \<Longrightarrow> audio_focus_type_valid type \<Longrightarrow>
       map_prod id view (release e pid type s) = (OK, spec_release pid type (spec_reap (alive e) (view s)))"
    and release_keeps:
      "inv s \<Longrightarrow> ready e \<Longrightarrow> audio_focus_type_valid type \<Longrightarrow> inv (snd (release e pid type s))"
begin

lemma request_view:
  assumes "inv s" "ready e" "0 < pid" "audio_focus_type_valid type" "audio_focus_gain_valid gain"
  shows "view (snd (request e pid type gain s)) =
      snd (spec_request pid type gain (spec_reap (alive e) (view s)))"
    "fst (request e pid type gain s) = fst (spec_request pid type gain (spec_reap (alive e) (view s)))"
  using request_refines [OF assms] by (metis fst_map_prod id_apply snd_map_prod)+

lemma release_view:
  assumes "inv s" "ready e" "audio_focus_type_valid type"
  shows "view (snd (release e pid type s)) = spec_release pid type (spec_reap (alive e) (view s))"
  using release_refines [OF assms, of pid] by (metis snd_conv snd_map_prod)

text \<open>A live AI session interrupts music and nested requests only count.\<close>

lemma ai_requests_nest:
  assumes "inv s" "view s = Ai_held p n (Some (q, k))"
    and "\<And>e. e \<in> set es \<Longrightarrow> ready e \<and> alive e p \<and> alive e q" and "0 < p"
  shows "inv (fold (\<lambda>e t. snd (request e p 1 2 t)) es s)
    \<and> view (fold (\<lambda>e t. snd (request e p 1 2 t)) es s) = Ai_held p (n + of_nat (length es)) (Some (q, k))"
  using assms
proof (induction es arbitrary: s n)
  case Nil
  then show ?case by simp
next
  case (Cons e es)
  have "view (snd (request e p 1 2 s)) = Ai_held p (n + 1) (Some (q, k))"
    using Cons.prems by (subst request_view) (auto simp: audio_focus_gain_valid_def)
  moreover have "inv (snd (request e p 1 2 s))"
    using Cons.prems by (intro request_keeps) (auto simp: audio_focus_gain_valid_def)
  ultimately show ?case
    using Cons.IH [of "snd (request e p 1 2 s)" "n + 1"] Cons.prems by (simp add: algebra_simps)
qed

lemma ai_releases_unnest:
  assumes "inv s" "view s = Ai_held p (of_nat (Suc n)) (Some (q, k))"
    and "\<And>e. e \<in> set es \<Longrightarrow> ready e \<and> alive e p \<and> alive e q"
    and "length es = Suc n" "Suc n < 2 ^ 32"
  shows "inv (fold (\<lambda>e t. snd (release e p 1 t)) es s)
    \<and> view (fold (\<lambda>e t. snd (release e p 1 t)) es s) = Music_held q k"
  using assms
proof (induction es arbitrary: s n)
  case Nil
  then show ?case by simp
next
  case (Cons e es)
  have cnt: "(1 :: u32) < of_nat (Suc n) \<longleftrightarrow> 0 < n"
    using Cons.prems(5) by (simp add: word_less_nat_alt unat_of_nat take_bit_nat_eq_self del: of_nat_Suc)
  have keep: "inv (snd (release e p 1 s))"
    using Cons.prems by (intro release_keeps) auto
  have v: "view (snd (release e p 1 s)) =
      (if 0 < n then Ai_held p (of_nat n) (Some (q, k)) else Music_held q k)"
    using Cons.prems cnt by (subst release_view) auto
  show ?case
  proof (cases n)
    case 0
    with Cons.prems v keep show ?thesis by simp
  next
    case (Suc m)
    with Cons.IH [of "snd (release e p 1 s)" m] Cons.prems v keep show ?thesis by simp
  qed
qed

lemma ai_session_restores:
  assumes "inv s" "view s = Music_held q k" "0 < p"
    and "\<And>e. e \<in> set es \<union> set es' \<Longrightarrow> ready e \<and> alive e p \<and> alive e q"
    and "es \<noteq> []" "length es' = length es" "length es < 2 ^ 32"
  shows "view (fold (\<lambda>e t. snd (release e p 1 t)) es' (fold (\<lambda>e t. snd (request e p 1 2 t)) es s)) =
    Music_held q k"
proof -
  obtain e0 rest where es: "es = e0 # rest" using assms(5) by (cases es) auto
  let ?s1 = "snd (request e0 p 1 2 s)"
  have "inv ?s1" "view ?s1 = Ai_held p 1 (Some (q, k))"
    using assms es by (auto simp: request_view audio_focus_gain_valid_def intro!: request_keeps)
  from ai_requests_nest [OF this, of rest] assms es
  have "inv (fold (\<lambda>e t. snd (request e p 1 2 t)) es s)"
    "view (fold (\<lambda>e t. snd (request e p 1 2 t)) es s) = Ai_held p (of_nat (Suc (length rest))) (Some (q, k))"
    by auto
  from ai_releases_unnest [OF this] assms es show ?thesis by auto
qed

lemma music_release_ignored:
  assumes "inv s" "view s = Ai_held p 1 (Some (q, k))" "p \<noteq> q" "0 < p"
    and "ready e" "alive e p" "alive e q" "ready e'" "alive e' p" "alive e' q"
  shows "fst (release e q 2 s) = OK
    \<and> view (snd (release e q 2 s)) = view s
    \<and> view (snd (release e' p 1 (snd (release e q 2 s)))) = Music_held q k"
proof -
  have r: "fst (release e q 2 s) = OK"
    using release_refines [of s e 2 q] assms by (metis fst_conv fst_map_prod id_apply focus_type_valid_simps(2))
  have v: "view (snd (release e q 2 s)) = view s"
    using assms by (subst release_view) auto
  have "inv (snd (release e q 2 s))" using assms by (intro release_keeps) auto
  with assms v have "view (snd (release e' p 1 (snd (release e q 2 s)))) = Music_held q k"
    by (subst release_view) auto
  with r v show ?thesis by simp
qed

end

subsection \<open>The manager fulfils the contract\<close>

definition focus_ready :: "focus_os \<times> (int \<Rightarrow> int) \<Rightarrow> bool" where
  "focus_ready e \<longleftrightarrow> 0 \<le> os_mutex_lock (fst e)"

definition focus_running :: "focus_state \<Rightarrow> bool" where
  "focus_running s \<longleftrightarrow> af_initialized s \<and> af_inv s"

definition do_request ::
  "focus_os \<times> (int \<Rightarrow> int) \<Rightarrow> int \<Rightarrow> int \<Rightarrow> int \<Rightarrow> focus_state \<Rightarrow> int \<times> focus_state"
where
  "do_request e pid type gain s =
     map_prod id snd (audio_focus_request_ex (fst e) (snd e) pid type gain s)"

definition do_release ::
  "focus_os \<times> (int \<Rightarrow> int) \<Rightarrow> int \<Rightarrow> int \<Rightarrow> focus_state \<Rightarrow> int \<times> focus_state"
where
  "do_release e pid type s = map_prod id snd (audio_focus_release (fst e) (snd e) pid type s)"

lemma enter_running:
  "af_initialized s \<Longrightarrow> 0 \<le> os_mutex_lock os \<Longrightarrow>
   focus_enter os kill s = Inr (audio_focus_clear_dead_slots_locked kill s)"
  by (simp add: focus_enter_def audio_focus_manager_init_def)

lemma clear_dead_initialized [simp]:
  "af_initialized (audio_focus_clear_dead_slots_locked kill s) = af_initialized s"
  by (simp add: audio_focus_clear_dead_slots_locked_def Let_def reap_suspended_def reap_owner_def
      audio_focus_restore_music_locked_def audio_focus_set_owner_locked_def clear_suspended_def)

lemma locked_initialized [simp]:
  "af_initialized (snd (snd (request_locked pid type gain s))) = af_initialized s"
  "af_initialized (snd (snd (release_locked kill pid type s))) = af_initialized s"
  by (simp_all add: request_locked_def release_locked_def Let_def case_prod_beta
      audio_focus_restore_music_locked_def audio_focus_set_owner_locked_def clear_suspended_def)

lemma do_request_eq:
  "af_initialized s \<Longrightarrow> focus_ready e \<Longrightarrow> audio_focus_type_valid type \<Longrightarrow> audio_focus_gain_valid gain \<Longrightarrow>
   do_request e pid type gain s =
     map_prod id snd (request_locked pid type gain (audio_focus_clear_dead_slots_locked (snd e) s))"
  by (simp add: do_request_def audio_focus_request_ex_def enter_running focus_ready_def)

lemma do_release_eq:
  "af_initialized s \<Longrightarrow> focus_ready e \<Longrightarrow> audio_focus_type_valid type \<Longrightarrow>
   do_release e pid type s =
     map_prod id snd (release_locked (snd e) pid type (audio_focus_clear_dead_slots_locked (snd e) s))"
  by (simp add: do_release_def audio_focus_release_def enter_running focus_ready_def)

lemma map_prod_view: "map_prod id view (map_prod id snd x) = (case x of (r, _, t) \<Rightarrow> (r, view t))"
  by (cases x) auto

interpretation fm: speaker focus_running focus_view focus_ready
  "\<lambda>e. audio_focus_pid_alive (snd e)" do_request do_release
proof unfold_locales
  fix s e and pid type gain :: int
  assume a: "focus_running s" "focus_ready e" "audio_focus_type_valid type"
  let ?t = "audio_focus_clear_dead_slots_locked (snd e) s"
  from a have s: "af_initialized s" "af_inv s" by (auto simp: focus_running_def)
  then have t: "af_inv ?t" by (intro clear_dead_inv)
  note view = view_clear_dead [OF s(2), of "snd e"]
  show "map_prod id focus_view (do_release e pid type s) =
      (OK, spec_release pid type (spec_reap (audio_focus_pid_alive (snd e)) (focus_view s)))"
    using view_release [OF t a(3), of "snd e" pid] clear_dead_suspended_alive [OF s(2), of "snd e"]
    by (simp add: do_release_eq s a map_prod_view view)
  show "focus_running (snd (do_release e pid type s))"
    using release_locked_inv [OF t a(3)] by (simp add: do_release_eq s a focus_running_def)
  assume b: "0 < pid" "audio_focus_gain_valid gain"
  show "map_prod id focus_view (do_request e pid type gain s) =
      spec_request pid type gain (spec_reap (audio_focus_pid_alive (snd e)) (focus_view s))"
    using view_request [OF t a(3), of pid gain] by (simp add: do_request_eq s a b map_prod_view view)
  show "focus_running (snd (do_request e pid type gain s))"
    using request_locked_inv [OF t b(1) a(3)] by (simp add: do_request_eq s a b focus_running_def)
qed

section \<open>Properties\<close>

text \<open>
  C23. Every state the processes and the worker can bring about, in any order of calls and
  with any answer of the operating system: the owner is idle with no process and no requests,
  or AI or music with a positive pid; music is suspended only under AI and with a positive
  pid; at most eight events are queued, each for a positive pid and with a callback; and no
  process occupies two of the pending slots. (A process may die after an event was queued for
  it; whether it lives is asked again when the event is delivered.)
\<close>

theorem focus_reachable_inv:
  assumes "focus_reachable s"
  shows "(if af_owner s = 0 then af_owner_pid s = 0 \<and> af_owner_refcount s = 0 else af_owner s \<in> {1, 2} \<and> 0 < af_owner_pid s)
    \<and> (if af_has_suspended_music s then af_owner s = 1 \<and> 0 < af_suspended_music_pid s
       else af_suspended_music_pid s = 0 \<and> af_suspended_music_refcount s = 0)
    \<and> length (af_events s) \<le> 8
    \<and> (\<forall>e. e \<in> set (af_events s) \<longrightarrow> 0 < ev_pid e \<and> (ev_change_cb e \<noteq> None \<or> ev_lost_cb e \<noteq> None))
    \<and> length (af_pending s) = 4 \<and> distinct (filter (\<lambda>x. x \<noteq> 0) (map fs_pid (af_pending s)))"
  using focus_reachable_af_inv [OF assms]
  by (auto simp: af_inv_def owner_ok_def events_ok_def slots_ok_def audio_focus_type_valid_def list_all_iff
      AUDIO_FOCUS_EVENT_QUEUE_def AUDIO_FOCUS_PENDING_SLOTS_def split: if_splits)

text \<open>Process 7 asks for AI and owns the focus.\<close>

theorem focus_reachable_inv_witness:
  "0 < af_owner_pid (snd (snd (audio_focus_request_ex \<lparr>os_mutex_init = 0, os_sem_init_errno = 0,
     os_thread_create = 0, os_mutex_lock = 0\<rparr> (\<lambda>_. 0) 7 1 2 zero_focus)))"
proof -
  let ?s = "snd (snd (audio_focus_request_ex \<lparr>os_mutex_init = 0, os_sem_init_errno = 0,
     os_thread_create = 0, os_mutex_lock = 0\<rparr> (\<lambda>_. 0) 7 1 2 zero_focus))"
  have "focus_reachable ?s" by (rule focus_reachable.step [OF focus_reachable.start], rule focus_step.request) simp
  moreover have "af_owner ?s = 1" by code_simp
  ultimately show ?thesis using focus_reachable_inv [of ?s] by simp
qed

text \<open>
  C5. Refinement: on an initialised manager a request and a release first reap dead
  processes and then act exactly as the contract says, with its return codes: AI preempts
  music and remembers it when the gain is transient, music never preempts AI, a second
  process of the same type is refused with \<open>-EBUSY\<close>, the last AI release gives the focus
  back to live interrupted music.
\<close>

theorem focus_ops_refine:
  assumes "af_initialized s" "af_inv s" "0 \<le> os_mutex_lock os" "0 < pid"
    and "audio_focus_type_valid type" "audio_focus_gain_valid gain"
  shows "(case audio_focus_request_ex os kill pid type gain s of (ret, _, t) \<Rightarrow> (ret, focus_view t)) =
      spec_request pid type gain (spec_reap (audio_focus_pid_alive kill) (focus_view s))
    \<and> (case audio_focus_release os kill pid type s of (ret, _, t) \<Rightarrow> (ret, focus_view t)) =
      (OK, spec_release pid type (spec_reap (audio_focus_pid_alive kill) (focus_view s)))"
  using fm.request_refines [of s "(os, kill)" pid type gain]
    fm.release_refines [of s "(os, kill)" type pid] assms
  by (simp add: focus_running_def focus_ready_def do_request_def do_release_def map_prod_view)

definition calm_os :: focus_os where
  "calm_os = \<lparr>os_mutex_init = 0, os_sem_init_errno = 0, os_thread_create = 0, os_mutex_lock = 0\<rparr>"

text \<open>Music process 20 plays with both callbacks registered; everything else is empty.\<close>

definition music_state :: focus_state where
  "music_state = zero_focus\<lparr>af_initialized := True, af_owner := 2, af_owner_pid := 20,
     af_owner_refcount := 3,
     af_callback := [zero_slot, zero_slot, \<lparr>fs_pid = 20, fs_change_cb = Some 100, fs_lost_cb = Some 200\<rparr>]\<rparr>"

lemma music_state_inv: "af_inv music_state" "af_initialized music_state"
  "focus_view music_state = Music_held 20 3"
  by (simp_all add: music_state_def zero_focus_def af_inv_def slots_ok_def events_ok_def owner_ok_def
      AUDIO_FOCUS_PENDING_SLOTS_def focus_view_def zero_slot_def eval_nat_numeral)

theorem focus_ops_refine_witness:
  "(case audio_focus_request_ex calm_os (\<lambda>_. 0) 10 1 2 music_state of (ret, _, t) \<Rightarrow> (ret, focus_view t)) =
     (OK, Ai_held 10 1 (Some (20, 3)))"
  using focus_ops_refine [of music_state calm_os 10 1 2 "\<lambda>_. 0"] music_state_inv
  by (simp add: calm_os_def audio_focus_gain_valid_def audio_focus_pid_alive_def)

text \<open>
  A voice session gives music back: while music process \<open>q\<close> plays with \<open>k\<close>
  outstanding requests, any number of nested transient AI requests followed by as many
  releases leaves \<open>q\<close> the owner with \<open>k\<close> requests, whatever the operating system
  answers, as long as both processes live and the lock is obtained.
\<close>

theorem ai_sessions_restore_music:
  assumes "af_initialized s" "af_inv s" "focus_view s = Music_held q k" "0 < p"
    and "list_all (\<lambda>(os, kill). 0 \<le> os_mutex_lock os \<and> audio_focus_pid_alive kill p
            \<and> audio_focus_pid_alive kill q) (es @ es')"
    and "es \<noteq> []" "length es' = length es" "length es < 2 ^ 32"
  shows "focus_view
      (fold (\<lambda>(os, kill) t. snd (snd (audio_focus_release os kill p AUDIO_FOCUS_AI t))) es'
        (fold (\<lambda>(os, kill) t. snd (snd (audio_focus_request_ex os kill p AUDIO_FOCUS_AI
                                         AUDIO_FOCUS_GAIN_TRANSIENT t))) es s)) = Music_held q k"
  using fm.ai_session_restores [of s q k p es es'] assms
  by (auto simp: focus_running_def focus_ready_def do_request_def do_release_def list_all_iff
      case_prod_unfold)

theorem ai_sessions_restore_music_witness:
  "focus_view
      (fold (\<lambda>(os, kill) t. snd (snd (audio_focus_release os kill 10 AUDIO_FOCUS_AI t)))
        [(calm_os, \<lambda>_. 0), (calm_os, \<lambda>_. 0)]
        (fold (\<lambda>(os, kill) t. snd (snd (audio_focus_request_ex os kill 10 AUDIO_FOCUS_AI
                                         AUDIO_FOCUS_GAIN_TRANSIENT t)))
          [(calm_os, \<lambda>_. 0), (calm_os, \<lambda>_. 0)] music_state)) = Music_held 20 3"
  by (rule ai_sessions_restore_music)
    (simp_all add: music_state_inv calm_os_def audio_focus_pid_alive_def)

definition told :: "int \<Rightarrow> nat option \<Rightarrow> nat option \<Rightarrow> notification list" where
  "told change f g = (case f of None \<Rightarrow> [] | Some h \<Rightarrow> [Change_cb h change]) @
     (case g of None \<Rightarrow> [] | Some h \<Rightarrow> if change < 0 then [Lost_cb h] else [])"

lemma deliver_event_told:
  "deliver_event \<lparr>ev_pid = q, ev_change = c, ev_change_cb = f, ev_lost_cb = g\<rparr> = told c f g"
  by (simp add: deliver_event_def told_def split: option.split)

lemma clear_dead_live:
  assumes "af_owner s \<noteq> AUDIO_FOCUS_IDLE \<Longrightarrow> audio_focus_pid_alive kill (af_owner_pid s)"
    and "af_has_suspended_music s \<Longrightarrow> audio_focus_pid_alive kill (af_suspended_music_pid s)"
  shows "audio_focus_clear_dead_slots_locked kill s =
    s\<lparr>af_callback := take 1 (af_callback s) @ map (reap_slot kill) (drop 1 (af_callback s)),
      af_pending := map (reap_slot kill) (af_pending s)\<rparr>"
  using assms by (auto simp: audio_focus_clear_dead_slots_locked_def reap_owner_def reap_suspended_def Let_def)

lemma clear_dead_music_slot:
  assumes "length (af_callback s) = 3" "audio_focus_pid_alive kill (fs_pid (af_callback s ! 2))"
  shows "(take 1 (af_callback s) @ map (reap_slot kill) (drop 1 (af_callback s))) ! 2 = af_callback s ! 2"
  using assms by (simp add: nth_append reap_slot_def eval_nat_numeral)

lemma assign_pending_music_slot [simp]:
  "af_callback (audio_focus_assign_pending_locked pid AUDIO_FOCUS_AI s) ! 2 = af_callback s ! 2"
  by (simp add: audio_focus_assign_pending_locked_def split: option.splits)

lemma assign_pending_length [simp]:
  "length (af_callback (audio_focus_assign_pending_locked pid type s)) = length (af_callback s)"
  by (simp add: audio_focus_assign_pending_locked_def split: option.splits)

text \<open>What a request, a release and a drain leave of the fields that decide the notifications.\<close>

definition session_core :: "focus_state \<Rightarrow> focus_view \<times> focus_slot \<times> focus_event list \<times> bool" where
  "session_core s = (focus_view s, af_callback s ! 2, af_events s, length (af_callback s) = 3)"

lemma preempt_core:
  assumes s: "af_initialized s" "af_inv s" "session_core s = (Music_held q k, slot, [], True)"
    and slot: "fs_pid slot = q" "fs_change_cb slot \<noteq> None \<or> fs_lost_cb slot \<noteq> None"
    and os: "0 \<le> os_mutex_lock os" "0 < p"
    and live: "audio_focus_pid_alive kill q"
  shows "case audio_focus_request_ex os kill p AUDIO_FOCUS_AI AUDIO_FOCUS_GAIN_TRANSIENT s of
    (r, w, t) \<Rightarrow> r = OK \<and> w \<and> af_initialized t \<and> session_core t =
      (Ai_held p 1 (Some (q, k)), slot,
       [\<lparr>ev_pid = q, ev_change = - 2, ev_change_cb = fs_change_cb slot, ev_lost_cb = fs_lost_cb slot\<rparr>], True)"
proof -
  let ?c = "audio_focus_clear_dead_slots_locked kill s"
  have o: "af_owner s = 2" "af_owner_pid s = q" "af_owner_refcount s = k" "\<not> af_has_suspended_music s"
    and cb: "af_callback s ! 2 = slot" "af_events s = []" "length (af_callback s) = 3"
    using s by (auto simp: session_core_def focus_view_def af_inv_def owner_ok_def split: if_splits)
  have c: "?c = s\<lparr>af_callback := take 1 (af_callback s) @ map (reap_slot kill) (drop 1 (af_callback s)),
      af_pending := map (reap_slot kill) (af_pending s)\<rparr>"
    using o live by (intro clear_dead_live) auto
  have slot2: "(take 1 (af_callback s) @ map (reap_slot kill) (drop 1 (af_callback s))) ! 2 = slot"
    using clear_dead_music_slot [of s kill] cb live slot by simp
  have "0 < q" using live by (rule alive_pos)
  then show ?thesis
    using s(1) os o cb slot slot2
    by (simp add: audio_focus_request_ex_def audio_focus_gain_valid_def enter_running c request_locked_def
        Let_def session_core_def focus_view_def audio_focus_set_owner_locked_def
        audio_focus_enqueue_event_locked_def AUDIO_FOCUS_EVENT_QUEUE_def)
qed

lemma live_view_core:
  assumes "af_inv s" "spec_reap (audio_focus_pid_alive kill) (focus_view s) = focus_view s"
    and "session_core s = (v, slot, evs, True)" "audio_focus_pid_alive kill (fs_pid slot)"
  shows "session_core (audio_focus_clear_dead_slots_locked kill s) = (v, slot, evs, True)"
proof -
  have live: "audio_focus_clear_dead_slots_locked kill s =
    s\<lparr>af_callback := take 1 (af_callback s) @ map (reap_slot kill) (drop 1 (af_callback s)),
      af_pending := map (reap_slot kill) (af_pending s)\<rparr>"
    using assms(1,2)
    by (intro clear_dead_live)
      (auto simp: focus_view_def af_inv_def owner_ok_def audio_focus_type_valid_def Let_def
        split: if_splits)
  have cb: "length (af_callback s) = 3" "af_callback s ! 2 = slot" "focus_view s = v" "af_events s = evs"
    using assms(3) by (auto simp: session_core_def)
  have "focus_view (audio_focus_clear_dead_slots_locked kill s) = v"
    using view_clear_dead [OF assms(1), of kill] assms(2) cb by simp
  then show ?thesis
    using clear_dead_music_slot [of s kill] assms(4) cb by (simp add: session_core_def live)
qed

lemma drain_core:
  assumes "af_inv s" "spec_reap (audio_focus_pid_alive kill) (focus_view s) = focus_view s"
    and "session_core s = (v, slot, [\<lparr>ev_pid = fs_pid slot, ev_change = c, ev_change_cb = f, ev_lost_cb = g\<rparr>], True)"
    and "audio_focus_pid_alive kill (fs_pid slot)" "0 \<le> os_mutex_lock os"
  shows "case audio_focus_drain_events os kill kill s of (m, ns, t) \<Rightarrow>
    m \<and> ns = told c f g \<and> af_initialized t = af_initialized s \<and> session_core t = (v, slot, [], True)"
  using live_view_core [OF assms(1-4)] assms(4,5)
  by (auto simp: audio_focus_drain_events_def Let_def session_core_def deliver_event_told focus_view_def)

lemma release_core:
  assumes s: "af_initialized s" "af_inv s" "session_core s = (Ai_held p 1 (Some (q, k)), slot, [], True)"
    and slot: "fs_pid slot = q" "fs_change_cb slot \<noteq> None \<or> fs_lost_cb slot \<noteq> None"
    and os: "0 \<le> os_mutex_lock os"
    and live: "audio_focus_pid_alive kill q" "audio_focus_pid_alive kill p"
  shows "case audio_focus_release os kill p AUDIO_FOCUS_AI s of
    (r, w, t) \<Rightarrow> r = OK \<and> w \<and> af_initialized t \<and> session_core t = (Music_held q k, slot,
       [\<lparr>ev_pid = q, ev_change = 1, ev_change_cb = fs_change_cb slot, ev_lost_cb = fs_lost_cb slot\<rparr>], True)"
proof -
  define c where "c = audio_focus_clear_dead_slots_locked kill s"
  have core: "session_core c = (Ai_held p 1 (Some (q, k)), slot, [], True)"
    unfolding c_def by (rule live_view_core) (use s slot live in \<open>auto simp: session_core_def\<close>)
  have inv: "af_inv c" unfolding c_def by (rule clear_dead_inv [OF s(2)])
  have o: "af_owner c = 1" "af_owner_pid c = p" "af_owner_refcount c = 1" "af_has_suspended_music c"
    "af_suspended_music_pid c = q" "af_suspended_music_refcount c = k"
    "af_callback c ! 2 = slot" "af_events c = []" "length (af_callback c) = 3"
    using core inv by (auto simp: session_core_def focus_view_def af_inv_def owner_ok_def
        audio_focus_type_valid_def split: if_splits)
  have "0 < q" using live(1) by (rule alive_pos)
  moreover have "af_initialized c" using s(1) by (simp add: c_def)
  ultimately show ?thesis
    using s(1) os o slot live
    by (simp add: audio_focus_release_def enter_running release_locked_def c_def [symmetric]
        audio_focus_restore_music_locked_def Let_def session_core_def focus_view_def
        audio_focus_set_owner_locked_def clear_suspended_def
        audio_focus_enqueue_event_locked_def AUDIO_FOCUS_EVENT_QUEUE_def)
qed

text \<open>
  What the music player is told: a transient AI request while live music with a
  callback plays wakes the worker, whose next drain delivers exactly the transient loss (the
  change callback, then the lost callback) to it; the AI release followed by a drain delivers
  exactly the gain and no lost callback, and music holds the focus again.
\<close>

theorem ai_session_notifies_music:
  assumes "af_initialized s" "af_inv s" "focus_view s = Music_held q k" "af_events s = []"
    and "af_callback s ! 2 = \<lparr>fs_pid = q, fs_change_cb = f, fs_lost_cb = g\<rparr>" "f \<noteq> None \<or> g \<noteq> None"
    and "0 \<le> os_mutex_lock os" "audio_focus_pid_alive kill p" "audio_focus_pid_alive kill q"
  shows "case audio_focus_request_ex os kill p AUDIO_FOCUS_AI AUDIO_FOCUS_GAIN_TRANSIENT s of
    (r1, w1, s1) \<Rightarrow> case audio_focus_drain_events os kill kill s1 of
    (m1, n1, s2) \<Rightarrow> case audio_focus_release os kill p AUDIO_FOCUS_AI s2 of
    (r2, w2, s3) \<Rightarrow> case audio_focus_drain_events os kill kill s3 of
    (m2, n2, s4) \<Rightarrow>
      r1 = OK \<and> w1 \<and> n1 = told AUDIO_FOCUS_CHANGE_LOSS_TRANSIENT f g
      \<and> r2 = OK \<and> w2 \<and> n2 = told AUDIO_FOCUS_CHANGE_GAIN f g
      \<and> af_events s4 = [] \<and> focus_view s4 = Music_held q k"
proof -
  have p: "0 < p" using assms(8) by (rule alive_pos)
  obtain r1 w1 s1 where 1: "audio_focus_request_ex os kill p 1 2 s = (r1, w1, s1)" by (cases rule: prod_cases3)
  obtain m1 n1 s2 where 2: "audio_focus_drain_events os kill kill s1 = (m1, n1, s2)" by (cases rule: prod_cases3)
  obtain r2 w2 s3 where 3: "audio_focus_release os kill p 1 s2 = (r2, w2, s3)" by (cases rule: prod_cases3)
  obtain m2 n2 s4 where 4: "audio_focus_drain_events os kill kill s3 = (m2, n2, s4)" by (cases rule: prod_cases3)
  have inv: "af_inv s1" "af_inv s2" "af_inv s3"
    using request_ex_inv [OF assms(2) p, of os kill 1 2] drain_inv [of s1 os kill kill]
      release_inv [of s2 os kill p 1] 1 2 3 by auto
  let ?slot = "\<lparr>fs_pid = q, fs_change_cb = f, fs_lost_cb = g\<rparr>"
  have "session_core s = (Music_held q k, ?slot, [], True)"
    using assms by (simp add: session_core_def af_inv_def slots_ok_def)
  from preempt_core [OF assms(1,2) this, of os p kill] assms p 1
  have c1: "r1 = OK \<and> w1 \<and> af_initialized s1 \<and> session_core s1 = (Ai_held p 1 (Some (q, k)), ?slot,
       [\<lparr>ev_pid = q, ev_change = - 2, ev_change_cb = f, ev_lost_cb = g\<rparr>], True)" by simp
  then have c2: "n1 = told (- 2) f g \<and> af_initialized s2 \<and> session_core s2 = (Ai_held p 1 (Some (q, k)), ?slot, [], True)"
    using drain_core [OF inv(1), of kill "Ai_held p 1 (Some (q, k))" ?slot "- 2" f g os] assms 2
    by (simp add: session_core_def)
  then have c3: "r2 = OK \<and> w2 \<and> session_core s3 = (Music_held q k, ?slot,
       [\<lparr>ev_pid = q, ev_change = 1, ev_change_cb = f, ev_lost_cb = g\<rparr>], True)"
    using release_core [of s2 p q k ?slot os kill] inv assms 3 by simp
  then have c4: "n2 = told 1 f g \<and> session_core s4 = (Music_held q k, ?slot, [], True)"
    using drain_core [OF inv(3), of kill "Music_held q k" ?slot 1 f g os] assms 4
    by (simp add: session_core_def)
  from 1 2 3 4 c1 c2 c3 c4 show ?thesis by (simp add: session_core_def)
qed

theorem ai_session_notifies_music_witness:
  "fst (snd (audio_focus_drain_events calm_os (\<lambda>_. 0) (\<lambda>_. 0)
     (snd (snd (audio_focus_request_ex calm_os (\<lambda>_. 0) 10 AUDIO_FOCUS_AI AUDIO_FOCUS_GAIN_TRANSIENT music_state))))) =
   [Change_cb 100 (- 2), Lost_cb 200]"
  using ai_session_notifies_music [of music_state 20 3 "Some 100" "Some 200" calm_os "\<lambda>_. 0" 10] music_state_inv
  by (simp add: calm_os_def audio_focus_pid_alive_def music_state_def zero_focus_def case_prod_beta told_def)

text \<open>
  Music that gives up the focus while AI holds it is not believed: the release returns
  OK without any change, so when AI finishes the focus goes back to the music process that
  had released it.
\<close>

theorem music_release_while_suspended_lost:
  assumes "af_initialized s" "af_inv s" "focus_view s = Ai_held p 1 (Some (q, k))" "p \<noteq> q"
    and "0 \<le> os_mutex_lock os" "audio_focus_pid_alive kill p" "audio_focus_pid_alive kill q"
  shows "case audio_focus_release os kill q AUDIO_FOCUS_MUSIC s of (r, _, t) \<Rightarrow>
    r = OK \<and> focus_view t = focus_view s
    \<and> focus_view (snd (snd (audio_focus_release os kill p AUDIO_FOCUS_AI t))) = Music_held q k"
  using fm.music_release_ignored [of s p q k "(os, kill)" "(os, kill)"] assms
    alive_pos [OF assms(6)]
  by (simp add: focus_running_def focus_ready_def do_release_def case_prod_beta)

theorem music_release_while_suspended_lost_witness:
  "case audio_focus_release calm_os (\<lambda>_. 0) 20 AUDIO_FOCUS_MUSIC
     (music_state\<lparr>af_owner := 1, af_owner_pid := 10, af_owner_refcount := 1, af_has_suspended_music := True,
        af_suspended_music_pid := 20, af_suspended_music_refcount := 3\<rparr>) of (r, _, t) \<Rightarrow>
    r = OK \<and> focus_view (snd (snd (audio_focus_release calm_os (\<lambda>_. 0) 10 AUDIO_FOCUS_AI t))) = Music_held 20 3"
  using music_release_while_suspended_lost [of "music_state\<lparr>af_owner := 1, af_owner_pid := 10,
      af_owner_refcount := 1, af_has_suspended_music := True,
      af_suspended_music_pid := 20, af_suspended_music_refcount := 3\<rparr>" 10 20 3 calm_os "\<lambda>_. 0"] music_state_inv
  by (simp add: calm_os_def audio_focus_pid_alive_def case_prod_beta focus_view_def af_inv_def slots_ok_def
      events_ok_def owner_ok_def)

end
