(* ===== verification/Button_Processor.thy ===== *)
theory Button_Processor
  imports Prelude
begin

text \<open>
  The input service: \<^verbatim>\<open>services/input_service/src/buttonProcessor.c\<close> turns raw button
  samples into short presses, long presses and double clicks, and
  \<^verbatim>\<open>key_processor.c\<close> polls the device and feeds it edges.

  The record \<open>buttons\<close> collects the static variables of the first file and
  \<open>key_dev\<close> those of the second. Ticks are 32-bit and their differences wrap. The events
  of a call are the list of its \<^verbatim>\<open>emit_event\<close> calls in order; what a handler does with
  them is outside the component (a handler that calls back into it is not modelled).
  Function and data pointers are addresses, \<open>None\<close> or 0 for NULL.
\<close>

section \<open>State\<close>

datatype KEYCODE = KEYCODE_NONE | KEYCODE_UP | KEYCODE_DOWN | KEYCODE_OK

datatype BUTTON_EVENT = BUTTON_EVENT_SHORT_PRESS | BUTTON_EVENT_LONG_PRESS | BUTTON_EVENT_DOUBLE_CLICK

definition BUTTON_PROCESSOR_MAX_HANDLERS :: nat where [c_consts]: "BUTTON_PROCESSOR_MAX_HANDLERS = 8"
definition BUTTON_PROCESSOR_DEBOUNCE_MS :: u32 where [c_consts]: "BUTTON_PROCESSOR_DEBOUNCE_MS = 30"
definition BUTTON_PROCESSOR_DEFAULT_LONG_PRESS_MS :: u32 where
  [c_consts]: "BUTTON_PROCESSOR_DEFAULT_LONG_PRESS_MS = 2000"
definition BUTTON_PROCESSOR_DEFAULT_DOUBLE_CLICK_MS :: u32 where
  [c_consts]: "BUTTON_PROCESSOR_DEFAULT_DOUBLE_CLICK_MS = 400"
definition BUTTON_PROCESSOR_KEY_MASK_UP :: u32 where [c_consts]: "BUTTON_PROCESSOR_KEY_MASK_UP = 1"
definition BUTTON_PROCESSOR_KEY_MASK_DOWN :: u32 where [c_consts]: "BUTTON_PROCESSOR_KEY_MASK_DOWN = 2"
definition BUTTON_PROCESSOR_KEY_MASK_OK :: u32 where [c_consts]: "BUTTON_PROCESSOR_KEY_MASK_OK = 4"

record button_key_state =
  is_pressed :: bool
  long_reported :: bool
  wait_single :: bool
  press_tick :: u32
  release_tick :: u32

record buttons =
  long_press_ms :: u32
  double_click_ms :: u32
  double_click_mask :: u32
  active_pressed_key :: KEYCODE
  key_states :: "button_key_state list"
  handlers :: "(nat option \<times> nat) list"

definition zero_key :: button_key_state where
  "zero_key = \<lparr>is_pressed = False, long_reported = False, wait_single = False, press_tick = 0,
     release_tick = 0\<rparr>"

definition buttons_boot :: buttons where
  "buttons_boot = \<lparr>long_press_ms = BUTTON_PROCESSOR_DEFAULT_LONG_PRESS_MS,
     double_click_ms = BUTTON_PROCESSOR_DEFAULT_DOUBLE_CLICK_MS,
     double_click_mask = BUTTON_PROCESSOR_KEY_MASK_OK, active_pressed_key = KEYCODE_NONE,
     key_states = replicate 3 zero_key,
     handlers = replicate BUTTON_PROCESSOR_MAX_HANDLERS (None, 0)\<rparr>"

section \<open>Decoding\<close>

definition is_release_raw_value :: "u32 \<Rightarrow> bool" where
  "is_release_raw_value raw_val \<longleftrightarrow> raw_val = 0 \<or> raw_val \<ge> 50"

fun keycode_to_mask :: "KEYCODE \<Rightarrow> u32" where
  "keycode_to_mask KEYCODE_UP = BUTTON_PROCESSOR_KEY_MASK_UP"
| "keycode_to_mask KEYCODE_DOWN = BUTTON_PROCESSOR_KEY_MASK_DOWN"
| "keycode_to_mask KEYCODE_OK = BUTTON_PROCESSOR_KEY_MASK_OK"
| "keycode_to_mask KEYCODE_NONE = 0"

definition keycode_supports_double_click :: "buttons \<Rightarrow> KEYCODE \<Rightarrow> bool" where
  "keycode_supports_double_click s keycode \<longleftrightarrow> and (double_click_mask s) (keycode_to_mask keycode) \<noteq> 0"

fun keycode_to_index :: "KEYCODE \<Rightarrow> nat option" where
  "keycode_to_index KEYCODE_UP = Some 0"
| "keycode_to_index KEYCODE_DOWN = Some 1"
| "keycode_to_index KEYCODE_OK = Some 2"
| "keycode_to_index KEYCODE_NONE = None"

definition raw_to_keycode :: "u32 \<Rightarrow> KEYCODE" where
  "raw_to_keycode raw_val =
     (if raw_val = BUTTON_PROCESSOR_KEY_MASK_DOWN then KEYCODE_UP
      else if raw_val = BUTTON_PROCESSOR_KEY_MASK_UP then KEYCODE_DOWN
      else if raw_val = BUTTON_PROCESSOR_KEY_MASK_OK then KEYCODE_OK
      else if raw_val = 9 \<or> raw_val = 34 \<or> raw_val = 1 then KEYCODE_UP
      else if raw_val = 18 \<or> raw_val = 2 then KEYCODE_DOWN
      else if raw_val = 40 \<or> raw_val = 8 \<or> raw_val = 16 then KEYCODE_OK
      else KEYCODE_NONE)"

section \<open>The state machine\<close>

type_synonym button_events = "(KEYCODE \<times> BUTTON_EVENT) list"

text \<open>The handler calls of one event: every occupied slot in order, with its user data.\<close>

definition emit_event :: "buttons \<Rightarrow> KEYCODE \<times> BUTTON_EVENT \<Rightarrow> (nat \<times> KEYCODE \<times> BUTTON_EVENT \<times> nat) list" where
  "emit_event s e = concat (map (\<lambda>(h, u). case h of None \<Rightarrow> [] | Some f \<Rightarrow> [(f, fst e, snd e, u)]) (handlers s))"

definition process_press :: "KEYCODE \<Rightarrow> u32 \<Rightarrow> buttons \<Rightarrow> buttons" where
  "process_press keycode tick_ms s =
     (case keycode_to_index keycode of
        None \<Rightarrow> s
      | Some index \<Rightarrow>
          let state = key_states s ! index in
          if active_pressed_key s \<noteq> KEYCODE_NONE \<and> active_pressed_key s \<noteq> keycode then s
          else if \<not> is_pressed state \<and> release_tick state \<noteq> 0
                  \<and> tick_ms - release_tick state < BUTTON_PROCESSOR_DEBOUNCE_MS then s
          else if is_pressed state then s
          else s\<lparr>key_states := (key_states s)[index :=
                   state\<lparr>is_pressed := True, long_reported := False, press_tick := tick_ms\<rparr>],
                 active_pressed_key := keycode\<rparr>)"

definition process_release :: "u32 \<Rightarrow> buttons \<Rightarrow> button_events \<times> buttons" where
  "process_release tick_ms s =
     (let keycode = active_pressed_key s in
      if keycode = KEYCODE_NONE then ([], s)
      else case keycode_to_index keycode of
        None \<Rightarrow> ([], s\<lparr>active_pressed_key := KEYCODE_NONE\<rparr>)
      | Some index \<Rightarrow>
          let state = key_states s ! index;
              put = (\<lambda>st. s\<lparr>key_states := (key_states s)[index := st], active_pressed_key := KEYCODE_NONE\<rparr>) in
          if \<not> is_pressed state then ([], s\<lparr>active_pressed_key := KEYCODE_NONE\<rparr>)
          else
            let state1 = state\<lparr>is_pressed := False\<rparr>; pressed_ms = tick_ms - press_tick state in
            if long_reported state1 then ([], put (state1\<lparr>wait_single := False\<rparr>))
            else if pressed_ms \<ge> long_press_ms s
            then ([(keycode, BUTTON_EVENT_LONG_PRESS)],
                  put (state1\<lparr>long_reported := True, wait_single := False\<rparr>))
            else if \<not> keycode_supports_double_click s keycode
            then ([(keycode, BUTTON_EVENT_SHORT_PRESS)],
                  put (state1\<lparr>wait_single := False, release_tick := tick_ms\<rparr>))
            else if wait_single state1 \<and> tick_ms - release_tick state1 \<le> double_click_ms s
            then ([(keycode, BUTTON_EVENT_DOUBLE_CLICK)], put (state1\<lparr>wait_single := False\<rparr>))
            else ([], put (state1\<lparr>wait_single := True, release_tick := tick_ms\<rparr>)))"

text \<open>One iteration of the loop of \<^verbatim>\<open>process_hold_and_pending\<close> on one key.\<close>

definition hold_key :: "u32 \<Rightarrow> u32 \<Rightarrow> u32 \<Rightarrow> KEYCODE \<Rightarrow> button_key_state \<Rightarrow> button_events \<times> button_key_state" where
  "hold_key long_ms double_ms tick_ms keycode state =
     (let (e1, st1) =
        (if is_pressed state \<and> \<not> long_reported state \<and> tick_ms - press_tick state \<ge> long_ms
         then ([(keycode, BUTTON_EVENT_LONG_PRESS)], state\<lparr>long_reported := True, wait_single := False\<rparr>)
         else ([], state))
      in if wait_single st1 \<and> tick_ms - release_tick st1 > double_ms
         then (e1 @ [(keycode, BUTTON_EVENT_SHORT_PRESS)], st1\<lparr>wait_single := False\<rparr>)
         else (e1, st1))"

fun hold_keys :: "u32 \<Rightarrow> u32 \<Rightarrow> u32 \<Rightarrow> KEYCODE list \<Rightarrow> button_key_state list \<Rightarrow> button_events \<times> button_key_state list" where
  "hold_keys l d t (k # ks) (st # sts) =
     (let (e, st') = hold_key l d t k st; (es, sts') = hold_keys l d t ks sts in (e @ es, st' # sts'))"
| "hold_keys l d t _ sts = ([], sts)"

definition process_hold_and_pending :: "u32 \<Rightarrow> buttons \<Rightarrow> button_events \<times> buttons" where
  "process_hold_and_pending tick_ms s =
     (let (es, sts) = hold_keys (long_press_ms s) (double_click_ms s) tick_ms
                        [KEYCODE_UP, KEYCODE_DOWN, KEYCODE_OK] (key_states s)
      in (es, s\<lparr>key_states := sts\<rparr>))"

definition button_processor_reset :: "buttons \<Rightarrow> buttons" where
  "button_processor_reset s = s\<lparr>active_pressed_key := KEYCODE_NONE, key_states := replicate 3 zero_key\<rparr>"

definition button_processor_set_thresholds :: "u32 \<Rightarrow> u32 \<Rightarrow> buttons \<Rightarrow> buttons" where
  "button_processor_set_thresholds long_ms double_ms s =
     s\<lparr>long_press_ms := (if long_ms = 0 then BUTTON_PROCESSOR_DEFAULT_LONG_PRESS_MS else long_ms),
       double_click_ms := (if double_ms = 0 then BUTTON_PROCESSOR_DEFAULT_DOUBLE_CLICK_MS else double_ms)\<rparr>"

definition button_processor_init :: "u32 \<Rightarrow> u32 \<Rightarrow> buttons \<Rightarrow> buttons" where
  "button_processor_init long_ms double_ms s =
     button_processor_reset (button_processor_set_thresholds long_ms double_ms s)"

definition button_processor_set_double_click_mask :: "u32 \<Rightarrow> buttons \<Rightarrow> buttons" where
  "button_processor_set_double_click_mask key_mask s = s\<lparr>double_click_mask := key_mask\<rparr>"

definition button_processor_register_event_handler :: "nat option \<Rightarrow> nat \<Rightarrow> buttons \<Rightarrow> int \<times> buttons" where
  "button_processor_register_event_handler handler user_data s =
     (if handler = None then (- 1, s)
      else if first_idx (\<lambda>(h, u). h = handler \<and> u = user_data) (handlers s) \<noteq> None then (0, s)
      else (case first_idx (\<lambda>(h, u). h = None) (handlers s) of
              Some i \<Rightarrow> (0, s\<lparr>handlers := (handlers s)[i := (handler, user_data)]\<rparr>)
            | None \<Rightarrow> (- 1, s)))"

definition button_processor_unregister_event_handler :: "nat option \<Rightarrow> nat \<Rightarrow> buttons \<Rightarrow> int \<times> buttons" where
  "button_processor_unregister_event_handler handler user_data s =
     (case first_idx (\<lambda>(h, u). h = handler \<and> u = user_data) (handlers s) of
        Some i \<Rightarrow> (0, s\<lparr>handlers := (handlers s)[i := (None, 0)]\<rparr>)
      | None \<Rightarrow> (- 1, s))"

definition button_processor_process_raw_value :: "u32 \<Rightarrow> u32 \<Rightarrow> buttons \<Rightarrow> button_events \<times> buttons" where
  "button_processor_process_raw_value raw_val tick_ms s =
     (let (es, s1) = process_hold_and_pending tick_ms s in
      if is_release_raw_value raw_val
      then (let (es', s2) = process_release tick_ms s1 in (es @ es', s2))
      else let keycode = raw_to_keycode raw_val in
           if keycode \<noteq> KEYCODE_NONE then (es, process_press keycode tick_ms s1) else (es, s1))"

definition button_processor_flush :: "u32 \<Rightarrow> buttons \<Rightarrow> button_events \<times> buttons" where
  "button_processor_flush tick_ms s = process_hold_and_pending tick_ms s"

section \<open>Polling the device\<close>

text \<open>
  One poll reads at most ten samples; \<open>reads\<close> are the results of the successive
  \<^verbatim>\<open>read\<close> calls (\<open>None\<close> a short read or an error) with the tick taken after each,
  and the last tick is the one of the closing flush.
\<close>

definition KEY_MAX_READ_PER_POLL :: nat where [c_consts]: "KEY_MAX_READ_PER_POLL = 10"

record key_dev =
  sidebar_btn_fd :: int
  key_poll_timer :: bool
  last_raw :: u32
  key_device_path :: "string option"
  key_buttons :: buttons

fun poll_reads :: "nat \<Rightarrow> (u32 option \<times> u32) list \<Rightarrow> key_dev \<Rightarrow> button_events \<times> key_dev" where
  "poll_reads (Suc n) ((Some val, now) # rest) d =
     (if val \<noteq> last_raw d
      then let (es, b) = button_processor_process_raw_value val now (key_buttons d);
               (es', d') = poll_reads n rest (d\<lparr>key_buttons := b, last_raw := val\<rparr>)
           in (es @ es', d')
      else poll_reads n rest d)"
| "poll_reads _ _ d = ([], d)"

definition sidebar_button_poll_cb :: "(u32 option \<times> u32) list \<Rightarrow> u32 \<Rightarrow> key_dev \<Rightarrow> button_events \<times> key_dev" where
  "sidebar_button_poll_cb reads flush_tick d =
     (if sidebar_btn_fd d < 0 then ([], d)
      else let (es, d1) = poll_reads KEY_MAX_READ_PER_POLL reads d;
               (es', b) = button_processor_flush flush_tick (key_buttons d1)
           in (es @ es', d1\<lparr>key_buttons := b\<rparr>))"

text \<open>
  Opening tries the platform's primary path and then its fallback; \<open>open_dev\<close> is the
  answer of \<^verbatim>\<open>open\<close>.
\<close>

definition path_given :: "string option \<Rightarrow> bool" where
  "path_given p \<longleftrightarrow> p \<noteq> None \<and> p \<noteq> Some []"

definition key_processor_init ::
  "(string option \<Rightarrow> int) \<Rightarrow> string option \<Rightarrow> string option \<Rightarrow> key_dev \<Rightarrow> key_dev"
where
  "key_processor_init open_dev primary_path fallback_path d =
     (if sidebar_btn_fd d \<ge> 0 then d
      else
        let d1 = d\<lparr>key_buttons := button_processor_init BUTTON_PROCESSOR_DEFAULT_LONG_PRESS_MS
                     BUTTON_PROCESSOR_DEFAULT_DOUBLE_CLICK_MS (key_buttons d),
                   sidebar_btn_fd := (if path_given primary_path then open_dev primary_path else - 1)\<rparr>;
            d2 = (if sidebar_btn_fd d1 \<ge> 0 then d1\<lparr>key_device_path := primary_path\<rparr>
                  else if path_given fallback_path
                  then let fd = open_dev fallback_path
                       in if fd \<ge> 0 then d1\<lparr>sidebar_btn_fd := fd, key_device_path := fallback_path\<rparr>
                          else d1\<lparr>sidebar_btn_fd := fd\<rparr>
                  else d1)
        in if sidebar_btn_fd d2 < 0 then d2 else d2\<lparr>last_raw := 0, key_poll_timer := True\<rparr>)"

definition key_processor_deinit :: "key_dev \<Rightarrow> key_dev" where
  "key_processor_deinit d =
     d\<lparr>key_poll_timer := False,
       sidebar_btn_fd := (if sidebar_btn_fd d \<ge> 0 then - 1 else sidebar_btn_fd d),
       key_device_path := None, last_raw := 0,
       key_buttons := button_processor_reset (key_buttons d)\<rparr>"

definition key_processor_set_thresholds :: "u32 \<Rightarrow> u32 \<Rightarrow> key_dev \<Rightarrow> key_dev" where
  "key_processor_set_thresholds long_ms double_ms d =
     d\<lparr>key_buttons := button_processor_set_thresholds long_ms double_ms (key_buttons d)\<rparr>"

definition key_processor_set_double_click_mask :: "u32 \<Rightarrow> key_dev \<Rightarrow> key_dev" where
  "key_processor_set_double_click_mask key_mask d =
     d\<lparr>key_buttons := button_processor_set_double_click_mask key_mask (key_buttons d)\<rparr>"

definition key_processor_register_event_handler :: "nat option \<Rightarrow> nat \<Rightarrow> key_dev \<Rightarrow> int \<times> key_dev" where
  "key_processor_register_event_handler handler user_data d =
     (let (r, b) = button_processor_register_event_handler handler user_data (key_buttons d)
      in (r, d\<lparr>key_buttons := b\<rparr>))"

definition key_processor_unregister_event_handler :: "nat option \<Rightarrow> nat \<Rightarrow> key_dev \<Rightarrow> int \<times> key_dev" where
  "key_processor_unregister_event_handler handler user_data d =
     (let (r, b) = button_processor_unregister_event_handler handler user_data (key_buttons d)
      in (r, d\<lparr>key_buttons := b\<rparr>))"

section \<open>Runs of samples\<close>

datatype sample = Raw u32 u32 | Flush u32

fun button_step :: "sample \<Rightarrow> buttons \<Rightarrow> button_events \<times> buttons" where
  "button_step (Raw v t) s = button_processor_process_raw_value v t s"
| "button_step (Flush t) s = button_processor_flush t s"

fun run_buttons :: "sample list \<Rightarrow> buttons \<Rightarrow> button_events \<times> buttons" where
  "run_buttons [] s = ([], s)"
| "run_buttons (x # xs) s =
     (let (es, s1) = button_step x s; (es', s2) = run_buttons xs s1 in (es @ es', s2))"

lemma run_buttons_append:
  "run_buttons (xs @ ys) s =
     (fst (run_buttons xs s) @ fst (run_buttons ys (snd (run_buttons xs s))),
      snd (run_buttons ys (snd (run_buttons xs s))))"
  by (induction xs arbitrary: s) (auto simp: case_prod_beta)

section \<open>Invariant\<close>

definition btn_inv :: "buttons \<Rightarrow> bool" where
  "btn_inv s \<longleftrightarrow> length (key_states s) = 3 \<and> length (handlers s) = BUTTON_PROCESSOR_MAX_HANDLERS
     \<and> list_all (\<lambda>i. is_pressed (key_states s ! i) \<longleftrightarrow> keycode_to_index (active_pressed_key s) = Some i) [0, 1, 2]
     \<and> distinct (filter (\<lambda>(h, u). h \<noteq> None) (handlers s))"

lemma length_3_cases:
  assumes "length xs = 3"
  obtains a b c where "xs = [a, b, c]"
  using assms by (auto simp: eval_nat_numeral length_Suc_conv)

lemma hold_key_fields [simp]:
  "is_pressed (snd (hold_key l d t k st)) = is_pressed st"
  "press_tick (snd (hold_key l d t k st)) = press_tick st"
  "release_tick (snd (hold_key l d t k st)) = release_tick st"
  by (simp_all add: hold_key_def)

lemma process_hold_3:
  assumes "key_states s = [a, b, c]"
  shows "process_hold_and_pending t s =
    (fst (hold_key (long_press_ms s) (double_click_ms s) t KEYCODE_UP a) @
     fst (hold_key (long_press_ms s) (double_click_ms s) t KEYCODE_DOWN b) @
     fst (hold_key (long_press_ms s) (double_click_ms s) t KEYCODE_OK c),
     s\<lparr>key_states := [snd (hold_key (long_press_ms s) (double_click_ms s) t KEYCODE_UP a),
        snd (hold_key (long_press_ms s) (double_click_ms s) t KEYCODE_DOWN b),
        snd (hold_key (long_press_ms s) (double_click_ms s) t KEYCODE_OK c)]\<rparr>)"
  using assms by (simp add: process_hold_and_pending_def case_prod_beta)

lemma hold_inv: "btn_inv s \<Longrightarrow> btn_inv (snd (process_hold_and_pending t s))"
  by (auto simp: btn_inv_def process_hold_3 elim!: length_3_cases)

lemma press_inv: "btn_inv s \<Longrightarrow> btn_inv (process_press k t s)"
  by (cases k; cases "active_pressed_key s")
    (auto simp: btn_inv_def process_press_def Let_def elim!: length_3_cases)

lemma key_release_inv: "btn_inv s \<Longrightarrow> btn_inv (snd (process_release t s))"
  by (cases "active_pressed_key s")
    (auto simp: btn_inv_def process_release_def Let_def elim!: length_3_cases)

lemma raw_inv: "btn_inv s \<Longrightarrow> btn_inv (snd (button_processor_process_raw_value v t s))"
  using hold_inv [of s t]
  by (auto simp: button_processor_process_raw_value_def Let_def case_prod_beta press_inv key_release_inv)

lemma step_inv: "btn_inv s \<Longrightarrow> btn_inv (snd (button_step x s))"
  by (cases x) (simp_all add: raw_inv hold_inv button_processor_flush_def)

lemma run_inv: "btn_inv s \<Longrightarrow> btn_inv (snd (run_buttons xs s))"
  using step_inv by (induction xs arbitrary: s) (auto simp: case_prod_beta)

lemma key_register_inv: "btn_inv s \<Longrightarrow> btn_inv (snd (button_processor_register_event_handler h u s))"
  by (auto simp: btn_inv_def button_processor_register_event_handler_def first_idx_None case_prod_beta
      intro!: filter_update_distinct split: option.splits)

lemma key_unregister_inv: "btn_inv s \<Longrightarrow> btn_inv (snd (button_processor_unregister_event_handler h u s))"
  by (auto simp: btn_inv_def button_processor_unregister_event_handler_def
      intro!: filter_update_distinct split: option.splits)

lemma config_inv:
  "btn_inv s \<Longrightarrow> btn_inv (button_processor_set_thresholds l d s)"
  "btn_inv s \<Longrightarrow> btn_inv (button_processor_set_double_click_mask m s)"
  "btn_inv s \<Longrightarrow> btn_inv (button_processor_reset s)"
  "btn_inv s \<Longrightarrow> btn_inv (button_processor_init l d s)"
  by (simp_all add: btn_inv_def button_processor_set_thresholds_def zero_key_def eval_nat_numeral
      button_processor_set_double_click_mask_def button_processor_reset_def button_processor_init_def)

lemma boot_inv: "btn_inv buttons_boot"
  by (simp add: btn_inv_def buttons_boot_def zero_key_def eval_nat_numeral)

section \<open>No event without a press\<close>

text \<open>The events a key still owes: one for a press not yet reported, one for a click on hold.\<close>

definition debt :: "button_key_state \<Rightarrow> nat" where
  "debt st = (if wait_single st then 1 else 0) + (if is_pressed st \<and> \<not> long_reported st then 1 else 0)"

definition events_of :: "KEYCODE \<Rightarrow> button_events \<Rightarrow> nat" where
  "events_of k es = length (filter (\<lambda>e. fst e = k) es)"

fun press_sample :: "KEYCODE \<Rightarrow> sample \<Rightarrow> bool" where
  "press_sample k (Raw v t) \<longleftrightarrow> \<not> is_release_raw_value v \<and> raw_to_keycode v = k"
| "press_sample k (Flush t) \<longleftrightarrow> False"

lemma events_of_append [simp]: "events_of k (xs @ ys) = events_of k xs + events_of k ys"
  by (simp add: events_of_def)

lemma hold_key_debt:
  "events_of k (fst (hold_key l d t k' st)) + debt (snd (hold_key l d t k' st)) \<le> debt st"
  "k \<noteq> k' \<Longrightarrow> events_of k (fst (hold_key l d t k' st)) = 0"
  by (simp_all add: hold_key_def events_of_def debt_def)

lemma hold_debt:
  assumes "length (key_states s) = 3" "keycode_to_index k = Some i"
  shows "events_of k (fst (process_hold_and_pending t s)) + debt (key_states (snd (process_hold_and_pending t s)) ! i)
    \<le> debt (key_states s ! i)"
  using assms(1)
proof (rule length_3_cases)
  fix a b c assume 3: "key_states s = [a, b, c]"
  show ?thesis
    using assms(2) hold_key_debt
    by (cases k) (auto simp: process_hold_3 [OF 3] 3)
qed

lemma press_debt:
  assumes "btn_inv s" "keycode_to_index k = Some i"
  shows "debt (key_states (process_press k' t s) ! i) \<le> debt (key_states s ! i) + (if k' = k then 1 else 0)"
  using assms
  by (cases k; cases k')
    (auto simp: btn_inv_def process_press_def Let_def debt_def elim!: length_3_cases)

lemma release_debt:
  assumes "btn_inv s" "keycode_to_index k = Some i"
  shows "events_of k (fst (process_release t s)) + debt (key_states (snd (process_release t s)) ! i)
    \<le> debt (key_states s ! i)"
  using assms
  by (cases k; cases "active_pressed_key s")
    (auto simp: btn_inv_def process_release_def Let_def debt_def events_of_def elim!: length_3_cases)

lemma step_debt:
  assumes "btn_inv s" "keycode_to_index k = Some i"
  shows "events_of k (fst (button_step x s)) + debt (key_states (snd (button_step x s)) ! i)
    \<le> debt (key_states s ! i) + (if press_sample k x then 1 else 0)"
proof -
  have len: "length (key_states s) = 3" using assms(1) by (simp add: btn_inv_def)
  have hold: "events_of k (fst (process_hold_and_pending t s)) +
      debt (key_states (snd (process_hold_and_pending t s)) ! i) \<le> debt (key_states s ! i)" for t
    by (rule hold_debt [OF len assms(2)])
  show ?thesis
  proof (cases x)
    case (Flush t)
    with hold [of t] show ?thesis by (simp add: button_processor_flush_def)
  next
    case (Raw v t)
    let ?h = "process_hold_and_pending t s"
    have inv: "btn_inv (snd ?h)" by (rule hold_inv [OF assms(1)])
    from hold [of t] press_debt [OF inv assms(2), of "raw_to_keycode v" t] release_debt [OF inv assms(2), of t]
    show ?thesis
      using assms(2)
      by (cases ?h) (auto simp: Raw button_processor_process_raw_value_def Let_def case_prod_beta split: if_splits)
  qed
qed

lemma run_debt:
  assumes "btn_inv s" "keycode_to_index k = Some i"
  shows "events_of k (fst (run_buttons xs s)) + debt (key_states (snd (run_buttons xs s)) ! i)
    \<le> debt (key_states s ! i) + length (filter (press_sample k) xs)"
  using assms(1)
proof (induction xs arbitrary: s)
  case Nil
  then show ?case by (simp add: events_of_def)
next
  case (Cons x xs)
  from Cons.IH [OF step_inv [OF Cons.prems, of x]] step_debt [OF Cons.prems assms(2), of x]
  show ?case by (simp add: case_prod_beta split: if_splits)
qed

section \<open>Gestures on one key\<close>

definition quiet :: "button_key_state \<Rightarrow> bool" where
  "quiet st \<longleftrightarrow> \<not> is_pressed st \<and> \<not> wait_single st"

definition all_quiet :: "buttons \<Rightarrow> bool" where
  "all_quiet s \<longleftrightarrow> list_all quiet (key_states s)"

definition others_quiet :: "nat \<Rightarrow> buttons \<Rightarrow> bool" where
  "others_quiet i s \<longleftrightarrow> list_all (\<lambda>j. j = i \<or> quiet (key_states s ! j)) [0, 1, 2]"

definition set_key :: "nat \<Rightarrow> button_key_state \<Rightarrow> buttons \<Rightarrow> buttons" where
  "set_key i st s = s\<lparr>key_states := (key_states s)[i := st]\<rparr>"

definition debounced :: "u32 \<Rightarrow> button_key_state \<Rightarrow> bool" where
  "debounced t st \<longleftrightarrow> release_tick st = 0 \<or> BUTTON_PROCESSOR_DEBOUNCE_MS \<le> t - release_tick st"

lemma set_key_simps [simp]:
  "long_press_ms (set_key i st s) = long_press_ms s" "double_click_ms (set_key i st s) = double_click_ms s"
  "double_click_mask (set_key i st s) = double_click_mask s"
  "active_pressed_key (set_key i st s) = active_pressed_key s" "handlers (set_key i st s) = handlers s"
  "i < length (key_states s) \<Longrightarrow> key_states (set_key i st s) ! i = st"
  "length (key_states (set_key i st s)) = length (key_states s)"
  "set_key i st' (set_key i st s) = set_key i st' s"
  by (simp_all add: set_key_def)

lemma set_key_same: "i < length (key_states s) \<Longrightarrow> set_key i (key_states s ! i) s = s"
  by (simp add: set_key_def)

lemma others_quiet_set_key [simp]: "others_quiet i (set_key i st s) = others_quiet i s"
  by (cases "i = 0"; cases "i = 1"; cases "i = 2") (simp_all add: others_quiet_def set_key_def)

lemma keycode_index_less: "keycode_to_index k = Some i \<Longrightarrow> i < 3"
  by (cases k) auto

lemma hold_key_quiet: "quiet st \<Longrightarrow> hold_key l d t k st = ([], st)"
  by (simp add: hold_key_def quiet_def)

lemma hold_only:
  assumes "length (key_states s) = 3" "keycode_to_index k = Some i" "others_quiet i s"
  shows "process_hold_and_pending t s =
    (fst (hold_key (long_press_ms s) (double_click_ms s) t k (key_states s ! i)),
     set_key i (snd (hold_key (long_press_ms s) (double_click_ms s) t k (key_states s ! i))) s)"
  using assms(1)
proof (rule length_3_cases)
  fix a b c assume 3: "key_states s = [a, b, c]"
  show ?thesis
    using assms(2,3) by (cases k) (auto simp: process_hold_3 [OF 3] 3 others_quiet_def hold_key_quiet set_key_def)
qed

text \<open>The loop over the flush ticks, on one key.\<close>

fun hold_run :: "u32 \<Rightarrow> u32 \<Rightarrow> KEYCODE \<Rightarrow> u32 list \<Rightarrow> button_key_state \<Rightarrow> button_events \<times> button_key_state" where
  "hold_run l d k [] st = ([], st)"
| "hold_run l d k (t # ts) st =
     (fst (hold_key l d t k st) @ fst (hold_run l d k ts (snd (hold_key l d t k st))),
      snd (hold_run l d k ts (snd (hold_key l d t k st))))"

lemma run_flushes:
  assumes "length (key_states s) = 3" "keycode_to_index k = Some i" "others_quiet i s"
  shows "run_buttons (map Flush ts) s =
    (fst (hold_run (long_press_ms s) (double_click_ms s) k ts (key_states s ! i)),
     set_key i (snd (hold_run (long_press_ms s) (double_click_ms s) k ts (key_states s ! i))) s)"
  using assms
proof (induction ts arbitrary: s)
  case Nil
  then show ?case using set_key_same [of i s] keycode_index_less [of k i] by simp
next
  case (Cons t ts)
  let ?s1 = "set_key i (snd (hold_key (long_press_ms s) (double_click_ms s) t k (key_states s ! i))) s"
  have "i < length (key_states s)" using Cons.prems keycode_index_less [of k i] by simp
  then show ?case
    using Cons.IH [of ?s1] Cons.prems by (simp add: button_processor_flush_def hold_only)
qed

lemma hold_run_pressed:
  "is_pressed st \<Longrightarrow> \<not> wait_single st \<Longrightarrow>
   hold_run l d k ts st =
     (if \<not> long_reported st \<and> (\<exists>t\<in>set ts. l \<le> t - press_tick st)
      then ([(k, BUTTON_EVENT_LONG_PRESS)], st\<lparr>long_reported := True\<rparr>) else ([], st))"
  by (induction ts arbitrary: st) (auto simp: hold_key_def)

lemma hold_run_inactive:
  assumes "list_all (\<lambda>t. \<not> (is_pressed st \<and> \<not> long_reported st \<and> l \<le> t - press_tick st)) ts"
    and "list_all (\<lambda>t. \<not> (wait_single st \<and> d < t - release_tick st)) ts"
  shows "hold_run l d k ts st = ([], st)"
  using assms by (induction ts arbitrary: st) (auto simp: hold_key_def)

lemma hold_run_waiting:
  "\<not> is_pressed st \<Longrightarrow> wait_single st \<Longrightarrow>
   hold_run l d k ts st =
     (if \<exists>t\<in>set ts. d < t - release_tick st
      then ([(k, BUTTON_EVENT_SHORT_PRESS)], st\<lparr>wait_single := False\<rparr>) else ([], st))"
proof (induction ts arbitrary: st)
  case (Cons t ts)
  have "hold_run l d k ts (st\<lparr>wait_single := False\<rparr>) = ([], st\<lparr>wait_single := False\<rparr>)"
    using Cons.prems by (intro hold_run_inactive) (auto simp: list_all_iff)
  with Cons show ?case by (auto simp: hold_key_def)
qed simp

lemma run_flush_release:
  "is_release_raw_value r \<Longrightarrow>
   run_buttons (map Flush ts @ [Raw r t]) s =
     (fst (run_buttons (map Flush (ts @ [t])) s) @
        fst (process_release t (snd (run_buttons (map Flush (ts @ [t])) s))),
      snd (process_release t (snd (run_buttons (map Flush (ts @ [t])) s))))"
  by (simp add: run_buttons_append button_processor_process_raw_value_def button_processor_flush_def
      case_prod_beta Let_def)

lemma run_flush_press:
  "\<not> is_release_raw_value v \<Longrightarrow> raw_to_keycode v = k \<Longrightarrow> k \<noteq> KEYCODE_NONE \<Longrightarrow>
   run_buttons (map Flush ts @ [Raw v t]) s =
     (fst (run_buttons (map Flush (ts @ [t])) s),
      process_press k t (snd (run_buttons (map Flush (ts @ [t])) s)))"
  by (simp add: run_buttons_append button_processor_process_raw_value_def button_processor_flush_def
      case_prod_beta Let_def)

definition press_key :: "KEYCODE \<Rightarrow> nat \<Rightarrow> u32 \<Rightarrow> buttons \<Rightarrow> buttons" where
  "press_key k i t s = (set_key i ((key_states s ! i)\<lparr>is_pressed := True, long_reported := False,
     press_tick := t\<rparr>) s)\<lparr>active_pressed_key := k\<rparr>"

lemma process_press_accepted:
  "keycode_to_index k = Some i \<Longrightarrow> active_pressed_key s = KEYCODE_NONE \<Longrightarrow>
   \<not> is_pressed (key_states s ! i) \<Longrightarrow> debounced t (key_states s ! i) \<Longrightarrow>
   process_press k t s = press_key k i t s"
  by (auto simp: process_press_def Let_def press_key_def set_key_def debounced_def)

lemma set_key_active: "set_key i st (s\<lparr>active_pressed_key := a\<rparr>) = (set_key i st s)\<lparr>active_pressed_key := a\<rparr>"
  by (simp add: set_key_def)

lemma process_release_held:
  assumes "keycode_to_index k = Some i" "i < length (key_states s)" "is_pressed st"
  shows "process_release t ((set_key i st s)\<lparr>active_pressed_key := k\<rparr>) =
    (let st1 = st\<lparr>is_pressed := False\<rparr>;
         put = (\<lambda>x. (set_key i x s)\<lparr>active_pressed_key := KEYCODE_NONE\<rparr>) in
     if long_reported st then ([], put (st1\<lparr>wait_single := False\<rparr>))
     else if t - press_tick st \<ge> long_press_ms s
     then ([(k, BUTTON_EVENT_LONG_PRESS)], put (st1\<lparr>long_reported := True, wait_single := False\<rparr>))
     else if \<not> keycode_supports_double_click s k
     then ([(k, BUTTON_EVENT_SHORT_PRESS)], put (st1\<lparr>wait_single := False, release_tick := t\<rparr>))
     else if wait_single st \<and> t - release_tick st \<le> double_click_ms s
     then ([(k, BUTTON_EVENT_DOUBLE_CLICK)], put (st1\<lparr>wait_single := False\<rparr>))
     else ([], put (st1\<lparr>wait_single := True, release_tick := t\<rparr>)))"
proof -
  have "k \<noteq> KEYCODE_NONE" using assms(1) by auto
  with assms show ?thesis
    by (simp add: process_release_def Let_def set_key_def keycode_supports_double_click_def)
qed

lemma others_quiet_active [simp]: "others_quiet i (s\<lparr>active_pressed_key := a\<rparr>) = others_quiet i s"
  by (simp add: others_quiet_def)

lemma press_key_simps [simp]:
  "long_press_ms (press_key k i t s) = long_press_ms s"
  "double_click_ms (press_key k i t s) = double_click_ms s"
  "double_click_mask (press_key k i t s) = double_click_mask s"
  "active_pressed_key (press_key k i t s) = k"
  "i < length (key_states s) \<Longrightarrow> key_states (press_key k i t s) ! i =
     (key_states s ! i)\<lparr>is_pressed := True, long_reported := False, press_tick := t\<rparr>"
  "length (key_states (press_key k i t s)) = length (key_states s)"
  "others_quiet i (press_key k i t s) = others_quiet i s"
  "set_key i st (press_key k i t s) = (set_key i st s)\<lparr>active_pressed_key := k\<rparr>"
  by (simp_all add: press_key_def set_key_active)

lemma all_quietD:
  assumes "btn_inv s" "all_quiet s" "keycode_to_index k = Some i"
  shows "others_quiet i s" "i < length (key_states s)" "quiet (key_states s ! i)"
    "active_pressed_key s = KEYCODE_NONE" "k \<noteq> KEYCODE_NONE"
proof -
  obtain a b c where 3: "key_states s = [a, b, c]"
    using assms(1) by (auto simp: btn_inv_def elim: length_3_cases)
  show "others_quiet i s" "i < length (key_states s)" "quiet (key_states s ! i)" "k \<noteq> KEYCODE_NONE"
    using assms 3 by (cases k; simp add: all_quiet_def others_quiet_def)+
  show "active_pressed_key s = KEYCODE_NONE"
    using assms 3 by (cases "active_pressed_key s") (auto simp: btn_inv_def all_quiet_def quiet_def)
qed

lemma first_press:
  assumes "btn_inv s" "all_quiet s" "keycode_to_index k = Some i"
    and "\<not> is_release_raw_value v" "raw_to_keycode v = k" "debounced t (key_states s ! i)"
  shows "button_step (Raw v t) s = ([], press_key k i t s)"
proof -
  note q = all_quietD [OF assms(1-3)]
  have "process_hold_and_pending t s = ([], s)"
    using hold_only [of s k i t] q assms(1,3) set_key_same [of i s]
    by (simp add: hold_key_quiet btn_inv_def)
  then show ?thesis
    using process_press_accepted [of k i s t] q assms
    by (simp add: button_processor_process_raw_value_def quiet_def)
qed

lemma all_quiet_set_key:
  assumes "length (key_states s) = 3" "others_quiet i s" "i < 3" "quiet st"
  shows "all_quiet ((set_key i st s)\<lparr>active_pressed_key := a\<rparr>)"
  using assms(1)
proof (rule length_3_cases)
  fix x y z assume "key_states s = [x, y, z]"
  with assms show ?thesis
    by (auto simp: all_quiet_def set_key_def others_quiet_def nth_list_update less_Suc_eq eval_nat_numeral)
qed

lemma click_waits:
  assumes "btn_inv s" "all_quiet s" "keycode_to_index k = Some i"
    and "\<not> is_release_raw_value v" "raw_to_keycode v = k" "is_release_raw_value r"
    and "debounced t0 (key_states s ! i)" "keycode_supports_double_click s k"
    and "list_all (\<lambda>t. t - t0 < long_press_ms s) (ts @ [t1])"
  shows "run_buttons (Raw v t0 # map Flush ts @ [Raw r t1]) s =
    ([], (set_key i \<lparr>is_pressed = False, long_reported = False, wait_single = True, press_tick = t0,
            release_tick = t1\<rparr> s)\<lparr>active_pressed_key := KEYCODE_NONE\<rparr>)"
proof -
  note q = all_quietD [OF assms(1-3)]
  have len: "length (key_states s) = 3" using assms(1) by (simp add: btn_inv_def)
  define st where "st = (key_states s ! i)\<lparr>is_pressed := True, long_reported := False, press_tick := t0\<rparr>"
  have st: "is_pressed st" "\<not> wait_single st" "\<not> long_reported st" "press_tick st = t0"
    using q(3) by (simp_all add: st_def quiet_def)
  have "hold_run (long_press_ms s) (double_click_ms s) k (ts @ [t1]) st = ([], st)"
    using assms(9) st by (intro hold_run_inactive) (auto simp: list_all_iff not_le)
  then have flush: "run_buttons (map Flush (ts @ [t1])) (press_key k i t0 s) =
      ([], (set_key i st s)\<lparr>active_pressed_key := k\<rparr>)"
    using run_flushes [of "press_key k i t0 s" k i "ts @ [t1]"] len q assms(3) by (simp add: st_def)
  have "run_buttons (Raw v t0 # map Flush ts @ [Raw r t1]) s =
      process_release t1 ((set_key i st s)\<lparr>active_pressed_key := k\<rparr>)"
    by (simp only: run_buttons.simps first_press [OF assms(1-5,7)] run_flush_release [OF assms(6)] flush
        Let_def prod.case fst_conv snd_conv append_Nil prod.collapse)
  moreover have "st\<lparr>is_pressed := False, wait_single := True, release_tick := t1\<rparr> =
      \<lparr>is_pressed = False, long_reported = False, wait_single = True, press_tick = t0, release_tick = t1\<rparr>"
    using st by (cases st) simp
  moreover have "\<not> long_press_ms s \<le> t1 - t0" using assms(9) by (simp add: not_le)
  ultimately show ?thesis
    using process_release_held [OF assms(3) q(2) st(1), of t1] assms(8) st by (simp add: Let_def)
qed

lemma held_flushes:
  assumes "length (key_states s) = 3" "keycode_to_index k = Some i" "others_quiet i s"
    and "hold_run (long_press_ms s) (double_click_ms s) k ts st = (es, st')"
  shows "run_buttons (map Flush ts) ((set_key i st s)\<lparr>active_pressed_key := a\<rparr>) =
    (es, (set_key i st' s)\<lparr>active_pressed_key := a\<rparr>)"
  using run_flushes [of "(set_key i st s)\<lparr>active_pressed_key := a\<rparr>" k i ts] assms
    keycode_index_less [OF assms(2)]
  by (simp add: set_key_active)

lemma single_click_reported:
  assumes "btn_inv s" "all_quiet s" "keycode_to_index k = Some i"
    and "\<not> is_release_raw_value v" "raw_to_keycode v = k" "is_release_raw_value r"
    and "debounced t0 (key_states s ! i)" "keycode_supports_double_click s k"
    and "list_all (\<lambda>t. t - t0 < long_press_ms s) (ts @ [t1])"
    and "list_ex (\<lambda>t. double_click_ms s < t - t1) ts'"
  shows "fst (run_buttons (Raw v t0 # map Flush ts @ Raw r t1 # map Flush ts') s) =
    [(k, BUTTON_EVENT_SHORT_PRESS)]"
proof -
  note q = all_quietD [OF assms(1-3)]
  define st where "st = \<lparr>is_pressed = False, long_reported = False, wait_single = True, press_tick = t0,
    release_tick = t1\<rparr>"
  have "fst (hold_run (long_press_ms s) (double_click_ms s) k ts' st) = [(k, BUTTON_EVENT_SHORT_PRESS)]"
    using assms(10) by (subst hold_run_waiting) (auto simp: st_def list_ex_iff)
  then obtain st' where h: "hold_run (long_press_ms s) (double_click_ms s) k ts' st =
      ([(k, BUTTON_EVENT_SHORT_PRESS)], st')"
    by (metis prod.collapse)
  have app: "Raw v t0 # map Flush ts @ Raw r t1 # map Flush ts' =
      (Raw v t0 # map Flush ts @ [Raw r t1]) @ map Flush ts'" by simp
  show ?thesis
    unfolding app run_buttons_append click_waits [OF assms(1-9)] st_def [symmetric]
    using held_flushes [OF _ assms(3) q(1) h] assms(1) by (simp add: btn_inv_def)
qed

section \<open>Properties\<close>

text \<open>
  No phantom events: over any sequence of raw samples and polls with any ticks, starting
  from any consistent state, a key emits at most as many events as it received press samples
  plus what it owed at the start.
\<close>

theorem no_phantom_events:
  assumes "btn_inv s" "keycode_to_index k = Some i"
  shows "events_of k (fst (run_buttons xs s)) \<le> debt (key_states s ! i) + length (filter (press_sample k) xs)"
  using run_debt [OF assms, of xs] by simp

theorem no_phantom_events_witness:
  "events_of KEYCODE_OK (fst (run_buttons [Raw 4 5, Flush 3000, Raw 0 3010] buttons_boot)) \<le> 1"
proof -
  have "debt (key_states buttons_boot ! 2) = 0" by code_simp
  moreover have "length (filter (press_sample KEYCODE_OK) [Raw 4 5, Flush 3000, Raw 0 3010]) = 1" by code_simp
  ultimately show ?thesis
    using no_phantom_events [OF boot_inv, of KEYCODE_OK 2 "[Raw 4 5, Flush 3000, Raw 0 3010]"] by simp
qed

text \<open>
  C36. Every press of a key without double click gives exactly one event: from rest, an
  accepted press sample, any polls and the release emit one long press when the key is seen
  held for the threshold at some poll or at the release, and one short press otherwise, the
  wrap-around of the tick counter included; the keys are at rest again.
\<close>

theorem press_emits_short_or_long:
  assumes "btn_inv s" "all_quiet s" "keycode_to_index k = Some i"
    and "\<not> is_release_raw_value v" "raw_to_keycode v = k" "is_release_raw_value r"
    and "debounced t0 (key_states s ! i)" "\<not> keycode_supports_double_click s k"
  shows "case run_buttons (Raw v t0 # map Flush ts @ [Raw r t1]) s of (es, s') \<Rightarrow>
    es = [(k, if list_ex (\<lambda>t. long_press_ms s \<le> t - t0) (ts @ [t1])
              then BUTTON_EVENT_LONG_PRESS else BUTTON_EVENT_SHORT_PRESS)] \<and> all_quiet s'"
proof -
  note q = all_quietD [OF assms(1-3)]
  have len: "length (key_states s) = 3" using assms(1) by (simp add: btn_inv_def)
  define st where "st = (key_states s ! i)\<lparr>is_pressed := True, long_reported := False, press_tick := t0\<rparr>"
  define st' where "st' = snd (hold_run (long_press_ms s) (double_click_ms s) k (ts @ [t1]) st)"
  have st: "is_pressed st" "\<not> wait_single st" "\<not> long_reported st" "press_tick st = t0"
    using q(3) by (simp_all add: st_def quiet_def)
  have flush: "run_buttons (map Flush (ts @ [t1])) (press_key k i t0 s) =
      (fst (hold_run (long_press_ms s) (double_click_ms s) k (ts @ [t1]) st),
       (set_key i st' s)\<lparr>active_pressed_key := k\<rparr>)"
    using run_flushes [of "press_key k i t0 s" k i "ts @ [t1]"] len q assms(3) by (simp add: st_def st'_def)
  have quiet: "all_quiet ((set_key i x s)\<lparr>active_pressed_key := KEYCODE_NONE\<rparr>)" if "quiet x" for x
    using all_quiet_set_key [OF len q(1) _ that] q(2) len by simp
  let ?S = "(set_key i st' s)\<lparr>active_pressed_key := k\<rparr>"
  have run: "run_buttons (Raw v t0 # map Flush ts @ [Raw r t1]) s =
      (fst (hold_run (long_press_ms s) (double_click_ms s) k (ts @ [t1]) st) @ fst (process_release t1 ?S),
       snd (process_release t1 ?S))"
    by (simp only: run_buttons.simps first_press [OF assms(1-5,7)] run_flush_release [OF assms(6)] flush
        Let_def prod.case fst_conv snd_conv append_Nil)
  have hold: "hold_run (long_press_ms s) (double_click_ms s) k (ts @ [t1]) st =
      (if list_ex (\<lambda>t. long_press_ms s \<le> t - t0) (ts @ [t1])
       then ([(k, BUTTON_EVENT_LONG_PRESS)], st\<lparr>long_reported := True\<rparr>) else ([], st))"
    using hold_run_pressed [OF st(1,2), of _ _ k "ts @ [t1]"] st(3,4) by (auto simp: list_ex_iff)
  have short: "\<not> long_press_ms s \<le> t1 - t0" if "\<not> list_ex (\<lambda>t. long_press_ms s \<le> t - t0) (ts @ [t1])"
    using that by simp
  have held: "is_pressed st'" using st hold by (auto simp: st'_def)
  show ?thesis
    unfolding run process_release_held [OF assms(3) q(2) held]
    using assms(8) st short
    by (auto simp: hold st'_def Let_def quiet_def
        split: if_splits intro!: quiet simp del: list_ex_append)
qed

theorem press_emits_short_or_long_witness:
  "fst (run_buttons (Raw 2 (- 100) # map Flush [- 50, 10, 1910] @ [Raw 0 1930]) buttons_boot) =
     [(KEYCODE_UP, BUTTON_EVENT_LONG_PRESS)]"
proof -
  have "all_quiet buttons_boot" "raw_to_keycode 2 = KEYCODE_UP" "\<not> is_release_raw_value 2"
    "is_release_raw_value 0" "debounced (- 100) (key_states buttons_boot ! 0)"
    "\<not> keycode_supports_double_click buttons_boot KEYCODE_UP"
    "list_ex (\<lambda>t. long_press_ms buttons_boot \<le> t - (- 100)) ([- 50, 10, 1910] @ [1930])"
    by code_simp+
  then show ?thesis
    using press_emits_short_or_long [OF boot_inv, of KEYCODE_UP 0 2 0 "- 100" "[- 50, 10, 1910]" 1930]
    by (simp add: case_prod_beta)
qed

text \<open>
  Two clicks of a double-click key make exactly one double click and no short press:
  from rest, press, release, a second debounced press and release, with any polls in
  between, when neither press reaches the long-press threshold and everything up to the
  second release stays in the double-click window.
\<close>

theorem double_click_recognised:
  assumes "btn_inv s" "all_quiet s" "keycode_to_index k = Some i"
    and "\<not> is_release_raw_value v" "raw_to_keycode v = k" "is_release_raw_value r"
    and "debounced t0 (key_states s ! i)" "keycode_supports_double_click s k"
    and "list_all (\<lambda>t. t - t0 < long_press_ms s) (ts1 @ [t1])"
    and "list_all (\<lambda>t. t - t2 < long_press_ms s) (ts3 @ [t3])"
    and "list_all (\<lambda>t. t - t1 \<le> double_click_ms s) ((ts2 @ [t2]) @ ts3 @ [t3])"
    and "BUTTON_PROCESSOR_DEBOUNCE_MS \<le> t2 - t1"
  shows "case run_buttons ((Raw v t0 # map Flush ts1 @ [Raw r t1]) @ (map Flush ts2 @ [Raw v t2])
           @ map Flush ts3 @ [Raw r t3]) s of
    (es, s') \<Rightarrow> es = [(k, BUTTON_EVENT_DOUBLE_CLICK)] \<and> all_quiet s'"
proof -
  note q = all_quietD [OF assms(1-3)]
  have len: "length (key_states s) = 3" using assms(1) by (simp add: btn_inv_def)
  define st where "st = \<lparr>is_pressed = False, long_reported = False, wait_single = True, press_tick = t0,
    release_tick = t1\<rparr>"
  define st2 where "st2 = st\<lparr>is_pressed := True, long_reported := False, press_tick := t2\<rparr>"
  have "hold_run (long_press_ms s) (double_click_ms s) k (ts2 @ [t2]) st = ([], st)"
    using assms(11) by (intro hold_run_inactive) (auto simp: st_def list_all_iff not_less)
  note wait = held_flushes [OF len assms(3) q(1) this, of KEYCODE_NONE]
  have "hold_run (long_press_ms s) (double_click_ms s) k (ts3 @ [t3]) st2 = ([], st2)"
    using assms(10,11) by (intro hold_run_inactive) (auto simp: st2_def st_def list_all_iff not_less not_le)
  note hold = held_flushes [OF len assms(3) q(1) this, of k]
  have press: "process_press k t2 ((set_key i st s)\<lparr>active_pressed_key := KEYCODE_NONE\<rparr>) =
      (set_key i st2 s)\<lparr>active_pressed_key := k\<rparr>"
    using assms(12) q(2)
    by (subst process_press_accepted [OF assms(3)])
      (simp_all add: debounced_def st_def st2_def press_key_def set_key_active)
  have second: "run_buttons (map Flush ts3 @ [Raw r t3]) ((set_key i st2 s)\<lparr>active_pressed_key := k\<rparr>) =
      process_release t3 ((set_key i st2 s)\<lparr>active_pressed_key := k\<rparr>)"
    unfolding run_flush_release [OF assms(6)] hold by simp
  have run: "run_buttons ((Raw v t0 # map Flush ts1 @ [Raw r t1]) @ (map Flush ts2 @ [Raw v t2])
           @ map Flush ts3 @ [Raw r t3]) s = process_release t3 ((set_key i st2 s)\<lparr>active_pressed_key := k\<rparr>)"
    by (simp only: run_buttons_append [of "Raw v t0 # _"] run_buttons_append [of "map Flush ts2 @ _"]
        click_waits [OF assms(1-9)] st_def [symmetric] fst_conv snd_conv append_Nil
        run_flush_press [OF assms(4,5) q(5)] wait press second prod.collapse)
  have "is_pressed st2" by (simp add: st2_def)
  then show ?thesis
    unfolding run process_release_held [OF assms(3) q(2) \<open>is_pressed st2\<close>]
    using assms(8,10,11) len q
    by (auto simp: st2_def st_def Let_def not_le quiet_def intro!: all_quiet_set_key)
qed

theorem double_click_recognised_witness:
  "fst (run_buttons ((Raw 4 1000 # map Flush [1020] @ [Raw 0 1100]) @ (map Flush [1150] @ [Raw 4 1200])
           @ map Flush [1220] @ [Raw 0 1300]) buttons_boot) = [(KEYCODE_OK, BUTTON_EVENT_DOUBLE_CLICK)]"
proof -
  have "all_quiet buttons_boot" "raw_to_keycode 4 = KEYCODE_OK" "\<not> is_release_raw_value 4"
    "is_release_raw_value 0" "debounced 1000 (key_states buttons_boot ! 2)"
    "keycode_supports_double_click buttons_boot KEYCODE_OK"
    "list_all (\<lambda>t. t - 1000 < long_press_ms buttons_boot) ([1020] @ [1100])"
    "list_all (\<lambda>t. t - 1200 < long_press_ms buttons_boot) ([1220] @ [1300])"
    "list_all (\<lambda>t. t - 1100 \<le> double_click_ms buttons_boot) (([1150] @ [1200]) @ [1220] @ [1300])"
    "BUTTON_PROCESSOR_DEBOUNCE_MS \<le> 1200 - 1100"
    by code_simp+
  then show ?thesis
    using double_click_recognised [OF boot_inv, of KEYCODE_OK 2 4 0 1000 "[1020]" 1100 1200 "[1220]" 1300 "[1150]"]
    by (simp add: case_prod_beta)
qed

end
