(* ===== verification/Udp_Receiver.thy ===== *)
theory Udp_Receiver
  imports Prelude
begin

text \<open>
  The frame assembly of the wireless display
  (\<^verbatim>\<open>services/wifi_display_service/src/rvt_udp_receiver.c\<close>): UDP fragments carry a
  sequence number, an offset and the total length of an encoded picture; the receiver copies
  them into a frame buffer, marks the bytes it has in a bitmap and hands complete, plausible
  frames to the display port.

  The record \<open>udp_rx\<close> is the file's static variables; buffer and bitmap are byte lists.
  Build options (buffer size, codec, time-out in ticks) are in \<open>rx_cfg\<close>. The display
  port and the clock are outside the file: \<open>submit\<close> is the port's answer to a frame and
  the clock readings of one loop iteration are an argument. A \<^verbatim>\<open>memcpy\<close> beyond the frame
  buffer is the error value. Counters used only by log messages are left out.
\<close>

section \<open>State\<close>

abbreviation (input) RVT_WIFI_DISPLAY_UDP_HEADER_LEN :: nat where "RVT_WIFI_DISPLAY_UDP_HEADER_LEN \<equiv> 16"
abbreviation (input) RVT_WIFI_DISPLAY_UDP_SYNC0 :: u8 where "RVT_WIFI_DISPLAY_UDP_SYNC0 \<equiv> 171"
abbreviation (input) RVT_WIFI_DISPLAY_UDP_SYNC1 :: u8 where "RVT_WIFI_DISPLAY_UDP_SYNC1 \<equiv> 1"
abbreviation (input) RVT_WIFI_DISPLAY_UDP_FLAG_EOF :: u8 where "RVT_WIFI_DISPLAY_UDP_FLAG_EOF \<equiv> 2"

record rx_cfg =
  max_frame_size :: nat
  rx_h264_raw :: bool
  frame_timeout :: u32

record udp_rx =
  total_packets :: u32
  lost_packets :: u32
  frame_buf :: "u8 list"
  frame_cover_map :: "u8 list"
  frame_len :: nat
  frame_received_len :: nat
  frame_received_pkts :: nat
  frame_seq :: u16
  frame_started :: bool
  frame_has_expected_len :: bool
  frame_finished_seq :: u16
  frame_finished_seq_valid :: bool
  frame_start_tick :: u32
  udp_running :: bool
  udp_tid :: bool
  udp_socket_fd :: int

datatype rx_error = Memcpy_out_of_bounds

definition cover_map_size :: "rx_cfg \<Rightarrow> nat" where
  "cover_map_size cfg = (max_frame_size cfg + 7) div 8"

definition udp_boot :: "rx_cfg \<Rightarrow> udp_rx" where
  "udp_boot cfg = \<lparr>total_packets = 0, lost_packets = 0, frame_buf = replicate (max_frame_size cfg) 0,
     frame_cover_map = replicate (cover_map_size cfg) 0, frame_len = 0, frame_received_len = 0,
     frame_received_pkts = 0, frame_seq = 65535, frame_started = False, frame_has_expected_len = False,
     frame_finished_seq = 65535, frame_finished_seq_valid = False, frame_start_tick = 0,
     udp_running = False, udp_tid = False, udp_socket_fd = - 1\<rparr>"

section \<open>One frame\<close>

definition frame_assembly_reset :: "udp_rx \<Rightarrow> udp_rx" where
  "frame_assembly_reset s = s\<lparr>frame_len := 0, frame_received_len := 0, frame_received_pkts := 0,
     frame_has_expected_len := False,
     frame_cover_map := replicate (length (frame_cover_map s)) 0\<rparr>"

definition frame_start :: "rx_cfg \<Rightarrow> u32 \<Rightarrow> u16 \<Rightarrow> u32 \<Rightarrow> udp_rx \<Rightarrow> udp_rx" where
  "frame_start cfg tick seq expected_len s =
     (let s1 = (frame_assembly_reset (s\<lparr>frame_seq := seq\<rparr>))\<lparr>frame_started := True, frame_start_tick := tick\<rparr>
      in if 0 < expected_len \<and> unat expected_len \<le> max_frame_size cfg
         then s1\<lparr>frame_len := unat expected_len, frame_has_expected_len := True\<rparr> else s1)"

text \<open>The bit of byte \<open>i\<close> in the coverage map: mask \<open>1 << (i & 7)\<close> of slot \<open>i >> 3\<close>.\<close>

definition cover_mask :: "nat \<Rightarrow> u8" where
  "cover_mask i = push_bit (i mod 8) 1"

definition frame_byte_received :: "rx_cfg \<Rightarrow> nat \<Rightarrow> udp_rx \<Rightarrow> bool" where
  "frame_byte_received cfg offset s \<longleftrightarrow>
     offset < max_frame_size cfg \<and> and (frame_cover_map s ! (offset div 8)) (cover_mask offset) \<noteq> 0"

definition mark_byte :: "nat \<Rightarrow> udp_rx \<Rightarrow> udp_rx" where
  "mark_byte i s =
     (let slot = frame_cover_map s ! (i div 8) in
      if and slot (cover_mask i) = 0
      then s\<lparr>frame_cover_map := (frame_cover_map s)[i div 8 := or slot (cover_mask i)],
             frame_received_len := frame_received_len s + 1\<rparr>
      else s)"

definition frame_mark_received :: "u32 \<Rightarrow> nat \<Rightarrow> udp_rx \<Rightarrow> udp_rx" where
  "frame_mark_received offset len s = fold mark_byte [unat offset..<unat (offset + of_nat len)] s"

definition frame_is_complete :: "udp_rx \<Rightarrow> bool" where
  "frame_is_complete s \<longleftrightarrow> frame_has_expected_len s \<and> 0 < frame_len s \<and> frame_len s \<le> frame_received_len s"

definition is_jpeg_valid :: "u8 list \<Rightarrow> nat \<Rightarrow> bool" where
  "is_jpeg_valid data len \<longleftrightarrow> \<not> len < 4 \<and> data ! 0 = 0xFF \<and> data ! 1 = 0xD8
     \<and> data ! (len - 2) = 0xFF \<and> data ! (len - 1) = 0xD9"

definition is_h264_raw_valid :: "u8 list \<Rightarrow> nat \<Rightarrow> bool" where
  "is_h264_raw_valid data len \<longleftrightarrow> \<not> len < 5 \<and>
     list_ex (\<lambda>i. i + 4 < len \<and>
       (data ! i = 0 \<and> data ! (i + 1) = 0 \<and> data ! (i + 2) = 1 \<or>
        data ! i = 0 \<and> data ! (i + 1) = 0 \<and> data ! (i + 2) = 0 \<and> data ! (i + 3) = 1)) [0..<16]"

definition frame_can_try_legacy_jpeg :: "udp_rx \<Rightarrow> bool" where
  "frame_can_try_legacy_jpeg s \<longleftrightarrow> \<not> (frame_has_expected_len s \<or> frame_len s = 0)
     \<and> frame_len s \<le> frame_received_len s \<and> is_jpeg_valid (frame_buf s) (frame_len s)"

definition get_udp_statistics :: "udp_rx \<Rightarrow> (u32 \<times> u32) \<times> udp_rx" where
  "get_udp_statistics s = ((total_packets s, lost_packets s), s\<lparr>total_packets := 0, lost_packets := 0\<rparr>)"

definition frame_close_current :: "udp_rx \<Rightarrow> udp_rx" where
  "frame_close_current s = frame_assembly_reset (s\<lparr>frame_finished_seq := frame_seq s,
     frame_finished_seq_valid := True, frame_started := False\<rparr>)"

definition seq_is_newer :: "u16 \<Rightarrow> u16 \<Rightarrow> bool" where
  "seq_is_newer seq old_seq \<longleftrightarrow> seq - old_seq < 0x8000 \<and> seq \<noteq> old_seq"

definition lose_packet :: "udp_rx \<Rightarrow> udp_rx" where
  "lose_packet s = s\<lparr>lost_packets := lost_packets s + 1\<rparr>"

definition frame_valid :: "rx_cfg \<Rightarrow> udp_rx \<Rightarrow> bool" where
  "frame_valid cfg s = (if rx_h264_raw cfg then is_h264_raw_valid (frame_buf s) (frame_len s)
     else is_jpeg_valid (frame_buf s) (frame_len s))"

text \<open>Returns the code, the frames handed to the display port (at most one) and the new state.\<close>

definition enqueue_current_frame ::
  "rx_cfg \<Rightarrow> (u8 list \<Rightarrow> int) \<Rightarrow> udp_rx \<Rightarrow> int \<times> u8 list list \<times> udp_rx"
where
  "enqueue_current_frame cfg submit s =
     (if \<not> frame_started s \<or> frame_len s = 0 then (- 1, [], s)
      else let complete = (frame_is_complete s \<or> frame_can_try_legacy_jpeg s);
               valid = (complete \<and> frame_valid cfg s);
               frame = take (frame_len s) (frame_buf s)
           in if \<not> complete then (- 1, [], lose_packet s)
              else if frame_len s < 4 \<or> \<not> valid then (- 1, [], lose_packet s)
              else if submit frame \<noteq> 0 then (- 1, [frame], lose_packet s)
              else (0, [frame], s))"

section \<open>One datagram\<close>

definition be16 :: "u8 \<Rightarrow> u8 \<Rightarrow> u16" where
  "be16 a b = or (push_bit 8 (ucast a)) (ucast b)"

definition be32 :: "u8 \<Rightarrow> u8 \<Rightarrow> u8 \<Rightarrow> u8 \<Rightarrow> u32" where
  "be32 a b c d = or (or (or (push_bit 24 (ucast a)) (push_bit 16 (ucast b))) (push_bit 8 (ucast c))) (ucast d)"

text \<open>
  Deciding which frame a datagram belongs to: the frames the switch handed on, the new
  state, and whether the datagram is processed further.
\<close>

definition select_frame ::
  "rx_cfg \<Rightarrow> (u8 list \<Rightarrow> int) \<Rightarrow> u32 \<Rightarrow> u16 \<Rightarrow> u32 \<Rightarrow> udp_rx \<Rightarrow> u8 list list \<times> udp_rx \<times> bool"
where
  "select_frame cfg submit tick seq hdr_frame_len s =
     (if \<not> frame_started s \<or> seq \<noteq> frame_seq s
      then (if frame_started s \<and> \<not> seq_is_newer seq (frame_seq s) then ([], s, False)
            else let (fs, s1) = (if frame_started s
                                 then (case enqueue_current_frame cfg submit s of
                                         (_, fs, t) \<Rightarrow> (fs, frame_close_current t))
                                 else ([], s))
                 in if frame_finished_seq_valid s1 \<and> \<not> seq_is_newer seq (frame_finished_seq s1)
                    then (fs, s1, False)
                    else (fs, frame_start cfg tick seq hdr_frame_len s1, True))
      else if 0 < hdr_frame_len \<and> \<not> frame_has_expected_len s
      then ([], s\<lparr>frame_len := unat hdr_frame_len, frame_has_expected_len := True\<rparr>, True)
      else if 0 < hdr_frame_len \<and> frame_has_expected_len s \<and> frame_len s \<noteq> unat hdr_frame_len
      then ([], frame_close_current (lose_packet s), False)
      else ([], s, True))"

definition store_fragment ::
  "rx_cfg \<Rightarrow> (u8 list \<Rightarrow> int) \<Rightarrow> u32 \<Rightarrow> u32 \<Rightarrow> u8 \<Rightarrow> u8 list \<Rightarrow> udp_rx \<Rightarrow> rx_error + u8 list list \<times> udp_rx"
where
  "store_fragment cfg submit tick offset flags payload s =
     (let payload_len = length payload; end = offset + of_nat payload_len in
      if unat end > max_frame_size cfg then Inr ([], frame_close_current s)
      else if frame_has_expected_len s \<and> unat end > frame_len s then Inr ([], frame_close_current s)
      else if unat offset + payload_len > max_frame_size cfg then Inl Memcpy_out_of_bounds
      else
        let s1 = s\<lparr>frame_buf := take (unat offset) (frame_buf s) @ payload
                     @ drop (unat offset + payload_len) (frame_buf s)\<rparr>;
            s2 = frame_mark_received offset payload_len s1;
            s3 = s2\<lparr>frame_received_pkts := frame_received_pkts s2 + 1\<rparr>;
            s4 = (if \<not> frame_has_expected_len s3 \<and> unat end > frame_len s3
                  then s3\<lparr>frame_len := unat end\<rparr> else s3);
            s5 = s4\<lparr>frame_start_tick := tick\<rparr>
        in if frame_is_complete s5 \<or> and flags RVT_WIFI_DISPLAY_UDP_FLAG_EOF \<noteq> 0 \<and> frame_is_complete s5
           then (case enqueue_current_frame cfg submit s5 of (_, fs, t) \<Rightarrow> Inr (fs, frame_close_current t))
           else Inr ([], s5))"

definition handle_fragment ::
  "rx_cfg \<Rightarrow> (u8 list \<Rightarrow> int) \<Rightarrow> u32 \<times> u32 \<times> u32 \<Rightarrow> u16 \<Rightarrow> u32 \<Rightarrow> u32 \<Rightarrow> u8 \<Rightarrow> u8 list \<Rightarrow> udp_rx
   \<Rightarrow> rx_error + u8 list list \<times> udp_rx"
where
  "handle_fragment cfg submit clk seq offset hdr_frame_len flags payload s =
     (case select_frame cfg submit (fst clk) seq hdr_frame_len s of (fs, s1, go) \<Rightarrow>
        if \<not> go then Inr (fs, s1)
        else if frame_started s1 \<and> fst (snd clk) - frame_start_tick s1 \<ge> frame_timeout cfg
        then (case enqueue_current_frame cfg submit s1 of (_, fs', t) \<Rightarrow> Inr (fs @ fs', frame_close_current t))
        else if frame_started s1 \<and> seq = frame_seq s1
        then (case store_fragment cfg submit (snd (snd clk)) offset flags payload s1 of
                Inl e \<Rightarrow> Inl e | Inr (fs', t) \<Rightarrow> Inr (fs @ fs', t))
        else Inr (fs, s1))"

definition udp_packet ::
  "rx_cfg \<Rightarrow> (u8 list \<Rightarrow> int) \<Rightarrow> u32 \<times> u32 \<times> u32 \<Rightarrow> u8 list \<Rightarrow> udp_rx \<Rightarrow> rx_error + u8 list list \<times> udp_rx"
where
  "udp_packet cfg submit clk buf s =
     (if length buf < RVT_WIFI_DISPLAY_UDP_HEADER_LEN then Inr ([], s)
      else
        let seq = be16 (buf ! 2) (buf ! 3);
            offset = be32 (buf ! 4) (buf ! 5) (buf ! 6) (buf ! 7);
            hdr_frame_len = be32 (buf ! 8) (buf ! 9) (buf ! 10) (buf ! 11);
            hdr_payload_len = be16 (buf ! 12) (buf ! 13);
            flags = buf ! 14;
            payload = drop RVT_WIFI_DISPLAY_UDP_HEADER_LEN buf
        in if buf ! 0 \<noteq> RVT_WIFI_DISPLAY_UDP_SYNC0 \<or> buf ! 1 \<noteq> RVT_WIFI_DISPLAY_UDP_SYNC1 then Inr ([], s)
           else if 0 < hdr_payload_len \<and> unat hdr_payload_len > length payload then Inr ([], lose_packet s)
           else if unat hdr_frame_len > max_frame_size cfg then Inr ([], lose_packet s)
           else handle_fragment cfg submit clk seq offset hdr_frame_len flags
                  (if 0 < hdr_payload_len then take (unat hdr_payload_len) payload else payload)
                  (s\<lparr>total_packets := total_packets s + 1\<rparr>))"

text \<open>The receive loop over the datagrams that arrive while the receiver runs.\<close>

fun udp_loop ::
  "rx_cfg \<Rightarrow> (u8 list \<Rightarrow> int) \<Rightarrow> ((u32 \<times> u32 \<times> u32) \<times> u8 list) list \<Rightarrow> udp_rx \<Rightarrow> rx_error + u8 list list \<times> udp_rx"
where
  "udp_loop cfg submit [] s = Inr ([], s)"
| "udp_loop cfg submit ((clk, buf) # rest) s =
     (case udp_packet cfg submit clk buf s of
        Inl e \<Rightarrow> Inl e
      | Inr (fs, s1) \<Rightarrow> (case udp_loop cfg submit rest s1 of
                            Inl e \<Rightarrow> Inl e | Inr (fs', s2) \<Rightarrow> Inr (fs @ fs', s2)))"

section \<open>Control\<close>

text \<open>
  \<open>port_ok\<close>: the display port initialises; \<open>tid_ok\<close>: the thread is created.
\<close>

definition udp_receiver_init :: "bool \<Rightarrow> bool \<Rightarrow> udp_rx \<Rightarrow> int \<times> udp_rx" where
  "udp_receiver_init port_ok tid_ok s =
     (if udp_running s then (- 1, s)
      else let s1 = (if udp_socket_fd s \<ge> 0 then s\<lparr>udp_socket_fd := - 1\<rparr> else s) in
           if \<not> port_ok then (- 1, s1)
           else let s2 = (frame_assembly_reset s1)\<lparr>frame_started := False, frame_finished_seq_valid := False,
                           udp_running := True, udp_tid := tid_ok\<rparr>
                in if tid_ok then (0, s2) else (- 1, s2\<lparr>udp_running := False\<rparr>))"

definition udp_receiver_stop :: "udp_rx \<Rightarrow> udp_rx" where
  "udp_receiver_stop s = frame_assembly_reset (s\<lparr>udp_running := False, udp_socket_fd := - 1,
     frame_started := False\<rparr>)"

definition udp_receiver_clear_stream :: "udp_rx \<Rightarrow> udp_rx" where
  "udp_receiver_clear_stream s = (frame_assembly_reset (s\<lparr>frame_started := False\<rparr>))
     \<lparr>frame_finished_seq_valid := False\<rparr>"

section \<open>The coverage map is a set of byte positions\<close>

definition cov :: "udp_rx \<Rightarrow> nat set" where
  "cov s = {i. i < 8 * length (frame_cover_map s) \<and> bit (frame_cover_map s ! (i div 8)) (i mod 8)}"

lemma finite_cov [simp]: "finite (cov s)"
  by (simp add: cov_def)

lemma and_cover_mask: "and b (cover_mask i) = 0 \<longleftrightarrow> \<not> bit b (i mod 8)"
  by (simp add: cover_mask_def bit_iff_and_push_bit_not_eq_0)

lemma bit_or_cover_mask: "k < 8 \<Longrightarrow> bit (or b (cover_mask i)) k \<longleftrightarrow> bit b k \<or> k = i mod 8"
  by (auto simp: cover_mask_def bit_simps)

lemma div_mod_8_eq: "j div 8 = i div 8 \<Longrightarrow> j mod 8 = i mod 8 \<Longrightarrow> j = (i :: nat)"
  by (metis div_mult_mod_eq)

lemma mark_byte_cov:
  assumes "i < 8 * length (frame_cover_map s)"
  shows "cov (mark_byte i s) = insert i (cov s)"
    and "frame_received_len (mark_byte i s) = frame_received_len s + (if i \<in> cov s then 0 else 1)"
    and "length (frame_cover_map (mark_byte i s)) = length (frame_cover_map s)"
proof -
  have i: "i div 8 < length (frame_cover_map s)" using assms by auto
  have b: "bit ((frame_cover_map s)[i div 8 := or (frame_cover_map s ! (i div 8)) (cover_mask i)] ! (j div 8)) (j mod 8)
      \<longleftrightarrow> bit (frame_cover_map s ! (j div 8)) (j mod 8) \<or> j = i" if "j < 8 * length (frame_cover_map s)" for j
    using i div_mod_8_eq [of j i] by (auto simp: nth_list_update bit_or_cover_mask)
  show "cov (mark_byte i s) = insert i (cov s)"
    using assms b by (auto simp: cov_def mark_byte_def Let_def and_cover_mask)
  show "frame_received_len (mark_byte i s) = frame_received_len s + (if i \<in> cov s then 0 else 1)"
    using assms by (auto simp: cov_def mark_byte_def Let_def and_cover_mask)
  show "length (frame_cover_map (mark_byte i s)) = length (frame_cover_map s)"
    by (simp add: mark_byte_def Let_def)
qed

lemma mark_byte_other:
  "\<exists>m n. mark_byte i s = s\<lparr>frame_cover_map := m, frame_received_len := n\<rparr>"
proof (cases "and (frame_cover_map s ! (i div 8)) (cover_mask i) = 0")
  case False
  then have "mark_byte i s = s\<lparr>frame_cover_map := frame_cover_map s, frame_received_len := frame_received_len s\<rparr>"
    by (simp add: mark_byte_def Let_def)
  then show ?thesis by blast
qed (auto simp: mark_byte_def Let_def)

lemma mark_bytes:
  assumes "\<forall>i\<in>set is. i < 8 * length (frame_cover_map s)" "frame_received_len s = card (cov s)"
  shows "cov (fold mark_byte is s) = cov s \<union> set is
    \<and> frame_received_len (fold mark_byte is s) = card (cov s \<union> set is)
    \<and> length (frame_cover_map (fold mark_byte is s)) = length (frame_cover_map s)"
  using assms
proof (induction "is" arbitrary: s)
  case Nil
  then show ?case by simp
next
  case (Cons i "is")
  have i: "i < 8 * length (frame_cover_map s)" using Cons.prems by simp
  have "frame_received_len (mark_byte i s) = card (cov (mark_byte i s))"
    using mark_byte_cov [OF i] Cons.prems by (auto simp: card_insert_if)
  with Cons.IH [of "mark_byte i s"] mark_byte_cov [OF i] Cons.prems show ?case by simp
qed

lemma mark_bytes_other:
  "\<exists>m n. fold mark_byte is s = s\<lparr>frame_cover_map := m, frame_received_len := n\<rparr>"
proof (induction "is" arbitrary: s)
  case Nil
  have "s = s\<lparr>frame_cover_map := frame_cover_map s, frame_received_len := frame_received_len s\<rparr>" by simp
  then show ?case by (metis fold_simps(1))
next
  case (Cons i "is")
  obtain m n where "mark_byte i s = s\<lparr>frame_cover_map := m, frame_received_len := n\<rparr>"
    using mark_byte_other by blast
  with Cons.IH [of "mark_byte i s"] show ?case by auto
qed

lemma unat_end:
  assumes "unat (offset :: u32) + len < 2 ^ 32"
  shows "unat (offset + of_nat len) = unat offset + len"
  using assms by (simp add: unat_word_ariths unat_of_nat)

text \<open>What a reset leaves: an empty set of bytes.\<close>

lemma reset_cov [simp]:
  "cov (frame_assembly_reset s) = {}" "frame_received_len (frame_assembly_reset s) = 0"
  "frame_len (frame_assembly_reset s) = 0"
  by (auto simp: cov_def frame_assembly_reset_def)

section \<open>Memory safety\<close>

definition rx_inv :: "rx_cfg \<Rightarrow> udp_rx \<Rightarrow> bool" where
  "rx_inv cfg s \<longleftrightarrow> length (frame_buf s) = max_frame_size cfg
     \<and> length (frame_cover_map s) = cover_map_size cfg
     \<and> frame_len s \<le> max_frame_size cfg
     \<and> frame_received_len s = card (cov s) \<and> cov s \<subseteq> {..<max_frame_size cfg}"

lemma cov_cong: "frame_cover_map s = frame_cover_map t \<Longrightarrow> cov s = cov t"
  by (simp add: cov_def)

lemma cov_updates [simp]:
  "cov (s\<lparr>frame_buf := b\<rparr>) = cov s" "cov (s\<lparr>frame_len := n\<rparr>) = cov s"
  "cov (s\<lparr>frame_received_pkts := n\<rparr>) = cov s" "cov (s\<lparr>frame_start_tick := t\<rparr>) = cov s"
  "cov (s\<lparr>lost_packets := p\<rparr>) = cov s" "cov (s\<lparr>total_packets := p\<rparr>) = cov s"
  "cov (s\<lparr>frame_has_expected_len := e\<rparr>) = cov s" "cov (s\<lparr>frame_started := e\<rparr>) = cov s"
  "cov (s\<lparr>frame_seq := q\<rparr>) = cov s" "cov (s\<lparr>frame_finished_seq_valid := e\<rparr>) = cov s"
  "cov (s\<lparr>frame_finished_seq := q\<rparr>) = cov s" "cov (s\<lparr>udp_running := e\<rparr>) = cov s"
  "cov (s\<lparr>udp_tid := e\<rparr>) = cov s" "cov (s\<lparr>udp_socket_fd := f\<rparr>) = cov s"
  "cov (s\<lparr>frame_received_len := n\<rparr>) = cov s"
  by (simp_all add: cov_def)

lemma reset_inv: "rx_inv cfg s \<Longrightarrow> rx_inv cfg (frame_assembly_reset s)"
  using reset_cov [of s] by (simp add: rx_inv_def) (simp add: frame_assembly_reset_def)

lemma close_inv: "rx_inv cfg s \<Longrightarrow> rx_inv cfg (frame_close_current s)"
  unfolding frame_close_current_def by (rule reset_inv) (simp add: rx_inv_def)

lemma start_inv: "rx_inv cfg s \<Longrightarrow> rx_inv cfg (frame_start cfg tick seq l s)"
  using reset_inv [of cfg "s\<lparr>frame_seq := seq\<rparr>"] by (simp add: frame_start_def Let_def rx_inv_def)

lemma enqueue_inv: "rx_inv cfg s \<Longrightarrow> rx_inv cfg (snd (snd (enqueue_current_frame cfg submit s)))"
  by (simp add: enqueue_current_frame_def Let_def lose_packet_def rx_inv_def)

lemma lose_inv: "rx_inv cfg s \<Longrightarrow> rx_inv cfg (lose_packet s)"
  by (simp add: rx_inv_def lose_packet_def)

lemma expect_inv:
  "rx_inv cfg s \<Longrightarrow> n \<le> max_frame_size cfg \<Longrightarrow>
   rx_inv cfg (s\<lparr>frame_len := n, frame_has_expected_len := e\<rparr>)"
  by (simp add: rx_inv_def)

lemma select_inv:
  "rx_inv cfg s \<Longrightarrow> unat l \<le> max_frame_size cfg \<Longrightarrow>
   rx_inv cfg (fst (snd (select_frame cfg submit tick seq l s)))"
  using enqueue_inv [of cfg s submit]
  by (auto simp: select_frame_def Let_def case_prod_beta close_inv start_inv lose_inv expect_inv)

lemma cover_map_size_bound: "i < max_frame_size cfg \<Longrightarrow> i < 8 * cover_map_size cfg"
  unfolding cover_map_size_def by presburger

text \<open>Storing a fragment that lies inside the buffer.\<close>

definition stored :: "u32 \<Rightarrow> u32 \<Rightarrow> u8 list \<Rightarrow> udp_rx \<Rightarrow> udp_rx" where
  "stored tick offset payload s =
     (let s1 = s\<lparr>frame_buf := take (unat offset) (frame_buf s) @ payload
                 @ drop (unat offset + length payload) (frame_buf s)\<rparr>;
          s2 = frame_mark_received offset (length payload) s1;
          s3 = s2\<lparr>frame_received_pkts := frame_received_pkts s2 + 1\<rparr>;
          s4 = (if \<not> frame_has_expected_len s3 \<and> unat (offset + of_nat (length payload)) > frame_len s3
                then s3\<lparr>frame_len := unat (offset + of_nat (length payload))\<rparr> else s3)
      in s4\<lparr>frame_start_tick := tick\<rparr>)"

lemma store_fragment_in_range:
  assumes "unat offset + length payload \<le> max_frame_size cfg" "max_frame_size cfg < 2 ^ 32"
  shows "store_fragment cfg submit tick offset flags payload s =
    (if frame_has_expected_len s \<and> unat offset + length payload > frame_len s
     then Inr ([], frame_close_current s)
     else let s5 = stored tick offset payload s in
       if frame_is_complete s5
       then (case enqueue_current_frame cfg submit s5 of (_, fs, t) \<Rightarrow> Inr (fs, frame_close_current t))
       else Inr ([], s5))"
  using assms unat_end [of offset "length payload"]
  by (simp add: store_fragment_def stored_def Let_def)

lemma stored_facts:
  fixes tick :: u32
  assumes inv: "rx_inv cfg s" and range: "unat offset + length payload \<le> max_frame_size cfg"
    and max: "max_frame_size cfg < 2 ^ 32"
  defines "t \<equiv> stored tick offset payload s"
  shows "cov t = cov s \<union> {unat offset..<unat offset + length payload}"
    and "frame_received_len t = card (cov t)"
    and "frame_buf t = take (unat offset) (frame_buf s) @ payload
           @ drop (unat offset + length payload) (frame_buf s)"
    and "frame_len t = (if frame_has_expected_len s then frame_len s
           else max (frame_len s) (unat offset + length payload))"
    and "length (frame_cover_map t) = length (frame_cover_map s)"
    and "frame_seq t = frame_seq s" "frame_started t = frame_started s"
    and "frame_has_expected_len t = frame_has_expected_len s" "frame_start_tick t = tick"
proof -
  define s1 where "s1 = s\<lparr>frame_buf := take (unat offset) (frame_buf s) @ payload
                 @ drop (unat offset + length payload) (frame_buf s)\<rparr>"
  have e: "unat (offset + of_nat (length payload)) = unat offset + length payload"
    using range max by (intro unat_end) simp
  have m: "frame_mark_received offset (length payload) s1 =
      fold mark_byte [unat offset..<unat offset + length payload] s1"
    by (simp add: frame_mark_received_def e)
  obtain mp n where other: "frame_mark_received offset (length payload) s1 =
      s1\<lparr>frame_cover_map := mp, frame_received_len := n\<rparr>"
    unfolding m using mark_bytes_other by blast
  have small: "\<forall>i\<in>set [unat offset..<unat offset + length payload]. i < 8 * length (frame_cover_map s1)"
    using inv range by (auto simp: rx_inv_def s1_def intro!: cover_map_size_bound)
  have "frame_received_len s1 = card (cov s1)" using inv by (simp add: rx_inv_def s1_def)
  from mark_bytes [OF small this]
  have "cov (frame_mark_received offset (length payload) s1) = cov s1 \<union> {unat offset..<unat offset + length payload}
    \<and> frame_received_len (frame_mark_received offset (length payload) s1) =
        card (cov s1 \<union> {unat offset..<unat offset + length payload})
    \<and> length (frame_cover_map (frame_mark_received offset (length payload) s1)) = length (frame_cover_map s1)"
    unfolding m by simp
  then have c: "cov (s1\<lparr>frame_cover_map := mp\<rparr>) = cov s \<union> {unat offset..<unat offset + length payload}"
    "n = card (cov s \<union> {unat offset..<unat offset + length payload})" "length mp = length (frame_cover_map s)"
    unfolding other by (simp_all add: s1_def)
  have t: "t = (if frame_has_expected_len s \<or> unat offset + length payload \<le> frame_len s then s1
        else s1\<lparr>frame_len := unat offset + length payload\<rparr>)\<lparr>frame_cover_map := mp, frame_received_len := n,
          frame_received_pkts := frame_received_pkts s + 1, frame_start_tick := tick\<rparr>"
    unfolding t_def stored_def Let_def s1_def [symmetric] other e by (auto simp: s1_def)
  have cov: "cov t = cov (s1\<lparr>frame_cover_map := mp\<rparr>)" by (rule cov_cong) (simp add: t)
  show "cov t = cov s \<union> {unat offset..<unat offset + length payload}"
    using cov c(1) by simp
  then show "frame_received_len t = card (cov t)" using c(2) by (simp add: t)
  show "frame_buf t = take (unat offset) (frame_buf s) @ payload
           @ drop (unat offset + length payload) (frame_buf s)"
    "frame_len t = (if frame_has_expected_len s then frame_len s
           else max (frame_len s) (unat offset + length payload))"
    "length (frame_cover_map t) = length (frame_cover_map s)"
    "frame_seq t = frame_seq s" "frame_started t = frame_started s"
    "frame_has_expected_len t = frame_has_expected_len s" "frame_start_tick t = tick"
    using c(3) by (auto simp: t s1_def)
qed

lemma stored_inv:
  assumes "rx_inv cfg s" "unat offset + length payload \<le> max_frame_size cfg" "max_frame_size cfg < 2 ^ 32"
  shows "rx_inv cfg (stored tick offset payload s)"
  using stored_facts [OF assms, of tick] assms by (auto simp: rx_inv_def)

text \<open>The end of a fragment does not wrap around 32 bits.\<close>

definition no_wrap :: "u32 \<Rightarrow> u8 list \<Rightarrow> bool" where
  "no_wrap offset payload \<longleftrightarrow> unat offset + length payload < 2 ^ 32"

definition rx_ok :: "rx_cfg \<Rightarrow> rx_error + u8 list list \<times> udp_rx \<Rightarrow> bool" where
  "rx_ok cfg r \<longleftrightarrow> (case r of Inl _ \<Rightarrow> False | Inr (fs, t) \<Rightarrow> rx_inv cfg t)"

lemma store_fragment_safe:
  assumes "rx_inv cfg s" "no_wrap offset payload" "max_frame_size cfg < 2 ^ 32"
  shows "rx_ok cfg (store_fragment cfg submit tick offset flags payload s)"
proof (cases "unat offset + length payload \<le> max_frame_size cfg")
  case True
  have "rx_inv cfg (stored tick offset payload s)" by (rule stored_inv [OF assms(1) True assms(3)])
  then show ?thesis
    using enqueue_inv [of cfg "stored tick offset payload s" submit] assms(1)
    by (simp add: store_fragment_in_range [OF True assms(3)] rx_ok_def Let_def case_prod_beta close_inv)
next
  case False
  then show ?thesis
    using assms unat_end [of offset "length payload"]
    by (simp add: store_fragment_def rx_ok_def no_wrap_def close_inv)
qed

lemma handle_fragment_safe:
  assumes "rx_inv cfg s" "no_wrap offset payload" "max_frame_size cfg < 2 ^ 32" "unat l \<le> max_frame_size cfg"
  shows "rx_ok cfg (handle_fragment cfg submit clk seq offset l flags payload s)"
proof -
  obtain fs s1 go where sel: "select_frame cfg submit (fst clk) seq l s = (fs, s1, go)"
    by (cases rule: prod_cases3)
  have s1: "rx_inv cfg s1" using select_inv [OF assms(1,4), of submit "fst clk" seq] sel by simp
  show ?thesis
    using s1 store_fragment_safe [OF s1 assms(2,3), of submit "snd (snd clk)" flags] enqueue_inv [OF s1, of submit]
    by (auto simp: handle_fragment_def sel rx_ok_def close_inv case_prod_beta
        split: sum.splits prod.splits)
qed

text \<open>The payload a datagram carries and the offset it names.\<close>

definition dgram_offset :: "u8 list \<Rightarrow> u32" where
  "dgram_offset buf = be32 (buf ! 4) (buf ! 5) (buf ! 6) (buf ! 7)"

definition dgram_no_wrap :: "u8 list \<Rightarrow> bool" where
  "dgram_no_wrap buf \<longleftrightarrow> unat (dgram_offset buf) + length buf < 2 ^ 32"

lemma udp_packet_safe:
  assumes "rx_inv cfg s" "dgram_no_wrap buf" "max_frame_size cfg < 2 ^ 32"
  shows "rx_ok cfg (udp_packet cfg submit clk buf s)"
proof -
  have inv: "rx_inv cfg (s\<lparr>total_packets := n\<rparr>)" for n using assms(1) by (simp add: rx_inv_def)
  have nw: "no_wrap (be32 (buf ! 4) (buf ! 5) (buf ! 6) (buf ! 7)) p" if "length p \<le> length buf" for p
    using assms(2) that by (simp add: dgram_no_wrap_def dgram_offset_def no_wrap_def)
  show ?thesis
    unfolding udp_packet_def Let_def
    using assms(1) lose_inv [OF assms(1)]
    by (auto simp: rx_ok_def [of _ "Inr _"] intro!: handle_fragment_safe [OF inv nw assms(3)])
qed

lemma udp_loop_safe:
  assumes "rx_inv cfg s" "list_all (\<lambda>(clk, buf). dgram_no_wrap buf) ds" "max_frame_size cfg < 2 ^ 32"
  shows "rx_ok cfg (udp_loop cfg submit ds s)"
  using assms(1,2)
proof (induction ds arbitrary: s)
  case Nil
  then show ?case by (simp add: rx_ok_def)
next
  case (Cons d ds)
  obtain clk buf where d: "d = (clk, buf)" by fastforce
  have "rx_ok cfg (udp_packet cfg submit clk buf s)"
    using udp_packet_safe [of cfg s buf] Cons.prems assms(3) d by simp
  then obtain fs s1 where p: "udp_packet cfg submit clk buf s = Inr (fs, s1)" "rx_inv cfg s1"
    by (auto simp: rx_ok_def split: sum.splits)
  with Cons.IH [of s1] Cons.prems show ?case
    by (auto simp: d rx_ok_def split: sum.splits)
qed

section \<open>Reassembly\<close>

text \<open>The sender's encoding of one fragment, as the comment on the header layout gives it.\<close>

definition hi8 :: "u16 \<Rightarrow> u8 list" where
  "hi8 w = [ucast (drop_bit 8 w), ucast w]"

definition hi32 :: "u32 \<Rightarrow> u8 list" where
  "hi32 w = [ucast (drop_bit 24 w), ucast (drop_bit 16 w), ucast (drop_bit 8 w), ucast w]"

definition fragment_datagram :: "u16 \<Rightarrow> u32 \<Rightarrow> u32 \<Rightarrow> u8 \<Rightarrow> u8 list \<Rightarrow> u8 list" where
  "fragment_datagram seq offset flen flags payload =
     [RVT_WIFI_DISPLAY_UDP_SYNC0, RVT_WIFI_DISPLAY_UDP_SYNC1] @ hi8 seq @ hi32 offset @ hi32 flen
     @ hi8 (of_nat (length payload)) @ [flags, 0] @ payload"

lemma be16_split: "be16 (ucast (drop_bit 8 w)) (ucast w) = w"
  unfolding be16_def by (rule bit_word_eqI) (auto simp: bit_simps)

lemma be32_split:
  "be32 (ucast (drop_bit 24 w)) (ucast (drop_bit 16 w)) (ucast (drop_bit 8 w)) (ucast w) = w"
proof (rule bit_word_eqI)
  fix n
  assume "n < LENGTH(32)"
  then show "bit (be32 (ucast (drop_bit 24 w)) (ucast (drop_bit 16 w)) (ucast (drop_bit 8 w)) (ucast w)) n = bit w n"
    unfolding be32_def by (cases "n < 8"; cases "n < 16"; cases "n < 24") (auto simp: bit_simps)
qed

lemma udp_packet_fragment:
  assumes "length payload < 2 ^ 16" "unat flen \<le> max_frame_size cfg"
  shows "udp_packet cfg submit clk (fragment_datagram seq offset flen flags payload) s =
    handle_fragment cfg submit clk seq offset flen flags payload (s\<lparr>total_packets := total_packets s + 1\<rparr>)"
proof -
  have len: "unat (of_nat (length payload) :: u16) = length payload"
    using assms(1) by (simp add: unat_of_nat)
  have zero: "(0 :: u16) < of_nat (length payload) \<longleftrightarrow> payload \<noteq> []"
    using len by (metis length_greater_0_conv unat_0 word_less_nat_alt)
  show ?thesis
    using assms len zero
    by (simp add: udp_packet_def fragment_datagram_def hi8_def hi32_def be16_split be32_split Let_def)
qed

text \<open>The receiver holds exactly the bytes \<open>C\<close> of the frame \<open>F\<close> with number \<open>q\<close>.\<close>

definition assembling :: "rx_cfg \<Rightarrow> u16 \<Rightarrow> u8 list \<Rightarrow> nat set \<Rightarrow> u32 \<Rightarrow> udp_rx \<Rightarrow> bool" where
  "assembling cfg q F C tick s \<longleftrightarrow> rx_inv cfg s \<and> frame_started s \<and> frame_seq s = q
     \<and> frame_has_expected_len s \<and> frame_len s = length F \<and> cov s = C \<and> C \<subset> {..<length F}
     \<and> (\<forall>i\<in>C. frame_buf s ! i = F ! i) \<and> frame_start_tick s = tick"

definition finished :: "rx_cfg \<Rightarrow> u16 \<Rightarrow> udp_rx \<Rightarrow> bool" where
  "finished cfg q s \<longleftrightarrow> rx_inv cfg s \<and> \<not> frame_started s \<and> frame_finished_seq_valid s \<and> frame_finished_seq s = q"

definition codec_valid :: "rx_cfg \<Rightarrow> u8 list \<Rightarrow> bool" where
  "codec_valid cfg F \<longleftrightarrow> 4 \<le> length F
     \<and> (if rx_h264_raw cfg then is_h264_raw_valid F (length F) else is_jpeg_valid F (length F))"

definition piece_of :: "u8 list \<Rightarrow> u32 \<Rightarrow> u8 list \<Rightarrow> bool" where
  "piece_of F offset payload \<longleftrightarrow> unat offset + length payload \<le> length F
     \<and> payload = take (length payload) (drop (unat offset) F)"

definition bytes_at :: "u32 \<Rightarrow> u8 list \<Rightarrow> nat set" where
  "bytes_at offset payload = {unat offset..<unat offset + length payload}"

lemma valid_cong:
  assumes "take n b = F" "n = length F" "n \<le> length b"
  shows "is_jpeg_valid b n = is_jpeg_valid F n" "is_h264_raw_valid b n = is_h264_raw_valid F n"
proof -
  have nth: "b ! i = F ! i" if "i < n" for i using assms that by (metis nth_take)
  show "is_jpeg_valid b n = is_jpeg_valid F n"
    using nth by (auto simp: is_jpeg_valid_def)
  show "is_h264_raw_valid b n = is_h264_raw_valid F n"
    unfolding is_h264_raw_valid_def list_ex_iff using nth
    by (intro conj_cong refl bex_cong) auto
qed

lemma memcpy_piece:
  assumes "piece_of F offset payload" "length F \<le> length b" "\<forall>i\<in>C. b ! i = F ! i" "C \<subseteq> {..<length F}"
    and "i \<in> C \<union> bytes_at offset payload"
  shows "(take (unat offset) b @ payload @ drop (unat offset + length payload) b) ! i = F ! i"
proof -
  have p: "payload ! j = F ! (unat offset + j)" if "j < length payload" for j
  proof -
    have "unat offset \<le> length F" using assms(1) by (simp add: piece_of_def)
    moreover have "payload ! j = take (length payload) (drop (unat offset) F) ! j"
      using assms(1) unfolding piece_of_def by (metis (no_types))
    ultimately show ?thesis using that by simp
  qed
  have le: "unat offset + length payload \<le> length b" using assms(1,2) by (simp add: piece_of_def)
  show ?thesis
    using assms(3-5) p [of "i - unat offset"] le
    by (auto simp: nth_append bytes_at_def)
qed

lemma enqueue_complete:
  assumes "rx_inv cfg s" "frame_started s" "frame_has_expected_len s" "frame_len s = length F"
    and "cov s = {..<length F}" "\<forall>i<length F. frame_buf s ! i = F ! i" "codec_valid cfg F"
  shows "fst (snd (enqueue_current_frame cfg submit s)) = [F]"
proof -
  have F: "take (length F) (frame_buf s) = F"
    using assms(1,4,6) by (intro nth_equalityI) (auto simp: rx_inv_def)
  have "length F \<le> length (frame_buf s)" using assms(1,4) by (simp add: rx_inv_def)
  note v = valid_cong [OF F refl this]
  have "frame_is_complete s"
    using assms by (auto simp: frame_is_complete_def rx_inv_def codec_valid_def)
  then show ?thesis
    using assms F v by (auto simp: enqueue_current_frame_def Let_def frame_valid_def codec_valid_def)
qed

lemma close_finished: "rx_inv cfg s \<Longrightarrow> finished cfg (frame_seq s) (frame_close_current s)"
  using close_inv [of cfg s]
  by (simp add: finished_def) (simp add: frame_close_current_def frame_assembly_reset_def)

lemma enqueue_seq [simp]: "frame_seq (snd (snd (enqueue_current_frame cfg submit s))) = frame_seq s"
  by (simp add: enqueue_current_frame_def Let_def lose_packet_def)

text \<open>One fragment of the frame, at an assembling receiver that is not timed out.\<close>

lemma store_piece:
  assumes a: "assembling cfg q F C t0 s" and p: "piece_of F offset payload"
    and F: "codec_valid cfg F" "length F \<le> max_frame_size cfg" and max: "max_frame_size cfg < 2 ^ 32"
  shows "\<exists>t. store_fragment cfg submit tick offset flags payload s =
      Inr (if C \<union> bytes_at offset payload = {..<length F} then [F] else [], t)
    \<and> (if C \<union> bytes_at offset payload = {..<length F} then finished cfg q t
        else assembling cfg q F (C \<union> bytes_at offset payload) tick t)"
proof -
  let ?t = "stored tick offset payload s" and ?C = "C \<union> bytes_at offset payload"
  have inv: "rx_inv cfg s" using a by (simp add: assembling_def)
  have range: "unat offset + length payload \<le> max_frame_size cfg"
    using p F(2) by (simp add: piece_of_def)
  note facts = stored_facts [OF inv range max, of tick]
  have t: "rx_inv cfg ?t" by (rule stored_inv [OF inv range max])
  have C: "?C \<subseteq> {..<length F}" using a p by (auto simp: assembling_def bytes_at_def piece_of_def)
  have buf: "\<forall>i\<in>?C. frame_buf ?t ! i = F ! i"
    unfolding facts(3)
    using memcpy_piece [OF p, of "frame_buf s" C] a F(2) by (simp add: assembling_def rx_inv_def psubset_eq)
  have covt: "cov ?t = ?C" using facts(1) a by (simp add: assembling_def bytes_at_def)
  have flen: "frame_len ?t = length F" "frame_started ?t" "frame_has_expected_len ?t" "frame_seq ?t = q"
    using facts a by (simp_all add: assembling_def)
  have pos: "0 < length F" using F(1) by (auto simp: codec_valid_def)
  have "card ?C \<le> length F \<and> (length F \<le> card ?C \<longleftrightarrow> ?C = {..<length F})"
    using C card_subset_eq [of "{..<length F}" ?C] card_mono [of "{..<length F}" ?C] by auto
  then have complete: "frame_is_complete ?t \<longleftrightarrow> ?C = {..<length F}"
    using flen facts(2) covt pos by (simp add: frame_is_complete_def)
  have store: "store_fragment cfg submit tick offset flags payload s =
      (if frame_is_complete ?t
       then Inr (fst (snd (enqueue_current_frame cfg submit ?t)),
                 frame_close_current (snd (snd (enqueue_current_frame cfg submit ?t))))
       else Inr ([], ?t))"
    using a p by (simp add: store_fragment_in_range [OF range max] assembling_def piece_of_def Let_def case_prod_beta)
  show ?thesis
  proof (cases "?C = {..<length F}")
    case True
    then have "fst (snd (enqueue_current_frame cfg submit ?t)) = [F]"
      using enqueue_complete [OF t flen(2,3,1) _ _ F(1)] covt buf by auto
    with True store complete close_finished [OF enqueue_inv [OF t, of submit]] flen(4) show ?thesis by simp
  next
    case False
    with C have "?C \<subset> {..<length F}" by auto
    with False store complete t flen covt buf facts(9) show ?thesis by (auto simp: assembling_def)
  qed
qed

type_synonym piece = "(u32 \<times> u32 \<times> u32) \<times> u32 \<times> u8 \<times> u8 list"

definition piece_datagrams :: "u16 \<Rightarrow> u8 list \<Rightarrow> piece list \<Rightarrow> ((u32 \<times> u32 \<times> u32) \<times> u8 list) list" where
  "piece_datagrams q F ps =
     map (\<lambda>(clk, off, fl, p). (clk, fragment_datagram q off (of_nat (length F)) fl p)) ps"

definition pieces_ok :: "u8 list \<Rightarrow> piece list \<Rightarrow> bool" where
  "pieces_ok F ps \<longleftrightarrow> list_all (\<lambda>(clk, off, fl, p). piece_of F off p \<and> length p < 2 ^ 16) ps"

definition covered :: "piece list \<Rightarrow> nat set" where
  "covered ps = (\<Union>(clk, off, fl, p)\<in>set ps. bytes_at off p)"

text \<open>No reading of the time-out check is too long after the previous fragment was stored.\<close>

fun on_time :: "u32 \<Rightarrow> u32 \<Rightarrow> piece list \<Rightarrow> bool" where
  "on_time tm prev [] \<longleftrightarrow> True"
| "on_time tm prev (((a, b, c), _) # ps) \<longleftrightarrow> b - prev < tm \<and> on_time tm c ps"

lemma covered_simps [simp]:
  "covered [] = {}" "covered ((clk, off, fl, p) # ps) = bytes_at off p \<union> covered ps"
  by (simp_all add: covered_def)

lemma pieces_ok_simps [simp]:
  "pieces_ok F []"
  "pieces_ok F ((clk, off, fl, p) # ps) \<longleftrightarrow> piece_of F off p \<and> length p < 2 ^ 16 \<and> pieces_ok F ps"
  by (simp_all add: pieces_ok_def)

lemma piece_datagrams_simps [simp]:
  "piece_datagrams q F [] = []"
  "piece_datagrams q F ((clk, off, fl, p) # ps) =
     (clk, fragment_datagram q off (of_nat (length F)) fl p) # piece_datagrams q F ps"
  by (simp_all add: piece_datagrams_def)

lemma rx_inv_total [simp]: "rx_inv cfg (s\<lparr>total_packets := n\<rparr>) = rx_inv cfg s"
  by (simp add: rx_inv_def)

lemma assembling_total [simp]: "assembling cfg q F C t (s\<lparr>total_packets := n\<rparr>) = assembling cfg q F C t s"
  by (simp add: assembling_def)

lemma covered_subset: "pieces_ok F ps \<Longrightarrow> covered ps \<subseteq> {..<length F}"
  by (auto simp: pieces_ok_def covered_def piece_of_def bytes_at_def list_all_iff)

lemma handle_finished:
  "finished cfg q s \<Longrightarrow> handle_fragment cfg submit clk q off l fl p s = Inr ([], s)"
  by (simp add: handle_fragment_def select_frame_def finished_def seq_is_newer_def)

lemma loop_finished:
  assumes "finished cfg q s" "pieces_ok F ps" "length F \<le> max_frame_size cfg" "max_frame_size cfg < 2 ^ 32"
  shows "\<exists>t. udp_loop cfg submit (piece_datagrams q F ps) s = Inr ([], t)"
  using assms(1,2)
proof (induction ps arbitrary: s)
  case Nil
  then show ?case by simp
next
  case (Cons x ps)
  obtain clk off fl p where x: "x = (clk, off, fl, p)" by (cases x) auto
  let ?s = "s\<lparr>total_packets := total_packets s + 1\<rparr>"
  have fin: "finished cfg q ?s" using Cons.prems by (simp add: finished_def)
  have "unat (of_nat (length F) :: u32) = length F" using assms(3,4) by (simp add: unat_of_nat)
  then have "udp_packet cfg submit clk (fragment_datagram q off (of_nat (length F)) fl p) s = Inr ([], ?s)"
    using Cons.prems x assms(3) by (simp add: udp_packet_fragment handle_finished [OF fin])
  with Cons.IH [OF fin] Cons.prems x show ?case by auto
qed

lemma handle_assembling:
  assumes "assembling cfg q F C prev s" "fst (snd clk) - prev < frame_timeout cfg" "length F < 2 ^ 32"
  shows "handle_fragment cfg submit clk q off (of_nat (length F)) fl p s =
    store_fragment cfg submit (snd (snd clk)) off fl p s"
proof -
  have "unat (of_nat (length F) :: u32) = length F" using assms(3) by (simp add: unat_of_nat)
  then have "select_frame cfg submit (fst clk) q (of_nat (length F)) s = ([], s, True)"
    using assms(1) by (auto simp: select_frame_def assembling_def)
  then show ?thesis
    using assms(1,2) by (auto simp: handle_fragment_def assembling_def not_le split: sum.split prod.split)
qed

lemma loop_assembling:
  assumes "assembling cfg q F C prev s" "pieces_ok F ps" "on_time (frame_timeout cfg) prev ps"
    and F: "codec_valid cfg F" "length F \<le> max_frame_size cfg" and max: "max_frame_size cfg < 2 ^ 32"
  shows "\<exists>t. udp_loop cfg submit (piece_datagrams q F ps) s =
    Inr (if C \<union> covered ps = {..<length F} then [F] else [], t)"
  using assms(1-3)
proof (induction ps arbitrary: s C prev)
  case Nil
  then show ?case by (auto simp: assembling_def)
next
  case (Cons x ps)
  obtain a b c off fl p where x: "x = ((a, b, c), off, fl, p)" by (cases x) auto
  let ?s = "s\<lparr>total_packets := total_packets s + 1\<rparr>" and ?C = "C \<union> bytes_at off p"
  have asm: "assembling cfg q F C prev ?s" and p: "piece_of F off p" "length p < 2 ^ 16" "pieces_ok F ps"
    using Cons.prems x by simp_all
  have len: "unat (of_nat (length F) :: u32) = length F" using F(2) max by (simp add: unat_of_nat)
  obtain t where st: "store_fragment cfg submit c off fl p ?s = Inr (if ?C = {..<length F} then [F] else [], t)"
    and t: "if ?C = {..<length F} then finished cfg q t else assembling cfg q F ?C c t"
    using store_piece [OF asm p(1) F max] by blast
  have pk: "udp_packet cfg submit (a, b, c) (fragment_datagram q off (of_nat (length F)) fl p) s =
      Inr (if ?C = {..<length F} then [F] else [], t)"
    using handle_assembling [OF asm, of "(a, b, c)"] Cons.prems x F(2) max p(2) len st
    by (simp add: udp_packet_fragment)
  show ?case
  proof (cases "?C = {..<length F}")
    case True
    with t have "finished cfg q t" by simp
    from loop_finished [OF this p(3) F(2) max]
    obtain t' where "udp_loop cfg submit (piece_datagrams q F ps) t = Inr ([], t')" by blast
    moreover have "C \<union> covered (x # ps) = {..<length F}"
      using True covered_subset [OF p(3)] x by auto
    ultimately show ?thesis using True pk x by simp
  next
    case False
    with t have "assembling cfg q F ?C c t" by simp
    from Cons.IH [OF this p(3)] Cons.prems x
    obtain t' where "udp_loop cfg submit (piece_datagrams q F ps) t =
        Inr (if ?C \<union> covered ps = {..<length F} then [F] else [], t')" by auto
    with x False pk show ?thesis by (simp add: Un_assoc)
  qed
qed

section \<open>What reaches the display port\<close>

lemma enqueue_frames_valid:
  assumes "rx_inv cfg s"
  shows "list_all (\<lambda>f. codec_valid cfg f \<and> length f \<le> max_frame_size cfg) (fst (snd (enqueue_current_frame cfg submit s)))"
proof -
  have le: "frame_len s \<le> length (frame_buf s)" using assms by (simp add: rx_inv_def)
  have len: "frame_len s = length (take (frame_len s) (frame_buf s))" using le by simp
  note v = valid_cong [OF refl len le]
  show ?thesis
    using le assms v by (auto simp: enqueue_current_frame_def Let_def frame_valid_def codec_valid_def rx_inv_def)
qed

definition frames_valid :: "rx_cfg \<Rightarrow> rx_error + u8 list list \<times> udp_rx \<Rightarrow> bool" where
  "frames_valid cfg r \<longleftrightarrow> (case r of Inl _ \<Rightarrow> True
     | Inr (fs, _) \<Rightarrow> list_all (\<lambda>f. codec_valid cfg f \<and> length f \<le> max_frame_size cfg) fs)"

lemma store_fragment_valid:
  assumes "rx_inv cfg s" "no_wrap offset payload" "max_frame_size cfg < 2 ^ 32"
  shows "frames_valid cfg (store_fragment cfg submit tick offset flags payload s)"
proof (cases "unat offset + length payload \<le> max_frame_size cfg")
  case True
  have "rx_inv cfg (stored tick offset payload s)" by (rule stored_inv [OF assms(1) True assms(3)])
  then show ?thesis
    using enqueue_frames_valid [of cfg "stored tick offset payload s" submit]
    by (simp add: store_fragment_in_range [OF True assms(3)] frames_valid_def Let_def case_prod_beta)
next
  case False
  then show ?thesis
    using assms unat_end [of offset "length payload"]
    by (simp add: store_fragment_def frames_valid_def no_wrap_def)
qed

lemma select_frames_valid:
  "rx_inv cfg s \<Longrightarrow> list_all (\<lambda>f. codec_valid cfg f \<and> length f \<le> max_frame_size cfg)
     (fst (select_frame cfg submit tick seq l s))"
  using enqueue_frames_valid [of cfg s submit]
  by (auto simp: select_frame_def Let_def case_prod_beta)

lemma handle_fragment_valid:
  assumes "rx_inv cfg s" "no_wrap offset payload" "max_frame_size cfg < 2 ^ 32" "unat l \<le> max_frame_size cfg"
  shows "frames_valid cfg (handle_fragment cfg submit clk seq offset l flags payload s)"
proof -
  obtain fs s1 go where sel: "select_frame cfg submit (fst clk) seq l s = (fs, s1, go)"
    by (cases rule: prod_cases3)
  have s1: "rx_inv cfg s1" using select_inv [OF assms(1,4), of submit "fst clk" seq] sel by simp
  show ?thesis
    using select_frames_valid [OF assms(1), of submit "fst clk" seq l] sel
      store_fragment_valid [OF s1 assms(2,3), of submit "snd (snd clk)" flags] enqueue_frames_valid [OF s1, of submit]
    by (auto simp: handle_fragment_def frames_valid_def case_prod_beta split: sum.splits prod.splits)
qed

lemma udp_packet_valid:
  assumes "rx_inv cfg s" "dgram_no_wrap buf" "max_frame_size cfg < 2 ^ 32"
  shows "frames_valid cfg (udp_packet cfg submit clk buf s)"
proof -
  have nw: "no_wrap (be32 (buf ! 4) (buf ! 5) (buf ! 6) (buf ! 7)) p" if "length p \<le> length buf" for p
    using assms(2) that by (simp add: dgram_no_wrap_def dgram_offset_def no_wrap_def)
  show ?thesis
    unfolding udp_packet_def Let_def
    using assms(1)
    by (auto simp: frames_valid_def [of _ "Inr _"] intro!: handle_fragment_valid [OF _ nw assms(3)])
qed

lemma udp_loop_valid:
  assumes "rx_inv cfg s" "list_all (\<lambda>(clk, buf). dgram_no_wrap buf) ds" "max_frame_size cfg < 2 ^ 32"
  shows "frames_valid cfg (udp_loop cfg submit ds s)"
  using assms(1,2)
proof (induction ds arbitrary: s)
  case Nil
  then show ?case by (simp add: frames_valid_def)
next
  case (Cons d ds)
  obtain clk buf where d: "d = (clk, buf)" by fastforce
  have "rx_ok cfg (udp_packet cfg submit clk buf s)" "frames_valid cfg (udp_packet cfg submit clk buf s)"
    using udp_packet_safe [of cfg s buf] udp_packet_valid [of cfg s buf] Cons.prems assms(3) d by simp_all
  then obtain fs s1 where p: "udp_packet cfg submit clk buf s = Inr (fs, s1)" "rx_inv cfg s1"
      "list_all (\<lambda>f. codec_valid cfg f \<and> length f \<le> max_frame_size cfg) fs"
    by (auto simp: rx_ok_def frames_valid_def split: sum.splits)
  with Cons.IH [of s1] Cons.prems show ?case
    by (auto simp: d frames_valid_def split: sum.splits)
qed

section \<open>Properties\<close>

definition small_cfg :: rx_cfg where
  "small_cfg = \<lparr>max_frame_size = 16, rx_h264_raw = False, frame_timeout = 50\<rparr>"

lemma boot_rx_inv: "rx_inv cfg (udp_boot cfg)"
  by (auto simp: rx_inv_def udp_boot_def cov_def)

text \<open>
  C6. Reassembly: when the receiver is idle and \<open>q\<close> is a fresh sequence number, fragments of
  a frame that passes the codec check, in any order, with any overlap and repetition, lead to
  exactly one submission of exactly that frame if together they cover it, and to none
  otherwise, as long as no fragment arrives after the time-out.
\<close>

theorem fragments_reassembled:
  assumes "rx_inv cfg s" "\<not> frame_started s" "frame_finished_seq_valid s \<longrightarrow> seq_is_newer q (frame_finished_seq s)"
    and "codec_valid cfg F" "length F \<le> max_frame_size cfg" "max_frame_size cfg < 2 ^ 32"
    and "pieces_ok F (((a, b, c), off, fl, p) # ps)"
    and "on_time (frame_timeout cfg) a (((a, b, c), off, fl, p) # ps)"
  shows "\<exists>t. udp_loop cfg submit (piece_datagrams q F (((a, b, c), off, fl, p) # ps)) s =
    Inr (if covered (((a, b, c), off, fl, p) # ps) = {..<length F} then [F] else [], t)"
proof -
  let ?s = "s\<lparr>total_packets := total_packets s + 1\<rparr>"
  let ?t = "(frame_start cfg a q (of_nat (length F)) s)"
  have len: "unat (of_nat (length F) :: u32) = length F" using assms(5,6) by (simp add: unat_of_nat)
  have pos: "0 < length F" using assms(4) by (auto simp: codec_valid_def)
  have "(0 :: u32) < of_nat (length F)" using len pos by (simp add: word_less_nat_alt)
  then have asm: "assembling cfg q F {} a ?t"
    using len assms(5) pos start_inv [OF assms(1), of a q "of_nat (length F)"]
    by (auto simp: assembling_def) (auto simp: frame_start_def frame_assembly_reset_def cov_def)
  have sel: "select_frame cfg submit a q (of_nat (length F)) ?s =
      ([], frame_start cfg a q (of_nat (length F)) ?s, True)"
    using assms(2,3) by (auto simp: select_frame_def)
  have st: "frame_start cfg a q (of_nat (length F)) ?s = ?t\<lparr>total_packets := total_packets ?t + 1\<rparr>"
    by (simp add: frame_start_def frame_assembly_reset_def Let_def)
  have same: "handle_fragment cfg submit (a, b, c) q off (of_nat (length F)) fl p ?s =
      handle_fragment cfg submit (a, b, c) q off (of_nat (length F)) fl p (?t\<lparr>total_packets := total_packets ?t + 1\<rparr>)"
  proof -
    have "select_frame cfg submit a q (of_nat (length F)) (?t\<lparr>total_packets := total_packets ?t + 1\<rparr>) =
        ([], ?t\<lparr>total_packets := total_packets ?t + 1\<rparr>, True)"
      using asm len by (auto simp: select_frame_def assembling_def)
    with sel st show ?thesis by (simp add: handle_fragment_def)
  qed
  have "udp_loop cfg submit (piece_datagrams q F (((a, b, c), off, fl, p) # ps)) s =
      udp_loop cfg submit (piece_datagrams q F (((a, b, c), off, fl, p) # ps)) ?t"
    using assms(5,7) len same by (simp add: udp_packet_fragment)
  with loop_assembling [OF asm assms(7,8,4-6), of submit] show ?thesis by simp
qed

definition tiny_jpeg :: "u8 list" where
  "tiny_jpeg = [0xFF, 0xD8, 1, 2, 3, 4, 0xFF, 0xD9]"

theorem fragments_reassembled_witness:
  "\<exists>t. udp_loop small_cfg (\<lambda>_. 0)
     (piece_datagrams 7 tiny_jpeg [((0, 1, 2), 4, 2, [3, 4, 0xFF, 0xD9]), ((3, 4, 5), 0, 0, [0xFF, 0xD8, 1, 2, 3])])
     (udp_boot small_cfg) = Inr ([tiny_jpeg], t)"
proof -
  have "covered [((0, 1, 2), 4, 2, [3, 4, 0xFF, 0xD9]), ((3, 4, 5), 0, 0, [0xFF, 0xD8, 1, 2, 3])] = {..<length tiny_jpeg}"
    by (auto simp: tiny_jpeg_def bytes_at_def)
  moreover have "codec_valid small_cfg tiny_jpeg"
    by (simp add: codec_valid_def small_cfg_def is_jpeg_valid_def tiny_jpeg_def)
  ultimately show ?thesis
    using fragments_reassembled [OF boot_rx_inv, of small_cfg 7 tiny_jpeg 0 1 2 4 2 "[3, 4, 0xFF, 0xD9]"
        "[((3, 4, 5), 0, 0, [0xFF, 0xD8, 1, 2, 3])]" "\<lambda>_. 0"]
    by (simp add: udp_boot_def small_cfg_def piece_of_def tiny_jpeg_def del: piece_datagrams_simps covered_simps)
qed

text \<open>
  C24. Memory safety and plausibility of the output: over any sequence of datagrams whose
  offsets do not wrap around 32 bits, the receiver never writes outside the frame buffer,
  counts each received byte once and stays within its buffers, and everything handed to the
  display port is between four bytes and the buffer size long and passes the codec check.
\<close>

theorem udp_receive_safe:
  assumes "rx_inv cfg s" "list_all (\<lambda>(clk, buf). dgram_no_wrap buf) ds" "max_frame_size cfg < 2 ^ 32"
  shows "\<exists>fs t. udp_loop cfg submit ds s = Inr (fs, t) \<and> rx_inv cfg t
    \<and> list_all (\<lambda>f. codec_valid cfg f \<and> length f \<le> max_frame_size cfg) fs"
  using udp_loop_safe [OF assms, of submit] udp_loop_valid [OF assms, of submit]
  by (auto simp: rx_ok_def frames_valid_def split: sum.splits)

theorem udp_receive_safe_witness:
  "\<exists>fs t. udp_loop small_cfg (\<lambda>_. 0) [((0, 0, 0), fragment_datagram 9 12 8 0 [1, 2, 3])] (udp_boot small_cfg) = Inr (fs, t)
    \<and> rx_inv small_cfg t"
proof -
  have "dgram_no_wrap (fragment_datagram 9 12 8 0 [1, 2, 3])"
    by (simp add: dgram_no_wrap_def dgram_offset_def fragment_datagram_def hi8_def hi32_def be32_def)
  then show ?thesis
    using udp_receive_safe [OF boot_rx_inv, of "[((0, 0, 0), fragment_datagram 9 12 8 0 [1, 2, 3])]" small_cfg "\<lambda>_. 0"]
    by (auto simp: small_cfg_def)
qed

text \<open>
  The two range checks compute the end of a fragment in 32 bits: one datagram whose
  offset is \<open>2^32 - n\<close> with \<open>n\<close> payload bytes makes an idle receiver copy its payload to
  an address far outside the frame buffer.
\<close>

theorem wrapped_offset_escapes_buffer:
  assumes "\<not> frame_started s" "\<not> frame_finished_seq_valid s" "0 < frame_timeout cfg"
    and "0 < length payload" "length payload < 2 ^ 16" "max_frame_size cfg \<le> 2 ^ 31"
  shows "udp_packet cfg submit (tick, tick, tick)
    (fragment_datagram q (- of_nat (length payload)) 0 flags payload) s = Inl Memcpy_out_of_bounds"
proof -
  have n: "unat (of_nat (length payload) :: u32) = length payload"
    using assms(5) by (simp add: unat_of_nat)
  then have "(of_nat (length payload) :: u32) \<noteq> 0" using assms(4) by auto
  then have off: "unat (- of_nat (length payload) :: u32) = 2 ^ 32 - length payload"
    using n unat_sub_if' [of 0 "of_nat (length payload) :: u32"] by (auto simp: unat_gt_0 split: if_splits)
  have "store_fragment cfg submit tick (- of_nat (length payload)) flags payload t = Inl Memcpy_out_of_bounds" for t
    using assms(4-6) off by (simp add: store_fragment_def)
  then show ?thesis
    using assms by (simp add: udp_packet_fragment handle_fragment_def select_frame_def Let_def
        frame_start_def frame_assembly_reset_def not_le word_gt_0)
qed

theorem wrapped_offset_escapes_buffer_witness:
  "udp_packet small_cfg (\<lambda>_. 0) (5, 5, 5)
    (fragment_datagram 1 (- of_nat (length [9 :: u8, 9])) 0 0 [9, 9]) (udp_boot small_cfg) = Inl Memcpy_out_of_bounds"
  by (rule wrapped_offset_escapes_buffer) (simp_all add: small_cfg_def udp_boot_def)

text \<open>
  Completeness is decided by counting received bytes, also those beyond the announced
  length: after a proper frame, a fragment without a frame length at offset 8 followed by
  three bytes at offset 0 that announce length 8 are taken for a complete frame, and the
  display port gets the three new bytes followed by five bytes of the previous picture.
\<close>

theorem mixed_headers_submit_stale_bytes:
  "case udp_loop small_cfg (\<lambda>_. 0)
     [((0, 0, 0), fragment_datagram 1 0 8 2 tiny_jpeg),
      ((1, 1, 1), fragment_datagram 2 8 0 0 [7, 7, 7, 7, 7]),
      ((2, 2, 2), fragment_datagram 2 0 8 2 [0xFF, 0xD8, 9])] (udp_boot small_cfg) of
    Inl _ \<Rightarrow> False | Inr (fs, t) \<Rightarrow> fs = [tiny_jpeg, [0xFF, 0xD8, 9, 2, 3, 4, 0xFF, 0xD9]]"
  by code_simp

end
