(* ===== verification/Feishu_Proto.thy ===== *)
theory Feishu_Proto
  imports Prelude "HOL-Library.Monad_Syntax"
begin

text \<open>
  The protobuf subset of the Feishu channel
  (\<^verbatim>\<open>services/ai_agent/src/channels/feishu_proto.c\<close>): decoding of received frames,
  encoding of acknowledgements and pings.

  Decoders read a byte list at a position; \<open>None\<close> is undefined behaviour of the C code (a
  shift of a 64-bit value by 64 or more, a signed addition beyond 31 bits). Encoders append to
  the bytes written so far, whose number is the position; \<open>None\<close> is their \<open>-1\<close> (no room).
  The 32-bit signed fields are kept as their bit patterns. C strings are byte lists without
  NUL. The payload pointer is the pair of its offset in the buffer and its length.
\<close>

section \<open>Frames\<close>

record fk_frame =
  seq_id :: u64
  service :: u32
  meth :: u32
  h_type :: "u8 list"
  h_msg_id :: "u8 list"
  h_trace_id :: "u8 list"
  h_sum :: int
  h_seq :: int
  payload :: "(nat \<times> nat) option"

definition zero_frame :: fk_frame where
  "zero_frame = \<lparr>seq_id = 0, service = 0, meth = 0, h_type = [], h_msg_id = [], h_trace_id = [],
     h_sum = 0, h_seq = 0, payload = None\<rparr>"

definition bytes :: "string \<Rightarrow> u8 list" where
  "bytes s = map of_char s"

section \<open>Decoder\<close>

text \<open>Signed addition of non-negative ints.\<close>

definition int_add :: "nat \<Rightarrow> nat \<Rightarrow> nat option" where
  "int_add a b = (if a + b < 2 ^ 31 then Some (a + b) else None)"

definition to_int :: "u64 \<Rightarrow> int" where
  "to_int v = sint (ucast v :: u32)"

function varint_loop :: "u8 list \<Rightarrow> nat \<Rightarrow> u64 \<Rightarrow> nat \<Rightarrow> (u64 \<times> nat) option" where
  "varint_loop buf pos v s =
     (if pos < length buf
      then if s \<ge> 64 then None
           else let b = buf ! pos; v' = or v (push_bit s (ucast (and b 0x7F))) in
                if and b 0x80 = 0 then Some (v', pos + 1)
                else varint_loop buf (pos + 1) v' (s + 7)
      else Some (v, pos))"
  by pat_completeness auto
termination by (relation "measure (\<lambda>(buf, pos, v, s). length buf - pos)") auto

declare varint_loop.simps [simp del]

definition pb_read_varint :: "u8 list \<Rightarrow> nat \<Rightarrow> (u64 \<times> nat) option" where
  "pb_read_varint buf pos = varint_loop buf pos 0 0"

definition pb_skip_field :: "u8 list \<Rightarrow> nat \<Rightarrow> int \<Rightarrow> nat option" where
  "pb_skip_field buf pos wtype =
     (if wtype = 0 then do { (_, pos1) \<leftarrow> pb_read_varint buf pos; Some pos1 }
      else if wtype = 1 then int_add pos 8
      else if wtype = 2
      then do { (v, pos1) \<leftarrow> pb_read_varint buf pos;
                let n = to_int v;
                if n > 0 then do { e \<leftarrow> int_add pos1 (nat n); Some (if e \<le> length buf then e else pos1) }
                else Some pos1 }
      else if wtype = 5 then int_add pos 4
      else Some pos)"

text \<open>Copying a field into a zeroed or longer buffer of \<open>cap\<close> bytes and reading it back as a string.\<close>

definition cstr_of :: "nat \<Rightarrow> u8 list \<Rightarrow> u8 list" where
  "cstr_of cap bs = takeWhile (\<lambda>b. b \<noteq> 0) (take (cap - 1) bs)"

lemma varint_loop_pos: "varint_loop buf pos v s = Some (v', pos') \<Longrightarrow> pos \<le> pos' \<and> (pos < length buf \<longrightarrow> pos < pos')"
proof (induction buf pos v s rule: varint_loop.induct)
  case (1 buf pos v s)
  show ?case
  proof (cases "pos < length buf")
    case True
    from "1.prems" True have s: "\<not> 64 \<le> s"
      by (simp add: varint_loop.simps [of buf pos v s] split: if_splits)
    show ?thesis
      using "1.prems" "1.IH" [OF True s refl refl] True s
      by (auto simp: varint_loop.simps [of buf pos v s] Let_def split: if_splits)
  next
    case False
    with "1.prems" show ?thesis by (simp add: varint_loop.simps [of buf pos v s])
  qed
qed

lemma pb_read_varint_pos:
  "pb_read_varint buf pos = Some (v, pos') \<Longrightarrow> pos \<le> pos'"
  "pb_read_varint buf pos = Some (v, pos') \<Longrightarrow> pos < length buf \<Longrightarrow> pos < pos'"
  using varint_loop_pos [of buf pos 0 0 v pos'] by (auto simp: pb_read_varint_def)

lemma int_add_pos: "int_add a b = Some c \<Longrightarrow> a \<le> c"
  by (auto simp: int_add_def split: if_splits)

lemma pb_skip_field_pos: "pb_skip_field buf pos wt = Some pos' \<Longrightarrow> pos \<le> pos'"
  by (auto simp: pb_skip_field_def Let_def bind_eq_Some_conv split: if_splits prod.splits
      dest!: pb_read_varint_pos(1) int_add_pos)

text \<open>
  The header sub-message: the loop collects the last key and value; \<open>buf\<close> is the
  sub-message's own bytes.
\<close>

function header_loop :: "u8 list \<Rightarrow> nat \<Rightarrow> u8 list \<Rightarrow> u8 list \<Rightarrow> (u8 list \<times> u8 list) option" where
  "header_loop buf i key val =
     (if i < length buf
      then (case pb_read_varint buf i of
              None \<Rightarrow> None
            | Some (tag, i1) \<Rightarrow>
                let fn = to_int (drop_bit 3 tag); wt = to_int (and tag 7) in
                if wt = 2
                then (case pb_read_varint buf i1 of
                        None \<Rightarrow> None
                      | Some (v, i2) \<Rightarrow>
                          let slen = to_int v in
                          if slen < 0 then Some (key, val)
                          else (case int_add i2 (nat slen) of
                                  None \<Rightarrow> None
                                | Some e \<Rightarrow>
                                    if e > length buf then Some (key, val)
                                    else let bs = take (nat slen) (drop i2 buf) in
                                         if fn = 1 then header_loop buf e (cstr_of 32 bs) val
                                         else if fn = 2 then header_loop buf e key (cstr_of 128 bs)
                                         else header_loop buf e key val))
                else (case pb_skip_field buf i1 wt of
                        None \<Rightarrow> None | Some i2 \<Rightarrow> header_loop buf i2 key val))
      else Some (key, val))"
  by pat_completeness auto
termination
proof (relation "measure (\<lambda>(buf, i, key, val). length buf - i)", goal_cases)
  case 1
  then show ?case by simp
next
  case (2 buf i key val p tag i1 fn wt p2 v i2 slen e bs)
  then show ?case using pb_read_varint_pos(2) [of buf i tag i1] pb_read_varint_pos(1) [of buf i1 v i2] int_add_pos [of i2 "nat slen" e]
    by auto
next
  case (3 buf i key val p tag i1 fn wt p2 v i2 slen e bs)
  then show ?case using pb_read_varint_pos(2) [of buf i tag i1] pb_read_varint_pos(1) [of buf i1 v i2] int_add_pos [of i2 "nat slen" e]
    by auto
next
  case (4 buf i key val p tag i1 fn wt p2 v i2 slen e bs)
  then show ?case using pb_read_varint_pos(2) [of buf i tag i1] pb_read_varint_pos(1) [of buf i1 v i2] int_add_pos [of i2 "nat slen" e]
    by auto
next
  case (5 buf i key val p tag i1 fn wt i2)
  then show ?case using pb_read_varint_pos(2) [of buf i tag i1] pb_skip_field_pos [of buf i1 wt i2] by auto
qed

declare header_loop.simps [simp del]

text \<open>\<^verbatim>\<open>atoi\<close> of the C library; an overflow is undefined.\<close>

definition is_digit :: "u8 \<Rightarrow> bool" where
  "is_digit b \<longleftrightarrow> 48 \<le> b \<and> b \<le> 57"

definition digits_value :: "u8 list \<Rightarrow> int" where
  "digits_value ds = foldl (\<lambda>n d. n * 10 + (uint d - 48)) 0 ds"

definition atoi :: "u8 list \<Rightarrow> int option" where
  "atoi str =
     (let t = dropWhile (\<lambda>b. b = 32 \<or> 9 \<le> b \<and> b \<le> 13) str;
          (neg, ds) = (case t of b # bs \<Rightarrow> if b = 45 then (True, bs) else if b = 43 then (False, bs) else (False, t)
                       | [] \<Rightarrow> (False, t));
          n = digits_value (takeWhile is_digit ds);
          r = (if neg then - n else n)
      in if - (2 ^ 31) \<le> r \<and> r < 2 ^ 31 then Some r else None)"

definition store_header :: "u8 list \<Rightarrow> u8 list \<Rightarrow> fk_frame \<Rightarrow> fk_frame option" where
  "store_header key val f =
     (if key = bytes ''type'' then Some (f\<lparr>h_type := take 31 val\<rparr>)
      else if key = bytes ''message_id'' then Some (f\<lparr>h_msg_id := take 63 val\<rparr>)
      else if key = bytes ''trace_id'' then Some (f\<lparr>h_trace_id := take 63 val\<rparr>)
      else if key = bytes ''sum'' then do { n \<leftarrow> atoi val; Some (f\<lparr>h_sum := n\<rparr>) }
      else if key = bytes ''seq'' then do { n \<leftarrow> atoi val; Some (f\<lparr>h_seq := n\<rparr>) }
      else Some f)"

definition pb_decode_header_msg :: "u8 list \<Rightarrow> fk_frame \<Rightarrow> fk_frame option" where
  "pb_decode_header_msg buf f = do { (key, val) \<leftarrow> header_loop buf 0 [] []; store_header key val f }"

text \<open>One field of the frame: \<open>Inl\<close> is the return value \<open>-1\<close>, \<open>Inr\<close> the next position and frame.\<close>

definition decode_field :: "u8 list \<Rightarrow> nat \<Rightarrow> fk_frame \<Rightarrow> (fk_frame + nat \<times> fk_frame) option" where
  "decode_field buf i f =
     (case pb_read_varint buf i of
        None \<Rightarrow> None
      | Some (tag, i1) \<Rightarrow>
          let fn = to_int (drop_bit 3 tag); wt = to_int (and tag 7) in
          if fn = 1 then do { (v, i2) \<leftarrow> pb_read_varint buf i1; Some (Inr (i2, f\<lparr>seq_id := v\<rparr>)) }
          else if fn = 2 then do { (v, i2) \<leftarrow> pb_read_varint buf i1; Some (Inr (i2, f)) }
          else if fn = 3 then do { (v, i2) \<leftarrow> pb_read_varint buf i1; Some (Inr (i2, f\<lparr>service := ucast v\<rparr>)) }
          else if fn = 4 then do { (v, i2) \<leftarrow> pb_read_varint buf i1; Some (Inr (i2, f\<lparr>meth := ucast v\<rparr>)) }
          else if (fn = 5 \<or> fn = 8) \<and> wt = 2
          then do { (v, i2) \<leftarrow> pb_read_varint buf i1;
                    let n = to_int v;
                    if n < 0 then Some (Inl f)
                    else do { e \<leftarrow> int_add i2 (nat n);
                              if e > length buf then Some (Inl f)
                              else if fn = 5
                              then do { f1 \<leftarrow> pb_decode_header_msg (take (nat n) (drop i2 buf)) f; Some (Inr (e, f1)) }
                              else Some (Inr (e, f\<lparr>payload := Some (i2, nat n)\<rparr>)) } }
          else do { i2 \<leftarrow> pb_skip_field buf i1 wt; Some (Inr (i2, f)) })"

lemma decode_field_pos:
  assumes "decode_field buf i f = Some (Inr (j, g))" "i < length buf"
  shows "i < j"
proof -
  obtain tag i1 where t: "pb_read_varint buf i = Some (tag, i1)"
    using assms(1) by (auto simp: decode_field_def split: option.splits)
  have "i < i1" using pb_read_varint_pos(2) [OF t assms(2)] .
  moreover have "i1 \<le> j"
    using assms(1) t
    by (auto simp: decode_field_def Let_def bind_eq_Some_conv split: if_splits
        dest: pb_skip_field_pos pb_read_varint_pos(1) int_add_pos order_trans)
  ultimately show ?thesis by simp
qed

function frame_loop :: "u8 list \<Rightarrow> nat \<Rightarrow> fk_frame \<Rightarrow> (int \<times> fk_frame) option" where
  "frame_loop buf i f =
     (if i < length buf
      then (case decode_field buf i f of
              None \<Rightarrow> None
            | Some (Inl g) \<Rightarrow> Some (- 1, g)
            | Some (Inr (j, g)) \<Rightarrow> frame_loop buf j g)
      else Some (0, f))"
  by pat_completeness auto
termination
  by (relation "measure (\<lambda>(buf, i, f). length buf - i)") (auto dest: decode_field_pos)

declare frame_loop.simps [simp del]

definition pb_decode_frame :: "u8 list \<Rightarrow> (int \<times> fk_frame) option" where
  "pb_decode_frame buf = frame_loop buf 0 zero_frame"

section \<open>Encoder\<close>

function pb_put_varint :: "nat \<Rightarrow> u64 \<Rightarrow> u8 list \<Rightarrow> u8 list option" where
  "pb_put_varint cap v out =
     (if length out \<ge> cap then None
      else let b = (if v > 0x7F then ucast (or (and v 0x7F) 0x80) else ucast v); v' = drop_bit 7 v
           in if v' = 0 then Some (out @ [b]) else pb_put_varint cap v' (out @ [b]))"
  by pat_completeness auto
termination
  by (relation "measure (\<lambda>(cap, v, out). cap - length out)") auto

declare pb_put_varint.simps [simp del]

definition pb_put_len_field :: "nat \<Rightarrow> u64 \<Rightarrow> u8 list \<Rightarrow> u8 list \<Rightarrow> u8 list option" where
  "pb_put_len_field cap fnum data out =
     do { o1 \<leftarrow> pb_put_varint cap (or (push_bit 3 fnum) 2) out;
          o2 \<leftarrow> pb_put_varint cap (of_nat (length data)) o1;
          if length o2 + length data > cap then None else Some (o2 @ data) }"

definition pb_put_varint_field :: "nat \<Rightarrow> u64 \<Rightarrow> u64 \<Rightarrow> u8 list \<Rightarrow> u8 list option" where
  "pb_put_varint_field cap fnum v out =
     do { o1 \<leftarrow> pb_put_varint cap (push_bit 3 fnum) out; pb_put_varint cap v o1 }"

definition pb_encode_header_entry :: "nat \<Rightarrow> u8 list \<Rightarrow> u8 list \<Rightarrow> u8 list \<Rightarrow> u8 list option" where
  "pb_encode_header_entry cap key val out =
     do { t1 \<leftarrow> pb_put_len_field 256 1 key []; t2 \<leftarrow> pb_put_len_field 256 2 val t1;
          pb_put_len_field cap 5 t2 out }"

definition ack_pl :: "u8 list" where
  "ack_pl = bytes ''{\"code\":200}''"

definition fk_encode_ack :: "nat \<Rightarrow> fk_frame \<Rightarrow> u8 list option" where
  "fk_encode_ack cap req =
     do { p1 \<leftarrow> pb_put_varint_field cap 1 (seq_id req) [];
          p2 \<leftarrow> pb_put_varint_field cap 2 0 p1;
          p3 \<leftarrow> pb_put_varint_field cap 3 (ucast (service req)) p2;
          p4 \<leftarrow> pb_put_varint_field cap 4 (ucast (meth req)) p3;
          p5 \<leftarrow> pb_encode_header_entry cap (bytes ''type'') (bytes ''ack'') p4;
          p6 \<leftarrow> (if h_msg_id req \<noteq> [] then pb_encode_header_entry cap (bytes ''message_id'') (h_msg_id req) p5 else Some p5);
          p7 \<leftarrow> (if h_trace_id req \<noteq> [] then pb_encode_header_entry cap (bytes ''trace_id'') (h_trace_id req) p6 else Some p6);
          pb_put_len_field cap 8 ack_pl p7 }"

text \<open>The static ping counter is threaded: it advances also when the encoding fails.\<close>

definition fk_encode_ping :: "nat \<Rightarrow> u32 \<Rightarrow> u64 \<Rightarrow> u8 list option \<times> u64" where
  "fk_encode_ping cap svc_id ping_seq =
     (do { p1 \<leftarrow> pb_put_varint_field cap 1 ping_seq [];
           p2 \<leftarrow> pb_put_varint_field cap 2 0 p1;
           p3 \<leftarrow> pb_put_varint_field cap 3 (ucast svc_id) p2;
           p4 \<leftarrow> pb_put_varint_field cap 4 0 p3;
           pb_encode_header_entry cap (bytes ''type'') (bytes ''ping'') p4 }, ping_seq + 1)"

section \<open>Varint round trip\<close>

text \<open>The encoding without the capacity checks.\<close>

function varint_bytes :: "u64 \<Rightarrow> u8 list" where
  "varint_bytes v = (if v > 0x7F then ucast (or (and v 0x7F) 0x80) # varint_bytes (drop_bit 7 v) else [ucast v])"
  by pat_completeness auto
termination
proof (relation "measure unat", simp)
  fix v :: u64
  assume "0x7F < v"
  then have "unat v div 128 < unat v" by (simp add: word_less_nat_alt)
  then show "(drop_bit 7 v, v) \<in> measure unat" by (simp add: drop_bit_eq_div unat_div_distrib)
qed

declare varint_bytes.simps [simp del]

lemma drop_bit_7_zero: "drop_bit 7 (v :: u64) = 0 \<longleftrightarrow> \<not> v > 0x7F"
proof -
  have "drop_bit 7 v = 0 \<longleftrightarrow> unat v div 128 = 0"
    by (simp add: unat_eq_zero [symmetric] drop_bit_eq_div unat_div_distrib del: unat_eq_zero)
  then show ?thesis by (auto simp: word_less_nat_alt)
qed

lemma varint_bytes_nonempty [simp]: "varint_bytes v \<noteq> []"
  by (subst varint_bytes.simps) simp

lemma put_varint_bytes:
  "pb_put_varint cap v out =
     (if length out + length (varint_bytes v) \<le> cap then Some (out @ varint_bytes v) else None)"
proof (induction v arbitrary: out rule: varint_bytes.induct)
  case (1 v)
  show ?case
  proof (cases "v > 0x7F")
    case True
    then show ?thesis
      using "1.IH" [OF True] drop_bit_7_zero [of v]
      by (subst pb_put_varint.simps, subst (1 2) varint_bytes.simps) (simp add: Let_def)
  next
    case False
    then show ?thesis
      using drop_bit_7_zero [of v]
      by (subst pb_put_varint.simps, subst (1 2) varint_bytes.simps) (simp add: Let_def)
  qed
qed

lemma put_varint_length: "pb_put_varint cap v out = Some r \<Longrightarrow> r = out @ varint_bytes v \<and> length r \<le> cap"
  by (auto simp: put_varint_bytes split: if_splits)

lemma varint_step_bits:
  fixes v acc :: u64
  assumes "s \<le> 57"
  shows "or (or acc (push_bit s (and v 0x7F))) (push_bit (s + 7) (drop_bit 7 v)) = or acc (push_bit s v)"
proof -
  have m: "(0x7F :: u64) = mask 7" by (simp add: mask_eq_exp_minus_1)
  show ?thesis
    unfolding m
  proof (rule bit_word_eqI)
    fix n
    show "bit (or (or acc (push_bit s (and v (mask 7)))) (push_bit (s + 7) (drop_bit 7 v))) n =
        bit (or acc (push_bit s v)) n"
      by (cases "n < s + 7") (auto simp: bit_simps)
  qed
qed

lemma low7:
  fixes v :: u64
  shows "and (ucast (or (and v 0x7F) 0x80) :: u8) 0x80 \<noteq> 0"
    and "(ucast (and (ucast (or (and v 0x7F) 0x80) :: u8) 0x7F) :: u64) = and v 0x7F"
    and "\<not> v > 0x7F \<Longrightarrow> and (ucast v :: u8) 0x80 = 0"
    and "\<not> v > 0x7F \<Longrightarrow> (ucast (and (ucast v :: u8) 0x7F) :: u64) = v"
    and "\<not> v > 0x7F \<Longrightarrow> and v 0x7F = v"
proof -
  have m: "(0x7F :: u64) = mask 7" "(0x7F :: u8) = mask 7" "(0x80 :: u64) = push_bit 7 1" "(0x80 :: u8) = push_bit 7 1"
    by (simp_all add: mask_eq_exp_minus_1)
  have b: "bit (0x80 :: u64) n \<longleftrightarrow> n = 7" for n
    using bit_exp_iff [where 'a = "64 word", of 7 n] by auto
  have bi: "bit (0x80 :: int) n \<longleftrightarrow> n = 7" for n
    using bit_exp_iff [where 'a = int, of 7 n] by auto
  have b8: "bit (0x80 :: u8) n \<longleftrightarrow> n = 7" for n
    using bit_exp_iff [where 'a = "8 word", of 7 n] by auto
  have "bit (and (ucast (or (and v 0x7F) 0x80) :: u8) 0x80) 7"
    unfolding m by (simp add: bit_simps)
  then show "and (ucast (or (and v 0x7F) 0x80) :: u8) 0x80 \<noteq> 0" by auto
  show "(ucast (and (ucast (or (and v 0x7F) 0x80) :: u8) 0x7F) :: u64) = and v 0x7F"
    unfolding m(1,2) by (rule bit_word_eqI) (auto simp: bit_simps b b8 bi)
  assume v: "\<not> v > 0x7F"
  have hi: "\<not> bit v n" if "7 \<le> n" for n
  proof -
    have "bit v n = bit (drop_bit 7 v) (n - 7)" using that by (simp add: bit_simps)
    then show ?thesis using v drop_bit_7_zero [of v] by simp
  qed
  have lo: "n < 7" if "bit v n" for n
    using hi [of n] that by (metis not_less)
  show "and (ucast v :: u8) 0x80 = 0"
    unfolding m by (rule bit_word_eqI) (auto simp: bit_simps hi bi b8)
  show "(ucast (and (ucast v :: u8) 0x7F) :: u64) = v"
    unfolding m by (rule bit_word_eqI) (auto simp: bit_simps dest: lo)
  show "and v 0x7F = v"
    unfolding m by (rule bit_word_eqI) (auto simp: bit_simps dest: lo)
qed

lemma varint_loop_bytes:
  assumes "unat v < 2 ^ (64 - s)" "s < 64"
  shows "varint_loop (pre @ varint_bytes v @ rest) (length pre) acc s =
    Some (or acc (push_bit s v), length pre + length (varint_bytes v))"
  using assms
proof (induction v arbitrary: pre acc s rule: varint_bytes.induct)
  case (1 v)
  show ?case
  proof (cases "v > 0x7F")
    case True
    let ?b = "ucast (or (and v 0x7F) 0x80) :: u8"
    have bs: "varint_bytes v = ?b # varint_bytes (drop_bit 7 v)"
      using True by (subst varint_bytes.simps) simp
    have "128 \<le> unat v" using True by (simp add: word_less_nat_alt)
    with "1.prems" have "(2 :: nat) ^ 7 < 2 ^ (64 - s)" by simp
    then have s: "7 < 64 - s" by (rule power_less_imp_less_exp [rotated]) simp
    have "unat (drop_bit 7 v) < 2 ^ (64 - (s + 7))"
    proof -
      have "64 - s = (64 - (s + 7)) + 7" using s by simp
      then have "(2 :: nat) ^ (64 - s) = 2 ^ (64 - (s + 7)) * 2 ^ 7" by (metis power_add)
      with "1.prems" have "unat v < 2 ^ (64 - (s + 7)) * 2 ^ 7" by simp
      then show ?thesis by (simp add: drop_bit_eq_div unat_div_distrib less_mult_imp_div_less)
    qed
    from "1.IH" [OF True this, of "pre @ [?b]" "or acc (push_bit s (and v 0x7F))"] s
    show ?thesis
      using varint_step_bits [of s acc v] "1.prems"
      by (subst varint_loop.simps) (simp add: bs low7 nth_append Let_def)
  next
    case False
    then have bs: "varint_bytes v = [ucast v]" by (subst varint_bytes.simps) simp
    show ?thesis
      using "1.prems" low7(3,4) [OF False] by (subst varint_loop.simps) (simp add: bs nth_append Let_def)
  qed
qed

lemma pb_read_varint_bytes:
  "pb_read_varint (pre @ varint_bytes v @ rest) (length pre) = Some (v, length pre + length (varint_bytes v))"
  using varint_loop_bytes [of v 0 pre rest 0] unat_less_exp [of v] by (simp add: pb_read_varint_def)

section \<open>Fields\<close>

definition vfield :: "u64 \<Rightarrow> u64 \<Rightarrow> u8 list" where
  "vfield k v = varint_bytes (push_bit 3 k) @ varint_bytes v"

definition lfield :: "u64 \<Rightarrow> u8 list \<Rightarrow> u8 list" where
  "lfield k d = varint_bytes (or (push_bit 3 k) 2) @ varint_bytes (of_nat (length d)) @ d"

lemma put_varint_field_Some:
  "pb_put_varint_field cap k v out = Some r \<Longrightarrow> r = out @ vfield k v \<and> length r \<le> cap"
  by (auto simp: pb_put_varint_field_def vfield_def bind_eq_Some_conv dest!: put_varint_length)

lemma put_len_field_Some:
  "pb_put_len_field cap k d out = Some r \<Longrightarrow> r = out @ lfield k d \<and> length r \<le> cap"
  by (auto simp: pb_put_len_field_def lfield_def bind_eq_Some_conv dest!: put_varint_length split: if_splits)

lemma encode_header_entry_Some:
  "pb_encode_header_entry cap key val out = Some r \<Longrightarrow>
   r = out @ lfield 5 (lfield 1 key @ lfield 2 val) \<and> length r \<le> cap"
  by (auto simp: pb_encode_header_entry_def bind_eq_Some_conv dest!: put_len_field_Some)

lemma read_at:
  "buf = pre @ varint_bytes v @ rest \<Longrightarrow> i = length pre \<Longrightarrow>
   pb_read_varint buf i = Some (v, i + length (varint_bytes v))"
  using pb_read_varint_bytes by simp

lemma to_int_length: "n < 2 ^ 31 \<Longrightarrow> to_int (of_nat n) = int n"
proof -
  assume n: "n < 2 ^ 31"
  have "unat (ucast (of_nat n :: u64) :: u32) = n"
    using n by (simp add: unsigned_ucast_eq unat_of_nat take_bit_nat_eq_self)
  then have "(ucast (of_nat n :: u64) :: u32) = of_nat n" by (metis of_nat_unat ucast_id)
  then show "to_int (of_nat n) = int n"
    using n by (simp add: to_int_def signed_of_nat signed_take_bit_int_eq_self)
qed

lemma vfield_tags:
  "to_int (drop_bit 3 (push_bit 3 1)) = 1" "to_int (drop_bit 3 (push_bit 3 2)) = 2"
  "to_int (drop_bit 3 (push_bit 3 3)) = 3" "to_int (drop_bit 3 (push_bit 3 4)) = 4"
  by code_simp+

lemma lfield_tags:
  "to_int (drop_bit 3 (or (push_bit 3 1) 2)) = 1" "to_int (and (or (push_bit 3 1) 2) 7) = 2"
  "to_int (drop_bit 3 (or (push_bit 3 2) 2)) = 2" "to_int (and (or (push_bit 3 2) 2) 7) = 2"
  "to_int (drop_bit 3 (or (push_bit 3 5) 2)) = 5" "to_int (and (or (push_bit 3 5) 2) 7) = 2"
  "to_int (drop_bit 3 (or (push_bit 3 8) 2)) = 8" "to_int (and (or (push_bit 3 8) 2) 7) = 2"
  by code_simp+

lemma decode_vfield:
  assumes "buf = pre @ vfield k v @ rest" "i = length pre" "to_int (drop_bit 3 (push_bit 3 k)) = m"
  shows "m = 1 \<Longrightarrow> decode_field buf i f = Some (Inr (i + length (vfield k v), f\<lparr>seq_id := v\<rparr>))"
    and "m = 2 \<Longrightarrow> decode_field buf i f = Some (Inr (i + length (vfield k v), f))"
    and "m = 3 \<Longrightarrow> decode_field buf i f = Some (Inr (i + length (vfield k v), f\<lparr>service := ucast v\<rparr>))"
    and "m = 4 \<Longrightarrow> decode_field buf i f = Some (Inr (i + length (vfield k v), f\<lparr>meth := ucast v\<rparr>))"
proof -
  define T where "T = push_bit 3 k"
  have t: "pb_read_varint buf i = Some (T, i + length (varint_bytes T))"
    unfolding T_def by (rule read_at [of _ pre _ "varint_bytes v @ rest"]) (simp_all add: assms vfield_def)
  have v: "pb_read_varint buf (i + length (varint_bytes T)) = Some (v, i + length (vfield k v))"
    using read_at [of buf "pre @ varint_bytes T" v rest] by (simp add: assms(1,2) vfield_def T_def)
  have m: "to_int (drop_bit 3 T) = m" using assms(3) by (simp add: T_def)
  note r = decode_field_def t v m Let_def
  show "m = 1 \<Longrightarrow> decode_field buf i f = Some (Inr (i + length (vfield k v), f\<lparr>seq_id := v\<rparr>))"
    "m = 2 \<Longrightarrow> decode_field buf i f = Some (Inr (i + length (vfield k v), f))"
    "m = 3 \<Longrightarrow> decode_field buf i f = Some (Inr (i + length (vfield k v), f\<lparr>service := ucast v\<rparr>))"
    "m = 4 \<Longrightarrow> decode_field buf i f = Some (Inr (i + length (vfield k v), f\<lparr>meth := ucast v\<rparr>))"
    by (simp_all add: r)
qed

text \<open>Reading tag, length and extent of a length-delimited field.\<close>

lemma read_lfield:
  assumes "buf = pre @ lfield k d @ rest" "i = length pre" "length buf < 2 ^ 31"
  defines "i2 \<equiv> i + length (varint_bytes (or (push_bit 3 k) 2)) + length (varint_bytes (of_nat (length d)))"
  shows "pb_read_varint buf i = Some (or (push_bit 3 k) 2, i + length (varint_bytes (or (push_bit 3 k) 2)))"
    and "pb_read_varint buf (i + length (varint_bytes (or (push_bit 3 k) 2))) = Some (of_nat (length d), i2)"
    and "to_int (of_nat (length d)) = int (length d)"
    and "int_add i2 (length d) = Some (i + length (lfield k d))"
    and "i + length (lfield k d) \<le> length buf"
    and "take (length d) (drop i2 buf) = d"
proof -
  show "pb_read_varint buf i = Some (or (push_bit 3 k) 2, i + length (varint_bytes (or (push_bit 3 k) 2)))"
    by (rule read_at [of _ pre _ "varint_bytes (of_nat (length d)) @ d @ rest"]) (simp_all add: assms lfield_def)
  show "pb_read_varint buf (i + length (varint_bytes (or (push_bit 3 k) 2))) = Some (of_nat (length d), i2)"
    using read_at [of buf "pre @ varint_bytes (or (push_bit 3 k) 2)" "of_nat (length d)" "d @ rest"]
    by (simp add: assms(1,2) lfield_def i2_def)
  have len: "length d \<le> length buf" by (simp add: assms(1) lfield_def)
  then show "to_int (of_nat (length d)) = int (length d)"
    using assms(3) by (intro to_int_length) simp
  show le: "i + length (lfield k d) \<le> length buf" by (simp add: assms(1,2))
  have eq: "i2 + length d = i + length (lfield k d)" by (simp add: i2_def lfield_def)
  show "int_add i2 (length d) = Some (i + length (lfield k d))"
    using le assms(3) by (simp add: int_add_def eq)
  have "buf = (pre @ varint_bytes (or (push_bit 3 k) 2) @ varint_bytes (of_nat (length d))) @ d @ rest"
    by (simp add: assms(1) lfield_def)
  moreover have "length (pre @ varint_bytes (or (push_bit 3 k) 2) @ varint_bytes (of_nat (length d))) = i2"
    by (simp add: assms(2) i2_def)
  ultimately show "take (length d) (drop i2 buf) = d" by (metis append_eq_conv_conj)
qed

lemma decode_payload:
  assumes "buf = pre @ lfield 8 d @ rest" "i = length pre" "length buf < 2 ^ 31"
  shows "\<exists>off. decode_field buf i f = Some (Inr (i + length (lfield 8 d), f\<lparr>payload := Some (off, length d)\<rparr>))
    \<and> take (length d) (drop off buf) = d"
proof -
  define T where "T = (or (push_bit 3 8) 2 :: u64)"
  have tags: "to_int (drop_bit 3 T) = 8" "to_int (and T 7) = 2" unfolding T_def by (rule lfield_tags)+
  note rd = read_lfield [OF assms, folded T_def]
  show ?thesis
    using rd(5,6) by (intro exI conjI) (auto simp: decode_field_def rd(1-4) tags Let_def)
qed

lemma decode_header_field:
  assumes "buf = pre @ lfield 5 d @ rest" "i = length pre" "length buf < 2 ^ 31"
    and "pb_decode_header_msg d f = Some g"
  shows "decode_field buf i f = Some (Inr (i + length (lfield 5 d), g))"
proof -
  define T where "T = (or (push_bit 3 5) 2 :: u64)"
  have tags: "to_int (drop_bit 3 T) = 5" "to_int (and T 7) = 2" unfolding T_def by (rule lfield_tags)+
  note rd = read_lfield [OF assms(1-3), folded T_def]
  show ?thesis
    using rd(5,6) assms(4) by (simp add: decode_field_def rd(1-4) tags Let_def)
qed

lemma cstr_of_fits: "length bs < cap \<Longrightarrow> 0 \<notin> set bs \<Longrightarrow> cstr_of cap bs = bs"
  by (auto simp: cstr_of_def takeWhile_eq_all_conv)

lemma header_loop_field:
  assumes "buf = pre @ lfield k d @ rest" "i = length pre" "length buf < 2 ^ 31"
    and "to_int (drop_bit 3 (or (push_bit 3 k) 2)) = m" "to_int (and (or (push_bit 3 k) 2) 7) = 2"
  shows "m = 1 \<Longrightarrow> header_loop buf i key val = header_loop buf (i + length (lfield k d)) (cstr_of 32 d) val"
    and "m = 2 \<Longrightarrow> header_loop buf i key val = header_loop buf (i + length (lfield k d)) key (cstr_of 128 d)"
proof -
  define T where "T = (or (push_bit 3 k) 2 :: u64)"
  have tags: "to_int (drop_bit 3 T) = m" "to_int (and T 7) = 2" using assms(4,5) by (simp_all add: T_def)
  note rd = read_lfield [OF assms(1-3), folded T_def]
  have i: "i < length buf" by (simp add: assms(1,2) lfield_def)
  show "m = 1 \<Longrightarrow> header_loop buf i key val = header_loop buf (i + length (lfield k d)) (cstr_of 32 d) val"
    using rd(5,6) i by (subst header_loop.simps) (simp add: rd(1-4) tags Let_def)
  show "m = 2 \<Longrightarrow> header_loop buf i key val = header_loop buf (i + length (lfield k d)) key (cstr_of 128 d)"
    using rd(5,6) i by (subst header_loop.simps) (simp add: rd(1-4) tags Let_def)
qed

lemma decode_header_entry:
  assumes "length (lfield 1 key @ lfield 2 val) < 2 ^ 31"
    and "length key < 32" "0 \<notin> set key" "length val < 128" "0 \<notin> set val"
  shows "pb_decode_header_msg (lfield 1 key @ lfield 2 val) f = store_header key val f"
proof -
  let ?buf = "lfield 1 key @ lfield 2 val"
  have "header_loop ?buf 0 [] [] = header_loop ?buf (length (lfield 1 key)) key []"
    using header_loop_field(1) [of ?buf "[]" 1 key "lfield 2 val" 0 1] lfield_tags(1,2) assms
    by (simp add: cstr_of_fits)
  also have "\<dots> = header_loop ?buf (length ?buf) key val"
    using header_loop_field(2) [of ?buf "lfield 1 key" 2 val "[]" "length (lfield 1 key)" 2] lfield_tags(3,4) assms
    by (simp add: cstr_of_fits)
  also have "\<dots> = Some (key, val)" by (subst header_loop.simps) simp
  finally show ?thesis by (simp add: pb_decode_header_msg_def)
qed

lemma frame_loop_step:
  "i < length buf \<Longrightarrow> decode_field buf i f = Some (Inr (j, g)) \<Longrightarrow> frame_loop buf i f = frame_loop buf j g"
  by (subst frame_loop.simps) simp

lemma vfield_pos: "0 < length (vfield k v)" "0 < length (lfield k d)"
  by (simp_all add: vfield_def lfield_def)

lemma frame_loop_vfield:
  assumes "buf = pre @ vfield k v @ rest" "i = length pre"
  shows "k = 1 \<Longrightarrow> frame_loop buf i f = frame_loop buf (i + length (vfield k v)) (f\<lparr>seq_id := v\<rparr>)"
    and "k = 2 \<Longrightarrow> frame_loop buf i f = frame_loop buf (i + length (vfield k v)) f"
    and "k = 3 \<Longrightarrow> frame_loop buf i f = frame_loop buf (i + length (vfield k v)) (f\<lparr>service := ucast v\<rparr>)"
    and "k = 4 \<Longrightarrow> frame_loop buf i f = frame_loop buf (i + length (vfield k v)) (f\<lparr>meth := ucast v\<rparr>)"
proof -
  have i: "i < length buf" using vfield_pos(1) [of k v] assms by simp
  show "k = 1 \<Longrightarrow> frame_loop buf i f = frame_loop buf (i + length (vfield k v)) (f\<lparr>seq_id := v\<rparr>)"
    by (rule frame_loop_step [OF i], rule decode_vfield(1) [OF assms _ refl]) (simp only: vfield_tags)
  show "k = 2 \<Longrightarrow> frame_loop buf i f = frame_loop buf (i + length (vfield k v)) f"
    by (rule frame_loop_step [OF i], rule decode_vfield(2) [OF assms _ refl]) (simp only: vfield_tags)
  show "k = 3 \<Longrightarrow> frame_loop buf i f = frame_loop buf (i + length (vfield k v)) (f\<lparr>service := ucast v\<rparr>)"
    by (rule frame_loop_step [OF i], rule decode_vfield(3) [OF assms _ refl]) (simp only: vfield_tags)
  show "k = 4 \<Longrightarrow> frame_loop buf i f = frame_loop buf (i + length (vfield k v)) (f\<lparr>meth := ucast v\<rparr>)"
    by (rule frame_loop_step [OF i], rule decode_vfield(4) [OF assms _ refl]) (simp only: vfield_tags)
qed

lemma frame_loop_header:
  assumes "buf = pre @ lfield 5 (lfield 1 key @ lfield 2 val) @ rest" "i = length pre" "length buf < 2 ^ 31"
    and "length key < 32" "0 \<notin> set key" "length val < 128" "0 \<notin> set val" "store_header key val f = Some g"
  shows "frame_loop buf i f = frame_loop buf (i + length (lfield 5 (lfield 1 key @ lfield 2 val))) g"
proof (rule frame_loop_step)
  let ?d = "lfield 1 key @ lfield 2 val"
  show "i < length buf" using vfield_pos(2) [of 5 ?d] assms(1,2) by simp
  have "length ?d \<le> length buf" by (simp add: assms(1) lfield_def [of 5])
  then show "decode_field buf i f = Some (Inr (i + length (lfield 5 ?d), g))"
    using assms by (intro decode_header_field [of _ pre _ rest]) (auto simp: decode_header_entry)
qed

section \<open>Sizes\<close>

lemma varint_length: "unat v < 2 ^ (7 * n) \<Longrightarrow> 0 < n \<Longrightarrow> length (varint_bytes v) \<le> n"
proof (induction n arbitrary: v)
  case 0
  then show ?case by simp
next
  case (Suc n)
  show ?case
  proof (cases "v > 0x7F")
    case True
    then have "128 \<le> unat v" by (simp add: word_less_nat_alt)
    with Suc.prems have n: "0 < n" by (cases n) auto
    have "unat (drop_bit 7 v) < 2 ^ (7 * n)"
      using Suc.prems(1) by (simp add: drop_bit_eq_div unat_div_distrib less_mult_imp_div_less power_add)
    with Suc.IH [OF this n] True show ?thesis by (subst varint_bytes.simps) simp
  next
    case False
    then show ?thesis by (subst varint_bytes.simps) simp
  qed
qed

lemma varint_length_64: "length (varint_bytes v) \<le> 10"
  using varint_length [of v 10] unat_less_exp [of v] by simp

lemma varint_length_32: "length (varint_bytes (ucast (w :: u32))) \<le> 5"
proof -
  have w: "unat w < 2 ^ 32" using unat_less_exp [of w] by simp
  then have "unat (ucast w :: u64) = unat w"
    by (simp add: unsigned_ucast_eq take_bit_nat_eq_self)
  with w show ?thesis using varint_length [of "ucast w" 5] by simp
qed

lemma varint_length_7: "unat v < 128 \<Longrightarrow> length (varint_bytes v) = 1"
  using varint_length [of v 1] varint_bytes_nonempty [of v] by (cases "varint_bytes v") auto

lemma put_varint_field_iff:
  "pb_put_varint_field cap k v out = (if length out + length (vfield k v) \<le> cap then Some (out @ vfield k v) else None)"
  by (auto simp: pb_put_varint_field_def vfield_def put_varint_bytes)

lemma put_len_field_iff:
  "pb_put_len_field cap k d out = (if length out + length (lfield k d) \<le> cap then Some (out @ lfield k d) else None)"
  by (auto simp: pb_put_len_field_def lfield_def put_varint_bytes)

lemma lfield_length: "unat (or (push_bit 3 k) 2) < 128 \<Longrightarrow> length d < 128 \<Longrightarrow> length (lfield k d) = 2 + length d"
  by (simp add: lfield_def varint_length_7 unat_of_nat)

lemma encode_header_entry_iff:
  assumes "length key + length val < 124"
  shows "length (lfield 5 (lfield 1 key @ lfield 2 val)) = 6 + length key + length val"
    and "pb_encode_header_entry cap key val out =
      (if length out + 6 + length key + length val \<le> cap
       then Some (out @ lfield 5 (lfield 1 key @ lfield 2 val)) else None)"
proof -
  have t: "unat (or (push_bit 3 1) 2 :: u64) < 128" "unat (or (push_bit 3 2) 2 :: u64) < 128"
    "unat (or (push_bit 3 5) 2 :: u64) < 128" by code_simp+
  have l: "length (lfield 1 key) = 2 + length key" "length (lfield 2 val) = 2 + length val"
    using assms by (simp_all add: lfield_length t)
  show len: "length (lfield 5 (lfield 1 key @ lfield 2 val)) = 6 + length key + length val"
    using assms by (simp add: lfield_length t l)
  show "pb_encode_header_entry cap key val out =
      (if length out + 6 + length key + length val \<le> cap
       then Some (out @ lfield 5 (lfield 1 key @ lfield 2 val)) else None)"
    using assms by (simp add: pb_encode_header_entry_def put_len_field_iff l len add.assoc)
qed

section \<open>Acknowledgement frames\<close>

definition ids_ok :: "fk_frame \<Rightarrow> bool" where
  "ids_ok f \<longleftrightarrow> length (h_msg_id f) < 64 \<and> length (h_trace_id f) < 64
     \<and> 0 \<notin> set (h_msg_id f) \<and> 0 \<notin> set (h_trace_id f)"

definition hentry :: "string \<Rightarrow> u8 list \<Rightarrow> u8 list" where
  "hentry key val = lfield 5 (lfield 1 (bytes key) @ lfield 2 val)"

definition opt_hentry :: "string \<Rightarrow> u8 list \<Rightarrow> u8 list" where
  "opt_hentry key val = (if val = [] then [] else hentry key val)"

definition ack_bytes :: "fk_frame \<Rightarrow> u8 list" where
  "ack_bytes req = vfield 1 (seq_id req) @ vfield 2 0 @ vfield 3 (ucast (service req)) @ vfield 4 (ucast (meth req))
     @ hentry ''type'' (bytes ''ack'') @ opt_hentry ''message_id'' (h_msg_id req)
     @ opt_hentry ''trace_id'' (h_trace_id req) @ lfield 8 ack_pl"

lemma key_facts:
  "length (bytes ''type'') = 4" "0 \<notin> set (bytes ''type'')"
  "length (bytes ''message_id'') = 10" "0 \<notin> set (bytes ''message_id'')"
  "length (bytes ''trace_id'') = 8" "0 \<notin> set (bytes ''trace_id'')"
  "length (bytes ''ack'') = 3" "0 \<notin> set (bytes ''ack'')" "length (bytes ''ping'') = 4" "0 \<notin> set (bytes ''ping'')"
  "length ack_pl = 12"
  by code_simp+

lemma key_distinct:
  "bytes ''message_id'' \<noteq> bytes ''type''" "bytes ''trace_id'' \<noteq> bytes ''type''"
  "bytes ''trace_id'' \<noteq> bytes ''message_id''"
  by code_simp+

lemma store_header_known:
  "length val \<le> 31 \<Longrightarrow> store_header (bytes ''type'') val f = Some (f\<lparr>h_type := val\<rparr>)"
  "length val \<le> 63 \<Longrightarrow> store_header (bytes ''message_id'') val f = Some (f\<lparr>h_msg_id := val\<rparr>)"
  "length val \<le> 63 \<Longrightarrow> store_header (bytes ''trace_id'') val f = Some (f\<lparr>h_trace_id := val\<rparr>)"
  by (simp_all add: store_header_def key_distinct)

lemma ack_bytes_length:
  assumes "ids_ok req"
  shows "length (ack_bytes req) \<le> 208"
proof -
  have v: "length (varint_bytes (push_bit 3 1)) = 1" "length (varint_bytes (push_bit 3 2)) = 1"
    "length (varint_bytes (push_bit 3 3)) = 1" "length (varint_bytes (push_bit 3 4)) = 1" "length (varint_bytes 0) = 1"
    by code_simp+
  have t8: "unat (or (push_bit 3 8) 2 :: u64) < 128" by code_simp
  have h: "length (hentry ''type'' (bytes ''ack'')) = 13" "length (opt_hentry ''message_id'' (h_msg_id req)) \<le> 79"
    "length (opt_hentry ''trace_id'' (h_trace_id req)) \<le> 77"
    using assms encode_header_entry_iff(1) key_facts
    by (auto simp: opt_hentry_def hentry_def ids_ok_def)
  have "length (lfield 8 ack_pl) = 14" using lfield_length [OF t8, of ack_pl] key_facts by simp
  moreover have "length (vfield 1 (seq_id req)) \<le> 11" "length (vfield 2 0) = 2"
    "length (vfield 3 (ucast (service req))) \<le> 6" "length (vfield 4 (ucast (meth req))) \<le> 6"
    unfolding vfield_def length_append v
    using varint_length_64 [of "seq_id req"] varint_length_32 [of "service req"] varint_length_32 [of "meth req"]
    by simp_all
  ultimately show ?thesis using h by (simp add: ack_bytes_def)
qed

lemma encode_ack_bytes:
  assumes "ids_ok req" "208 \<le> cap"
  shows "fk_encode_ack cap req = Some (ack_bytes req)"
proof -
  have "length (ack_bytes req) \<le> cap" using ack_bytes_length [OF assms(1)] assms(2) by simp
  moreover have "length (bytes ''type'') + length (bytes ''ack'') < 124"
    "length (bytes ''message_id'') + length (h_msg_id req) < 124"
    "length (bytes ''trace_id'') + length (h_trace_id req) < 124"
    using assms(1) key_facts by (simp_all add: ids_ok_def)
  note len = encode_header_entry_iff [OF this(1)] encode_header_entry_iff [OF this(2)]
    encode_header_entry_iff [OF this(3)]
  ultimately show ?thesis
    unfolding fk_encode_ack_def
    by (simp add: put_varint_field_iff put_len_field_iff len ack_bytes_def opt_hentry_def hentry_def split: if_splits)
qed

lemma frame_loop_opt_header:
  assumes "buf = pre @ opt_hentry key val @ rest" "i = length pre" "length buf < 2 ^ 31"
    and "length (bytes key) < 32" "0 \<notin> set (bytes key)" "length val < 128" "0 \<notin> set val"
    and "val = [] \<Longrightarrow> g = f" "store_header (bytes key) val f = Some g"
  shows "frame_loop buf i f = frame_loop buf (i + length (opt_hentry key val)) g"
proof (cases "val = []")
  case True
  then show ?thesis using assms(8) by (simp add: opt_hentry_def)
next
  case False
  then show ?thesis
    using frame_loop_header [of buf pre "bytes key" val rest i f g] assms
    by (simp add: opt_hentry_def hentry_def)
qed

lemma ucast_up_down: "(ucast (ucast (w :: u32) :: u64) :: u32) = w"
  by (rule bit_word_eqI) (simp add: bit_simps)

lemma decode_ack_bytes:
  assumes ids: "ids_ok req"
  shows "\<exists>off. pb_decode_frame (ack_bytes req) = Some (0, \<lparr>seq_id = seq_id req, service = service req,
      meth = meth req, h_type = bytes ''ack'', h_msg_id = h_msg_id req, h_trace_id = h_trace_id req,
      h_sum = 0, h_seq = 0, payload = Some (off, 12)\<rparr>)
    \<and> take 12 (drop off (ack_bytes req)) = ack_pl"
proof -
  define buf where "buf = ack_bytes req"
  have small: "length buf < 2 ^ 31" using ack_bytes_length [OF ids] by (simp add: buf_def)
  let ?a = "vfield 1 (seq_id req)" and ?b = "vfield 2 0" and ?c = "vfield 3 (ucast (service req))"
    and ?d = "vfield 4 (ucast (meth req))" and ?e = "hentry ''type'' (bytes ''ack'')"
    and ?g = "opt_hentry ''message_id'' (h_msg_id req)" and ?h = "opt_hentry ''trace_id'' (h_trace_id req)"
  note ids' = ids [unfolded ids_ok_def]
  define f4 where "f4 = zero_frame\<lparr>seq_id := seq_id req, service := service req, meth := meth req\<rparr>"
  define f5 where "f5 = f4\<lparr>h_type := bytes ''ack''\<rparr>"
  define f6 where "f6 = f5\<lparr>h_msg_id := h_msg_id req\<rparr>"
  define f7 where "f7 = f6\<lparr>h_trace_id := h_trace_id req\<rparr>"
  have "frame_loop buf 0 zero_frame = frame_loop buf (length ?a) (zero_frame\<lparr>seq_id := seq_id req\<rparr>)"
    using frame_loop_vfield(1) [of buf "[]" 1] by (simp add: buf_def ack_bytes_def)
  also have "\<dots> = frame_loop buf (length (?a @ ?b)) (zero_frame\<lparr>seq_id := seq_id req\<rparr>)"
    using frame_loop_vfield(2) [of buf ?a 2] by (simp add: buf_def ack_bytes_def)
  also have "\<dots> = frame_loop buf (length (?a @ ?b @ ?c)) (zero_frame\<lparr>seq_id := seq_id req, service := service req\<rparr>)"
    using frame_loop_vfield(3) [of buf "?a @ ?b" 3] by (simp add: buf_def ack_bytes_def add.assoc ucast_up_down)
  also have "\<dots> = frame_loop buf (length (?a @ ?b @ ?c @ ?d)) f4"
    using frame_loop_vfield(4) [of buf "?a @ ?b @ ?c" 4] by (simp add: buf_def ack_bytes_def f4_def add.assoc ucast_up_down)
  also have "\<dots> = frame_loop buf (length (?a @ ?b @ ?c @ ?d @ ?e)) f5"
    using frame_loop_header [of buf "?a @ ?b @ ?c @ ?d" "bytes ''type''" "bytes ''ack''" _ _ f4 f5] small
    by (simp add: buf_def ack_bytes_def hentry_def key_facts f5_def store_header_known add.assoc)
  also have "\<dots> = frame_loop buf (length (?a @ ?b @ ?c @ ?d @ ?e @ ?g)) f6"
    using frame_loop_opt_header [of buf "?a @ ?b @ ?c @ ?d @ ?e" "''message_id''" "h_msg_id req" _ _ f6 f5] small ids'
    by (simp add: buf_def ack_bytes_def key_facts f6_def f5_def f4_def zero_frame_def store_header_known add.assoc)
  also have "\<dots> = frame_loop buf (length (?a @ ?b @ ?c @ ?d @ ?e @ ?g @ ?h)) f7"
    using frame_loop_opt_header [of buf "?a @ ?b @ ?c @ ?d @ ?e @ ?g" "''trace_id''" "h_trace_id req" _ _ f7 f6] small ids'
    by (simp add: buf_def ack_bytes_def key_facts f7_def f6_def f5_def f4_def zero_frame_def store_header_known add.assoc)
  finally have loop: "frame_loop buf 0 zero_frame = frame_loop buf (length (?a @ ?b @ ?c @ ?d @ ?e @ ?g @ ?h)) f7" .
  have split: "buf = (?a @ ?b @ ?c @ ?d @ ?e @ ?g @ ?h) @ lfield 8 ack_pl @ []"
    by (simp add: buf_def ack_bytes_def)
  from decode_payload [OF this refl small, of f7] obtain off where
    p: "decode_field buf (length (?a @ ?b @ ?c @ ?d @ ?e @ ?g @ ?h)) f7 =
      Some (Inr (length buf, f7\<lparr>payload := Some (off, 12)\<rparr>))" "take 12 (drop off buf) = ack_pl"
    using key_facts(11) split by (auto simp: add.assoc)
  have "frame_loop buf (length (?a @ ?b @ ?c @ ?d @ ?e @ ?g @ ?h)) f7 = Some (0, f7\<lparr>payload := Some (off, 12)\<rparr>)"
  proof -
    have "length (?a @ ?b @ ?c @ ?d @ ?e @ ?g @ ?h) < length buf"
      unfolding buf_def ack_bytes_def using vfield_pos(2) [of 8 ack_pl] by simp
    from frame_loop_step [OF this p(1)] show ?thesis by (simp add: frame_loop.simps [of _ "length buf"])
  qed
  with loop p(2) show ?thesis
    by (intro exI [of _ off])
      (simp add: pb_decode_frame_def buf_def f7_def f6_def f5_def f4_def zero_frame_def)
qed

section \<open>What the decoder returns\<close>

lemma cstr_of_no_nul: "0 \<notin> set (cstr_of cap bs)"
  by (auto simp: cstr_of_def dest: set_takeWhileD)

lemma header_loop_no_nul:
  "header_loop buf i key val = Some (k, v) \<Longrightarrow> 0 \<notin> set val \<Longrightarrow> 0 \<notin> set v"
proof (induction buf i key val rule: header_loop.induct)
  case (1 buf i key val)
  show ?case
  proof (cases "i < length buf")
    case False
    with "1.prems" show ?thesis by (simp add: header_loop.simps [of buf i])
  next
    case True
    then obtain tag i1 where t: "pb_read_varint buf i = Some (tag, i1)"
      using "1.prems" by (auto simp: header_loop.simps [of buf i] split: option.splits)
    show ?thesis
    proof (cases "to_int (and tag 7) = 2")
      case False
      then show ?thesis
        using "1.prems" "1.IH"(4) [OF True t refl refl refl False] True t
        by (auto simp: header_loop.simps [of buf i] Let_def split: option.splits)
    next
      case wt: True
      then obtain w i2 where r: "pb_read_varint buf i1 = Some (w, i2)"
        using "1.prems" True t by (auto simp: header_loop.simps [of buf i] Let_def split: option.splits)
      note IH = "1.IH"(1-3) [OF True t refl refl refl wt r refl refl]
      show ?thesis
        using "1.prems" IH True t wt r cstr_of_no_nul
        by (auto simp: header_loop.simps [of buf i] Let_def not_less split: option.splits if_splits)
    qed
  qed
qed

definition frame_ok :: "u8 list \<Rightarrow> fk_frame \<Rightarrow> bool" where
  "frame_ok buf f \<longleftrightarrow> ids_ok f \<and> length (h_type f) < 32
     \<and> (case payload f of None \<Rightarrow> True | Some (off, n) \<Rightarrow> off + n \<le> length buf)"

lemma take_no_nul: "0 \<notin> set v \<Longrightarrow> 0 \<notin> set (take n v)"
  by (auto dest: in_set_takeD)

lemma store_header_ok:
  "store_header k v f = Some g \<Longrightarrow> frame_ok buf f \<Longrightarrow> 0 \<notin> set v \<Longrightarrow> frame_ok buf g"
  by (auto simp: store_header_def frame_ok_def ids_ok_def bind_eq_Some_conv split: if_splits dest: in_set_takeD)

lemma decode_header_ok: "pb_decode_header_msg d f = Some g \<Longrightarrow> frame_ok buf f \<Longrightarrow> frame_ok buf g"
  by (auto simp: pb_decode_header_msg_def bind_eq_Some_conv dest!: header_loop_no_nul elim!: store_header_ok)

lemma decode_field_ok:
  assumes "decode_field buf i f = Some r" "frame_ok buf f"
  shows "case r of Inl g \<Rightarrow> frame_ok buf g | Inr (j, g) \<Rightarrow> frame_ok buf g"
  using assms
  by (auto simp: decode_field_def Let_def bind_eq_Some_conv frame_ok_def [of buf "f\<lparr>seq_id := _\<rparr>"]
      frame_ok_def [of buf "f\<lparr>service := _\<rparr>"] frame_ok_def [of buf "f\<lparr>meth := _\<rparr>"]
      frame_ok_def [of buf "f\<lparr>payload := _\<rparr>"] ids_ok_def int_add_def
      split: option.splits if_splits dest!: decode_header_ok)
    (auto simp: frame_ok_def ids_ok_def)

lemma frame_loop_ok: "frame_loop buf i f = Some (r, g) \<Longrightarrow> frame_ok buf f \<Longrightarrow> frame_ok buf g"
proof (induction buf i f rule: frame_loop.induct)
  case (1 buf i f)
  show ?case
  proof (cases "i < length buf")
    case False
    with "1.prems" show ?thesis by (simp add: frame_loop.simps [of buf i])
  next
    case True
    then obtain x where x: "decode_field buf i f = Some x"
      using "1.prems" by (auto simp: frame_loop.simps [of buf i] split: option.splits)
    show ?thesis
      using "1.prems" "1.IH" [OF True x] True x decode_field_ok [OF x]
      by (auto simp: frame_loop.simps [of buf i] split: sum.splits)
  qed
qed

lemma decode_frame_ok: "pb_decode_frame buf = Some (r, f) \<Longrightarrow> frame_ok buf f"
  using frame_loop_ok [of buf 0 zero_frame r f]
  by (simp add: pb_decode_frame_def frame_ok_def ids_ok_def zero_frame_def)

section \<open>Properties\<close>

text \<open>
  Varints round-trip: for every 64-bit value, decoding the bytes the encoder writes, in
  any buffer and at any position, gives the value back and advances by exactly those bytes.
\<close>

theorem varint_round_trip:
  "pb_put_varint cap v pre = Some out \<Longrightarrow> pb_read_varint (out @ rest) (length pre) = Some (v, length out)"
  using put_varint_length [of cap v pre out] pb_read_varint_bytes [of pre v rest] by auto

theorem varint_round_trip_witness:
  "pb_put_varint 16 300 [7] = Some [7, 172, 2] \<and> pb_read_varint ([7, 172, 2] @ [9]) (length [7 :: u8]) = Some (300, length [7, 172, 2 :: u8])"
proof -
  have "pb_put_varint 16 300 [7] = Some [7, 172, 2]" by code_simp
  with varint_round_trip [OF this, of "[9]"] show ?thesis by simp
qed

text \<open>
  C19. Every received frame can be acknowledged and the acknowledgement says what it should:
  for any bytes the decoder accepts, encoding the acknowledgement into the channel's 512-byte
  buffer succeeds, and decoding it yields the request's sequence number, service, method,
  message id and trace id, type \<open>ack\<close> and the payload \<open>{"code":200}\<close>.
\<close>

theorem ack_of_received_frame:
  assumes "pb_decode_frame buf = Some (0, req)"
  shows "\<exists>out off. fk_encode_ack 512 req = Some out
    \<and> pb_decode_frame out = Some (0, \<lparr>seq_id = seq_id req, service = service req,
      meth = meth req, h_type = bytes ''ack'', h_msg_id = h_msg_id req, h_trace_id = h_trace_id req,
      h_sum = 0, h_seq = 0, payload = Some (off, 12)\<rparr>)
    \<and> take 12 (drop off out) = bytes ''{\"code\":200}''"
proof -
  have "ids_ok req" using decode_frame_ok [OF assms] by (simp add: frame_ok_def)
  with encode_ack_bytes [of req 512] decode_ack_bytes [of req] show ?thesis
    by (auto simp: ack_pl_def)
qed

definition sample_req :: fk_frame where
  "sample_req = zero_frame\<lparr>seq_id := 300, meth := 1, h_msg_id := [109, 49]\<rparr>"

lemma sample_req_ids: "ids_ok sample_req"
  by (simp add: ids_ok_def sample_req_def zero_frame_def)

theorem ack_of_received_frame_witness:
  "\<exists>req out off. pb_decode_frame (ack_bytes sample_req) = Some (0, req) \<and> fk_encode_ack 512 req = Some out
    \<and> seq_id (snd (the (pb_decode_frame out))) = 300 \<and> h_msg_id (snd (the (pb_decode_frame out))) = [109, 49]
    \<and> take 12 (drop off out) = bytes ''{\"code\":200}''"
proof -
  obtain off where d: "pb_decode_frame (ack_bytes sample_req) = Some (0, \<lparr>seq_id = 300, service = 0,
      meth = 1, h_type = bytes ''ack'', h_msg_id = [109, 49], h_trace_id = [],
      h_sum = 0, h_seq = 0, payload = Some (off, 12)\<rparr>)"
    using decode_ack_bytes [OF sample_req_ids] by (auto simp: sample_req_def zero_frame_def)
  from ack_of_received_frame [OF this] d show ?thesis by auto
qed

text \<open>
  The decoder stays inside the buffer: whenever it returns, the payload it points to lies
  within the received bytes and the header strings fit their arrays.
\<close>

theorem decoded_frame_in_bounds:
  "pb_decode_frame buf = Some (r, f) \<Longrightarrow>
   (case payload f of None \<Rightarrow> True | Some (off, n) \<Rightarrow> off + n \<le> length buf)
   \<and> length (h_type f) < 32 \<and> length (h_msg_id f) < 64 \<and> length (h_trace_id f) < 64"
  using decode_frame_ok [of buf r f] by (simp add: frame_ok_def ids_ok_def)

theorem decoded_frame_in_bounds_witness:
  "\<exists>f off. pb_decode_frame (ack_bytes sample_req) = Some (0, f) \<and> payload f = Some (off, 12)
    \<and> off + 12 \<le> length (ack_bytes sample_req)"
proof -
  obtain off f where d: "pb_decode_frame (ack_bytes sample_req) = Some (0, f)" "payload f = Some (off, 12)"
    using decode_ack_bytes [OF sample_req_ids] by auto
  from decoded_frame_in_bounds [OF d(1)] d show ?thesis by auto
qed

lemma continuation_bytes:
  assumes "s + 7 * n < 64 + 7" "buf = pre @ replicate n 0x80 @ rest" "i = length pre"
  shows "varint_loop buf i v s = varint_loop buf (i + n) v (s + 7 * n)"
  using assms
proof (induction n arbitrary: pre i s)
  case 0
  then show ?case by simp
next
  case (Suc n)
  have "varint_loop buf i v s = varint_loop buf (i + 1) v (s + 7)"
    using Suc.prems by (subst varint_loop.simps) (simp add: nth_append Let_def)
  also have "\<dots> = varint_loop buf (i + 1 + n) v (s + 7 + 7 * n)"
    using Suc.prems by (intro Suc.IH [of _ "pre @ [0x80]"]) simp_all
  finally show ?case by (simp add: add.assoc)
qed

text \<open>
  A varint of more than ten bytes makes the decoder shift a 64-bit value by 70 bits,
  which is undefined: ten continuation bytes followed by any byte are enough, wherever they
  stand as a tag.
\<close>

theorem long_varint_undefined:
  "pb_read_varint (replicate 10 0x80 @ b # rest) 0 = None \<and> pb_decode_frame (replicate 10 0x80 @ b # rest) = None"
proof -
  have "pb_read_varint (replicate 10 0x80 @ b # rest) 0 = None"
    using continuation_bytes [of 0 10 "replicate 10 0x80 @ b # rest" "[]" "b # rest" 0 0]
    by (simp add: pb_read_varint_def varint_loop.simps [of _ 10])
  then show ?thesis
    by (simp add: pb_decode_frame_def frame_loop.simps [of _ 0] decode_field_def)
qed

end
