(* ===== verification/Llm_Cache.thy ===== *)
theory Llm_Cache
  imports Prelude
begin

text \<open>
  The response cache of the language-model client
  (\<^verbatim>\<open>services/ai_agent/src/llm/llm_cache.c\<close>): eight slots keyed by a hash of the first
  64 bytes of the prompt, with a time to live.

  Every operation runs under the cache's mutex and is one step. A prompt is the list of its
  \<^verbatim>\<open>prompt_len\<close> bytes (\<open>None\<close> for NULL), a response \<open>None\<close> for NULL; \<open>now\<close> is the
  reading of \<^verbatim>\<open>time\<close> truncated to 32 bits and \<open>mem\<close> whether \<^verbatim>\<open>strdup\<close> succeeds.
\<close>

section \<open>State\<close>

definition LLM_CACHE_SLOTS :: nat where [c_consts]: "LLM_CACHE_SLOTS = 8"
definition LLM_CACHE_TTL_SEC :: u32 where [c_consts]: "LLM_CACHE_TTL_SEC = 300"
definition LLM_CACHE_KEY_LEN :: nat where [c_consts]: "LLM_CACHE_KEY_LEN = 64"

record llm_cache_slot =
  c_hash :: u32
  c_response :: "string option"
  c_ts :: u32
  c_hits :: u32
  c_tokens :: int

record llm_cache =
  s_slots :: "llm_cache_slot list"
  s_tokens_saved :: u32
  s_total_hits :: u32

definition empty_slot :: llm_cache_slot where
  "empty_slot = \<lparr>c_hash = 0, c_response = None, c_ts = 0, c_hits = 0, c_tokens = 0\<rparr>"

section \<open>Operations\<close>

definition djb2_hash :: "u8 list \<Rightarrow> u32" where
  "djb2_hash str = foldl (\<lambda>h c. (push_bit 5 h + h) + ucast c) 5381 (take LLM_CACHE_KEY_LEN str)"

definition llm_cache_init :: "llm_cache \<Rightarrow> llm_cache" where
  "llm_cache_init s = \<lparr>s_slots = map (\<lambda>_. empty_slot) (s_slots s), s_tokens_saved = 0, s_total_hits = 0\<rparr>"

definition no_prompt :: "u8 list option \<Rightarrow> bool" where
  "no_prompt prompt \<longleftrightarrow> prompt = None \<or> prompt = Some []"

definition find_response :: "u32 \<Rightarrow> llm_cache \<Rightarrow> nat option" where
  "find_response h s = first_idx (\<lambda>x. c_hash x = h \<and> c_response x \<noteq> None) (s_slots s)"

definition llm_cache_get :: "bool \<Rightarrow> u32 \<Rightarrow> u8 list option \<Rightarrow> llm_cache \<Rightarrow> string option \<times> llm_cache" where
  "llm_cache_get mem now prompt s =
     (if no_prompt prompt then (None, s)
      else case find_response (djb2_hash (the prompt)) s of
             None \<Rightarrow> (None, s)
           | Some i \<Rightarrow>
               let x = s_slots s ! i in
               if now - c_ts x > LLM_CACHE_TTL_SEC
               then (None, s\<lparr>s_slots := (s_slots s)[i := x\<lparr>c_response := None, c_hash := 0\<rparr>]\<rparr>)
               else if \<not> mem then (None, s)
               else (c_response x,
                     s\<lparr>s_slots := (s_slots s)[i := x\<lparr>c_hits := c_hits x + 1\<rparr>],
                       s_total_hits := s_total_hits s + 1,
                       s_tokens_saved := (if c_tokens x > 0 then s_tokens_saved s + of_int (c_tokens x)
                                          else s_tokens_saved s)\<rparr>))"

text \<open>The scan for the slot to store into: the first with the hash, else the first with the oldest time.\<close>

fun put_scan :: "u32 \<Rightarrow> nat \<Rightarrow> nat \<Rightarrow> u32 \<Rightarrow> llm_cache_slot list \<Rightarrow> nat" where
  "put_scan h i target oldest_ts [] = target"
| "put_scan h i target oldest_ts (x # xs) =
     (if c_hash x = h then i
      else if c_ts x < oldest_ts then put_scan h (Suc i) i (c_ts x) xs
      else put_scan h (Suc i) target oldest_ts xs)"

definition llm_cache_put :: "bool \<Rightarrow> u32 \<Rightarrow> u8 list option \<Rightarrow> string option \<Rightarrow> llm_cache \<Rightarrow> llm_cache" where
  "llm_cache_put mem now prompt response s =
     (if no_prompt prompt \<or> response = None then s
      else let h = djb2_hash (the prompt);
               target = put_scan h 0 0 (- 1) (s_slots s);
               x = s_slots s ! target
           in if \<not> mem then s\<lparr>s_slots := (s_slots s)[target := x\<lparr>c_response := None\<rparr>]\<rparr>
              else s\<lparr>s_slots := (s_slots s)[target :=
                     x\<lparr>c_response := response, c_hash := h, c_ts := now, c_hits := 0\<rparr>]\<rparr>)"

definition llm_cache_put_tokens :: "u8 list option \<Rightarrow> int \<Rightarrow> llm_cache \<Rightarrow> llm_cache" where
  "llm_cache_put_tokens prompt total_tokens s =
     (if no_prompt prompt \<or> total_tokens \<le> 0 then s
      else case find_response (djb2_hash (the prompt)) s of
             None \<Rightarrow> s
           | Some i \<Rightarrow> s\<lparr>s_slots := (s_slots s)[i := (s_slots s ! i)\<lparr>c_tokens := total_tokens\<rparr>]\<rparr>)"

definition llm_cache_tokens_saved :: "llm_cache \<Rightarrow> u32" where
  "llm_cache_tokens_saved s = s_tokens_saved s"

definition llm_cache_hit_count :: "llm_cache \<Rightarrow> u32" where
  "llm_cache_hit_count s = s_total_hits s"

definition llm_cache_cleanup :: "llm_cache \<Rightarrow> llm_cache" where
  "llm_cache_cleanup s = s\<lparr>s_slots := map (\<lambda>x. x\<lparr>c_response := None\<rparr>) (s_slots s)\<rparr>"

definition cache_boot :: llm_cache where
  "cache_boot = \<lparr>s_slots = replicate LLM_CACHE_SLOTS empty_slot, s_tokens_saved = 0, s_total_hits = 0\<rparr>"

section \<open>The slot a response goes to\<close>

lemma put_scan_range: "target < i + length xs \<Longrightarrow> put_scan h i target o1 xs < i + length xs"
proof (induction xs arbitrary: i target o1)
  case (Cons x xs)
  from Cons.IH [of i "Suc i" "c_ts x"] Cons.IH [of target "Suc i" o1] Cons.prems show ?case by simp
qed simp

lemma put_scan_less: "xs \<noteq> [] \<Longrightarrow> put_scan h 0 0 o1 xs < length xs"
  using put_scan_range [of 0 0 xs h o1] by simp

lemma put_scan_hit: "first_idx (\<lambda>x. c_hash x = h) xs = Some j \<Longrightarrow> put_scan h i target o1 xs = i + j"
  by (induction xs arbitrary: i j target o1) (auto split: if_splits)

text \<open>With no slot of that hash, the target is at least as old as every slot.\<close>

lemma put_scan_oldest:
  assumes "\<forall>x\<in>set xs. c_hash x \<noteq> h"
  shows "(put_scan h i target o1 xs = target \<and> (\<forall>x\<in>set xs. o1 \<le> c_ts x))
    \<or> (\<exists>j<length xs. put_scan h i target o1 xs = i + j \<and> c_ts (xs ! j) < o1 \<and> (\<forall>x\<in>set xs. c_ts (xs ! j) \<le> c_ts x))"
  using assms
proof (induction xs arbitrary: i target o1)
  case Nil
  then show ?case by simp
next
  case (Cons x xs)
  show ?case
  proof (cases "c_ts x < o1")
    case True
    with Cons.IH [of "Suc i" i "c_ts x"] Cons.prems show ?thesis
      by (auto simp: nth_Cons' intro: exI [of _ 0] less_imp_le)
  next
    case False
    with Cons.IH [of "Suc i" target o1] Cons.prems show ?thesis
      by (auto simp: not_less)
  qed
qed

section \<open>Lookups after a store\<close>

text \<open>The response a prompt's hash leads to, with the time it was stored.\<close>

definition cached :: "u32 \<Rightarrow> llm_cache \<Rightarrow> (string \<times> u32) option" where
  "cached h s = map_option (\<lambda>i. (the (c_response (s_slots s ! i)), c_ts (s_slots s ! i))) (find_response h s)"

definition put_target :: "u8 list \<Rightarrow> llm_cache \<Rightarrow> nat" where
  "put_target p s = put_scan (djb2_hash p) 0 0 (- 1) (s_slots s)"

lemma first_idx_update_other:
  assumes "\<not> P (xs ! i)" "\<not> P y"
  shows "first_idx P (xs[i := y]) = first_idx P xs"
proof (rule first_idx_cong_nth)
  fix k
  assume "k < length (xs[i := y])"
  then show "P (xs[i := y] ! k) \<longleftrightarrow> P (xs ! k)" using assms by (cases "k = i") auto
qed simp

lemma put_target_less: "s_slots s \<noteq> [] \<Longrightarrow> put_target p s < length (s_slots s)"
  by (simp add: put_target_def put_scan_less)

lemma put_stores:
  fixes now :: u32 and r :: string
  assumes "s_slots s \<noteq> []" "p \<noteq> []"
  defines "t \<equiv> llm_cache_put True now (Some p) (Some r) s"
  shows "find_response (djb2_hash p) t = Some (put_target p s)"
    and "s_slots t ! put_target p s = (s_slots s ! put_target p s)\<lparr>c_response := Some r, c_hash := djb2_hash p,
      c_ts := now, c_hits := 0\<rparr>"
proof -
  let ?h = "djb2_hash p" and ?j = "put_target p s"
  have len: "?j < length (s_slots s)" using assms(1) by (rule put_target_less)
  have t: "s_slots t = (s_slots s)[?j := (s_slots s ! ?j)\<lparr>c_response := Some r, c_hash := ?h, c_ts := now, c_hits := 0\<rparr>]"
    using assms(2) by (simp add: t_def llm_cache_put_def no_prompt_def Let_def put_target_def)
  show "s_slots t ! ?j = (s_slots s ! ?j)\<lparr>c_response := Some r, c_hash := ?h, c_ts := now, c_hits := 0\<rparr>"
    using len by (simp add: t)
  have before: "c_hash (s_slots s ! i) \<noteq> ?h" if "i < ?j" for i
  proof (cases "first_idx (\<lambda>x. c_hash x = ?h) (s_slots s)")
    case None
    with that len show ?thesis by (auto simp: first_idx_None_nth)
  next
    case (Some j)
    then have "?j = j" by (simp add: put_target_def put_scan_hit)
    with Some that show ?thesis by (auto simp: first_idx_Some)
  qed
  show "find_response ?h t = Some ?j"
    using len before by (auto simp: find_response_def first_idx_Some t nth_list_update)
qed

lemma put_keeps_others:
  assumes "s_slots s \<noteq> []" "h \<noteq> djb2_hash p" "c_hash (s_slots s ! put_target p s) \<noteq> h"
  shows "cached h (llm_cache_put mem now (Some p) (Some r) s) = cached h s"
proof -
  let ?t = "llm_cache_put mem now (Some p) (Some r) s" and ?j = "put_target p s"
  have len: "?j < length (s_slots s)" using assms(1) by (rule put_target_less)
  obtain y where y: "s_slots ?t = (s_slots s)[?j := y] \<or> s_slots ?t = s_slots s" "c_hash y \<noteq> h"
    using assms(2,3) by (cases mem; cases "no_prompt (Some p)")
      (auto simp: llm_cache_put_def Let_def put_target_def intro: that)
  have f: "find_response h ?t = find_response h s"
    using y assms(3) first_idx_update_other [of "\<lambda>x. c_hash x = h \<and> c_response x \<noteq> None" "s_slots s" ?j y]
    by (auto simp: find_response_def)
  have "s_slots ?t ! i = s_slots s ! i" if "find_response h s = Some i" for i
    using that y(1) assms(3) len by (auto simp: find_response_def first_idx_Some nth_list_update)
  with f show ?thesis by (cases "find_response h s") (auto simp: cached_def)
qed

section \<open>Properties\<close>

text \<open>
  What a store does: afterwards, within the time to live, every prompt with the same key
  gets exactly the stored response; every other key still finds what it found before, except
  the one whose slot was taken, and a slot of another key is taken only when no slot has the
  stored key, and then it is one with the oldest time stamp.
\<close>

theorem cache_put_then_get:
  assumes "s_slots s \<noteq> []" "p \<noteq> []" "q \<noteq> []" "djb2_hash q = djb2_hash p" "now' - now \<le> LLM_CACHE_TTL_SEC"
  shows "fst (llm_cache_get True now' (Some q) (llm_cache_put True now (Some p) (Some r) s)) = Some r
    \<and> (\<forall>h. h \<noteq> djb2_hash p \<and> h \<noteq> c_hash (s_slots s ! put_target p s) \<longrightarrow>
          cached h (llm_cache_put True now (Some p) (Some r) s) = cached h s)
    \<and> (c_hash (s_slots s ! put_target p s) = djb2_hash p
        \<or> (\<forall>x\<in>set (s_slots s). c_ts (s_slots s ! put_target p s) \<le> c_ts x))"
proof (intro conjI allI impI)
  note st = put_stores [OF assms(1,2), of now r]
  show "fst (llm_cache_get True now' (Some q) (llm_cache_put True now (Some p) (Some r) s)) = Some r"
    using assms(3-5) st by (simp add: llm_cache_get_def no_prompt_def Let_def not_less)
next
  fix h
  assume "h \<noteq> djb2_hash p \<and> h \<noteq> c_hash (s_slots s ! put_target p s)"
  then show "cached h (llm_cache_put True now (Some p) (Some r) s) = cached h s"
    using put_keeps_others [OF assms(1), of h p] by auto
next
  show "c_hash (s_slots s ! put_target p s) = djb2_hash p
      \<or> (\<forall>x\<in>set (s_slots s). c_ts (s_slots s ! put_target p s) \<le> c_ts x)"
  proof (cases "first_idx (\<lambda>x. c_hash x = djb2_hash p) (s_slots s)")
    case (Some j)
    then show ?thesis by (auto simp: put_target_def put_scan_hit first_idx_Some)
  next
    case None
    then have "\<forall>x\<in>set (s_slots s). c_hash x \<noteq> djb2_hash p" by (simp add: first_idx_None)
    from put_scan_oldest [OF this, of 0 0 "- 1"] assms(1) show ?thesis
    proof (elim disjE exE conjE)
      assume "\<forall>x\<in>set (s_slots s). - 1 \<le> c_ts x"
      then have "c_ts x = - 1" if "x \<in> set (s_slots s)" for x
        using that by (metis word_order.extremum_uniqueI)
      moreover have "s_slots s ! put_target p s \<in> set (s_slots s)"
        using put_target_less [OF assms(1)] by simp
      ultimately show ?thesis by simp
    qed (auto simp: put_target_def)
  qed
qed

theorem cache_put_then_get_witness:
  "fst (llm_cache_get True 1200 (Some (replicate 70 97)) (llm_cache_put True 1000 (Some (replicate 64 97)) (Some ''hi'') cache_boot)) = Some ''hi''"
proof -
  have "djb2_hash (replicate 70 97) = djb2_hash (replicate 64 97)"
    by (simp add: djb2_hash_def LLM_CACHE_KEY_LEN_def)
  with cache_put_then_get [of cache_boot "replicate 64 97" "replicate 70 97" 1200 1000 "''hi''"]
  show ?thesis by (simp add: cache_boot_def LLM_CACHE_SLOTS_def LLM_CACHE_TTL_SEC_def)
qed

text \<open>
  The token count of a slot outlives its response: storing a response keeps the tokens
  recorded for whatever occupied the slot before, so a hit on the new response adds them to
  the tokens saved although nothing was recorded for it.
\<close>

theorem cache_put_keeps_stale_tokens:
  assumes "s_slots s \<noteq> []" "p \<noteq> []" "now' - now \<le> LLM_CACHE_TTL_SEC"
    and "c_tokens (s_slots s ! put_target p s) = n" "0 < n"
  shows "llm_cache_tokens_saved (snd (llm_cache_get True now' (Some p) (llm_cache_put True now (Some p) (Some r) s))) =
    llm_cache_tokens_saved s + of_int n"
proof -
  note st = put_stores [OF assms(1,2), of now r]
  have "s_tokens_saved (llm_cache_put True now (Some p) (Some r) s) = s_tokens_saved s"
    by (simp add: llm_cache_put_def Let_def)
  then show ?thesis
    using assms(2-5) st by (auto simp: llm_cache_get_def no_prompt_def Let_def llm_cache_tokens_saved_def)
qed

theorem cache_put_keeps_stale_tokens_witness:
  "llm_cache_tokens_saved (snd (llm_cache_get True 5 (Some [98]) (llm_cache_put True 5 (Some [98]) (Some ''b'')
     (cache_boot\<lparr>s_slots := [\<lparr>c_hash = 7, c_response = Some ''a'', c_ts = 1, c_hits = 0, c_tokens = 900\<rparr>]\<rparr>)))) = 900"
proof -
  have "put_target [98] (cache_boot\<lparr>s_slots := [\<lparr>c_hash = 7, c_response = Some ''a'', c_ts = 1, c_hits = 0, c_tokens = 900\<rparr>]\<rparr>) = 0"
    by (simp add: put_target_def)
  with cache_put_keeps_stale_tokens [of "cache_boot\<lparr>s_slots := [\<lparr>c_hash = 7, c_response = Some ''a'', c_ts = 1, c_hits = 0,
      c_tokens = 900\<rparr>]\<rparr>" "[98]" 5 5 900 "''b''"]
  show ?thesis by (simp add: cache_boot_def llm_cache_tokens_saved_def LLM_CACHE_TTL_SEC_def)
qed

end
