(* ===== verification/Llm_Router.thy ===== *)
theory Llm_Router
  imports Prelude
begin

text \<open>
  The backend router of the language-model client
  (\<^verbatim>\<open>services/ai_agent/src/llm/llm_router.c\<close>): up to four backends, scored by profile and
  task complexity, with failure counting, exponential backoff and recovery.

  The record \<open>router\<close> holds the static variables. Operations run under the router's lock;
  \<open>now\<close> is \<^verbatim>\<open>time(NULL)\<close> truncated to 32 bits. Scores are computed on \<open>int\<close>: for the
  priorities and cost tiers a configuration can sensibly hold the C arithmetic does not
  overflow. Persisting backends in the configuration store and the JSON status report are
  outside the theory; the loop of the complexity estimate that depends only on the prompt is
  modelled with the keyword tables as arguments.
\<close>

section \<open>State\<close>

definition LLM_ROUTER_MAX_BACKENDS :: nat where [c_consts]: "LLM_ROUTER_MAX_BACKENDS = 4"
abbreviation (input) MAX_CONSECUTIVE_FAILURES :: int where "MAX_CONSECUTIVE_FAILURES \<equiv> 3"
abbreviation (input) RECOVERY_INTERVAL_SEC :: u32 where "RECOVERY_INTERVAL_SEC \<equiv> 300"
abbreviation (input) BACKOFF_DEBOUNCE_SEC :: u32 where "BACKOFF_DEBOUNCE_SEC \<equiv> 5"

datatype llm_route_profile = LLM_ROUTE_AUTO | LLM_ROUTE_ECO | LLM_ROUTE_PREMIUM

datatype llm_complexity = LLM_COMPLEXITY_SIMPLE | LLM_COMPLEXITY_MEDIUM | LLM_COMPLEXITY_COMPLEX

record llm_backend =
  host :: string
  path :: string
  port :: string
  api_key :: string
  model :: string
  priority :: int
  cost_tier :: int
  enabled :: bool
  fail_count :: int
  last_fail_ts :: u32
  backoff_until :: u32
  total_calls :: u32
  total_failures :: u32
  avg_latency_ms :: u32
  total_prompt_tokens :: u32
  total_completion_tokens :: u32

record router =
  s_backends :: "llm_backend list"
  s_backend_count :: nat
  s_profile :: llm_route_profile

definition zero_backend :: llm_backend where
  "zero_backend = \<lparr>host = [], path = [], port = [], api_key = [], model = [], priority = 0, cost_tier = 0,
     enabled = False, fail_count = 0, last_fail_ts = 0, backoff_until = 0, total_calls = 0, total_failures = 0,
     avg_latency_ms = 0, total_prompt_tokens = 0, total_completion_tokens = 0\<rparr>"

definition router_boot :: router where
  "router_boot = \<lparr>s_backends = replicate LLM_ROUTER_MAX_BACKENDS zero_backend, s_backend_count = 0,
     s_profile = LLM_ROUTE_AUTO\<rparr>"

definition index_ok :: "int \<Rightarrow> bool" where
  "index_ok index \<longleftrightarrow> \<not> (index < 0 \<or> index \<ge> int LLM_ROUTER_MAX_BACKENDS)"

definition upd_backend :: "int \<Rightarrow> (llm_backend \<Rightarrow> llm_backend) \<Rightarrow> router \<Rightarrow> router" where
  "upd_backend index f s = s\<lparr>s_backends := (s_backends s)[nat index := f (s_backends s ! nat index)]\<rparr>"

section \<open>Configuration\<close>

text \<open>\<open>json_ok\<close>: the JSON object for the configuration store could be created.\<close>

definition llm_router_set_backend :: "bool \<Rightarrow> int \<Rightarrow> llm_backend option \<Rightarrow> router \<Rightarrow> int \<times> router" where
  "llm_router_set_backend json_ok index backend s =
     (case backend of
        None \<Rightarrow> (- 1, s)
      | Some b \<Rightarrow>
          if \<not> index_ok index then (- 1, s)
          else let s1 = upd_backend index (\<lambda>_. b\<lparr>fail_count := 0\<rparr>) s in
               if \<not> json_ok then (- 1, s1)
               else (0, if nat index \<ge> s_backend_count s1 then s1\<lparr>s_backend_count := nat index + 1\<rparr> else s1))"

definition llm_router_get_backend :: "int \<Rightarrow> router \<Rightarrow> llm_backend option" where
  "llm_router_get_backend index s =
     (if \<not> index_ok index then None
      else let b = s_backends s ! nat index in if \<not> enabled b \<or> host b = [] then None else Some b)"

definition llm_router_set_profile :: "llm_route_profile \<Rightarrow> router \<Rightarrow> router" where
  "llm_router_set_profile p s = s\<lparr>s_profile := p\<rparr>"

definition llm_router_get_profile :: "router \<Rightarrow> llm_route_profile" where
  "llm_router_get_profile s = s_profile s"

section \<open>Complexity\<close>

text \<open>
  The prompt is its bytes; \<open>fence\<close>, \<open>complex\<close> and \<open>simple\<close> are the answers of
  \<^verbatim>\<open>strstr\<close> and of the two keyword searches on it.
\<close>

fun count_qmarks :: "u8 list \<Rightarrow> nat" where
  "count_qmarks [] = 0"
| "count_qmarks (b # bs) =
     (if b = 63 \<or> (b = 0xEF \<and> (case bs of c # d # _ \<Rightarrow> c = 0xBC \<and> d = 0x9F | _ \<Rightarrow> False)) then 1 else 0)
     + count_qmarks bs"

definition llm_router_estimate_complexity :: "bool \<Rightarrow> bool \<Rightarrow> bool \<Rightarrow> u8 list \<Rightarrow> llm_complexity" where
  "llm_router_estimate_complexity fence complex simple prompt =
     (if prompt = [] then LLM_COMPLEXITY_SIMPLE
      else let est_tokens = length prompt div 4;
               s1 = (if est_tokens > 200 then 3 else if est_tokens > 50 then 1 else 0 :: int);
               qmarks = count_qmarks prompt;
               s2 = s1 + (if qmarks \<ge> 3 then 2 else if qmarks \<ge> 1 then 1 else 0);
               s3 = s2 + (if fence then 3 else 0);
               score = s3 + (if complex then 2 else 0)
           in if score = 0 \<and> length prompt < 50 \<and> simple then LLM_COMPLEXITY_SIMPLE
              else if score \<ge> 4 then LLM_COMPLEXITY_COMPLEX
              else if score \<ge> 2 then LLM_COMPLEXITY_MEDIUM
              else LLM_COMPLEXITY_SIMPLE)"

section \<open>Selection\<close>

text \<open>Scores are unbounded here: priorities and failure counts near 10 to the 8, where \<^verbatim>\<open>int\<close> would overflow, do not occur.\<close>

definition backend_score :: "llm_complexity \<Rightarrow> llm_route_profile \<Rightarrow> llm_backend \<Rightarrow> int" where
  "backend_score complexity profile b =
     (let s1 = 100 - priority b * 10;
          s2 = (case profile of
                  LLM_ROUTE_ECO \<Rightarrow> s1 + (3 - cost_tier b) * 30
                | LLM_ROUTE_PREMIUM \<Rightarrow> s1 + cost_tier b * 30
                | LLM_ROUTE_AUTO \<Rightarrow>
                    if complexity = LLM_COMPLEXITY_SIMPLE \<and> cost_tier b \<le> 1 then s1 + 20
                    else if complexity = LLM_COMPLEXITY_MEDIUM \<and> cost_tier b = 1 then s1 + 20
                    else if complexity = LLM_COMPLEXITY_COMPLEX \<and> cost_tier b \<ge> 2 then s1 + 20
                    else s1);
          s3 = s2 - fail_count b * 15
      in if avg_latency_ms b > 0 \<and> avg_latency_ms b < 5000
         then s3 + (5000 - uint (avg_latency_ms b)) div 500 else s3)"

text \<open>The loop variables of the selection.\<close>

record selection =
  best_idx :: "nat option"
  best_score :: int
  fallback_idx :: "nat option"
  fallback_until :: u32

definition select_init :: selection where
  "select_init = \<lparr>best_idx = None, best_score = - 1, fallback_idx = None, fallback_until = - 1\<rparr>"

definition recovered :: "u32 \<Rightarrow> llm_backend \<Rightarrow> llm_backend" where
  "recovered now b = (if fail_count b \<ge> MAX_CONSECUTIVE_FAILURES
     \<and> now - last_fail_ts b \<ge> RECOVERY_INTERVAL_SEC then b\<lparr>fail_count := 0\<rparr> else b)"

text \<open>One iteration: the new loop variables and the backend, whose failure count it may reset.\<close>

definition select_step ::
  "llm_complexity \<Rightarrow> llm_route_profile \<Rightarrow> u32 \<Rightarrow> nat \<Rightarrow> llm_backend \<Rightarrow> selection \<Rightarrow> selection \<times> llm_backend"
where
  "select_step complexity profile now i b v =
     (if \<not> enabled b \<or> host b = [] then (v, b)
      else if backoff_until b > now
      then (if backoff_until b < fallback_until v
            then v\<lparr>fallback_until := backoff_until b, fallback_idx := Some i\<rparr> else v, b)
      else let b1 = recovered now b in
           if fail_count b1 \<ge> MAX_CONSECUTIVE_FAILURES then (v, b1)
           else let score = backend_score complexity profile b1 in
                (if score > best_score v then v\<lparr>best_score := score, best_idx := Some i\<rparr> else v, b1))"

fun select_loop ::
  "llm_complexity \<Rightarrow> llm_route_profile \<Rightarrow> u32 \<Rightarrow> nat \<Rightarrow> llm_backend list \<Rightarrow> selection \<Rightarrow> selection \<times> llm_backend list"
where
  "select_loop c p now i [] v = (v, [])"
| "select_loop c p now i (b # bs) v =
     (let (v1, b1) = select_step c p now i b v; (v2, bs1) = select_loop c p now (Suc i) bs v1
      in (v2, b1 # bs1))"

definition router_select_internal ::
  "llm_complexity \<Rightarrow> llm_route_profile \<Rightarrow> u32 \<Rightarrow> router \<Rightarrow> nat option \<times> router"
where
  "router_select_internal complexity profile now s =
     (let (v, bs) = select_loop complexity profile now 0 (s_backends s) select_init
      in (case best_idx v of None \<Rightarrow> fallback_idx v | Some i \<Rightarrow> Some i, s\<lparr>s_backends := bs\<rparr>))"

definition llm_router_select :: "llm_complexity \<Rightarrow> u32 \<Rightarrow> router \<Rightarrow> nat option \<times> router" where
  "llm_router_select complexity now s = router_select_internal complexity (s_profile s) now s"

definition llm_router_select_with_profile ::
  "llm_complexity \<Rightarrow> llm_route_profile \<Rightarrow> u32 \<Rightarrow> router \<Rightarrow> nat option \<times> router"
where
  "llm_router_select_with_profile complexity profile now s = router_select_internal complexity profile now s"

section \<open>Reports\<close>

definition backoff_secs :: "int \<Rightarrow> u32" where
  "backoff_secs fails =
     (if fails \<ge> 2
      then let shift = (if fails - 2 > 5 then 5 else nat (fails - 2)); backoff = push_bit shift 1 * 2 :: u32
           in if backoff > 60 then 60 else backoff
      else 0)"

definition llm_router_report_failure :: "u32 \<Rightarrow> int \<Rightarrow> router \<Rightarrow> router" where
  "llm_router_report_failure now index s =
     (if \<not> index_ok index then s
      else upd_backend index (\<lambda>b.
        let n = (if now - last_fail_ts b \<ge> BACKOFF_DEBOUNCE_SEC then fail_count b + 1 else fail_count b);
            backoff = backoff_secs n
        in b\<lparr>fail_count := n, last_fail_ts := now, total_failures := total_failures b + 1,
             backoff_until := (if backoff > 0 then now + backoff else 0)\<rparr>) s)"

definition llm_router_report_success :: "int \<Rightarrow> router \<Rightarrow> router" where
  "llm_router_report_success index s =
     (if \<not> index_ok index then s
      else upd_backend index (\<lambda>b. b\<lparr>fail_count := 0, backoff_until := 0, total_calls := total_calls b + 1\<rparr>) s)"

definition llm_router_report_latency :: "int \<Rightarrow> u32 \<Rightarrow> router \<Rightarrow> router" where
  "llm_router_report_latency index latency_ms s =
     (if \<not> index_ok index then s
      else upd_backend index (\<lambda>b. b\<lparr>avg_latency_ms :=
             (if avg_latency_ms b = 0 then latency_ms
              else (avg_latency_ms b * 7 + latency_ms * 3) div 10)\<rparr>) s)"

text \<open>Applying a backend: the five settings handed to the proxy, or \<open>None\<close> for \<open>-1\<close>.\<close>

definition llm_router_apply :: "int \<Rightarrow> router \<Rightarrow> (string \<times> string \<times> string \<times> string \<times> string) option" where
  "llm_router_apply index s =
     (if \<not> index_ok index then None
      else let b = s_backends s ! nat index in
           if host b = [] then None else Some (host b, path b, port b, api_key b, model b))"

definition llm_router_report_tokens :: "int \<Rightarrow> int \<Rightarrow> int \<Rightarrow> router \<Rightarrow> router" where
  "llm_router_report_tokens index prompt_tokens completion_tokens s =
     (if \<not> index_ok index then s
      else upd_backend index (\<lambda>b. b\<lparr>
        total_prompt_tokens := (if prompt_tokens > 0 then total_prompt_tokens b + of_int prompt_tokens
                                else total_prompt_tokens b),
        total_completion_tokens := (if completion_tokens > 0 then total_completion_tokens b + of_int completion_tokens
                                    else total_completion_tokens b)\<rparr>) s)"

section \<open>What the loop computes\<close>

definition usable :: "llm_backend \<Rightarrow> bool" where
  "usable b \<longleftrightarrow> enabled b \<and> host b \<noteq> []"

definition backed_off :: "u32 \<Rightarrow> llm_backend \<Rightarrow> bool" where
  "backed_off now b \<longleftrightarrow> usable b \<and> backoff_until b > now"

definition eligible :: "u32 \<Rightarrow> llm_backend \<Rightarrow> bool" where
  "eligible now b \<longleftrightarrow> usable b \<and> \<not> backoff_until b > now
     \<and> fail_count (recovered now b) < MAX_CONSECUTIVE_FAILURES"

definition score_of :: "llm_complexity \<Rightarrow> llm_route_profile \<Rightarrow> u32 \<Rightarrow> llm_backend \<Rightarrow> int" where
  "score_of c p now b = backend_score c p (recovered now b)"

lemma select_step_cases:
  "select_step c p now i b v =
     (if backed_off now b
      then (if backoff_until b < fallback_until v
            then v\<lparr>fallback_until := backoff_until b, fallback_idx := Some i\<rparr> else v, b)
      else if eligible now b
      then (if score_of c p now b > best_score v
            then v\<lparr>best_score := score_of c p now b, best_idx := Some i\<rparr> else v, recovered now b)
      else (v, if usable b then recovered now b else b))"
  by (auto simp: select_step_def backed_off_def eligible_def usable_def score_of_def Let_def)

lemma select_loop_best:
  "(best_idx (fst (select_loop c p now i bs v)) = best_idx v
      \<and> (\<forall>b\<in>set bs. eligible now b \<longrightarrow> score_of c p now b \<le> best_score v))
    \<or> (\<exists>j<length bs. best_idx (fst (select_loop c p now i bs v)) = Some (i + j) \<and> eligible now (bs ! j)
        \<and> best_score v < score_of c p now (bs ! j)
        \<and> (\<forall>b\<in>set bs. eligible now b \<longrightarrow> score_of c p now b \<le> score_of c p now (bs ! j))
        \<and> (\<forall>k<j. eligible now (bs ! k) \<longrightarrow> score_of c p now (bs ! k) < score_of c p now (bs ! j)))"
proof (induction bs arbitrary: i v)
  case Nil
  then show ?case by simp
next
  case (Cons b bs)
  let ?v = "fst (select_step c p now i b v)"
  have loop: "fst (select_loop c p now i (b # bs) v) = fst (select_loop c p now (Suc i) bs ?v)"
    by (simp add: case_prod_beta)
  have step: "(eligible now b \<and> best_score v < score_of c p now b \<and> best_score ?v = score_of c p now b \<and> best_idx ?v = Some i)
      \<or> (\<not> (eligible now b \<and> best_score v < score_of c p now b) \<and> best_score ?v = best_score v \<and> best_idx ?v = best_idx v)"
    by (auto simp: select_step_cases backed_off_def eligible_def)
  from Cons.IH [of "Suc i" ?v] show ?case
  proof (elim disjE exE conjE)
    assume a: "best_idx (fst (select_loop c p now (Suc i) bs ?v)) = best_idx ?v"
      "\<forall>b\<in>set bs. eligible now b \<longrightarrow> score_of c p now b \<le> best_score ?v"
    from step show ?thesis
    proof
      assume "eligible now b \<and> best_score v < score_of c p now b \<and> best_score ?v = score_of c p now b \<and> best_idx ?v = Some i"
      with a loop show ?thesis by (intro disjI2 exI [of _ 0]) auto
    next
      assume "\<not> (eligible now b \<and> best_score v < score_of c p now b) \<and> best_score ?v = best_score v \<and> best_idx ?v = best_idx v"
      with a loop show ?thesis by (intro disjI1) auto
    qed
  next
    fix j
    assume a: "j < length bs" "best_idx (fst (select_loop c p now (Suc i) bs ?v)) = Some (Suc i + j)"
      "eligible now (bs ! j)" "best_score ?v < score_of c p now (bs ! j)"
      "\<forall>b\<in>set bs. eligible now b \<longrightarrow> score_of c p now b \<le> score_of c p now (bs ! j)"
      "\<forall>k<j. eligible now (bs ! k) \<longrightarrow> score_of c p now (bs ! k) < score_of c p now (bs ! j)"
    have v: "best_score v \<le> best_score ?v" "eligible now b \<Longrightarrow> score_of c p now b \<le> best_score ?v"
      using step by auto
    have "\<forall>k<Suc j. eligible now ((b # bs) ! k) \<longrightarrow> score_of c p now ((b # bs) ! k) < score_of c p now (bs ! j)"
      using a(4,6) v(2) by (auto simp: nth_Cons split: nat.splits)
    with a v loop show ?thesis by (intro disjI2 exI [of _ "Suc j"]) auto
  qed
qed

lemma select_loop_fallback:
  "(fallback_idx (fst (select_loop c p now i bs v)) = fallback_idx v
      \<and> (\<forall>b\<in>set bs. backed_off now b \<longrightarrow> fallback_until v \<le> backoff_until b))
    \<or> (\<exists>j<length bs. fallback_idx (fst (select_loop c p now i bs v)) = Some (i + j) \<and> backed_off now (bs ! j)
        \<and> backoff_until (bs ! j) < fallback_until v
        \<and> (\<forall>b\<in>set bs. backed_off now b \<longrightarrow> backoff_until (bs ! j) \<le> backoff_until b))"
proof (induction bs arbitrary: i v)
  case Nil
  then show ?case by simp
next
  case (Cons b bs)
  let ?v = "fst (select_step c p now i b v)"
  have loop: "fst (select_loop c p now i (b # bs) v) = fst (select_loop c p now (Suc i) bs ?v)"
    by (simp add: case_prod_beta)
  have step: "(backed_off now b \<and> backoff_until b < fallback_until v \<and> fallback_until ?v = backoff_until b \<and> fallback_idx ?v = Some i)
      \<or> (\<not> (backed_off now b \<and> backoff_until b < fallback_until v) \<and> fallback_until ?v = fallback_until v
          \<and> fallback_idx ?v = fallback_idx v)"
    by (auto simp: select_step_cases)
  from Cons.IH [of "Suc i" ?v] show ?case
  proof (elim disjE exE conjE)
    assume a: "fallback_idx (fst (select_loop c p now (Suc i) bs ?v)) = fallback_idx ?v"
      "\<forall>b\<in>set bs. backed_off now b \<longrightarrow> fallback_until ?v \<le> backoff_until b"
    from step show ?thesis
    proof
      assume "backed_off now b \<and> backoff_until b < fallback_until v \<and> fallback_until ?v = backoff_until b \<and> fallback_idx ?v = Some i"
      with a loop show ?thesis by (intro disjI2 exI [of _ 0]) auto
    next
      assume "\<not> (backed_off now b \<and> backoff_until b < fallback_until v) \<and> fallback_until ?v = fallback_until v
          \<and> fallback_idx ?v = fallback_idx v"
      with a loop show ?thesis by (intro disjI1) auto
    qed
  next
    fix j
    assume a: "j < length bs" "fallback_idx (fst (select_loop c p now (Suc i) bs ?v)) = Some (Suc i + j)"
      "backed_off now (bs ! j)" "backoff_until (bs ! j) < fallback_until ?v"
      "\<forall>b\<in>set bs. backed_off now b \<longrightarrow> backoff_until (bs ! j) \<le> backoff_until b"
    have v: "fallback_until ?v \<le> fallback_until v" "backed_off now b \<Longrightarrow> fallback_until ?v \<le> backoff_until b"
      using step by (auto simp: less_imp_le)
    with a loop show ?thesis by (intro disjI2 exI [of _ "Suc j"]) auto
  qed
qed

section \<open>Failure reports\<close>

text \<open>Reports that are at least the debounce interval apart, the first counted from \<open>prev\<close>.\<close>

fun spaced :: "u32 \<Rightarrow> u32 list \<Rightarrow> bool" where
  "spaced prev [] \<longleftrightarrow> True"
| "spaced prev (t # ts) \<longleftrightarrow> BACKOFF_DEBOUNCE_SEC \<le> t - prev \<and> spaced t ts"

definition backoff_spec :: "nat \<Rightarrow> nat" where
  "backoff_spec n = (if n < 2 then 0 else min 60 (2 ^ (n - 1)))"

lemma backoff_secs_spec: "unat (backoff_secs (int n)) = backoff_spec n"
proof -
  consider "n < 2" | "n = 2" | "n = 3" | "n = 4" | "n = 5" | "n = 6" | "n \<ge> 7" by linarith
  then show ?thesis
  proof cases
    case 7
    then have "(2 :: nat) ^ 6 \<le> 2 ^ (n - 1)" by (intro power_increasing) auto
    with 7 show ?thesis by (auto simp: backoff_secs_def backoff_spec_def Let_def)
  qed (auto simp: backoff_secs_def backoff_spec_def Let_def)
qed

lemma upd_backend_simps [simp]:
  "length (s_backends (upd_backend i f s)) = length (s_backends s)"
  "nat i < length (s_backends s) \<Longrightarrow> s_backends (upd_backend i f s) ! nat i = f (s_backends s ! nat i)"
  by (simp_all add: upd_backend_def)

definition fail_all :: "int \<Rightarrow> u32 list \<Rightarrow> router \<Rightarrow> router" where
  "fail_all i ts s = fold (\<lambda>t. llm_router_report_failure t i) ts s"

lemma fail_all_count:
  assumes "index_ok i" "length (s_backends s) = LLM_ROUTER_MAX_BACKENDS"
    and "spaced (last_fail_ts (s_backends s ! nat i)) ts" "0 \<le> fail_count (s_backends s ! nat i)"
  shows "fail_count (s_backends (fail_all i ts s) ! nat i) = fail_count (s_backends s ! nat i) + int (length ts)
    \<and> (ts \<noteq> [] \<longrightarrow> last_fail_ts (s_backends (fail_all i ts s) ! nat i) = last ts
        \<and> backoff_until (s_backends (fail_all i ts s) ! nat i) =
          (let n = backoff_secs (fail_count (s_backends s ! nat i) + int (length ts)) in if n > 0 then last ts + n else 0))"
  using assms(2-4)
proof (induction ts arbitrary: s)
  case Nil
  then show ?case by (simp add: fail_all_def)
next
  case (Cons t ts)
  have i: "nat i < length (s_backends s)" using assms(1) Cons.prems(1) by (auto simp: index_ok_def)
  let ?t = "llm_router_report_failure t i s" and ?b = "s_backends s ! nat i"
  have b: "fail_count (s_backends ?t ! nat i) = fail_count ?b + 1" "last_fail_ts (s_backends ?t ! nat i) = t"
    "backoff_until (s_backends ?t ! nat i) =
      (let n = backoff_secs (fail_count ?b + 1) in if n > 0 then t + n else 0)"
    using Cons.prems(2) i assms(1) by (simp_all add: llm_router_report_failure_def Let_def)
  have "length (s_backends ?t) = LLM_ROUTER_MAX_BACKENDS"
    using Cons.prems(1) assms(1) by (simp add: llm_router_report_failure_def)
  from Cons.IH [OF this] Cons.prems b show ?case
    by (cases "ts = []") (auto simp: fail_all_def algebra_simps Let_def)
qed

section \<open>Properties\<close>

text \<open>
  C26. Selection picks the best available backend: if some backend that is enabled,
  configured, out of backoff and below three failures (or recovered) has a score of at least
  0, the result is such a backend, no other scores higher and none before it scores as high.
  Otherwise the result is a backed-off backend with the shortest remaining backoff, and
  nothing when there is none.
\<close>

theorem router_select_best:
  "let bs = s_backends s; good = (\<lambda>b. eligible now b \<and> 0 \<le> score_of c p now b) in
   case fst (router_select_internal c p now s) of
     None \<Rightarrow> \<not> list_ex good bs \<and> (\<forall>b\<in>set bs. backed_off now b \<longrightarrow> backoff_until b = - 1)
   | Some i \<Rightarrow> i < length bs \<and>
       (if list_ex good bs
        then good (bs ! i) \<and> (\<forall>b\<in>set bs. eligible now b \<longrightarrow> score_of c p now b \<le> score_of c p now (bs ! i))
             \<and> (\<forall>k<i. eligible now (bs ! k) \<longrightarrow> score_of c p now (bs ! k) < score_of c p now (bs ! i))
        else backed_off now (bs ! i)
             \<and> (\<forall>b\<in>set bs. backed_off now b \<longrightarrow> backoff_until (bs ! i) \<le> backoff_until b))"
proof -
  let ?bs = "s_backends s" and ?v = "fst (select_loop c p now 0 (s_backends s) select_init)"
  have r: "fst (router_select_internal c p now s) = (case best_idx ?v of None \<Rightarrow> fallback_idx ?v | Some i \<Rightarrow> Some i)"
    by (simp add: router_select_internal_def case_prod_beta)
  have max: "b = - 1" if "- 1 \<le> b" for b :: u32 using that by (metis word_order.extremum_uniqueI)
  from select_loop_best [of c p now 0 ?bs select_init] show ?thesis
  proof (elim disjE exE conjE)
    assume a: "best_idx ?v = best_idx select_init"
      "\<forall>b\<in>set ?bs. eligible now b \<longrightarrow> score_of c p now b \<le> best_score select_init"
    then have none: "\<not> list_ex (\<lambda>b. eligible now b \<and> 0 \<le> score_of c p now b) ?bs"
      by (auto simp: select_init_def list_ex_iff)
    from select_loop_fallback [of c p now 0 ?bs select_init] a(1) none max show ?thesis
      by (auto simp: r select_init_def Let_def)
  next
    fix j
    assume a: "j < length ?bs" "best_idx ?v = Some (0 + j)" "eligible now (?bs ! j)"
      "best_score select_init < score_of c p now (?bs ! j)"
      "\<forall>b\<in>set ?bs. eligible now b \<longrightarrow> score_of c p now b \<le> score_of c p now (?bs ! j)"
      "\<forall>k<j. eligible now (?bs ! k) \<longrightarrow> score_of c p now (?bs ! k) < score_of c p now (?bs ! j)"
    then have "list_ex (\<lambda>b. eligible now b \<and> 0 \<le> score_of c p now b) ?bs"
      by (auto simp: select_init_def list_ex_iff intro!: bexI [of _ "?bs ! j"])
    with a show ?thesis by (auto simp: r select_init_def Let_def)
  qed
qed

definition two_backends :: router where
  "two_backends = router_boot\<lparr>s_backends :=
     [zero_backend\<lparr>host := ''a'', enabled := True, priority := 2\<rparr>,
      zero_backend\<lparr>host := ''b'', enabled := True, priority := 1\<rparr>, zero_backend, zero_backend]\<rparr>"

theorem router_select_best_witness:
  "fst (router_select_internal LLM_COMPLEXITY_SIMPLE LLM_ROUTE_AUTO 100 two_backends) = Some 1
   \<and> score_of LLM_COMPLEXITY_SIMPLE LLM_ROUTE_AUTO 100 (s_backends two_backends ! 0)
     \<le> score_of LLM_COMPLEXITY_SIMPLE LLM_ROUTE_AUTO 100 (s_backends two_backends ! 1)"
proof -
  have r: "fst (router_select_internal LLM_COMPLEXITY_SIMPLE LLM_ROUTE_AUTO 100 two_backends) = Some 1"
    "list_ex (\<lambda>b. eligible 100 b \<and> 0 \<le> score_of LLM_COMPLEXITY_SIMPLE LLM_ROUTE_AUTO 100 b) (s_backends two_backends)"
    "eligible 100 (s_backends two_backends ! 0)" "s_backends two_backends ! 0 \<in> set (s_backends two_backends)"
    by code_simp+
  with router_select_best [of two_backends 100 LLM_COMPLEXITY_SIMPLE LLM_ROUTE_AUTO] show ?thesis
    by (auto simp: Let_def)
qed

text \<open>
  The backoff schedule: after \<open>n\<close> failure reports that are at least five seconds apart,
  a backend that started without failures has failure count \<open>n\<close> and is in backoff for
  0, 0, 2, 4, 8, 16, 32 and then 60 seconds after the last of them.
\<close>

theorem failures_back_off:
  assumes "index_ok i" "length (s_backends s) = LLM_ROUTER_MAX_BACKENDS" "fail_count (s_backends s ! nat i) = 0"
    and "spaced (last_fail_ts (s_backends s ! nat i)) ts" "ts \<noteq> []"
  shows "case s_backends (fail_all i ts s) ! nat i of b \<Rightarrow>
    fail_count b = int (length ts) \<and> last_fail_ts b = last ts
    \<and> (if length ts < 2 then backoff_until b = 0
        else backoff_until b = last ts + of_nat (min 60 (2 ^ (length ts - 1))))"
proof -
  have "unat (backoff_secs (int (length ts))) = (if length ts < 2 then 0 else min 60 (2 ^ (length ts - 1)))"
    using backoff_secs_spec [of "length ts"] by (simp add: backoff_spec_def)
  then have b: "backoff_secs (int (length ts)) = (if length ts < 2 then 0 else of_nat (min 60 (2 ^ (length ts - 1))))"
    by (metis of_nat_unat ucast_id unat_eq_zero)
  have pos: "backoff_secs (int (length ts)) > 0" if "\<not> length ts < 2"
    using that backoff_secs_spec [of "length ts"] by (auto simp: backoff_spec_def word_less_nat_alt)
  show ?thesis
    using fail_all_count [OF assms(1,2,4)] assms(3,5) b pos by (auto simp: Let_def)
qed

theorem failures_back_off_witness:
  "case s_backends (fail_all 1 [100, 110, 120] two_backends) ! nat 1 of b \<Rightarrow>
     fail_count b = 3 \<and> backoff_until b = 124"
proof -
  have "index_ok 1" "length (s_backends two_backends) = LLM_ROUTER_MAX_BACKENDS"
    "fail_count (s_backends two_backends ! nat 1) = 0"
    "spaced (last_fail_ts (s_backends two_backends ! nat 1)) [100, 110, 120]" by code_simp+
  from failures_back_off [OF this] show ?thesis by simp
qed

text \<open>
  A healthy backend with priority 11 or more is never selected on its own: its score is
  negative, the best score starts at -1, and the selection reports that no backend is
  available although one is enabled, configured and has no failures.
\<close>

theorem low_priority_backend_unreachable:
  assumes "s_backends s = [b, zero_backend, zero_backend, zero_backend]"
    and "usable b" "fail_count b = 0" "backoff_until b = 0" "avg_latency_ms b = 0"
    and "11 \<le> priority b" "cost_tier b = 3"
  shows "fst (router_select_internal LLM_COMPLEXITY_SIMPLE LLM_ROUTE_AUTO now s) = None"
  using assms
  by (simp add: router_select_internal_def select_step_cases backed_off_def eligible_def score_of_def recovered_def
      backend_score_def Let_def select_init_def usable_def zero_backend_def)

text \<open>
  The only backend with three failures is used while it is in backoff, as the fallback,
  but not after the backoff has ended: from then until five minutes after the last failure
  the selection reports that no backend is available.
\<close>

theorem sole_backend_lost_after_backoff:
  assumes "s_backends s = [b, zero_backend, zero_backend, zero_backend]"
    and "usable b" "3 \<le> fail_count b"
  shows "(if now < backoff_until b \<and> backoff_until b < - 1
          then fst (router_select_internal c p now s) = Some 0
          else if \<not> now < backoff_until b \<and> now - last_fail_ts b < 300
          then fst (router_select_internal c p now s) = None else True)"
  using assms
  by (auto simp: router_select_internal_def select_step_cases backed_off_def eligible_def recovered_def Let_def
      select_init_def usable_def zero_backend_def not_le split: if_splits)

end
