(* ===== verification/Json_Lib.thy ===== *)
theory Json_Lib
  imports Prelude
begin

text \<open>
  The JSON library (cJSON) as the agent's clients use it. The library is not part of the
  repository: it is the record \<open>json_lib\<close> of functions over an abstract type of values. An accessor
  yields \<open>None\<close> where the C code finds no item or an item of another type; constructors take all
  members or elements at once, in the order in which the C code adds them.
\<close>

record 'j json_lib =
  jl_parse :: "string \<Rightarrow> 'j option"
  jl_print :: "'j \<Rightarrow> string option"
  jl_get :: "'j \<Rightarrow> string \<Rightarrow> 'j option"
  jl_string :: "'j \<Rightarrow> string option"
  jl_number :: "'j \<Rightarrow> int option"
  jl_true :: "'j \<Rightarrow> bool"
  jl_array :: "'j \<Rightarrow> 'j list option"
  jl_is_object :: "'j \<Rightarrow> bool"
  jl_null :: 'j
  jl_str :: "string \<Rightarrow> 'j"
  jl_num :: "int \<Rightarrow> 'j"
  jl_bool :: "bool \<Rightarrow> 'j"
  jl_arr :: "'j list \<Rightarrow> 'j"
  jl_obj :: "(string \<times> 'j) list \<Rightarrow> 'j"

text \<open>Members read as strings, numbers and arrays.\<close>

definition get_string :: "'j json_lib \<Rightarrow> 'j \<Rightarrow> string \<Rightarrow> string option" where
  "get_string lib j k = Option.bind (jl_get lib j k) (jl_string lib)"

definition get_number :: "'j json_lib \<Rightarrow> 'j \<Rightarrow> string \<Rightarrow> int option" where
  "get_number lib j k = Option.bind (jl_get lib j k) (jl_number lib)"

definition get_array :: "'j json_lib \<Rightarrow> 'j \<Rightarrow> string \<Rightarrow> 'j list option" where
  "get_array lib j k = Option.bind (jl_get lib j k) (jl_array lib)"

text \<open>
  What the library promises of the values it makes: members are found by name (without regard to
  case, so the law is about names without upper-case letters), and a value is read back as it was
  made; numbers are doubles.
\<close>

definition no_upper :: "string \<Rightarrow> bool" where
  "no_upper k = list_all (\<lambda>c. \<not> (65 \<le> (of_char c :: nat) \<and> of_char c \<le> (90 :: nat))) k"

definition json_laws :: "'j json_lib \<Rightarrow> bool" where
  "json_laws lib \<longleftrightarrow>
     (\<forall>ms k. distinct (map fst ms) \<and> list_all no_upper (k # map fst ms) \<longrightarrow> jl_get lib (jl_obj lib ms) k = map_of ms k)
     \<and> (\<forall>v. jl_string lib (jl_str lib v) = Some v)
     \<and> (\<forall>v. abs v \<le> 2 ^ 53 \<longrightarrow> jl_number lib (jl_num lib v) = Some v)
     \<and> (\<forall>v. jl_true lib (jl_bool lib v) = v)
     \<and> (\<forall>v. jl_array lib (jl_arr lib v) = Some v)"

section \<open>A concrete library\<close>

text \<open>A small instance, on which the hypotheses of theorems about clients are shown to hold.\<close>

datatype json = JNull | JBool bool | JNum int | JStr string | JArr "json list" | JObj "(string \<times> json) list"

fun json_string :: "json \<Rightarrow> string option" where
  "json_string (JStr s) = Some s"
| "json_string _ = None"

fun json_number :: "json \<Rightarrow> int option" where
  "json_number (JNum n) = Some n"
| "json_number _ = None"

fun json_array :: "json \<Rightarrow> json list option" where
  "json_array (JArr xs) = Some xs"
| "json_array _ = None"

fun json_get :: "json \<Rightarrow> string \<Rightarrow> json option" where
  "json_get (JObj ms) k = map_of ms k"
| "json_get _ k = None"

definition sample_lib :: "(string \<Rightarrow> json option) \<Rightarrow> (json \<Rightarrow> string option) \<Rightarrow> json json_lib" where
  "sample_lib parse prnt = \<lparr>jl_parse = parse, jl_print = prnt, jl_get = json_get, jl_string = json_string,
     jl_number = json_number, jl_true = (\<lambda>j. j = JBool True), jl_array = json_array,
     jl_is_object = (\<lambda>j. case j of JObj _ \<Rightarrow> True | _ \<Rightarrow> False),
     jl_null = JNull, jl_str = JStr, jl_num = JNum, jl_bool = JBool, jl_arr = JArr, jl_obj = JObj\<rparr>"

lemma sample_lib_simps [simp]:
  "jl_parse (sample_lib p q) = p" "jl_print (sample_lib p q) = q" "jl_get (sample_lib p q) = json_get"
  "jl_string (sample_lib p q) = json_string" "jl_number (sample_lib p q) = json_number"
  "jl_array (sample_lib p q) = json_array" "jl_str (sample_lib p q) = JStr" "jl_num (sample_lib p q) = JNum"
  "jl_arr (sample_lib p q) = JArr" "jl_obj (sample_lib p q) = JObj" "jl_true (sample_lib p q) = (\<lambda>j. j = JBool True)"
  "jl_bool (sample_lib p q) = JBool" "jl_null (sample_lib p q) = JNull"
  by (simp_all add: sample_lib_def)

lemma sample_lib_laws: "json_laws (sample_lib p q)"
  by (simp add: json_laws_def)

end
