(* ===== verification/Cron.thy ===== *)
theory Cron
  imports Prelude Json_Lib
begin

text \<open>
  The job scheduler of the agent (\<^verbatim>\<open>services/ai_agent/src/infra/cron_service.c\<close>): up to
  16 recurring and one-shot jobs, a task that fires the due ones, and the operations the
  tools call.

  The live prefix of the job array is a list. Times are epoch seconds on \<open>int\<close>. A job fires
  a tool through \<^verbatim>\<open>tool_registry_execute\<close> (\<open>exec job\<close> is the registry's answer to the action of
  \<open>job\<close>) and hands a message to the outbound bus, which may still refuse it; both are recorded
  as effects in order. \<open>mem job\<close> is whether \<^verbatim>\<open>strdup\<close> of the job's message succeeds.

  The job file is its text, written and read with the JSON library \<open>lib\<close>. Writing opens the
  file with mode \<open>w\<close>, which empties it, and then writes the text: \<open>io\<close> is \<open>None\<close> where the file
  cannot be opened, and else the number of bytes the file system accepts. An interval is cast
  to 32 bits as unsigned; a negative number, whose cast C leaves undefined, is reduced here.

  The registry runs the tool in the calling task while the scheduler holds its lock, so a
  job whose action is one of the three cron tools, which take the same lock, blocks the task
  for ever: \<open>None\<close>.
\<close>

section \<open>State\<close>

definition MAX_CRON_JOBS :: nat where [c_consts]: "MAX_CRON_JOBS = 16"

datatype cron_kind = CRON_KIND_EVERY | CRON_KIND_AT

record cron_job =
  job_id :: string
  job_name :: string
  job_enabled :: bool
  job_kind :: cron_kind
  interval_s :: u32
  at_epoch :: int
  job_message :: string
  job_channel :: string
  job_chat_id :: string
  last_run :: int
  next_run :: int
  delete_after_run :: bool
  job_action :: string
  action_args :: string

record cron =
  s_jobs :: "cron_job list"
  s_cron_running :: bool
  cron_file :: "string option"

section \<open>Helpers\<close>

definition cron_sanitize_destination :: "cron_job \<Rightarrow> bool \<times> cron_job" where
  "cron_sanitize_destination job =
     (let (ch1, j1) = (if job_channel job = [] then (True, job\<lparr>job_channel := ''system''\<rparr>) else (False, job))
      in if job_channel j1 = ''feishu''
         then (if job_chat_id j1 = [] \<or> job_chat_id j1 = ''cron''
               then (True, j1\<lparr>job_channel := ''system'', job_chat_id := ''cron''\<rparr>) else (ch1, j1))
         else if job_chat_id j1 = [] then (True, j1\<lparr>job_chat_id := ''cron''\<rparr>) else (ch1, j1))"

definition hex_digit :: "nat \<Rightarrow> char" where
  "hex_digit n = ''0123456789abcdef'' ! n"

text \<open>\<^verbatim>\<open>snprintf(id_buf, 9, "%08x", r)\<close>\<close>

definition cron_generate_id :: "u32 \<Rightarrow> string" where
  "cron_generate_id r = map (\<lambda>k. hex_digit (unat (and (drop_bit (4 * k) r) 15))) [7, 6, 5, 4, 3, 2, 1, 0]"

definition compute_initial_next_run :: "int \<Rightarrow> cron_job \<Rightarrow> cron_job" where
  "compute_initial_next_run now job =
     (case job_kind job of
        CRON_KIND_EVERY \<Rightarrow> job\<lparr>next_run := now + uint (interval_s job)\<rparr>
      | CRON_KIND_AT \<Rightarrow>
          if at_epoch job > now then job\<lparr>next_run := at_epoch job\<rparr>
          else job\<lparr>next_run := 0, job_enabled := False\<rparr>)"

section \<open>The job file\<close>

definition job_members :: "'j json_lib \<Rightarrow> cron_job \<Rightarrow> (string \<times> 'j) list" where
  "job_members lib job =
     [(''id'', jl_str lib (job_id job)), (''name'', jl_str lib (job_name job)),
      (''enabled'', jl_bool lib (job_enabled job)),
      (''kind'', jl_str lib (if job_kind job = CRON_KIND_EVERY then ''every'' else ''at'')),
      (if job_kind job = CRON_KIND_EVERY then (''interval_s'', jl_num lib (uint (interval_s job)))
       else (''at_epoch'', jl_num lib (at_epoch job))),
      (''message'', jl_str lib (job_message job)), (''channel'', jl_str lib (job_channel job)),
      (''chat_id'', jl_str lib (job_chat_id job)), (''last_run'', jl_num lib (last_run job)),
      (''next_run'', jl_num lib (next_run job)), (''delete_after_run'', jl_bool lib (delete_after_run job))]
     @ (if job_action job \<noteq> []
        then [(''action'', jl_str lib (job_action job)), (''action_args'', jl_str lib (action_args job))] else [])"

definition job_item :: "'j json_lib \<Rightarrow> cron_job \<Rightarrow> 'j" where
  "job_item lib job = jl_obj lib (job_members lib job)"

definition jobs_root :: "'j json_lib \<Rightarrow> cron_job list \<Rightarrow> 'j" where
  "jobs_root lib jobs = jl_obj lib [(''jobs'', jl_arr lib (map (job_item lib) jobs))]"

definition cron_save_jobs :: "'j json_lib \<Rightarrow> nat option \<Rightarrow> cron \<Rightarrow> int \<times> cron" where
  "cron_save_jobs lib io s =
     (case jl_print lib (jobs_root lib (s_jobs s)) of
        None \<Rightarrow> (ERROR, s)
      | Some json_str \<Rightarrow>
          (case io of
             None \<Rightarrow> (ERROR, s)
           | Some n \<Rightarrow>
               let written = take n json_str in
               (if length written \<noteq> length json_str then ERROR else OK, s\<lparr>cron_file := Some written\<rparr>)))"

text \<open>A member of the object as a string cut to a field of \<open>n\<close> bytes, or as a number; the defaults of the code.\<close>

definition field_str :: "'j json_lib \<Rightarrow> 'j \<Rightarrow> string \<Rightarrow> nat \<Rightarrow> string \<Rightarrow> string" where
  "field_str lib item k n dflt = take (n - 1) (case get_string lib item k of Some v \<Rightarrow> v | None \<Rightarrow> dflt)"

definition field_num :: "'j json_lib \<Rightarrow> 'j \<Rightarrow> string \<Rightarrow> int" where
  "field_num lib item k = (case get_number lib item k of Some v \<Rightarrow> v | None \<Rightarrow> 0)"

definition field_bool :: "'j json_lib \<Rightarrow> 'j \<Rightarrow> string \<Rightarrow> bool \<Rightarrow> bool" where
  "field_bool lib item k dflt = (case jl_get lib item k of Some j \<Rightarrow> jl_true lib j | None \<Rightarrow> dflt)"

definition cron_parse_job_item :: "'j json_lib \<Rightarrow> 'j \<Rightarrow> cron_job option" where
  "cron_parse_job_item lib item =
     (case (get_string lib item ''id'', get_string lib item ''name'', get_string lib item ''kind'',
            get_string lib item ''message'') of
        (Some jid, Some nm, Some kind_str, Some msg) \<Rightarrow>
          let job = \<lparr>job_id = take 8 jid, job_name = take 31 nm,
                job_enabled = field_bool lib item ''enabled'' True, job_kind = CRON_KIND_EVERY, interval_s = 0,
                at_epoch = 0, job_message = take 255 msg, job_channel = field_str lib item ''channel'' 16 ''system'',
                job_chat_id = field_str lib item ''chat_id'' 64 ''cron'', last_run = field_num lib item ''last_run'',
                next_run = field_num lib item ''next_run'',
                delete_after_run = field_bool lib item ''delete_after_run'' False,
                job_action = field_str lib item ''action'' 32 [],
                action_args = field_str lib item ''action_args'' 256 []\<rparr>
          in if kind_str = ''every''
             then Some (job\<lparr>job_kind := CRON_KIND_EVERY, interval_s := word_of_int (field_num lib item ''interval_s'')\<rparr>)
             else if kind_str = ''at''
             then Some (job\<lparr>job_kind := CRON_KIND_AT, at_epoch := field_num lib item ''at_epoch''\<rparr>)
             else None
      | _ \<Rightarrow> None)"

text \<open>The loop over the items of the file: the jobs kept, each with whether its address was repaired.\<close>

fun load_items :: "'j json_lib \<Rightarrow> nat \<Rightarrow> 'j list \<Rightarrow> (bool \<times> cron_job) list" where
  "load_items lib count [] = []"
| "load_items lib count (item # items) =
     (if count \<ge> MAX_CRON_JOBS then []
      else case cron_parse_job_item lib item of
             None \<Rightarrow> load_items lib count items
           | Some job \<Rightarrow> cron_sanitize_destination job # load_items lib (count + 1) items)"

definition AGENT_CRON_FILE_MAX_SIZE :: nat where [c_consts]: "AGENT_CRON_FILE_MAX_SIZE = 8 * 1024"

text \<open>\<open>buf_ok\<close>: the buffer for the text could be allocated.\<close>

definition cron_load_jobs :: "'j json_lib \<Rightarrow> bool \<Rightarrow> nat option \<Rightarrow> cron \<Rightarrow> int \<times> cron" where
  "cron_load_jobs lib buf_ok io s =
     (case cron_file s of
        None \<Rightarrow> (OK, s\<lparr>s_jobs := []\<rparr>)
      | Some txt \<Rightarrow>
          if length txt = 0 \<or> length txt > AGENT_CRON_FILE_MAX_SIZE then (OK, s\<lparr>s_jobs := []\<rparr>)
          else if \<not> buf_ok then (ERROR, s)
          else (case jl_parse lib txt of
                  None \<Rightarrow> (OK, s\<lparr>s_jobs := []\<rparr>)
                | Some root \<Rightarrow>
                    (case get_array lib root ''jobs'' of
                       None \<Rightarrow> (OK, s\<lparr>s_jobs := []\<rparr>)
                     | Some items \<Rightarrow>
                         let rs = load_items lib 0 items;
                             s1 = s\<lparr>s_jobs := map snd rs\<rparr>
                         in (OK, if list_ex fst rs then snd (cron_save_jobs lib io s1) else s1))))"

definition cron_service_init :: "'j json_lib \<Rightarrow> bool \<Rightarrow> nat option \<Rightarrow> cron \<Rightarrow> int \<times> cron" where
  "cron_service_init lib buf_ok io s = cron_load_jobs lib buf_ok io s"

section \<open>Firing\<close>

datatype cron_effect = Run_tool string string | Push_outbound string string string

definition cron_tool :: "string \<Rightarrow> bool" where
  "cron_tool name \<longleftrightarrow> name \<in> set [''cron_add'', ''cron_list'', ''cron_remove'']"

definition cron_fire_job ::
  "(cron_job \<Rightarrow> int) \<Rightarrow> (cron_job \<Rightarrow> bool) \<Rightarrow> int \<Rightarrow> cron_job \<Rightarrow> (cron_effect list \<times> cron_job) option"
where
  "cron_fire_job exec mem now job =
     (let push = (if mem job then [Push_outbound (job_channel job) (job_chat_id job) (job_message job)] else []);
          done_job = job\<lparr>last_run := now\<rparr>
      in if job_action job \<noteq> []
         then (if cron_tool (job_action job) then None
               else let err = exec job in
                    Some (Run_tool (job_action job) (action_args job) #
                            (if err \<noteq> OK \<and> job_channel job = ''voice'' then []
                             else if job_channel job \<noteq> [] then push else []), done_job))
         else Some (push, done_job))"

definition due :: "int \<Rightarrow> cron_job \<Rightarrow> bool" where
  "due now job \<longleftrightarrow> \<not> (\<not> job_enabled job \<or> next_run job \<le> 0 \<or> next_run job > now)"

text \<open>The loop over the job array: index \<open>i\<close>, whether anything changed, the effects so far.\<close>

function due_loop ::
  "(cron_job \<Rightarrow> int) \<Rightarrow> (cron_job \<Rightarrow> bool) \<Rightarrow> int \<Rightarrow> nat \<Rightarrow> cron_job list \<Rightarrow> (bool \<times> cron_effect list \<times> cron_job list) option"
where
  "due_loop exec mem now i jobs =
     (if i < length jobs
      then if \<not> due now (jobs ! i) then due_loop exec mem now (i + 1) jobs
           else (case cron_fire_job exec mem now (jobs ! i) of
                   None \<Rightarrow> None
                 | Some (es, job) \<Rightarrow>
                     map_option (\<lambda>(_, es', js). (True, es @ es', js))
                       (if job_kind job = CRON_KIND_AT
                        then if delete_after_run job then due_loop exec mem now i (remove_at i jobs)
                             else due_loop exec mem now (i + 1)
                                    (jobs[i := job\<lparr>job_enabled := False, next_run := 0\<rparr>])
                        else due_loop exec mem now (i + 1)
                               (jobs[i := job\<lparr>next_run := now + uint (interval_s job)\<rparr>])))
      else Some (False, [], jobs))"
  by pat_completeness auto
termination
  by (relation "measure (\<lambda>(exec, mem, now, i, jobs). length jobs - i)") (auto simp: length_remove_at)

declare due_loop.simps [simp del]

definition cron_process_due_jobs ::
  "'j json_lib \<Rightarrow> (cron_job \<Rightarrow> int) \<Rightarrow> (cron_job \<Rightarrow> bool) \<Rightarrow> nat option \<Rightarrow> int \<Rightarrow> cron \<Rightarrow> (cron_effect list \<times> cron) option"
where
  "cron_process_due_jobs lib exec mem io now s =
     (case due_loop exec mem now 0 (s_jobs s) of
        None \<Rightarrow> None
      | Some (changed, es, jobs) \<Rightarrow>
          let s1 = s\<lparr>s_jobs := jobs\<rparr> in Some (es, if changed then snd (cron_save_jobs lib io s1) else s1))"

section \<open>Operations\<close>

definition start_job :: "int \<Rightarrow> cron_job \<Rightarrow> bool \<times> cron_job" where
  "start_job now job =
     (if \<not> job_enabled job then (False, job)
      else if next_run job > 0 \<and> next_run job \<le> now then (True, job\<lparr>job_enabled := False, next_run := 0\<rparr>)
      else if next_run job \<le> 0
      then (if job_kind job = CRON_KIND_EVERY then (False, job\<lparr>next_run := now + uint (interval_s job)\<rparr>)
            else if job_kind job = CRON_KIND_AT \<and> at_epoch job > now then (False, job\<lparr>next_run := at_epoch job\<rparr>)
            else (False, job))
      else (False, job))"

text \<open>\<open>task_ok\<close>: the scheduler task could be created.\<close>

definition cron_service_start :: "'j json_lib \<Rightarrow> nat option \<Rightarrow> bool \<Rightarrow> int \<Rightarrow> cron \<Rightarrow> int \<times> cron" where
  "cron_service_start lib io task_ok now s =
     (if s_cron_running s then (OK, s)
      else let rs = map (start_job now) (s_jobs s);
               s1 = s\<lparr>s_jobs := map snd rs\<rparr>;
               s2 = (if list_ex fst rs then snd (cron_save_jobs lib io s1) else s1)\<lparr>s_cron_running := True\<rparr>
           in if task_ok then (OK, s2) else (ERROR, s2\<lparr>s_cron_running := False\<rparr>))"

definition cron_service_stop :: "cron \<Rightarrow> cron" where
  "cron_service_stop s = (if s_cron_running s then s\<lparr>s_cron_running := False\<rparr> else s)"

definition cron_add_job :: "'j json_lib \<Rightarrow> nat option \<Rightarrow> u32 \<Rightarrow> int \<Rightarrow> cron_job \<Rightarrow> cron \<Rightarrow> int \<times> cron_job \<times> cron" where
  "cron_add_job lib io r now job s =
     (if length (s_jobs s) \<ge> MAX_CRON_JOBS then (ERROR, job, s)
      else let j1 = snd (cron_sanitize_destination (job\<lparr>job_id := cron_generate_id r\<rparr>));
               j2 = compute_initial_next_run now (j1\<lparr>job_enabled := True, last_run := 0\<rparr>);
               s1 = s\<lparr>s_jobs := s_jobs s @ [j2]\<rparr>
           in (OK, j2, snd (cron_save_jobs lib io s1)))"

definition cron_remove_job :: "'j json_lib \<Rightarrow> nat option \<Rightarrow> string \<Rightarrow> cron \<Rightarrow> int \<times> cron" where
  "cron_remove_job lib io jid s =
     (case first_idx (\<lambda>j. job_id j = jid) (s_jobs s) of
        Some i \<Rightarrow> (OK, snd (cron_save_jobs lib io (s\<lparr>s_jobs := remove_at i (s_jobs s)\<rparr>)))
      | None \<Rightarrow> (ERROR, s))"

definition cron_list_jobs :: "nat \<Rightarrow> cron \<Rightarrow> int \<times> cron_job list" where
  "cron_list_jobs max_count s =
     (let count = (if length (s_jobs s) < max_count then length (s_jobs s) else max_count)
      in (int count, take count (s_jobs s)))"

section \<open>The tick as a map over the jobs\<close>

text \<open>What one tick makes of a job: nothing, or the job with its new schedule.\<close>

definition after_tick :: "int \<Rightarrow> cron_job \<Rightarrow> cron_job list" where
  "after_tick now job =
     (if \<not> due now job then [job]
      else if job_kind job = CRON_KIND_AT
      then if delete_after_run job then [] else [job\<lparr>last_run := now, job_enabled := False, next_run := 0\<rparr>]
      else [job\<lparr>last_run := now, next_run := now + uint (interval_s job)\<rparr>])"

definition effects_of :: "(cron_job \<Rightarrow> int) \<Rightarrow> (cron_job \<Rightarrow> bool) \<Rightarrow> int \<Rightarrow> cron_job \<Rightarrow> cron_effect list" where
  "effects_of exec mem now job =
     (if due now job
      then (if job_action job \<noteq> [] then [Run_tool (job_action job) (action_args job)] else [])
         @ (if mem job \<and> (job_action job \<noteq> [] \<longrightarrow>
                 job_channel job \<noteq> [] \<and> \<not> (job_channel job = ''voice'' \<and> exec job \<noteq> OK))
            then [Push_outbound (job_channel job) (job_chat_id job) (job_message job)] else [])
      else [])"

text \<open>The file after a save of the given jobs: untouched, or the part of their text that was accepted.\<close>

definition saved_file :: "'j json_lib \<Rightarrow> nat option \<Rightarrow> cron_job list \<Rightarrow> string option \<Rightarrow> string option" where
  "saved_file lib io jobs old =
     (case (jl_print lib (jobs_root lib jobs), io) of (Some txt, Some n) \<Rightarrow> Some (take n txt) | _ \<Rightarrow> old)"

lemma cron_save_jobs_file:
  "snd (cron_save_jobs lib io s) = s\<lparr>cron_file := saved_file lib io (s_jobs s) (cron_file s)\<rparr>"
  by (simp add: cron_save_jobs_def saved_file_def Let_def split: option.splits)

lemma cron_save_jobs_jobs [simp]: "s_jobs (snd (cron_save_jobs lib io s)) = s_jobs s"
  by (simp add: cron_save_jobs_file)

lemma fire_Some:
  assumes "\<not> cron_tool (job_action job)" "due now job"
  shows "cron_fire_job exec mem now job = Some (effects_of exec mem now job, job\<lparr>last_run := now\<rparr>)"
  using assms by (auto simp: cron_fire_job_def effects_of_def Let_def)

lemma due_loop_map:
  assumes "list_all (\<lambda>j. due now j \<longrightarrow> \<not> cron_tool (job_action j)) rest"
  shows "due_loop exec mem now (length done) (done @ rest) =
    Some (list_ex (due now) rest, concat (map (effects_of exec mem now) rest),
          done @ concat (map (after_tick now) rest))"
  using assms
proof (induction rest arbitrary: "done")
  case Nil
  then show ?case by (simp add: due_loop.simps)
next
  case (Cons j rest)
  note nth = nth_append_length [of "done" j rest]
  show ?case
  proof (cases "due now j")
    case False
    then show ?thesis
      using Cons.IH [of "done @ [j]"] Cons.prems nth
      by (subst due_loop.simps) (simp add: effects_of_def [of _ _ _ j] after_tick_def [of _ j])
  next
    case True
    then have f: "cron_fire_job exec mem now j = Some (effects_of exec mem now j, j\<lparr>last_run := now\<rparr>)"
      using fire_Some [of j now exec mem] Cons.prems by auto
    have rm: "remove_at (length done) (done @ j # rest) = done @ rest" by (rule remove_at_split)
    show ?thesis
      using True f rm nth Cons.prems Cons.IH [of "done"]
        Cons.IH [of "done @ [j\<lparr>last_run := now, job_enabled := False, next_run := 0\<rparr>]"]
        Cons.IH [of "done @ [j\<lparr>last_run := now, next_run := now + uint (interval_s j)\<rparr>]"]
      by (subst due_loop.simps) (auto simp: after_tick_def [of _ j] list_update_append)
  qed
qed

section \<open>Identifiers\<close>

lemma length_cron_generate_id: "length (cron_generate_id r) = 8"
  by (simp add: cron_generate_id_def)

lemma sanitize_id [simp]: "job_id (snd (cron_sanitize_destination j)) = job_id j"
  by (simp add: cron_sanitize_destination_def Let_def)

lemma initial_id [simp]: "job_id (compute_initial_next_run now j) = job_id j"
  by (simp add: compute_initial_next_run_def split: cron_kind.splits)

lemma sanitize_dest:
  "job_channel (snd (cron_sanitize_destination j)) \<noteq> [] \<and> job_chat_id (snd (cron_sanitize_destination j)) \<noteq> []
   \<and> \<not> (job_channel (snd (cron_sanitize_destination j)) = ''feishu''
         \<and> job_chat_id (snd (cron_sanitize_destination j)) = ''cron'')"
  by (auto simp: cron_sanitize_destination_def Let_def)

lemma initial_dest [simp]:
  "job_channel (compute_initial_next_run now j) = job_channel j"
  "job_chat_id (compute_initial_next_run now j) = job_chat_id j"
  by (simp_all add: compute_initial_next_run_def split: cron_kind.splits)

section \<open>Properties\<close>

text \<open>
  C11. One tick of the scheduler: unless a due job's action is a cron tool, the tick returns;
  exactly the due jobs fire, once each and in array order, whatever one-shot jobs are deleted
  on the way; every other job is untouched, recurring jobs are rescheduled one interval from
  now, one-shot jobs are deleted or disabled. A job that fires runs its tool, if it has one,
  and then pushes its message to its address, unless there is no memory for the message, no
  channel, or the tool of a voice job failed. The job file is rewritten if and only if a job
  fired: where the text can be made and the file opened, it is then the text of the new table
  as far as the file system accepts it, whatever it held before; else it keeps its old text.
\<close>

theorem cron_tick:
  assumes "list_all (\<lambda>j. due now j \<longrightarrow> \<not> cron_tool (job_action j)) (s_jobs s)"
  shows "case cron_process_due_jobs lib exec mem io now s of
    None \<Rightarrow> False
  | Some (es, t) \<Rightarrow> es = concat (map (effects_of exec mem now) (s_jobs s))
      \<and> s_jobs t = concat (map (after_tick now) (s_jobs s))
      \<and> s_cron_running t = s_cron_running s
      \<and> cron_file t =
          (if list_ex (due now) (s_jobs s)
           then (case (jl_print lib (jobs_root lib (s_jobs t)), io) of
                   (Some txt, Some n) \<Rightarrow> Some (take n txt)
                 | _ \<Rightarrow> cron_file s)
           else cron_file s)"
  using due_loop_map [OF assms, of exec mem "[]"]
  by (simp add: cron_process_due_jobs_def cron_save_jobs_file saved_file_def Let_def)

definition one_shot :: "string \<Rightarrow> int \<Rightarrow> cron_job" where
  "one_shot n t = \<lparr>job_id = n, job_name = n, job_enabled = True, job_kind = CRON_KIND_AT, interval_s = 0,
     at_epoch = t, job_message = n, job_channel = ''cli'', job_chat_id = ''c'', last_run = 0, next_run = t,
     delete_after_run = True, job_action = [], action_args = []\<rparr>"

definition cron_sample :: cron where
  "cron_sample = \<lparr>s_jobs = [one_shot ''a'' 90, one_shot ''b'' 95, one_shot ''c'' 200], s_cron_running = True,
     cron_file = Some ''old''\<rparr>"

definition count_lib :: "json json_lib" where
  "count_lib = sample_lib (\<lambda>_. None) (\<lambda>j. case json_get j ''jobs'' of Some (JArr xs) \<Rightarrow> Some (replicate (length xs) CHR ''#'' @ ''!'') | _ \<Rightarrow> None)"

text \<open>Two of three one-shot jobs are due; the file system takes one byte of the new text.\<close>

theorem cron_tick_witness:
  "list_all (\<lambda>j. due 100 j \<longrightarrow> \<not> cron_tool (job_action j)) (s_jobs cron_sample)
   \<and> (case cron_process_due_jobs count_lib (\<lambda>_. 0) (\<lambda>_. True) (Some 1) 100 cron_sample of
       None \<Rightarrow> False
     | Some (es, t) \<Rightarrow> es = [Push_outbound ''cli'' ''c'' ''a'', Push_outbound ''cli'' ''c'' ''b'']
         \<and> s_jobs t = [one_shot ''c'' 200] \<and> cron_file t = Some ''#'')"
proof -
  have h: "list_all (\<lambda>j. due 100 j \<longrightarrow> \<not> cron_tool (job_action j)) (s_jobs cron_sample)"
    by (simp add: cron_sample_def one_shot_def cron_tool_def)
  show ?thesis
    using h cron_tick [OF h, where lib = count_lib and exec = "\<lambda>_. 0" and mem = "\<lambda>_. True" and io = "Some 1"]
    by (auto simp: effects_of_def after_tick_def due_def one_shot_def cron_sample_def jobs_root_def count_lib_def
        split: option.splits)
qed

text \<open>
  Adding and removing jobs: an add to a table with room appends the job with an
  eight-digit id, an address that is never empty nor the invalid \<open>feishu:cron\<close>, and leaves
  the other jobs alone; if the id is new, removing it gives the previous table back; a full
  table is left unchanged and the add reports an error.
\<close>

theorem cron_add_remove:
  "case cron_add_job lib io r now job s of (ret, j, t) \<Rightarrow>
    (if length (s_jobs s) < MAX_CRON_JOBS
     then ret = OK \<and> s_jobs t = s_jobs s @ [j] \<and> length (job_id j) = 8
       \<and> job_channel j \<noteq> [] \<and> job_chat_id j \<noteq> []
       \<and> \<not> (job_channel j = ''feishu'' \<and> job_chat_id j = ''cron'')
       \<and> (if cron_generate_id r \<notin> job_id ` set (s_jobs s)
           then s_jobs (snd (cron_remove_job lib io (job_id j) t)) = s_jobs s else True)
     else ret = ERROR \<and> t = s)"
proof (cases "length (s_jobs s) < MAX_CRON_JOBS")
  case False
  then show ?thesis by (simp add: cron_add_job_def)
next
  case True
  define j where "j = compute_initial_next_run now ((snd (cron_sanitize_destination (job\<lparr>job_id := cron_generate_id r\<rparr>)))
    \<lparr>job_enabled := True, last_run := 0\<rparr>)"
  let ?t = "snd (cron_save_jobs lib io (s\<lparr>s_jobs := s_jobs s @ [j]\<rparr>))"
  have add: "cron_add_job lib io r now job s = (OK, j, ?t)"
    using True by (simp add: cron_add_job_def Let_def j_def not_le)
  have jobs: "s_jobs ?t = s_jobs s @ [j]" by simp
  have id: "job_id j = cron_generate_id r" by (simp add: j_def)
  have rm: "s_jobs (snd (cron_remove_job lib io (job_id j) ?t)) = s_jobs s"
    if "cron_generate_id r \<notin> job_id ` set (s_jobs s)"
  proof -
    have "first_idx (\<lambda>x. job_id x = cron_generate_id r) (s_jobs s @ [j]) = Some (length (s_jobs s))"
      using that id by (auto simp: first_idx_Some nth_append image_iff) (metis nth_mem)
    then show ?thesis
      using remove_at_split [of "s_jobs s" j "[]"] by (simp add: cron_remove_job_def jobs id)
  qed
  show ?thesis
    using True rm jobs id length_cron_generate_id sanitize_dest [of "job\<lparr>job_id := cron_generate_id r\<rparr>"]
    by (auto simp: add j_def)
qed

text \<open>
  A due job whose action is one of the cron tools blocks the scheduler task for ever, with
  the lock held.
\<close>

theorem cron_tool_action_deadlocks:
  assumes "s_jobs s = j # js" "due now j" "cron_tool (job_action j)"
  shows "cron_process_due_jobs lib exec mem io now s = None"
proof -
  have "job_action j \<noteq> []" using assms(3) by (auto simp: cron_tool_def)
  then have "cron_fire_job exec mem now j = None" using assms(3) by (simp add: cron_fire_job_def Let_def)
  then show ?thesis
    using assms(1,2) by (simp add: cron_process_due_jobs_def due_loop.simps [of _ _ _ 0])
qed

section \<open>The job file across a restart\<close>

text \<open>A job as the service makes it: its strings fit their fields, the schedule of the other kind is unset,
  it has an address, and its times are numbers a double holds exactly.\<close>

definition job_ok :: "cron_job \<Rightarrow> bool" where
  "job_ok j \<longleftrightarrow> length (job_id j) < 9 \<and> length (job_name j) < 32 \<and> length (job_message j) < 256
     \<and> length (job_channel j) < 16 \<and> length (job_chat_id j) < 64 \<and> length (job_action j) < 32
     \<and> length (action_args j) < 256 \<and> (job_action j = [] \<longrightarrow> action_args j = [])
     \<and> (job_kind j = CRON_KIND_EVERY \<longrightarrow> at_epoch j = 0) \<and> (job_kind j = CRON_KIND_AT \<longrightarrow> interval_s j = 0)
     \<and> abs (at_epoch j) \<le> 2 ^ 53 \<and> abs (last_run j) \<le> 2 ^ 53 \<and> abs (next_run j) \<le> 2 ^ 53
     \<and> job_channel j \<noteq> [] \<and> job_chat_id j \<noteq> [] \<and> \<not> (job_channel j = ''feishu'' \<and> job_chat_id j = ''cron'')"

lemma sanitize_ok: "job_ok j \<Longrightarrow> cron_sanitize_destination j = (False, j)"
  by (simp add: job_ok_def cron_sanitize_destination_def)

lemma uint_u32_exact: "abs (uint (w :: u32)) \<le> 2 ^ 53"
  using uint_lt2p [of w] by simp

lemma job_members_names:
  "map fst (job_members lib j) =
    [''id'', ''name'', ''enabled'', ''kind'', if job_kind j = CRON_KIND_EVERY then ''interval_s'' else ''at_epoch'',
     ''message'', ''channel'', ''chat_id'', ''last_run'', ''next_run'', ''delete_after_run'']
    @ (if job_action j \<noteq> [] then [''action'', ''action_args''] else [])"
  by (simp add: job_members_def)

lemma job_members_distinct: "distinct (map fst (job_members lib j))"
  unfolding job_members_names by (cases "job_kind j"; cases "job_action j = []") simp_all

lemma job_members_lower: "list_all no_upper (map fst (job_members lib j))"
  unfolding job_members_names by (cases "job_kind j"; cases "job_action j = []") (simp_all add: no_upper_def)

lemma job_item_get:
  assumes "json_laws lib" "no_upper k"
  shows "jl_get lib (job_item lib j) k = map_of (job_members lib j) k"
  using assms job_members_distinct [of lib j] job_members_lower [of lib j]
  unfolding json_laws_def job_item_def by simp

lemma job_item_parsed:
  assumes "json_laws lib" "job_ok j"
  shows "cron_parse_job_item lib (job_item lib j) = Some j"
proof -
  note laws = assms(1) [unfolded json_laws_def]
  note get = job_item_get [OF assms(1), of _ j]
  have str: "jl_string lib (jl_str lib v) = Some v" for v using laws by simp
  have num: "jl_number lib (jl_num lib v) = Some v" if "abs v \<le> 2 ^ 53" for v using laws that by blast
  have bool: "jl_true lib (jl_bool lib v) = v" for v using laws by simp
  show ?thesis
    using assms(2)
    by (cases "job_kind j"; cases "job_action j = []")
      (simp_all add: cron_parse_job_item_def get job_members_def get_string_def get_number_def field_str_def field_num_def field_bool_def
        str num bool job_ok_def no_upper_def uint_u32_exact [simplified] Let_def)
qed

lemma load_items_saved:
  assumes "json_laws lib" "list_all job_ok jobs" "count + length jobs \<le> MAX_CRON_JOBS"
  shows "load_items lib count (map (job_item lib) jobs) = map (Pair False) jobs"
  using assms(2,3)
  by (induction jobs arbitrary: count) (simp_all add: job_item_parsed [OF assms(1)] sanitize_ok)

text \<open>
  The table survives a restart: after a save that went through, of at most sixteen well-formed jobs
  whose text has at most 8 KiB, loading the file gives the same jobs and leaves the file alone.
\<close>

theorem cron_table_survives_restart:
  assumes "json_laws lib" "list_all job_ok (s_jobs s)" "length (s_jobs s) \<le> MAX_CRON_JOBS"
    and "jl_print lib (jobs_root lib (s_jobs s)) = Some txt" "jl_parse lib txt = Some (jobs_root lib (s_jobs s))"
    and "txt \<noteq> []" "length txt \<le> AGENT_CRON_FILE_MAX_SIZE" "length txt \<le> n"
  shows "cron_service_init lib True io ((snd (cron_save_jobs lib (Some n) s))\<lparr>s_jobs := [], s_cron_running := False\<rparr>)
    = (OK, s\<lparr>s_cron_running := False, cron_file := Some txt\<rparr>)"
proof -
  have "get_array lib (jobs_root lib (s_jobs s)) ''jobs'' = Some (map (job_item lib) (s_jobs s))"
    using assms(1) by (simp add: get_array_def jobs_root_def json_laws_def no_upper_def)
  moreover have "load_items lib 0 (map (job_item lib) (s_jobs s)) = map (Pair False) (s_jobs s)"
    using load_items_saved [OF assms(1,2), of 0] assms(3) by simp
  ultimately show ?thesis
    using assms(4-8)
    by (simp add: cron_service_init_def cron_load_jobs_def cron_save_jobs_file saved_file_def Let_def list_ex_iff comp_def)
qed

text \<open>
  A table whose text is longer than 8 KiB is written in full and reported as saved; the next start
  discards it and begins with no jobs. A text cut short by the file system is discarded too, when
  what is left of it does not parse.
\<close>

theorem cron_table_lost:
  assumes "jl_print lib (jobs_root lib (s_jobs s)) = Some txt"
    and "length (take n txt) > AGENT_CRON_FILE_MAX_SIZE \<or> take n txt = [] \<or> jl_parse lib (take n txt) = None"
  shows "cron_service_init lib True io (snd (cron_save_jobs lib (Some n) s))
    = (OK, s\<lparr>s_jobs := [], cron_file := Some (take n txt)\<rparr>)"
  using assms by (auto simp: cron_service_init_def cron_load_jobs_def cron_save_jobs_file saved_file_def)

end
