(* ===== verification/Settings.thy ===== *)
theory Settings
  imports Prelude
begin

text \<open>
  The contract of a settings store, as the configuration store promises it to its clients
  (the tool guard, the router, the channels): string settings by key, where two spellings may
  name the same key, and a history of writes as a list of operations.
\<close>

datatype store_op = Put_op string string | Del_op string | Wipe_op

text \<open>The specification: a map from keys to values.\<close>

fun spec_op :: "(string \<Rightarrow> string \<Rightarrow> bool) \<Rightarrow> store_op \<Rightarrow> (string \<Rightarrow> string option) \<Rightarrow> string \<Rightarrow> string option" where
  "spec_op same (Put_op k v) m = (\<lambda>k'. if same k k' then Some v else m k')"
| "spec_op same (Del_op k) m = (\<lambda>k'. if same k k' then None else m k')"
| "spec_op same Wipe_op m = (\<lambda>k'. None)"

fun op_touches :: "(string \<Rightarrow> string \<Rightarrow> bool) \<Rightarrow> string \<Rightarrow> store_op \<Rightarrow> bool" where
  "op_touches same k' (Put_op k v) = same k k'"
| "op_touches same k' (Del_op k) = same k k'"
| "op_touches same k' Wipe_op = True"

lemma spec_op_untouched: "\<not> op_touches same k oper \<Longrightarrow> spec_op same oper m k = m k"
  by (cases oper) auto

lemma spec_ops_untouched: "list_all (Not \<circ> op_touches same k) ops \<Longrightarrow> fold (spec_op same) ops m k = m k"
  by (induction ops arbitrary: m) (auto simp: spec_op_untouched)

text \<open>What a client reads into a buffer of \<open>n\<close> bytes: an empty value reads as unset.\<close>

definition read_setting :: "nat \<Rightarrow> string option \<Rightarrow> string option" where
  "read_setting n v = (case v of None \<Rightarrow> None | Some s \<Rightarrow> if s \<noteq> [] then Some (take (n - 1) s) else None)"

fun do_op ::
  "('s \<Rightarrow> string \<Rightarrow> string \<Rightarrow> int \<times> 's) \<Rightarrow> ('s \<Rightarrow> string \<Rightarrow> int \<times> 's) \<Rightarrow> ('s \<Rightarrow> int \<times> 's) \<Rightarrow> store_op \<Rightarrow> 's \<Rightarrow> int \<times> 's"
where
  "do_op put del wipe (Put_op k v) s = put s k v"
| "do_op put del wipe (Del_op k) s = del s k"
| "do_op put del wipe Wipe_op s = wipe s"

fun run_ops ::
  "('s \<Rightarrow> string \<Rightarrow> string \<Rightarrow> int \<times> 's) \<Rightarrow> ('s \<Rightarrow> string \<Rightarrow> int \<times> 's) \<Rightarrow> ('s \<Rightarrow> int \<times> 's) \<Rightarrow> store_op list \<Rightarrow> 's \<Rightarrow> int list \<times> 's"
where
  "run_ops put del wipe [] s = ([], s)"
| "run_ops put del wipe (oper # ops) s =
     (case do_op put del wipe oper s of (ret, s1) \<Rightarrow>
        (case run_ops put del wipe ops s1 of (rets, s2) \<Rightarrow> (ret # rets, s2)))"

locale settings_store =
  fixes good :: "'s \<Rightarrow> bool"
    and same :: "'s \<Rightarrow> string \<Rightarrow> string \<Rightarrow> bool"
    and view :: "'s \<Rightarrow> string \<Rightarrow> string option"
    and put :: "'s \<Rightarrow> string \<Rightarrow> string \<Rightarrow> int \<times> 's"
    and del :: "'s \<Rightarrow> string \<Rightarrow> int \<times> 's"
    and wipe :: "'s \<Rightarrow> int \<times> 's"
    and get :: "'s \<Rightarrow> string \<Rightarrow> nat \<Rightarrow> string option"
  assumes same_refl: "good s \<Longrightarrow> same s k k"
    and op_refines: "good s \<Longrightarrow> do_op put del wipe oper s = (ret, s') \<Longrightarrow>
      ret = OK \<and> good s' \<and> same s' = same s \<and> view s' = spec_op (same s) oper (view s)"
    and get_view: "good s \<Longrightarrow> get s k n = read_setting n (view s k)"
begin

lemma ops_refine:
  "good s \<Longrightarrow> run_ops put del wipe ops s = (rets, s') \<Longrightarrow>
   rets = replicate (length ops) OK \<and> good s' \<and> same s' = same s \<and> view s' = fold (spec_op (same s)) ops (view s)"
proof (induction ops arbitrary: s rets s')
  case Nil
  then show ?case by simp
next
  case (Cons oper ops)
  obtain ret s1 where s1: "do_op put del wipe oper s = (ret, s1)" by fastforce
  obtain rets2 s2 where s2: "run_ops put del wipe ops s1 = (rets2, s2)" by fastforce
  note h = op_refines [OF Cons.prems(1) s1]
  from Cons.IH [OF h [THEN conjunct2, THEN conjunct1] s2] h Cons.prems(2) s1 s2 show ?case by auto
qed

text \<open>A written value stays readable until an operation touches its key.\<close>

lemma put_stays:
  assumes "good s" "list_all (Not \<circ> op_touches (same s) k) ops"
    "run_ops put del wipe (Put_op k v # ops) s = (rets, s')"
  shows "good s' \<and> get s' k n = read_setting n (Some v)"
proof -
  have "good s' \<and> view s' k = Some v"
    using ops_refine [OF assms(1,3)] spec_ops_untouched [OF assms(2)] same_refl [OF assms(1)] by simp
  then show ?thesis by (simp add: get_view)
qed

end

end
