(* ===== verification/Config_Store.thy ===== *)
theory Config_Store
  imports Settings
begin

text \<open>
  The configuration store (\<^verbatim>\<open>services/ai_agent/src/infra/config_store.c\<close>): string
  settings in one JSON file that every operation reads and rewrites as a whole under a lock.

  The state is the content of the file (\<open>None\<close> when it does not exist). The JSON library is
  not part of the repository: its functions are the fields of the argument \<open>cj\<close> over an
  abstract type of objects, and \<open>cjson_ok\<close> collects its documented behaviour that the store
  relies on. The answers of the operating system for one write are in \<open>cfg_io\<close>:
  \<open>io_disk\<close> is what of the written text reaches the file.
\<close>

section \<open>The JSON library and the operating system\<close>

record 'j cjson =
  cj_create :: 'j
  cj_parse :: "string \<Rightarrow> 'j option"
  cj_print :: "'j \<Rightarrow> string option"
  cj_has :: "'j \<Rightarrow> string \<Rightarrow> bool"
  cj_string :: "'j \<Rightarrow> string \<Rightarrow> string option"
  cj_delete :: "'j \<Rightarrow> string \<Rightarrow> 'j"
  cj_add_string :: "'j \<Rightarrow> string \<Rightarrow> string \<Rightarrow> 'j"
  cj_same_key :: "string \<Rightarrow> string \<Rightarrow> bool"
  cj_unique :: "'j \<Rightarrow> bool"

text \<open>
  Objects without duplicate keys (\<open>cj_unique\<close>; keys are compared as the library does,
  \<open>cj_same_key\<close>): the empty object has no member; deleting a key removes its member and no
  other; adding a string makes it the member of its key if there was none; printing
  succeeds, is not empty, and parses back to an object with the same string members.
\<close>

definition cj_key_refl :: "'j cjson \<Rightarrow> bool" where
  "cj_key_refl cj \<longleftrightarrow> (\<forall>k. cj_same_key cj k k)"

definition cj_empty_law :: "'j cjson \<Rightarrow> bool" where
  "cj_empty_law cj \<longleftrightarrow> cj_unique cj (cj_create cj) \<and> (\<forall>k. cj_string cj (cj_create cj) k = None)"

definition cj_delete_law :: "'j cjson \<Rightarrow> bool" where
  "cj_delete_law cj \<longleftrightarrow> (\<forall>r k. cj_unique cj r \<longrightarrow> cj_unique cj (cj_delete cj r k)
     \<and> (\<forall>k'. cj_string cj (cj_delete cj r k) k' = (if cj_same_key cj k k' then None else cj_string cj r k')))"

definition cj_add_law :: "'j cjson \<Rightarrow> bool" where
  "cj_add_law cj \<longleftrightarrow> (\<forall>r k v. cj_unique cj r \<longrightarrow> cj_unique cj (cj_add_string cj (cj_delete cj r k) k v)
     \<and> (\<forall>k'. cj_string cj (cj_add_string cj (cj_delete cj r k) k v) k' =
           (if cj_same_key cj k k' then Some v else cj_string cj r k')))"

definition cj_print_law :: "'j cjson \<Rightarrow> bool" where
  "cj_print_law cj \<longleftrightarrow> (\<forall>r. cj_unique cj r \<longrightarrow> (\<exists>str r'. cj_print cj r = Some str \<and> str \<noteq> []
     \<and> cj_parse cj str = Some r' \<and> cj_unique cj r' \<and> (\<forall>k. cj_string cj r' k = cj_string cj r k)))"

definition cjson_ok :: "'j cjson \<Rightarrow> bool" where
  "cjson_ok cj \<longleftrightarrow> cj_key_refl cj \<and> cj_empty_law cj \<and> cj_delete_law cj \<and> cj_add_law cj \<and> cj_print_law cj"

record cfg_io =
  io_mem :: bool
  io_open :: bool
  io_fdopen :: bool
  io_disk :: "string \<Rightarrow> string"

section \<open>Operations\<close>

text \<open>The directories \<^verbatim>\<open>mkdirs\<close> creates, in order: each prefix before a slash, then the whole path.\<close>

definition mkdirs :: "string \<Rightarrow> string list" where
  "mkdirs path =
     (let tmp = take 255 path
      in map (\<lambda>i. take i tmp) (filter (\<lambda>i. tmp ! i = CHR ''/'') [1..<length tmp]) @ [tmp])"

definition load_json :: "'j cjson \<Rightarrow> cfg_io \<Rightarrow> string option \<Rightarrow> 'j" where
  "load_json cj io file =
     (case file of
        None \<Rightarrow> cj_create cj
      | Some buf \<Rightarrow>
          if buf = [] then cj_create cj
          else if \<not> io_mem io then cj_create cj
          else (case cj_parse cj buf of Some root \<Rightarrow> root | None \<Rightarrow> cj_create cj))"

definition save_json :: "'j cjson \<Rightarrow> cfg_io \<Rightarrow> 'j \<Rightarrow> string option \<Rightarrow> int \<times> string option" where
  "save_json cj io root file =
     (case cj_print cj root of
        None \<Rightarrow> (ERROR, file)
      | Some str \<Rightarrow>
          if \<not> io_open io then (ERROR, file)
          else if \<not> io_fdopen io then (ERROR, Some [])
          else (OK, Some (io_disk io str)))"

text \<open>
  The build-time defaults: for each triple of a secret, a key and a value, the value is added
  when the secret is not empty and the key is absent. The secrets are macros of the build.
\<close>

record secrets =
  AGENT_SECRET_VOLC_API_KEY :: string
  AGENT_SECRET_VOLC_APP_ID :: string
  AGENT_SECRET_VOLC_TOKEN :: string

definition seed_table :: "secrets \<Rightarrow> (string \<times> string \<times> string) list" where
  "seed_table s =
     [(AGENT_SECRET_VOLC_API_KEY s, ''volc_api_key'', AGENT_SECRET_VOLC_API_KEY s),
      (AGENT_SECRET_VOLC_APP_ID s, ''volc_appkey'', AGENT_SECRET_VOLC_APP_ID s),
      (AGENT_SECRET_VOLC_TOKEN s, ''volc_token'', AGENT_SECRET_VOLC_TOKEN s),
      (AGENT_SECRET_VOLC_API_KEY s, ''volc_asr_cluster'', ''volcengine_streaming_common'')]"

definition seed_one :: "'j cjson \<Rightarrow> string \<times> string \<times> string \<Rightarrow> 'j \<times> bool \<Rightarrow> 'j \<times> bool" where
  "seed_one cj e acc =
     (case e of (secret, key, val) \<Rightarrow> case acc of (root, changed) \<Rightarrow>
        if secret \<noteq> [] \<and> \<not> cj_has cj root key then (cj_add_string cj root key val, True) else (root, changed))"

definition seed_defaults :: "'j cjson \<Rightarrow> cfg_io \<Rightarrow> secrets \<Rightarrow> string option \<Rightarrow> string option" where
  "seed_defaults cj io sec file =
     (let (root, changed) = fold (seed_one cj) (seed_table sec) (load_json cj io file, False)
      in if changed then snd (save_json cj io root file) else file)"

definition config_store_init ::
  "'j cjson \<Rightarrow> cfg_io \<Rightarrow> string \<Rightarrow> secrets \<Rightarrow> string option \<Rightarrow> int \<times> string list \<times> string option"
where
  "config_store_init cj io data_dir sec file =
     (OK, mkdirs data_dir @ mkdirs (data_dir @ ''/config'') @ mkdirs (data_dir @ ''/memory'') @ mkdirs (data_dir @ ''/sessions''),
      seed_defaults cj io sec file)"

definition claw_config_get :: "'j cjson \<Rightarrow> cfg_io \<Rightarrow> string \<Rightarrow> nat \<Rightarrow> string option \<Rightarrow> string option" where
  "claw_config_get cj io key buf_size file =
     (case cj_string cj (load_json cj io file) key of
        Some val \<Rightarrow> if val \<noteq> [] then Some (take (buf_size - 1) val) else None
      | None \<Rightarrow> None)"

definition claw_config_set :: "'j cjson \<Rightarrow> cfg_io \<Rightarrow> string \<Rightarrow> string \<Rightarrow> string option \<Rightarrow> int \<times> string option" where
  "claw_config_set cj io key val file =
     save_json cj io (cj_add_string cj (cj_delete cj (load_json cj io file) key) key val) file"

definition config_del :: "'j cjson \<Rightarrow> cfg_io \<Rightarrow> string \<Rightarrow> string option \<Rightarrow> int \<times> string option" where
  "config_del cj io key file = save_json cj io (cj_delete cj (load_json cj io file) key) file"

definition config_erase_all :: "'j cjson \<Rightarrow> cfg_io \<Rightarrow> string option \<Rightarrow> int \<times> string option" where
  "config_erase_all cj io file = save_json cj io (cj_create cj) file"

section \<open>The store as a map\<close>

definition io_ok :: "cfg_io \<Rightarrow> bool" where
  "io_ok io \<longleftrightarrow> io_mem io \<and> io_open io \<and> io_fdopen io \<and> io_disk io = id"

text \<open>The settings in a file, and the files the store itself can have written.\<close>

definition settings :: "'j cjson \<Rightarrow> string option \<Rightarrow> string \<Rightarrow> string option" where
  "settings cj file k = cj_string cj (load_json cj \<lparr>io_mem = True, io_open = True, io_fdopen = True, io_disk = id\<rparr> file) k"

definition file_ok :: "'j cjson \<Rightarrow> string option \<Rightarrow> bool" where
  "file_ok cj file \<longleftrightarrow>
     cj_unique cj (load_json cj \<lparr>io_mem = True, io_open = True, io_fdopen = True, io_disk = id\<rparr> file)"

lemma load_json_mem: "io_mem io \<Longrightarrow> io_mem io' \<Longrightarrow> load_json cj io file = load_json cj io' file"
  by (simp add: load_json_def split: option.splits)

lemma cjson_okD:
  assumes "cjson_ok cj"
  shows "\<forall>r. cj_unique cj r \<longrightarrow> (\<exists>str r'. cj_print cj r = Some str \<and> str \<noteq> [] \<and> cj_parse cj str = Some r'
        \<and> cj_unique cj r' \<and> (\<forall>k. cj_string cj r' k = cj_string cj r k))"
    and "\<forall>r k v. cj_unique cj r \<longrightarrow> cj_unique cj (cj_add_string cj (cj_delete cj r k) k v)
        \<and> (\<forall>k'. cj_string cj (cj_add_string cj (cj_delete cj r k) k v) k' =
              (if cj_same_key cj k k' then Some v else cj_string cj r k'))"
    and "\<forall>r k. cj_unique cj r \<longrightarrow> cj_unique cj (cj_delete cj r k)
        \<and> (\<forall>k'. cj_string cj (cj_delete cj r k) k' = (if cj_same_key cj k k' then None else cj_string cj r k'))"
    and "cj_unique cj (cj_create cj)" "cj_string cj (cj_create cj) k = None" "cj_same_key cj k k"
  using assms
  by (simp_all only: cjson_ok_def cj_key_refl_def [symmetric] cj_empty_law_def [symmetric] cj_delete_law_def [symmetric]
      cj_add_law_def [symmetric] cj_print_law_def [symmetric]) (simp_all add: cj_empty_law_def cj_key_refl_def)

lemma save_json_ok:
  assumes "cjson_ok cj" "io_ok io" "cj_unique cj r"
  shows "fst (save_json cj io r file) = OK \<and> file_ok cj (snd (save_json cj io r file))
    \<and> settings cj (snd (save_json cj io r file)) = cj_string cj r"
proof -
  from assms(1,3) obtain str r' where "cj_print cj r = Some str" "str \<noteq> []" "cj_parse cj str = Some r'"
    "cj_unique cj r'" "\<forall>k. cj_string cj r' k = cj_string cj r k"
    using cjson_okD(1) by metis
  then show ?thesis
    using assms(2) by (auto simp: save_json_def io_ok_def file_ok_def settings_def load_json_def)
qed

lemma load_unique: "cjson_ok cj \<Longrightarrow> io_ok io \<Longrightarrow> file_ok cj file \<Longrightarrow> cj_unique cj (load_json cj io file)
    \<and> cj_string cj (load_json cj io file) = settings cj file"
  using load_json_mem [of io "\<lparr>io_mem = True, io_open = True, io_fdopen = True, io_disk = id\<rparr>" cj "file"]
  by (auto simp: io_ok_def file_ok_def settings_def)

lemma config_set_settings:
  fixes k v :: string
  assumes "cjson_ok cj" "io_ok io" "file_ok cj file"
  defines "t \<equiv> claw_config_set cj io k v file"
  shows "fst t = OK" "file_ok cj (snd t)"
    "settings cj (snd t) k' = (if cj_same_key cj k k' then Some v else settings cj file k')"
proof -
  let ?r = "load_json cj io file"
  have l: "cj_unique cj ?r" "cj_string cj ?r = settings cj file" using load_unique [OF assms(1-3)] by auto
  have u: "cj_unique cj (cj_add_string cj (cj_delete cj ?r k) k v)"
    and m: "cj_string cj (cj_add_string cj (cj_delete cj ?r k) k v) k' = (if cj_same_key cj k k' then Some v else cj_string cj ?r k')"
    using cjson_okD(2) [OF assms(1)] l(1) by simp_all
  from save_json_ok [OF assms(1,2) u, of "file"] m l(2)
  show "fst t = OK" "file_ok cj (snd t)"
    "settings cj (snd t) k' = (if cj_same_key cj k k' then Some v else settings cj file k')"
    by (auto simp: t_def claw_config_set_def)
qed

lemma config_del_settings:
  fixes k :: string
  assumes "cjson_ok cj" "io_ok io" "file_ok cj file"
  defines "t \<equiv> config_del cj io k file"
  shows "fst t = OK" "file_ok cj (snd t)"
    "settings cj (snd t) k' = (if cj_same_key cj k k' then None else settings cj file k')"
proof -
  let ?r = "load_json cj io file"
  have l: "cj_unique cj ?r" "cj_string cj ?r = settings cj file" using load_unique [OF assms(1-3)] by auto
  have u: "cj_unique cj (cj_delete cj ?r k)"
    and m: "cj_string cj (cj_delete cj ?r k) k' = (if cj_same_key cj k k' then None else cj_string cj ?r k')"
    using cjson_okD(3) [OF assms(1)] l(1) by simp_all
  from save_json_ok [OF assms(1,2) u, of "file"] m l(2)
  show "fst t = OK" "file_ok cj (snd t)"
    "settings cj (snd t) k' = (if cj_same_key cj k k' then None else settings cj file k')"
    by (auto simp: t_def config_del_def)
qed

lemma config_get_settings:
  assumes "io_ok io"
  shows "claw_config_get cj io k n file =
    (case settings cj file k of Some v \<Rightarrow> if v \<noteq> [] then Some (take (n - 1) v) else None | None \<Rightarrow> None)"
  using load_json_mem [of io "\<lparr>io_mem = True, io_open = True, io_fdopen = True, io_disk = id\<rparr>" cj "file"] assms
  by (simp add: claw_config_get_def settings_def io_ok_def)

lemma config_erase_settings:
  assumes "cjson_ok cj" "io_ok io"
  shows "fst (config_erase_all cj io file) = OK" "file_ok cj (snd (config_erase_all cj io file))"
    "settings cj (snd (config_erase_all cj io file)) = (\<lambda>k. None)"
  using save_json_ok [OF assms cjson_okD(4) [OF assms(1)], of "file"] cjson_okD(5) [OF assms(1)]
  by (auto simp: config_erase_all_def)

section \<open>The store keeps the contract of a settings store\<close>

text \<open>The state that a client sees: the library, the system and the file.\<close>

type_synonym 'j cfg_env = "'j cjson \<times> cfg_io \<times> string option"

definition env_good :: "'j cfg_env \<Rightarrow> bool" where
  "env_good e \<longleftrightarrow> (case e of (cj, io, file) \<Rightarrow> cjson_ok cj \<and> io_ok io \<and> file_ok cj file)"

definition env_same :: "'j cfg_env \<Rightarrow> string \<Rightarrow> string \<Rightarrow> bool" where
  "env_same e = cj_same_key (fst e)"

definition env_view :: "'j cfg_env \<Rightarrow> string \<Rightarrow> string option" where
  "env_view e = (case e of (cj, io, file) \<Rightarrow> settings cj file)"

definition env_set :: "'j cfg_env \<Rightarrow> string \<Rightarrow> string \<Rightarrow> int \<times> 'j cfg_env" where
  "env_set e k v = (case e of (cj, io, file) \<Rightarrow> map_prod id (\<lambda>f. (cj, io, f)) (claw_config_set cj io k v file))"

definition env_del :: "'j cfg_env \<Rightarrow> string \<Rightarrow> int \<times> 'j cfg_env" where
  "env_del e k = (case e of (cj, io, file) \<Rightarrow> map_prod id (\<lambda>f. (cj, io, f)) (config_del cj io k file))"

definition env_erase :: "'j cfg_env \<Rightarrow> int \<times> 'j cfg_env" where
  "env_erase e = (case e of (cj, io, file) \<Rightarrow> map_prod id (\<lambda>f. (cj, io, f)) (config_erase_all cj io file))"

definition env_get :: "'j cfg_env \<Rightarrow> string \<Rightarrow> nat \<Rightarrow> string option" where
  "env_get e k n = (case e of (cj, io, file) \<Rightarrow> claw_config_get cj io k n file)"

abbreviation cfg_run :: "store_op list \<Rightarrow> 'j cfg_env \<Rightarrow> int list \<times> 'j cfg_env" where
  "cfg_run \<equiv> run_ops env_set env_del env_erase"

lemmas env_defs = env_good_def env_same_def env_view_def env_set_def env_del_def env_erase_def env_get_def

lemma env_op_refines:
  assumes "env_good e" "do_op env_set env_del env_erase oper e = (ret, e')"
  shows "ret = OK \<and> env_good e' \<and> env_same e' = env_same e \<and> env_view e' = spec_op (env_same e) oper (env_view e)"
proof -
  obtain cj io f where e: "e = (cj, io, f)" by (cases e)
  have g: "cjson_ok cj" "io_ok io" "file_ok cj f" using assms(1) by (simp_all add: e env_good_def)
  show ?thesis
  proof (cases oper)
    case (Put_op k v)
    with assms config_set_settings [OF g, of k v] show ?thesis by (auto simp: e env_defs prod_eq_iff case_prod_beta fun_eq_iff)
  next
    case (Del_op k)
    with assms config_del_settings [OF g, of k] show ?thesis by (auto simp: e env_defs prod_eq_iff case_prod_beta fun_eq_iff)
  next
    case Wipe_op
    with assms config_erase_settings [OF g(1,2), of f] show ?thesis by (auto simp: e env_defs prod_eq_iff case_prod_beta fun_eq_iff)
  qed
qed

interpretation cs: settings_store env_good env_same env_view env_set env_del env_erase env_get
proof
  show "env_same e k k" if "env_good e" for e :: "'j cfg_env" and k
    using that cjson_okD(6) by (auto simp: env_defs)
  show "ret = OK \<and> env_good e' \<and> env_same e' = env_same e \<and> env_view e' = spec_op (env_same e) oper (env_view e)"
    if "env_good e" "do_op env_set env_del env_erase oper e = (ret, e')" for e e' :: "'j cfg_env" and oper ret
    using env_op_refines [OF that] .
  show "env_get e k n = read_setting n (env_view e k)" if "env_good e" for e :: "'j cfg_env" and k n
    using that by (auto simp: env_defs read_setting_def config_get_settings split: option.splits)
qed

section \<open>The library assumptions can hold\<close>

text \<open>A small library with an unambiguous text format in place of JSON.\<close>

definition tagged :: "char \<Rightarrow> string \<Rightarrow> string" where
  "tagged t cs = concat (map (\<lambda>c. [t, c]) cs)"

definition enc :: "string \<times> string \<Rightarrow> string" where
  "enc e = tagged (CHR ''k'') (fst e) @ tagged (CHR ''v'') (snd e) @ ''..''"

fun dec :: "string \<Rightarrow> string \<Rightarrow> string \<Rightarrow> (string \<times> string) list option" where
  "dec (t # c # rest) k v =
     (if t = CHR ''k'' then dec rest (k @ [c]) v
      else if t = CHR ''v'' then dec rest k (v @ [c])
      else map_option ((#) (k, v)) (dec rest [] []))"
| "dec [] k v = Some []"
| "dec [_] k v = None"

definition sample_cj :: "(string \<times> string) list cjson" where
  "sample_cj = \<lparr>cj_create = [], cj_parse = (\<lambda>s. dec (tl s) [] []),
     cj_print = (\<lambda>r. Some (CHR ''{'' # concat (map enc r))),
     cj_has = (\<lambda>r k. map_of r k \<noteq> None), cj_string = map_of,
     cj_delete = (\<lambda>r k. filter (\<lambda>e. fst e \<noteq> k) r), cj_add_string = (\<lambda>r k v. r @ [(k, v)]),
     cj_same_key = (=), cj_unique = (\<lambda>r. distinct (map fst r))\<rparr>"

lemma dec_key: "dec (tagged (CHR ''k'') cs @ rest) k v = dec rest (k @ cs) v"
  by (induction cs arbitrary: k) (simp_all add: tagged_def)

lemma dec_val: "dec (tagged (CHR ''v'') cs @ rest) k v = dec rest k (v @ cs)"
  by (induction cs arbitrary: v) (simp_all add: tagged_def)

lemma dec_enc: "dec (concat (map enc r)) [] [] = Some r"
  by (induction r) (simp_all add: enc_def dec_key dec_val)

lemma map_of_filter_key: "map_of (filter (\<lambda>e. fst e \<noteq> k) r) k' = (if k = k' then None else map_of r k')"
  by (induction r) auto

lemma sample_cj_ok: "cjson_ok sample_cj"
proof -
  have "distinct (map fst (filter P r))" if "distinct (map fst r)" for P and r :: "(string \<times> string) list"
    using that by (rule distinct_map_filter)
  then show ?thesis
    by (auto simp: cjson_ok_def cj_key_refl_def cj_empty_law_def cj_delete_law_def cj_add_law_def cj_print_law_def
        sample_cj_def dec_enc map_of_filter_key map_add_def split: option.splits)
qed

section \<open>Properties\<close>

text \<open>
  C30. The store refines a map: given the library's documented behaviour and a working disk,
  every sequence of sets, deletes and erasures succeeds throughout, leaves a file the store can
  read back, and a get then returns what the same operations make of a map from keys to values
  (cut to the caller's buffer; an empty value reads as unset).
\<close>

theorem config_ops_refine:
  assumes "cjson_ok cj" "io_ok io" "file_ok cj file" "cfg_run ops (cj, io, file) = (rets, e)"
  shows "rets = replicate (length ops) OK \<and> env_good e
    \<and> env_get e k n = read_setting n (fold (spec_op (cj_same_key cj)) ops (settings cj file) k)"
proof -
  have g: "env_good (cj, io, file)" using assms(1-3) by (simp add: env_good_def)
  from cs.ops_refine [OF g assms(4)] cs.get_view [of e k n] show ?thesis by (auto simp: env_same_def env_view_def)
qed

definition good_io :: cfg_io where
  "good_io = \<lparr>io_mem = True, io_open = True, io_fdopen = True, io_disk = id\<rparr>"

lemma sample_env: "io_ok good_io" "file_ok sample_cj None" "env_good (sample_cj, good_io, None)"
  by (simp_all add: io_ok_def good_io_def file_ok_def load_json_def env_good_def sample_cj_ok) (simp_all add: sample_cj_def)

theorem config_ops_refine_witness:
  "env_get (snd (cfg_run [Put_op ''model'' ''qwen-max'', Put_op ''key'' ''x'', Del_op ''key''] (sample_cj, good_io, None))) ''model'' 4
     = Some ''qwe''"
proof -
  let ?ops = "[Put_op ''model'' ''qwen-max'', Put_op ''key'' ''x'', Del_op ''key'']"
  obtain rets e where e: "cfg_run ?ops (sample_cj, good_io, None) = (rets, e)" by (metis surj_pair)
  have "cj_same_key sample_cj = (=)" by (simp add: sample_cj_def)
  with config_ops_refine [OF sample_cj_ok sample_env(1,2) e, of "''model''" 4] have "env_get e ''model'' 4 = Some ''qwe''"
    by (simp add: read_setting_def)
  then show ?thesis unfolding e by simp
qed

end
