(* ===== verification/Tool_Guard.thy ===== *)
theory Tool_Guard
  imports Config_Store
begin

text \<open>
  The security guard in front of the agent's tools
  (\<^verbatim>\<open>services/ai_agent/src/tools/tool_guard.c\<close>) and its use by
  \<^verbatim>\<open>tool_registry_execute\<close> (\<^verbatim>\<open>tool_registry.c\<close>): tools can be disabled in the
  configuration store, inputs are bounded, and the three sensitive tools are rate limited.

  Time is epoch seconds on \<open>int\<close>; the guard reads the clock once when it checks a call and
  again when it records one. Tool names are strings, \<open>None\<close> for NULL. The code of a tool, of
  the MCP bridge and of a provider is an argument: its return code and output for an input.
  The redaction of log lines is not modelled.
\<close>

section \<open>Classification\<close>

definition AGENT_TOOL_MAX_INPUT_LEN :: nat where [c_consts]: "AGENT_TOOL_MAX_INPUT_LEN = 32768"
definition AGENT_TOOL_RATE_LIMIT_WINDOW_SEC :: int where [c_consts]: "AGENT_TOOL_RATE_LIMIT_WINDOW_SEC = 60"
definition RATE_SLOTS :: nat where [c_consts]: "RATE_SLOTS = 10"

datatype tool_security_level = TOOL_SEC_SAFE | TOOL_SEC_MODERATE | TOOL_SEC_SENSITIVE

datatype tool_guard_result =
    GUARD_ALLOW | GUARD_DENY_DISABLED | GUARD_DENY_RATE_LIMIT | GUARD_DENY_INPUT_SIZE | GUARD_DENY_INPUT_INVALID

definition s_sec_table :: "(string \<times> tool_security_level) list" where
  "s_sec_table = [(''run_shell'', TOOL_SEC_SENSITIVE), (''write_file'', TOOL_SEC_SENSITIVE),
     (''edit_file'', TOOL_SEC_SENSITIVE), (''vibrate'', TOOL_SEC_MODERATE), (''cron_add'', TOOL_SEC_MODERATE)]"

definition s_sensitive_names :: "string list" where
  "s_sensitive_names = [''run_shell'', ''write_file'', ''edit_file'']"

definition get_security_level :: "string \<Rightarrow> tool_security_level" where
  "get_security_level name =
     (case first_idx (\<lambda>e. fst e = name) s_sec_table of
        Some i \<Rightarrow> snd (s_sec_table ! i) | None \<Rightarrow> TOOL_SEC_SAFE)"

definition find_sensitive_index :: "string \<Rightarrow> nat option" where
  "find_sensitive_index name = first_idx (\<lambda>n. n = name) s_sensitive_names"

section \<open>Rate limiter\<close>

record rate_state =
  timestamps :: "int list"
  head :: nat
  count :: nat

definition rate_zero :: rate_state where
  "rate_zero = \<lparr>timestamps = replicate RATE_SLOTS 0, head = 0, count = 0\<rparr>"

definition oldest_slot :: "rate_state \<Rightarrow> nat" where
  "oldest_slot rs = (head rs + RATE_SLOTS - count rs) mod RATE_SLOTS"

function expire :: "int \<Rightarrow> rate_state \<Rightarrow> rate_state" where
  "expire now rs =
     (if count rs > 0 \<and> now - timestamps rs ! oldest_slot rs > AGENT_TOOL_RATE_LIMIT_WINDOW_SEC
      then expire now (rs\<lparr>count := count rs - 1\<rparr>) else rs)"
  by pat_completeness auto
termination by (relation "measure (\<lambda>(now, rs). count rs)") auto

declare expire.simps [simp del]

definition check_rate_limit :: "int \<Rightarrow> rate_state \<Rightarrow> bool \<times> rate_state" where
  "check_rate_limit now rs = (let rs1 = expire now rs in (count rs1 \<ge> RATE_SLOTS, rs1))"

definition record_rate :: "int \<Rightarrow> rate_state \<Rightarrow> rate_state" where
  "record_rate now rs =
     rs\<lparr>timestamps := (timestamps rs)[head rs := now], head := (head rs + 1) mod RATE_SLOTS,
        count := (if count rs < RATE_SLOTS then count rs + 1 else count rs)\<rparr>"

section \<open>Guard operations\<close>

type_synonym guard = "rate_state list"

definition tool_guard_init :: "guard \<Rightarrow> int \<times> guard" where
  "tool_guard_init g = (OK, map (\<lambda>_. rate_zero) g)"

definition guard_key :: "string \<Rightarrow> string option" where
  "guard_key tool_name =
     (let key = ''tool_enabled_'' @ tool_name in if length key \<ge> 64 then None else Some key)"

definition tool_guard_set_enabled ::
  "'j cjson \<Rightarrow> cfg_io \<Rightarrow> string \<Rightarrow> bool \<Rightarrow> string option \<Rightarrow> int \<times> string option"
where
  "tool_guard_set_enabled cj io tool_name en file =
     (case guard_key tool_name of
        None \<Rightarrow> (ERROR, file)
      | Some key \<Rightarrow> claw_config_set cj io key (if en then ''1'' else ''0'') file)"

definition tool_guard_is_enabled :: "'j cjson \<Rightarrow> cfg_io \<Rightarrow> string \<Rightarrow> string option \<Rightarrow> bool" where
  "tool_guard_is_enabled cj io tool_name file =
     (case guard_key tool_name of
        None \<Rightarrow> True
      | Some key \<Rightarrow> (case claw_config_get cj io key 8 file of None \<Rightarrow> True | Some val \<Rightarrow> val \<noteq> ''0''))"

definition tool_guard_check ::
  "'j cjson \<Rightarrow> cfg_io \<Rightarrow> int \<Rightarrow> string option \<Rightarrow> nat \<Rightarrow> string option \<Rightarrow> guard \<Rightarrow> tool_guard_result \<times> guard"
where
  "tool_guard_check cj io now tool_name input_len file g =
     (case tool_name of
        None \<Rightarrow> (GUARD_DENY_INPUT_INVALID, g)
      | Some name \<Rightarrow>
          if \<not> tool_guard_is_enabled cj io name file then (GUARD_DENY_DISABLED, g)
          else if input_len > AGENT_TOOL_MAX_INPUT_LEN then (GUARD_DENY_INPUT_SIZE, g)
          else if get_security_level name = TOOL_SEC_SENSITIVE
          then (case find_sensitive_index name of
                  None \<Rightarrow> (GUARD_ALLOW, g)
                | Some idx \<Rightarrow>
                    let (limited, rs) = check_rate_limit now (g ! idx); g1 = g[idx := rs]
                    in (if limited then GUARD_DENY_RATE_LIMIT else GUARD_ALLOW, g1))
          else (GUARD_ALLOW, g))"

definition tool_guard_record_call :: "int \<Rightarrow> string \<Rightarrow> guard \<Rightarrow> guard" where
  "tool_guard_record_call now tool_name g =
     (case find_sensitive_index tool_name of
        None \<Rightarrow> g | Some idx \<Rightarrow> g[idx := record_rate now (g ! idx)])"

section \<open>Injection patterns\<close>

text \<open>\<^verbatim>\<open>strcasestr\<close> in the C locale: only the ASCII letters have case.\<close>

definition strcasestr :: "string \<Rightarrow> string \<Rightarrow> bool" where
  "strcasestr hay needle =
     list_ex (\<lambda>i. map to_lower (take (length needle) (drop i hay)) = map to_lower needle) [0..<Suc (length hay)]"

definition s_injection_patterns :: "string list" where
  "s_injection_patterns = [''ignore all previous'', ''ignore your instructions'', ''disregard your'',
     ''override your'', ''forget your rules'', ''reveal your prompt'', ''show me your system'',
     ''print your instructions'', ''you are now'', ''act as if'', ''pretend you are'', ''new persona'']"

definition check_injection_pattern :: "string option \<Rightarrow> bool" where
  "check_injection_pattern msg =
     (case msg of None \<Rightarrow> False | Some s \<Rightarrow> list_ex (strcasestr s) s_injection_patterns)"

definition tool_guard_check_injection :: "string option \<Rightarrow> bool" where
  "tool_guard_check_injection user_message = check_injection_pattern user_message"

section \<open>Running a tool\<close>

text \<open>
  The registry: the built-in tools in the order of registration, the MCP bridge (absent when
  it is configured out), the providers. Running a tool yields its return code and the text
  left in the output buffer. \<open>tool_run\<close> names the code that an execution has called, in order.
\<close>

definition MAX_TOOLS :: nat where [c_consts]: "MAX_TOOLS = 48"
definition MAX_PROVIDERS :: nat where [c_consts]: "MAX_PROVIDERS = 4"

type_synonym tool_fn = "string option \<Rightarrow> nat \<Rightarrow> int \<times> string"
type_synonym tool_executor_fn = "string \<Rightarrow> tool_fn"

record agent_tool =
  at_name :: string
  at_execute :: tool_fn

record tool_provider =
  tp_name :: string
  tp_execute :: "tool_executor_fn option"

record registry =
  s_tools :: "agent_tool list"
  mcp_bridge :: "tool_executor_fn option"
  s_providers :: "tool_provider list"

datatype tool_run = Builtin nat | Mcp | Provider nat

definition tool_registry_register_provider :: "tool_provider \<Rightarrow> registry \<Rightarrow> registry" where
  "tool_registry_register_provider prov r =
     (if length (s_providers r) \<ge> MAX_PROVIDERS then r else r\<lparr>s_providers := s_providers r @ [prov]\<rparr>)"

definition register_tool :: "agent_tool \<Rightarrow> registry \<Rightarrow> registry" where
  "register_tool tool r =
     (if length (s_tools r) \<ge> MAX_TOOLS then r else r\<lparr>s_tools := s_tools r @ [tool]\<rparr>)"

definition tool_registry_cleanup :: "registry \<Rightarrow> registry" where
  "tool_registry_cleanup r = r\<lparr>s_tools := []\<rparr>"

definition guard_reason :: "tool_guard_result \<Rightarrow> string" where
  "guard_reason r =
     (case r of GUARD_DENY_DISABLED \<Rightarrow> ''tool disabled by config''
      | GUARD_DENY_RATE_LIMIT \<Rightarrow> ''rate limit exceeded''
      | GUARD_DENY_INPUT_SIZE \<Rightarrow> ''input too large''
      | GUARD_DENY_INPUT_INVALID \<Rightarrow> ''invalid input''
      | GUARD_ALLOW \<Rightarrow> ''unknown'')"

definition em_dash :: string where
  "em_dash = map char_of [0xE2, 0x80, 0x94 :: nat]"

definition blocked_text :: "string option \<Rightarrow> tool_guard_result \<Rightarrow> string" where
  "blocked_text name r =
     ''Error: tool '' @ [CHR 0x27] @ (case name of None \<Rightarrow> ''(null)'' | Some n \<Rightarrow> n) @ [CHR 0x27]
       @ '' blocked '' @ em_dash @ '' '' @ guard_reason r"

definition unknown_text :: "string \<Rightarrow> string" where
  "unknown_text name = ''Error: unknown tool '' @ [CHR 0x27] @ name @ [CHR 0x27]"

fun try_providers ::
  "string \<Rightarrow> string option \<Rightarrow> nat \<Rightarrow> nat \<Rightarrow> tool_provider list \<Rightarrow> tool_run list \<times> string option"
where
  "try_providers name input osize p [] = ([], None)"
| "try_providers name input osize p (prov # provs) =
     (case tp_execute prov of
        None \<Rightarrow> try_providers name input osize (p + 1) provs
      | Some ex \<Rightarrow>
          (case ex name input osize of (ret, out) \<Rightarrow>
             if ret = OK then ([Provider p], Some out)
             else (case try_providers name input osize (p + 1) provs of (runs, res) \<Rightarrow> (Provider p # runs, res))))"

definition execute_allowed ::
  "registry \<Rightarrow> string \<Rightarrow> string option \<Rightarrow> nat \<Rightarrow> int \<times> string \<times> tool_run list"
where
  "execute_allowed reg name input osize =
     (case first_idx (\<lambda>t. at_name t = name) (s_tools reg) of
        Some i \<Rightarrow> (case at_execute (s_tools reg ! i) input osize of (ret, out) \<Rightarrow> (ret, out, [Builtin i]))
      | None \<Rightarrow>
          (case (case mcp_bridge reg of None \<Rightarrow> ([], None)
                 | Some ex \<Rightarrow> (case ex name input osize of (ret, out) \<Rightarrow> ([Mcp], if ret = OK then Some out else None))) of
             (runs, Some out) \<Rightarrow> (OK, out, runs)
           | (runs, None) \<Rightarrow>
               (case try_providers name input osize 0 (s_providers reg) of
                  (runs', Some out) \<Rightarrow> (OK, out, runs @ runs')
                | (runs', None) \<Rightarrow> (ERROR, cstr_copy osize (unknown_text name), runs @ runs'))))"

definition tool_registry_execute ::
  "'j cjson \<Rightarrow> cfg_io \<Rightarrow> int \<Rightarrow> int \<Rightarrow> registry \<Rightarrow> string option \<Rightarrow> string option \<Rightarrow> nat \<Rightarrow> string option \<Rightarrow> guard
   \<Rightarrow> int \<times> string \<times> tool_run list \<times> guard"
where
  "tool_registry_execute cj io now done_at reg name input osize file g =
     (case tool_guard_check cj io now name (case input of None \<Rightarrow> 0 | Some i \<Rightarrow> length i) file g of
        (r, g1) \<Rightarrow>
          if r \<noteq> GUARD_ALLOW then (ERROR, cstr_copy osize (blocked_text name r), [], g1)
          else (case execute_allowed reg (the name) input osize of (ret, out, runs) \<Rightarrow>
                  (ret, out, runs, if ret = OK then tool_guard_record_call done_at (the name) g1 else g1)))"

section \<open>The rate limiter as a list of times\<close>

definition rate_inv :: "rate_state \<Rightarrow> bool" where
  "rate_inv rs \<longleftrightarrow> length (timestamps rs) = RATE_SLOTS \<and> head rs < RATE_SLOTS \<and> count rs \<le> RATE_SLOTS"

text \<open>The recorded times in the window, oldest first.\<close>

definition recorded :: "rate_state \<Rightarrow> int list" where
  "recorded rs = map (\<lambda>i. timestamps rs ! ((oldest_slot rs + i) mod RATE_SLOTS)) [0..<count rs]"

abbreviation (input) too_old :: "int \<Rightarrow> int \<Rightarrow> bool" where
  "too_old now t \<equiv> now - t > AGENT_TOOL_RATE_LIMIT_WINDOW_SEC"

lemma rate_zero_inv: "rate_inv rate_zero" "recorded rate_zero = []"
  by (simp_all add: rate_inv_def rate_zero_def recorded_def c_consts)

lemma length_recorded [simp]: "length (recorded rs) = count rs"
  by (simp add: recorded_def)

lemma recorded_drop_oldest:
  assumes "rate_inv rs" "count rs > 0"
  shows "recorded rs = timestamps rs ! oldest_slot rs # recorded (rs\<lparr>count := count rs - 1\<rparr>)"
proof -
  obtain c where c: "count rs = Suc c" using assms(2) by (cases "count rs") auto
  let ?o = "oldest_slot rs"
  have o: "oldest_slot (rs\<lparr>count := c\<rparr>) = Suc ?o mod RATE_SLOTS"
    using assms(1) c by (simp add: oldest_slot_def rate_inv_def mod_Suc_eq Suc_diff_Suc)
  have "?o < RATE_SLOTS" by (simp add: oldest_slot_def c_consts)
  moreover have "recorded rs = timestamps rs ! ((?o + 0) mod RATE_SLOTS)
      # map (\<lambda>i. timestamps rs ! ((?o + Suc i) mod RATE_SLOTS)) [0..<c]"
    unfolding recorded_def c by (simp only: upt_conv_Cons [of 0 "Suc c"] map_Suc_upt [symmetric] zero_less_Suc list.map map_map comp_def)
  ultimately show ?thesis
    by (simp add: c recorded_def [of "rs\<lparr>count := c\<rparr>"] o mod_Suc_shift)
qed

lemma expire_recorded:
  "rate_inv rs \<Longrightarrow> rate_inv (expire now rs) \<and> recorded (expire now rs) = dropWhile (too_old now) (recorded rs)"
proof (induction now rs rule: expire.induct)
  case (1 now rs)
  show ?case
  proof (cases "count rs > 0 \<and> too_old now (timestamps rs ! oldest_slot rs)")
    case True
    then have "rate_inv (rs\<lparr>count := count rs - 1\<rparr>)" using 1(2) by (auto simp: rate_inv_def)
    with 1 True show ?thesis by (simp add: expire.simps [of now rs] recorded_drop_oldest [of rs])
  next
    case False
    then have "dropWhile (too_old now) (recorded rs) = recorded rs"
      using recorded_drop_oldest [OF 1(2)] by (cases "count rs") (auto simp: recorded_def)
    with 1 False show ?thesis by (auto simp: expire.simps [of now rs])
  qed
qed

lemma check_rate_limit_recorded:
  assumes "rate_inv rs" "check_rate_limit now rs = (limited, rs1)"
  shows "rate_inv rs1" "recorded rs1 = dropWhile (too_old now) (recorded rs)"
    "limited \<longleftrightarrow> count rs1 \<ge> RATE_SLOTS"
  using assms expire_recorded [of rs now] by (auto simp: check_rate_limit_def Let_def)

lemma record_rate_recorded:
  assumes "rate_inv rs" "count rs < RATE_SLOTS"
  shows "rate_inv (record_rate now rs)" "recorded (record_rate now rs) = recorded rs @ [now]"
proof -
  show "rate_inv (record_rate now rs)"
    using assms by (auto simp: rate_inv_def record_rate_def c_consts)
  let ?o = "oldest_slot rs" and ?c = "count rs"
  have h: "(?o + ?c) mod RATE_SLOTS = head rs"
    using assms by (simp add: oldest_slot_def rate_inv_def mod_add_left_eq)
  have o: "oldest_slot (record_rate now rs) = ?o"
  proof -
    have s: "a + RATE_SLOTS - d = a + (RATE_SLOTS - d)" if "d \<le> RATE_SLOTS" for a d using that by simp
    have "(Suc (head rs) mod RATE_SLOTS + (RATE_SLOTS - Suc ?c)) mod RATE_SLOTS = (head rs + (RATE_SLOTS - ?c)) mod RATE_SLOTS"
      unfolding mod_Suc_shift using assms(2) by (simp add: Suc_diff_Suc flip: add_Suc_right)
    then show ?thesis using assms(2) by (simp add: oldest_slot_def record_rate_def s del: Nat.add_diff_assoc)
  qed
  have old: "(timestamps rs)[head rs := now] ! ((?o + i) mod RATE_SLOTS) = timestamps rs ! ((?o + i) mod RATE_SLOTS)"
    if "i < ?c" for i
    using mod_add_inj_small [of i RATE_SLOTS ?c ?o] that h assms(2) by (metis less_irrefl less_trans nth_list_update_neq)
  show "recorded (record_rate now rs) = recorded rs @ [now]"
    using assms h old by (simp add: recorded_def o) (simp add: record_rate_def rate_inv_def)
qed

section \<open>The calls of a sensitive tool\<close>

record tool_call =
  tc_name :: "string option"
  tc_input :: "string option"
  tc_osize :: nat
  tc_file :: "string option"
  tc_now :: int
  tc_done :: int

text \<open>Calls one after the other, each with the configuration file and the clock it sees.\<close>

fun run_calls :: "'j cjson \<Rightarrow> cfg_io \<Rightarrow> registry \<Rightarrow> tool_call list \<Rightarrow> guard \<Rightarrow> int list \<times> guard" where
  "run_calls cj io reg [] g = ([], g)"
| "run_calls cj io reg (c # cs) g =
     (case tool_registry_execute cj io (tc_now c) (tc_done c) reg (tc_name c) (tc_input c) (tc_osize c) (tc_file c) g of
        (ret, _, _, g1) \<Rightarrow> (case run_calls cj io reg cs g1 of (rets, g2) \<Rightarrow> (ret # rets, g2)))"

definition success_times :: "string \<Rightarrow> tool_call list \<Rightarrow> int list \<Rightarrow> int list" where
  "success_times name cs rets = map (tc_done \<circ> fst) (filter (\<lambda>(c, ret). ret = OK \<and> tc_name c = Some name) (zip cs rets))"

definition clock_reads :: "tool_call list \<Rightarrow> int list" where
  "clock_reads cs = concat (map (\<lambda>c. [tc_now c, tc_done c]) cs)"

definition guard_inv :: "guard \<Rightarrow> bool" where
  "guard_inv g \<longleftrightarrow> length g = length s_sensitive_names \<and> list_all rate_inv g"

definition spaced :: "int list \<Rightarrow> bool" where
  "spaced ts \<longleftrightarrow> (\<forall>k. k + RATE_SLOTS < length ts \<longrightarrow> too_old (ts ! (k + RATE_SLOTS)) (ts ! k))"

text \<open>
  The times \<open>ts\<close> of all successful calls and the ring: the ring holds the latest ones and the
  others have left the window.
\<close>

definition ring_holds :: "int list \<Rightarrow> int \<Rightarrow> rate_state \<Rightarrow> bool" where
  "ring_holds ts now rs \<longleftrightarrow> (\<exists>old. ts = old @ recorded rs \<and> (\<forall>t\<in>set old. too_old now t))"

lemma find_sensitive_index_bound:
  "find_sensitive_index name = Some i \<Longrightarrow> i < length s_sensitive_names \<and> s_sensitive_names ! i = name"
  by (auto simp: find_sensitive_index_def c_index)

lemma find_sensitive_index_inj:
  "find_sensitive_index a = Some i \<Longrightarrow> find_sensitive_index b = Some i \<Longrightarrow> a = b"
  using find_sensitive_index_bound by blast

lemma sensitive_level: "find_sensitive_index name = Some i \<Longrightarrow> get_security_level name = TOOL_SEC_SENSITIVE"
  by (auto simp: find_sensitive_index_def get_security_level_def s_sensitive_names_def s_sec_table_def split: if_splits)

lemma ring_holds_later: "ring_holds ts now rs \<Longrightarrow> now \<le> now' \<Longrightarrow> ring_holds ts now' rs"
  by (fastforce simp: ring_holds_def)

lemma ring_holds_expire:
  assumes "ring_holds ts now rs" "now \<le> now'" "recorded rs1 = dropWhile (too_old now') (recorded rs)"
  shows "ring_holds ts now' rs1"
proof -
  obtain old where o: "ts = old @ recorded rs" "\<forall>t\<in>set old. too_old now t"
    using assms(1) by (auto simp: ring_holds_def)
  have "ts = (old @ takeWhile (too_old now') (recorded rs)) @ recorded rs1" using o(1) assms(3) by simp
  moreover have "too_old now' t" if "t \<in> set (old @ takeWhile (too_old now') (recorded rs))" for t
    using that o(2) assms(2) by (fastforce dest: set_takeWhileD)
  ultimately show ?thesis unfolding ring_holds_def by blast
qed

lemma ring_holds_record:
  assumes "ring_holds ts now rs" "rate_inv rs" "count rs < RATE_SLOTS" "spaced ts" "now \<le> t"
  shows "ring_holds (ts @ [t]) t (record_rate t rs)" "spaced (ts @ [t])"
proof -
  obtain old where o: "ts = old @ recorded rs" "\<forall>x\<in>set old. too_old now x"
    using assms(1) by (auto simp: ring_holds_def)
  then show "ring_holds (ts @ [t]) t (record_rate t rs)"
    using record_rate_recorded [OF assms(2,3)] assms(5) by (fastforce simp: ring_holds_def)
  have "too_old t (ts ! k)" if "k + RATE_SLOTS = length ts" for k
  proof -
    have "k < length old" using that o(1) assms(3) by simp
    then have "ts ! k \<in> set old" using o(1) by (simp add: nth_append)
    then show ?thesis using o(2) assms(5) by fastforce
  qed
  moreover have "0 < RATE_SLOTS" by (simp add: c_consts)
  ultimately show "spaced (ts @ [t])"
    using assms(4) by (auto simp: spaced_def nth_append less_Suc_eq)
qed

text \<open>A check of another tool leaves the ring of this one alone.\<close>

lemma tool_guard_check_ring:
  assumes "find_sensitive_index name = Some i" "guard_inv g" "ring_holds ts now0 (g ! i)" "now0 \<le> now"
    "tool_guard_check cj io now nm len file g = (r, g1)"
  shows "guard_inv g1 \<and> ring_holds ts now (g1 ! i)
    \<and> (nm = Some name \<longrightarrow> r = GUARD_ALLOW \<longrightarrow> count (g1 ! i) < RATE_SLOTS)"
proof (cases "g1 = g")
  case True
  have "count (g ! i) < RATE_SLOTS" if "nm = Some name" "r = GUARD_ALLOW"
  proof -
    obtain limited rs where c: "check_rate_limit now (g ! i) = (limited, rs)" by fastforce
    have i: "i < length g" using find_sensitive_index_bound [OF assms(1)] assms(2) by (simp add: guard_inv_def)
    then have inv: "rate_inv (g ! i)" using assms(2) by (simp add: guard_inv_def list_all_length)
    have "\<not> limited" "g1 = g[i := rs]"
      using assms(1,5) that c sensitive_level [OF assms(1)] by (auto simp: tool_guard_check_def split: if_splits)
    with check_rate_limit_recorded(3) [OF inv c] i True show ?thesis by (metis linorder_not_less nth_list_update_eq)
  qed
  with True assms ring_holds_later show ?thesis by blast
next
  case False
  then obtain n j limited rs where n: "nm = Some n" "find_sensitive_index n = Some j"
      "check_rate_limit now (g ! j) = (limited, rs)" "g1 = g[j := rs]" "r = GUARD_ALLOW \<longleftrightarrow> \<not> limited"
    using assms(5) by (auto simp: tool_guard_check_def split: option.splits if_splits prod.splits)
  have j: "j < length g" using find_sensitive_index_bound [OF n(2)] assms(2) by (simp add: guard_inv_def)
  then have inv: "rate_inv (g ! j)" using assms(2) by (simp add: guard_inv_def list_all_length)
  note c = check_rate_limit_recorded [OF inv n(3)]
  have g1: "guard_inv g1" using assms(2) c(1) n(4) by (simp add: guard_inv_def list_all_update)
  show ?thesis
  proof (cases "j = i")
    case True
    with j n(4,5) c ring_holds_expire [OF assms(3,4) c(2) [unfolded True]] g1 show ?thesis by auto
  next
    case False
    with n(1,2) assms(1) have "nm \<noteq> Some name" by auto
    with False n(4) g1 ring_holds_later [OF assms(3,4)] show ?thesis by simp
  qed
qed

lemma tool_guard_record_call_ring:
  assumes "find_sensitive_index name = Some i" "guard_inv g" "ring_holds ts now (g ! i)" "spaced ts" "now \<le> t"
    "nm = name \<Longrightarrow> count (g ! i) < RATE_SLOTS" "\<And>j. find_sensitive_index nm = Some j \<Longrightarrow> count (g ! j) < RATE_SLOTS"
  defines "ts' \<equiv> if nm = name then ts @ [t] else ts"
  shows "guard_inv (tool_guard_record_call t nm g) \<and> ring_holds ts' t (tool_guard_record_call t nm g ! i) \<and> spaced ts'"
proof (cases "find_sensitive_index nm")
  case None
  with assms(1) have "nm \<noteq> name" by auto
  with None assms ring_holds_later [OF assms(3,5)] show ?thesis by (simp add: tool_guard_record_call_def)
next
  case (Some j)
  have j: "j < length g" using find_sensitive_index_bound [OF Some] assms(2) by (simp add: guard_inv_def)
  then have inv: "rate_inv (g ! j)" using assms(2) by (simp add: guard_inv_def list_all_length)
  have g1: "guard_inv (g[j := record_rate t (g ! j)])"
    using assms(2) record_rate_recorded(1) [OF inv assms(7) [OF Some]] by (simp add: guard_inv_def list_all_update)
  show ?thesis
  proof (cases "nm = name")
    case True
    with Some assms(1) have "j = i" by simp
    with True Some j g1 ring_holds_record [OF assms(3) _ _ assms(4,5)] inv assms(6) show ?thesis
      by (simp add: tool_guard_record_call_def ts'_def)
  next
    case False
    with Some assms(1) find_sensitive_index_inj have "j \<noteq> i" by blast
    with False Some g1 ring_holds_later [OF assms(3,5)] assms(4) show ?thesis
      by (simp add: tool_guard_record_call_def ts'_def)
  qed
qed

lemma execute_ring:
  assumes "find_sensitive_index name = Some i" "guard_inv g" "ring_holds ts now0 (g ! i)" "spaced ts"
    "now0 \<le> now" "now \<le> t"
    "tool_registry_execute cj io now t reg nm input osize file g = (ret, out, runs, g')"
  defines "ts' \<equiv> if ret = OK \<and> nm = Some name then ts @ [t] else ts"
  shows "guard_inv g' \<and> ring_holds ts' t (g' ! i) \<and> spaced ts'"
proof -
  obtain r g1 where c: "tool_guard_check cj io now nm (case input of None \<Rightarrow> 0 | Some i \<Rightarrow> length i) file g = (r, g1)"
    by fastforce
  note k = tool_guard_check_ring [OF assms(1-3,5) c]
  show ?thesis
  proof (cases "r = GUARD_ALLOW \<and> ret = OK")
    case False
    then have "g' = g1" "ret \<noteq> OK"
      using assms(7) c by (auto simp: tool_registry_execute_def split: if_splits prod.splits)
    with k ring_holds_later [of ts now "g1 ! i" t] assms(4,6) show ?thesis by (simp add: ts'_def)
  next
    case True
    then obtain n where n: "nm = Some n" using c by (cases nm) (auto simp: tool_guard_check_def)
    have g': "g' = tool_guard_record_call t n g1"
      using True assms(7) c n by (auto simp: tool_registry_execute_def split: if_splits prod.splits)
    have "count (g1 ! j) < RATE_SLOTS" if j: "find_sensitive_index n = Some j" for j
    proof -
      have "ring_holds (recorded (g ! j)) now0 (g ! j)" by (simp add: ring_holds_def)
      from tool_guard_check_ring [OF j assms(2) this assms(5) c] n True show ?thesis by simp
    qed
    with tool_guard_record_call_ring [OF assms(1) _ _ assms(4,6), of g1 n] k n g' True assms(1)
    show ?thesis by (simp add: ts'_def)
  qed
qed

lemma run_calls_spaced:
  "find_sensitive_index name = Some i \<Longrightarrow> guard_inv g \<Longrightarrow> ring_holds ts now0 (g ! i) \<Longrightarrow> spaced ts
   \<Longrightarrow> sorted (now0 # clock_reads cs) \<Longrightarrow> spaced (ts @ success_times name cs (fst (run_calls cj io reg cs g)))"
proof (induction cs arbitrary: g ts now0)
  case Nil
  then show ?case by (simp add: success_times_def)
next
  case (Cons c cs)
  obtain ret out runs g1 where e: "tool_registry_execute cj io (tc_now c) (tc_done c) reg (tc_name c) (tc_input c)
      (tc_osize c) (tc_file c) g = (ret, out, runs, g1)" by (metis prod_cases4)
  have o: "now0 \<le> tc_now c" "tc_now c \<le> tc_done c" "sorted (tc_done c # clock_reads cs)"
    using Cons.prems(5) by (auto simp: clock_reads_def)
  note s = execute_ring [OF Cons.prems(1-4) o(1,2) e]
  from Cons.IH [OF Cons.prems(1) s [THEN conjunct1] s [THEN conjunct2, THEN conjunct1]
      s [THEN conjunct2, THEN conjunct2] o(3)]
  show ?case by (auto simp: e success_times_def split: prod.splits if_splits)
qed

section \<open>Properties\<close>

text \<open>
  C20. The rate limit of a sensitive tool holds over every sequence of tool calls, whatever the
  tools do and whatever other tools are called between: with a clock that does not run
  backwards, of any eleven consecutive successful calls of the tool the last one ends more
  than 60 s after the first one, so that no 60 s window holds more than ten.
\<close>

theorem rate_limit_enforced:
  assumes "name \<in> set s_sensitive_names" "sorted (clock_reads cs)"
    "run_calls cj io reg cs (snd (tool_guard_init (replicate 3 rs0))) = (rets, g)"
    "k + RATE_SLOTS < length (success_times name cs rets)"
  shows "success_times name cs rets ! (k + RATE_SLOTS) - success_times name cs rets ! k > AGENT_TOOL_RATE_LIMIT_WINDOW_SEC"
proof -
  let ?g = "snd (tool_guard_init (replicate 3 rs0))"
  have g: "?g = replicate 3 rate_zero" by (simp add: tool_guard_init_def map_replicate_const)
  then have inv: "guard_inv ?g" by (simp add: guard_inv_def s_sensitive_names_def rate_zero_inv list_all_iff)
  obtain i where i: "find_sensitive_index name = Some i"
    using assms(1) by (cases "find_sensitive_index name") (auto simp: find_sensitive_index_def first_idx_None)
  then have "?g ! i = rate_zero" using find_sensitive_index_bound [OF i] g by (simp add: s_sensitive_names_def)
  then have rh: "ring_holds [] now (?g ! i)" for now by (simp add: ring_holds_def rate_zero_inv)
  have "sorted (Min (set (0 # clock_reads cs)) # clock_reads cs)" using assms(2) by simp
  from run_calls_spaced [OF i inv rh _ this, of cj io reg] assms(3,4) show ?thesis
    by (simp add: spaced_def)
qed

text \<open>Ten calls at time 100, one more at 130, which is refused, and one at 161.\<close>

definition shell_call :: "int \<Rightarrow> tool_call" where
  "shell_call t = \<lparr>tc_name = Some ''run_shell'', tc_input = Some ''{}'', tc_osize = 64, tc_file = None, tc_now = t, tc_done = t\<rparr>"

definition shell_calls :: "tool_call list" where
  "shell_calls = map shell_call (replicate 10 100 @ [130, 161])"

definition shell_registry :: registry where
  "shell_registry = \<lparr>s_tools = [\<lparr>at_name = ''run_shell'', at_execute = (\<lambda>_ _. (OK, ''done''))\<rparr>],
     mcp_bridge = None, s_providers = []\<rparr>"

lemma shell_execute:
  assumes "g \<noteq> []" "check_rate_limit t (g ! 0) = (limited, rs)"
  shows "tool_registry_execute sample_cj good_io t t shell_registry (Some ''run_shell'') (Some ''{}'') 64 None g =
    (if limited then (ERROR, cstr_copy 64 (blocked_text (Some ''run_shell'') GUARD_DENY_RATE_LIMIT), [], g[0 := rs])
     else (OK, ''done'', [Builtin 0], g[0 := record_rate t rs]))"
proof -
  have "tool_guard_is_enabled sample_cj good_io ''run_shell'' None"
    by (simp add: tool_guard_is_enabled_def guard_key_def claw_config_get_def load_json_def sample_cj_def)
  moreover have "get_security_level ''run_shell'' = TOOL_SEC_SENSITIVE" "find_sensitive_index ''run_shell'' = Some 0"
    by (simp_all add: get_security_level_def find_sensitive_index_def s_sec_table_def s_sensitive_names_def)
  ultimately show ?thesis using assms
    by (auto simp: tool_registry_execute_def tool_guard_check_def execute_allowed_def shell_registry_def
        tool_guard_record_call_def c_consts)
qed

text \<open>The return codes of such calls from the rate limiter alone.\<close>

fun limiter_rets :: "int list \<Rightarrow> rate_state \<Rightarrow> int list" where
  "limiter_rets [] rs = []"
| "limiter_rets (t # ts) rs =
     (case check_rate_limit t rs of (limited, rs1) \<Rightarrow>
        if limited then ERROR # limiter_rets ts rs1 else OK # limiter_rets ts (record_rate t rs1))"

lemma run_shell_calls:
  "g \<noteq> [] \<Longrightarrow> fst (run_calls sample_cj good_io shell_registry (map shell_call ts) g) = limiter_rets ts (g ! 0)"
proof (induction ts arbitrary: g)
  case Nil
  then show ?case by simp
next
  case (Cons t ts)
  obtain limited rs where c: "check_rate_limit t (g ! 0) = (limited, rs)" by fastforce
  note e = shell_execute [OF Cons.prems c]
  from Cons.IH [of "g[0 := rs]"] Cons.IH [of "g[0 := record_rate t rs]"] Cons.prems c show ?case
    by (auto simp: shell_call_def e split: prod.splits)
qed

theorem rate_limit_enforced_witness:
  "fst (run_calls sample_cj good_io shell_registry shell_calls (snd (tool_guard_init (replicate 3 rate_zero))))
     = replicate 10 OK @ [ERROR, OK]
   \<and> success_times ''run_shell'' shell_calls (replicate 10 OK @ [ERROR, OK]) ! (0 + RATE_SLOTS)
     - success_times ''run_shell'' shell_calls (replicate 10 OK @ [ERROR, OK]) ! 0 > AGENT_TOOL_RATE_LIMIT_WINDOW_SEC"
proof
  let ?run = "run_calls sample_cj good_io shell_registry shell_calls (snd (tool_guard_init (replicate 3 rate_zero)))"
  show r: "fst ?run = replicate 10 OK @ [ERROR, OK]"
    unfolding shell_calls_def
    by (subst run_shell_calls) (simp add: tool_guard_init_def, code_simp)
  have "sorted (clock_reads shell_calls)" by code_simp
  moreover have "0 + RATE_SLOTS < length (success_times ''run_shell'' shell_calls (replicate 10 OK @ [ERROR, OK]))" by code_simp
  moreover have "?run = (replicate 10 OK @ [ERROR, OK], snd ?run)" using r by (metis prod.collapse)
  moreover have "''run_shell'' \<in> set s_sensitive_names" by (simp add: s_sensitive_names_def)
  ultimately show "success_times ''run_shell'' shell_calls (replicate 10 OK @ [ERROR, OK]) ! (0 + RATE_SLOTS)
     - success_times ''run_shell'' shell_calls (replicate 10 OK @ [ERROR, OK]) ! 0 > AGENT_TOOL_RATE_LIMIT_WINDOW_SEC"
    using rate_limit_enforced by blast
qed

text \<open>
  Disabling a tool stops it: given the documented behaviour of the JSON library and a
  working disk, \<^verbatim>\<open>tool_guard_set_enabled\<close> with false succeeds for a name of at most 50
  characters; from then on, whatever other settings are written or deleted, every call of the
  tool is refused with an error text and runs nothing, whatever its input. Enabling it again
  lets the guard pass the tool's calls.
\<close>

theorem disabled_tool_blocked:
  assumes "env_good (cj, io, file)" "length name \<le> 50"
    "list_all (Not \<circ> op_touches (cj_same_key cj) (''tool_enabled_'' @ name)) ops"
    "tool_guard_set_enabled cj io name False file = (ret, file1)"
    "cfg_run ops (cj, io, file1) = (rets, (cj', io', file2))"
  shows "ret = OK
    \<and> tool_registry_execute cj' io' now t reg (Some name) input osize file2 g =
        (ERROR, cstr_copy osize (blocked_text (Some name) GUARD_DENY_DISABLED), [], g)
    \<and> tool_guard_is_enabled cj' io' name (snd (tool_guard_set_enabled cj' io' name True file2))"
proof -
  let ?k = "''tool_enabled_'' @ name"
  have k: "guard_key name = Some ?k" using assms(2) by (simp add: guard_key_def)
  have set1: "env_set (cj, io, file) ?k ''0'' = (ret, (cj, io, file1))"
    using assms(4) k by (simp add: tool_guard_set_enabled_def env_set_def)
  with cs.op_refines [OF assms(1), of "Put_op ?k ''0''"] have "ret = OK" by simp
  have off: "env_good (cj', io', file2)" "env_get (cj', io', file2) ?k 8 = Some ''0''"
    using cs.put_stays [OF assms(1), of ?k ops "''0''"] assms(3,5) set1 by (auto simp: env_same_def read_setting_def)
  then have "\<not> tool_guard_is_enabled cj' io' name file2"
    using k by (simp add: tool_guard_is_enabled_def env_get_def)
  moreover have "tool_guard_is_enabled cj' io' name (snd (tool_guard_set_enabled cj' io' name True file2))"
  proof -
    obtain r f where s: "tool_guard_set_enabled cj' io' name True file2 = (r, f)" by fastforce
    then have "env_set (cj', io', file2) ?k ''1'' = (r, (cj', io', f))"
      using k by (simp add: tool_guard_set_enabled_def env_set_def)
    with cs.put_stays [OF off(1), of ?k "[]" "''1''"] have "env_get (cj', io', f) ?k 8 = Some ''1''"
      by (simp add: read_setting_def)
    with k s show ?thesis by (simp add: tool_guard_is_enabled_def env_get_def)
  qed
  ultimately show ?thesis using \<open>ret = OK\<close>
    by (simp add: tool_registry_execute_def tool_guard_check_def)
qed

theorem disabled_tool_blocked_witness:
  "tool_registry_execute sample_cj good_io 5 6 shell_registry (Some ''run_shell'') (Some ''{}'') 30
      (snd (tool_guard_set_enabled sample_cj good_io ''run_shell'' False None)) (replicate 3 rate_zero)
   = (ERROR, cstr_copy 30 (blocked_text (Some ''run_shell'') GUARD_DENY_DISABLED), [], replicate 3 rate_zero)"
proof -
  obtain ret f where s: "tool_guard_set_enabled sample_cj good_io ''run_shell'' False None = (ret, f)" by (metis surj_pair)
  show ?thesis unfolding s snd_conv
    by (rule disabled_tool_blocked [OF sample_env(3) _ _ s, of "[]" "[]", THEN conjunct2, THEN conjunct1]) simp_all
qed

section \<open>What the guard does not bound\<close>

text \<open>
  The check and the record of a call are separate critical sections. Two threads (the agent
  loop, the cron service and the node client all execute tools) that check before either
  records are both admitted when nine calls are in the window: eleven calls in one window.
\<close>

definition nine_calls :: rate_state where
  "nine_calls = fold record_rate (replicate 9 100) rate_zero"

theorem concurrent_checks_exceed_limit:
  "check_rate_limit 100 nine_calls = (False, nine_calls)
   \<and> recorded (record_rate 100 (record_rate 100 nine_calls)) = replicate 10 100"
  by code_simp

text \<open>A sensitive tool that reports an error is not recorded, so its calls are never limited.\<close>

theorem failed_calls_unlimited:
  assumes "tool_guard_check cj io now (Some name) (case input of None \<Rightarrow> 0 | Some i \<Rightarrow> length i) file g = (GUARD_ALLOW, g1)"
    "execute_allowed reg name input osize = (ret, out, runs)" "ret \<noteq> OK"
  shows "tool_registry_execute cj io now t reg (Some name) input osize file g = (ret, out, runs, g1)"
  using assms by (simp add: tool_registry_execute_def)

end
