(* ===== verification/Wifi_Autoconnect.thy ===== *)
theory Wifi_Autoconnect
  imports Prelude "HOL-Library.State_Monad"
begin

text \<open>
  Reconnecting to the saved Wi-Fi network
  (\<^verbatim>\<open>services/connectivity_service/wifi/src/rvt_wifi_autoconnect.c\<close>).

  The code is a sequence of calls of the wireless API, the network library and the display
  service. The state is the history of the calls made so far with their results; the results
  come from an arbitrary environment \<open>env\<close> that may depend on the whole history, so that a
  statement about every \<open>env\<close> holds for every behaviour of the driver, the access point and
  the other tasks. The JSON parser and the conversions of \<^verbatim>\<open>sscanf\<close> for a hardware address are
  parameters. The build has the display service when \<open>e_display\<close> holds; the copy of a debug
  configuration is configured out. Logging is left out.
\<close>

section \<open>Calls and their environment\<close>

datatype sys_call =
    Make_socket | Close int
  | Wext_disconnect int | Set_ifdown int | Set_ifup int | Set_mode_managed int
  | Escan_init int string | Scan_stat int | Scan_coll int
  | Set_wpa_version int | Set_cipher_ccmp int | Set_key_ext int string
  | Set_essid int string bool | Set_ap int "8 word list"
  | Obtain_ipv4addr | Get_ipv4addr | Get_dripv4addr | Zero_ipv4addr | Zero_netmask | Zero_dripv4addr
  | Usleep nat | Sleep nat
  | Display_is_running | Display_stop | Display_start | Create_display_task

type_synonym history = "(sys_call \<times> int) list"

record net_env =
  e_ret :: "history \<Rightarrow> sys_call \<Rightarrow> int"
  e_errno :: "history \<Rightarrow> int"
  e_addr :: "history \<Rightarrow> 32 word"
  e_scan :: "history \<Rightarrow> string option list"
  e_display :: bool

type_synonym 'a io = "(history, 'a) state"

definition sys :: "net_env \<Rightarrow> sys_call \<Rightarrow> int io" where
  "sys env c = State (\<lambda>h. (e_ret env h c, h @ [(c, e_ret env h c)]))"

definition errno_io :: "net_env \<Rightarrow> int io" where
  "errno_io env = State (\<lambda>h. (e_errno env h, h))"

definition addr_io :: "net_env \<Rightarrow> 32 word io" where
  "addr_io env = State (\<lambda>h. (e_addr env h, h))"

definition scan_io :: "net_env \<Rightarrow> string option list io" where
  "scan_io env = State (\<lambda>h. (e_scan env h, h))"

abbreviation (input) ret :: "'a \<Rightarrow> 'a io" where
  "ret \<equiv> State_Monad.return"


definition RVT_CONN_DHCP_TRIES :: nat where [c_consts]: "RVT_CONN_DHCP_TRIES = 3"
definition RVT_CONN_DHCP_RETRY_DELAY_US :: nat where [c_consts]: "RVT_CONN_DHCP_RETRY_DELAY_US = 2000000"
definition RVT_CONN_READY_WAIT_TRIES :: nat where [c_consts]: "RVT_CONN_READY_WAIT_TRIES = 10"
definition RVT_CONN_READY_WAIT_US :: nat where [c_consts]: "RVT_CONN_READY_WAIT_US = 500000"
definition RVT_CONN_SCAN_WAIT_TRIES :: nat where [c_consts]: "RVT_CONN_SCAN_WAIT_TRIES = 25"
definition RVT_CONN_SCAN_WAIT_US :: nat where [c_consts]: "RVT_CONN_SCAN_WAIT_US = 200000"
definition RVT_CONN_MODE_RESET_WAIT_US :: nat where [c_consts]: "RVT_CONN_MODE_RESET_WAIT_US = 300000"
definition RVT_CONN_ASSOC_WAIT_US :: nat where [c_consts]: "RVT_CONN_ASSOC_WAIT_US = 3000000"

text \<open>\<^verbatim>\<open>192.168.49.1\<close> as \<^verbatim>\<open>s_addr\<close> on the little-endian target.\<close>

definition RVT_CONN_AP_IP :: "32 word" where "RVT_CONN_AP_IP = 0x0131A8C0"

definition g_retry_delay_seconds :: "nat list" where "g_retry_delay_seconds = [1, 20, 40]"

section \<open>The saved configuration\<close>

record wifi_config =
  cfg_ssid :: string
  cfg_psk :: string
  cfg_bssid :: string

text \<open>
  The results of the system for reading the file: whether it opens, the error number
  otherwise, whether \<^verbatim>\<open>fstat\<close> succeeds, the content and what \<^verbatim>\<open>read\<close> returns.
\<close>

record file_io =
  f_opens :: bool
  f_errno :: int
  f_stat :: bool
  f_content :: string
  f_nread :: int

definition conn_read_file :: "file_io \<Rightarrow> nat \<Rightarrow> int + string" where
  "conn_read_file f buf_len =
     (if buf_len = 0 then Inl (- EINVAL)
      else if \<not> f_opens f then Inl (- f_errno f)
      else if f_stat f \<and> f_content f = [] then Inl (- ENODATA)
      else if f_nread f \<le> 0 then Inl (if f_nread f = 0 then - ENODATA else - f_errno f)
      else Inr (take (min (nat (f_nread f)) (buf_len - 1)) (f_content f)))"

type_synonym json_object = "string \<Rightarrow> string option"

definition conn_copy_json_string :: "json_object \<Rightarrow> string \<Rightarrow> nat \<Rightarrow> int \<times> string" where
  "conn_copy_json_string root name out_len =
     (if out_len = 0 then (- EINVAL, [])
      else (case root name of
              None \<Rightarrow> (- ENOENT, [])
            | Some v \<Rightarrow> if length v \<ge> out_len then (- ENOSPC, []) else (0, v)))"

definition conn_load_config :: "(string \<Rightarrow> json_object option option) \<Rightarrow> file_io \<Rightarrow> int + wifi_config" where
  "conn_load_config parse f =
     (case conn_read_file f 512 of
        Inl e \<Rightarrow> Inl e
      | Inr json \<Rightarrow>
          (case parse json of
             None \<Rightarrow> Inl (- EINVAL)
           | Some None \<Rightarrow> Inl (- EINVAL)
           | Some (Some wlan) \<Rightarrow>
               (let (r1, ssid) = conn_copy_json_string wlan ''ssid'' 33;
                    (r2, psk) = (if r1 = 0 then conn_copy_json_string wlan ''psk'' 64 else (r1, []));
                    bssid = (if r2 = 0 then snd (conn_copy_json_string wlan ''bssid'' 18) else [])
                in if r2 < 0 then Inl r2
                   else if ssid = [] \<or> psk = [] then Inl (- EINVAL)
                   else if length psk < 8 \<or> length psk > 63 then Inl (- EINVAL)
                   else Inr \<lparr>cfg_ssid = ssid, cfg_psk = psk, cfg_bssid = bssid\<rparr>)))"

section \<open>Interface state\<close>

definition conn_get_ip :: "net_env \<Rightarrow> (int \<times> 32 word) io" where
  "conn_get_ip env =
     do { r \<leftarrow> sys env Get_ipv4addr;
          addr \<leftarrow> addr_io env;
          e \<leftarrow> errno_io env;
          ret (if r < 0 then (- e, addr) else (if addr \<noteq> 0 then 0 else - ENETDOWN, addr)) }"

definition conn_get_gateway :: "net_env \<Rightarrow> (int \<times> 32 word) io" where
  "conn_get_gateway env =
     do { r \<leftarrow> sys env Get_dripv4addr;
          addr \<leftarrow> addr_io env;
          e \<leftarrow> errno_io env;
          ret (if r < 0 then (- e, addr) else (if addr \<noteq> 0 then 0 else - ENETDOWN, addr)) }"

definition conn_clear_ip_state :: "net_env \<Rightarrow> int io" where
  "conn_clear_ip_state env =
     do { r1 \<leftarrow> sys env Zero_ipv4addr;
          e1 \<leftarrow> errno_io env;
          r2 \<leftarrow> sys env Zero_netmask;
          e2 \<leftarrow> errno_io env;
          r3 \<leftarrow> sys env Zero_dripv4addr;
          e3 \<leftarrow> errno_io env;
          ret (let a = (if r1 < 0 then - e1 else 0); b = (if r2 < 0 \<and> a = 0 then - e2 else a)
               in if r3 < 0 \<and> b = 0 then - e3 else b) }"

definition conn_stop_display_if_running :: "net_env \<Rightarrow> unit io" where
  "conn_stop_display_if_running env =
     (if e_display env
      then do { r \<leftarrow> sys env Display_is_running;
                if r \<noteq> 0 then do { _ \<leftarrow> sys env Display_stop; ret () } else ret () }
      else ret ())"

definition conn_wifi_socket :: "net_env \<Rightarrow> int io" where
  "conn_wifi_socket env = sys env Make_socket"

definition conn_disconnect_wapi :: "net_env \<Rightarrow> unit io" where
  "conn_disconnect_wapi env =
     do { sock \<leftarrow> conn_wifi_socket env;
          if sock < 0 then ret ()
          else do { _ \<leftarrow> sys env (Wext_disconnect sock);
                    _ \<leftarrow> sys env (Close sock);
                    ret () } }"

definition conn_prepare_sta_wapi :: "net_env \<Rightarrow> int io" where
  "conn_prepare_sta_wapi env =
     do { _ \<leftarrow> conn_stop_display_if_running env;
          sock \<leftarrow> conn_wifi_socket env;
          if sock < 0 then ret sock
          else do {
            _ \<leftarrow> sys env (Wext_disconnect sock);
            r1 \<leftarrow> sys env (Set_ifdown sock);
            if r1 < 0 then do { _ \<leftarrow> sys env (Close sock); ret r1 }
            else do {
              _ \<leftarrow> sys env (Usleep RVT_CONN_MODE_RESET_WAIT_US);
              r2 \<leftarrow> sys env (Set_ifup sock);
              if r2 < 0 then do { _ \<leftarrow> sys env (Close sock); ret r2 }
              else do {
                r3 \<leftarrow> sys env (Set_mode_managed sock);
                if r3 < 0 then do { _ \<leftarrow> sys env (Close sock); ret r3 }
                else do {
                  _ \<leftarrow> sys env (Close sock);
                  _ \<leftarrow> conn_clear_ip_state env;
                  ret 0 } } } } }"

section \<open>Scan, connect, address\<close>

text \<open>The wait for the scan: a negative status is \<open>Inl\<close>, else the last status seen.\<close>

fun scan_wait :: "net_env \<Rightarrow> int \<Rightarrow> nat \<Rightarrow> int \<Rightarrow> (int + int) io" where
  "scan_wait env sock 0 r = ret (Inr r)"
| "scan_wait env sock (Suc tries) r =
     do { r1 \<leftarrow> sys env (Scan_stat sock);
          if r1 = 0 then ret (Inr r1)
          else if r1 < 0 then ret (Inl r1)
          else do { _ \<leftarrow> sys env (Usleep RVT_CONN_SCAN_WAIT_US);
                    scan_wait env sock tries r1 } }"

definition conn_scan_saved_ssid_wapi :: "net_env \<Rightarrow> string \<Rightarrow> int io" where
  "conn_scan_saved_ssid_wapi env ssid =
     (if ssid = [] then ret (- EINVAL)
      else do {
        sock \<leftarrow> conn_wifi_socket env;
        if sock < 0 then ret sock
        else do {
          r \<leftarrow> sys env (Escan_init sock ssid);
          if r < 0 then do { _ \<leftarrow> sys env (Close sock); ret r }
          else do {
            w \<leftarrow> scan_wait env sock RVT_CONN_SCAN_WAIT_TRIES r;
            case w of
              Inl e \<Rightarrow> do { _ \<leftarrow> sys env (Close sock); ret e }
            | Inr r1 \<Rightarrow>
                if r1 \<noteq> 0 then do { _ \<leftarrow> sys env (Close sock); ret (- ETIMEDOUT) }
                else do {
                  r2 \<leftarrow> sys env (Scan_coll sock);
                  found \<leftarrow> scan_io env;
                  _ \<leftarrow> sys env (Close sock);
                  ret (if r2 < 0 then r2 else if Some ssid \<in> set found then 0 else - ENOENT) } } } })"

definition conn_is_valid_bssid :: "(string \<Rightarrow> 8 word list) \<Rightarrow> string \<Rightarrow> bool" where
  "conn_is_valid_bssid sscanf_mac bssid = (bssid \<noteq> [] \<and> length (sscanf_mac bssid) = 6)"

definition conn_connect_saved_wifi_wapi ::
  "net_env \<Rightarrow> (string \<Rightarrow> 8 word list) \<Rightarrow> wifi_config \<Rightarrow> int io"
where
  "conn_connect_saved_wifi_wapi env sscanf_mac config =
     do { sock \<leftarrow> conn_wifi_socket env;
          if sock < 0 then ret sock
          else do {
            r1 \<leftarrow> sys env (Set_wpa_version sock);
            if r1 < 0 then do { _ \<leftarrow> sys env (Close sock); ret r1 }
            else do {
              r2 \<leftarrow> sys env (Set_cipher_ccmp sock);
              if r2 < 0 then do { _ \<leftarrow> sys env (Close sock); ret r2 }
              else do {
                r3 \<leftarrow> sys env (Set_key_ext sock (cfg_psk config));
                if r3 < 0 then do { _ \<leftarrow> sys env (Close sock); ret r3 }
                else do {
                  r4 \<leftarrow> (if conn_is_valid_bssid sscanf_mac (cfg_bssid config)
                         then do { r \<leftarrow> sys env (Set_essid sock (cfg_ssid config) True);
                                   if r = 0 then sys env (Set_ap sock (sscanf_mac (cfg_bssid config))) else ret r }
                         else sys env (Set_essid sock (cfg_ssid config) False));
                  _ \<leftarrow> sys env (Close sock);
                  if r4 < 0 then ret r4
                  else do { _ \<leftarrow> sys env (Usleep RVT_CONN_ASSOC_WAIT_US); ret 0 } } } } } }"

fun dhcp_tries :: "net_env \<Rightarrow> nat \<Rightarrow> int \<Rightarrow> int io" where
  "dhcp_tries env 0 r = ret (if r < 0 then r else - ETIMEDOUT)"
| "dhcp_tries env (Suc tries) r =
     do { r1 \<leftarrow> sys env Obtain_ipv4addr;
          if r1 = 0 then ret 0
          else if tries > 0
          then do { _ \<leftarrow> sys env (Usleep RVT_CONN_DHCP_RETRY_DELAY_US); dhcp_tries env tries r1 }
          else dhcp_tries env tries r1 }"

definition conn_obtain_ip :: "net_env \<Rightarrow> int io" where
  "conn_obtain_ip env = dhcp_tries env RVT_CONN_DHCP_TRIES (- ETIMEDOUT)"

definition rvt_wifi_autoconnect_is_ready :: "net_env \<Rightarrow> bool io" where
  "rvt_wifi_autoconnect_is_ready env =
     do { l \<leftarrow> conn_get_ip env;
          if fst l < 0 \<or> snd l = 0 \<or> snd l = RVT_CONN_AP_IP then ret False
          else do { r \<leftarrow> conn_get_gateway env;
                    ret (\<not> (fst r < 0 \<or> snd r = 0)) } }"

fun ready_tries :: "net_env \<Rightarrow> nat \<Rightarrow> int io" where
  "ready_tries env 0 = ret (- ETIMEDOUT)"
| "ready_tries env (Suc tries) =
     do { ready \<leftarrow> rvt_wifi_autoconnect_is_ready env;
          if ready then ret 0
          else do { _ \<leftarrow> sys env (Usleep RVT_CONN_READY_WAIT_US); ready_tries env tries } }"

definition conn_wait_ready :: "net_env \<Rightarrow> int io" where
  "conn_wait_ready env = ready_tries env RVT_CONN_READY_WAIT_TRIES"

section \<open>The display task and the whole reconnection\<close>

text \<open>The flag \<^verbatim>\<open>g_display_start_pending\<close> is an argument and the second result.\<close>

definition conn_start_display_if_ready :: "net_env \<Rightarrow> bool \<Rightarrow> (int \<times> bool) io" where
  "conn_start_display_if_ready env pending =
     (if \<not> e_display env then ret (0, pending)
      else do {
        running \<leftarrow> sys env Display_is_running;
        if running \<noteq> 0 then ret (0, pending)
        else if pending then ret (0, pending)
        else do { pid \<leftarrow> sys env Create_display_task;
                  if pid < 0 then ret (pid, False) else ret (0, True) } })"

text \<open>The task itself: the exit status of the task and the flag.\<close>

definition conn_start_display_task :: "net_env \<Rightarrow> (int \<times> bool) io" where
  "conn_start_display_task env =
     do { running \<leftarrow> sys env Display_is_running;
          r \<leftarrow> (if running = 0 then sys env Display_start else ret 0);
          ret (if r < 0 then 1 else 0, False) }"

fun reconnect_attempts ::
  "net_env \<Rightarrow> (string \<Rightarrow> 8 word list) \<Rightarrow> wifi_config \<Rightarrow> nat list \<Rightarrow> bool \<Rightarrow> (int \<times> bool) io"
where
  "reconnect_attempts env mac config [] pending = ret (- ETIMEDOUT, pending)"
| "reconnect_attempts env mac config (delay # delays) pending =
     do { _ \<leftarrow> (if delay > 0 then sys env (Sleep delay) else ret 0);
          r1 \<leftarrow> conn_scan_saved_ssid_wapi env (cfg_ssid config);
          if r1 < 0
          then (if delays = [] then ret (r1, pending) else reconnect_attempts env mac config delays pending)
          else do {
            r2 \<leftarrow> conn_connect_saved_wifi_wapi env mac config;
            if r2 < 0
            then (if delays = [] then ret (r2, pending) else reconnect_attempts env mac config delays pending)
            else do {
              r3 \<leftarrow> conn_obtain_ip env;
              if r3 < 0
              then (if delays = [] then ret (r3, pending)
                    else do { _ \<leftarrow> conn_disconnect_wapi env;
                              _ \<leftarrow> conn_clear_ip_state env;
                              reconnect_attempts env mac config delays pending })
              else do {
                r4 \<leftarrow> conn_wait_ready env;
                if r4 < 0
                then (if delays = [] then ret (r4, pending)
                      else do { _ \<leftarrow> conn_disconnect_wapi env;
                                _ \<leftarrow> conn_clear_ip_state env;
                                reconnect_attempts env mac config delays pending })
                else do {
                  _ \<leftarrow> conn_get_ip env;
                  _ \<leftarrow> conn_get_gateway env;
                  d \<leftarrow> conn_start_display_if_ready env pending;
                  ret (0, snd d) } } } } }"

definition rvt_wifi_autoconnect_start ::
  "net_env \<Rightarrow> (string \<Rightarrow> 8 word list) \<Rightarrow> (string \<Rightarrow> json_object option option) \<Rightarrow> file_io \<Rightarrow> bool \<Rightarrow> (int \<times> bool) io"
where
  "rvt_wifi_autoconnect_start env mac parse f pending =
     (case conn_load_config parse f of
        Inl e \<Rightarrow> ret (e, pending)
      | Inr config \<Rightarrow>
          do { r \<leftarrow> conn_prepare_sta_wapi env;
               if r < 0 then ret (r, pending)
               else reconnect_attempts env mac config g_retry_delay_seconds pending })"

section \<open>Reasoning about histories\<close>

definition wp :: "'a io \<Rightarrow> ('a \<Rightarrow> history \<Rightarrow> bool) \<Rightarrow> history \<Rightarrow> bool" where
  "wp f Q h = (case run_state f h of (r, h') \<Rightarrow> Q r h')"

named_theorems wp_simps \<open>weakest preconditions of the monadic operations\<close>

lemma wp_bind [wp_simps]: "wp (State_Monad.bind f g) Q h = wp f (\<lambda>r. wp (g r) Q) h"
  by (simp add: wp_def State_Monad.bind_def split: prod.splits)

lemma wp_ret [wp_simps]: "wp (ret x) Q h = Q x h"
  by (simp add: wp_def)

lemma wp_sys [wp_simps]: "wp (sys env c) Q h = Q (e_ret env h c) (h @ [(c, e_ret env h c)])"
  by (simp add: wp_def sys_def)

lemma wp_answers [wp_simps]:
  "wp (errno_io env) Q' h = Q' (e_errno env h) h" "wp (addr_io env) Qa h = Qa (e_addr env h) h"
  "wp (scan_io env) Qs h = Qs (e_scan env h) h"
  by (simp_all add: wp_def errno_io_def addr_io_def scan_io_def)

lemma wp_if [wp_simps]: "wp (if b then f else g) Q h = (if b then wp f Q h else wp g Q h)"
  by simp

lemma wp_conseq: "wp f Q h \<Longrightarrow> (\<And>r h'. Q r h' \<Longrightarrow> R r h') \<Longrightarrow> wp f R h"
  by (auto simp: wp_def)

text \<open>
  The protocol of the calls: wireless calls go to an open socket, a closed socket was open,
  keys and network names have legal lengths. \<open>check_calls\<close> yields the sockets that are open.
\<close>

fun call_sock :: "sys_call \<Rightarrow> int option" where
  "call_sock (Wext_disconnect s) = Some s"
| "call_sock (Set_ifdown s) = Some s"
| "call_sock (Set_ifup s) = Some s"
| "call_sock (Set_mode_managed s) = Some s"
| "call_sock (Escan_init s _) = Some s"
| "call_sock (Scan_stat s) = Some s"
| "call_sock (Scan_coll s) = Some s"
| "call_sock (Set_wpa_version s) = Some s"
| "call_sock (Set_cipher_ccmp s) = Some s"
| "call_sock (Set_key_ext s _) = Some s"
| "call_sock (Set_essid s _ _) = Some s"
| "call_sock (Set_ap s _) = Some s"
| "call_sock (Close s) = Some s"
| "call_sock _ = None"

fun call_args_ok :: "sys_call \<Rightarrow> bool" where
  "call_args_ok (Set_key_ext _ k) = (8 \<le> length k \<and> length k \<le> 63)"
| "call_args_ok (Set_essid _ n _) = (0 < length n \<and> length n \<le> 32)"
| "call_args_ok (Escan_init _ n) = (0 < length n \<and> length n \<le> 32)"
| "call_args_ok (Set_ap _ m) = (length m = 6)"
| "call_args_ok _ = True"

definition check_call :: "sys_call \<times> int \<Rightarrow> int list \<Rightarrow> int list option" where
  "check_call e opened =
     (case e of (c, r) \<Rightarrow>
        if \<not> call_args_ok c then None
        else if (case call_sock c of None \<Rightarrow> False | Some s \<Rightarrow> s \<notin> set opened) then None
        else (case c of
                Make_socket \<Rightarrow> Some (if r < 0 then opened else r # opened)
              | Close s \<Rightarrow> Some (remove1 s opened)
              | _ \<Rightarrow> Some opened))"

definition check_calls :: "history \<Rightarrow> int list option" where
  "check_calls h = fold (\<lambda>e st. Option.bind st (check_call e)) h (Some [])"

text \<open>The time this module itself sleeps; what happens inside the other calls is theirs.\<close>

fun call_us :: "sys_call \<Rightarrow> nat" where
  "call_us (Usleep n) = n"
| "call_us (Sleep n) = n * 1000000"
| "call_us _ = 0"

definition slept_us :: "history \<Rightarrow> nat" where
  "slept_us h = sum_list (map (call_us \<circ> fst) h)"

lemma check_calls_append: "check_calls (h @ es) = fold (\<lambda>e st. Option.bind st (check_call e)) es (check_calls h)"
  by (simp add: check_calls_def)

lemma slept_us_append: "slept_us (h @ es) = slept_us h + sum_list (map (call_us \<circ> fst) es)"
  by (simp add: slept_us_def)

lemmas call_simps = check_calls_append slept_us_append check_call_def

text \<open>An operation that leaves no socket open and sleeps at most \<open>b\<close> microseconds.\<close>

definition tidy :: "nat \<Rightarrow> 'a io \<Rightarrow> bool" where
  "tidy b f \<longleftrightarrow> (\<forall>h opened. check_calls h = Some opened \<longrightarrow>
     wp f (\<lambda>_ h'. check_calls h' = Some opened \<and> slept_us h' \<le> slept_us h + b) h)"

lemma tidyI:
  assumes "\<And>h opened. check_calls h = Some opened \<Longrightarrow>
    wp f (\<lambda>_ h'. check_calls h' = Some opened \<and> slept_us h' \<le> slept_us h + b) h"
  shows "tidy b f"
  using assms by (simp add: tidy_def)

lemma tidyD:
  assumes "tidy b f" "check_calls h = Some opened" "run_state f h = (r, h')"
  shows "check_calls h' = Some opened" "slept_us h' \<le> slept_us h + b"
proof -
  have "wp f (\<lambda>_ h'. check_calls h' = Some opened \<and> slept_us h' \<le> slept_us h + b) h"
    using assms(1,2) by (simp add: tidy_def)
  with assms(3) show "check_calls h' = Some opened" "slept_us h' \<le> slept_us h + b" by (simp_all add: wp_def)
qed

lemma tidy_mono: "tidy a f \<Longrightarrow> a \<le> b \<Longrightarrow> tidy b f"
  unfolding tidy_def by (fastforce intro: wp_conseq)

lemma tidy_ret: "tidy b (ret x)"
  by (simp add: tidy_def wp_simps)

lemma tidy_bind:
  assumes "tidy a f" "\<And>x. tidy (b - a) (g x)" "a \<le> b"
  shows "tidy b (State_Monad.bind f g)"
proof (rule tidyI)
  fix h opened
  assume h: "check_calls h = Some opened"
  show "wp (State_Monad.bind f g) (\<lambda>_ h'. check_calls h' = Some opened \<and> slept_us h' \<le> slept_us h + b) h"
    unfolding wp_bind
  proof (rule wp_conseq)
    show "wp f (\<lambda>_ h'. check_calls h' = Some opened \<and> slept_us h' \<le> slept_us h + a) h"
      using assms(1) h by (simp add: tidy_def)
  next
    fix x h1
    assume h1: "check_calls h1 = Some opened \<and> slept_us h1 \<le> slept_us h + a"
    have "wp (g x) (\<lambda>_ h'. check_calls h' = Some opened \<and> slept_us h' \<le> slept_us h1 + (b - a)) h1"
      using assms(2) h1 by (simp add: tidy_def)
    then show "wp (g x) (\<lambda>_ h'. check_calls h' = Some opened \<and> slept_us h' \<le> slept_us h + b) h1"
      by (rule wp_conseq) (use h1 assms(3) in auto)
  qed
qed

lemma tidy_if: "(c \<Longrightarrow> tidy b f) \<Longrightarrow> (\<not> c \<Longrightarrow> tidy b g) \<Longrightarrow> tidy b (if c then f else g)"
  by simp

lemma tidy_plain: "call_sock c = None \<Longrightarrow> c \<noteq> Make_socket \<Longrightarrow> call_args_ok c \<Longrightarrow> call_us c \<le> b \<Longrightarrow> tidy b (sys env c)"
  by (rule tidyI) (auto simp: wp_simps call_simps split: sys_call.splits)

lemma tidy_answers: "tidy b (errno_io env)" "tidy b (addr_io env)" "tidy b (scan_io env)"
  by (simp_all add: tidy_def wp_simps)

lemmas tidy_intros = tidy_ret tidy_answers tidy_if

lemma get_ip_tidy: "tidy b (conn_get_ip env)" "tidy b (conn_get_gateway env)" "tidy b (conn_clear_ip_state env)"
  "tidy b (conn_stop_display_if_running env)" "tidy b (rvt_wifi_autoconnect_is_ready env)"
  "tidy b (conn_start_display_if_ready env pending)"
  by (rule tidyI, simp add: wp_simps call_simps conn_get_ip_def conn_get_gateway_def conn_clear_ip_state_def
      conn_stop_display_if_running_def rvt_wifi_autoconnect_is_ready_def conn_start_display_if_ready_def split: if_splits)+

lemma disconnect_tidy: "tidy b (conn_disconnect_wapi env)"
  by (rule tidyI) (simp add: conn_disconnect_wapi_def conn_wifi_socket_def wp_simps call_simps)

lemma prepare_tidy: "tidy RVT_CONN_MODE_RESET_WAIT_US (conn_prepare_sta_wapi env)"
  unfolding conn_prepare_sta_wapi_def
  apply (rule tidy_bind [OF get_ip_tidy(4) _ le0])
  apply (rule tidyI)
  by (simp add: conn_wifi_socket_def conn_clear_ip_state_def wp_simps call_simps)

lemma connect_tidy:
  assumes "8 \<le> length (cfg_psk config)" "length (cfg_psk config) \<le> 63"
    "0 < length (cfg_ssid config)" "length (cfg_ssid config) \<le> 32"
  shows "tidy RVT_CONN_ASSOC_WAIT_US (conn_connect_saved_wifi_wapi env mac config)"
  using assms by (intro tidyI)
    (simp add: conn_connect_saved_wifi_wapi_def conn_wifi_socket_def conn_is_valid_bssid_def wp_simps call_simps)

lemma scan_wait_keeps:
  assumes "check_calls h = Some opened" "sock \<in> set opened"
  shows "wp (scan_wait env sock tries r) (\<lambda>_ h'. check_calls h' = Some opened
    \<and> slept_us h' \<le> slept_us h + tries * RVT_CONN_SCAN_WAIT_US) h"
  using assms
proof (induction tries arbitrary: h r)
  case 0
  then show ?case by (simp add: wp_simps)
next
  case (Suc tries)
  let ?s = "e_ret env h (Scan_stat sock)"
  let ?h1 = "h @ [(Scan_stat sock, ?s)]"
  let ?h2 = "?h1 @ [(Usleep RVT_CONN_SCAN_WAIT_US, e_ret env ?h1 (Usleep RVT_CONN_SCAN_WAIT_US))]"
  have c: "check_calls ?h2 = Some opened" "slept_us ?h2 = slept_us h + RVT_CONN_SCAN_WAIT_US"
    using Suc.prems by (simp_all add: call_simps)
  have "wp (scan_wait env sock tries ?s) (\<lambda>_ h'. check_calls h' = Some opened
      \<and> slept_us h' \<le> slept_us h + Suc tries * RVT_CONN_SCAN_WAIT_US) ?h2"
    using Suc.IH [OF c(1) Suc.prems(2), of ?s] by (rule wp_conseq) (simp add: slept_us_append)
  with Suc.prems show ?case by (simp add: wp_simps call_simps)
qed

lemma scan_tidy:
  assumes "length ssid \<le> 32"
  shows "tidy (RVT_CONN_SCAN_WAIT_TRIES * RVT_CONN_SCAN_WAIT_US) (conn_scan_saved_ssid_wapi env ssid)"
proof (rule tidyI)
  fix h opened
  assume h: "check_calls h = Some opened"
  let ?post = "\<lambda>_ h'. check_calls h' = Some opened
    \<and> slept_us h' \<le> slept_us h + RVT_CONN_SCAN_WAIT_TRIES * RVT_CONN_SCAN_WAIT_US"
  show "wp (conn_scan_saved_ssid_wapi env ssid) ?post h"
  proof (cases "ssid = [] \<or> e_ret env h Make_socket < 0")
    case True
    with h show ?thesis by (auto simp: conn_scan_saved_ssid_wapi_def conn_wifi_socket_def wp_simps call_simps)
  next
    case False
    let ?s = "e_ret env h Make_socket"
    let ?h1 = "h @ [(Make_socket, ?s)]"
    let ?r = "e_ret env ?h1 (Escan_init ?s ssid)"
    let ?h2 = "?h1 @ [(Escan_init ?s ssid, ?r)]"
    have c: "check_calls ?h2 = Some (?s # opened)" "slept_us ?h2 = slept_us h"
      using h False assms by (simp_all add: call_simps)
    have "wp (scan_wait env ?s RVT_CONN_SCAN_WAIT_TRIES ?r) (\<lambda>w. wp (case w of
          Inl e \<Rightarrow> do { _ \<leftarrow> sys env (Close ?s); ret e }
        | Inr r1 \<Rightarrow>
            if r1 \<noteq> 0 then do { _ \<leftarrow> sys env (Close ?s); ret (- ETIMEDOUT) }
            else do {
              r2 \<leftarrow> sys env (Scan_coll ?s);
              found \<leftarrow> scan_io env;
              _ \<leftarrow> sys env (Close ?s);
              ret (if r2 < 0 then r2 else if Some ssid \<in> set found then 0 else - ENOENT) }) ?post) ?h2"
      by (rule wp_conseq [OF scan_wait_keeps [OF c(1)]]) (auto simp: wp_simps call_simps c(2) split: sum.splits)
    with h False assms show ?thesis
      by (simp add: conn_scan_saved_ssid_wapi_def conn_wifi_socket_def wp_simps call_simps)
  qed
qed

lemma dhcp_tidy: "tidy ((tries - 1) * RVT_CONN_DHCP_RETRY_DELAY_US) (dhcp_tries env tries r)"
proof (induction tries arbitrary: r)
  case 0
  show ?case by (simp add: tidy_ret)
next
  case (Suc tries)
  show ?case
  proof (cases tries)
    case 0
    then show ?thesis by (auto intro!: tidy_bind [OF tidy_plain [where b = 0]] tidy_intros)
  next
    case (Suc n)
    have "tidy (n * RVT_CONN_DHCP_RETRY_DELAY_US) (dhcp_tries env tries r)" for r
      using Suc.IH [of r] Suc by simp
    then show ?thesis unfolding dhcp_tries.simps(2) [of env tries]
      by (intro tidy_bind [OF tidy_plain [of Obtain_ipv4addr 0]] tidy_intros
          tidy_bind [OF tidy_plain [of "Usleep RVT_CONN_DHCP_RETRY_DELAY_US" RVT_CONN_DHCP_RETRY_DELAY_US]])
        (simp_all add: Suc del: dhcp_tries.simps)
  qed
qed

lemma ready_tidy: "tidy (tries * RVT_CONN_READY_WAIT_US) (ready_tries env tries)"
proof (induction tries)
  case 0
  show ?case by (simp add: tidy_ret)
next
  case (Suc tries)
  then show ?case unfolding ready_tries.simps
    by (intro tidy_bind [OF get_ip_tidy(5) [of 0]] tidy_intros
        tidy_bind [OF tidy_plain [of "Usleep RVT_CONN_READY_WAIT_US" RVT_CONN_READY_WAIT_US]]) simp_all
qed

text \<open>The time one attempt may sleep apart from its delay: 5 s scan, 3 s association, 4 s DHCP, 5 s addresses.\<close>

definition attempt_us :: nat where "attempt_us = 17000000"

lemma attempts_tidy:
  assumes "8 \<le> length (cfg_psk config)" "length (cfg_psk config) \<le> 63"
    "0 < length (cfg_ssid config)" "length (cfg_ssid config) \<le> 32"
  shows "tidy (sum_list (map (\<lambda>d. d * 1000000 + attempt_us) delays)) (reconnect_attempts env mac config delays pending)"
proof (induction delays)
  case Nil
  show ?case by (simp add: tidy_ret)
next
  case (Cons d delays)
  have s: "tidy (d * 1000000) (if d > 0 then sys env (Sleep d) else ret 0)"
    by (auto intro: tidy_intros tidy_plain)
  note steps = tidy_bind [OF s] tidy_bind [OF scan_tidy [OF assms(4)]] tidy_bind [OF connect_tidy [OF assms]]
    tidy_bind [OF dhcp_tidy] tidy_bind [OF ready_tidy] tidy_bind [OF disconnect_tidy [of 0]]
    tidy_bind [OF get_ip_tidy(1) [of 0]] tidy_bind [OF get_ip_tidy(2) [of 0]] tidy_bind [OF get_ip_tidy(3) [of 0]]
    tidy_bind [OF get_ip_tidy(6) [of 0]]
  show ?case unfolding reconnect_attempts.simps conn_obtain_ip_def conn_wait_ready_def
    by (intro steps tidy_ret tidy_if tidy_mono [OF Cons.IH]) (simp_all add: c_consts attempt_us_def)
qed

lemma load_config_ok:
  assumes "conn_load_config parse f = Inr config"
  shows "8 \<le> length (cfg_psk config)" "length (cfg_psk config) \<le> 63"
    "0 < length (cfg_ssid config)" "length (cfg_ssid config) \<le> 32"
  using assms by (auto simp: conn_load_config_def conn_copy_json_string_def c_consts
      split: sum.splits option.splits if_splits prod.splits)

lemma start_tidy: "tidy 112300000 (rvt_wifi_autoconnect_start env mac parse f pending)"
proof (cases "conn_load_config parse f")
  case (Inl e)
  then show ?thesis by (simp add: rvt_wifi_autoconnect_start_def tidy_ret)
next
  case (Inr config)
  note a = attempts_tidy [OF load_config_ok [OF Inr]]
  have "tidy 112300000 (do { r \<leftarrow> conn_prepare_sta_wapi env;
      if r < 0 then ret (r, pending) else reconnect_attempts env mac config g_retry_delay_seconds pending })"
    by (intro tidy_bind [OF prepare_tidy] tidy_intros tidy_mono [OF a])
      (simp_all add: g_retry_delay_seconds_def attempt_us_def c_consts)
  with Inr show ?thesis by (simp add: rvt_wifi_autoconnect_start_def)
qed

section \<open>Success means a usable address\<close>

text \<open>Some query of the interface state within the history found it ready.\<close>

definition saw_ready :: "net_env \<Rightarrow> history \<Rightarrow> bool" where
  "saw_ready env h \<longleftrightarrow> (\<exists>h1. wp (rvt_wifi_autoconnect_is_ready env) (\<lambda>ready h2. ready \<and> prefix h2 h) h1)"

definition extends :: "'a io \<Rightarrow> bool" where
  "extends f \<longleftrightarrow> (\<forall>h. wp f (\<lambda>_ h'. prefix h h') h)"

lemma saw_ready_prefix: "saw_ready env h \<Longrightarrow> prefix h h' \<Longrightarrow> saw_ready env h'"
  unfolding saw_ready_def by (blast intro: wp_conseq prefix_order.trans)

lemma extends_keeps: "extends f \<Longrightarrow> saw_ready env h \<Longrightarrow> wp f (\<lambda>_. saw_ready env) h"
  unfolding extends_def using saw_ready_prefix by (blast intro: wp_conseq)

lemma query_extends: "extends (conn_get_ip env)" "extends (conn_get_gateway env)" "extends (conn_start_display_if_ready env pending)"
  by (simp_all add: extends_def wp_simps conn_get_ip_def conn_get_gateway_def conn_start_display_if_ready_def)

lemma ready_tries_sees: "wp (ready_tries env tries) (\<lambda>r h'. r < 0 \<or> r = 0 \<and> saw_ready env h') h"
proof (induction tries arbitrary: h)
  case 0
  show ?case by (simp add: wp_simps c_consts)
next
  case (Suc tries)
  have "wp (rvt_wifi_autoconnect_is_ready env) (\<lambda>ready h'. ready \<longrightarrow> saw_ready env h') h"
    by (cases "run_state (rvt_wifi_autoconnect_is_ready env) h") (auto simp: wp_def saw_ready_def intro!: exI [of _ h])
  then show ?case unfolding ready_tries.simps wp_bind
    by (rule wp_conseq) (simp add: wp_simps Suc.IH)
qed

definition sees :: "net_env \<Rightarrow> (int \<times> bool) io \<Rightarrow> bool" where
  "sees env f \<longleftrightarrow> (\<forall>h. wp f (\<lambda>r h'. fst r < 0 \<or> fst r = 0 \<and> saw_ready env h') h)"

lemma seesD:
  assumes "sees env f" "run_state f h = (r, h')"
  shows "fst r < 0 \<or> fst r = 0 \<and> saw_ready env h'"
proof -
  have "wp f (\<lambda>r h'. fst r < 0 \<or> fst r = 0 \<and> saw_ready env h') h" using assms(1) by (simp add: sees_def)
  with assms(2) show ?thesis by (simp add: wp_def)
qed

lemma sees_ret: "e < 0 \<Longrightarrow> sees env (ret (e, pending))"
  by (simp add: sees_def wp_simps)

lemma sees_bind: "(\<And>x. sees env (g x)) \<Longrightarrow> sees env (State_Monad.bind f g)"
  by (simp add: sees_def wp_bind) (simp add: wp_def split: prod.splits)

lemma sees_if: "(c \<Longrightarrow> sees env f) \<Longrightarrow> (\<not> c \<Longrightarrow> sees env g) \<Longrightarrow> sees env (if c then f else g)"
  by simp

lemma sees_when_ready:
  assumes "\<And>r. r < 0 \<Longrightarrow> sees env (g r)" "\<And>h. saw_ready env h \<Longrightarrow> wp (g 0) (\<lambda>r h'. fst r < 0 \<or> fst r = 0 \<and> saw_ready env h') h"
  shows "sees env (State_Monad.bind (conn_wait_ready env) g)"
  unfolding sees_def wp_bind conn_wait_ready_def
  using assms by (auto simp: sees_def intro!: wp_conseq [OF ready_tries_sees])

lemma finish_sees:
  assumes "saw_ready env h"
  shows "wp (do { _ \<leftarrow> conn_get_ip env; _ \<leftarrow> conn_get_gateway env;
    d \<leftarrow> conn_start_display_if_ready env pending; ret (0, snd d) }) (\<lambda>r h'. fst r < 0 \<or> fst r = 0 \<and> saw_ready env h') h"
  unfolding wp_bind wp_ret
  by (rule wp_conseq [OF extends_keeps [OF query_extends(1) assms]],
      erule wp_conseq [OF extends_keeps [OF query_extends(2)]],
      erule wp_conseq [OF extends_keeps [OF query_extends(3)]]) simp

lemma attempts_see: "sees env (reconnect_attempts env mac config delays pending)"
proof (induction delays)
  case Nil
  show ?case by (simp add: sees_ret c_consts)
next
  case (Cons d delays)
  show ?case unfolding reconnect_attempts.simps
    by (intro sees_when_ready sees_bind sees_if sees_ret Cons.IH) (simp_all add: finish_sees sees_bind sees_ret Cons.IH)
qed

lemma start_sees:
  assumes "0 < f_errno f"
  shows "sees env (rvt_wifi_autoconnect_start env mac parse f pending)"
proof (cases "conn_load_config parse f")
  case (Inl e)
  then have "e < 0" using assms
    by (auto simp: conn_load_config_def conn_read_file_def conn_copy_json_string_def c_consts
        split: sum.splits option.splits if_splits prod.splits)
  with Inl show ?thesis by (simp add: rvt_wifi_autoconnect_start_def sees_ret)
next
  case (Inr config)
  then show ?thesis
    unfolding rvt_wifi_autoconnect_start_def by (auto intro!: sees_bind sees_if sees_ret attempts_see)
qed

lemma saw_ready_addresses:
  assumes "saw_ready env h"
  shows "\<exists>h1 r1 r2. prefix (h1 @ [(Get_ipv4addr, r1), (Get_dripv4addr, r2)]) h
    \<and> e_addr env (h1 @ [(Get_ipv4addr, r1)]) \<notin> {0, RVT_CONN_AP_IP}
    \<and> e_addr env (h1 @ [(Get_ipv4addr, r1), (Get_dripv4addr, r2)]) \<noteq> 0"
  using assms
  by (auto simp: saw_ready_def rvt_wifi_autoconnect_is_ready_def conn_get_ip_def conn_get_gateway_def wp_simps split: if_splits)

section \<open>Properties\<close>

definition sample_env :: net_env where
  "sample_env = \<lparr>e_ret = (\<lambda>h c. if c = Make_socket then 3 else 0), e_errno = (\<lambda>h. 5), e_addr = (\<lambda>h. 0x0201A8C0),
     e_scan = (\<lambda>h. [None, Some ''home'']), e_display = True\<rparr>"

definition sample_wlan :: json_object where
  "sample_wlan = [''ssid'' \<mapsto> ''home'', ''psk'' \<mapsto> ''12345678'']"

definition sample_file :: file_io where
  "sample_file = \<lparr>f_opens = True, f_errno = 2, f_stat = True, f_content = ''{..}'', f_nread = 4\<rparr>"

abbreviation sample_start :: "(int \<times> bool) io" where
  "sample_start \<equiv> rvt_wifi_autoconnect_start sample_env (\<lambda>_. []) (\<lambda>_. Some (Some sample_wlan)) sample_file False"

text \<open>
  A reconnection uses the wireless interface correctly whatever the driver, the access point
  and the network answer at any point: every wireless call goes to a socket that is open, no
  socket is closed twice, the sockets open afterwards are those open before (none is leaked on
  any error path), and keys, network names and hardware addresses have legal lengths.
\<close>

theorem autoconnect_calls_safe:
  assumes "check_calls h = Some opened"
    "run_state (rvt_wifi_autoconnect_start env mac parse f pending) h = (r, h')"
  shows "check_calls h' = Some opened"
  using tidyD(1) [OF start_tidy assms] .

theorem autoconnect_calls_safe_witness:
  "check_calls (snd (run_state sample_start [])) = Some []"
  using autoconnect_calls_safe [of "[]" "[]" sample_env "\<lambda>_. []" "\<lambda>_. Some (Some sample_wlan)" sample_file False
      "fst (run_state sample_start [])" "snd (run_state sample_start [])"]
  by (simp add: check_calls_def)

text \<open>
  C38. A reconnection ends, and sleeps at most 112.3 seconds in total: the delays of 1, 20 and
  40 seconds, 0.3 s for the mode change and 17 s of waits in each of the three attempts. These
  are the sleeps of this module; what the calls it makes take is not counted (stopping a display
  in access-point mode sleeps for another 0.3 s).
\<close>

theorem autoconnect_time_bounded:
  "slept_us (snd (run_state (rvt_wifi_autoconnect_start env mac parse f pending) [])) \<le> 112300000"
proof -
  have "check_calls [] = Some []" "slept_us [] = 0" by (simp_all add: check_calls_def slept_us_def)
  then show ?thesis using tidyD(2) [OF start_tidy _ surjective_pairing, of "[]" "[]" env mac parse f pending] by simp
qed

text \<open>
  When a reconnection reports success, the interface was seen ready during it: two
  consecutive queries gave a local address that is neither zero nor the one of the device's own
  access point, and a gateway. Otherwise the result is a negative error. (A failed system call
  sets a positive error number.)
\<close>

theorem autoconnect_success_ready:
  assumes "0 < f_errno f"
    "run_state (rvt_wifi_autoconnect_start env mac parse f pending) [] = (r, h')"
  shows "fst r < 0 \<or> fst r = 0 \<and>
    (\<exists>h1 r1 r2. prefix (h1 @ [(Get_ipv4addr, r1), (Get_dripv4addr, r2)]) h'
      \<and> e_addr env (h1 @ [(Get_ipv4addr, r1)]) \<notin> {0, RVT_CONN_AP_IP}
      \<and> e_addr env (h1 @ [(Get_ipv4addr, r1), (Get_dripv4addr, r2)]) \<noteq> 0)"
  using seesD [OF start_sees [OF assms(1)] assms(2)] saw_ready_addresses by blast

lemmas loop_unfold =
  scan_wait.simps(2) [of _ _ "pred_numeral n" for n, folded numeral_eq_Suc]
  dhcp_tries.simps(2) [of _ "pred_numeral n" for n, folded numeral_eq_Suc]
  ready_tries.simps(2) [of _ "pred_numeral n" for n, folded numeral_eq_Suc]

theorem autoconnect_success_ready_witness:
  "fst (run_state sample_start []) = (0, True) \<and>
    (\<exists>h1 r1 r2. prefix (h1 @ [(Get_ipv4addr, r1), (Get_dripv4addr, r2)]) (snd (run_state sample_start []))
      \<and> e_addr sample_env (h1 @ [(Get_ipv4addr, r1)]) \<notin> {0, RVT_CONN_AP_IP}
      \<and> e_addr sample_env (h1 @ [(Get_ipv4addr, r1), (Get_dripv4addr, r2)]) \<noteq> 0)"
proof -
  have "wp sample_start (\<lambda>r _. r = (0, True)) []"
    by (simp add: rvt_wifi_autoconnect_start_def conn_load_config_def conn_read_file_def conn_copy_json_string_def
        sample_file_def sample_wlan_def sample_env_def g_retry_delay_seconds_def conn_prepare_sta_wapi_def
        conn_stop_display_if_running_def conn_wifi_socket_def conn_clear_ip_state_def conn_scan_saved_ssid_wapi_def
        conn_connect_saved_wifi_wapi_def conn_is_valid_bssid_def conn_obtain_ip_def conn_wait_ready_def
        rvt_wifi_autoconnect_is_ready_def conn_get_ip_def conn_get_gateway_def conn_start_display_if_ready_def
        RVT_CONN_AP_IP_def RVT_CONN_SCAN_WAIT_TRIES_def RVT_CONN_DHCP_TRIES_def RVT_CONN_READY_WAIT_TRIES_def
        loop_unfold wp_simps)
  then have r: "fst (run_state sample_start []) = (0, True)" by (simp add: wp_def split: prod.splits)
  have "run_state sample_start [] = ((0, True), snd (run_state sample_start []))" by (metis r prod.collapse)
  moreover have "0 < f_errno sample_file" by (simp add: sample_file_def)
  ultimately show ?thesis using autoconnect_success_ready [of sample_file] r by fastforce
qed

end
