(* ===== verification/Display_Service.thy ===== *)
theory Display_Service
  imports Prelude
begin

text \<open>
  The wireless display service: its parameters, start and stop
  (\<^verbatim>\<open>services/wifi_display_service/src/rvt_wifi_display_api.c\<close>), the discovery channel
  (\<^verbatim>\<open>rvt_discovery_server.c\<close>) and the globals, sends and stop of the TCP control channel
  (\<^verbatim>\<open>rvt_tcp_channel_impl.c\<close>), in the configuration of the R528 board (client role, no poll,
  asynchronous connect, start as a service task).

  The globals of these files and of the map service are one record, because each of them
  calls the others. What the outside sees (bytes accepted by a socket, closed sockets, calls
  of the video receiver, the display port and the network control) is the list \<open>efx\<close>.
\<close>

section \<open>State\<close>

type_synonym tick = "32 word"

record disp_caps =
  dc_width :: int
  dc_height :: int
  dc_width_mm :: int
  dc_height_mm :: int
  dc_codec_mask :: "32 word"

record stream_cfg =
  sc_width :: int
  sc_height :: int
  sc_rotation :: int
  sc_bitrate_kbps :: int
  sc_codec_mask :: "32 word"

datatype link_mode = LINK_STA | LINK_SAP

datatype service_state = SERVICE_STOPPED | SERVICE_STARTING | SERVICE_RUNNING

datatype effect =
    Sent int string | Closed int
  | Udp_init | Udp_stop | Udp_clear | Port_deinit | Sta_prepare | Sap_start | Sap_stop
  | Nav_status string string string | Nav_turn int string string

record display =
  cached_caps :: disp_caps
  caps_valid :: bool
  wifi_display_running :: bool
  running_link_mode :: link_mode
  screen_width_override :: int
  screen_height_override :: int
  codec_mask_override :: "32 word"
  stream_config :: stream_cfg
  service_state :: service_state
  service_start_result :: int
  discovery_running :: bool
  discovery_fd :: int
  tcp_running :: bool
  stat_timer :: bool
  tcp_listen_fd :: int
  tcp_connect_fd :: int
  tcp_active_fd :: int
  current_client_fd :: int
  stat_pending :: bool
  pending_cmd :: string
  pending_cmd_valid :: bool
  map_display_active :: bool
  sends_no :: nat
  efx :: "effect list"

definition emit :: "effect list \<Rightarrow> display \<Rightarrow> display" where
  "emit es s = s\<lparr>efx := efx s @ es\<rparr>"

section \<open>Sending\<close>

text \<open>
  What a call of \<^verbatim>\<open>send\<close> does: it accepts some bytes, or fails for now (\<^verbatim>\<open>EINTR\<close>, \<^verbatim>\<open>EAGAIN\<close>),
  or fails. The results of all sends are given by their number.
\<close>

datatype send_result = Wrote nat | Send_again | Send_failed

type_synonym sends = "nat \<Rightarrow> send_result"

definition TCP_SEND_TRANSIENT_RETRY_MS :: nat where [c_consts]: "TCP_SEND_TRANSIENT_RETRY_MS = 10"
definition TCP_SEND_TRANSIENT_RETRY_LIMIT_MS :: nat where [c_consts]: "TCP_SEND_TRANSIENT_RETRY_LIMIT_MS = 2000"

function send_loop :: "sends \<Rightarrow> int \<Rightarrow> string \<Rightarrow> nat \<Rightarrow> nat \<Rightarrow> display \<Rightarrow> int \<times> display" where
  "send_loop snd_env fd data sent transient_wait_ms s =
     (if sent < length data
      then (let s1 = s\<lparr>sends_no := sends_no s + 1\<rparr> in
            case snd_env (sends_no s) of
              Wrote n \<Rightarrow>
                if n > 0
                then send_loop snd_env fd data (sent + n) 0 (emit [Sent fd (take n (drop sent data))] s1)
                else (- 1, s1)
            | Send_again \<Rightarrow>
                if tcp_running s \<and> transient_wait_ms < TCP_SEND_TRANSIENT_RETRY_LIMIT_MS
                then send_loop snd_env fd data sent (transient_wait_ms + TCP_SEND_TRANSIENT_RETRY_MS) s1
                else (- 1, s1)
            | Send_failed \<Rightarrow> (- 1, s1))
      else (0, s))"
  by pat_completeness auto
termination
  by (relation "measures [\<lambda>(_, _, data, sent, _, _). length data - sent,
      \<lambda>(_, _, _, _, w, _). TCP_SEND_TRANSIENT_RETRY_LIMIT_MS - w]") (auto simp: c_consts)

declare send_loop.simps [simp del]

definition send_all :: "sends \<Rightarrow> int \<Rightarrow> string \<Rightarrow> display \<Rightarrow> int \<times> display" where
  "send_all snd_env fd data s = send_loop snd_env fd data 0 0 s"

definition rvt_tcp_channel_send_command :: "sends \<Rightarrow> string option \<Rightarrow> display \<Rightarrow> int \<times> display" where
  "rvt_tcp_channel_send_command snd_env cmd s =
     (case cmd of
        None \<Rightarrow> (- 1, s)
      | Some c \<Rightarrow> if current_client_fd s < 0 then (- 1, s) else send_all snd_env (current_client_fd s) c s)"

definition rvt_tcp_channel_has_client :: "display \<Rightarrow> bool" where
  "rvt_tcp_channel_has_client s = (tcp_running s \<and> current_client_fd s \<ge> 0)"

section \<open>Stopping\<close>

definition close_if_open :: "int \<Rightarrow> display \<Rightarrow> display" where
  "close_if_open fd s = (if fd \<ge> 0 then emit [Closed fd] s else s)"

text \<open>The four blocks of \<^verbatim>\<open>rvt_tcp_channel_stop\<close>; \<open>fd\<close> is the client that was current.\<close>

definition stop_current :: "display \<Rightarrow> display" where
  "stop_current s = close_if_open (current_client_fd s) (s\<lparr>current_client_fd := - 1\<rparr>)"

definition stop_active :: "int \<Rightarrow> display \<Rightarrow> display" where
  "stop_active fd s =
     (if tcp_active_fd s \<ge> 0 \<and> tcp_active_fd s \<noteq> fd then emit [Closed (tcp_active_fd s)] (s\<lparr>tcp_active_fd := - 1\<rparr>)
      else s\<lparr>tcp_active_fd := - 1\<rparr>)"

definition stop_connect :: "int \<Rightarrow> display \<Rightarrow> display" where
  "stop_connect fd s =
     (if tcp_connect_fd s \<ge> 0 \<and> tcp_connect_fd s \<noteq> fd then emit [Closed (tcp_connect_fd s)] (s\<lparr>tcp_connect_fd := - 1\<rparr>)
      else s\<lparr>tcp_connect_fd := - 1\<rparr>)"

definition stop_listen :: "display \<Rightarrow> display" where
  "stop_listen s = close_if_open (tcp_listen_fd s) (s\<lparr>tcp_listen_fd := - 1\<rparr>)"

definition rvt_tcp_channel_stop :: "display \<Rightarrow> display" where
  "rvt_tcp_channel_stop s =
     (let s1 = s\<lparr>tcp_running := False, stat_timer := False\<rparr>; fd = current_client_fd s1
      in stop_listen (stop_connect fd (stop_active fd (stop_current s1))))"

definition rvt_wifi_display_discovery_stop :: "display \<Rightarrow> display" where
  "rvt_wifi_display_discovery_stop s =
     close_if_open (discovery_fd s) (s\<lparr>discovery_running := False, discovery_fd := - 1\<rparr>)"

definition release_wifi_link :: "link_mode \<Rightarrow> display \<Rightarrow> display" where
  "release_wifi_link mode s = (if mode = LINK_SAP then emit [Sap_stop] s else s)"

definition rvt_wifi_display_stop :: "display \<Rightarrow> display" where
  "rvt_wifi_display_stop s =
     (let s1 = rvt_wifi_display_discovery_stop s;
          s2 = rvt_tcp_channel_stop s1;
          s3 = emit [Udp_stop] s2;
          s4 = emit [Port_deinit] s3;
          s5 = release_wifi_link (running_link_mode s4) s4
      in s5\<lparr>wifi_display_running := False\<rparr>)"

definition rvt_wifi_display_is_running :: "display \<Rightarrow> bool" where
  "rvt_wifi_display_is_running s = wifi_display_running s"

definition stat_timer_cb :: "display \<Rightarrow> display" where
  "stat_timer_cb s = (if current_client_fd s > 0 then s\<lparr>stat_pending := True\<rparr> else s)"

section \<open>Capabilities and stream parameters\<close>

definition zero_caps :: disp_caps where
  "zero_caps = \<lparr>dc_width = 0, dc_height = 0, dc_width_mm = 0, dc_height_mm = 0, dc_codec_mask = 0\<rparr>"

definition apply_capability_overrides :: "display \<Rightarrow> disp_caps \<Rightarrow> disp_caps" where
  "apply_capability_overrides s caps =
     (let c1 = (if screen_width_override s > 0 then caps\<lparr>dc_width := screen_width_override s\<rparr> else caps);
          c2 = (if screen_height_override s > 0 then c1\<lparr>dc_height := screen_height_override s\<rparr> else c1)
      in if codec_mask_override s \<noteq> 0 then c2\<lparr>dc_codec_mask := codec_mask_override s\<rparr> else c2)"

text \<open>The display port answers with its capabilities, or fails.\<close>

definition rvt_wifi_display_get_caps :: "disp_caps option \<Rightarrow> display \<Rightarrow> disp_caps \<times> display" where
  "rvt_wifi_display_get_caps port s =
     (if caps_valid s then (cached_caps s, s)
      else (let c0 = (case port of Some c \<Rightarrow> c | None \<Rightarrow> zero_caps);
                c1 = (if dc_width c0 \<le> 0 then c0\<lparr>dc_width := 800\<rparr> else c0);
                c2 = (if dc_height c1 \<le> 0 then c1\<lparr>dc_height := 480\<rparr> else c1);
                c3 = apply_capability_overrides s c2
            in (c3, s\<lparr>cached_caps := c3, caps_valid := True\<rparr>)))"

definition ensure_stream_config :: "disp_caps option \<Rightarrow> display \<Rightarrow> display" where
  "ensure_stream_config port s =
     (let c = stream_config s in
      if sc_width c > 0 \<and> sc_height c > 0 \<and> sc_codec_mask c \<noteq> 0 then s
      else (case rvt_wifi_display_get_caps port s of (caps, s1) \<Rightarrow>
              let c1 = (if sc_width c \<le> 0 then c\<lparr>sc_width := dc_width caps\<rparr> else c);
                  c2 = (if sc_height c1 \<le> 0 then c1\<lparr>sc_height := dc_height caps\<rparr> else c1);
                  c3 = (if sc_codec_mask c2 = 0 then c2\<lparr>sc_codec_mask := dc_codec_mask caps\<rparr> else c2)
              in s1\<lparr>stream_config := c3\<rparr>))"

definition rvt_wifi_display_get_stream_config :: "disp_caps option \<Rightarrow> display \<Rightarrow> stream_cfg \<times> display" where
  "rvt_wifi_display_get_stream_config port s = (let s1 = ensure_stream_config port s in (stream_config s1, s1))"

definition rvt_wifi_display_set_screen_size :: "int \<Rightarrow> int \<Rightarrow> display \<Rightarrow> int \<times> display" where
  "rvt_wifi_display_set_screen_size width height s =
     (if width \<le> 0 \<or> height \<le> 0 then (- 1, s)
      else (let s1 = s\<lparr>screen_width_override := width, screen_height_override := height,
                       stream_config := (stream_config s)\<lparr>sc_width := width, sc_height := height\<rparr>\<rparr>
            in (0, if caps_valid s1 then s1\<lparr>cached_caps := (cached_caps s1)\<lparr>dc_width := width, dc_height := height\<rparr>\<rparr> else s1)))"

definition rvt_wifi_display_set_stream_resolution :: "int \<Rightarrow> int \<Rightarrow> display \<Rightarrow> int \<times> display" where
  "rvt_wifi_display_set_stream_resolution width height s =
     (if width \<le> 0 \<or> height \<le> 0 then (- 1, s)
      else (0, s\<lparr>stream_config := (stream_config s)\<lparr>sc_width := width, sc_height := height\<rparr>\<rparr>))"

definition rvt_wifi_display_set_rotation :: "int \<Rightarrow> display \<Rightarrow> int \<times> display" where
  "rvt_wifi_display_set_rotation rotation s =
     (if rotation \<noteq> 0 \<and> rotation \<noteq> 90 \<and> rotation \<noteq> 180 \<and> rotation \<noteq> 270 then (- 1, s)
      else (0, s\<lparr>stream_config := (stream_config s)\<lparr>sc_rotation := rotation\<rparr>\<rparr>))"

definition rvt_wifi_display_set_bitrate :: "int \<Rightarrow> display \<Rightarrow> int \<times> display" where
  "rvt_wifi_display_set_bitrate bitrate_kbps s =
     (if bitrate_kbps < 0 then (- 1, s)
      else (0, s\<lparr>stream_config := (stream_config s)\<lparr>sc_bitrate_kbps := bitrate_kbps\<rparr>\<rparr>))"

definition rvt_wifi_display_set_codec_mask :: "32 word \<Rightarrow> display \<Rightarrow> int \<times> display" where
  "rvt_wifi_display_set_codec_mask codec_mask s =
     (let s1 = s\<lparr>codec_mask_override := codec_mask, stream_config := (stream_config s)\<lparr>sc_codec_mask := codec_mask\<rparr>\<rparr>
      in (0, if caps_valid s1 then s1\<lparr>cached_caps := (cached_caps s1)\<lparr>dc_codec_mask := codec_mask\<rparr>\<rparr> else s1))"

section \<open>Starting\<close>

text \<open>
  The answers of the platform to a start: the display port, the network, and for every
  thread whether it could be created and started. \<open>po_tcp_ready\<close>: the TCP thread has reported
  ready within two seconds. \<open>po_in_time\<close>: the service task has left its starting state within
  twelve seconds.
\<close>

record platform =
  po_caps :: "disp_caps option"
  po_sap_active :: bool
  po_sap_start :: int
  po_sta_prepare :: int
  po_timer :: bool
  po_tcp_thread :: bool
  po_tcp_startup :: bool
  po_tcp_ready :: bool
  po_discovery_thread :: bool
  po_discovery_startup :: bool
  po_udp_init :: int
  po_task_pid :: int
  po_in_time :: bool

definition prepare_wifi_link :: "platform \<Rightarrow> link_mode \<Rightarrow> display \<Rightarrow> int \<times> display" where
  "prepare_wifi_link po mode s =
     (if mode = LINK_SAP
      then if po_sap_active po then (0, s) else (po_sap_start po, emit [Sap_start] s)
      else (po_sta_prepare po, emit [Sta_prepare] s))"

definition rvt_tcp_channel_init :: "platform \<Rightarrow> display \<Rightarrow> int \<times> display" where
  "rvt_tcp_channel_init po s =
     (if tcp_running s then (- 1, s)
      else (let s1 = s\<lparr>stat_timer := po_timer po\<rparr>;
                s2 = s1\<lparr>tcp_running := True, stat_pending := False\<rparr>
            in if \<not> po_tcp_thread po \<or> \<not> po_tcp_startup po
               then (- 1, s2\<lparr>tcp_running := False, stat_timer := False\<rparr>)
               else if \<not> po_tcp_ready po then (- 1, rvt_tcp_channel_stop s2)
               else (0, s2)))"

definition rvt_wifi_display_discovery_start :: "platform \<Rightarrow> display \<Rightarrow> int \<times> display" where
  "rvt_wifi_display_discovery_start po s =
     (if discovery_running s then (0, s)
      else if \<not> po_discovery_thread po \<or> \<not> po_discovery_startup po then (- 1, s\<lparr>discovery_running := False\<rparr>)
      else (0, s\<lparr>discovery_running := True\<rparr>))"

definition rvt_wifi_display_start_with_mode :: "platform \<Rightarrow> link_mode \<Rightarrow> display \<Rightarrow> int \<times> display" where
  "rvt_wifi_display_start_with_mode po mode s =
     (if wifi_display_running s then (0, s)
      else (let s1 = ensure_stream_config (po_caps po) s in
        case prepare_wifi_link po mode s1 of (r1, s2) \<Rightarrow>
        if r1 \<noteq> 0 then (r1, s2)
        else (case rvt_tcp_channel_init po s2 of (r2, s3) \<Rightarrow>
          if r2 \<noteq> 0 then (r2, release_wifi_link mode s3)
          else (case rvt_wifi_display_discovery_start po s3 of (r3, s4) \<Rightarrow>
            if r3 \<noteq> 0 then (r3, release_wifi_link mode (rvt_tcp_channel_stop s4))
            else (let s5 = emit [Udp_init] s4 in
              if po_udp_init po \<noteq> 0
              then (po_udp_init po,
                    release_wifi_link mode (rvt_tcp_channel_stop (rvt_wifi_display_discovery_stop s5)))
              else (0, s5\<lparr>running_link_mode := mode, wifi_display_running := True\<rparr>))))))"

text \<open>The service task up to its loop, as far as it comes within the caller's wait.\<close>

definition service_task_start :: "platform \<Rightarrow> link_mode \<Rightarrow> display \<Rightarrow> display" where
  "service_task_start po mode s =
     (case rvt_wifi_display_start_with_mode po mode s of (ret, s1) \<Rightarrow>
        let s2 = s1\<lparr>service_start_result := ret\<rparr>
        in s2\<lparr>service_state := (if ret \<noteq> 0 then SERVICE_STOPPED else SERVICE_RUNNING)\<rparr>)"

definition rvt_wifi_display_start_service_task :: "platform \<Rightarrow> link_mode \<Rightarrow> display \<Rightarrow> int \<times> display" where
  "rvt_wifi_display_start_service_task po mode s =
     (if service_state s \<noteq> SERVICE_STOPPED \<or> wifi_display_running s then (0, s)
      else (let s1 = s\<lparr>service_start_result := - 1, service_state := SERVICE_STARTING\<rparr> in
        if po_task_pid po < 0 then (- 1, s1\<lparr>service_state := SERVICE_STOPPED\<rparr>)
        else if \<not> po_in_time po then (0, s1)
        else (let s2 = service_task_start po mode s1 in
              if service_state s2 = SERVICE_RUNNING then (0, s2)
              else (if service_start_result s2 = 0 then 0 else - 1, s2))))"

definition rvt_wifi_display_start :: "platform \<Rightarrow> display \<Rightarrow> int \<times> display" where
  "rvt_wifi_display_start po s = rvt_wifi_display_start_service_task po LINK_STA s"

text \<open>
  One round of the service task's loop: it stops the display when no phone has been
  connected for 30 seconds. The result is the start of the wait, or \<open>None\<close> when the task ends.
\<close>

definition service_round :: "link_mode \<Rightarrow> tick \<Rightarrow> bool \<Rightarrow> tick \<Rightarrow> display \<Rightarrow> tick option \<times> display" where
  "service_round mode now stop_requested tcp_wait_start s =
     (let task_end = (\<lambda>s. s\<lparr>service_state := SERVICE_STOPPED\<rparr>) in
      if stop_requested \<or> \<not> wifi_display_running s
      then (None, task_end (if wifi_display_running s then rvt_wifi_display_stop s else s))
      else if mode = LINK_STA \<and> \<not> rvt_tcp_channel_has_client s \<and> now - tcp_wait_start \<ge> 30000
      then (None, task_end (rvt_wifi_display_stop s))
      else (Some (if rvt_tcp_channel_has_client s then now else tcp_wait_start), s))"

section \<open>What reaches a socket\<close>

fun wire_of :: "int \<Rightarrow> effect list \<Rightarrow> string" where
  "wire_of fd [] = []"
| "wire_of fd (Sent fd' b # es) = (if fd' = fd then b else []) @ wire_of fd es"
| "wire_of fd (_ # es) = wire_of fd es"

definition wire :: "int \<Rightarrow> display \<Rightarrow> string" where
  "wire fd s = wire_of fd (efx s)"

lemma wire_of_append [simp]: "wire_of fd (es @ es') = wire_of fd es @ wire_of fd es'"
  by (induction fd es rule: wire_of.induct) auto

lemma emit_simps [simp]:
  "efx (emit es s) = efx s @ es" "emit [] s = s" "emit es' (emit es s) = emit (es @ es') s"
  "wire fd (emit es s) = wire fd s @ wire_of fd es"
  by (simp_all add: emit_def wire_def)

lemma emit_fields [simp]:
  "tcp_running (emit es s) = tcp_running s" "current_client_fd (emit es s) = current_client_fd s"
  "tcp_active_fd (emit es s) = tcp_active_fd s" "tcp_connect_fd (emit es s) = tcp_connect_fd s"
  "tcp_listen_fd (emit es s) = tcp_listen_fd s" "stat_timer (emit es s) = stat_timer s"
  "stat_pending (emit es s) = stat_pending s" "pending_cmd (emit es s) = pending_cmd s"
  "pending_cmd_valid (emit es s) = pending_cmd_valid s" "discovery_running (emit es s) = discovery_running s"
  "discovery_fd (emit es s) = discovery_fd s" "wifi_display_running (emit es s) = wifi_display_running s"
  "running_link_mode (emit es s) = running_link_mode s" "stream_config (emit es s) = stream_config s"
  "caps_valid (emit es s) = caps_valid s" "cached_caps (emit es s) = cached_caps s"
  "sends_no (emit es s) = sends_no s" "service_state (emit es s) = service_state s"
  by (simp_all add: emit_def)

definition closes :: "int \<Rightarrow> effect list" where
  "closes fd = (if fd \<ge> 0 then [Closed fd] else [])"

lemma close_if_open_emit: "close_if_open fd s = emit (closes fd) s"
  by (simp add: close_if_open_def closes_def)

lemma tcp_stop_eq:
  "rvt_tcp_channel_stop s =
     s\<lparr>tcp_running := False, stat_timer := False, current_client_fd := - 1, tcp_active_fd := - 1, tcp_connect_fd := - 1,
       tcp_listen_fd := - 1, efx := efx s @ closes (current_client_fd s)
         @ (if tcp_active_fd s = current_client_fd s then [] else closes (tcp_active_fd s))
         @ (if tcp_connect_fd s = current_client_fd s then [] else closes (tcp_connect_fd s))
         @ closes (tcp_listen_fd s)\<rparr>"
  by (simp add: rvt_tcp_channel_stop_def stop_current_def stop_active_def stop_connect_def stop_listen_def
      close_if_open_emit emit_def closes_def)

text \<open>A send changes only the number of sends and the bytes on its socket.\<close>

definition only_sent :: "int \<Rightarrow> string \<Rightarrow> display \<Rightarrow> display \<Rightarrow> bool" where
  "only_sent fd b s s' \<longleftrightarrow> (\<exists>n bs. s' = s\<lparr>sends_no := n, efx := efx s @ map (Sent fd) bs\<rparr> \<and> concat bs = b)"

lemma only_sent_refl: "only_sent fd [] s (s\<lparr>sends_no := n\<rparr>)"
  unfolding only_sent_def by (rule exI [of _ n], rule exI [of _ "[]"]) simp

lemma only_sent_step: "only_sent fd b' (emit [Sent fd b] (s\<lparr>sends_no := n\<rparr>)) s' \<Longrightarrow> only_sent fd (b @ b') s s'"
  unfolding only_sent_def emit_def by (auto intro!: exI [of _ "b # bs" for bs])

lemma only_sent_again: "only_sent fd b (s\<lparr>sends_no := n\<rparr>) s' \<Longrightarrow> only_sent fd b s s'"
  unfolding only_sent_def by auto

lemma only_sent_trans: "only_sent fd b s s1 \<Longrightarrow> only_sent fd b' s1 s2 \<Longrightarrow> only_sent fd (b @ b') s s2"
  unfolding only_sent_def by (auto intro!: exI [of _ "bs @ bs'" for bs bs'])

lemma wire_of_Sents: "wire_of fd (map (Sent fd') bs) = (if fd' = fd then concat bs else [])"
  by (induction bs) auto

lemma only_sent_wire: "only_sent fd b s s' \<Longrightarrow> wire fd' s' = wire fd' s @ (if fd' = fd then b else [])"
  unfolding only_sent_def by (auto simp: wire_def wire_of_Sents)

lemma only_sent_fields:
  assumes "only_sent fd b s s'"
  shows "tcp_running s' = tcp_running s" "current_client_fd s' = current_client_fd s"
    "tcp_active_fd s' = tcp_active_fd s" "tcp_connect_fd s' = tcp_connect_fd s" "tcp_listen_fd s' = tcp_listen_fd s"
    "stat_pending s' = stat_pending s" "pending_cmd s' = pending_cmd s" "pending_cmd_valid s' = pending_cmd_valid s"
    "stat_timer s' = stat_timer s" "wifi_display_running s' = wifi_display_running s"
    "discovery_running s' = discovery_running s" "discovery_fd s' = discovery_fd s"
    "running_link_mode s' = running_link_mode s" "map_display_active s' = map_display_active s"
  using assms unfolding only_sent_def by auto

text \<open>Sends that always accept something; then \<^verbatim>\<open>send_all\<close> delivers everything.\<close>

definition reliable :: "sends \<Rightarrow> bool" where
  "reliable snd_env \<longleftrightarrow> (\<forall>i. \<exists>n. snd_env i = Wrote (Suc n))"

lemma send_loop_outcome:
  "send_loop snd_env fd data sent w s = (r, s') \<Longrightarrow>
   \<exists>k. only_sent fd (take k (drop sent data)) s s' \<and> (r = 0 \<longrightarrow> length data \<le> sent + k) \<and>
       (r \<noteq> 0 \<longrightarrow> r = - 1 \<and> sent + k < length data) \<and> (reliable snd_env \<longrightarrow> r = 0)"
proof (induction snd_env fd data sent w s arbitrary: r s' rule: send_loop.induct)
  case (1 snd_env fd data sent w s)
  let ?s1 = "s\<lparr>sends_no := sends_no s + 1\<rparr>"
  have stop: "\<exists>k. only_sent fd (take k (drop sent data)) s ?s1 \<and> sent + k < length data" if "sent < length data"
    using that only_sent_refl [of fd s "sends_no s + 1"] by (intro exI [of _ 0]) simp
  show ?case
  proof (cases "sent < length data")
    case False
    then show ?thesis using "1.prems" only_sent_refl [of fd s "sends_no s"] by (intro exI [of _ 0]) (simp add: send_loop.simps)
  next
    case True
    show ?thesis
    proof (cases "snd_env (sends_no s)")
      case (Wrote n)
      show ?thesis
      proof (cases "n > 0")
        case gt: True
        let ?s2 = "emit [Sent fd (take n (drop sent data))] ?s1"
        have "send_loop snd_env fd data (sent + n) 0 ?s2 = (r, s')"
          using "1.prems" True Wrote gt by (simp add: send_loop.simps [of _ _ _ sent])
        from "1.IH"(1) [OF True refl Wrote gt this] obtain k where
          k: "only_sent fd (take k (drop (sent + n) data)) ?s2 s'" "r = 0 \<longrightarrow> length data \<le> sent + n + k"
             "r \<noteq> 0 \<longrightarrow> r = - 1 \<and> sent + n + k < length data" "reliable snd_env \<longrightarrow> r = 0" by blast
        have "take n (drop sent data) @ take k (drop (sent + n) data) = take (n + k) (drop sent data)"
          by (simp add: take_add add.commute [of sent n])
        then have "only_sent fd (take (n + k) (drop sent data)) s s'" using only_sent_step [OF k(1)] by simp
        with k show ?thesis by (intro exI [of _ "n + k"]) (simp add: add.assoc)
      next
        case False
        then have "r = - 1 \<and> s' = ?s1" using "1.prems" True Wrote by (simp add: send_loop.simps)
        moreover have "\<not> reliable snd_env" using False Wrote unfolding reliable_def by (metis send_result.inject zero_less_Suc)
        ultimately show ?thesis using stop [OF True] by auto
      qed
    next
      case Send_again
      have nr: "\<not> reliable snd_env" using Send_again by (metis reliable_def send_result.distinct(1))
      show ?thesis
      proof (cases "tcp_running s \<and> w < TCP_SEND_TRANSIENT_RETRY_LIMIT_MS")
        case again: True
        then have "send_loop snd_env fd data sent (w + TCP_SEND_TRANSIENT_RETRY_MS) ?s1 = (r, s')"
          using "1.prems" True Send_again by (simp add: send_loop.simps [of _ _ _ _ w])
        from "1.IH"(2) [OF True refl Send_again again this] only_sent_again show ?thesis by blast
      next
        case False
        then have "r = - 1 \<and> s' = ?s1" using "1.prems" True Send_again by (auto simp: send_loop.simps)
        with stop [OF True] nr show ?thesis by auto
      qed
    next
      case Send_failed
      then have "r = - 1 \<and> s' = ?s1" using "1.prems" True by (simp add: send_loop.simps)
      moreover have "\<not> reliable snd_env" using Send_failed by (metis reliable_def send_result.distinct(3))
      ultimately show ?thesis using stop [OF True] by auto
    qed
  qed
qed

lemma send_all_outcome:
  assumes "send_all snd_env fd data s = (r, s')"
  shows "\<exists>k. only_sent fd (take k data) s s' \<and> (r = 0 \<longrightarrow> length data \<le> k) \<and> (r \<noteq> 0 \<longrightarrow> r = - 1 \<and> k < length data)"
    and "reliable snd_env \<Longrightarrow> r = 0 \<and> only_sent fd data s s'"
  using send_loop_outcome [OF assms [unfolded send_all_def]] by auto

text \<open>
  \<^verbatim>\<open>send_all\<close> is all or a known failure. Whatever the socket does, it returns, puts a prefix
  of the data on its socket and nothing on any other; it returns 0 exactly when the prefix is
  the whole of the data, and -1 when bytes are missing.
\<close>

theorem send_all_complete_or_error:
  "\<exists>k r s'. send_all snd_env fd data s = (r, s') \<and> r \<in> {0, - 1} \<and> (r = 0 \<longleftrightarrow> take k data = data)
     \<and> wire fd s' = wire fd s @ take k data \<and> (\<forall>fd'. fd' = fd \<or> wire fd' s' = wire fd' s)"
proof -
  obtain r s' where rs: "send_all snd_env fd data s = (r, s')" by fastforce
  from send_all_outcome(1) [OF rs] obtain k where
    k: "only_sent fd (take k data) s s'" "r = 0 \<longrightarrow> length data \<le> k" "r \<noteq> 0 \<longrightarrow> r = - 1 \<and> k < length data" by blast
  then have "take k data = data \<longleftrightarrow> r = 0" by (metis length_take min_def nat_less_le not_le take_all)
  with rs k only_sent_wire [OF k(1)] show ?thesis by (intro exI [of _ k] exI [of _ r] exI [of _ s']) auto
qed

section \<open>Starting is all or nothing\<close>

text \<open>The channels that run, and the sockets the service holds.\<close>

definition channels :: "display \<Rightarrow> bool \<times> bool \<times> bool \<times> bool" where
  "channels s = (wifi_display_running s, tcp_running s, discovery_running s, stat_timer s)"

definition sockets :: "display \<Rightarrow> int list" where
  "sockets s = [current_client_fd s, tcp_active_fd s, tcp_connect_fd s, tcp_listen_fd s, discovery_fd s]"

lemma get_caps_changes: "\<exists>c v. snd (rvt_wifi_display_get_caps port s) = s\<lparr>cached_caps := c, caps_valid := v\<rparr>"
proof (cases "caps_valid s")
  case True
  then show ?thesis by (intro exI [of _ "cached_caps s"] exI [of _ "caps_valid s"]) (simp add: rvt_wifi_display_get_caps_def)
next
  case False
  then show ?thesis by (simp add: rvt_wifi_display_get_caps_def Let_def) blast
qed

lemma ensure_changes:
  "\<exists>c v g. ensure_stream_config port s = s\<lparr>cached_caps := c, caps_valid := v, stream_config := g\<rparr>"
proof (cases "sc_width (stream_config s) > 0 \<and> sc_height (stream_config s) > 0 \<and> sc_codec_mask (stream_config s) \<noteq> 0")
  case True
  then show ?thesis
    by (intro exI [of _ "cached_caps s"] exI [of _ "caps_valid s"] exI [of _ "stream_config s"]) (simp add: ensure_stream_config_def)
next
  case False
  obtain c v where "snd (rvt_wifi_display_get_caps port s) = s\<lparr>cached_caps := c, caps_valid := v\<rparr>"
    using get_caps_changes by blast
  with False show ?thesis by (simp only: ensure_stream_config_def Let_def if_False case_prod_beta) blast
qed

lemma ensure_fields: "channels (ensure_stream_config port s) = channels s" "sockets (ensure_stream_config port s) = sockets s"
  "efx (ensure_stream_config port s) = efx s" "pending_cmd_valid (ensure_stream_config port s) = pending_cmd_valid s"
  "pending_cmd (ensure_stream_config port s) = pending_cmd s" "stat_pending (ensure_stream_config port s) = stat_pending s"
  "current_client_fd (ensure_stream_config port s) = current_client_fd s" "tcp_running (ensure_stream_config port s) = tcp_running s"
  using ensure_changes [of port s] by (auto simp: channels_def sockets_def)

lemma tcp_stop_fields:
  "channels (rvt_tcp_channel_stop s) = (wifi_display_running s, False, discovery_running s, False)"
  "sockets (rvt_tcp_channel_stop s) = [- 1, - 1, - 1, - 1, discovery_fd s]"
  by (simp_all add: tcp_stop_eq channels_def sockets_def)

lemma discovery_stop_fields:
  "channels (rvt_wifi_display_discovery_stop s) = (wifi_display_running s, tcp_running s, False, stat_timer s)"
  "sockets (rvt_wifi_display_discovery_stop s) = [current_client_fd s, tcp_active_fd s, tcp_connect_fd s, tcp_listen_fd s, - 1]"
  by (simp_all add: rvt_wifi_display_discovery_stop_def close_if_open_def channels_def sockets_def)

lemma release_fields: "channels (release_wifi_link m s) = channels s" "sockets (release_wifi_link m s) = sockets s"
  by (simp_all add: release_wifi_link_def channels_def sockets_def)

lemma display_stop_fields:
  "channels (rvt_wifi_display_stop s) = (False, False, False, False)"
  "sockets (rvt_wifi_display_stop s) = [- 1, - 1, - 1, - 1, - 1]"
  using tcp_stop_fields [of "rvt_wifi_display_discovery_stop s"] discovery_stop_fields [of s]
  by (simp_all add: rvt_wifi_display_stop_def Let_def channels_def sockets_def release_wifi_link_def)

text \<open>The five ways a start of a service at rest can end.\<close>

lemma start_with_mode_cases:
  assumes "rvt_wifi_display_start_with_mode po mode s = (r, s')" "\<not> wifi_display_running s"
  obtains r1 s2 r2 s3 r3 s4 where
    "prepare_wifi_link po mode (ensure_stream_config (po_caps po) s) = (r1, s2)" "rvt_tcp_channel_init po s2 = (r2, s3)"
    "rvt_wifi_display_discovery_start po s3 = (r3, s4)"
    "(r, s') =
       (if r1 \<noteq> 0 then (r1, s2) else if r2 \<noteq> 0 then (r2, release_wifi_link mode s3)
        else if r3 \<noteq> 0 then (r3, release_wifi_link mode (rvt_tcp_channel_stop s4))
        else if po_udp_init po \<noteq> 0
        then (po_udp_init po, release_wifi_link mode (rvt_tcp_channel_stop (rvt_wifi_display_discovery_stop (emit [Udp_init] s4))))
        else (0, (emit [Udp_init] s4)\<lparr>running_link_mode := mode, wifi_display_running := True\<rparr>))"
proof -
  obtain r1 s2 where 2: "prepare_wifi_link po mode (ensure_stream_config (po_caps po) s) = (r1, s2)" by fastforce
  obtain r2 s3 where 3: "rvt_tcp_channel_init po s2 = (r2, s3)" by fastforce
  obtain r3 s4 where 4: "rvt_wifi_display_discovery_start po s3 = (r3, s4)" by fastforce
  show thesis
    by (rule that [OF 2 3 4]) (rule trans [OF assms(1) [symmetric]],
      simp only: rvt_wifi_display_start_with_mode_def Let_def 2 3 4 assms(2) prod.case if_False)
qed

lemma prepare_link_fields: "prepare_wifi_link po mode s = (r, s') \<Longrightarrow> channels s' = channels s \<and> sockets s' = sockets s"
  by (auto simp: prepare_wifi_link_def channels_def sockets_def split: if_splits)

lemma tcp_init_fields:
  assumes "rvt_tcp_channel_init po s = (r, s')" "channels s = (False, False, False, False)" "sockets s = [- 1, - 1, - 1, - 1, - 1]"
  shows "sockets s' = [- 1, - 1, - 1, - 1, - 1]"
    "channels s' = (if r = 0 then (False, True, False, po_timer po) else (False, False, False, False))"
proof -
  have "sockets s' = [- 1, - 1, - 1, - 1, - 1] \<and>
      channels s' = (if r = 0 then (False, True, False, po_timer po) else (False, False, False, False))"
    using assms by (auto simp: rvt_tcp_channel_init_def tcp_stop_eq channels_def sockets_def Let_def split: if_splits)
  then show "sockets s' = [- 1, - 1, - 1, - 1, - 1]"
    "channels s' = (if r = 0 then (False, True, False, po_timer po) else (False, False, False, False))" by auto
qed

lemma discovery_start_fields:
  "rvt_wifi_display_discovery_start po s = (r, s') \<Longrightarrow> \<not> discovery_running s \<Longrightarrow>
   sockets s' = sockets s \<and> channels s' = (wifi_display_running s, tcp_running s, r = 0, stat_timer s)"
  by (auto simp: rvt_wifi_display_discovery_start_def channels_def sockets_def split: if_splits)

lemma start_outcome:
  assumes "channels s = (False, False, False, False)" "sockets s = [- 1, - 1, - 1, - 1, - 1]"
    "rvt_wifi_display_start_with_mode po mode s = (r, s')"
  shows "if r = 0 then wifi_display_running s' \<and> tcp_running s' \<and> discovery_running s' \<and> running_link_mode s' = mode
        \<and> channels (rvt_wifi_display_stop s') = (False, False, False, False)
      else channels s' = (False, False, False, False) \<and> sockets s' = [- 1, - 1, - 1, - 1, - 1]"
proof -
  let ?rest = "(False, False, False, False)" and ?none = "[- 1, - 1, - 1, - 1, - 1] :: int list"
  from assms(1) have "\<not> wifi_display_running s" by (simp add: channels_def)
  with assms(3) show ?thesis
  proof (rule start_with_mode_cases)
    fix r1 s2 r2 s3 r3 s4
    assume 2: "prepare_wifi_link po mode (ensure_stream_config (po_caps po) s) = (r1, s2)"
      and 3: "rvt_tcp_channel_init po s2 = (r2, s3)" and 4: "rvt_wifi_display_discovery_start po s3 = (r3, s4)"
      and c: "(r, s') =
       (if r1 \<noteq> 0 then (r1, s2) else if r2 \<noteq> 0 then (r2, release_wifi_link mode s3)
        else if r3 \<noteq> 0 then (r3, release_wifi_link mode (rvt_tcp_channel_stop s4))
        else if po_udp_init po \<noteq> 0
        then (po_udp_init po, release_wifi_link mode (rvt_tcp_channel_stop (rvt_wifi_display_discovery_stop (emit [Udp_init] s4))))
        else (0, (emit [Udp_init] s4)\<lparr>running_link_mode := mode, wifi_display_running := True\<rparr>))"
    have 2: "channels s2 = ?rest" "sockets s2 = ?none"
      using prepare_link_fields [OF 2] ensure_fields(1,2) [of "po_caps po" s] assms(1,2) by auto
    note 3 = tcp_init_fields [OF 3 2]
    then have "\<not> discovery_running s3" by (simp add: channels_def split: if_splits)
    note 4 = discovery_start_fields [OF 4 this]
    show ?thesis
    proof (cases "r1 = 0 \<and> r2 = 0 \<and> r3 = 0 \<and> po_udp_init po = 0")
      case True
      with c 3 4 display_stop_fields(1) [of s'] show ?thesis by (simp add: channels_def)
    next
      case False
      have d: "wifi_display_running (rvt_wifi_display_discovery_stop u) = wifi_display_running u"
        "\<not> discovery_running (rvt_wifi_display_discovery_stop u)" "discovery_fd (rvt_wifi_display_discovery_stop u) = - 1" for u
        using discovery_stop_fields [of u] by (simp_all add: channels_def sockets_def)
      have "\<not> wifi_display_running s4" "discovery_running s4 = (r3 = 0)" "discovery_fd s4 = - 1"
        using 3 4 by (simp_all add: channels_def sockets_def split: if_splits)
      with c False 2 3 show ?thesis
        by (simp add: release_fields tcp_stop_fields d split: if_splits)
    qed
  qed
qed

text \<open>
  Starting the display service is all or nothing. From a service at rest, a start either
  returns 0 with the TCP channel, the discovery channel and the service running, or returns the
  error of the step that failed with no channel, timer or socket left behind, whichever of the
  network, the threads, the TCP listener, the discovery and the video receiver fails. Stopping
  a started service brings it back to rest.
\<close>

theorem display_start_all_or_nothing:
  assumes "channels s = (False, False, False, False)" "sockets s = [- 1, - 1, - 1, - 1, - 1]"
    "rvt_wifi_display_start_with_mode po mode s = (r, s')"
  shows "if r = 0 then wifi_display_running s' \<and> tcp_running s' \<and> discovery_running s' \<and> running_link_mode s' = mode
        \<and> channels (rvt_wifi_display_stop s') = (False, False, False, False)
      else channels s' = (False, False, False, False) \<and> sockets s' = [- 1, - 1, - 1, - 1, - 1]"
  by (rule start_outcome [OF assms])

text \<open>The static initialisers.\<close>

definition display_boot :: display where
  "display_boot = \<lparr>cached_caps = zero_caps, caps_valid = False, wifi_display_running = False, running_link_mode = LINK_STA,
     screen_width_override = 0, screen_height_override = 0, codec_mask_override = 0,
     stream_config = \<lparr>sc_width = 0, sc_height = 0, sc_rotation = 0, sc_bitrate_kbps = 0, sc_codec_mask = 0\<rparr>,
     service_state = SERVICE_STOPPED, service_start_result = 0, discovery_running = False, discovery_fd = - 1,
     tcp_running = False, stat_timer = False, tcp_listen_fd = - 1, tcp_connect_fd = - 1, tcp_active_fd = - 1,
     current_client_fd = - 1, stat_pending = False, pending_cmd = [], pending_cmd_valid = False,
     map_display_active = False, sends_no = 0, efx = []\<rparr>"

definition sample_platform :: "int \<Rightarrow> platform" where
  "sample_platform udp = \<lparr>po_caps = None, po_sap_active = False, po_sap_start = 0, po_sta_prepare = 0, po_timer = True,
     po_tcp_thread = True, po_tcp_startup = True, po_tcp_ready = True, po_discovery_thread = True, po_discovery_startup = True,
     po_udp_init = udp, po_task_pid = 7, po_in_time = True\<rparr>"

theorem display_start_all_or_nothing_witness:
  "tcp_running (snd (rvt_wifi_display_start_with_mode (sample_platform 0) LINK_SAP display_boot))
   \<and> sockets (snd (rvt_wifi_display_start_with_mode (sample_platform (- 12)) LINK_SAP display_boot)) = [- 1, - 1, - 1, - 1, - 1]"
proof -
  have rest: "channels display_boot = (False, False, False, False)" "sockets display_boot = [- 1, - 1, - 1, - 1, - 1]"
    by (simp_all add: channels_def sockets_def display_boot_def)
  have r: "fst (rvt_wifi_display_start_with_mode (sample_platform 0) LINK_SAP display_boot) = 0"
    "fst (rvt_wifi_display_start_with_mode (sample_platform (- 12)) LINK_SAP display_boot) = - 12"
    by code_simp+
  from display_start_all_or_nothing [OF rest surjective_pairing, of "sample_platform 0" LINK_SAP]
    display_start_all_or_nothing [OF rest surjective_pairing, of "sample_platform (- 12)" LINK_SAP] r
  show ?thesis by simp
qed

end
