(* ===== verification/Map_Api.thy ===== *)
theory Map_Api
  imports Display_Service
begin

text \<open>
  The map service (\<^verbatim>\<open>services/map_service/src/rvt_map_api.c\<close>): commands for the phone's map
  application over the control channel, with one command kept back while no phone is
  connected. Strings from callers are options, \<open>None\<close> for NULL. Texts produced by formatting
  a floating-point number are arguments. The mutex exists (its creation succeeds).
\<close>

definition RVT_MAP_CMD_TEXT_MAX :: nat where [c_consts]: "RVT_MAP_CMD_TEXT_MAX = 128"
definition RVT_MAP_PENDING_CMD_MAX :: nat where [c_consts]: "RVT_MAP_PENDING_CMD_MAX = 192"

abbreviation (input) CR :: char where "CR \<equiv> CHR 0x0D"
abbreviation (input) LF :: char where "LF \<equiv> CHR 0x0A"
abbreviation (input) crlf :: string where "crlf \<equiv> [CHR 0x0D, CHR 0x0A]"

section \<open>Sending and keeping back\<close>

definition cache_pending_command :: "string option \<Rightarrow> display \<Rightarrow> int \<times> display" where
  "cache_pending_command cmd s =
     (case cmd of
        None \<Rightarrow> (- 1, s)
      | Some c \<Rightarrow>
          if c = [] then (- 1, s)
          else (0, s\<lparr>pending_cmd := cstr_copy RVT_MAP_PENDING_CMD_MAX c, pending_cmd_valid := True\<rparr>))"

definition send_simple_command :: "sends \<Rightarrow> string option \<Rightarrow> display \<Rightarrow> int \<times> display" where
  "send_simple_command snd_env cmd s =
     (case cmd of None \<Rightarrow> (- 1, s) | Some c \<Rightarrow> rvt_tcp_channel_send_command snd_env (Some c) s)"

definition append_nav_name :: "nat \<Rightarrow> string option \<Rightarrow> string \<Rightarrow> string" where
  "append_nav_name dst_size name dst =
     (case name of
        None \<Rightarrow> dst
      | Some n \<Rightarrow>
          if dst_size = 0 \<or> n = [] then dst
          else if length dst \<ge> dst_size - 2 then dst
          else take (dst_size - 1) (dst @ '' '' @ map (\<lambda>c. if c = CR \<or> c = LF then CHR '' '' else c) n))"

definition append_line_end :: "nat \<Rightarrow> string \<Rightarrow> string" where
  "append_line_end dst_size dst =
     (if dst_size = 0 then dst else if length dst \<ge> dst_size - 2 then dst else dst @ crlf)"

definition text_command :: "string \<Rightarrow> string \<Rightarrow> string" where
  "text_command pre msg = cstr_copy (RVT_MAP_CMD_TEXT_MAX + 32) (pre @ '' '' @ msg @ crlf)"

definition send_text_command :: "sends \<Rightarrow> string \<Rightarrow> string option \<Rightarrow> display \<Rightarrow> int \<times> display" where
  "send_text_command snd_env pre msg s =
     (case msg of
        None \<Rightarrow> (- 1, s)
      | Some m \<Rightarrow>
          if m = [] then (- 1, s) else rvt_tcp_channel_send_command snd_env (Some (text_command pre m)) s)"

definition send_or_cache_command :: "sends \<Rightarrow> string option \<Rightarrow> display \<Rightarrow> int \<times> display" where
  "send_or_cache_command snd_env cmd s =
     (case cmd of
        None \<Rightarrow> (- 1, s)
      | Some c \<Rightarrow>
          if c = [] then (- 1, s)
          else (case rvt_tcp_channel_send_command snd_env (Some c) s of (r, s1) \<Rightarrow>
                  if r = 0 then (0, s1) else cache_pending_command (Some c) s1))"

definition send_or_cache_text_command :: "sends \<Rightarrow> string \<Rightarrow> string option \<Rightarrow> display \<Rightarrow> int \<times> display" where
  "send_or_cache_text_command snd_env pre msg s =
     (case msg of
        None \<Rightarrow> (- 1, s)
      | Some m \<Rightarrow>
          if m = [] then (- 1, s) else send_or_cache_command snd_env (Some (text_command pre m)) s)"

section \<open>Map commands\<close>

definition nav_dest_command :: "int \<Rightarrow> int \<Rightarrow> string option \<Rightarrow> string" where
  "nav_dest_command lat lon name =
     (let size = RVT_MAP_CMD_TEXT_MAX + 64;
          cmd = cstr_copy size (''NAV_DEST '' @ show_int lat @ '' '' @ show_int lon)
      in append_line_end size (append_nav_name size name cmd))"

definition rvt_map_set_nav_destination :: "sends \<Rightarrow> int \<Rightarrow> int \<Rightarrow> string option \<Rightarrow> display \<Rightarrow> int \<times> display" where
  "rvt_map_set_nav_destination snd_env lat lon name s =
     (if lat < - 900000000 \<or> lat > 900000000 \<or> lon < - 1800000000 \<or> lon > 1800000000 then (- 1, s)
      else rvt_tcp_channel_send_command snd_env (Some (nav_dest_command lat lon name)) s)"

definition rvt_map_search_destination :: "sends \<Rightarrow> string option \<Rightarrow> display \<Rightarrow> int \<times> display" where
  "rvt_map_search_destination snd_env keyword s = send_text_command snd_env ''NAV_SEARCH'' keyword s"

definition rvt_map_prepare_navigation :: "sends \<Rightarrow> platform \<Rightarrow> string option \<Rightarrow> display \<Rightarrow> int \<times> display" where
  "rvt_map_prepare_navigation snd_env po keyword s =
     (if keyword = None \<or> keyword = Some [] then (- 1, s)
      else (case rvt_wifi_display_start po (s\<lparr>map_display_active := False\<rparr>) of (r, s1) \<Rightarrow>
              if r \<noteq> 0 then (r, s1) else send_or_cache_text_command snd_env ''NAV_GO'' keyword s1))"

definition rvt_map_show_location :: "sends \<Rightarrow> platform \<Rightarrow> display \<Rightarrow> int \<times> display" where
  "rvt_map_show_location snd_env po s =
     (case rvt_wifi_display_start po (s\<lparr>map_display_active := False\<rparr>) of (r, s1) \<Rightarrow>
        if r \<noteq> 0 then (r, s1) else send_or_cache_command snd_env (Some (''MAP_SHOW_LOCATION'' @ crlf)) s1)"

definition rvt_map_select_destination :: "sends \<Rightarrow> int \<Rightarrow> display \<Rightarrow> int \<times> display" where
  "rvt_map_select_destination snd_env select_num s =
     (if select_num \<le> 0 then (- 1, s)
      else rvt_tcp_channel_send_command snd_env (Some (cstr_copy 32 (''NAV_SELECT '' @ show_int select_num @ crlf))) s)"

definition rvt_map_plan_route :: "sends \<Rightarrow> display \<Rightarrow> int \<times> display" where
  "rvt_map_plan_route snd_env s = send_simple_command snd_env (Some (''NAV_ROUTE'' @ crlf)) s"

definition rvt_map_nav_start :: "sends \<Rightarrow> display \<Rightarrow> int \<times> display" where
  "rvt_map_nav_start snd_env s = send_simple_command snd_env (Some (''NAV_START'' @ crlf)) s"

definition rvt_map_nav_stop :: "sends \<Rightarrow> display \<Rightarrow> int \<times> display" where
  "rvt_map_nav_stop snd_env s = send_simple_command snd_env (Some (''NAV_STOP'' @ crlf)) s"

text \<open>The speed comes with its sign and its text to one decimal.\<close>

definition rvt_map_set_vehicle_speed :: "sends \<Rightarrow> bool \<Rightarrow> string \<Rightarrow> display \<Rightarrow> int \<times> display" where
  "rvt_map_set_vehicle_speed snd_env negative speed_text s =
     (if negative then (- 1, s)
      else rvt_tcp_channel_send_command snd_env (Some (cstr_copy 64 (''NAV_SPEED '' @ speed_text @ crlf))) s)"

datatype map_direction = RVT_MAP_DIRECTION_ROUTE_UP | RVT_MAP_DIRECTION_NORTH_UP | Other_direction int

definition rvt_map_set_direction :: "sends \<Rightarrow> map_direction \<Rightarrow> display \<Rightarrow> int \<times> display" where
  "rvt_map_set_direction snd_env direction s =
     (case direction of
        RVT_MAP_DIRECTION_ROUTE_UP \<Rightarrow> send_simple_command snd_env (Some (''MAP_DIR route_up'' @ crlf)) s
      | RVT_MAP_DIRECTION_NORTH_UP \<Rightarrow> send_simple_command snd_env (Some (''MAP_DIR north_up'' @ crlf)) s
      | Other_direction _ \<Rightarrow> (- 1, s))"

section \<open>Messages from the phone\<close>

definition rvt_map_handle_turn_prompt :: "int \<Rightarrow> string option \<Rightarrow> string option \<Rightarrow> display \<Rightarrow> display" where
  "rvt_map_handle_turn_prompt distance_m direction prompt_text s =
     emit [Nav_turn distance_m (case direction of None \<Rightarrow> ''unknown'' | Some d \<Rightarrow> d)
             (case prompt_text of None \<Rightarrow> [] | Some p \<Rightarrow> p)] s"

definition rvt_map_handle_navigation_status :: "string option \<Rightarrow> string option \<Rightarrow> string option \<Rightarrow> display \<Rightarrow> display" where
  "rvt_map_handle_navigation_status event status message s =
     emit [Nav_status (case event of None \<Rightarrow> ''UNKNOWN'' | Some e \<Rightarrow> e) (case status of None \<Rightarrow> ''UNKNOWN'' | Some t \<Rightarrow> t)
             (case message of None \<Rightarrow> [] | Some m \<Rightarrow> m)] s"

definition rvt_map_handle_navigation_arrived :: "display \<Rightarrow> display" where
  "rvt_map_handle_navigation_arrived s =
     rvt_map_handle_navigation_status (Some ''ARRIVED'') (Some ''OK'') (Some ''arrived'') s"

definition rvt_map_handle_navigation_match :: "string option \<Rightarrow> string option \<Rightarrow> display \<Rightarrow> display" where
  "rvt_map_handle_navigation_match status message s =
     rvt_map_handle_navigation_status (Some ''MATCH'') (Some (case status of None \<Rightarrow> ''UNKNOWN'' | Some t \<Rightarrow> t))
       (Some (case message of None \<Rightarrow> [] | Some m \<Rightarrow> m)) s"

definition rvt_map_handle_display_active :: "display \<Rightarrow> display" where
  "rvt_map_handle_display_active s = (if map_display_active s then s else s\<lparr>map_display_active := True\<rparr>)"

section \<open>Flushing the command that was kept back\<close>

text \<open>
  Three steps with the mutex released in between: copying the command, sending it, and
  clearing it.
\<close>

definition flush_copy :: "display \<Rightarrow> string option" where
  "flush_copy s = (if pending_cmd_valid s then Some (cstr_copy RVT_MAP_PENDING_CMD_MAX (pending_cmd s)) else None)"

definition flush_clear :: "display \<Rightarrow> display" where
  "flush_clear s = s\<lparr>pending_cmd_valid := False, pending_cmd := []\<rparr>"

definition rvt_map_flush_pending_commands :: "sends \<Rightarrow> display \<Rightarrow> display" where
  "rvt_map_flush_pending_commands snd_env s =
     (case flush_copy s of
        None \<Rightarrow> s
      | Some cmd \<Rightarrow> (case rvt_tcp_channel_send_command snd_env (Some cmd) s of (r, s1) \<Rightarrow> if r = 0 then flush_clear s1 else s1))"

section \<open>Shell commands\<close>

text \<open>
  Joining the arguments from index \<open>start\<close> on with blanks in a buffer; \<open>None\<close> is the error. The
  counter \<^verbatim>\<open>used\<close>, the first component, does not advance for an argument that is cut off.
\<close>

fun join_args :: "nat \<Rightarrow> string list \<Rightarrow> string \<Rightarrow> nat \<times> string" where
  "join_args out_size [] out = (length out, out)"
| "join_args out_size (a # as) out =
     (if out \<noteq> [] \<and> length out \<ge> out_size - 1 then (length out, out)
      else (let out1 = (if out \<noteq> [] then out @ '' '' else out) in
            if length a \<ge> out_size - length out1 then (length out1, out1 @ take (out_size - length out1 - 1) a)
            else join_args out_size as (out1 @ a)))"

definition build_text_arg :: "string list \<Rightarrow> nat \<Rightarrow> nat \<Rightarrow> string option" where
  "build_text_arg argv start out_size =
     (if out_size = 0 \<or> start \<ge> length argv then None
      else (case join_args out_size (drop start argv) [] of (used, out) \<Rightarrow> if used > 0 then Some out else None))"

definition rvt_map_cmd_locate :: "sends \<Rightarrow> string list \<Rightarrow> display \<Rightarrow> int \<times> display" where
  "rvt_map_cmd_locate snd_env argv s =
     (if length argv < 2 then (- 1, s)
      else (case build_text_arg argv 1 RVT_MAP_CMD_TEXT_MAX of
              None \<Rightarrow> (- 1, s) | Some keyword \<Rightarrow> rvt_map_search_destination snd_env (Some keyword) s))"

definition rvt_map_cmd_go :: "sends \<Rightarrow> platform \<Rightarrow> string list \<Rightarrow> display \<Rightarrow> int \<times> display" where
  "rvt_map_cmd_go snd_env po argv s =
     (if length argv < 2 then (- 1, s)
      else (case build_text_arg argv 1 RVT_MAP_CMD_TEXT_MAX of
              None \<Rightarrow> (- 1, s) | Some keyword \<Rightarrow> rvt_map_prepare_navigation snd_env po (Some keyword) s))"

definition rvt_map_cmd_show_location :: "sends \<Rightarrow> platform \<Rightarrow> string list \<Rightarrow> display \<Rightarrow> int \<times> display" where
  "rvt_map_cmd_show_location snd_env po argv s =
     (if length argv \<noteq> 1 then (- 1, s) else rvt_map_show_location snd_env po s)"

definition rvt_map_cmd_route :: "sends \<Rightarrow> string list \<Rightarrow> display \<Rightarrow> int \<times> display" where
  "rvt_map_cmd_route snd_env argv s = (if length argv \<noteq> 1 then (- 1, s) else rvt_map_plan_route snd_env s)"

definition rvt_map_cmd_nav_start :: "sends \<Rightarrow> string list \<Rightarrow> display \<Rightarrow> int \<times> display" where
  "rvt_map_cmd_nav_start snd_env argv s = (if length argv \<noteq> 1 then (- 1, s) else rvt_map_nav_start snd_env s)"

definition rvt_map_cmd_nav_stop :: "sends \<Rightarrow> string list \<Rightarrow> display \<Rightarrow> int \<times> display" where
  "rvt_map_cmd_nav_stop snd_env argv s = (if length argv \<noteq> 1 then (- 1, s) else rvt_map_nav_stop snd_env s)"

definition rvt_map_cmd_direction :: "sends \<Rightarrow> string list \<Rightarrow> display \<Rightarrow> int \<times> display" where
  "rvt_map_cmd_direction snd_env argv s =
     (if length argv \<noteq> 2 then (- 1, s)
      else if argv ! 1 = ''route_up'' then rvt_map_set_direction snd_env RVT_MAP_DIRECTION_ROUTE_UP s
      else if argv ! 1 = ''north_up'' then rvt_map_set_direction snd_env RVT_MAP_DIRECTION_NORTH_UP s
      else (- 1, s))"

end
