(* ===== verification/C_Text.thy ===== *)
theory C_Text
  imports Prelude
begin

text \<open>
  Functions of the C library on text that several components use: character classes, \<^verbatim>\<open>strtol\<close> in
  the bases 10 and 16 (\<open>long\<close> has 32 bits, as on the R528), \<^verbatim>\<open>strcasestr\<close>, and the reading of a
  file by \<^verbatim>\<open>fgets\<close>.
\<close>

section \<open>Numbers\<close>

definition c_isspace :: "char \<Rightarrow> bool" where
  "c_isspace c \<longleftrightarrow> c = CHR '' '' \<or> ((9 :: nat) \<le> of_char c \<and> of_char c \<le> (13 :: nat))"

definition c_isdigit :: "char \<Rightarrow> bool" where
  "c_isdigit c \<longleftrightarrow> (48 :: nat) \<le> of_char c \<and> of_char c \<le> (57 :: nat)"

definition digits_value :: "string \<Rightarrow> int" where
  "digits_value ds = foldl (\<lambda>v c. 10 * v + (of_char c - 48)) 0 ds"

definition clamp_long :: "int \<Rightarrow> int" where
  "clamp_long v = max (- (2 ^ 31)) (min (2 ^ 31 - 1) v)"

definition strtol :: "string \<Rightarrow> (int \<times> string) option" where
  "strtol p =
     (let q = dropWhile c_isspace p;
          negative = (q \<noteq> [] \<and> hd q = CHR ''-'');
          q1 = (if q \<noteq> [] \<and> (hd q = CHR ''-'' \<or> hd q = CHR ''+'') then tl q else q);
          ds = takeWhile c_isdigit q1
      in if ds = [] then None
         else Some (clamp_long (if negative then - digits_value ds else digits_value ds), dropWhile c_isdigit q1))"

text \<open>\<^verbatim>\<open>atoi\<close>: no digits give zero.\<close>

definition c_atoi :: "string \<Rightarrow> int" where
  "c_atoi p = (case strtol p of None \<Rightarrow> 0 | Some (v, r) \<Rightarrow> v)"

text \<open>Base 16: the value and the number of characters read (none when there is no digit).\<close>

definition hex_nibble :: "char \<Rightarrow> nat option" where
  "hex_nibble c =
     (let n = of_char c in
      if 48 \<le> n \<and> n \<le> 57 then Some (n - 48)
      else if 97 \<le> n \<and> n \<le> 102 then Some (n - 87)
      else if 65 \<le> n \<and> n \<le> (70 :: nat) then Some (n - 55)
      else None)"

definition hex_value :: "string \<Rightarrow> int" where
  "hex_value ds = foldl (\<lambda>v c. 16 * v + int (the (hex_nibble c))) 0 ds"

definition strtol16 :: "string \<Rightarrow> int \<times> nat" where
  "strtol16 p =
     (let q = dropWhile c_isspace p;
          negative = (q \<noteq> [] \<and> hd q = CHR ''-'');
          q1 = (if q \<noteq> [] \<and> (hd q = CHR ''-'' \<or> hd q = CHR ''+'') then tl q else q);
          q2 = (if take 2 q1 \<in> {''0x'', ''0X''} \<and> length q1 > 2 \<and> hex_nibble (q1 ! 2) \<noteq> None then drop 2 q1 else q1);
          ds = takeWhile (\<lambda>c. hex_nibble c \<noteq> None) q2
      in if ds = [] then (0, 0)
         else (clamp_long (if negative then - hex_value ds else hex_value ds), length p - length (drop (length ds) q2)))"

text \<open>A printed number reads back.\<close>

lemma show_nat_digits: "list_all c_isdigit (show_nat n) \<and> show_nat n \<noteq> []"
proof (induction n rule: show_nat.induct)
  case (1 n)
  have "c_isdigit (char_of (48 + d))" if "d < 10" for d :: nat
    using that by (simp add: c_isdigit_def)
  then show ?case using 1 unfolding show_nat.simps [of n] by simp
qed

lemma digits_show_nat: "digits_value (show_nat n) = int n"
proof (induction n rule: show_nat.induct)
  case (1 n)
  have "(of_char (char_of (48 + d)) :: int) = 48 + int d" if "d < 10" for d :: nat
  proof -
    have "(of_char (char_of (48 + d)) :: int) = int (of_char (char_of (48 + d)))" by (rule of_nat_of_char [symmetric])
    then show ?thesis using that by simp
  qed
  then show ?case using 1 unfolding show_nat.simps [of n] by (simp add: digits_value_def zdiv_int zmod_int)
qed

lemma atoi_show_nat:
  assumes "n < 2 ^ 31"
  shows "c_atoi (show_nat n) = int n"
proof -
  obtain c cs where s: "show_nat n = c # cs" using show_nat_digits [of n] by (cases "show_nat n") auto
  have d: "list_all c_isdigit (c # cs)" using show_nat_digits [of n] s by simp
  then have t: "takeWhile c_isdigit (c # cs) = c # cs" by (simp add: list_all_iff takeWhile_eq_all_conv)
  have "c_isdigit c" using d by simp
  then have "\<not> c_isspace c" "c \<noteq> CHR ''-''" "c \<noteq> CHR ''+''" by (auto simp: c_isdigit_def c_isspace_def)
  moreover have "digits_value (c # cs) = int n" using digits_show_nat [of n] s by simp
  ultimately show ?thesis using assms t unfolding c_atoi_def strtol_def s Let_def
    by (simp add: clamp_long_def)
qed

section \<open>Searching without case\<close>

definition strcasestr_in :: "string \<Rightarrow> string \<Rightarrow> nat option" where
  "strcasestr_in hay needle = strstr (map to_lower hay) (map to_lower needle)"

section \<open>Lines of a file\<close>

text \<open>
  \<^verbatim>\<open>fgets\<close> reads up to and with the next line end, at most one character less than the size of
  its buffer.
\<close>

fun split_line :: "nat \<Rightarrow> string \<Rightarrow> string \<times> string" where
  "split_line 0 cs = ([], cs)"
| "split_line (Suc k) [] = ([], [])"
| "split_line (Suc k) (c # cs) = (if c = CHR 0x0A then ([c], cs) else let (l, r) = split_line k cs in (c # l, r))"

lemma split_line_append: "split_line k cs = (l, r) \<Longrightarrow> l @ r = cs"
  by (induction k cs arbitrary: l r rule: split_line.induct) (auto split: if_splits prod.splits)

lemma split_line_shorter: "cs \<noteq> [] \<Longrightarrow> 0 < k \<Longrightarrow> length (snd (split_line k cs)) < length cs"
proof -
  assume a: "cs \<noteq> []" "0 < k"
  obtain l r where lr: "split_line k cs = (l, r)" by fastforce
  have "l \<noteq> []" using lr a by (cases k; cases cs) (auto split: if_splits prod.splits)
  then show ?thesis using split_line_append [OF lr] lr by auto
qed

function fgets_lines :: "nat \<Rightarrow> string \<Rightarrow> string list" where
  "fgets_lines n content =
     (if content = [] \<or> n < 2 then []
      else let (line, rest) = split_line (n - 1) content in line # fgets_lines n rest)"
  by pat_completeness auto
termination
proof (relation "measure (\<lambda>(n, content). length content)", goal_cases)
  case (2 n content x line rest)
  then show ?case using split_line_shorter [of content "n - 1"] by (cases "split_line (n - 1) content") auto
qed simp

declare fgets_lines.simps [simp del]

text \<open>A text made of lines.\<close>

definition join_lines :: "string list \<Rightarrow> string" where
  "join_lines ls = concat (map (\<lambda>l. l @ [CHR 0x0A]) ls)"

lemma split_line_first:
  assumes "CHR 0x0A \<notin> set l" "length l < k"
  shows "split_line k (l @ CHR 0x0A # r) = (l @ [CHR 0x0A], r)"
  using assms
proof (induction l arbitrary: k)
  case Nil
  then show ?case by (cases k) simp_all
next
  case (Cons c l)
  then show ?case by (cases k) auto
qed

end
