(* ===== verification/Tcp_Session.thy ===== *)
theory Tcp_Session
  imports Map_Api C_Text
begin

text \<open>
  One session of the TCP control channel
  (\<^verbatim>\<open>services/wifi_display_service/src/rvt_tcp_channel_impl.c\<close>): connecting to the phone, the
  greeting, the receive loop of \<^verbatim>\<open>tcp_handle_connected_socket\<close> with its line buffer, the
  heartbeat and the navigation messages, and the end of the session.

  The clock is read once for the data of one \<^verbatim>\<open>recv\<close>. The text of a \<^verbatim>\<open>STAT\<close> line is an
  argument, because it prints a floating-point number. \<open>long\<close> has 32 bits, as on the R528.
\<close>

definition TCP_BUF_SIZE :: nat where [c_consts]: "TCP_BUF_SIZE = 256"
definition HEARTBEAT_TIMEOUT :: nat where [c_consts]: "HEARTBEAT_TIMEOUT = 8"

section \<open>Navigation messages\<close>

text \<open>Skipping blanks.\<close>

definition skip_blanks :: "string \<Rightarrow> string" where
  "skip_blanks p = dropWhile (\<lambda>c. c = CHR '' '') p"

text \<open>A word of the line into a buffer of \<open>n\<close> bytes, and what follows it.\<close>

definition nav_word :: "nat \<Rightarrow> string \<Rightarrow> string" where
  "nav_word n p = take (n - 1) (takeWhile (\<lambda>c. c \<noteq> CHR '' '') p)"

definition after_word :: "nat \<Rightarrow> string \<Rightarrow> string" where
  "after_word n p = skip_blanks (drop (length (nav_word n p)) p)"

definition handle_nav_turn_command :: "string \<Rightarrow> display \<Rightarrow> display" where
  "handle_nav_turn_command line s =
     (case strtol (skip_blanks (drop (length ''NAV_TURN'') line)) of
        None \<Rightarrow> s
      | Some (distance_m, end) \<Rightarrow>
          let p = skip_blanks end
          in rvt_map_handle_turn_prompt distance_m (Some (nav_word 32 p)) (Some (after_word 32 p)) s)"

definition handle_nav_match_command :: "string \<Rightarrow> display \<Rightarrow> display" where
  "handle_nav_match_command line s =
     (let p = skip_blanks (drop (length ''NAV_MATCH'') line)
      in rvt_map_handle_navigation_match (Some (nav_word 16 p)) (Some (after_word 16 p)) s)"

definition handle_nav_status_command :: "string \<Rightarrow> display \<Rightarrow> display" where
  "handle_nav_status_command line s =
     (let p = skip_blanks (drop (length ''NAV_STATUS'') line);
          p1 = after_word 32 p
      in rvt_map_handle_navigation_status (Some (nav_word 32 p)) (Some (nav_word 16 p1)) (Some (after_word 16 p1)) s)"

section \<open>The greeting\<close>

definition cap_line :: "disp_caps \<Rightarrow> string" where
  "cap_line c =
     cstr_copy 128 (''CAP '' @ show_int (dc_width c) @ '' '' @ show_int (dc_height c) @ '' '' @ show_int (dc_width_mm c)
       @ '' '' @ show_int (dc_height_mm c) @ '' '' @ show_nat (unat (dc_codec_mask c)) @ crlf)"

definition res_line :: "int \<Rightarrow> int \<Rightarrow> string" where
  "res_line width height = cstr_copy 64 (''RES '' @ show_int width @ '' '' @ show_int height @ crlf)"

definition rot_line :: "int \<Rightarrow> string" where
  "rot_line rotation = cstr_copy 64 (''ROT '' @ show_int rotation @ crlf)"

definition send_capability :: "sends \<Rightarrow> disp_caps option \<Rightarrow> int \<Rightarrow> display \<Rightarrow> display" where
  "send_capability snd_env port fd s =
     (case rvt_wifi_display_get_caps port s of (caps, s1) \<Rightarrow> snd (send_all snd_env fd (cap_line caps) s1))"

definition send_resolution :: "sends \<Rightarrow> int \<Rightarrow> int \<Rightarrow> int \<Rightarrow> display \<Rightarrow> display" where
  "send_resolution snd_env fd width height s = snd (send_all snd_env fd (res_line width height) s)"

definition send_rotation :: "sends \<Rightarrow> int \<Rightarrow> int \<Rightarrow> display \<Rightarrow> display" where
  "send_rotation snd_env fd rotation s = snd (send_all snd_env fd (rot_line rotation) s)"

definition send_stream_config :: "sends \<Rightarrow> disp_caps option \<Rightarrow> int \<Rightarrow> display \<Rightarrow> display" where
  "send_stream_config snd_env port fd s =
     (case rvt_wifi_display_get_stream_config port s of (config, s1) \<Rightarrow>
        send_rotation snd_env fd (sc_rotation config)
          (send_resolution snd_env fd (sc_width config) (sc_height config) s1))"

definition send_statistics :: "sends \<Rightarrow> string \<Rightarrow> int \<Rightarrow> display \<Rightarrow> display" where
  "send_statistics snd_env stat_text fd s = snd (send_all snd_env fd (cstr_copy 128 stat_text) s)"

section \<open>The receive loop\<close>

record session =
  line_buf :: string
  heartbeat_count :: nat
  last_heartbeat :: tick
  pending_flushed :: bool

definition heartbeat_ack :: string where
  "heartbeat_ack = ''HEARTBEAT_ACK'' @ crlf"

definition is_heartbeat :: "string \<Rightarrow> bool" where
  "is_heartbeat line \<longleftrightarrow> take 9 (cstr line) = ''HEARTBEAT''"

definition bind_client :: "int \<Rightarrow> display \<Rightarrow> display" where
  "bind_client fd s = (if current_client_fd s < 0 then s\<lparr>current_client_fd := fd\<rparr> else s)"

text \<open>The first component of a result says whether the bytes that follow are looked at.\<close>

definition handle_heartbeat :: "sends \<Rightarrow> tick \<Rightarrow> int \<Rightarrow> session \<Rightarrow> display \<Rightarrow> bool \<times> session \<times> display" where
  "handle_heartbeat snd_env now fd ss s =
     (let ss1 = ss\<lparr>heartbeat_count := heartbeat_count ss + 1, last_heartbeat := now\<rparr> in
      case send_all snd_env fd heartbeat_ack s of (r, s1) \<Rightarrow>
        if r \<noteq> 0 then (False, ss1, rvt_wifi_display_stop s1)
        else (let s2 = bind_client fd s1 in
              if pending_flushed ss1 then (True, ss1, s2)
              else (True, ss1\<lparr>pending_flushed := True\<rparr>, rvt_map_flush_pending_commands snd_env s2)))"

definition handle_message :: "string \<Rightarrow> display \<Rightarrow> display" where
  "handle_message line s =
     (if line = ''STREAM_STOP'' then emit [Udp_clear] s
      else if line = ''NAV_ARRIVED'' then rvt_map_handle_navigation_arrived s
      else if take 11 line = ''NAV_STATUS '' then handle_nav_status_command line s
      else if take 10 line = ''NAV_MATCH '' then handle_nav_match_command line s
      else if take 9 line = ''NAV_TURN '' then handle_nav_turn_command line s
      else s)"

definition on_char :: "sends \<Rightarrow> tick \<Rightarrow> int \<Rightarrow> char \<Rightarrow> session \<Rightarrow> display \<Rightarrow> bool \<times> session \<times> display" where
  "on_char snd_env now fd c ss s =
     (if c = LF
      then if is_heartbeat (line_buf ss)
           then (case handle_heartbeat snd_env now fd ss s of (go, ss1, s1) \<Rightarrow>
                   (go, if go then ss1\<lparr>line_buf := []\<rparr> else ss1, s1))
           else (True, ss\<lparr>line_buf := []\<rparr>, handle_message (cstr (line_buf ss)) s)
      else if c \<noteq> CR \<and> length (line_buf ss) < TCP_BUF_SIZE - 1 then (True, ss\<lparr>line_buf := line_buf ss @ [c]\<rparr>, s)
      else (True, ss, s))"

fun feed :: "sends \<Rightarrow> tick \<Rightarrow> int \<Rightarrow> string \<Rightarrow> session \<Rightarrow> display \<Rightarrow> session \<times> display" where
  "feed snd_env now fd [] ss s = (ss, s)"
| "feed snd_env now fd (c # cs) ss s =
     (case on_char snd_env now fd c ss s of (go, ss1, s1) \<Rightarrow> if go then feed snd_env now fd cs ss1 s1 else (ss1, s1))"

text \<open>What \<^verbatim>\<open>recv\<close> answers: bytes, nothing for now (at a time), the end of the stream, or an error.\<close>

datatype recv_result = Recv_data tick string | Recv_idle tick | Recv_eof | Recv_error

definition stop_if_current :: "int \<Rightarrow> display \<Rightarrow> display" where
  "stop_if_current fd s = (if current_client_fd s = fd then rvt_wifi_display_stop s else s)"

definition timed_out :: "tick \<Rightarrow> session \<Rightarrow> bool" where
  "timed_out now ss \<longleftrightarrow> now - last_heartbeat ss > of_nat (HEARTBEAT_TIMEOUT * 1000)"

definition send_pending_stat :: "sends \<Rightarrow> string \<Rightarrow> int \<Rightarrow> display \<Rightarrow> display" where
  "send_pending_stat snd_env stat_text fd s =
     (if stat_pending s then send_statistics snd_env stat_text fd (s\<lparr>stat_pending := False\<rparr>) else s)"

text \<open>One turn of the loop; the first component says whether the loop goes on.\<close>

definition tcp_round :: "sends \<Rightarrow> int \<Rightarrow> string \<Rightarrow> recv_result \<Rightarrow> session \<Rightarrow> display \<Rightarrow> bool \<times> session \<times> display" where
  "tcp_round snd_env fd stat_text rx ss s =
     (let s1 = send_pending_stat snd_env stat_text fd s in
      case rx of
        Recv_idle now \<Rightarrow> if timed_out now ss then (False, ss, stop_if_current fd s1) else (True, ss, s1)
      | Recv_eof \<Rightarrow> (False, ss, stop_if_current fd s1)
      | Recv_error \<Rightarrow> (False, ss, stop_if_current fd s1)
      | Recv_data now bytes \<Rightarrow> (True, feed snd_env now fd bytes ss s1))"

definition leave_session :: "int \<Rightarrow> display \<Rightarrow> display" where
  "leave_session fd s =
     (let s1 = (if current_client_fd s = fd then s\<lparr>current_client_fd := - 1\<rparr> else s);
          s2 = (if tcp_active_fd s1 = fd then s1\<lparr>tcp_active_fd := - 1\<rparr> else s1)
      in emit [Closed fd] s2)"

definition greet :: "sends \<Rightarrow> disp_caps option \<Rightarrow> int \<Rightarrow> display \<Rightarrow> display" where
  "greet snd_env port fd s =
     (send_stream_config snd_env port fd (send_capability snd_env port fd (s\<lparr>tcp_active_fd := fd\<rparr>)))\<lparr>stat_pending := False\<rparr>"

definition new_session :: "tick \<Rightarrow> session" where
  "new_session now = \<lparr>line_buf = [], heartbeat_count = 0, last_heartbeat = now, pending_flushed = False\<rparr>"

text \<open>The handler is in its loop, or has returned.\<close>

datatype handler = In_loop session display | Returned display

fun tcp_loop :: "sends \<Rightarrow> int \<Rightarrow> (string \<times> recv_result) list \<Rightarrow> session \<Rightarrow> display \<Rightarrow> handler" where
  "tcp_loop snd_env fd rxs ss s =
     (if \<not> tcp_running s then Returned (leave_session fd s)
      else (case rxs of
              [] \<Rightarrow> In_loop ss s
            | (stat_text, rx) # rest \<Rightarrow>
                (case tcp_round snd_env fd stat_text rx ss s of (go, ss1, s1) \<Rightarrow>
                   if go then tcp_loop snd_env fd rest ss1 s1 else Returned (leave_session fd s1))))"

declare tcp_loop.simps [simp del]

definition tcp_handle_connected_socket ::
  "sends \<Rightarrow> disp_caps option \<Rightarrow> tick \<Rightarrow> (string \<times> recv_result) list \<Rightarrow> int \<Rightarrow> display \<Rightarrow> handler" where
  "tcp_handle_connected_socket snd_env port now rxs fd s =
     tcp_loop snd_env fd rxs (new_session now) (greet snd_env port fd s)"

section \<open>Lines and replies\<close>

text \<open>
  The reference reading of a byte stream: cut at every line feed, and in each piece drop the
  carriage returns and keep the first 255 characters. The last piece is not a line yet.
\<close>

fun split_lf :: "string \<Rightarrow> string list" where
  "split_lf [] = [[]]"
| "split_lf (c # cs) = (if c = LF then [] # split_lf cs else (case split_lf cs of [] \<Rightarrow> [[c]] | l # ls \<Rightarrow> (c # l) # ls))"

definition clean :: "string \<Rightarrow> string" where
  "clean l = take (TCP_BUF_SIZE - 1) (filter (\<lambda>c. c \<noteq> CR) l)"

definition stream_lines :: "string \<Rightarrow> string list" where
  "stream_lines bs = map clean (butlast (split_lf bs))"

definition stream_rest :: "string \<Rightarrow> string" where
  "stream_rest bs = clean (last (split_lf bs))"

text \<open>
  What the phone receives for its lines: an acknowledgement for every heartbeat, and after the
  first of them the command that was kept back.
\<close>

fun transcript :: "string option \<Rightarrow> string list \<Rightarrow> string" where
  "transcript kept [] = []"
| "transcript kept (l # ls) =
     (if is_heartbeat l then heartbeat_ack @ (case kept of None \<Rightarrow> [] | Some c \<Rightarrow> c) @ transcript None ls
      else transcript kept ls)"

definition kept_after :: "string option \<Rightarrow> string list \<Rightarrow> string option" where
  "kept_after kept ls = (if list_ex is_heartbeat ls then None else kept)"

lemma transcript_append: "transcript k (ls @ ls') = transcript k ls @ transcript (kept_after k ls) ls'"
  by (induction k ls rule: transcript.induct) (auto simp: kept_after_def)

lemma kept_after_append: "kept_after k (ls @ ls') = kept_after (kept_after k ls) ls'"
  by (simp add: kept_after_def)

text \<open>The reports of a message to the rest of the program.\<close>

fun is_sent :: "effect \<Rightarrow> bool" where
  "is_sent (Sent fd b) = True"
| "is_sent _ = False"

definition reports :: "display \<Rightarrow> effect list" where
  "reports s = filter (\<lambda>e. \<not> is_sent e) (efx s)"

definition message_reports :: "string \<Rightarrow> effect list" where
  "message_reports line =
     (if is_heartbeat line then []
      else if cstr line = ''STREAM_STOP'' then [Udp_clear]
      else if cstr line = ''NAV_ARRIVED'' then [Nav_status ''ARRIVED'' ''OK'' ''arrived'']
      else if take 11 (cstr line) = ''NAV_STATUS ''
      then (let p = skip_blanks (drop (length ''NAV_STATUS'') (cstr line)); q = after_word 32 p in [Nav_status (nav_word 32 p) (nav_word 16 q) (after_word 16 q)])
      else if take 10 (cstr line) = ''NAV_MATCH ''
      then (let p = skip_blanks (drop (length ''NAV_MATCH'') (cstr line)) in [Nav_status ''MATCH'' (nav_word 16 p) (after_word 16 p)])
      else if take 9 (cstr line) = ''NAV_TURN ''
      then (case strtol (skip_blanks (drop (length ''NAV_TURN'') (cstr line))) of
              None \<Rightarrow> []
            | Some (d, q) \<Rightarrow> [Nav_turn d (nav_word 32 (skip_blanks q)) (after_word 32 (skip_blanks q))])
      else [])"

lemma split_lf_not_Nil [simp]: "split_lf bs \<noteq> []"
  by (cases bs) (auto split: list.split)

lemma split_lf_line: "LF \<notin> set l \<Longrightarrow> split_lf (l @ LF # bs) = l # split_lf bs"
  by (induction l) auto

lemma split_lf_no_lf: "LF \<notin> set l \<Longrightarrow> split_lf l = [l]"
  by (induction l) auto

lemma clean_snoc: "clean (l @ [c]) = (if c \<noteq> CR \<and> length (clean l) < TCP_BUF_SIZE - 1 then clean l @ [c] else clean l)"
  by (auto simp: clean_def)

section \<open>A live session with reliable sends\<close>

lemma handle_message_eq:
  assumes "\<not> is_heartbeat l"
  shows "handle_message (cstr l) s = emit (message_reports l) s"
proof -
  have turn: "handle_nav_turn_command k s =
      emit (case strtol (skip_blanks (drop (length ''NAV_TURN'') k)) of None \<Rightarrow> []
        | Some (d, q) \<Rightarrow> [Nav_turn d (nav_word 32 (skip_blanks q)) (after_word 32 (skip_blanks q))]) s" for k
    by (simp add: handle_nav_turn_command_def rvt_map_handle_turn_prompt_def Let_def split: option.split)
  show ?thesis
    using assms unfolding handle_message_def message_reports_def turn
    by (simp add: handle_nav_status_command_def handle_nav_match_command_def rvt_map_handle_navigation_arrived_def
        rvt_map_handle_navigation_match_def rvt_map_handle_navigation_status_def Let_def if_distrib [of "\<lambda>es. emit es s"] cong: if_cong)
qed

lemma message_reports_silent: "list_all (\<lambda>e. \<not> is_sent e) (message_reports l)"
  unfolding message_reports_def Let_def by (simp split: option.split)

lemma silent_wire: "list_all (\<lambda>e. \<not> is_sent e) es \<Longrightarrow> wire_of fd es = []"
  by (induction fd es rule: wire_of.induct) auto

lemma silent_filter: "list_all (\<lambda>e. \<not> is_sent e) es \<Longrightarrow> filter (\<lambda>e. \<not> is_sent e) es = es"
  by (induction es) auto

lemmas message_silent = silent_wire [OF message_reports_silent] silent_filter [OF message_reports_silent]

text \<open>
  A live session: the phone is the current client once a heartbeat has been answered.
  \<open>kept\<close> is the command the first heartbeat will release.
\<close>

definition live :: "int \<Rightarrow> session \<Rightarrow> display \<Rightarrow> bool" where
  "live fd ss s \<longleftrightarrow> fd \<ge> 0 \<and> tcp_running s \<and> \<not> stat_pending s \<and> current_client_fd s = (if pending_flushed ss then fd else - 1)"

definition kept :: "session \<Rightarrow> display \<Rightarrow> string option" where
  "kept ss s = (if pending_flushed ss then None else flush_copy s)"

definition advances :: "int \<Rightarrow> string list \<Rightarrow> session \<Rightarrow> display \<Rightarrow> session \<Rightarrow> display \<Rightarrow> bool" where
  "advances fd ls ss s ss' s' \<longleftrightarrow>
     live fd ss' s' \<and> wire fd s' = wire fd s @ transcript (kept ss s) ls \<and> kept ss' s' = kept_after (kept ss s) ls
     \<and> reports s' = reports s @ concat (map message_reports ls)
     \<and> heartbeat_count ss' = heartbeat_count ss + length (filter is_heartbeat ls)
     \<and> pending_flushed ss' = (pending_flushed ss \<or> list_ex is_heartbeat ls)"

lemma advances_trans: "advances fd ls ss s ss1 s1 \<Longrightarrow> advances fd ls' ss1 s1 ss2 s2 \<Longrightarrow> advances fd (ls @ ls') ss s ss2 s2"
  by (simp add: advances_def transcript_append kept_after_append)

lemma advances_refl: "live fd ss s \<Longrightarrow> advances fd [] ss s (ss\<lparr>line_buf := b\<rparr>) s"
  by (simp add: advances_def live_def kept_def kept_after_def)

lemma reports_only_sent: "only_sent fd b s s' \<Longrightarrow> reports s' = reports s"
proof -
  have "filter (\<lambda>e. \<not> is_sent e) (map (Sent fd) bs) = []" for bs by (induction bs) auto
  then show "only_sent fd b s s' \<Longrightarrow> reports s' = reports s" unfolding only_sent_def reports_def by auto
qed

lemma reports_simps [simp]:
  "reports (s\<lparr>current_client_fd := c\<rparr>) = reports s" "reports (s\<lparr>pending_cmd_valid := v, pending_cmd := p\<rparr>) = reports s"
  "reports (emit es s) = reports s @ filter (\<lambda>e. \<not> is_sent e) es"
  "wire fd (s\<lparr>current_client_fd := c\<rparr>) = wire fd s" "wire fd (s\<lparr>pending_cmd_valid := v, pending_cmd := p\<rparr>) = wire fd s"
  by (simp_all add: reports_def wire_def emit_def)

lemma only_sent_flush_copy: "only_sent fd b s s' \<Longrightarrow> flush_copy s' = flush_copy s"
  using only_sent_fields [of fd b s s'] by (simp add: flush_copy_def)

text \<open>Releasing the command that was kept back, on a bound session.\<close>

lemma flush_reliable:
  assumes "reliable snd_env" "current_client_fd s = fd" "fd \<ge> 0"
  defines "s' \<equiv> rvt_map_flush_pending_commands snd_env s"
  shows "wire fd s' = wire fd s @ (case flush_copy s of None \<Rightarrow> [] | Some c \<Rightarrow> c)" "reports s' = reports s"
    "tcp_running s' = tcp_running s" "stat_pending s' = stat_pending s" "current_client_fd s' = fd"
proof -
  have "wire fd s' = wire fd s @ (case flush_copy s of None \<Rightarrow> [] | Some c \<Rightarrow> c) \<and> reports s' = reports s
    \<and> tcp_running s' = tcp_running s \<and> stat_pending s' = stat_pending s \<and> current_client_fd s' = fd"
  proof (cases "flush_copy s")
    case None
    then show ?thesis using assms(2) by (simp add: s'_def rvt_map_flush_pending_commands_def)
  next
    case (Some c)
    obtain r s1 where s1: "send_all snd_env fd c s = (r, s1)" by fastforce
    from send_all_outcome(2) [OF s1 assms(1)] have r: "r = 0" "only_sent fd c s s1" by auto
    then have "s' = flush_clear s1"
      using Some s1 assms(2,3) by (simp add: s'_def rvt_map_flush_pending_commands_def rvt_tcp_channel_send_command_def)
    then show ?thesis
      using r(2) Some assms(2) only_sent_fields [OF r(2)] only_sent_wire [OF r(2), of fd] reports_only_sent [OF r(2)]
      by (simp add: flush_clear_def)
  qed
  then show "wire fd s' = wire fd s @ (case flush_copy s of None \<Rightarrow> [] | Some c \<Rightarrow> c)" "reports s' = reports s"
    "tcp_running s' = tcp_running s" "stat_pending s' = stat_pending s" "current_client_fd s' = fd" by auto
qed

lemma heartbeat_reliable:
  assumes "reliable snd_env" "live fd ss s" "is_heartbeat l"
  shows "\<exists>ss' s'. handle_heartbeat snd_env now fd ss s = (True, ss', s') \<and> advances fd [l] ss s ss' s'"
proof -
  obtain r s1 where s1: "send_all snd_env fd heartbeat_ack s = (r, s1)" by fastforce
  from send_all_outcome(2) [OF s1 assms(1)] have r: "r = 0" "only_sent fd heartbeat_ack s s1" by auto
  define s2 where "s2 = bind_client fd s1"
  have s2: "current_client_fd s2 = fd" "tcp_running s2" "\<not> stat_pending s2" "flush_copy s2 = flush_copy s"
    "wire fd s2 = wire fd s @ heartbeat_ack" "reports s2 = reports s"
    using assms(2) only_sent_fields [OF r(2)] only_sent_wire [OF r(2), of fd] reports_only_sent [OF r(2)]
      only_sent_flush_copy [OF r(2)]
    by (simp_all add: s2_def bind_client_def live_def flush_copy_def split: if_splits)
  have fd: "fd \<ge> 0" using assms(2) by (simp add: live_def)
  show ?thesis
    using s2 fd flush_reliable [OF assms(1) s2(1) fd] assms(2,3) s1 r(1)
    by (simp add: handle_heartbeat_def Let_def s2_def [symmetric] advances_def live_def kept_def kept_after_def message_reports_def)
qed

lemma advances_line_buf [simp]:
  "advances fd ls (ss\<lparr>line_buf := b\<rparr>) s ss' s' = advances fd ls ss s ss' s'"
  "advances fd ls ss s (ss'\<lparr>line_buf := b\<rparr>) s' = advances fd ls ss s ss' s'"
  "live fd (ss\<lparr>line_buf := b\<rparr>) s = live fd ss s"
  by (simp_all add: advances_def live_def kept_def)

lemma advances_live: "advances fd ls ss s ss' s' \<Longrightarrow> live fd ss' s'"
  by (simp add: advances_def)

lemma end_of_line_reliable:
  assumes "reliable snd_env" "live fd ss s"
  shows "\<exists>ss' s'. on_char snd_env now fd LF ss s = (True, ss', s') \<and> line_buf ss' = [] \<and> advances fd [line_buf ss] ss s ss' s'"
proof (cases "is_heartbeat (line_buf ss)")
  case True
  from heartbeat_reliable [OF assms True, of now] True show ?thesis by (auto simp: on_char_def)
next
  case False
  with assms(2) show ?thesis
    by (simp add: on_char_def handle_message_eq advances_def live_def kept_def flush_copy_def kept_after_def message_silent)
qed

lemma stream_no_lf: "LF \<notin> set l \<Longrightarrow> stream_lines l = [] \<and> stream_rest l = clean l"
  by (simp add: stream_lines_def stream_rest_def split_lf_no_lf)

lemma stream_line:
  assumes "LF \<notin> set l"
  shows "stream_lines (l @ LF # bs) = clean l # stream_lines bs" "stream_rest (l @ LF # bs) = stream_rest bs"
  using assms by (simp_all add: stream_lines_def stream_rest_def split_lf_line)

lemma feed_reliable:
  assumes "reliable snd_env"
  shows "live fd ss s \<Longrightarrow> LF \<notin> set pre \<Longrightarrow> line_buf ss = clean pre \<Longrightarrow>
    \<exists>ss' s'. feed snd_env now fd cs ss s = (ss', s') \<and> advances fd (stream_lines (pre @ cs)) ss s ss' s'
      \<and> line_buf ss' = stream_rest (pre @ cs)"
proof (induction cs arbitrary: pre ss s)
  case Nil
  then show ?case using advances_refl [of fd ss s "line_buf ss"] stream_no_lf [of pre] by simp
next
  case (Cons c cs)
  show ?case
  proof (cases "c = LF")
    case True
    from end_of_line_reliable [OF assms Cons.prems(1), of now] obtain ss1 s1 where
      1: "on_char snd_env now fd LF ss s = (True, ss1, s1)" "line_buf ss1 = []" "advances fd [clean pre] ss s ss1 s1"
      using Cons.prems(3) by auto
    from Cons.IH [of ss1 s1 "[]"] 1(2) advances_live [OF 1(3)] obtain ss' s' where
      2: "feed snd_env now fd cs ss1 s1 = (ss', s')" "advances fd (stream_lines cs) ss1 s1 ss' s'" "line_buf ss' = stream_rest cs"
      by (auto simp: clean_def)
    from advances_trans [OF 1(3) 2(2)] True 1 2 show ?thesis by (simp add: stream_line [OF Cons.prems(2)])
  next
    case False
    then have "on_char snd_env now fd c ss s = (True, ss\<lparr>line_buf := clean (pre @ [c])\<rparr>, s)"
      using Cons.prems(3) by (simp add: on_char_def clean_snoc)
    with Cons.IH [of "ss\<lparr>line_buf := clean (pre @ [c])\<rparr>" s "pre @ [c]"] Cons.prems False show ?thesis by simp
  qed
qed

lemma last_split_no_lf: "LF \<notin> set (last (split_lf bs))"
proof (induction bs)
  case (Cons c cs)
  then show ?case by (cases "split_lf cs") auto
qed simp

lemma split_lf_append: "split_lf (a @ b) = butlast (split_lf a) @ split_lf (last (split_lf a) @ b)"
proof (induction a)
  case (Cons c cs)
  then show ?case by (cases "split_lf cs") auto
qed simp

lemma stream_append:
  "stream_lines (a @ b) = stream_lines a @ stream_lines (last (split_lf a) @ b)"
  "stream_rest (a @ b) = stream_rest (last (split_lf a) @ b)"
  by (simp_all add: stream_lines_def stream_rest_def split_lf_append [of a b] butlast_append)

text \<open>Chunks as \<^verbatim>\<open>recv\<close> delivers them: the time, and the bytes.\<close>

definition arrivals :: "(tick \<times> string) list \<Rightarrow> (string \<times> recv_result) list" where
  "arrivals chunks = map (\<lambda>(now, bytes). ([], Recv_data now bytes)) chunks"

lemma loop_reliable:
  assumes "reliable snd_env"
  shows "live fd ss s \<Longrightarrow> LF \<notin> set pre \<Longrightarrow> line_buf ss = clean pre \<Longrightarrow>
    \<exists>ss' s'. tcp_loop snd_env fd (arrivals chunks) ss s = In_loop ss' s'
      \<and> advances fd (stream_lines (pre @ concat (map snd chunks))) ss s ss' s'
      \<and> line_buf ss' = stream_rest (pre @ concat (map snd chunks))"
proof (induction chunks arbitrary: pre ss s)
  case Nil
  then show ?case using advances_refl [of fd ss s "line_buf ss"] stream_no_lf [of pre]
    by (simp add: arrivals_def tcp_loop.simps live_def)
next
  case (Cons chunk chunks)
  obtain now bytes where chunk: "chunk = (now, bytes)" by fastforce
  from feed_reliable [OF assms Cons.prems, of now bytes] obtain ss1 s1 where
    1: "feed snd_env now fd bytes ss s = (ss1, s1)" "advances fd (stream_lines (pre @ bytes)) ss s ss1 s1"
       "line_buf ss1 = clean (last (split_lf (pre @ bytes)))" by (auto simp: stream_rest_def)
  have l: "tcp_loop snd_env fd (arrivals (chunk # chunks)) ss s = tcp_loop snd_env fd (arrivals chunks) ss1 s1"
    using 1(1) Cons.prems(1) chunk
    by (simp add: arrivals_def tcp_loop.simps [of _ _ "_ # _"] tcp_round_def send_pending_stat_def live_def)
  from Cons.IH [OF advances_live [OF 1(2)] last_split_no_lf 1(3)] advances_trans [OF 1(2)] l chunk
  show ?case using stream_append [of "pre @ bytes" "concat (map snd chunks)"] by auto
qed

section \<open>The greeting reaches the phone\<close>

definition greeting :: "disp_caps option \<Rightarrow> display \<Rightarrow> string" where
  "greeting port s =
     (case rvt_wifi_display_get_caps port s of (caps, s1) \<Rightarrow>
        let c = fst (rvt_wifi_display_get_stream_config port s1)
        in cap_line caps @ res_line (sc_width c) (sc_height c) @ rot_line (sc_rotation c))"

lemma get_caps_active:
  "rvt_wifi_display_get_caps port (s\<lparr>tcp_active_fd := f\<rparr>) =
   (case rvt_wifi_display_get_caps port s of (c, s1) \<Rightarrow> (c, s1\<lparr>tcp_active_fd := f\<rparr>))"
  by (simp add: rvt_wifi_display_get_caps_def apply_capability_overrides_def Let_def)

lemma get_caps_sent:
  "rvt_wifi_display_get_caps port (s\<lparr>tcp_active_fd := f, sends_no := n, efx := e\<rparr>) =
   (case rvt_wifi_display_get_caps port s of (c, s1) \<Rightarrow> (c, s1\<lparr>tcp_active_fd := f, sends_no := n, efx := e\<rparr>))"
  by (simp add: rvt_wifi_display_get_caps_def apply_capability_overrides_def Let_def)

lemma ensure_sent:
  "ensure_stream_config port (s\<lparr>tcp_active_fd := f, sends_no := n, efx := e\<rparr>) =
   (ensure_stream_config port s)\<lparr>tcp_active_fd := f, sends_no := n, efx := e\<rparr>"
  by (simp add: ensure_stream_config_def get_caps_sent Let_def split: prod.splits)

text \<open>What the greeting leaves alone, whatever the sends do.\<close>

definition untouched :: "int \<Rightarrow> display \<Rightarrow> display \<Rightarrow> bool" where
  "untouched fd s s' \<longleftrightarrow>
     current_client_fd s' = current_client_fd s \<and> tcp_running s' = tcp_running s \<and> tcp_active_fd s' = tcp_active_fd s
     \<and> tcp_connect_fd s' = tcp_connect_fd s \<and> tcp_listen_fd s' = tcp_listen_fd s \<and> flush_copy s' = flush_copy s
     \<and> discovery_fd s' = discovery_fd s \<and> reports s' = reports s"

lemma flush_copy_frame [simp]:
  "flush_copy (s\<lparr>stat_pending := p\<rparr>) = flush_copy s" "flush_copy (s\<lparr>tcp_active_fd := fd\<rparr>) = flush_copy s"
  "reports (s\<lparr>stat_pending := p\<rparr>) = reports s" "reports (s\<lparr>tcp_active_fd := fd\<rparr>) = reports s"
  by (simp_all add: flush_copy_def reports_def)

lemma untouched_trans: "untouched fd s s1 \<Longrightarrow> untouched fd s1 s2 \<Longrightarrow> untouched fd s s2"
  by (simp add: untouched_def)

lemma untouched_sent: "only_sent fd b s s' \<Longrightarrow> untouched fd s s'"
  using only_sent_fields [of fd b s s'] reports_only_sent [of fd b s s'] only_sent_flush_copy [of fd b s s'] by (simp add: untouched_def)

lemma untouched_get_caps: "untouched fd s (snd (rvt_wifi_display_get_caps port s))"
  using get_caps_changes [of port s] by (auto simp: untouched_def flush_copy_def reports_def)

lemma untouched_ensure: "untouched fd s (ensure_stream_config port s)"
  using ensure_changes [of port s] by (auto simp: untouched_def flush_copy_def reports_def)

lemma send_all_sent: obtains b where "only_sent fd b s (snd (send_all snd_env fd data s))" "reliable snd_env \<Longrightarrow> b = data"
proof -
  obtain r s' where s': "send_all snd_env fd data s = (r, s')" by fastforce
  show thesis
  proof (cases "reliable snd_env")
    case True
    from send_all_outcome(2) [OF s' True] s' show thesis by (intro that [of data]) auto
  next
    case False
    from send_all_outcome(1) [OF s'] False s' show thesis by (metis that snd_conv)
  qed
qed

lemma greet_outcome:
  obtains b where "untouched fd (s\<lparr>tcp_active_fd := fd\<rparr>) (greet snd_env port fd s)" "\<not> stat_pending (greet snd_env port fd s)"
    "wire fd (greet snd_env port fd s) = wire fd s @ b" "reliable snd_env \<Longrightarrow> b = greeting port s"
proof -
  obtain caps t1 where caps: "rvt_wifi_display_get_caps port s = (caps, t1)" by fastforce
  let ?t1 = "t1\<lparr>tcp_active_fd := fd\<rparr>"
  have g1: "rvt_wifi_display_get_caps port (s\<lparr>tcp_active_fd := fd\<rparr>) = (caps, ?t1)" by (simp add: get_caps_active caps)
  obtain b1 where b1: "only_sent fd b1 ?t1 (snd (send_all snd_env fd (cap_line caps) ?t1))" "reliable snd_env \<Longrightarrow> b1 = cap_line caps"
    using send_all_sent by blast
  then obtain u1 n e where u1: "snd (send_all snd_env fd (cap_line caps) ?t1) = u1" "u1 = t1\<lparr>tcp_active_fd := fd, sends_no := n, efx := e\<rparr>"
    unfolding only_sent_def by auto
  define c where "c = stream_config (ensure_stream_config port t1)"
  let ?u2 = "ensure_stream_config port u1"
  have c: "stream_config ?u2 = c" by (simp add: u1(2) ensure_sent c_def)
  obtain b2 where b2: "only_sent fd b2 ?u2 (send_resolution snd_env fd (sc_width c) (sc_height c) ?u2)"
      "reliable snd_env \<Longrightarrow> b2 = res_line (sc_width c) (sc_height c)"
    using send_all_sent unfolding send_resolution_def by blast
  let ?u3 = "send_resolution snd_env fd (sc_width c) (sc_height c) ?u2"
  obtain b3 where b3: "only_sent fd b3 ?u3 (send_rotation snd_env fd (sc_rotation c) ?u3)" "reliable snd_env \<Longrightarrow> b3 = rot_line (sc_rotation c)"
    using send_all_sent unfolding send_rotation_def by blast
  let ?u4 = "send_rotation snd_env fd (sc_rotation c) ?u3"
  have eq: "greet snd_env port fd s = ?u4\<lparr>stat_pending := False\<rparr>"
    by (simp add: greet_def send_capability_def send_stream_config_def rvt_wifi_display_get_stream_config_def g1 u1(1) c Let_def)
  have "untouched fd (s\<lparr>tcp_active_fd := fd\<rparr>) ?u4"
    using untouched_get_caps [of fd "s\<lparr>tcp_active_fd := fd\<rparr>" port] untouched_sent [OF b1(1)] untouched_ensure [of fd u1 port]
      untouched_sent [OF b2(1)] untouched_sent [OF b3(1)] by (simp add: g1 u1(1)) (blast intro: untouched_trans)
  then have "untouched fd (s\<lparr>tcp_active_fd := fd\<rparr>) (greet snd_env port fd s)"
    by (simp add: eq untouched_def)
  moreover have "wire fd ?t1 = wire fd s" "wire fd ?u2 = wire fd u1"
    using get_caps_changes [of port s] caps ensure_fields(3) [of port u1] by (auto simp: wire_def)
  then have "wire fd (greet snd_env port fd s) = wire fd s @ b1 @ b2 @ b3"
    using only_sent_wire [OF b1(1), of fd] only_sent_wire [OF b2(1), of fd] only_sent_wire [OF b3(1), of fd] u1(1)
    by (simp add: eq wire_def)
  moreover have "b1 @ b2 @ b3 = greeting port s" if "reliable snd_env"
    using that b1(2) b2(2) b3(2) by (simp add: greeting_def caps rvt_wifi_display_get_stream_config_def Let_def c_def)
  ultimately show thesis using that by (simp add: eq)
qed

lemma session_outcome:
  fixes chunks :: "(tick \<times> string) list"
  assumes "reliable snd_env" "fd \<ge> 0" "tcp_running s" "current_client_fd s = - 1"
  defines "bs \<equiv> concat (map snd chunks)"
  shows "\<exists>ss' s'. tcp_handle_connected_socket snd_env port now (arrivals chunks) fd s = In_loop ss' s'
      \<and> wire fd s' = wire fd s @ greeting port s @ transcript (flush_copy s) (stream_lines bs)
      \<and> reports s' = reports s @ concat (map message_reports (stream_lines bs))
      \<and> (current_client_fd s' = fd) = list_ex is_heartbeat (stream_lines bs)
      \<and> heartbeat_count ss' = length (filter is_heartbeat (stream_lines bs))
      \<and> line_buf ss' = stream_rest bs"
proof -
  let ?ss = "new_session now" and ?g = "greet snd_env port fd s"
  obtain b where g: "untouched fd (s\<lparr>tcp_active_fd := fd\<rparr>) ?g" "\<not> stat_pending ?g"
    "wire fd ?g = wire fd s @ b" "reliable snd_env \<Longrightarrow> b = greeting port s" using greet_outcome by blast
  then have l: "live fd ?ss ?g" "kept ?ss ?g = flush_copy s" "reports ?g = reports s" "current_client_fd ?g = - 1"
    using assms(2-4) by (simp_all add: live_def kept_def new_session_def untouched_def)
  from loop_reliable [OF assms(1) l(1), of "[]" chunks] obtain ss' s' where
    r: "tcp_loop snd_env fd (arrivals chunks) ?ss ?g = In_loop ss' s'" "advances fd (stream_lines bs) ?ss ?g ss' s'"
       "line_buf ss' = stream_rest bs" by (auto simp: bs_def new_session_def clean_def)
  from r(2) assms(2) have "(current_client_fd s' = fd) = list_ex is_heartbeat (stream_lines bs)" by (simp add: advances_def live_def new_session_def)
  with r g(3) g(4) [OF assms(1)] l show ?thesis
    by (simp add: tcp_handle_connected_socket_def advances_def new_session_def)
qed

text \<open>
  C12. The control session speaks the line protocol, however the network cuts the stream. With
  sends that each take at least one byte (none fails or would block, and the statistics timer
  does not fire), a phone that connects first receives the capabilities,
  resolution and rotation. Whatever chunks its bytes then arrive in, the handler stays in its
  loop and the phone has received exactly the greeting and the transcript of the lines of the
  whole stream: one acknowledgement per heartbeat and, after the first of them, the map
  command that was kept back, once. The navigation messages are reported in the order of the
  lines, and the unfinished line is kept for the next chunk.
\<close>

theorem session_follows_protocol:
  fixes chunks :: "(tick \<times> string) list"
  assumes "reliable snd_env" "fd \<ge> 0" "tcp_running s" "current_client_fd s = - 1"
  defines "bs \<equiv> concat (map snd chunks)"
  shows "\<exists>ss' s'. tcp_handle_connected_socket snd_env port now (arrivals chunks) fd s = In_loop ss' s'
      \<and> wire fd s' = wire fd s @ greeting port s @ transcript (flush_copy s) (stream_lines bs)
      \<and> reports s' = reports s @ concat (map message_reports (stream_lines bs))
      \<and> (current_client_fd s' = fd) = list_ex is_heartbeat (stream_lines bs)
      \<and> heartbeat_count ss' = length (filter is_heartbeat (stream_lines bs))
      \<and> line_buf ss' = stream_rest bs"
  unfolding bs_def using session_outcome [OF assms(1-4)] .

definition sample_phone :: "(tick \<times> string) list" where
  "sample_phone = [(10, ''HEART''), (20, ''BEAT'' @ crlf @ ''NAV_ARR''), (30, ''IVED'' @ crlf @ ''HEARTBEAT'' @ crlf)]"

definition connected_boot :: display where
  "connected_boot = display_boot\<lparr>tcp_running := True, pending_cmd := ''NAV_ROUTE'' @ crlf, pending_cmd_valid := True\<rparr>"

theorem session_follows_protocol_witness:
  "\<exists>ss' s'. tcp_handle_connected_socket (\<lambda>_. Wrote 7) None 0 (arrivals sample_phone) 5 connected_boot = In_loop ss' s'
     \<and> wire 5 s' = ''CAP 800 480 0 0 0'' @ crlf @ ''RES 800 480'' @ crlf @ ''ROT 0'' @ crlf
         @ ''HEARTBEAT_ACK'' @ crlf @ ''NAV_ROUTE'' @ crlf @ ''HEARTBEAT_ACK'' @ crlf
     \<and> reports s' = [Nav_status ''ARRIVED'' ''OK'' ''arrived'']"
proof -
  have r: "reliable (\<lambda>_. Wrote 7)" unfolding reliable_def by (auto intro: exI [of _ 6])
  have h: "5 \<ge> (0::int)" "tcp_running connected_boot" "current_client_fd connected_boot = - 1"
    by (simp_all add: connected_boot_def display_boot_def)
  have l: "stream_lines (concat (map snd sample_phone)) = [''HEARTBEAT'', ''NAV_ARRIVED'', ''HEARTBEAT'']"
    by (simp add: sample_phone_def stream_lines_def clean_def c_consts)
  have v: "wire 5 connected_boot = []" "reports connected_boot = []" "flush_copy connected_boot = Some (''NAV_ROUTE'' @ crlf)"
    "greeting None connected_boot = ''CAP 800 480 0 0 0'' @ crlf @ ''RES 800 480'' @ crlf @ ''ROT 0'' @ crlf"
    by code_simp+
  have t: "transcript (Some c) [''HEARTBEAT'', ''NAV_ARRIVED'', ''HEARTBEAT''] = ''HEARTBEAT_ACK'' @ crlf @ c @ ''HEARTBEAT_ACK'' @ crlf"
    "concat (map message_reports [''HEARTBEAT'', ''NAV_ARRIVED'', ''HEARTBEAT'']) = [Nav_status ''ARRIVED'' ''OK'' ''arrived'']" for c
    by (simp_all add: is_heartbeat_def cstr_def heartbeat_ack_def message_reports_def)
  from session_follows_protocol [OF r h, of None 0 sample_phone] show ?thesis
    unfolding l v t by (metis append.assoc append_Nil)
qed

end
