(* ===== verification/Display_Frame.thy ===== *)
theory Display_Frame
  imports Tcp_Session
begin

text \<open>
  What a whole operation of the display and map services keeps follows from what its
  primitive steps keep. The locale \<open>display_frame\<close> is the contract of the primitive steps for
  a reflexive and transitive relation on the state; starting, stopping and every call of the
  map service then respect the relation.
\<close>

section \<open>Calls of the map service\<close>

text \<open>The calls of the map service, which any thread may make.\<close>

datatype map_call =
    Set_nav_destination int int "string option" | Search_destination "string option"
  | Prepare_navigation platform "string option" | Show_location platform | Select_destination int
  | Plan_route | Nav_start | Nav_stop | Set_vehicle_speed bool string | Set_direction map_direction

fun call_map :: "sends \<Rightarrow> map_call \<Rightarrow> display \<Rightarrow> int \<times> display" where
  "call_map snd_env (Set_nav_destination lat lon name) s = rvt_map_set_nav_destination snd_env lat lon name s"
| "call_map snd_env (Search_destination keyword) s = rvt_map_search_destination snd_env keyword s"
| "call_map snd_env (Prepare_navigation po keyword) s = rvt_map_prepare_navigation snd_env po keyword s"
| "call_map snd_env (Show_location po) s = rvt_map_show_location snd_env po s"
| "call_map snd_env (Select_destination n) s = rvt_map_select_destination snd_env n s"
| "call_map snd_env Plan_route s = rvt_map_plan_route snd_env s"
| "call_map snd_env Nav_start s = rvt_map_nav_start snd_env s"
| "call_map snd_env Nav_stop s = rvt_map_nav_stop snd_env s"
| "call_map snd_env (Set_vehicle_speed negative speed_text) s = rvt_map_set_vehicle_speed snd_env negative speed_text s"
| "call_map snd_env (Set_direction d) s = rvt_map_set_direction snd_env d s"

section \<open>Relations the primitive steps respect\<close>

definition settings :: "display \<Rightarrow> disp_caps \<times> bool \<times> stream_cfg \<times> int \<times> int \<times> string" where
  "settings s = (cached_caps s, caps_valid s, stream_config s, screen_width_override s, screen_height_override s, pending_cmd s)"

lemma closes_silent: "wire_of fd (closes f) = []"
  by (simp add: closes_def)

locale display_frame =
  fixes P :: "display \<Rightarrow> display \<Rightarrow> bool"
  assumes refl: "P s s"
    and trans: "P s s1 \<Longrightarrow> P s1 s2 \<Longrightarrow> P s s2"
    and same: "current_client_fd s' = current_client_fd s \<Longrightarrow> efx s' = efx s \<Longrightarrow> stat_pending s' = stat_pending s \<Longrightarrow>
      settings s' = settings s \<Longrightarrow> P s s'"
    and silent: "list_all (\<lambda>e. \<not> is_sent e) es \<Longrightarrow> P s (emit es s)"
    and tcp_stop: "P s (rvt_tcp_channel_stop s)"
    and discovery_stop: "P s (rvt_wifi_display_discovery_stop s)"
    and ensure: "P s (ensure_stream_config port s)"
    and tcp_init: "P s (snd (rvt_tcp_channel_init po s))"
    and command: "P s (snd (rvt_tcp_channel_send_command snd_env cmd s))"
    and cache: "P s (snd (cache_pending_command cmd s))"
begin

lemma release: "P s (release_wifi_link m s)"
  by (simp add: release_wifi_link_def silent refl)

lemma display_stop: "P s (rvt_wifi_display_stop s)"
proof -
  let ?s2 = "rvt_tcp_channel_stop (rvt_wifi_display_discovery_stop s)"
  let ?s4 = "emit [Port_deinit] (emit [Udp_stop] ?s2)"
  let ?s5 = "release_wifi_link (running_link_mode ?s4) ?s4"
  have "P s ?s2" by (rule trans [OF discovery_stop tcp_stop])
  then have "P s ?s4" using trans [OF _ silent [of "[Udp_stop, Port_deinit]" ?s2]] by simp
  then have "P s ?s5" by (rule trans [OF _ release])
  moreover have "P ?s5 (?s5\<lparr>wifi_display_running := False\<rparr>)" by (rule same) (simp_all add: settings_def)
  ultimately show ?thesis unfolding rvt_wifi_display_stop_def Let_def by (rule trans)
qed

lemma prepare_link: "P s (snd (prepare_wifi_link po mode s))"
  by (simp add: prepare_wifi_link_def silent refl)

lemma discovery_start: "P s (snd (rvt_wifi_display_discovery_start po s))"
  by (rule same) (simp_all add: rvt_wifi_display_discovery_start_def settings_def)

lemma start_with_mode: "P s (snd (rvt_wifi_display_start_with_mode po mode s))"
proof (cases "wifi_display_running s")
  case False
  obtain r s' where rs: "rvt_wifi_display_start_with_mode po mode s = (r, s')" by fastforce
  from rs False show ?thesis
  proof (rule start_with_mode_cases)
    fix r1 s2 r2 s3 r3 s4
    let ?s5 = "emit [Udp_init] s4"
    assume 2: "prepare_wifi_link po mode (ensure_stream_config (po_caps po) s) = (r1, s2)"
      and 3: "rvt_tcp_channel_init po s2 = (r2, s3)" and 4: "rvt_wifi_display_discovery_start po s3 = (r3, s4)"
      and c: "(r, s') =
       (if r1 \<noteq> 0 then (r1, s2) else if r2 \<noteq> 0 then (r2, release_wifi_link mode s3)
        else if r3 \<noteq> 0 then (r3, release_wifi_link mode (rvt_tcp_channel_stop s4))
        else if po_udp_init po \<noteq> 0
        then (po_udp_init po, release_wifi_link mode (rvt_tcp_channel_stop (rvt_wifi_display_discovery_stop ?s5)))
        else (0, ?s5\<lparr>running_link_mode := mode, wifi_display_running := True\<rparr>))"
    have m2: "P s s2" using prepare_link [of "ensure_stream_config (po_caps po) s" po mode] 2 by (auto intro: trans [OF ensure])
    have m3: "P s s3" using trans [OF m2 tcp_init [of s2 po]] 3 by simp
    have m4: "P s s4" using trans [OF m3 discovery_start [of s3 po]] 4 by simp
    have m5: "P s ?s5" by (rule trans [OF m4 silent]) simp
    have m6: "P s (?s5\<lparr>running_link_mode := mode, wifi_display_running := True\<rparr>)"
      by (rule trans [OF m5 same]) (simp_all add: settings_def)
    show ?thesis
      using c rs m2 m6 trans [OF m3 release] trans [OF trans [OF m4 tcp_stop] release]
        trans [OF trans [OF trans [OF m5 discovery_stop] tcp_stop] release]
      by (simp split: if_splits)
  qed
qed (simp add: rvt_wifi_display_start_with_mode_def refl)

lemma start: "P s (snd (rvt_wifi_display_start po s))"
proof -
  let ?s1 = "s\<lparr>service_start_result := - 1, service_state := SERVICE_STARTING\<rparr>"
  obtain r s2 where 2: "rvt_wifi_display_start_with_mode po LINK_STA ?s1 = (r, s2)" by fastforce
  have m1: "P s ?s1" by (rule same) (simp_all add: settings_def)
  have m2: "P s s2" using trans [OF m1 start_with_mode [of ?s1 po LINK_STA]] 2 by simp
  have m3: "P s (s2\<lparr>service_start_result := r, service_state := x\<rparr>)" for x
    by (rule trans [OF m2 same]) (simp_all add: settings_def)
  have m4: "P s (?s1\<lparr>service_state := x\<rparr>)" for x
    by (rule trans [OF m1 same]) (simp_all add: settings_def)
  show ?thesis
    using m1 m3 m4 [of SERVICE_STOPPED]
    by (simp add: rvt_wifi_display_start_def rvt_wifi_display_start_service_task_def service_task_start_def Let_def 2 refl)
qed

lemma send_or_cache: "P s (snd (send_or_cache_command snd_env cmd s))"
proof (cases cmd)
  case (Some c)
  obtain r s1 where 1: "rvt_tcp_channel_send_command snd_env (Some c) s = (r, s1)" by fastforce
  have m: "P s s1" using command [of s snd_env "Some c"] 1 by simp
  with trans [OF m cache] show ?thesis by (simp add: send_or_cache_command_def Some 1 refl)
qed (simp add: send_or_cache_command_def refl)

lemma started:
  assumes "\<And>s. P s (snd (f s))"
  shows "P s (snd (case rvt_wifi_display_start po (s\<lparr>map_display_active := False\<rparr>) of (r, s1) \<Rightarrow> if r \<noteq> 0 then (r, s1) else f s1))"
proof -
  obtain r s1 where 1: "rvt_wifi_display_start po (s\<lparr>map_display_active := False\<rparr>) = (r, s1)" by fastforce
  have "P s (s\<lparr>map_display_active := False\<rparr>)" by (rule same) (simp_all add: settings_def)
  then have "P s s1" using start [of "s\<lparr>map_display_active := False\<rparr>" po] 1 by (auto intro: trans)
  with assms [of s1] 1 show ?thesis by (auto intro: trans)
qed

lemma call_map: "P s (snd (call_map snd_env call s))"
proof (cases call)
  case (Prepare_navigation po keyword)
  have "P s (snd (send_or_cache_text_command snd_env pre m s))" for pre m s
    by (cases m) (simp_all add: send_or_cache_text_command_def send_or_cache refl)
  from started [OF this] Prepare_navigation show ?thesis
    by (simp add: rvt_map_prepare_navigation_def refl)
next
  case (Show_location po)
  then show ?thesis using started [OF send_or_cache] by (simp add: rvt_map_show_location_def)
next
  case (Search_destination keyword)
  then show ?thesis
    by (cases keyword) (simp_all add: rvt_map_search_destination_def send_text_command_def command refl)
qed (simp_all add: rvt_map_set_nav_destination_def rvt_map_select_destination_def rvt_map_plan_route_def rvt_map_nav_start_def
    rvt_map_nav_stop_def rvt_map_set_vehicle_speed_def rvt_map_set_direction_def send_simple_command_def command refl
    split: map_direction.split)

end

end
