(* ===== verification/Display_Safety.thy ===== *)
theory Display_Safety
  imports Display_Frame
begin

text \<open>
  Sessions of the control channel among the other threads of the program: map requests, the
  statistics timer and stops arrive between two turns of the receive loop. The theory shows
  what a phone can receive before its first heartbeat, that a map request reaches the phone,
  and how a session ends.
\<close>

section \<open>Interleavings\<close>

inductive thread_step :: "sends \<Rightarrow> int \<Rightarrow> handler \<Rightarrow> handler \<Rightarrow> bool" for snd_env fd where
  Turn: "tcp_running s \<Longrightarrow> tcp_round snd_env fd stat_text rx ss s = (True, ss', s') \<Longrightarrow>
     thread_step snd_env fd (In_loop ss s) (In_loop ss' s')"
| Break: "tcp_running s \<Longrightarrow> tcp_round snd_env fd stat_text rx ss s = (False, ss', s') \<Longrightarrow>
     thread_step snd_env fd (In_loop ss s) (Returned (leave_session fd s'))"
| Stopped: "\<not> tcp_running s \<Longrightarrow> thread_step snd_env fd (In_loop ss s) (Returned (leave_session fd s))"
| Timer: "thread_step snd_env fd (In_loop ss s) (In_loop ss (stat_timer_cb s))"
| Map: "thread_step snd_env fd (In_loop ss s) (In_loop ss (snd (call_map snd_env call s)))"
| Stop: "thread_step snd_env fd (In_loop ss s) (In_loop ss (rvt_wifi_display_stop s))"

inductive_cases thread_stepE: "thread_step snd_env fd (In_loop ss s) h"
inductive_simps returned_step [simp]: "thread_step snd_env fd (Returned s) h"

section \<open>Steps that send nothing\<close>

text \<open>
  \<open>mute fd s s'\<close>: from a state without a current client the step leads to one without, sends
  nothing on \<open>fd\<close> and asks for no statistics.
\<close>

definition mute :: "int \<Rightarrow> display \<Rightarrow> display \<Rightarrow> bool" where
  "mute fd s s' \<longleftrightarrow>
     (current_client_fd s < 0 \<longrightarrow> current_client_fd s' < 0 \<and> wire fd s' = wire fd s \<and> (stat_pending s' \<longrightarrow> stat_pending s))"

interpretation mute: display_frame "mute fd"
proof
  show "mute fd s (snd (rvt_tcp_channel_init po s))" for s po
    by (simp add: rvt_tcp_channel_init_def Let_def mute_def wire_def tcp_stop_eq closes_silent)
  show "mute fd s (snd (rvt_tcp_channel_send_command snd_env cmd s))" for s snd_env cmd
    by (cases cmd) (simp_all add: mute_def rvt_tcp_channel_send_command_def)
  show "mute fd s (snd (cache_pending_command cmd s))" for s cmd
    by (cases cmd) (simp_all add: mute_def wire_def cache_pending_command_def)
  show "mute fd s (rvt_wifi_display_discovery_stop s)" for s
    by (simp add: mute_def rvt_wifi_display_discovery_stop_def close_if_open_def wire_def)
qed (simp_all add: mute_def wire_def silent_wire tcp_stop_eq closes_silent ensure_fields)

section \<open>Nothing but the greeting before the first heartbeat\<close>

lemma heartbeat_counts: "heartbeat_count (fst (snd (handle_heartbeat snd_env now fd ss s))) = Suc (heartbeat_count ss)"
  by (simp add: handle_heartbeat_def Let_def split: prod.split)

lemma on_char_count:
  assumes "on_char snd_env now fd c ss s = (go, ss', s')"
  shows "heartbeat_count ss \<le> heartbeat_count ss'" "heartbeat_count ss' = heartbeat_count ss \<Longrightarrow> mute fd s s'"
proof -
  consider (beat) "c = LF" "is_heartbeat (line_buf ss)" | (line) "c = LF" "\<not> is_heartbeat (line_buf ss)" | (char) "c \<noteq> LF" by blast
  then have "heartbeat_count ss \<le> heartbeat_count ss' \<and> (heartbeat_count ss' = heartbeat_count ss \<longrightarrow> mute fd s s')"
  proof cases
    case beat
    obtain g ss1 s1 where 1: "handle_heartbeat snd_env now fd ss s = (g, ss1, s1)" by (metis prod_cases3)
    with beat assms have "ss' = (if g then ss1\<lparr>line_buf := []\<rparr> else ss1)" by (auto simp: on_char_def)
    moreover have "heartbeat_count ss1 = Suc (heartbeat_count ss)" using heartbeat_counts [of snd_env now fd ss s] 1 by simp
    ultimately show ?thesis by simp
  next
    case line
    with assms have "ss' = ss\<lparr>line_buf := []\<rparr>" "s' = emit (message_reports (line_buf ss)) s"
      by (simp_all add: on_char_def handle_message_eq)
    then show ?thesis using mute.silent [OF message_reports_silent] by simp
  next
    case char
    with assms have "s' = s" "heartbeat_count ss' = heartbeat_count ss" by (auto simp: on_char_def split: if_splits)
    then show ?thesis by (simp add: mute.refl)
  qed
  then show "heartbeat_count ss \<le> heartbeat_count ss'" "heartbeat_count ss' = heartbeat_count ss \<Longrightarrow> mute fd s s'" by auto
qed

lemma feed_count:
  "feed snd_env now fd cs ss s = (ss', s') \<Longrightarrow>
   heartbeat_count ss \<le> heartbeat_count ss' \<and> (heartbeat_count ss' = heartbeat_count ss \<longrightarrow> mute fd s s')"
proof (induction cs arbitrary: ss s)
  case Nil
  then show ?case by (simp add: mute.refl)
next
  case (Cons c cs)
  obtain go ss1 s1 where 1: "on_char snd_env now fd c ss s = (go, ss1, s1)" by (metis prod_cases3)
  note c = on_char_count [OF 1]
  show ?case
  proof (cases go)
    case True
    with Cons.prems 1 have "feed snd_env now fd cs ss1 s1 = (ss', s')" by simp
    from Cons.IH [OF this] c show ?thesis by (auto intro: mute.trans)
  next
    case False
    with Cons.prems 1 c show ?thesis by auto
  qed
qed

text \<open>Before the first heartbeat: no current client, no statistics due, and the socket has seen \<open>w\<close>.\<close>

definition unheard :: "int \<Rightarrow> string \<Rightarrow> handler \<Rightarrow> bool" where
  "unheard fd w h \<longleftrightarrow>
     (case h of Returned _ \<Rightarrow> True
      | In_loop ss s \<Rightarrow> heartbeat_count ss = 0 \<longrightarrow> current_client_fd s < 0 \<and> \<not> stat_pending s \<and> wire fd s = w)"

lemma unheard_step: "thread_step snd_env fd h h' \<Longrightarrow> unheard fd w h \<Longrightarrow> unheard fd w h'"
proof (induction rule: thread_step.induct)
  case (Turn s stat_text rx ss ss' s')
  show ?case
  proof (cases rx)
    case (Recv_data now bytes)
    with Turn(2) have "feed snd_env now fd bytes ss (send_pending_stat snd_env stat_text fd s) = (ss', s')"
      by (simp add: tcp_round_def)
    from feed_count [OF this] Turn(3) show ?thesis
      by (auto simp: unheard_def mute_def send_pending_stat_def)
  qed (use Turn in \<open>auto simp: tcp_round_def unheard_def send_pending_stat_def Let_def split: if_splits\<close>)
next
  case (Map ss s call)
  then show ?case using mute.call_map [of fd s snd_env call] by (auto simp: unheard_def mute_def)
next
  case (Stop ss s)
  then show ?case using mute.display_stop [of fd s] by (auto simp: unheard_def mute_def)
qed (auto simp: unheard_def stat_timer_cb_def)

text \<open>
  C22. A phone that has only connected receives nothing but the greeting. Until the session's
  first heartbeat, whatever bytes the phone sends, whatever the sends do, and whatever map
  requests, timer expiries and stops other threads interleave, no byte follows the greeting
  on its socket and the map service sees no client: a connection that only probes the port
  cannot swallow a navigation command.
\<close>

theorem silent_before_heartbeat:
  assumes "current_client_fd s = - 1"
    "(thread_step snd_env fd)\<^sup>*\<^sup>* (In_loop (new_session now) (greet snd_env port fd s)) (In_loop ss' s')"
    "heartbeat_count ss' = 0"
  shows "wire fd s' = wire fd (greet snd_env port fd s) \<and> current_client_fd s' < 0 \<and> \<not> rvt_tcp_channel_has_client s'"
proof -
  let ?g = "greet snd_env port fd s"
  obtain b where "untouched fd (s\<lparr>tcp_active_fd := fd\<rparr>) ?g" "\<not> stat_pending ?g" using greet_outcome by blast
  with assms(1) have "unheard fd (wire fd ?g) (In_loop (new_session now) ?g)"
    by (simp add: unheard_def untouched_def)
  with assms(2) have "unheard fd (wire fd ?g) (In_loop ss' s')"
    by (induction rule: rtranclp_induct) (auto dest: unheard_step)
  with assms(3) show ?thesis by (simp add: unheard_def rvt_tcp_channel_has_client_def)
qed

theorem silent_before_heartbeat_witness:
  "wire 5 (stat_timer_cb (greet (\<lambda>_. Wrote 7) None 5 connected_boot)) = wire 5 (greet (\<lambda>_. Wrote 7) None 5 connected_boot)
   \<and> \<not> rvt_tcp_channel_has_client (snd (call_map (\<lambda>_. Wrote 7) Plan_route (greet (\<lambda>_. Wrote 7) None 5 connected_boot)))"
proof -
  let ?g = "greet (\<lambda>_. Wrote 7) None 5 connected_boot" and ?ss = "new_session 0"
  have c: "current_client_fd connected_boot = - 1" and h: "heartbeat_count ?ss = 0"
    by (simp_all add: connected_boot_def display_boot_def new_session_def)
  have "(thread_step (\<lambda>_. Wrote 7) 5)\<^sup>*\<^sup>* (In_loop ?ss ?g) (In_loop ?ss (stat_timer_cb ?g))"
    "(thread_step (\<lambda>_. Wrote 7) 5)\<^sup>*\<^sup>* (In_loop ?ss ?g) (In_loop ?ss (snd (call_map (\<lambda>_. Wrote 7) Plan_route ?g)))"
    by (rule r_into_rtranclp, rule thread_step.intros)+
  from silent_before_heartbeat [OF c this(1) h] silent_before_heartbeat [OF c this(2) h] show ?thesis by blast
qed

section \<open>A map request reaches the phone\<close>

lemma kept_back:
  assumes "current_client_fd s < 0" "c \<noteq> []" "length c < RVT_MAP_PENDING_CMD_MAX"
  shows "send_or_cache_command snd_env (Some c) s = (0, s\<lparr>pending_cmd := c, pending_cmd_valid := True\<rparr>)"
  using assms by (simp add: send_or_cache_command_def rvt_tcp_channel_send_command_def cache_pending_command_def cstr_copy_fits)

text \<open>
  A navigation request made before the phone is there reaches it. While the display runs
  without a client, \<^verbatim>\<open>rvt_map_prepare_navigation\<close> returns 0, and when a phone then connects and
  sends a heartbeat, among any other bytes and in any chunks, it receives the command with
  its line end right after the first acknowledgement (with sends that are eventually
  accepted, and a keyword that fits the command buffer).
\<close>

theorem map_request_delivered:
  assumes "reliable snd_env" "fd \<ge> 0" "tcp_running s" "wifi_display_running s" "current_client_fd s = - 1"
    "keyword \<noteq> []" "length keyword < 120" "list_ex is_heartbeat (stream_lines (concat (map snd chunks)))"
  shows "\<exists>s1 ss' s' more. rvt_map_prepare_navigation snd_env po (Some keyword) s = (0, s1)
      \<and> tcp_handle_connected_socket snd_env port now (arrivals chunks) fd s1 = In_loop ss' s'
      \<and> wire fd s' = wire fd s @ greeting port s1 @ heartbeat_ack @ (''NAV_GO '' @ keyword @ crlf) @ more"
proof -
  let ?c = "''NAV_GO '' @ keyword @ crlf"
  let ?s1 = "s\<lparr>map_display_active := False, pending_cmd := ?c, pending_cmd_valid := True\<rparr>"
  have tc: "text_command ''NAV_GO'' keyword = ?c"
    using assms(7) by (simp add: text_command_def cstr_copy_def c_consts)
  have st: "rvt_wifi_display_start po (s\<lparr>map_display_active := False\<rparr>) = (0, s\<lparr>map_display_active := False\<rparr>)"
    using assms(4) by (simp add: rvt_wifi_display_start_def rvt_wifi_display_start_service_task_def)
  have 1: "rvt_map_prepare_navigation snd_env po (Some keyword) s = (0, ?s1)"
    using kept_back [of "s\<lparr>map_display_active := False\<rparr>" ?c snd_env] assms(5-7) tc
    by (simp add: rvt_map_prepare_navigation_def st send_or_cache_text_command_def c_consts)
  have h: "tcp_running ?s1" "current_client_fd ?s1 = - 1" using assms(3,5) by simp_all
  have kept: "flush_copy ?s1 = Some ?c" using assms(7) by (simp add: flush_copy_def cstr_copy_fits c_consts)
  have tr: "list_ex is_heartbeat ls \<Longrightarrow> \<exists>more. transcript (Some c) ls = heartbeat_ack @ c @ more" for c ls
    by (induction ls) auto
  obtain more where more: "transcript (Some ?c) (stream_lines (concat (map snd chunks))) = heartbeat_ack @ ?c @ more"
    using tr [OF assms(8)] by blast
  from session_outcome [OF assms(1,2) h, of port now chunks] obtain ss' s' where
    2: "tcp_handle_connected_socket snd_env port now (arrivals chunks) fd ?s1 = In_loop ss' s'"
       "wire fd s' = wire fd ?s1 @ greeting port ?s1 @ transcript (flush_copy ?s1) (stream_lines (concat (map snd chunks)))" by blast
  have w: "wire fd ?s1 = wire fd s" by (simp add: wire_def)
  show ?thesis by (rule exI [of _ ?s1], rule exI [of _ ss'], rule exI [of _ s'], rule exI [of _ more]) (simp only: 1 2 w kept more append.assoc)
qed

theorem map_request_delivered_witness:
  "\<exists>s1 ss' s' more.
     rvt_map_prepare_navigation (\<lambda>_. Wrote 7) (sample_platform 0) (Some ''home'') (connected_boot\<lparr>wifi_display_running := True\<rparr>) = (0, s1)
     \<and> tcp_handle_connected_socket (\<lambda>_. Wrote 7) None 0 (arrivals sample_phone) 5 s1 = In_loop ss' s'
     \<and> wire 5 s' = greeting None s1 @ ''HEARTBEAT_ACK'' @ crlf @ ''NAV_GO home'' @ crlf @ more"
proof -
  let ?s = "connected_boot\<lparr>wifi_display_running := True\<rparr>"
  have r: "reliable (\<lambda>_. Wrote 7)" unfolding reliable_def by (auto intro: exI [of _ 6])
  have h: "5 \<ge> (0::int)" "tcp_running ?s" "wifi_display_running ?s" "current_client_fd ?s = - 1"
    by (simp_all add: connected_boot_def display_boot_def)
  have k: "''home'' \<noteq> []" "length ''home'' < 120" by simp_all
  have l: "list_ex is_heartbeat (stream_lines (concat (map snd sample_phone)))"
    by (simp add: sample_phone_def stream_lines_def clean_def is_heartbeat_def cstr_def c_consts)
  have w: "wire 5 ?s = []" by (simp add: wire_def connected_boot_def display_boot_def)
  from map_request_delivered [OF r h k l, of "sample_platform 0" None 0] show ?thesis
    unfolding w heartbeat_ack_def by simp
qed

section \<open>How a session ends\<close>

definition closed_times :: "int \<Rightarrow> display \<Rightarrow> nat" where
  "closed_times fd s = count_list (efx s) (Closed fd)"

lemma display_stop_efx:
  "\<exists>es. efx (rvt_wifi_display_stop s) = efx s @ closes (discovery_fd s) @ closes (current_client_fd s)
         @ (if tcp_active_fd s = current_client_fd s then [] else closes (tcp_active_fd s))
         @ (if tcp_connect_fd s = current_client_fd s then [] else closes (tcp_connect_fd s))
         @ closes (tcp_listen_fd s) @ es \<and> (\<forall>fd. count_list es (Closed fd) = 0)"
  by (rule exI [of _ "Udp_stop # Port_deinit # (if running_link_mode s = LINK_SAP then [Sap_stop] else [])"])
    (simp add: rvt_wifi_display_stop_def rvt_wifi_display_discovery_stop_def close_if_open_emit tcp_stop_eq release_wifi_link_def Let_def)

lemma count_closes: "count_list (closes f) (Closed fd) = (if f = fd \<and> fd \<ge> 0 then 1 else 0)"
  by (auto simp: closes_def)

text \<open>
  A session that had become the current client closes its socket twice when the phone
  disconnects, the receive fails or the heartbeat times out: once in \<^verbatim>\<open>rvt_wifi_display_stop\<close>,
  which it calls, and once on leaving the handler. A session that never saw a heartbeat
  closes its socket once. Between the two closes the descriptor number may already belong to
  another file of the program.
\<close>

theorem session_end_closes_twice:
  assumes "fd \<ge> 0" "tcp_running s" "\<not> stat_pending s" "tcp_active_fd s = fd" "current_client_fd s = fd \<or> current_client_fd s = - 1"
    "fd \<notin> {tcp_connect_fd s, tcp_listen_fd s, discovery_fd s}"
    "rx = Recv_eof \<or> rx = Recv_error \<or> (\<exists>now. rx = Recv_idle now \<and> timed_out now ss)"
  shows "\<exists>s'. tcp_loop snd_env fd [(stat_text, rx)] ss s = Returned s' \<and> current_client_fd s' = - 1 \<and> tcp_active_fd s' = - 1
      \<and> closed_times fd s' = closed_times fd s + (if current_client_fd s = fd then 2 else 1)"
proof -
  let ?s1 = "stop_if_current fd s"
  have 1: "tcp_loop snd_env fd [(stat_text, rx)] ss s = Returned (leave_session fd ?s1)"
    using assms(2,3,7) by (auto simp: tcp_loop.simps tcp_round_def send_pending_stat_def)
  have fields: "current_client_fd (rvt_wifi_display_stop s) = - 1" "tcp_active_fd (rvt_wifi_display_stop s) = - 1"
    using display_stop_fields(2) [of s] by (simp_all add: sockets_def)
  have "closed_times fd ?s1 = closed_times fd s + (if current_client_fd s = fd then 1 else 0)"
    using display_stop_efx [of s] assms(1,4,6) by (auto simp: stop_if_current_def closed_times_def count_closes)
  with 1 assms(1,4,5) fields show ?thesis
    by (auto simp: leave_session_def closed_times_def Let_def stop_if_current_def)
qed

theorem session_end_closes_twice_witness:
  "\<exists>s'. tcp_loop (\<lambda>_. Wrote 7) 5 [([], Recv_eof)] (new_session 0) (connected_boot\<lparr>tcp_active_fd := 5, current_client_fd := 5\<rparr>) = Returned s'
     \<and> closed_times 5 s' = 2"
proof -
  let ?s = "connected_boot\<lparr>tcp_active_fd := 5, current_client_fd := 5\<rparr>"
  have h: "(5::int) \<ge> 0" "tcp_running ?s" "\<not> stat_pending ?s" "tcp_active_fd ?s = 5" "current_client_fd ?s = 5 \<or> current_client_fd ?s = - 1"
    "5 \<notin> {tcp_connect_fd ?s, tcp_listen_fd ?s, discovery_fd ?s}" and c: "closed_times 5 ?s = 0"
    by (simp_all add: connected_boot_def display_boot_def closed_times_def)
  have rx: "Recv_eof = Recv_eof \<or> Recv_eof = Recv_error \<or> (\<exists>now. Recv_eof = Recv_idle now \<and> timed_out now (new_session 0))" by simp
  from session_end_closes_twice [OF h rx, of "\<lambda>_. Wrote 7" "[]"] c show ?thesis by auto
qed

text \<open>
  A stop does not wait for the handler. When the display is started again before the handler
  of the old session has looked at \<^verbatim>\<open>tcp_running\<close>, the old handler finds it set and goes on
  reading from the socket the stop has closed.
\<close>

lemma restart_revives_old_handler:
  assumes "rvt_wifi_display_start_with_mode po mode (rvt_wifi_display_stop s) = (0, s')"
  shows "tcp_loop snd_env fd [] ss s' = In_loop ss s'"
proof -
  have "tcp_running s'" using start_outcome [OF display_stop_fields assms] by simp
  then show ?thesis by (simp add: tcp_loop.simps)
qed

text \<open>
  The flush of the kept command releases the mutex while it sends. A request that another
  thread keeps back in between (its own send has failed) is wiped out with the old command
  afterwards: the caller got 0, and the command is neither on the wire nor kept.
\<close>

lemma flush_drops_newer_request:
  assumes "flush_copy s = Some old" "rvt_tcp_channel_send_command snd_env (Some new) s = (- 1, s1)" "new \<noteq> []"
    "current_client_fd s = fd" "fd \<ge> 0"
    "send_or_cache_command snd_env (Some new) s = (r, s2)" "rvt_tcp_channel_send_command snd_env (Some old) s2 = (0, s3)"
  shows "r = 0 \<and> flush_copy (flush_clear s3) = None
    \<and> (\<exists>k < length new. wire fd (flush_clear s3) = wire fd s @ take k new @ old)"
proof -
  from assms(2,4,5) have "send_all snd_env fd new s = (- 1, s1)" by (simp add: rvt_tcp_channel_send_command_def)
  from send_all_outcome(1) [OF this] obtain k where k: "only_sent fd (take k new) s s1" "k < length new" by auto
  have s2: "r = 0" "s2 = s1\<lparr>pending_cmd := cstr_copy RVT_MAP_PENDING_CMD_MAX new, pending_cmd_valid := True\<rparr>"
    using assms(2,3,6) by (simp_all add: send_or_cache_command_def cache_pending_command_def)
  have "current_client_fd s2 = fd" using only_sent_fields(2) [OF k(1)] assms(4) s2(2) by simp
  then have "send_all snd_env fd old s2 = (0, s3)" using assms(5,7) by (simp add: rvt_tcp_channel_send_command_def)
  from send_all_outcome(1) [OF this] have "only_sent fd old s2 s3" by auto
  then have "wire fd s3 = wire fd s @ take k new @ old"
    using only_sent_wire [of fd old s2 s3 fd] only_sent_wire [OF k(1), of fd] s2(2) by (simp add: wire_def)
  with s2(1) k(2) show ?thesis by (auto simp: flush_copy_def flush_clear_def)
qed

end
