(* ===== verification/Display_Settings.thy ===== *)
theory Display_Settings
  imports Display_Safety
begin

text \<open>
  The ranges of the display settings. Every operation of the display and map services keeps
  them, so that the resolution and rotation announced to the phone are always sensible.
\<close>

definition display_wf :: "display \<Rightarrow> bool" where
  "display_wf s \<longleftrightarrow>
     (caps_valid s \<longrightarrow> dc_width (cached_caps s) > 0 \<and> dc_height (cached_caps s) > 0)
     \<and> sc_width (stream_config s) \<ge> 0 \<and> sc_height (stream_config s) \<ge> 0
     \<and> sc_rotation (stream_config s) \<in> {0, 90, 180, 270} \<and> sc_bitrate_kbps (stream_config s) \<ge> 0
     \<and> screen_width_override s \<ge> 0 \<and> screen_height_override s \<ge> 0 \<and> length (pending_cmd s) < RVT_MAP_PENDING_CMD_MAX"

definition keeps_wf :: "display \<Rightarrow> display \<Rightarrow> bool" where
  "keeps_wf s s' \<longleftrightarrow> (display_wf s \<longrightarrow> display_wf s')"

lemma keeps_same: "settings s' = settings s \<Longrightarrow> keeps_wf s s'"
  by (simp add: keeps_wf_def display_wf_def settings_def)

section \<open>Operations\<close>

lemma caps_positive:
  assumes "display_wf s"
  shows "dc_width (fst (rvt_wifi_display_get_caps port s)) > 0" "dc_height (fst (rvt_wifi_display_get_caps port s)) > 0"
  using assms by (auto simp: rvt_wifi_display_get_caps_def apply_capability_overrides_def Let_def display_wf_def)

lemma keeps_get_caps: "keeps_wf s (snd (rvt_wifi_display_get_caps port s))"
proof (cases "caps_valid s")
  case False
  obtain c t where g: "rvt_wifi_display_get_caps port s = (c, t)" by fastforce
  then have t: "t = s\<lparr>cached_caps := c, caps_valid := True\<rparr>" using False by (auto simp: rvt_wifi_display_get_caps_def Let_def)
  show ?thesis using caps_positive [of s port] by (simp add: g t keeps_wf_def display_wf_def)
qed (simp add: rvt_wifi_display_get_caps_def keeps_wf_def)

lemma keeps_ensure: "keeps_wf s (ensure_stream_config port s)"
proof -
  obtain c t where g: "rvt_wifi_display_get_caps port s = (c, t)" by fastforce
  have t: "stream_config t = stream_config s" using get_caps_changes [of port s] g by auto
  show ?thesis
    using keeps_get_caps [of s port] caps_positive [of s port]
    by (auto simp: keeps_wf_def ensure_stream_config_def g Let_def display_wf_def t)
qed

lemma stream_config_positive:
  assumes "display_wf s"
  shows "sc_width (fst (rvt_wifi_display_get_stream_config port s)) > 0" "sc_height (fst (rvt_wifi_display_get_stream_config port s)) > 0"
proof -
  obtain c t where g: "rvt_wifi_display_get_caps port s = (c, t)" by fastforce
  show "sc_width (fst (rvt_wifi_display_get_stream_config port s)) > 0" "sc_height (fst (rvt_wifi_display_get_stream_config port s)) > 0"
    using caps_positive [OF assms, of port]
    by (simp_all add: rvt_wifi_display_get_stream_config_def ensure_stream_config_def g Let_def)
qed

lemma keeps_sent: "only_sent fd b s s' \<Longrightarrow> keeps_wf s s'"
  by (rule keeps_same) (auto simp: only_sent_def settings_def)

lemma keeps_send_all: "keeps_wf s (snd (send_all snd_env fd data s))"
  using send_all_sent keeps_sent by metis

lemma keeps_cache: "keeps_wf s (snd (cache_pending_command cmd s))"
proof -
  have "length (cstr_copy RVT_MAP_PENDING_CMD_MAX c) < RVT_MAP_PENDING_CMD_MAX" for c
    by (rule length_cstr_copy) (simp add: c_consts)
  then show ?thesis by (cases cmd) (simp_all add: cache_pending_command_def keeps_wf_def display_wf_def)
qed

lemma settings_emit [simp]: "settings (emit es s) = settings s"
  by (simp add: settings_def emit_def)

interpretation wf: display_frame keeps_wf
proof
  show "keeps_wf s (snd (rvt_tcp_channel_init po s))" for s po
    by (rule keeps_same) (simp add: rvt_tcp_channel_init_def Let_def tcp_stop_eq settings_def)
  show "keeps_wf s (snd (rvt_tcp_channel_send_command snd_env cmd s))" for s snd_env cmd
    by (cases cmd) (simp_all add: rvt_tcp_channel_send_command_def keeps_send_all, simp_all add: keeps_wf_def)
  show "keeps_wf s (rvt_wifi_display_discovery_stop s)" for s
    by (rule keeps_same) (simp add: rvt_wifi_display_discovery_stop_def close_if_open_emit, simp add: settings_def)
  show "keeps_wf s (rvt_tcp_channel_stop s)" for s
    by (rule keeps_same) (simp add: tcp_stop_eq settings_def)
  show "settings s' = settings s \<Longrightarrow> keeps_wf s s'" for s s' by (rule keeps_same)
  show "keeps_wf s (emit es s)" for s es by (rule keeps_same) simp
  show "keeps_wf s (ensure_stream_config port s)" for s port by (rule keeps_ensure)
  show "keeps_wf s (snd (cache_pending_command cmd s))" for s cmd by (rule keeps_cache)
qed (simp_all add: keeps_wf_def)

section \<open>A session\<close>

lemma keeps_flush: "keeps_wf s (rvt_map_flush_pending_commands snd_env s)"
proof (cases "flush_copy s")
  case (Some c)
  obtain r s1 where 1: "rvt_tcp_channel_send_command snd_env (Some c) s = (r, s1)" by fastforce
  have "keeps_wf s s1" using wf.command [of s snd_env "Some c"] 1 by simp
  moreover have "keeps_wf s1 (flush_clear s1)" by (simp add: keeps_wf_def display_wf_def flush_clear_def c_consts)
  ultimately show ?thesis by (auto simp: rvt_map_flush_pending_commands_def Some 1 intro: wf.trans)
qed (simp add: rvt_map_flush_pending_commands_def wf.refl)

lemma keeps_heartbeat: "keeps_wf s (snd (snd (handle_heartbeat snd_env now fd ss s)))"
proof -
  obtain r s1 where 1: "send_all snd_env fd heartbeat_ack s = (r, s1)" by fastforce
  have m1: "keeps_wf s s1" using keeps_send_all [of s snd_env fd heartbeat_ack] 1 by simp
  have m2: "keeps_wf s (bind_client fd s1)" by (rule wf.trans [OF m1 keeps_same]) (simp add: bind_client_def settings_def)
  show ?thesis using m2 wf.trans [OF m1 wf.display_stop] wf.trans [OF m2 keeps_flush]
    by (simp add: handle_heartbeat_def 1 Let_def)
qed

lemma keeps_on_char: "keeps_wf s (snd (snd (on_char snd_env now fd c ss s)))"
proof -
  obtain go ss1 s1 where 1: "handle_heartbeat snd_env now fd ss s = (go, ss1, s1)" by (metis prod_cases3)
  have "keeps_wf s s1" using keeps_heartbeat [of s snd_env now fd ss] 1 by simp
  moreover have "keeps_wf s (emit es s)" for es by (rule keeps_same) simp
  ultimately show ?thesis by (simp add: on_char_def 1 wf.refl handle_message_eq)
qed

lemma keeps_feed: "keeps_wf s (snd (feed snd_env now fd cs ss s))"
proof (induction cs arbitrary: ss s)
  case (Cons c cs)
  obtain go ss1 s1 where 1: "on_char snd_env now fd c ss s = (go, ss1, s1)" by (metis prod_cases3)
  have "keeps_wf s s1" using keeps_on_char [of s snd_env now fd c ss] 1 by simp
  with wf.trans [OF this Cons.IH] show ?case by (simp add: 1)
qed (simp add: wf.refl)

lemma keeps_round: "keeps_wf s (snd (snd (tcp_round snd_env fd stat_text rx ss s)))"
proof -
  have st: "keeps_wf s (send_pending_stat snd_env stat_text fd s)"
  proof (cases "stat_pending s")
    case True
    have "keeps_wf s (s\<lparr>stat_pending := False\<rparr>)" by (rule keeps_same) (simp add: settings_def)
    with keeps_send_all True show ?thesis by (auto simp: send_pending_stat_def send_statistics_def intro: wf.trans)
  qed (simp add: send_pending_stat_def wf.refl)
  show ?thesis
    using st wf.trans [OF st wf.display_stop] wf.trans [OF st keeps_feed]
    by (simp add: tcp_round_def Let_def stop_if_current_def split: recv_result.split)
qed

lemma keeps_greet: "keeps_wf s (greet snd_env port fd s)"
proof -
  obtain caps s1 where 1: "rvt_wifi_display_get_caps port (s\<lparr>tcp_active_fd := fd\<rparr>) = (caps, s1)" by fastforce
  have "keeps_wf s (s\<lparr>tcp_active_fd := fd\<rparr>)" by (rule keeps_same) (simp add: settings_def)
  then have m1: "keeps_wf s s1" using keeps_get_caps [of "s\<lparr>tcp_active_fd := fd\<rparr>" port] 1 by (auto intro: wf.trans)
  let ?s2 = "snd (send_all snd_env fd (cap_line caps) s1)"
  let ?s3 = "ensure_stream_config port ?s2"
  have m3: "keeps_wf s ?s3" by (rule wf.trans [OF wf.trans [OF m1 keeps_send_all] keeps_ensure])
  have m5: "keeps_wf s (send_rotation snd_env fd a (send_resolution snd_env fd b c ?s3))" for a b c
    unfolding send_rotation_def send_resolution_def by (rule wf.trans [OF wf.trans [OF m3 keeps_send_all] keeps_send_all])
  have "keeps_wf x (x\<lparr>stat_pending := False\<rparr>)" for x by (rule keeps_same) (simp add: settings_def)
  from wf.trans [OF m5 this] show ?thesis
    by (simp add: greet_def send_capability_def send_stream_config_def rvt_wifi_display_get_stream_config_def 1 Let_def)
qed

fun handler_state :: "handler \<Rightarrow> display" where
  "handler_state (In_loop ss s) = s"
| "handler_state (Returned s) = s"

lemma keeps_loop: "keeps_wf s (handler_state (tcp_loop snd_env fd rxs ss s))"
proof (induction rxs arbitrary: ss s)
  case Nil
  have "keeps_wf s (leave_session fd s)" by (rule keeps_same) (simp add: leave_session_def Let_def, simp add: settings_def)
  then show ?case by (simp add: tcp_loop.simps wf.refl)
next
  case (Cons x rxs)
  obtain stat_text rx where x: "x = (stat_text, rx)" by fastforce
  obtain go ss1 s1 where 1: "tcp_round snd_env fd stat_text rx ss s = (go, ss1, s1)" by (metis prod_cases3)
  have lv: "keeps_wf s (leave_session fd s)" for s by (rule keeps_same) (simp add: leave_session_def Let_def, simp add: settings_def)
  have m1: "keeps_wf s s1" using keeps_round [of s snd_env fd stat_text rx ss] 1 by simp
  show ?case using wf.trans [OF m1 Cons.IH [of s1 ss1]] wf.trans [OF m1 lv] lv
    by (simp add: tcp_loop.simps [of _ _ "_ # _"] x 1)
qed

section \<open>All operations\<close>

datatype display_op =
    Op_screen_size int int | Op_resolution int int | Op_rotation int | Op_bitrate int | Op_codec_mask "32 word"
  | Op_start platform link_mode | Op_stop | Op_map sends map_call
  | Op_session sends "disp_caps option" tick "(string \<times> recv_result) list" int

fun run_op :: "display_op \<Rightarrow> display \<Rightarrow> display" where
  "run_op (Op_screen_size w h) s = snd (rvt_wifi_display_set_screen_size w h s)"
| "run_op (Op_resolution w h) s = snd (rvt_wifi_display_set_stream_resolution w h s)"
| "run_op (Op_rotation r) s = snd (rvt_wifi_display_set_rotation r s)"
| "run_op (Op_bitrate b) s = snd (rvt_wifi_display_set_bitrate b s)"
| "run_op (Op_codec_mask m) s = snd (rvt_wifi_display_set_codec_mask m s)"
| "run_op (Op_start po mode) s = snd (rvt_wifi_display_start_with_mode po mode s)"
| "run_op Op_stop s = rvt_wifi_display_stop s"
| "run_op (Op_map snd_env call) s = snd (call_map snd_env call s)"
| "run_op (Op_session snd_env port now rxs fd) s = handler_state (tcp_handle_connected_socket snd_env port now rxs fd s)"

lemma keeps_setters:
  "keeps_wf s (snd (rvt_wifi_display_set_screen_size w h s))" "keeps_wf s (snd (rvt_wifi_display_set_stream_resolution w h s))"
  "keeps_wf s (snd (rvt_wifi_display_set_rotation r s))" "keeps_wf s (snd (rvt_wifi_display_set_bitrate b s))"
  "keeps_wf s (snd (rvt_wifi_display_set_codec_mask m s))"
  by (auto simp: keeps_wf_def display_wf_def Let_def rvt_wifi_display_set_screen_size_def rvt_wifi_display_set_stream_resolution_def
      rvt_wifi_display_set_rotation_def rvt_wifi_display_set_bitrate_def rvt_wifi_display_set_codec_mask_def)

lemma keeps_op: "keeps_wf s (run_op op s)"
proof (cases op)
  case (Op_session snd_env port now rxs fd)
  then show ?thesis using wf.trans [OF keeps_greet keeps_loop] by (simp add: tcp_handle_connected_socket_def)
qed (simp_all add: keeps_setters wf.start_with_mode wf.display_stop wf.call_map)

text \<open>
  C37. The display settings stay in their ranges. Over any sequence of setters, starts, stops,
  map requests and control sessions, with any arguments, platform and socket behaviour, the
  rotation is a multiple of 90 degrees below 360, no size or bit rate is negative and the kept
  command fits its buffer; the resolution a phone is told is always positive, even when the
  display port reports nothing.
\<close>

theorem display_settings_in_range:
  "display_wf (fold run_op ops display_boot)
   \<and> 0 < sc_width (fst (rvt_wifi_display_get_stream_config port (fold run_op ops display_boot)))
   \<and> 0 < sc_height (fst (rvt_wifi_display_get_stream_config port (fold run_op ops display_boot)))"
proof -
  have boot: "display_wf display_boot" by (simp add: display_wf_def display_boot_def c_consts)
  have "display_wf s \<Longrightarrow> display_wf (fold run_op ops s)" for s
    using keeps_op by (induction ops arbitrary: s) (auto simp: keeps_wf_def)
  from this [OF boot] stream_config_positive show ?thesis by blast
qed

end
