(* ===== verification/Tcp_Connect.thy ===== *)
theory Tcp_Connect
  imports Display_Safety
begin

text \<open>
  The connection of the control channel to the phone, in the client role with the
  asynchronous connect of the R528 build
  (\<^verbatim>\<open>services/wifi_display_service/src/rvt_tcp_channel_impl.c\<close>): the worker's answer is polled
  every 100 ms for at most five seconds, while another thread may stop the display.
\<close>

definition RVT_TCP_CLIENT_CONNECT_TIMEOUT_MS :: nat where [c_consts]: "RVT_TCP_CLIENT_CONNECT_TIMEOUT_MS = 5000"
definition RVT_TCP_CLIENT_CONNECT_POLL_MS :: nat where [c_consts]: "RVT_TCP_CLIENT_CONNECT_POLL_MS = 100"

text \<open>
  What one poll sees: whether the display was stopped since the last one, the result of the
  worker when it has finished, whether the socket has a peer, and the error of the socket
  (0 for none).
\<close>

record poll =
  p_stop :: bool
  p_done :: "int option"
  p_connected :: bool
  p_so_error :: int

definition maybe_stop :: "bool \<Rightarrow> display \<Rightarrow> display" where
  "maybe_stop b s = (if b then rvt_wifi_display_stop s else s)"

function connect_wait :: "(nat \<Rightarrow> poll) \<Rightarrow> nat \<Rightarrow> display \<Rightarrow> int \<times> display" where
  "connect_wait polls wait_ms s =
     (let p = polls wait_ms; s1 = maybe_stop (p_stop p) s in
      if tcp_running s1 \<and> wait_ms < RVT_TCP_CLIENT_CONNECT_TIMEOUT_MS
      then (case p_done p of
              Some ret \<Rightarrow> (ret, s1)
            | None \<Rightarrow>
                if p_connected p then (0, s1)
                else if (wait_ms \<le> 500 \<or> wait_ms mod 1000 = 0) \<and> p_so_error p \<noteq> 0 then (- 1, s1)
                else connect_wait polls (wait_ms + RVT_TCP_CLIENT_CONNECT_POLL_MS) s1)
      else (- 1, s1))"
  by pat_completeness auto
termination
  by (relation "measure (\<lambda>(_, w, _). RVT_TCP_CLIENT_CONNECT_TIMEOUT_MS - w)") (auto simp: c_consts)

declare connect_wait.simps [simp del]

text \<open>
  The answers of the platform to one attempt: the peer address is known, the socket, the
  address can be parsed, the context can be allocated, the worker can be started, the polls,
  and whether the display is stopped after the last poll.
\<close>

record connect_env =
  ce_peer :: bool
  ce_socket :: int
  ce_aton :: bool
  ce_alloc :: bool
  ce_thread :: bool
  ce_polls :: "nat \<Rightarrow> poll"
  ce_late_stop :: bool

definition tcp_client_connect_socket :: "connect_env \<Rightarrow> display \<Rightarrow> int \<times> display" where
  "tcp_client_connect_socket ce s =
     (if \<not> ce_alloc ce then (- 1, s)
      else if \<not> ce_thread ce then (- 1, s)
      else connect_wait (ce_polls ce) 0 s)"

definition tcp_client_abort_connect_socket :: "int \<Rightarrow> display \<Rightarrow> display" where
  "tcp_client_abort_connect_socket fd s =
     (if fd < 0 \<or> tcp_connect_fd s \<noteq> fd then s else emit [Closed fd] (s\<lparr>tcp_connect_fd := - 1\<rparr>))"

definition release_connect :: "int \<Rightarrow> display \<Rightarrow> display" where
  "release_connect fd s = (if tcp_connect_fd s = fd then s\<lparr>tcp_connect_fd := - 1\<rparr> else s)"

text \<open>The clean-up of an attempt that failed or was stopped.\<close>

definition drop_socket :: "int \<Rightarrow> display \<Rightarrow> display" where
  "drop_socket fd s =
     (if tcp_connect_fd s = fd then tcp_client_abort_connect_socket fd s
      else emit [Closed fd] (if tcp_active_fd s = fd then s\<lparr>tcp_active_fd := - 1\<rparr> else s))"

definition promote :: "int \<Rightarrow> int \<Rightarrow> display \<Rightarrow> display" where
  "promote ret fd s = (if ret = 0 then release_connect fd (s\<lparr>tcp_active_fd := fd\<rparr>) else s)"

definition tcp_connect_to_phone_server :: "connect_env \<Rightarrow> display \<Rightarrow> int \<times> display" where
  "tcp_connect_to_phone_server ce s =
     (let fd = ce_socket ce in
      if \<not> ce_peer ce then (- 1, s)
      else if fd < 0 then (- 1, s)
      else (let s1 = s\<lparr>tcp_connect_fd := fd\<rparr> in
        if \<not> ce_aton ce then (- 1, emit [Closed fd] (release_connect fd s1))
        else (case tcp_client_connect_socket ce s1 of (connect_ret, s2) \<Rightarrow>
          let s3 = promote connect_ret fd (maybe_stop (ce_late_stop ce) s2) in
          if connect_ret < 0 then (- 1, drop_socket fd s3)
          else if \<not> tcp_running s3 then (- 1, drop_socket fd s3)
          else (fd, (release_connect fd s3)\<lparr>tcp_active_fd := fd\<rparr>))))"

text \<open>The thread: attempts and sessions, as long as the channel runs.\<close>

fun tcp_thread ::
  "sends \<Rightarrow> disp_caps option \<Rightarrow> (connect_env \<times> tick \<times> (string \<times> recv_result) list) list \<Rightarrow> display \<Rightarrow> display" where
  "tcp_thread snd_env port [] s = s"
| "tcp_thread snd_env port ((ce, now, rxs) # rest) s =
     (if \<not> tcp_running s then s
      else (case tcp_connect_to_phone_server ce s of (client_fd, s1) \<Rightarrow>
              if client_fd < 0 then tcp_thread snd_env port rest s1
              else (case tcp_handle_connected_socket snd_env port now rxs client_fd s1 of
                      In_loop ss s2 \<Rightarrow> s2
                    | Returned s2 \<Rightarrow> tcp_thread snd_env port rest s2)))"

section \<open>No attempt leaks its socket\<close>

text \<open>
  While connecting: the socket is the connecting one and still open, or the display has been
  stopped and the stop has closed it, once.
\<close>

definition connecting :: "int \<Rightarrow> nat \<Rightarrow> display \<Rightarrow> bool" where
  "connecting fd n s \<longleftrightarrow>
     (if tcp_running s
      then tcp_connect_fd s = fd \<and> tcp_active_fd s = - 1 \<and> current_client_fd s = - 1 \<and> fd \<notin> {tcp_listen_fd s, discovery_fd s}
        \<and> closed_times fd s = n
      else sockets s = [- 1, - 1, - 1, - 1, - 1] \<and> closed_times fd s = Suc n)"

lemma connecting_stop: "fd \<ge> 0 \<Longrightarrow> connecting fd n s \<Longrightarrow> tcp_running s \<Longrightarrow> connecting fd n (maybe_stop b s)"
  using display_stop_efx [of s] display_stop_fields [of s]
  by (auto simp: connecting_def maybe_stop_def channels_def closed_times_def count_closes)

lemma connect_wait_connecting:
  "connect_wait polls w s = (r, s') \<Longrightarrow> fd \<ge> 0 \<Longrightarrow> connecting fd n s \<Longrightarrow> tcp_running s \<Longrightarrow>
   connecting fd n s' \<and> (tcp_running s' \<or> r = - 1)"
proof (induction polls w s arbitrary: r s' rule: connect_wait.induct)
  case (1 polls w s)
  let ?s1 = "maybe_stop (p_stop (polls w)) s"
  have c: "connecting fd n ?s1" by (rule connecting_stop [OF "1.prems"(2-4)])
  show ?case
  proof (cases "tcp_running ?s1 \<and> w < RVT_TCP_CLIENT_CONNECT_TIMEOUT_MS \<and> p_done (polls w) = None \<and> \<not> p_connected (polls w)
      \<and> \<not> ((w \<le> 500 \<or> w mod 1000 = 0) \<and> p_so_error (polls w) \<noteq> 0)")
    case True
    then have "connect_wait polls (w + RVT_TCP_CLIENT_CONNECT_POLL_MS) ?s1 = (r, s')"
      using "1.prems"(1) by (auto simp: connect_wait.simps [of polls w s] Let_def split: if_splits)
    from True "1.IH" [OF refl refl _ _ _ _ this "1.prems"(2) c] show ?thesis by simp
  next
    case False
    then have "s' = ?s1 \<and> (tcp_running ?s1 \<or> r = - 1)"
      using "1.prems"(1) by (auto simp: connect_wait.simps [of polls w s] Let_def split: option.splits if_splits)
    with c show ?thesis by auto
  qed
qed

lemma connect_socket_connecting:
  assumes "tcp_client_connect_socket ce s = (r, s')" "fd \<ge> 0" "connecting fd n s" "tcp_running s"
  shows "connecting fd n s'" "tcp_running s' \<or> r = - 1"
proof -
  have "connecting fd n s' \<and> (tcp_running s' \<or> r = - 1)"
    using assms connect_wait_connecting [of "ce_polls ce" 0 s r s' fd n]
    by (auto simp: tcp_client_connect_socket_def split: if_splits)
  then show "connecting fd n s'" "tcp_running s' \<or> r = - 1" by auto
qed

text \<open>Dropping the socket closes it once more, whichever global still holds it.\<close>

lemma drop_promoted:
  assumes "connecting fd n s" "fd \<ge> 0"
  shows "fd \<notin> set (sockets (drop_socket fd (promote ret fd s)))"
    "closed_times fd (drop_socket fd (promote ret fd s)) = n + (if tcp_running s then 1 else 2)"
    "tcp_running (drop_socket fd (promote ret fd s)) = tcp_running s"
  using assms
  by (auto simp: connecting_def drop_socket_def promote_def release_connect_def tcp_client_abort_connect_socket_def sockets_def
      closed_times_def split: if_splits)

text \<open>
  An attempt to connect never leaks its socket. It ends, whatever the network does: with
  the descriptor, which is then the active socket of a running channel, open and held nowhere
  else; or with -1 and no global holding the descriptor, which has been closed. It has been
  closed once when the attempt failed, and twice when the display was stopped during the
  attempt, because the stop closes the connecting socket and the attempt closes it again.
\<close>

theorem connect_attempt_outcome:
  assumes "tcp_running s" "sockets s = [- 1, - 1, - 1, tcp_listen_fd s, discovery_fd s]" "ce_peer ce" "ce_socket ce \<ge> 0"
    "ce_socket ce \<notin> {tcp_listen_fd s, discovery_fd s}" "tcp_connect_to_phone_server ce s = (r, s')"
  shows "if r < 0 then r = - 1 \<and> ce_socket ce \<notin> set (sockets s')
        \<and> closed_times (ce_socket ce) s' = closed_times (ce_socket ce) s + (if tcp_running s' then 1 else 2)
      else r = ce_socket ce \<and> tcp_running s' \<and> tcp_active_fd s' = r \<and> tcp_connect_fd s' = - 1 \<and> current_client_fd s' = - 1
        \<and> closed_times r s' = closed_times r s"
proof -
  define fd where "fd = ce_socket ce"
  let ?s1 = "s\<lparr>tcp_connect_fd := fd\<rparr>" and ?n = "closed_times fd s"
  have fd: "fd \<ge> 0" using assms(4) by (simp add: fd_def)
  have c1: "connecting fd ?n ?s1" "tcp_running ?s1"
    using assms(1,2,5) by (simp_all add: connecting_def sockets_def fd_def closed_times_def)
  show ?thesis
  proof (cases "ce_aton ce")
    case False
    with assms fd show ?thesis
      by (auto simp: tcp_connect_to_phone_server_def Let_def fd_def [symmetric] release_connect_def sockets_def closed_times_def)
  next
    case True
    obtain ret s2 where 2: "tcp_client_connect_socket ce ?s1 = (ret, s2)" by fastforce
    note c2 = connect_socket_connecting [OF 2 fd c1]
    let ?s2 = "maybe_stop (ce_late_stop ce) s2"
    have c3: "connecting fd ?n ?s2"
    proof (cases "tcp_running s2")
      case True
      then show ?thesis by (rule connecting_stop [OF fd c2(1)])
    next
      case False
      then show ?thesis using c2(1) display_stop_efx [of s2] display_stop_fields [of s2]
        by (auto simp: connecting_def maybe_stop_def channels_def sockets_def closed_times_def count_closes)
    qed
    have res: "(r, s') = (if ret < 0 \<or> \<not> tcp_running ?s2 then (- 1, drop_socket fd (promote ret fd ?s2))
        else (fd, (release_connect fd (promote ret fd ?s2))\<lparr>tcp_active_fd := fd\<rparr>))"
      using assms(3,4,6) True 2
      by (auto simp: tcp_connect_to_phone_server_def Let_def fd_def [symmetric] promote_def release_connect_def split: if_splits)
    show ?thesis
    proof (cases "ret < 0 \<or> \<not> tcp_running ?s2")
      case True
      with res drop_promoted [OF c3 fd, of ret] show ?thesis by (simp add: fd_def [symmetric])
    next
      case False
      with res c3 fd show ?thesis
        by (simp add: connecting_def promote_def release_connect_def fd_def [symmetric] closed_times_def split: if_splits)
    qed
  qed
qed

text \<open>A phone that answers after 100 ms, and a stop at that moment.\<close>

definition sample_attempt :: "bool \<Rightarrow> connect_env" where
  "sample_attempt stopped = \<lparr>ce_peer = True, ce_socket = 9, ce_aton = True, ce_alloc = True, ce_thread = True,
     ce_polls = (\<lambda>w. \<lparr>p_stop = (stopped \<and> w = 100), p_done = (if w \<ge> 100 then Some 0 else None), p_connected = False, p_so_error = 0\<rparr>),
     ce_late_stop = False\<rparr>"

definition channel_up :: display where
  "channel_up = display_boot\<lparr>tcp_running := True\<rparr>"

theorem connect_attempt_outcome_witness:
  "closed_times 9 (snd (tcp_connect_to_phone_server (sample_attempt True) channel_up)) = 2
   \<and> tcp_active_fd (snd (tcp_connect_to_phone_server (sample_attempt False) channel_up)) = 9"
proof -
  have h: "tcp_running channel_up" "sockets channel_up = [- 1, - 1, - 1, tcp_listen_fd channel_up, discovery_fd channel_up]"
    "ce_peer (sample_attempt b)" "ce_socket (sample_attempt b) \<ge> 0"
    "ce_socket (sample_attempt b) \<notin> {tcp_listen_fd channel_up, discovery_fd channel_up}"
    "closed_times 9 channel_up = 0" "ce_socket (sample_attempt b) = 9" for b
    by (simp_all add: channel_up_def display_boot_def sockets_def sample_attempt_def closed_times_def)
  have st: "\<not> tcp_running (rvt_wifi_display_stop s)" for s using display_stop_fields(1) [of s] by (simp add: channels_def)
  have r: "fst (tcp_connect_to_phone_server (sample_attempt False) channel_up) = 9"
    "fst (tcp_connect_to_phone_server (sample_attempt True) channel_up) = - 1"
    "\<not> tcp_running (snd (tcp_connect_to_phone_server (sample_attempt True) channel_up))"
    by (simp_all add: tcp_connect_to_phone_server_def tcp_client_connect_socket_def sample_attempt_def connect_wait.simps
        maybe_stop_def promote_def release_connect_def channel_up_def display_boot_def st drop_socket_def
        tcp_client_abort_connect_socket_def c_consts Let_def)
  let ?o = "\<lambda>b. tcp_connect_to_phone_server (sample_attempt b) channel_up"
  note t = connect_attempt_outcome [OF h(1,2) h(3) [of True] h(4) [of True] h(5) [of True] surjective_pairing [of "?o True"]]
  note f = connect_attempt_outcome [OF h(1,2) h(3) [of False] h(4) [of False] h(5) [of False] surjective_pairing [of "?o False"]]
  from t have "closed_times 9 (snd (?o True)) = 2" unfolding h(6,7) r(2) using r(3) by simp
  moreover from f have "tcp_active_fd (snd (?o False)) = 9" unfolding h(6,7) r(1) by simp
  ultimately show ?thesis by blast
qed

end
