(* ===== verification/Tool_Files.thy ===== *)
theory Tool_Files
  imports Prelude
begin

text \<open>
  The file tools of the agent (\<^verbatim>\<open>ai_agent/src/tools/tool_files.c\<close>): reading, writing, editing and
  listing files for the language model, with the filter that confines it to the data
  directory.

  The file system is a map from real locations to contents; \<open>locate\<close> follows the symbolic
  links of a path to its real location. The arguments of a tool come parsed: \<open>None\<close> when the
  input is not JSON, otherwise the string value of each field, if it has one.
\<close>

section \<open>File system\<close>

record fs =
  disk :: "string \<Rightarrow> string option"
  mkdir_calls :: "string list"

text \<open>
  \<open>openable\<close>: a location can be opened for writing; \<open>accepted\<close>: how many of \<open>n\<close> bytes a write
  takes; \<open>allocs\<close>: whether memory is available;
  \<open>errno\<close>: the error code of a failed call; \<open>entries\<close>: the names in a directory.
\<close>

record fs_env =
  locate :: "string \<Rightarrow> string"
  is_dir :: "string \<Rightarrow> bool"
  openable :: "string \<Rightarrow> bool"
  accepted :: "nat \<Rightarrow> nat"
  allocs :: bool
  errno :: int
  entries :: "string \<Rightarrow> string list option"

definition realpath :: "fs_env \<Rightarrow> fs \<Rightarrow> string \<Rightarrow> string option" where
  "realpath env s p = (if disk s (locate env p) \<noteq> None \<or> is_dir env (locate env p) then Some (locate env p) else None)"

definition fopen_r :: "fs_env \<Rightarrow> fs \<Rightarrow> string \<Rightarrow> string option" where
  "fopen_r env s p = disk s (locate env p)"

text \<open>Opening for writing empties the file; the bytes a write takes are its new content.\<close>

definition write_to :: "fs_env \<Rightarrow> string \<Rightarrow> string \<Rightarrow> fs \<Rightarrow> fs" where
  "write_to env p bytes s = s\<lparr>disk := (disk s)(locate env p \<mapsto> take (accepted env (length bytes)) bytes)\<rparr>"

type_synonym tool_args = "(string \<Rightarrow> string option) option"

section \<open>The path filter\<close>

definition MAX_FILE_SIZE :: nat where [c_consts]: "MAX_FILE_SIZE = 32 * 1024"

definition under_data_dir :: "string \<Rightarrow> bool" where
  "under_data_dir p \<longleftrightarrow>
     (let dlen = length AGENT_DATA_DIR
      in take dlen p = AGENT_DATA_DIR \<and> (length p \<le> dlen \<or> p ! dlen = CHR ''/''))"

definition validate_path :: "fs_env \<Rightarrow> fs \<Rightarrow> string option \<Rightarrow> bool" where
  "validate_path env s path =
     (case path of
        None \<Rightarrow> False
      | Some p \<Rightarrow>
          if \<not> under_data_dir p then False
          else if strstr p ''..'' \<noteq> None then False
          else (case realpath env s p of None \<Rightarrow> True | Some resolved \<Rightarrow> under_data_dir resolved))"

definition s_protected_files :: "string list" where
  "s_protected_files =
     [AGENT_DATA_DIR @ ''/config/config.json'', AGENT_DATA_DIR @ ''/config/SOUL.md'', AGENT_DATA_DIR @ ''/config/USER.md'']"

definition is_write_protected :: "fs_env \<Rightarrow> fs \<Rightarrow> string \<Rightarrow> bool" where
  "is_write_protected env s path =
     (let check = (case realpath env s path of Some resolved \<Rightarrow> resolved | None \<Rightarrow> path)
      in check \<in> set s_protected_files)"

text \<open>The directories above a path, from the data directory on, in the order of the walk.\<close>

definition parent_dirs :: "string \<Rightarrow> string list" where
  "parent_dirs path =
     (let tmp = cstr_copy 512 path
      in map (\<lambda>i. take i tmp) (filter (\<lambda>i. tmp ! i = CHR ''/'') [length AGENT_DATA_DIR ..< length tmp]))"

definition ensure_parent_dirs :: "string \<Rightarrow> fs \<Rightarrow> fs" where
  "ensure_parent_dirs path s = s\<lparr>mkdir_calls := mkdir_calls s @ parent_dirs path\<rparr>"

section \<open>The tools\<close>

text \<open>Each tool gives its return code, the bytes it leaves in the output buffer, and the file system.\<close>

definition out_text :: "nat \<Rightarrow> string \<Rightarrow> string" where
  "out_text output_size msg = cstr_copy output_size msg"

definition bad_path :: string where
  "bad_path = ''Error: path must start with '' @ AGENT_DATA_DIR @ ''/ and must not contain '' @ [CHR 0x27] @ ''..'' @ [CHR 0x27]"

definition protected_file :: "string \<Rightarrow> string" where
  "protected_file p = ''Error: '' @ [CHR 0x27] @ p @ [CHR 0x27] @ '' is a protected system file and cannot be modified''"

definition tool_read_file_execute :: "fs_env \<Rightarrow> tool_args \<Rightarrow> nat \<Rightarrow> fs \<Rightarrow> int \<times> string \<times> fs" where
  "tool_read_file_execute env args output_size s =
     (case args of
        None \<Rightarrow> (ERROR, out_text output_size ''Error: invalid JSON input'', s)
      | Some get \<Rightarrow>
          if \<not> validate_path env s (get ''path'') then (ERROR, out_text output_size bad_path, s)
          else (let path = the (get ''path'') in
            case fopen_r env s path of
              None \<Rightarrow> (ERROR, out_text output_size (''Error: file not found: '' @ path), s)
            | Some content \<Rightarrow>
                let max_read = min (output_size - 1) MAX_FILE_SIZE in (OK, take max_read content, s)))"

definition tool_write_file_execute :: "fs_env \<Rightarrow> tool_args \<Rightarrow> nat \<Rightarrow> fs \<Rightarrow> int \<times> string \<times> fs" where
  "tool_write_file_execute env args output_size s =
     (case args of
        None \<Rightarrow> (ERROR, out_text output_size ''Error: invalid JSON input'', s)
      | Some get \<Rightarrow>
          if \<not> validate_path env s (get ''path'') then (ERROR, out_text output_size bad_path, s)
          else (let path = the (get ''path'') in
            if is_write_protected env s path then (ERROR, out_text output_size (protected_file path), s)
            else (case get ''content'' of
              None \<Rightarrow> (ERROR, out_text output_size (''Error: missing '' @ [CHR 0x27] @ ''content'' @ [CHR 0x27] @ '' field''), s)
            | Some content \<Rightarrow>
                let s1 = ensure_parent_dirs path s in
                if \<not> openable env (locate env path)
                then (ERROR, out_text output_size
                        (''Error: cannot open file for writing: '' @ path @ '' (errno='' @ show_int (errno env) @ '')''), s1)
                else (let s2 = write_to env path content s1; written = min (accepted env (length content)) (length content)
                      in if written \<noteq> length content
                         then (ERROR, out_text output_size (''Error: wrote '' @ show_nat written @ '' of '' @ show_nat (length content)
                                 @ '' bytes to '' @ path), s2)
                         else (OK, out_text output_size (''OK: wrote '' @ show_nat written @ '' bytes to '' @ path), s2)))))"

definition edit_alloc :: "string \<Rightarrow> string \<Rightarrow> string \<Rightarrow> nat" where
  "edit_alloc buf old_str new_str =
     length buf + (if length new_str > length old_str then length new_str - length old_str else 0) + 1"

definition edit_result :: "string \<Rightarrow> nat \<Rightarrow> string \<Rightarrow> string \<Rightarrow> string" where
  "edit_result buf prefix_len old_str new_str = take prefix_len buf @ new_str @ drop (prefix_len + length old_str) buf"

definition tool_edit_file_execute :: "fs_env \<Rightarrow> tool_args \<Rightarrow> nat \<Rightarrow> fs \<Rightarrow> int \<times> string \<times> fs" where
  "tool_edit_file_execute env args output_size s =
     (case args of
        None \<Rightarrow> (ERROR, out_text output_size ''Error: invalid JSON input'', s)
      | Some get \<Rightarrow>
          if \<not> validate_path env s (get ''path'') then (ERROR, out_text output_size bad_path, s)
          else (let path = the (get ''path'') in
            if is_write_protected env s path then (ERROR, out_text output_size (protected_file path), s)
            else (case (get ''old_string'', get ''new_string'') of
              (Some old_str, Some new_str) \<Rightarrow>
                (case fopen_r env s path of
                   None \<Rightarrow> (ERROR, out_text output_size (''Error: file not found: '' @ path), s)
                 | Some buf \<Rightarrow>
                     if length buf = 0 \<or> length buf > MAX_FILE_SIZE 
                     then (ERROR, out_text output_size (''Error: file too large or empty ('' @ show_nat (length buf) @ '' bytes)''), s)
                     else if \<not> allocs env then (ERROR, out_text output_size ''Error: out of memory'', s)
                     else (case strstr (cstr buf) old_str of
                       None \<Rightarrow> (ERROR, out_text output_size (''Error: old_string not found in '' @ path), s)
                     | Some prefix_len \<Rightarrow>
                         if \<not> openable env (locate env path)
                         then (ERROR, out_text output_size (''Error: cannot open file for writing: '' @ path), s)
                         else (OK, out_text output_size (''OK: edited '' @ path @ '' (replaced '' @ show_nat (length old_str)
                                 @ '' bytes with '' @ show_nat (length new_str) @ '' bytes)''),
                               write_to env path (edit_result buf prefix_len old_str new_str) s)))
            | _ \<Rightarrow> (ERROR, out_text output_size (''Error: missing '' @ [CHR 0x27] @ ''old_string'' @ [CHR 0x27] @ '' or '' @ [CHR 0x27]
                      @ ''new_string'' @ [CHR 0x27] @ '' field''), s))))"

section \<open>Listing\<close>

text \<open>The text in the output buffer, the offset (which counts what did not fit too) and the number of entries.\<close>

type_synonym listing = "string \<times> nat \<times> nat"

fun put_entry :: "nat \<Rightarrow> string \<Rightarrow> listing \<Rightarrow> listing" where
  "put_entry output_size line (out, off, count) =
     (out @ take (output_size - off - 1) line, off + length line, count + 1)"

definition wanted :: "string option \<Rightarrow> string \<Rightarrow> bool" where
  "wanted pre full_path = (case pre of None \<Rightarrow> True | Some p \<Rightarrow> take (length p) full_path = p)"

function list_loop :: "fs_env \<Rightarrow> string option \<Rightarrow> nat \<Rightarrow> string \<Rightarrow> nat \<Rightarrow> string list \<Rightarrow> listing \<Rightarrow> listing" where
  "list_loop env pre output_size dir_path depth [] st = st"
| "list_loop env pre output_size dir_path depth (name # names) st =
     (if \<not> fst (snd st) < output_size - 1 then st
      else if name = ''.'' \<or> name = ''..'' then list_loop env pre output_size dir_path depth names st
      else (let full_path = cstr_copy 512 (dir_path @ ''/'' @ name) in
        if \<not> wanted pre full_path then list_loop env pre output_size dir_path depth names st
        else if is_dir env (locate env full_path)
        then (let st1 = put_entry output_size (full_path @ [CHR ''/'', CHR 0x0A]) st;
                  st2 = (case entries env full_path of
                           None \<Rightarrow> st1
                         | Some sub \<Rightarrow>
                             if depth + 1 > 4 then st1 else list_loop env pre output_size full_path (depth + 1) sub st1)
              in list_loop env pre output_size dir_path depth names st2)
        else list_loop env pre output_size dir_path depth names (put_entry output_size (full_path @ [CHR 0x0A]) st)))"
  by pat_completeness auto
termination
  by (relation "measures [\<lambda>(_, _, _, _, depth, _, _). 5 - depth, \<lambda>(_, _, _, _, _, names, _). length names]") auto

definition list_dir_recursive :: "fs_env \<Rightarrow> string option \<Rightarrow> nat \<Rightarrow> string \<Rightarrow> nat \<Rightarrow> listing \<Rightarrow> listing" where
  "list_dir_recursive env pre output_size dir_path depth st =
     (if depth > 4 then st
      else (case entries env dir_path of None \<Rightarrow> st | Some names \<Rightarrow> list_loop env pre output_size dir_path depth names st))"

definition tool_list_dir_execute :: "fs_env \<Rightarrow> tool_args \<Rightarrow> nat \<Rightarrow> int \<times> string" where
  "tool_list_dir_execute env args output_size =
     (let pre = (case args of None \<Rightarrow> None | Some get \<Rightarrow> get ''prefix'')
      in case list_dir_recursive env pre output_size AGENT_DATA_DIR 0 ([], 0, 0) of (out, off, count) \<Rightarrow>
           (OK, if count = 0 then out_text output_size ''(no files found)'' else out))"

section \<open>What the filter guarantees\<close>

lemma validate_existing:
  assumes "validate_path env s (Some p)" "disk s (locate env p) = Some c"
  shows "under_data_dir (locate env p)"
  using assms by (simp add: validate_path_def realpath_def split: if_splits)

lemma unprotected_existing:
  assumes "\<not> is_write_protected env s p" "disk s (locate env p) = Some c"
  shows "locate env p \<notin> set s_protected_files"
  using assms by (simp add: is_write_protected_def realpath_def)

lemma validate_Some: "validate_path env s q \<Longrightarrow> \<exists>p. q = Some p"
  by (cases q) (simp_all add: validate_path_def)

text \<open>The three ways a tool leaves the disk: untouched, or one file written after the checks.\<close>

lemma write_disk:
  "disk (snd (snd (tool_write_file_execute env args n s))) = disk s \<or>
   (\<exists>get p content. args = Some get \<and> get ''path'' = Some p \<and> get ''content'' = Some content \<and>
      validate_path env s (Some p) \<and> \<not> is_write_protected env s p \<and>
      disk (snd (snd (tool_write_file_execute env args n s))) = (disk s)(locate env p \<mapsto> take (accepted env (length content)) content))"
proof (cases args)
  case (Some get)
  show ?thesis
  proof (cases "validate_path env s (get ''path'') \<and> \<not> is_write_protected env s (the (get ''path'')) \<and> get ''content'' \<noteq> None")
    case True
    then obtain p content where "get ''path'' = Some p" "get ''content'' = Some content" using validate_Some by blast
    with Some True show ?thesis
      by (auto simp: tool_write_file_execute_def write_to_def ensure_parent_dirs_def Let_def)
  next
    case False
    with Some show ?thesis by (auto simp: tool_write_file_execute_def Let_def)
  qed
qed (simp add: tool_write_file_execute_def)

lemma edit_disk:
  assumes "tool_edit_file_execute env args n s = (r, out, s')"
  shows "disk s' = disk s \<and> r = ERROR \<or>
   (\<exists>get p old_str new_str buf k. args = Some get \<and> get ''path'' = Some p \<and> get ''old_string'' = Some old_str \<and>
      get ''new_string'' = Some new_str \<and> validate_path env s (Some p) \<and> \<not> is_write_protected env s p \<and>
      disk s (locate env p) = Some buf \<and> strstr (cstr buf) old_str = Some k \<and> r = OK \<and>
      s' = write_to env p (edit_result buf k old_str new_str) s)"
proof (cases args)
  case (Some get)
  show ?thesis
  proof (cases "validate_path env s (get ''path'') \<and> \<not> is_write_protected env s (the (get ''path''))")
    case True
    then obtain p where "get ''path'' = Some p" using validate_Some by blast
    with Some True assms show ?thesis
      by (auto simp: tool_edit_file_execute_def fopen_r_def Let_def split: option.splits if_splits)
  next
    case False
    with Some assms show ?thesis by (auto simp: tool_edit_file_execute_def Let_def split: if_splits)
  qed
qed (use assms in \<open>simp add: tool_edit_file_execute_def\<close>)

text \<open>
  C28. The file tools keep the model inside its data directory, as far as existing files go.
  Whatever arguments the model sends and wherever symbolic links lead: a successful read gives
  the beginning of a file whose real location is under the data directory; and when a write
  or an edit changes an existing file, the real location of that file is under the data
  directory and is none of the protected configuration files.
\<close>

theorem file_tools_confined:
  "(\<forall>out s'. tool_read_file_execute env args n s = (OK, out, s') \<longrightarrow>
      (\<exists>l content. under_data_dir l \<and> disk s l = Some content \<and> out = take (min (n - 1) MAX_FILE_SIZE) content \<and> s' = s))
   \<and> (\<forall>l content. disk s l = Some content \<longrightarrow>
        disk (snd (snd (tool_write_file_execute env args n s))) l \<noteq> Some content \<or>
        disk (snd (snd (tool_edit_file_execute env args n s))) l \<noteq> Some content \<longrightarrow>
        under_data_dir l \<and> l \<notin> set s_protected_files)"
proof (intro conjI allI impI)
  fix out s'
  assume r: "tool_read_file_execute env args n s = (OK, out, s')"
  then obtain get where get: "args = Some get" "validate_path env s (get ''path'')"
    by (auto simp: tool_read_file_execute_def split: option.splits if_splits)
  then obtain p where p: "get ''path'' = Some p" using validate_Some by blast
  with r get obtain content where c: "disk s (locate env p) = Some content" "out = take (min (n - 1) MAX_FILE_SIZE) content" "s' = s"
    by (auto simp: tool_read_file_execute_def fopen_r_def Let_def split: option.splits)
  with validate_existing [of env s p content] get(2) p
  show "\<exists>l content. under_data_dir l \<and> disk s l = Some content \<and> out = take (min (n - 1) MAX_FILE_SIZE) content \<and> s' = s" by auto
next
  fix l content
  assume l: "disk s l = Some content"
    and ch: "disk (snd (snd (tool_write_file_execute env args n s))) l \<noteq> Some content \<or>
        disk (snd (snd (tool_edit_file_execute env args n s))) l \<noteq> Some content"
  obtain r out s' where e: "tool_edit_file_execute env args n s = (r, out, s')" by (metis prod_cases3)
  have "\<exists>p. l = locate env p \<and> validate_path env s (Some p) \<and> \<not> is_write_protected env s p"
    using ch write_disk [of env args n s] edit_disk [OF e] l e by (auto simp: write_to_def split: if_splits)
  with l validate_existing unprotected_existing show "under_data_dir l" "l \<notin> set s_protected_files" by blast+
qed

definition plain_env :: fs_env where
  "plain_env = \<lparr>locate = (\<lambda>p. if p = ''/data/agent/link/x'' then ''/etc/x'' else p), is_dir = (\<lambda>_. False), openable = (\<lambda>_. True),
     accepted = (\<lambda>n. n), allocs = True, errno = 0, entries = (\<lambda>_. None)\<rparr>"

definition plain_fs :: fs where
  "plain_fs = \<lparr>disk = [''/data/agent/n'' \<mapsto> ''one two two''], mkdir_calls = []\<rparr>"

definition args_of :: "(string \<times> string) list \<Rightarrow> tool_args" where
  "args_of kvs = Some (map_of kvs)"

lemma note_valid: "validate_path plain_env plain_fs (Some ''/data/agent/n'')" "\<not> is_write_protected plain_env plain_fs ''/data/agent/n''"
  by (simp_all add: validate_path_def under_data_dir_def realpath_def plain_env_def plain_fs_def AGENT_DATA_DIR_def
      is_write_protected_def s_protected_files_def)

theorem file_tools_confined_witness:
  "(\<exists>l content. under_data_dir l \<and> disk plain_fs l = Some content \<and> ''one two'' = take (min (8 - 1) MAX_FILE_SIZE) content)
   \<and> under_data_dir ''/data/agent/n'' \<and> ''/data/agent/n'' \<notin> set s_protected_files"
proof -
  let ?a = "args_of [(''path'', ''/data/agent/n''), (''content'', ''new'')]"
  have r: "tool_read_file_execute plain_env ?a 8 plain_fs = (OK, ''one two'', plain_fs)"
    using note_valid by (simp add: tool_read_file_execute_def args_of_def fopen_r_def) (simp add: plain_env_def plain_fs_def c_consts)
  have d: "disk plain_fs ''/data/agent/n'' = Some ''one two two''" by (simp add: plain_fs_def)
  have w: "disk (snd (snd (tool_write_file_execute plain_env ?a 8 plain_fs))) ''/data/agent/n'' = Some ''new''"
    using note_valid
    by (simp add: tool_write_file_execute_def args_of_def ensure_parent_dirs_def write_to_def Let_def) (simp add: plain_env_def)
  from file_tools_confined [of plain_env ?a 8 plain_fs] r d w show ?thesis by auto
qed

section \<open>Editing replaces the first occurrence\<close>

lemma cstr_prefix: "\<exists>r. buf = cstr buf @ r"
  unfolding cstr_def using takeWhile_dropWhile_id by metis

lemma occurrence_in_cstr:
  assumes "strstr (cstr buf) old_str = Some k"
  shows "\<exists>post. buf = take k buf @ old_str @ post" "k + length old_str \<le> length buf"
    "\<And>j. j < k \<Longrightarrow> take (length old_str) (drop j buf) \<noteq> old_str"
proof -
  obtain r where r: "buf = cstr buf @ r" using cstr_prefix by blast
  note k = strstr_Some [OF assms]
  have "take (length old_str) (drop k buf) = old_str" using k by (subst r) simp
  then have "buf = take k buf @ old_str @ drop (length old_str) (drop k buf)"
    by (metis append_take_drop_id)
  then show "\<exists>post. buf = take k buf @ old_str @ post" by blast
  show "k + length old_str \<le> length buf" using k by (subst r) simp
  show "take (length old_str) (drop j buf) \<noteq> old_str" if "j < k" for j
    using k that by (subst r) simp
qed

text \<open>
  An edit replaces the first occurrence, exactly. When it reports success and the disk
  takes all bytes, the file is the old content with the first occurrence of the old string
  replaced by the new one, nothing else on the disk has changed, and the new content with its
  terminator fits the buffer that was allocated for it.
\<close>

theorem edit_replaces_first:
  assumes "tool_edit_file_execute env args n s = (OK, out, s')" "\<And>k. k \<le> accepted env k"
  shows "\<exists>l old_str new_str pre post. disk s l = Some (pre @ old_str @ post) \<and> disk s' = (disk s)(l \<mapsto> pre @ new_str @ post)
      \<and> (\<exists>get. args = Some get \<and> get ''old_string'' = Some old_str \<and> get ''new_string'' = Some new_str)
      \<and> (\<forall>j < length pre. take (length old_str) (drop j (pre @ old_str @ post)) \<noteq> old_str)
      \<and> length (pre @ new_str @ post) < edit_alloc (pre @ old_str @ post) old_str new_str"
proof -
  from edit_disk [OF assms(1)] obtain get p old_str new_str buf k where
    e: "args = Some get" "get ''old_string'' = Some old_str" "get ''new_string'' = Some new_str" "disk s (locate env p) = Some buf"
      "strstr (cstr buf) old_str = Some k" "s' = write_to env p (edit_result buf k old_str new_str) s" by auto
  from occurrence_in_cstr [OF e(5)] obtain post where
    b: "buf = take k buf @ old_str @ post" and k: "k + length old_str \<le> length buf"
      and first: "\<And>j. j < k \<Longrightarrow> take (length old_str) (drop j buf) \<noteq> old_str" by blast
  define pre where "pre = take k buf"
  have buf: "buf = pre @ old_str @ post" "length pre = k" using b k by (auto simp: pre_def)
  define x where "x = pre @ new_str @ post"
  have "edit_result buf k old_str new_str = x" using buf unfolding edit_result_def x_def by simp
  moreover have "take (accepted env (length x)) x = x" using assms(2) by simp
  ultimately have "disk s' = (disk s)(locate env p \<mapsto> pre @ new_str @ post)"
    unfolding x_def [symmetric] by (simp add: e(6) write_to_def)
  with e(1-4) buf first show ?thesis
    by (intro exI [of _ "locate env p"] exI [of _ old_str] exI [of _ new_str] exI [of _ pre] exI [of _ post])
      (simp add: edit_alloc_def)
qed

theorem edit_replaces_first_witness:
  "\<exists>l pre old_str post. disk plain_fs l = Some (pre @ old_str @ post) \<and>
     disk (snd (snd (tool_edit_file_execute plain_env
       (args_of [(''path'', ''/data/agent/n''), (''old_string'', ''two''), (''new_string'', ''2'')]) 64 plain_fs))) l = Some (pre @ ''2'' @ post)"
proof -
  let ?a = "args_of [(''path'', ''/data/agent/n''), (''old_string'', ''two''), (''new_string'', ''2'')]"
  have f: "fopen_r plain_env plain_fs ''/data/agent/n'' = Some ''one two two''" by (simp add: fopen_r_def plain_env_def plain_fs_def)
  have "strstr (cstr ''one two two'') ''two'' = Some 4" by (simp add: cstr_def)
  then have o: "fst (tool_edit_file_execute plain_env ?a 64 plain_fs) = OK"
    using note_valid f by (simp add: tool_edit_file_execute_def args_of_def c_consts Let_def) (simp add: plain_env_def)
  obtain out s' where e: "tool_edit_file_execute plain_env ?a 64 plain_fs = (OK, out, s')" using o by (metis prod_cases3 fst_conv)
  have acc: "k \<le> accepted plain_env k" for k by (simp add: plain_env_def)
  from edit_replaces_first [OF e acc] obtain l pre old_str new_str post where
    x: "disk plain_fs l = Some (pre @ old_str @ post)" "disk s' = (disk plain_fs)(l \<mapsto> pre @ new_str @ post)"
      "\<exists>get. ?a = Some get \<and> get ''old_string'' = Some old_str \<and> get ''new_string'' = Some new_str" by blast
  from x(3) have "new_str = ''2''" by (auto simp: args_of_def)
  have "disk (snd (snd (tool_edit_file_execute plain_env ?a 64 plain_fs))) l = Some (pre @ ''2'' @ post)" unfolding e using x(2) \<open>new_str = ''2''\<close> by simp
  with x(1) show ?thesis by blast
qed

section \<open>Creating a file is not confined\<close>

text \<open>
  A write that creates a file is checked by its name only. For a path under the data
  directory without two consecutive dots whose target does not exist yet, the write succeeds
  and creates the file at its real location, wherever that is: through a symbolic link to a
  directory it leaves the data directory, and by a spelling such as \<^verbatim>\<open>config/./config.json\<close> it
  creates a protected file.
\<close>

theorem created_file_unconfined:
  assumes "under_data_dir p" "strstr p ''..'' = None" "disk s (locate env p) = None" "\<not> is_dir env (locate env p)"
    "p \<notin> set s_protected_files" "openable env (locate env p)" "accepted env (length content) = length content"
    "get ''path'' = Some p" "get ''content'' = Some content"
  shows "\<exists>out s'. tool_write_file_execute env (Some get) n s = (OK, out, s') \<and> disk s' (locate env p) = Some content"
  using assms
  by (simp add: tool_write_file_execute_def validate_path_def realpath_def is_write_protected_def ensure_parent_dirs_def
      write_to_def Let_def)

theorem created_file_unconfined_witness:
  "\<exists>out s'. tool_write_file_execute plain_env (args_of [(''path'', ''/data/agent/link/x''), (''content'', ''evil'')]) 64 plain_fs = (OK, out, s')
     \<and> disk s' ''/etc/x'' = Some ''evil''"
proof -
  let ?p = "''/data/agent/link/x''" and ?g = "map_of [(''path'', ''/data/agent/link/x''), (''content'', ''evil'')]"
  have h: "under_data_dir ?p" "strstr ?p ''..'' = None" "disk plain_fs (locate plain_env ?p) = None" "\<not> is_dir plain_env (locate plain_env ?p)"
    "?p \<notin> set s_protected_files" "openable plain_env (locate plain_env ?p)"
    "accepted plain_env (length ''evil'') = length ''evil''" "?g ''path'' = Some ?p" "?g ''content'' = Some ''evil''"
    by (simp_all add: under_data_dir_def AGENT_DATA_DIR_def plain_env_def plain_fs_def s_protected_files_def)
  have l: "locate plain_env ?p = ''/etc/x''" by (simp add: plain_env_def)
  from created_file_unconfined [where get = ?g, OF h] show ?thesis unfolding l args_of_def .
qed

text \<open>An edit does not look at how many bytes the disk took: it reports success for a file it has cut short.\<close>

lemma edit_ignores_short_write:
  assumes "validate_path env s (Some p)" "\<not> is_write_protected env s p" "disk s (locate env p) = Some buf" "buf \<noteq> []"
    "length buf \<le> MAX_FILE_SIZE" "allocs env" "openable env (locate env p)" "strstr (cstr buf) old_str = Some k" "accepted env = (\<lambda>_. 0)"
    "get ''path'' = Some p" "get ''old_string'' = Some old_str" "get ''new_string'' = Some new_str"
  shows "\<exists>out s'. tool_edit_file_execute env (Some get) n s = (OK, out, s') \<and> disk s' (locate env p) = Some []"
  using assms by (simp add: tool_edit_file_execute_def fopen_r_def write_to_def)

section \<open>A listing fits its buffer\<close>

definition listing_ok :: "nat \<Rightarrow> listing \<Rightarrow> bool" where
  "listing_ok n st = (case st of (out, off, count) \<Rightarrow> length out < n \<and> (off < n - 1 \<longrightarrow> off = length out))"

lemma put_entry_ok: "listing_ok n st \<Longrightarrow> fst (snd st) < n - 1 \<Longrightarrow> listing_ok n (put_entry n line st)"
  by (cases st) (auto simp: listing_ok_def)

lemma list_loop_ok: "listing_ok n st \<Longrightarrow> listing_ok n (list_loop env pre n dir depth names st)"
proof (induction env pre n dir depth names st rule: list_loop.induct)
  case (2 env pre n dir depth name names st)
  then show ?case by (auto simp: Let_def put_entry_ok split: option.split)
qed simp

text \<open>The listing of the data directory, however deep and long, is cut to the size of the buffer.\<close>

lemma list_dir_fits: "n > 0 \<Longrightarrow> length (snd (tool_list_dir_execute env args n)) < n"
proof -
  assume n: "n > 0"
  let ?r = "list_dir_recursive env (case args of None \<Rightarrow> None | Some get \<Rightarrow> get ''prefix'') n AGENT_DATA_DIR 0 ([], 0, 0)"
  have "listing_ok n ([], 0, 0)" using n by (simp add: listing_ok_def)
  then have "listing_ok n ?r"
    by (auto simp: list_dir_recursive_def list_loop_ok split: option.split)
  with n show ?thesis
    by (cases ?r) (auto simp: tool_list_dir_execute_def Let_def out_text_def length_cstr_copy listing_ok_def)
qed

end
