(* ===== verification/Tool_Shell.thy ===== *)
theory Tool_Shell
  imports Prelude
begin

text \<open>
  The shell tool of the agent (\<^verbatim>\<open>ai_agent/src/tools/tool_shell.c\<close>) in its default mode, the
  allow list, with \<^verbatim>\<open>popen\<close> enabled: the filter of commands, the path filter of the built-in
  \<^verbatim>\<open>cat\<close> and \<^verbatim>\<open>ls\<close>, and the dispatch of a command. The model yields the return code and what
  the tool does to the system (\<open>shell_act\<close>); the texts it prints are not modelled.
\<close>

section \<open>The filter of commands\<close>

definition SHELL_CMD_MAX :: nat where [c_consts]: "SHELL_CMD_MAX = 256"

definition s_blocked :: "string list" where
  "s_blocked = [''reboot'', ''shutdown'', ''poweroff'', ''mkfs'', ''dd'', ''flash_eraseall'', ''format'', ''rm'',
     ''mv'', ''mount'', ''umount'', ''insmod'', ''rmmod'', ''kill'', ''killall'', ''ifconfig'', ''route'',
     ''iptables'', ''passwd'', ''su'', ''chmod'', ''chown'']"

definition s_allowed :: "string list" where
  "s_allowed = [''free'', ''ps'', ''df'', ''uptime'', ''uname'', ''cat'', ''ls'',
     ''echo'', ''date'', ''env'', ''pwd'', ''id'', ''whoami'',
     ''curl'', ''wget'', ''ping'', ''nslookup'',
     ''lvctl'', ''nxplayer'', ''fbcapture'', ''input'', ''pm'', ''am'',
     ''jq'', ''cut'', ''uniq'', ''head'', ''tail'', ''tr'', ''wc'', ''grep'', ''sed'',
     ''dmesg'', ''hexdump'', ''lua'', ''quickjs'',
     ''voice_start'', ''voice_stop'', ''voice_test_tts'', ''voice_test_asr'', ''set_voice_tts'', ''set_voice_asr'',
     ''cron_start'', ''heap_info'', ''config_show'', ''node_list'', ''node_start'', ''node_stop'', ''net_status'',
     ''router_status'', ''router_profile'', ''router_set'', ''set_gateway'', ''set_mqtt'',
     ''session_list'', ''memory_read'', ''mcp_list'', ''mcp_discover'']"

definition shell_meta :: string where
  "shell_meta = ''|;&`$(){}><'' @ [CHR 0x0A, CHR 0x5C]"

definition has_shell_meta :: "string \<Rightarrow> bool" where
  "has_shell_meta cmd \<longleftrightarrow> list_ex (\<lambda>c. c \<in> set shell_meta) cmd"

abbreviation (input) skip_spaces :: "string \<Rightarrow> string" where
  "skip_spaces p \<equiv> dropWhile (\<lambda>c. c = CHR '' '') p"

definition first_token :: "string \<Rightarrow> string" where
  "first_token cmd = take 63 (takeWhile (\<lambda>c. c \<noteq> CHR '' '') (skip_spaces cmd))"

text \<open>What follows the last slash, or everything.\<close>

definition base_name :: "string \<Rightarrow> string" where
  "base_name first = rev (takeWhile (\<lambda>c. c \<noteq> CHR ''/'') (rev first))"

definition is_blocked :: "string \<Rightarrow> bool" where
  "is_blocked cmd =
     (if has_shell_meta cmd then True
      else (let name = base_name (first_token cmd) in
        if name \<in> set s_allowed then False
        else if name \<in> set s_blocked then True
        else True))"

section \<open>The path filter\<close>

definition s_allowed_prefixes :: "string list" where
  "s_allowed_prefixes = [''/proc/'', ''/data/agent/'', ''/tmp/'']"

definition strip_slash :: "string \<Rightarrow> string" where
  "strip_slash p = (if length p > 1 \<and> last p = CHR ''/'' then butlast p else p)"

definition prefix_matches :: "string \<Rightarrow> string \<Rightarrow> bool" where
  "prefix_matches resolved pre =
     (let cmp_len = (if length pre > 1 \<and> last pre = CHR ''/'' then length pre - 1 else length pre)
      in take cmp_len resolved = take cmp_len pre \<and> (length resolved \<le> cmp_len \<or> resolved ! cmp_len = CHR ''/''))"

text \<open>What the tool asks the system: real paths, bytes of a file, directories, \<^verbatim>\<open>popen\<close> with its exit status, memory.\<close>

record shell_env =
  sh_realpath :: "string \<Rightarrow> string option"
  sh_read :: "string \<Rightarrow> nat"
  sh_opendir :: "string \<Rightarrow> bool"
  sh_popen :: "string \<Rightarrow> (nat \<times> int) option"
  sh_alloc :: bool

definition real_or_raw :: "shell_env \<Rightarrow> string \<Rightarrow> string" where
  "real_or_raw env path = (case sh_realpath env path of Some r \<Rightarrow> r | None \<Rightarrow> path)"

definition is_path_allowed :: "shell_env \<Rightarrow> string \<Rightarrow> bool" where
  "is_path_allowed env path = list_ex (prefix_matches (strip_slash (real_or_raw env path))) s_allowed_prefixes"

section \<open>Commands\<close>

datatype shell_act = Popen string | Read_file string | List_dir string | Statfs

type_synonym shell_result = "int \<times> shell_act list"

definition builtin_free :: "shell_env \<Rightarrow> shell_result" where
  "builtin_free env = (if sh_read env ''/proc/meminfo'' = 0 then ERROR else OK, [Read_file ''/proc/meminfo''])"

text \<open>The status files \<^verbatim>\<open>ps\<close> reads, one per process it lists.\<close>

definition builtin_ps :: "shell_env \<Rightarrow> string list \<Rightarrow> shell_result" where
  "builtin_ps env pids =
     (if \<not> sh_opendir env ''/proc'' then (ERROR, [List_dir ''/proc''])
      else (OK, List_dir ''/proc'' # map (\<lambda>pid. Read_file (''/proc/'' @ pid @ ''/status'')) pids))"

definition builtin_df :: shell_result where
  "builtin_df = (OK, [Statfs])"

definition builtin_uptime :: "shell_env \<Rightarrow> shell_result" where
  "builtin_uptime env = (if sh_read env ''/proc/uptime'' = 0 then ERROR else OK, [Read_file ''/proc/uptime''])"

definition builtin_uname :: shell_result where
  "builtin_uname = (OK, [Read_file ''/proc/version''])"

definition builtin_cat :: "shell_env \<Rightarrow> string \<Rightarrow> shell_result" where
  "builtin_cat env path =
     (if path = [] then (ERROR, [])
      else if \<not> is_path_allowed env path then (ERROR, [])
      else (if sh_read env path > 0 then OK else ERROR, [Read_file path]))"

definition builtin_dmesg :: "shell_env \<Rightarrow> shell_result" where
  "builtin_dmesg env =
     (OK, if sh_read env ''/dev/kmsg'' > 0 then [Read_file ''/dev/kmsg''] else [Read_file ''/dev/kmsg'', Read_file ''/proc/kmsg''])"

text \<open>Both paths of \<^verbatim>\<open>popen\<close> give \<^verbatim>\<open>OK\<close> exactly for exit status 0.\<close>

definition builtin_popen_cmd :: "shell_env \<Rightarrow> string \<Rightarrow> shell_result" where
  "builtin_popen_cmd env cmd =
     (case sh_popen env cmd of
        None \<Rightarrow> (ERROR, [Popen cmd])
      | Some (n, status) \<Rightarrow> (if status \<noteq> 0 \<and> n = 0 then ERROR else if status = 0 then OK else ERROR, [Popen cmd]))"

definition builtin_ls :: "shell_env \<Rightarrow> string option \<Rightarrow> shell_result" where
  "builtin_ls env path =
     (let dir = (case path of Some p \<Rightarrow> if p \<noteq> [] then p else ''/data/agent'' | None \<Rightarrow> ''/data/agent'');
          dir_buf = strip_slash dir
      in if \<not> is_path_allowed env dir_buf \<and> \<not> is_path_allowed env dir then (ERROR, [])
         else (if sh_opendir env dir_buf then OK else ERROR, [List_dir dir_buf]))"

definition is_cmd :: "string \<Rightarrow> string \<Rightarrow> bool" where
  "is_cmd name command \<longleftrightarrow> command = name \<or> take (length name + 1) command = name @ '' ''"

definition dispatch :: "shell_env \<Rightarrow> string list \<Rightarrow> string \<Rightarrow> shell_result" where
  "dispatch env pids command =
     (if is_cmd ''free'' command then builtin_free env
      else if is_cmd ''ps'' command then builtin_ps env pids
      else if is_cmd ''df'' command then builtin_df
      else if command = ''uptime'' then builtin_uptime env
      else if is_cmd ''uname'' command then builtin_uname
      else if take 4 command = ''cat '' then builtin_cat env (skip_spaces (drop 4 command))
      else if take 2 command = ''ls''
      then (let arg = skip_spaces (drop 2 command) in builtin_ls env (if arg \<noteq> [] then Some arg else None))
      else if is_cmd ''dmesg'' command then builtin_dmesg env
      else builtin_popen_cmd env command)"

text \<open>The command comes from the parsed arguments, \<open>None\<close> when it is missing.\<close>

definition tool_run_shell_execute :: "shell_env \<Rightarrow> string list \<Rightarrow> string option \<Rightarrow> shell_result" where
  "tool_run_shell_execute env pids cmd =
     (case cmd of
        None \<Rightarrow> (ERROR, [])
      | Some command \<Rightarrow>
          if command = [] then (ERROR, [])
          else if length command > SHELL_CMD_MAX then (ERROR, [])
          else if is_blocked command then (ERROR, [])
          else if \<not> sh_alloc env then (ERROR, [])
          else dispatch env pids (skip_spaces command))"

section \<open>What the filters guarantee\<close>

text \<open>A location is a directory or inside it.\<close>

definition inside :: "string \<Rightarrow> string \<Rightarrow> bool" where
  "inside d r \<longleftrightarrow> r = d \<or> (\<exists>rest. r = d @ ''/'' @ rest)"

lemma prefix_matches_inside: "d \<noteq> [] \<Longrightarrow> prefix_matches r (d @ ''/'') \<longleftrightarrow> inside d r"
proof -
  assume "d \<noteq> []"
  then have "prefix_matches r (d @ ''/'') \<longleftrightarrow> take (length d) r = d \<and> (length r \<le> length d \<or> r ! length d = CHR ''/'')"
    by (simp add: prefix_matches_def Let_def)
  also have "\<dots> \<longleftrightarrow> inside d r"
  proof
    assume a: "take (length d) r = d \<and> (length r \<le> length d \<or> r ! length d = CHR ''/'')"
    show "inside d r"
    proof (cases "length r \<le> length d")
      case True
      with a show ?thesis by (simp add: inside_def)
    next
      case False
      then have "r = take (length d) r @ r ! length d # drop (Suc (length d)) r" by (simp add: id_take_nth_drop)
      with a False have "r = d @ ''/'' @ drop (Suc (length d)) r" by (metis append_Cons append_Nil)
      then show ?thesis unfolding inside_def by blast
    qed
  qed (auto simp: inside_def)
  finally show ?thesis .
qed

definition reachable_place :: "string \<Rightarrow> bool" where
  "reachable_place r \<longleftrightarrow> inside ''/proc'' r \<or> inside ''/data/agent'' r \<or> inside ''/tmp'' r"

lemma inside_strip: "inside d (strip_slash r) \<Longrightarrow> inside d r"
proof -
  assume a: "inside d (strip_slash r)"
  consider "strip_slash r = r" | "r = strip_slash r @ ''/''"
    using append_butlast_last_id [of r] unfolding strip_slash_def by (cases "length r > 1 \<and> last r = CHR ''/''"; cases r) force+
  then show ?thesis
  proof cases
    case 2
    from a consider "strip_slash r = d" | rest where "strip_slash r = d @ ''/'' @ rest" by (auto simp: inside_def)
    then show ?thesis
    proof cases
      case 1
      with \<open>r = strip_slash r @ ''/''\<close> show ?thesis by (auto simp: inside_def)
    next
      case (2 rest)
      with \<open>r = strip_slash r @ ''/''\<close> have "r = d @ ''/'' @ rest @ ''/''" by simp
      then show ?thesis unfolding inside_def by blast
    qed
  qed (use a in simp)
qed

text \<open>
  Where a path leads: its real path; a path that cannot be resolved, because nothing is there, is
  taken as it is written.
\<close>

definition leads_to_place :: "shell_env \<Rightarrow> string \<Rightarrow> bool" where
  "leads_to_place env p \<longleftrightarrow> (case sh_realpath env p of Some r \<Rightarrow> reachable_place r | None \<Rightarrow> reachable_place p)"

lemma is_path_allowed_place: "is_path_allowed env p \<Longrightarrow> leads_to_place env p"
  using prefix_matches_inside [of "''/proc''"] prefix_matches_inside [of "''/data/agent''"] prefix_matches_inside [of "''/tmp''"]
  by (auto simp: is_path_allowed_def s_allowed_prefixes_def reachable_place_def leads_to_place_def real_or_raw_def
      dest: inside_strip split: option.splits)

text \<open>
  The first word of a command, and the program it names: the word itself, or what follows a
  slash. The filter looks only at the first 63 characters of the word.
\<close>

definition first_word :: "string \<Rightarrow> string" where
  "first_word c = takeWhile (\<lambda>x. x \<noteq> CHR '' '') (dropWhile (\<lambda>x. x = CHR '' '') c)"

definition names_program :: "string \<Rightarrow> string \<Rightarrow> bool" where
  "names_program w n \<longleftrightarrow> CHR ''/'' \<notin> set n \<and> (w = n \<or> (\<exists>dir. w = dir @ ''/'' @ n))"

lemma base_name_names: "names_program w (base_name w)"
proof -
  let ?r = "rev w"
  have w: "w = rev (dropWhile (\<lambda>c. c \<noteq> CHR ''/'') ?r) @ base_name w"
    using takeWhile_dropWhile_id [of "\<lambda>c. c \<noteq> CHR ''/''" ?r] by (metis base_name_def rev_append rev_rev_ident)
  have n: "CHR ''/'' \<notin> set (base_name w)" by (auto simp: base_name_def dest: set_takeWhileD)
  show ?thesis
  proof (cases "dropWhile (\<lambda>c. c \<noteq> CHR ''/'') ?r")
    case Nil
    then have "w = base_name w" using w by (simp only: rev.simps append_Nil)
    then show ?thesis using n unfolding names_program_def by blast
  next
    case (Cons c cs)
    then have "c = CHR ''/''" using hd_dropWhile [of "\<lambda>c. c \<noteq> CHR ''/''" ?r] by simp
    then have "w = rev cs @ ''/'' @ base_name w" using w Cons by simp
    then show ?thesis using n unfolding names_program_def by blast
  qed
qed

text \<open>What an action of the tool may be.\<close>

fun act_ok :: "shell_env \<Rightarrow> shell_act \<Rightarrow> bool" where
  "act_ok env (Popen c) \<longleftrightarrow> length c \<le> 256 \<and> set c \<inter> set (''|;&`$(){}><'' @ [CHR 0x0A, CHR 0x5C]) = {}
     \<and> (\<exists>n. n \<in> set s_allowed \<and> n \<notin> set s_blocked
          \<and> names_program (if length (first_word c) \<le> 63 then first_word c else take 63 (first_word c)) n)"
| "act_ok env (Read_file p) \<longleftrightarrow> inside ''/proc'' p \<or> p = ''/dev/kmsg'' \<or> leads_to_place env p"
| "act_ok env (List_dir p) \<longleftrightarrow> p = ''/proc'' \<or> leads_to_place env p \<or> (\<exists>dir. p = strip_slash dir \<and> leads_to_place env dir)"
| "act_ok env Statfs \<longleftrightarrow> True"

lemma lists_disjoint: "set s_allowed \<inter> set s_blocked = {}"
  by code_simp

lemma not_blocked:
  assumes "\<not> is_blocked cmd"
  shows "\<not> has_shell_meta cmd" "base_name (first_token cmd) \<in> set s_allowed" "base_name (first_token cmd) \<notin> set s_blocked"
  using assms lists_disjoint by (auto simp: is_blocked_def Let_def split: if_splits)

lemma proc_files: "inside ''/proc'' ''/proc/meminfo''" "inside ''/proc'' ''/proc/uptime''" "inside ''/proc'' ''/proc/version''"
    "inside ''/proc'' ''/proc/kmsg''" "inside ''/proc'' (''/proc/'' @ pid @ ''/status'')"
  by (simp_all add: inside_def)

lemma builtins_ok:
  "list_all (act_ok env) (snd (builtin_free env))" "list_all (act_ok env) (snd (builtin_ps env pids))"
  "list_all (act_ok env) (snd builtin_df)" "list_all (act_ok env) (snd (builtin_uptime env))"
  "list_all (act_ok env) (snd builtin_uname)" "list_all (act_ok env) (snd (builtin_dmesg env))"
  "list_all (act_ok env) (snd (builtin_cat env p))"
  using proc_files is_path_allowed_place [of env p]
  by (auto simp: builtin_free_def builtin_ps_def builtin_df_def builtin_uptime_def builtin_uname_def builtin_dmesg_def
      builtin_cat_def list_all_iff)

lemma builtin_ls_ok: "list_all (act_ok env) (snd (builtin_ls env path))"
  using is_path_allowed_place [of env] by (auto simp: builtin_ls_def Let_def)

lemma dispatch_ok:
  assumes "\<not> has_shell_meta c" "length c \<le> SHELL_CMD_MAX" "base_name (first_token c) \<in> set s_allowed"
    "base_name (first_token c) \<notin> set s_blocked"
  shows "list_all (act_ok env) (snd (dispatch env pids c))"
proof -
  have tok: "(if length (first_word c) \<le> 63 then first_word c else take 63 (first_word c)) = first_token c"
    by (simp add: first_token_def first_word_def)
  have "act_ok env (Popen c)"
    unfolding act_ok.simps tok using assms base_name_names [of "first_token c"]
    by (auto simp: has_shell_meta_def shell_meta_def list_ex_iff c_consts)
  then have "list_all (act_ok env) (snd (builtin_popen_cmd env c))"
    by (simp add: builtin_popen_cmd_def del: act_ok.simps split: option.split prod.split)
  then show ?thesis using builtins_ok builtin_ls_ok by (simp add: dispatch_def Let_def del: act_ok.simps)
qed

text \<open>
  C29. The shell tool does only what its filters allow. Whatever command the model sends: a command
  that is handed to \<^verbatim>\<open>popen\<close> is at most 256 characters long, contains no pipe, separator,
  redirection, substitution, newline or backslash, and its first word, if it has at most 63
  characters, names a program of the allow list, not of the block list, after its last slash; of
  a longer word the first 63 characters do, and nothing is known of the rest. A file the tool
  reads itself is under \<^verbatim>\<open>/proc\<close>, is the kernel log, or leads to a place under \<^verbatim>\<open>/proc\<close>, the data
  directory or \<^verbatim>\<open>/tmp\<close>: its real path is there, or, when the path cannot be resolved, the path
  as it is written. So does a directory it lists, up to a final slash.
\<close>

theorem shell_acts_vetted: "list_all (act_ok env) (snd (tool_run_shell_execute env pids cmd))"
proof (cases cmd)
  case (Some command)
  have skip: "first_token (skip_spaces command) = first_token command"
    by (simp add: first_token_def)
  have len: "length (skip_spaces command) \<le> length command" by (rule length_dropWhile_le)
  have "list_all (act_ok env) (snd (dispatch env pids (skip_spaces command)))"
    if v: "\<not> is_blocked command" "length command \<le> SHELL_CMD_MAX"
  proof (rule dispatch_ok)
    show "\<not> has_shell_meta (skip_spaces command)"
      using not_blocked(1) [OF v(1)] by (auto simp: has_shell_meta_def list_ex_iff dest: set_dropWhileD)
    show "length (skip_spaces command) \<le> SHELL_CMD_MAX" using len v(2) by simp
  qed (simp_all add: skip not_blocked [OF v(1)])
  then show ?thesis using Some by (simp add: tool_run_shell_execute_def)
qed (simp add: tool_run_shell_execute_def)

section \<open>What they do not\<close>

text \<open>
  The word is cut at 63 characters before its name is looked up: behind a directory of 58
  characters any program whose name begins with that of an allowed one passes.
\<close>

theorem shell_long_word_evades:
  assumes "\<not> has_shell_meta (''/'' @ dir @ ''/cat'' @ tail @ arg)" "CHR '' '' \<notin> set dir \<union> set tail" "length dir = 58"
    "arg = [] \<or> hd arg = CHR '' ''" "length tail + length arg < 190" "sh_alloc env"
  shows "snd (tool_run_shell_execute env pids (Some (''/'' @ dir @ ''/cat'' @ tail @ arg))) = [Popen (''/'' @ dir @ ''/cat'' @ tail @ arg)]"
proof -
  let ?c = "''/'' @ dir @ ''/cat'' @ tail @ arg"
  have "takeWhile (\<lambda>c. c \<noteq> CHR '' '') arg = []" using assms(4) by (cases arg) auto
  moreover have "takeWhile (\<lambda>c. c \<noteq> CHR '' '') (((''/'' @ dir @ ''/cat'') @ tail) @ arg) = ((''/'' @ dir @ ''/cat'') @ tail) @ takeWhile (\<lambda>c. c \<noteq> CHR '' '') arg"
    by (rule takeWhile_append2) (use assms(2) in auto)
  ultimately have "takeWhile (\<lambda>c. c \<noteq> CHR '' '') ?c = (''/'' @ dir @ ''/cat'') @ tail" by simp
  then have tok: "first_token ?c = ''/'' @ dir @ ''/cat''" using assms(3) by (simp add: first_token_def)
  have "base_name (first_token ?c) = ''cat''" unfolding tok by (simp add: base_name_def takeWhile_append)
  then have nb: "\<not> is_blocked ?c" using assms(1) by (simp add: is_blocked_def s_allowed_def)
  have d: "dispatch env pids ?c = builtin_popen_cmd env ?c" by (simp add: dispatch_def is_cmd_def)
  have "snd (builtin_popen_cmd env ?c) = [Popen ?c]" by (simp add: builtin_popen_cmd_def split: option.split prod.split)
  with nb d assms(3,5,6) show ?thesis by (simp add: tool_run_shell_execute_def c_consts)
qed

text \<open>
  Spelling a command with its directory evades the path filter. For any directory without
  blanks and meta-characters, \<^verbatim>\<open><dir>/cat <file>\<close> passes the filter because only the base name is
  looked at, and is run by \<^verbatim>\<open>popen\<close> instead of the built-in \<^verbatim>\<open>cat\<close>: any file can be read, and a
  program called \<^verbatim>\<open>cat\<close> in a directory the model can write to is executed.
\<close>

theorem shell_path_filter_evaded:
  assumes "\<not> has_shell_meta (''/'' @ dir @ ''/cat '' @ arg)" "CHR '' '' \<notin> set dir" "length dir < 50" "length arg < 200" "sh_alloc env"
  shows "snd (tool_run_shell_execute env pids (Some (''/'' @ dir @ ''/cat '' @ arg))) = [Popen (''/'' @ dir @ ''/cat '' @ arg)]"
proof -
  let ?c = "''/'' @ dir @ ''/cat '' @ arg"
  have tok: "first_token ?c = ''/'' @ dir @ ''/cat''"
    using assms(2,3) by (simp add: first_token_def takeWhile_append)
  have "base_name (first_token ?c) = ''cat''" unfolding tok by (simp add: base_name_def takeWhile_append)
  then have nb: "\<not> is_blocked ?c" using assms(1) by (simp add: is_blocked_def s_allowed_def)
  have d: "dispatch env pids ?c = builtin_popen_cmd env ?c" by (simp add: dispatch_def is_cmd_def)
  have "snd (builtin_popen_cmd env ?c) = [Popen ?c]" by (simp add: builtin_popen_cmd_def split: option.split prod.split)
  with nb d assms(3-5) show ?thesis by (simp add: tool_run_shell_execute_def c_consts)
qed

definition sample_shell :: shell_env where
  "sample_shell = \<lparr>sh_realpath = Some, sh_read = (\<lambda>_. 1), sh_opendir = (\<lambda>_. True), sh_popen = (\<lambda>_. Some (0, 0)), sh_alloc = True\<rparr>"

theorem shell_path_filter_evaded_witness:
  "snd (tool_run_shell_execute sample_shell [] (Some ''/bin/cat /etc/passwd'')) = [Popen ''/bin/cat /etc/passwd'']"
proof -
  have h: "\<not> has_shell_meta (''/'' @ ''bin'' @ ''/cat '' @ ''/etc/passwd'')" "CHR '' '' \<notin> set ''bin''" "length ''bin'' < 50"
    "length ''/etc/passwd'' < 200" "sh_alloc sample_shell"
    by (simp_all add: has_shell_meta_def shell_meta_def sample_shell_def)
  from shell_path_filter_evaded [OF h, of "[]"] show ?thesis by simp
qed

text \<open>Blocked programs run through the allowed \<^verbatim>\<open>env\<close>.\<close>

lemma env_runs_blocked: "\<not> is_blocked ''env reboot''" "is_blocked ''reboot''"
  by (simp_all add: is_blocked_def has_shell_meta_def shell_meta_def first_token_def base_name_def s_allowed_def s_blocked_def)

end
