(* ===== verification/Provisioning_Form.thy ===== *)
theory Provisioning_Form
  imports Prelude
begin

text \<open>
  The messages of the Wi-Fi provisioning: the random names of the temporary access point
  (\<^verbatim>\<open>provisioning_service/src/rvt_provisioning_protocol.c\<close>), the parser of the form a phone sends
  and the text of the saved network configuration
  (\<^verbatim>\<open>provisioning_service/src/rvt_provisioning_service.c\<close>). A result is an error code (\<open>Inl\<close>) or
  a value.
\<close>

definition RVT_PROV_NONCE_LEN :: nat where [c_consts]: "RVT_PROV_NONCE_LEN = 12"
definition RVT_PROV_SSID_MAX_LEN :: nat where [c_consts]: "RVT_PROV_SSID_MAX_LEN = 32"
definition RVT_PROV_AP_RANDOM_LEN :: nat where [c_consts]: "RVT_PROV_AP_RANDOM_LEN = 6"
definition RVT_PROV_AP_PASSWORD_LEN :: nat where [c_consts]: "RVT_PROV_AP_PASSWORD_LEN = 12"
definition RVT_PROVISIONING_CONFIG_RX_MAX :: nat where [c_consts]: "RVT_PROVISIONING_CONFIG_RX_MAX = 768"
definition RVT_PROVISIONING_PHONE_ID_MAX :: nat where [c_consts]: "RVT_PROVISIONING_PHONE_ID_MAX = 64"
definition RVT_PROVISIONING_PHONE_RANDOM_MAX :: nat where [c_consts]: "RVT_PROVISIONING_PHONE_RANDOM_MAX = 32"
definition RVT_PROVISIONING_AUTH_TYPE_MAX :: nat where [c_consts]: "RVT_PROVISIONING_AUTH_TYPE_MAX = 16"

section \<open>The temporary access point\<close>

definition g_base32 :: string where
  "g_base32 = ''ABCDEFGHIJKLMNOPQRSTUVWXYZ234567''"

text \<open>The random bytes are an argument; only their low five bits are used.\<close>

definition generate_base32 :: "u8 list \<Rightarrow> nat \<Rightarrow> nat \<Rightarrow> int + string" where
  "generate_base32 random_bytes out_len value_len =
     (if out_len \<le> value_len \<or> value_len = 0 \<or> value_len > RVT_PROV_AP_PASSWORD_LEN then Inl (- EINVAL)
      else Inr (map (\<lambda>b. g_base32 ! unat (and b 0x1f)) (take value_len random_bytes)))"

record softap_config =
  ap_ssid :: string
  ap_password :: string
  ap_nonce :: string
  ap_ip :: string
  ap_port :: int

definition rvt_prov_generate_softap_config :: "u8 list \<Rightarrow> u8 list \<Rightarrow> u8 list \<Rightarrow> int + softap_config" where
  "rvt_prov_generate_softap_config r1 r2 r3 =
     (case generate_base32 r1 (RVT_PROV_AP_RANDOM_LEN + 1) RVT_PROV_AP_RANDOM_LEN of
        Inl e \<Rightarrow> Inl e
      | Inr sfx \<Rightarrow>
     (case generate_base32 r2 (RVT_PROV_AP_PASSWORD_LEN + 1) RVT_PROV_AP_PASSWORD_LEN of
        Inl e \<Rightarrow> Inl e
      | Inr password \<Rightarrow>
     (case generate_base32 r3 (RVT_PROV_NONCE_LEN + 1) RVT_PROV_NONCE_LEN of
        Inl e \<Rightarrow> Inl e
      | Inr nonce \<Rightarrow>
          Inr \<lparr>ap_ssid = cstr_copy (RVT_PROV_SSID_MAX_LEN + 1) (''YADEA_CAR_'' @ sfx), ap_password = password,
               ap_nonce = nonce, ap_ip = cstr_copy 16 ''192.168.49.1'', ap_port = 39888\<rparr>)))"

section \<open>Form fields\<close>

definition provisioning_hex_value :: "char \<Rightarrow> nat option" where
  "provisioning_hex_value c =
     (let n = of_char c :: nat in
      if 48 \<le> n \<and> n \<le> 57 then Some (n - 48)
      else if 97 \<le> n \<and> n \<le> 102 then Some (n - 97 + 10)
      else if 65 \<le> n \<and> n \<le> 70 then Some (n - 65 + 10)
      else None)"

definition is_control :: "char \<Rightarrow> bool" where
  "is_control c \<longleftrightarrow> (of_char c :: nat) < 32 \<or> (of_char c :: nat) = 127"

fun url_decode :: "nat \<Rightarrow> string \<Rightarrow> string \<Rightarrow> int + string" where
  "url_decode out_len [] out = Inr out"
| "url_decode out_len (c # cs) out =
     (if length out \<ge> out_len - 1 then Inl (- ENOSPC)
      else if c = CHR ''+'' then url_decode out_len cs (out @ '' '')
      else if c = CHR ''%'' \<and> length cs \<ge> 2
      then (case (provisioning_hex_value (cs ! 0), provisioning_hex_value (cs ! 1)) of
              (Some hi, Some lo) \<Rightarrow> url_decode out_len (drop 2 cs) (out @ [char_of (16 * hi + lo)])
            | _ \<Rightarrow> Inl (- EINVAL))
      else if is_control c then Inl (- EINVAL)
      else url_decode out_len cs (out @ [c]))"

definition provisioning_url_decode_range :: "string \<Rightarrow> nat \<Rightarrow> int + string" where
  "provisioning_url_decode_range src out_len = (if out_len = 0 then Inl (- EINVAL) else url_decode out_len src [])"

definition is_sep :: "char \<Rightarrow> bool" where
  "is_sep c \<longleftrightarrow> c = CHR ''&'' \<or> c = CHR ''?'' \<or> c = CHR '' '' \<or> c = CHR 0x0D \<or> c = CHR 0x0A"

definition strip_end :: "string \<Rightarrow> string" where
  "strip_end v = rev (dropWhile (\<lambda>c. c = CHR 0x0D \<or> c = CHR 0x0A \<or> c = CHR '' '') (rev v))"

abbreviation (input) upto_char :: "char \<Rightarrow> string \<Rightarrow> string" where
  "upto_char d p \<equiv> takeWhile (\<lambda>c. c \<noteq> d) p"

abbreviation (input) after_char :: "char \<Rightarrow> string \<Rightarrow> string" where
  "after_char d p \<equiv> tl (dropWhile (\<lambda>c. c \<noteq> d) p)"

lemma after_char_shorter: "d \<in> set p \<Longrightarrow> length (after_char d p) < length p"
proof -
  assume "d \<in> set p"
  then have "dropWhile (\<lambda>c. c \<noteq> d) p \<noteq> []" by auto
  then have "length (after_char d p) < length (dropWhile (\<lambda>c. c \<noteq> d) p)" by (cases "dropWhile (\<lambda>c. c \<noteq> d) p") auto
  also have "\<dots> \<le> length p" by (rule length_dropWhile_le)
  finally show ?thesis .
qed

lemma after_sep_shorter: "d \<in> set (dropWhile P form) \<Longrightarrow> length (after_char d (dropWhile P form)) < length form"
  using after_char_shorter [of d "dropWhile P form"] length_dropWhile_le [of P form] by linarith

text \<open>The loop of \<^verbatim>\<open>provisioning_form_get\<close>; the value is read as a C string.\<close>

function form_loop :: "string \<Rightarrow> nat \<Rightarrow> string \<Rightarrow> int + string" where
  "form_loop key out_len form =
     (let p = dropWhile is_sep form in
      if p = [] then Inl (- ENOENT)
      else if CHR ''='' \<notin> set p then Inl (- ENOENT)
      else if CHR ''&'' \<in> set (upto_char CHR ''='' p) then form_loop key out_len (after_char CHR ''&'' p)
      else if upto_char CHR ''='' p = key
      then map_sum id cstr (provisioning_url_decode_range (strip_end (upto_char CHR ''&'' (after_char CHR ''='' p))) out_len)
      else if CHR ''&'' \<notin> set p then Inl (- ENOENT)
      else form_loop key out_len (after_char CHR ''&'' p))"
  by pat_completeness auto

termination
proof (relation "measure (\<lambda>(_, _, form). length form)", goal_cases)
  case (2 key out_len form p)
  then show ?case using after_sep_shorter [of "CHR ''&''" is_sep form] by (auto dest: set_takeWhileD)
next
  case (3 key out_len form p)
  then show ?case using after_sep_shorter [of "CHR ''&''" is_sep form] by auto
qed simp

declare form_loop.simps [simp del]

definition provisioning_form_get :: "string \<Rightarrow> string \<Rightarrow> nat \<Rightarrow> int + string" where
  "provisioning_form_get form key out_len = (if out_len = 0 then Inl (- EINVAL) else form_loop key out_len form)"

definition index_of :: "char \<Rightarrow> string \<Rightarrow> nat option" where
  "index_of d p = first_idx (\<lambda>c. c = d) p"

definition provisioning_find_form_body :: "string \<Rightarrow> string" where
  "provisioning_find_form_body request =
     (case strstr request [CHR 0x0D, CHR 0x0A, CHR 0x0D, CHR 0x0A] of
        Some body \<Rightarrow> drop (body + 4) request
      | None \<Rightarrow>
          if take 4 request = ''GET ''
          then (case (index_of CHR ''?'' request, index_of CHR '' '' (drop 4 request)) of
                  (Some query, Some space) \<Rightarrow> if query < space + 4 then drop (query + 1) request else request
                | _ \<Rightarrow> request)
          else request)"

section \<open>The configuration of the phone's network\<close>

record phone_config =
  pc_nonce :: string
  pc_phone_id :: string
  pc_phone_random :: string
  pc_ssid :: string
  pc_password :: string
  pc_auth_type :: string

definition provisioning_has_no_control_chars :: "string \<Rightarrow> bool" where
  "provisioning_has_no_control_chars v = list_all (\<lambda>c. \<not> is_control c) v"

definition provisioning_validate_phone_config :: "string \<Rightarrow> phone_config \<Rightarrow> int" where
  "provisioning_validate_phone_config session_nonce config =
     (if take (RVT_PROV_NONCE_LEN + 1) (pc_nonce config) \<noteq> take (RVT_PROV_NONCE_LEN + 1) session_nonce then - EACCES
      else if pc_ssid config = [] \<or> length (pc_ssid config) > RVT_PROV_SSID_MAX_LEN
              \<or> \<not> provisioning_has_no_control_chars (pc_ssid config) then - EINVAL
      else if length (pc_password config) < 8 \<or> length (pc_password config) > 63
              \<or> \<not> provisioning_has_no_control_chars (pc_password config) then - EINVAL
      else if pc_phone_id config = [] \<or> pc_phone_random config = [] then - EINVAL
      else 0)"

definition provisioning_parse_config_request :: "string \<Rightarrow> string \<Rightarrow> int + phone_config" where
  "provisioning_parse_config_request session_nonce request =
     (let form = provisioning_find_form_body request in
      if provisioning_form_get form ''v'' 4 \<noteq> Inr ''3'' then Inl (- EINVAL)
      else case provisioning_form_get form ''n'' (RVT_PROV_NONCE_LEN + 1) of Inl e \<Rightarrow> Inl e | Inr nonce \<Rightarrow>
      case provisioning_form_get form ''phone_id'' (RVT_PROVISIONING_PHONE_ID_MAX + 1) of Inl e \<Rightarrow> Inl e | Inr phone_id \<Rightarrow>
      case provisioning_form_get form ''phone_random'' (RVT_PROVISIONING_PHONE_RANDOM_MAX + 1) of Inl e \<Rightarrow> Inl e | Inr phone_random \<Rightarrow>
      case provisioning_form_get form ''ssid'' (RVT_PROV_SSID_MAX_LEN + 1) of Inl e \<Rightarrow> Inl e | Inr ssid \<Rightarrow>
      case provisioning_form_get form ''psk'' 64 of Inl e \<Rightarrow> Inl e | Inr password \<Rightarrow>
      let auth = (case provisioning_form_get form ''auth_type'' (RVT_PROVISIONING_AUTH_TYPE_MAX + 1) of Inl e \<Rightarrow> ''WPA2_PSK'' | Inr a \<Rightarrow> a);
          config = \<lparr>pc_nonce = nonce, pc_phone_id = phone_id, pc_phone_random = phone_random, pc_ssid = ssid,
                    pc_password = password, pc_auth_type = auth\<rparr>;
          ret = provisioning_validate_phone_config session_nonce config
      in if ret = 0 then Inr config else Inl ret)"

section \<open>Receiving a request\<close>

text \<open>What waiting for the phone and reading from it give: nothing in time, an error, bytes, or the end.\<close>

datatype rx = Rx_timeout | Rx_error int | Rx_data string | Rx_end

fun receive_loop :: "rx list \<Rightarrow> string \<Rightarrow> int + string" where
  "receive_loop rxs request =
     (if length request \<ge> RVT_PROVISIONING_CONFIG_RX_MAX then Inr request
      else (case rxs of
              [] \<Rightarrow> Inl (- ETIMEDOUT)
            | Rx_timeout # _ \<Rightarrow> Inl (- ETIMEDOUT)
            | Rx_error e # _ \<Rightarrow> Inl (- e)
            | Rx_end # _ \<Rightarrow> Inr request
            | Rx_data b # rest \<Rightarrow>
                if b = [] then Inr request
                else (let request1 = request @ take (RVT_PROVISIONING_CONFIG_RX_MAX - length request) b in
                      if CHR 0x0A \<in> set (cstr request1) then Inr request1 else receive_loop rest request1)))"

declare receive_loop.simps [simp del]

definition provisioning_receive_config :: "string \<Rightarrow> rx list \<Rightarrow> int + phone_config" where
  "provisioning_receive_config session_nonce rxs =
     (case receive_loop rxs [] of
        Inl e \<Rightarrow> Inl e
      | Inr request \<Rightarrow> if request = [] then Inl (- ENODATA) else provisioning_parse_config_request session_nonce (cstr request))"

section \<open>What a phone sends\<close>

text \<open>The encoding of form fields (RFC 3986) and of a configuration, as a phone produces them.\<close>

definition unreserved_chars :: string where
  "unreserved_chars = ''ABCDEFGHIJKLMNOPQRSTUVWXYZabcdefghijklmnopqrstuvwxyz0123456789-._~''"

definition unreserved :: "char \<Rightarrow> bool" where
  "unreserved c \<longleftrightarrow> c \<in> set unreserved_chars"

definition hex_upper :: "nat \<Rightarrow> char" where
  "hex_upper n = ''0123456789ABCDEF'' ! n"

definition url_char :: "char \<Rightarrow> string" where
  "url_char c = (if unreserved c then [c] else [CHR ''%'', hex_upper (of_char c div 16), hex_upper (of_char c mod 16)])"

definition url_encode :: "string \<Rightarrow> string" where
  "url_encode v = concat (map url_char v)"

fun render_form :: "(string \<times> string) list \<Rightarrow> string" where
  "render_form [] = []"
| "render_form [(k, v)] = k @ ''='' @ url_encode v"
| "render_form ((k, v) # kvs) = k @ ''='' @ url_encode v @ ''&'' @ render_form kvs"

definition render_config :: "phone_config \<Rightarrow> string" where
  "render_config c =
     render_form [(''v'', ''3''), (''n'', pc_nonce c), (''phone_id'', pc_phone_id c), (''phone_random'', pc_phone_random c),
       (''ssid'', pc_ssid c), (''psk'', pc_password c), (''auth_type'', pc_auth_type c)] @ [CHR 0x0A]"

lemma unreserved_plain:
  assumes "unreserved c"
  shows "\<not> is_sep c" "c \<noteq> CHR ''%''" "c \<noteq> CHR ''+''" "c \<noteq> CHR ''=''" "c \<noteq> CHR ''&''" "\<not> is_control c" "c \<noteq> CHR 0x00"
proof -
  have "list_all (\<lambda>c. \<not> is_sep c \<and> c \<noteq> CHR ''%'' \<and> c \<noteq> CHR ''+'' \<and> c \<noteq> CHR ''='' \<and> c \<noteq> CHR ''&'' \<and> \<not> is_control c \<and> c \<noteq> CHR 0x00) unreserved_chars"
    by code_simp
  with assms show "\<not> is_sep c" "c \<noteq> CHR ''%''" "c \<noteq> CHR ''+''" "c \<noteq> CHR ''=''" "c \<noteq> CHR ''&''" "\<not> is_control c" "c \<noteq> CHR 0x00"
    by (auto simp: unreserved_def list_all_iff)
qed

lemma hex_upper_value: "n < 16 \<Longrightarrow> provisioning_hex_value (hex_upper n) = Some n \<and> unreserved (hex_upper n)"
proof -
  have "list_all (\<lambda>n. provisioning_hex_value (hex_upper n) = Some n \<and> unreserved (hex_upper n)) [0..<16]" by code_simp
  then show "n < 16 \<Longrightarrow> ?thesis" by (simp add: list_all_iff)
qed

lemma nibbles: "(of_char c :: nat) div 16 < 16" "(of_char c :: nat) mod 16 < 16"
  using nat_of_char_less_256 [of c] less_mult_imp_div_less [of "of_char c :: nat" 16 16] by auto

lemmas nibble_digits = hex_upper_value [OF nibbles(1)] hex_upper_value [OF nibbles(2)]

lemma url_encode_safe: "c \<in> set (url_encode v) \<Longrightarrow> unreserved c \<or> c = CHR ''%''"
proof -
  have "c \<in> set (url_char d) \<Longrightarrow> unreserved c \<or> c = CHR ''%''" for d
    using nibble_digits [of d] by (auto simp: url_char_def split: if_splits)
  then show "c \<in> set (url_encode v) \<Longrightarrow> ?thesis" by (auto simp: url_encode_def)
qed

lemma url_decode_encode: "length out + length v < n \<Longrightarrow> url_decode n (url_encode v) out = Inr (out @ v)"
proof (induction v arbitrary: out)
  case Nil
  then show ?case by (simp add: url_encode_def)
next
  case (Cons c v)
  have enc: "url_encode (c # v) = url_char c @ url_encode v" by (simp add: url_encode_def)
  show ?case
  proof (cases "unreserved c")
    case True
    with Cons unreserved_plain [OF True] show ?thesis by (simp add: enc url_char_def)
  next
    case False
    have h: "provisioning_hex_value (hex_upper (of_char c div 16)) = Some (of_char c div 16)"
      "provisioning_hex_value (hex_upper (of_char c mod 16)) = Some (of_char c mod 16)"
      using nibble_digits [of c] by auto
    have "char_of (16 * (of_char c div 16) + of_char c mod 16 :: nat) = c" by (simp add: mult_div_mod_eq)
    with Cons False h show ?thesis by (simp add: enc url_char_def)
  qed
qed

lemma form_value:
  assumes "t = [CHR 0x0A] \<or> (\<exists>r. t = CHR ''&'' # r)"
  shows "strip_end (upto_char CHR ''&'' (url_encode v @ t)) = url_encode v"
proof -
  have amp: "upto_char CHR ''&'' (url_encode v @ t) = url_encode v @ upto_char CHR ''&'' t"
    by (rule takeWhile_append2) (use url_encode_safe unreserved_plain(5) in fastforce)
  have "strip_end (url_encode v) = url_encode v"
  proof (cases "url_encode v" rule: rev_cases)
    case (snoc ys y)
    then have "unreserved y \<or> y = CHR ''%''" using url_encode_safe [of y v] by simp
    then have "\<not> (y = CHR 0x0D \<or> y = CHR 0x0A \<or> y = CHR '' '')" using unreserved_plain(1) [of y] by (auto simp: is_sep_def)
    then show ?thesis by (simp add: strip_end_def snoc)
  qed (simp add: strip_end_def)
  moreover have "strip_end (url_encode v @ [CHR 0x0A]) = strip_end (url_encode v)" by (simp add: strip_end_def)
  ultimately show ?thesis using assms amp by auto
qed

definition key_ok :: "string \<Rightarrow> bool" where
  "key_ok k \<longleftrightarrow> k \<noteq> [] \<and> list_all unreserved k"

lemma key_no_sep: "key_ok k \<Longrightarrow> dropWhile is_sep (k @ r) = k @ r"
  using unreserved_plain(1) by (cases k) (auto simp: key_ok_def)

lemma key_upto_eq: "key_ok k \<Longrightarrow> upto_char CHR ''='' (k @ CHR ''='' # r) = k \<and> after_char CHR ''='' (k @ CHR ''='' # r) = r"
  using unreserved_plain(4) by (auto simp: key_ok_def list_all_iff takeWhile_append2 dropWhile_append2)

lemma key_no_amp: "key_ok k \<Longrightarrow> CHR ''&'' \<notin> set k"
  using unreserved_plain(5) by (auto simp: key_ok_def list_all_iff)

lemma after_char_append: "d \<notin> set xs \<Longrightarrow> after_char d (xs @ d # r) = r"
  by (induction xs) auto

text \<open>One field of a form: it is the one looked for, or the search goes on behind the next separator.\<close>

lemma form_loop_field:
  assumes "key_ok k" "t = [CHR 0x0A] \<or> (\<exists>r. t = CHR ''&'' # r)"
  shows "form_loop k n (k @ ''='' @ url_encode v @ t) = map_sum id cstr (provisioning_url_decode_range (url_encode v) n)"
    and "k \<noteq> key \<Longrightarrow> t = CHR ''&'' # r \<Longrightarrow> form_loop key n (k @ ''='' @ url_encode v @ t) = form_loop key n r"
proof -
  let ?f = "k @ CHR ''='' # url_encode v @ t"
  note k = key_no_sep [OF assms(1)] key_upto_eq [OF assms(1)] key_no_amp [OF assms(1)]
  show "form_loop k n (k @ ''='' @ url_encode v @ t) = map_sum id cstr (provisioning_url_decode_range (url_encode v) n)"
    using k form_value [OF assms(2), of v] assms(1) by (simp add: form_loop.simps [of _ _ ?f] Let_def key_ok_def)
  assume "k \<noteq> key" "t = CHR ''&'' # r"
  have "CHR ''&'' \<notin> set (k @ CHR ''='' # url_encode v)" using k url_encode_safe unreserved_plain(5) by fastforce
  then have "after_char CHR ''&'' (k @ CHR ''='' # url_encode v @ CHR ''&'' # r) = r"
    using after_char_append [of "CHR ''&''" "k @ CHR ''='' # url_encode v" r] by simp
  with \<open>k \<noteq> key\<close> \<open>t = CHR ''&'' # r\<close> k assms(1) show "form_loop key n (k @ ''='' @ url_encode v @ t) = form_loop key n r"
    by (simp add: form_loop.simps [of _ _ "k @ CHR ''='' # url_encode v @ CHR ''&'' # r"] Let_def key_ok_def)
qed

lemma form_get_render:
  assumes "map_of kvs key = Some v" "list_all (\<lambda>(k, _). key_ok k) kvs" "length v < n" "CHR 0x00 \<notin> set v"
  shows "provisioning_form_get (render_form kvs @ [CHR 0x0A]) key n = Inr v"
proof -
  have dec: "map_sum id cstr (provisioning_url_decode_range (url_encode v) n) = Inr v"
    using assms(3,4) url_decode_encode [of "[]" v n] by (auto simp: provisioning_url_decode_range_def cstr_def takeWhile_eq_all_conv)
  have "form_loop key n (render_form kvs @ [CHR 0x0A]) = Inr v"
    using assms(1,2)
  proof (induction kvs rule: render_form.induct)
    case (2 k w)
    then show ?case using form_loop_field(1) [of k "[CHR 0x0A]" n w] dec by (simp split: if_splits)
  next
    case (3 k w kv kvs)
    let ?r = "render_form (kv # kvs) @ [CHR 0x0A]"
    have "key_ok k" using 3 by simp
    note f = form_loop_field [OF this, where t = "CHR ''&'' # ?r" and v = w and n = n]
    show ?case
    proof (cases "k = key")
      case True
      with 3(2) have "w = v" by simp
      with f(1) dec True show ?thesis by simp
    next
      case False
      with 3 have "form_loop key n ?r = Inr v" by simp
      with f(2) [of key ?r] False show ?thesis by simp
    qed
  qed simp
  then show ?thesis using assms(3) by (simp add: provisioning_form_get_def)
qed

lemma strstr_absent: "d \<notin> set h \<Longrightarrow> d \<in> set n \<Longrightarrow> strstr h n = None"
proof (induction h)
  case Nil
  then show ?case by auto
next
  case (Cons c cs)
  then have "take (length n) (c # cs) \<noteq> n" using set_take_subset [of "length n" "c # cs"] by auto
  with Cons show ?case by simp
qed

text \<open>Whatever way the network cuts a one-line request into pieces, the loop collects the whole line.\<close>

lemma receive_line:
  assumes "[] \<notin> set bs" "acc @ concat bs = w @ [CHR 0x0A]" "CHR 0x0A \<notin> set w" "CHR 0x00 \<notin> set w"
    "length w < RVT_PROVISIONING_CONFIG_RX_MAX" "CHR 0x0A \<notin> set acc"
  shows "receive_loop (map Rx_data bs) acc = Inr (w @ [CHR 0x0A])"
  using assms
proof (induction bs arbitrary: acc)
  case Nil
  then have "CHR 0x0A \<in> set acc" by simp
  with Nil show ?case by simp
next
  case (Cons b bs)
  let ?r = "acc @ b"
  have eq: "?r @ concat bs = w @ [CHR 0x0A]" and "b \<noteq> []" using Cons.prems by auto
  have "length (?r @ concat bs) = Suc (length w)" unfolding eq by simp
  then have len: "length acc < RVT_PROVISIONING_CONFIG_RX_MAX" "length ?r \<le> RVT_PROVISIONING_CONFIG_RX_MAX"
    using \<open>b \<noteq> []\<close> Cons.prems(5) length_greater_0_conv [of b] by (simp_all del: length_greater_0_conv)
  have take: "acc @ take (RVT_PROVISIONING_CONFIG_RX_MAX - length acc) b = ?r" using len by simp
  have nul: "cstr ?r = ?r"
  proof -
    have "set ?r \<subseteq> set (w @ [CHR 0x0A])" unfolding eq [symmetric] by auto
    then have "CHR 0x00 \<notin> set ?r" using Cons.prems(4) by auto
    then show ?thesis by (auto simp: cstr_def takeWhile_eq_all_conv simp del: set_append)
  qed
  have step: "receive_loop (map Rx_data (b # bs)) acc
    = (if CHR 0x0A \<in> set ?r then Inr ?r else receive_loop (map Rx_data bs) ?r)"
    using len(1) \<open>b \<noteq> []\<close> take nul by (simp add: receive_loop.simps [of _ acc] Let_def)
  show ?case
  proof (cases "CHR 0x0A \<in> set ?r")
    case True
    have "concat bs = []"
    proof (rule ccontr)
      assume "concat bs \<noteq> []"
      then obtain u y where "concat bs = u @ [y]" by (metis rev_exhaust)
      with eq have "?r @ u = w" by simp
      then have "set ?r \<subseteq> set w" by auto
      with True Cons.prems(3) show False by auto
    qed
    with eq True step show ?thesis by simp
  next
    case False
    have "receive_loop (map Rx_data bs) ?r = Inr (w @ [CHR 0x0A])"
      by (rule Cons.IH) (use Cons.prems False eq in \<open>auto simp del: append_assoc\<close>)
    with False step show ?thesis by simp
  qed
qed

section \<open>Every configuration that fits is received\<close>

definition config_fits :: "phone_config \<Rightarrow> bool" where
  "config_fits c \<longleftrightarrow> length (pc_nonce c) \<le> RVT_PROV_NONCE_LEN \<and> length (pc_phone_id c) \<le> RVT_PROVISIONING_PHONE_ID_MAX
     \<and> length (pc_phone_random c) \<le> RVT_PROVISIONING_PHONE_RANDOM_MAX \<and> length (pc_ssid c) \<le> RVT_PROV_SSID_MAX_LEN
     \<and> length (pc_password c) \<le> 63 \<and> length (pc_auth_type c) \<le> RVT_PROVISIONING_AUTH_TYPE_MAX
     \<and> CHR 0x00 \<notin> set (pc_nonce c) \<and> CHR 0x00 \<notin> set (pc_phone_id c) \<and> CHR 0x00 \<notin> set (pc_phone_random c)
     \<and> CHR 0x00 \<notin> set (pc_ssid c) \<and> CHR 0x00 \<notin> set (pc_password c) \<and> CHR 0x00 \<notin> set (pc_auth_type c)"

lemma length_url_encode: "length (url_encode v) \<le> 3 * length v"
  by (induction v) (auto simp: url_encode_def url_char_def)

lemma url_encode_3: "url_encode ''3'' = ''3''" by code_simp

definition config_line :: "phone_config \<Rightarrow> string" where
  "config_line c = render_form [(''v'', ''3''), (''n'', pc_nonce c), (''phone_id'', pc_phone_id c), (''phone_random'', pc_phone_random c),
     (''ssid'', pc_ssid c), (''psk'', pc_password c), (''auth_type'', pc_auth_type c)]"

lemma render_config_line: "render_config c = config_line c @ [CHR 0x0A]"
  by (simp add: render_config_def config_line_def)

text \<open>The receive buffer has room for every such configuration, however much of it is escaped.\<close>

lemma config_line_fits: "config_fits c \<Longrightarrow> length (config_line c) < RVT_PROVISIONING_CONFIG_RX_MAX"
  using length_url_encode [of "pc_nonce c"] length_url_encode [of "pc_phone_id c"] length_url_encode [of "pc_phone_random c"]
    length_url_encode [of "pc_ssid c"] length_url_encode [of "pc_password c"] length_url_encode [of "pc_auth_type c"]
  by (simp add: config_fits_def config_line_def url_encode_3 c_consts)

lemma url_encode_no_ctl: "CHR 0x0A \<notin> set (url_encode v)" "CHR 0x0D \<notin> set (url_encode v)" "CHR 0x00 \<notin> set (url_encode v)"
  using url_encode_safe [of _ v] unreserved_plain(1,7) by (fastforce simp: is_sep_def)+

lemma config_line_no_ctl: "CHR 0x0A \<notin> set (config_line c)" "CHR 0x0D \<notin> set (config_line c)" "CHR 0x00 \<notin> set (config_line c)"
  by (simp_all add: config_line_def url_encode_no_ctl)

lemma config_body: "provisioning_find_form_body (render_config c) = render_config c"
proof -
  have "take 4 (render_config c) = ''v=3&''" by (simp add: render_config_line config_line_def url_encode_3)
  moreover have "strstr (render_config c) [CHR 0x0D, CHR 0x0A, CHR 0x0D, CHR 0x0A] = None"
    by (rule strstr_absent [of "CHR 0x0D"]) (simp_all add: render_config_line config_line_no_ctl)
  ultimately show ?thesis by (simp add: provisioning_find_form_body_def)
qed

lemma config_keys: "list_all key_ok [''v'', ''n'', ''phone_id'', ''phone_random'', ''ssid'', ''psk'', ''auth_type'']"
  by code_simp

lemma config_field:
  assumes "map_of [(''v'', ''3''), (''n'', pc_nonce c), (''phone_id'', pc_phone_id c), (''phone_random'', pc_phone_random c),
     (''ssid'', pc_ssid c), (''psk'', pc_password c), (''auth_type'', pc_auth_type c)] key = Some v" "length v < n" "CHR 0x00 \<notin> set v"
  shows "provisioning_form_get (render_config c) key n = Inr v"
  unfolding render_config_def by (rule form_get_render [OF assms(1) _ assms(2,3)]) (use config_keys in simp)

lemma parse_rendered:
  assumes "config_fits c" "provisioning_validate_phone_config nonce c = 0"
  shows "provisioning_parse_config_request nonce (render_config c) = Inr c"
proof -
  note fit = assms(1) [unfolded config_fits_def c_consts]
  have f: "provisioning_form_get (render_config c) ''v'' 4 = Inr ''3''"
    "provisioning_form_get (render_config c) ''n'' 13 = Inr (pc_nonce c)"
    "provisioning_form_get (render_config c) ''phone_id'' 65 = Inr (pc_phone_id c)"
    "provisioning_form_get (render_config c) ''phone_random'' 33 = Inr (pc_phone_random c)"
    "provisioning_form_get (render_config c) ''ssid'' 33 = Inr (pc_ssid c)"
    "provisioning_form_get (render_config c) ''psk'' 64 = Inr (pc_password c)"
    "provisioning_form_get (render_config c) ''auth_type'' 17 = Inr (pc_auth_type c)"
    by (rule config_field; use fit in simp)+
  have "provisioning_validate_phone_config nonce \<lparr>pc_nonce = pc_nonce c, pc_phone_id = pc_phone_id c,
    pc_phone_random = pc_phone_random c, pc_ssid = pc_ssid c, pc_password = pc_password c, pc_auth_type = pc_auth_type c\<rparr> = 0"
    using assms(2) by (cases c) simp
  then show ?thesis by (simp add: provisioning_parse_config_request_def config_body f Let_def c_consts)
qed

lemma receive_rendered:
  assumes "config_fits c" "provisioning_validate_phone_config nonce c = 0" "concat bs = render_config c" "[] \<notin> set bs"
  shows "provisioning_receive_config nonce (map Rx_data bs) = Inr c"
proof -
  have "receive_loop (map Rx_data bs) [] = Inr (render_config c)"
    unfolding render_config_line
    by (rule receive_line) (use assms config_line_fits config_line_no_ctl in \<open>simp_all add: render_config_line\<close>)
  moreover have "cstr (render_config c) = render_config c"
    using config_line_no_ctl(3) [of c] by (auto simp: cstr_def takeWhile_eq_all_conv render_config_line)
  moreover have "render_config c \<noteq> []" by (simp add: render_config_line)
  ultimately show ?thesis using parse_rendered [OF assms(1,2)] by (simp add: provisioning_receive_config_def)
qed

text \<open>
  C33. A phone that sends a valid configuration as a form, in pieces cut anywhere by the network, gets exactly this configuration accepted: every field that fits
  its buffer comes back unchanged, whatever characters it has, and the request never outgrows the receive buffer.
\<close>

theorem config_round_trip:
  assumes "config_fits c" "provisioning_validate_phone_config nonce c = 0" "concat bs = render_config c" "[] \<notin> set bs"
  shows "provisioning_receive_config nonce (map Rx_data bs) = Inr c"
  by (rule receive_rendered [OF assms])

definition sample_config :: phone_config where
  "sample_config = \<lparr>pc_nonce = ''ABCDEFGHIJKL'', pc_phone_id = ''p1'', pc_phone_random = ''r'', pc_ssid = ''my net&1'',
     pc_password = ''a=b+c%41'', pc_auth_type = ''WPA2_PSK''\<rparr>"

theorem config_round_trip_witness:
  "provisioning_receive_config ''ABCDEFGHIJKL'' (map Rx_data [take 7 (render_config sample_config), drop 7 (render_config sample_config)])
     = Inr sample_config"
  by (rule config_round_trip) (code_simp+)

section \<open>What is accepted\<close>

lemma url_decode_length: "url_decode n cs out = Inr v \<Longrightarrow> length out \<le> n - 1 \<Longrightarrow> length v \<le> n - 1"
  by (induction n cs out arbitrary: v rule: url_decode.induct) (auto split: if_splits option.splits)

lemma decode_range_bound:
  assumes "map_sum id cstr (provisioning_url_decode_range src n) = Inr v"
  shows "length v < n \<and> CHR 0x00 \<notin> set v"
proof -
  obtain w where w: "provisioning_url_decode_range src n = Inr w" "v = cstr w"
    using assms by (cases "provisioning_url_decode_range src n") auto
  then have "length w < n" using url_decode_length [of n src "[]" w] by (auto simp: provisioning_url_decode_range_def split: if_splits)
  then show ?thesis using w(2) length_takeWhile_le [of "\<lambda>c. c \<noteq> CHR 0x00" w] by (auto simp: cstr_def dest: set_takeWhileD)
qed

lemma form_loop_bound: "form_loop key n form = Inr v \<Longrightarrow> length v < n \<and> CHR 0x00 \<notin> set v"
proof (induction key n form rule: form_loop.induct)
  case (1 key n form)
  let ?p = "dropWhile is_sep form"
  let ?next = "form_loop key n (after_char CHR ''&'' ?p)"
  have "?next = Inr v \<Longrightarrow> length v < n \<and> CHR 0x00 \<notin> set v"
    if "?p \<noteq> []" "CHR ''='' \<in> set ?p" "CHR ''&'' \<in> set (upto_char CHR ''='' ?p) \<or> upto_char CHR ''='' ?p \<noteq> key \<and> CHR ''&'' \<in> set ?p"
    using 1(1,2) [OF refl that(1)] that by blast
  moreover have "?p = [] \<or> CHR ''='' \<notin> set ?p \<or> ?next = Inr v
    \<and> (CHR ''&'' \<in> set (upto_char CHR ''='' ?p) \<or> upto_char CHR ''='' ?p \<noteq> key \<and> CHR ''&'' \<in> set ?p)
    \<or> map_sum id cstr (provisioning_url_decode_range (strip_end (upto_char CHR ''&'' (after_char CHR ''='' ?p))) n) = Inr v"
    using 1(3) by (simp add: form_loop.simps [of key n form] Let_def split: if_splits)
  moreover have "\<not> (?p = [] \<or> CHR ''='' \<notin> set ?p)" using 1(3) by (auto simp: form_loop.simps [of key n form] Let_def split: if_splits)
  ultimately show ?case using decode_range_bound by blast
qed

lemma form_get_bound: "provisioning_form_get form key n = Inr v \<Longrightarrow> length v < n \<and> CHR 0x00 \<notin> set v"
  using form_loop_bound by (auto simp: provisioning_form_get_def split: if_splits)

lemma parse_accepted:
  assumes "provisioning_parse_config_request nonce request = Inr c"
  shows "provisioning_validate_phone_config nonce c = 0" "config_fits c"
proof -
  let ?f = "provisioning_form_get (provisioning_find_form_body request)"
  from assms obtain n i r s p where get: "?f ''n'' (RVT_PROV_NONCE_LEN + 1) = Inr n" "?f ''phone_id'' (RVT_PROVISIONING_PHONE_ID_MAX + 1) = Inr i"
      "?f ''phone_random'' (RVT_PROVISIONING_PHONE_RANDOM_MAX + 1) = Inr r" "?f ''ssid'' (RVT_PROV_SSID_MAX_LEN + 1) = Inr s" "?f ''psk'' 64 = Inr p"
    by (auto simp: provisioning_parse_config_request_def Let_def split: if_splits sum.splits)
  let ?a = "case ?f ''auth_type'' (RVT_PROVISIONING_AUTH_TYPE_MAX + 1) of Inl e \<Rightarrow> ''WPA2_PSK'' | Inr a \<Rightarrow> a"
  from assms get have c: "c = \<lparr>pc_nonce = n, pc_phone_id = i, pc_phone_random = r, pc_ssid = s, pc_password = p, pc_auth_type = ?a\<rparr>"
    and "provisioning_validate_phone_config nonce c = 0"
    by (auto simp: provisioning_parse_config_request_def Let_def split: if_splits)
  then show "provisioning_validate_phone_config nonce c = 0" by simp
  have "length ?a \<le> RVT_PROVISIONING_AUTH_TYPE_MAX \<and> CHR 0x00 \<notin> set ?a"
    using form_get_bound [of _ "''auth_type''" "RVT_PROVISIONING_AUTH_TYPE_MAX + 1"]
    by (fastforce simp: c_consts split: sum.splits)
  then show "config_fits c" using get [THEN form_get_bound] by (simp add: c config_fits_def)
qed

text \<open>
  C34. Safety of the configuration: whatever bytes arrive, a configuration that is accepted carries the nonce of the session, a network name of 1 to 32 and a
  password of 8 to 63 bytes without control characters, a phone identity, and every field fits its buffer.
\<close>

theorem accepted_config_safe:
  assumes "provisioning_receive_config nonce rxs = Inr c" "length nonce \<le> RVT_PROV_NONCE_LEN"
  shows "pc_nonce c = nonce \<and> length (pc_ssid c) \<in> {1..32} \<and> length (pc_password c) \<in> {8..63}
    \<and> provisioning_has_no_control_chars (pc_ssid c) \<and> provisioning_has_no_control_chars (pc_password c)
    \<and> pc_phone_id c \<noteq> [] \<and> pc_phone_random c \<noteq> [] \<and> config_fits c"
proof -
  obtain request where "provisioning_parse_config_request nonce request = Inr c"
    using assms(1) by (auto simp: provisioning_receive_config_def split: sum.splits if_splits)
  note acc = parse_accepted [OF this]
  have "length (pc_nonce c) \<le> RVT_PROV_NONCE_LEN" using acc(2) by (simp add: config_fits_def)
  with acc assms(2) show ?thesis
    by (cases "pc_ssid c") (auto simp: provisioning_validate_phone_config_def c_consts EACCES_def EINVAL_def split: if_splits)
qed

theorem accepted_config_safe_witness:
  "provisioning_receive_config ''ABCDEFGHIJKL'' [Rx_data (render_config sample_config)] = Inr sample_config \<and> pc_nonce sample_config = ''ABCDEFGHIJKL''"
proof -
  have "provisioning_receive_config ''ABCDEFGHIJKL'' [Rx_data (render_config sample_config)] = Inr sample_config" by code_simp
  with accepted_config_safe [of "''ABCDEFGHIJKL''" "[Rx_data (render_config sample_config)]" sample_config] show ?thesis by (simp add: c_consts)
qed

section \<open>Web requests\<close>

lemma form_get_empty: "provisioning_form_get [] key n = Inl (if n = 0 then - EINVAL else - ENOENT)"
  by (simp add: provisioning_form_get_def form_loop.simps)

text \<open>
  A request whose header block arrives without a body behind it is refused: a complete \<^verbatim>\<open>GET\<close> request never reaches the branch that reads its query, and a
  \<^verbatim>\<open>POST\<close> whose body comes in a later segment is judged on the headers alone, whatever follows.
\<close>

lemma header_block_rejected:
  assumes "strstr (h @ [CHR 0x0D, CHR 0x0A, CHR 0x0D, CHR 0x0A]) [CHR 0x0D, CHR 0x0A, CHR 0x0D, CHR 0x0A] = Some (length h)"
    "length h + 4 \<le> RVT_PROVISIONING_CONFIG_RX_MAX" "CHR 0x00 \<notin> set h"
  shows "provisioning_receive_config nonce (Rx_data (h @ [CHR 0x0D, CHR 0x0A, CHR 0x0D, CHR 0x0A]) # later) = Inl (- EINVAL)"
proof -
  let ?q = "h @ [CHR 0x0D, CHR 0x0A, CHR 0x0D, CHR 0x0A]"
  have nul: "cstr ?q = ?q" using assms(3) by (auto simp: cstr_def takeWhile_eq_all_conv)
  have "receive_loop (Rx_data ?q # later) [] = Inr ?q"
    using assms(2) nul by (simp add: receive_loop.simps c_consts)
  moreover have "provisioning_find_form_body ?q = []" using assms(1) by (simp add: provisioning_find_form_body_def)
  ultimately show ?thesis by (simp add: provisioning_receive_config_def nul provisioning_parse_config_request_def form_get_empty)
qed

end
