(* ===== verification/Provisioning_Session.thy ===== *)
theory Provisioning_Session
  imports Provisioning_Form
begin

text \<open>
  A Wi-Fi provisioning session (\<^verbatim>\<open>provisioning_service/src/rvt_provisioning_service.c\<close>): the globals of the service and the two files it keeps as one record,
  the calls of the user interface, and the worker task as a machine whose steps are the pieces of \<^verbatim>\<open>rvt_provisioning_softap_task_main\<close>: a check whether the
  session was stopped is a step of its own, apart from the call or the assignments behind it, so that a stop can fall between them or into a call that takes long
  (writing the file, taking down the access point, the connection). Any number of workers may be alive, since a stopped one only notices at its next check. The Wi-Fi driver, the sockets and the flash are arguments.
\<close>

definition RVT_PROVISIONING_QR_TTL_SECONDS :: int where [c_consts]: "RVT_PROVISIONING_QR_TTL_SECONDS = 120"
definition RVT_PROVISIONING_CONNECTING_UI_TTL_SECONDS :: int where [c_consts]: "RVT_PROVISIONING_CONNECTING_UI_TTL_SECONDS = 90"
definition RVT_PROVISIONING_SUCCESS_UI_TTL_SECONDS :: int where [c_consts]: "RVT_PROVISIONING_SUCCESS_UI_TTL_SECONDS = 2"
definition RVT_PROVISIONING_FAILURE_UI_TTL_SECONDS :: int where [c_consts]: "RVT_PROVISIONING_FAILURE_UI_TTL_SECONDS = 5"
definition RVT_PROVISIONING_WAIT_STEP_MS :: int where [c_consts]: "RVT_PROVISIONING_WAIT_STEP_MS = 500"
definition RVT_PROVISIONING_QR_PAYLOAD_MAX_LEN :: nat where [c_consts]: "RVT_PROVISIONING_QR_PAYLOAD_MAX_LEN = 256"

section \<open>State\<close>

datatype prov_state = RVT_PROVISIONING_STATE_IDLE | RVT_PROVISIONING_STATE_STARTING | RVT_PROVISIONING_STATE_WAITING_APP
  | RVT_PROVISIONING_STATE_CONNECTING | RVT_PROVISIONING_STATE_CONNECTED | RVT_PROVISIONING_STATE_FAILED | RVT_PROVISIONING_STATE_STOPPED

datatype prov_event = RVT_PROVISIONING_EVENT_QR_SHOW | RVT_PROVISIONING_EVENT_QR_HIDE | RVT_PROVISIONING_EVENT_CONNECTING
  | RVT_PROVISIONING_EVENT_CONNECTED | RVT_PROVISIONING_EVENT_FAILED | RVT_PROVISIONING_EVENT_STOPPED

datatype prov_type = RVT_PROVISIONING_TYPE_WIFI | RVT_PROVISIONING_TYPE_BLUETOOTH | Other_type int

datatype network_status = RVT_PROVISIONING_NETWORK_STATUS_UNPROVISIONED | RVT_PROVISIONING_NETWORK_STATUS_PROVISIONED_UNAVAILABLE

record prov_session =
  ps_state :: prov_state
  ps_ap_ssid :: string
  ps_ap_password :: string
  ps_nonce :: string
  ps_peer_phone_id :: string
  ps_peer_addr :: string
  ps_ip :: string
  ps_port :: int
  ps_qr_payload :: string
  ps_ttl_seconds :: int
  ps_result :: int
  ps_running :: bool

definition zero_session :: prov_session where
  "zero_session = \<lparr>ps_state = RVT_PROVISIONING_STATE_IDLE, ps_ap_ssid = [], ps_ap_password = [], ps_nonce = [], ps_peer_phone_id = [],
     ps_peer_addr = [], ps_ip = [], ps_port = 0, ps_qr_payload = [], ps_ttl_seconds = 0, ps_result = 0, ps_running = False\<rparr>"

text \<open>A callback is known by a number; what was announced to it and to the hooks, and what was sent to the phones, is recorded.\<close>

record prov =
  g_softap_running :: bool
  g_stop_requested :: bool
  g_session_id :: u32
  g_session :: prov_session
  g_event_cb :: "nat option"
  g_network_status_cb :: "nat option"
  g_provisioned_cache_valid :: bool
  g_provisioned_cache :: bool
  flag_file :: bool
  wapi_file :: "string option"
  events :: "(prov_event \<times> prov_session \<times> nat option) list"
  net_events :: "(network_status \<times> nat option) list"
  responses :: "string list"

text \<open>How the flash behaves during one call: the opening, the first write that fails and how much of it is stored, the removals.\<close>

record prov_io =
  io_open :: bool
  io_fail :: "nat option"
  io_short :: nat
  io_unlink_flag :: bool
  io_unlink_wapi :: bool

section \<open>The flag of a provisioned device\<close>

definition provisioning_read_provisioned_flag :: "prov \<Rightarrow> bool \<times> prov" where
  "provisioning_read_provisioned_flag g =
     (if g_provisioned_cache_valid g then (g_provisioned_cache g, g)
      else if flag_file g then (True, g\<lparr>g_provisioned_cache_valid := True, g_provisioned_cache := True\<rparr>)
      else (False, g))"

definition flag_write :: "prov_io \<Rightarrow> prov \<Rightarrow> int \<times> prov" where
  "flag_write io g =
     (if \<not> io_open io then (- EIO, g)
      else (if io_fail io = None then 0 else - EIO, g\<lparr>flag_file := True\<rparr>))"

definition flag_clear :: "prov_io \<Rightarrow> prov \<Rightarrow> int \<times> prov" where
  "flag_clear io g =
     (let bad1 = flag_file g \<and> \<not> io_unlink_flag io;
          bad2 = wapi_file g \<noteq> None \<and> \<not> io_unlink_wapi io
      in (if bad1 \<or> bad2 then - EIO else 0,
          g\<lparr>flag_file := bad1, wapi_file := (if bad2 then wapi_file g else None)\<rparr>))"

definition provisioning_write_provisioned_flag :: "prov_io \<Rightarrow> bool \<Rightarrow> prov \<Rightarrow> int \<times> prov" where
  "provisioning_write_provisioned_flag io provisioned g =
     (let (ret, g1) = (if provisioned then flag_write io g else flag_clear io g)
      in (ret, g1\<lparr>g_provisioned_cache_valid := True, g_provisioned_cache := provisioned\<rparr>))"

definition provisioning_mark_success :: "prov_io \<Rightarrow> prov \<Rightarrow> prov" where
  "provisioning_mark_success io g = snd (provisioning_write_provisioned_flag io True g)"

section \<open>The saved network\<close>

definition hex_lower :: "nat \<Rightarrow> char" where
  "hex_lower n = ''0123456789abcdef'' ! n"

definition json_escape :: "char \<Rightarrow> string" where
  "json_escape c =
     (if c = CHR 0x22 \<or> c = CHR 0x5C then [CHR 0x5C, c]
      else if (of_char c :: nat) < 32 then [CHR 0x5C] @ ''u00'' @ [hex_lower (of_char c div 16), hex_lower (of_char c mod 16)]
      else [c])"

text \<open>The writes of \<^verbatim>\<open>provisioning_write_json_string\<close>, and a sequence of writes up to the first that fails.\<close>

definition provisioning_write_json_string :: "string \<Rightarrow> string list" where
  "provisioning_write_json_string v = [[CHR 0x22]] @ map json_escape (cstr v) @ [[CHR 0x22]]"

fun write_chunks :: "nat option \<Rightarrow> nat \<Rightarrow> string list \<Rightarrow> string \<Rightarrow> int \<times> string" where
  "write_chunks failing short [] out = (0, out)"
| "write_chunks failing short (c # cs) out =
     (case failing of
        None \<Rightarrow> write_chunks None short cs (out @ c)
      | Some 0 \<Rightarrow> (- EIO, out @ take (min short (length c - 1)) c)
      | Some (Suc n) \<Rightarrow> write_chunks (Some n) short cs (out @ c))"

abbreviation (input) "quote_in s \<equiv> concat (map (\<lambda>c. if c = CHR ''|'' then [CHR 0x22] else [c]) s)"

definition wapi_prefix :: string where
  "wapi_prefix = quote_in ''{|wlan0|:{|mode|:2,|auth|:4,|cmode|:8,|alg|:3,|ssid|:''"

definition wapi_middle :: string where
  "wapi_middle = quote_in '',|bssid|:||,|psk|:''"

definition wapi_chunks :: "phone_config \<Rightarrow> string list" where
  "wapi_chunks config = [wapi_prefix] @ provisioning_write_json_string (pc_ssid config) @ [wapi_middle]
     @ provisioning_write_json_string (pc_password config) @ [''}}'' @ [CHR 0x0A]]"

definition provisioning_save_wapi_config :: "prov_io \<Rightarrow> phone_config \<Rightarrow> prov \<Rightarrow> int \<times> prov" where
  "provisioning_save_wapi_config io config g =
     (if pc_ssid config = [] \<or> pc_password config = [] then (- EINVAL, g)
      else if \<not> io_open io then (- EIO, g)
      else (let (ret, content) = write_chunks (io_fail io) (io_short io) (wapi_chunks config) [] in
            (ret, g\<lparr>wapi_file := (if ret < 0 \<and> io_unlink_wapi io then None else Some content)\<rparr>)))"

section \<open>Announcements\<close>

definition provisioning_notify :: "prov_event \<Rightarrow> prov \<Rightarrow> prov" where
  "provisioning_notify event g = g\<lparr>events := events g @ [(event, g_session g, g_event_cb g)]\<rparr>"

definition provisioning_mask_id :: "string \<Rightarrow> nat \<Rightarrow> string option" where
  "provisioning_mask_id value out_len =
     (if out_len = 0 then None
      else if value = [] then Some (cstr_copy out_len ''-'')
      else if length value \<le> 8 then Some (cstr_copy out_len value)
      else Some (cstr_copy out_len (take 4 value @ ''...'' @ drop (length value - 4) value)))"

definition provisioning_build_softap_qr_payload :: "prov_session \<Rightarrow> prov_session" where
  "provisioning_build_softap_qr_payload s =
     s\<lparr>ps_qr_payload := cstr_copy RVT_PROVISIONING_QR_PAYLOAD_MAX_LEN
        (''rvt://wifi-pair?v=3&m=ap&nt=hotspot&ssid='' @ ps_ap_ssid s @ ''&psk='' @ ps_ap_password s @ ''&ip='' @ ps_ip s
         @ ''&port='' @ show_int (ps_port s) @ ''&n='' @ ps_nonce s @ ''&exp='' @ show_int (ps_ttl_seconds s))\<rparr>"

definition provisioning_send_config_response :: "string \<Rightarrow> int \<Rightarrow> prov \<Rightarrow> prov" where
  "provisioning_send_config_response status code g =
     g\<lparr>responses := responses g @ [cstr_copy 64 (''status='' @ status @ ''&code='' @ show_int code @ [CHR 0x0A])]\<rparr>"

definition provisioning_format_peer_addr :: "string \<Rightarrow> nat \<Rightarrow> string" where
  "provisioning_format_peer_addr ip port = cstr_copy 48 (ip @ '':'' @ show_nat port)"

text \<open>The socket calls of the server: the error of each that fails.\<close>

definition provisioning_create_config_server :: "int option \<Rightarrow> int option \<Rightarrow> int option \<Rightarrow> int option" where
  "provisioning_create_config_server sock bind_err listen_err =
     (case sock of Some e \<Rightarrow> Some (- e)
      | None \<Rightarrow> (case bind_err of Some e \<Rightarrow> Some (- e)
      | None \<Rightarrow> (case listen_err of Some e \<Rightarrow> Some (- e) | None \<Rightarrow> None)))"

text \<open>Taking down the access point: whether the driver is called was decided before; its answer comes at the end.\<close>

definition softap_down :: "bool \<Rightarrow> int \<Rightarrow> prov \<Rightarrow> int \<times> prov" where
  "softap_down called stop_ret g = (if called then stop_ret else 0, g\<lparr>g_softap_running := False\<rparr>)"

definition rvt_provisioning_stop_softap_direct :: "int \<Rightarrow> prov \<Rightarrow> int \<times> prov" where
  "rvt_provisioning_stop_softap_direct stop_ret g = softap_down (g_softap_running g) stop_ret g"

text \<open>The four assignments and the announcement that end a session without success.\<close>

definition session_failed :: "int \<Rightarrow> prov \<Rightarrow> prov" where
  "session_failed ret g = provisioning_notify RVT_PROVISIONING_EVENT_FAILED
     (g\<lparr>g_session := (g_session g)\<lparr>ps_result := ret, ps_running := False, ps_state := RVT_PROVISIONING_STATE_FAILED,
        ps_ttl_seconds := RVT_PROVISIONING_FAILURE_UI_TTL_SECONDS\<rparr>\<rparr>)"

section \<open>The worker\<close>

text \<open>What the wait for a phone gives.\<close>

datatype wait_event = Wait_error int | Wait_none | Accept_error int | Client string nat "rx list"

datatype wpc = W_init | W_loop int int | W_select int int | W_end int | W_waited "int + phone_config"
  | W_announce phone_config | W_connecting phone_config | W_saving phone_config | W_saved phone_config int
  | W_softap phone_config int | W_softap_down phone_config int bool | W_stopped phone_config | W_submitting phone_config
  | W_submitted phone_config | W_ready phone_config | W_confirmed phone_config int | W_finish phone_config int
  | W_giveup int | W_giveup_down int bool | W_failing int | W_exit int

record worker =
  w_sid :: u32
  w_timeout :: int
  w_pc :: wpc

record work_in =
  wi_sock :: "int option"
  wi_bind :: "int option"
  wi_listen :: "int option"
  wi_wait :: wait_event
  wi_softap :: int
  wi_io :: prov_io
  wi_submit :: int
  wi_ready :: bool

definition cancelled :: "prov \<Rightarrow> worker \<Rightarrow> bool" where
  "cancelled g w \<longleftrightarrow> g_stop_requested g \<or> w_sid w \<noteq> g_session_id g"

definition work_init :: "work_in \<Rightarrow> prov \<Rightarrow> worker \<Rightarrow> prov \<times> worker" where
  "work_init i g w =
     (g, \<lparr>w_sid = g_session_id g, w_timeout = ps_ttl_seconds (g_session g) * 1000,
          w_pc = (case provisioning_create_config_server (wi_sock i) (wi_bind i) (wi_listen i) of
                    Some e \<Rightarrow> W_waited (Inl e) | None \<Rightarrow> W_loop 0 (- ETIMEDOUT))\<rparr>)"

definition work_loop :: "int \<Rightarrow> int \<Rightarrow> prov \<Rightarrow> worker \<Rightarrow> prov \<times> worker" where
  "work_loop elapsed ret g w =
     (g, w\<lparr>w_pc := (if \<not> cancelled g w \<and> elapsed < w_timeout w then W_select elapsed ret else W_end ret)\<rparr>)"

text \<open>A request is judged with the nonce the session has when its last byte is in.\<close>

definition work_select :: "work_in \<Rightarrow> int \<Rightarrow> int \<Rightarrow> prov \<Rightarrow> worker \<Rightarrow> prov \<times> worker" where
  "work_select i elapsed ret g w =
     (case wi_wait i of
        Wait_error e \<Rightarrow> (g, w\<lparr>w_pc := W_end (- e)\<rparr>)
      | Wait_none \<Rightarrow> (g, w\<lparr>w_pc := W_loop (elapsed + RVT_PROVISIONING_WAIT_STEP_MS) 0\<rparr>)
      | Accept_error e \<Rightarrow> (g, w\<lparr>w_pc := W_loop elapsed (- e)\<rparr>)
      | Client ip port rxs \<Rightarrow>
          (case provisioning_receive_config (ps_nonce (g_session g)) rxs of
             Inr config \<Rightarrow>
               (provisioning_send_config_response ''accepted'' 0
                  (g\<lparr>g_session := (g_session g)\<lparr>ps_peer_phone_id := cstr_copy 65 (pc_phone_id config),
                     ps_peer_addr := provisioning_format_peer_addr ip port\<rparr>\<rparr>),
                w\<lparr>w_pc := W_waited (Inr config)\<rparr>)
           | Inl e \<Rightarrow> (provisioning_send_config_response ''error'' (- e) g, w\<lparr>w_pc := W_loop elapsed e\<rparr>)))"

definition work_end :: "int \<Rightarrow> prov \<Rightarrow> worker \<Rightarrow> prov \<times> worker" where
  "work_end ret g w =
     (g, w\<lparr>w_pc := W_waited (Inl (if cancelled g w then - ECANCELED else if ret < 0 then ret else - ETIMEDOUT))\<rparr>)"

text \<open>The check after the wait, and the announcement that a configuration was received.\<close>

definition work_waited :: "int + phone_config \<Rightarrow> prov \<Rightarrow> worker \<Rightarrow> prov \<times> worker" where
  "work_waited r g w =
     (g, w\<lparr>w_pc := (if r = Inl (- ECANCELED) \<or> cancelled g w then W_exit 0
                    else case r of Inr config \<Rightarrow> W_announce config | Inl e \<Rightarrow> W_giveup e)\<rparr>)"

definition work_announce :: "phone_config \<Rightarrow> prov \<Rightarrow> worker \<Rightarrow> prov \<times> worker" where
  "work_announce config g w =
     (provisioning_notify RVT_PROVISIONING_EVENT_CONNECTING
        (g\<lparr>g_session := (g_session g)\<lparr>ps_state := RVT_PROVISIONING_STATE_CONNECTING, ps_result := 0,
           ps_ttl_seconds := RVT_PROVISIONING_CONNECTING_UI_TTL_SECONDS\<rparr>\<rparr>),
      w\<lparr>w_pc := W_connecting config\<rparr>)"

text \<open>\<^verbatim>\<open>provisioning_save_phone_hotspot\<close>: its check and its writing; then the check of the caller.\<close>

definition work_connecting :: "phone_config \<Rightarrow> prov \<Rightarrow> worker \<Rightarrow> prov \<times> worker" where
  "work_connecting config g w = (g, w\<lparr>w_pc := (if cancelled g w then W_saved config (- ECANCELED) else W_saving config)\<rparr>)"

definition work_saving :: "work_in \<Rightarrow> phone_config \<Rightarrow> prov \<Rightarrow> worker \<Rightarrow> prov \<times> worker" where
  "work_saving i config g w =
     (let (ret, g1) = provisioning_save_wapi_config (wi_io i) config g in (g1, w\<lparr>w_pc := W_saved config ret\<rparr>))"

definition work_saved :: "phone_config \<Rightarrow> int \<Rightarrow> prov \<Rightarrow> worker \<Rightarrow> prov \<times> worker" where
  "work_saved config ret g w =
     (g, w\<lparr>w_pc := (if ret = - ECANCELED \<or> cancelled g w then W_exit 0 else W_softap config ret)\<rparr>)"

definition work_softap :: "phone_config \<Rightarrow> int \<Rightarrow> prov \<Rightarrow> worker \<Rightarrow> prov \<times> worker" where
  "work_softap config ret g w = (g, w\<lparr>w_pc := W_softap_down config ret (g_softap_running g)\<rparr>)"

definition work_softap_down :: "work_in \<Rightarrow> phone_config \<Rightarrow> int \<Rightarrow> bool \<Rightarrow> prov \<Rightarrow> worker \<Rightarrow> prov \<times> worker" where
  "work_softap_down i config ret called g w =
     (let (stop_ret, g1) = softap_down called (wi_softap i) g; ret1 = (if ret = 0 then stop_ret else ret)
      in (g1, w\<lparr>w_pc := (if ret1 = 0 then W_stopped config else W_failing ret1)\<rparr>))"

text \<open>\<^verbatim>\<open>provisioning_request_phone_hotspot_connect\<close>: its check, and the connection, which takes up to two minutes.\<close>

definition work_stopped :: "phone_config \<Rightarrow> prov \<Rightarrow> worker \<Rightarrow> prov \<times> worker" where
  "work_stopped config g w = (g, w\<lparr>w_pc := (if cancelled g w then W_failing (- ECANCELED) else W_submitting config)\<rparr>)"

definition work_submitting :: "work_in \<Rightarrow> phone_config \<Rightarrow> prov \<Rightarrow> worker \<Rightarrow> prov \<times> worker" where
  "work_submitting i config g w = (g, w\<lparr>w_pc := (if wi_submit i = 0 then W_submitted config else W_failing (wi_submit i))\<rparr>)"

text \<open>\<^verbatim>\<open>provisioning_confirm_wifi_ready\<close>: its check and the question to the driver; then the check of the caller.\<close>

definition work_submitted :: "phone_config \<Rightarrow> prov \<Rightarrow> worker \<Rightarrow> prov \<times> worker" where
  "work_submitted config g w = (g, w\<lparr>w_pc := (if cancelled g w then W_confirmed config (- ECANCELED) else W_ready config)\<rparr>)"

definition work_ready :: "work_in \<Rightarrow> phone_config \<Rightarrow> prov \<Rightarrow> worker \<Rightarrow> prov \<times> worker" where
  "work_ready i config g w = (g, w\<lparr>w_pc := W_confirmed config (if wi_ready i then 0 else - ENETDOWN)\<rparr>)"

definition work_confirmed :: "phone_config \<Rightarrow> int \<Rightarrow> prov \<Rightarrow> worker \<Rightarrow> prov \<times> worker" where
  "work_confirmed config ret g w =
     (g, w\<lparr>w_pc := (if ret = - ECANCELED \<or> cancelled g w then W_exit 0 else W_finish config ret)\<rparr>)"

definition session_connected :: "prov_io \<Rightarrow> prov \<Rightarrow> prov" where
  "session_connected io g = provisioning_notify RVT_PROVISIONING_EVENT_CONNECTED (provisioning_mark_success io
     (g\<lparr>g_session := (g_session g)\<lparr>ps_state := RVT_PROVISIONING_STATE_CONNECTED, ps_result := 0, ps_running := False,
        ps_ttl_seconds := RVT_PROVISIONING_SUCCESS_UI_TTL_SECONDS\<rparr>\<rparr>))"

definition work_finish :: "work_in \<Rightarrow> int \<Rightarrow> prov \<Rightarrow> worker \<Rightarrow> prov \<times> worker" where
  "work_finish i ret g w =
     (if ret = 0 then (session_connected (wi_io i) g, w\<lparr>w_pc := W_exit 0\<rparr>) else (g, w\<lparr>w_pc := W_failing ret\<rparr>))"

text \<open>Without a configuration the access point is taken down and the session fails.\<close>

definition work_giveup :: "int \<Rightarrow> prov \<Rightarrow> worker \<Rightarrow> prov \<times> worker" where
  "work_giveup ret g w = (g, w\<lparr>w_pc := W_giveup_down ret (g_softap_running g)\<rparr>)"

definition work_giveup_down :: "work_in \<Rightarrow> int \<Rightarrow> bool \<Rightarrow> prov \<Rightarrow> worker \<Rightarrow> prov \<times> worker" where
  "work_giveup_down i ret called g w = (snd (softap_down called (wi_softap i) g), w\<lparr>w_pc := W_failing ret\<rparr>)"

definition work_failing :: "int \<Rightarrow> prov \<Rightarrow> worker \<Rightarrow> prov \<times> worker" where
  "work_failing ret g w = (session_failed ret g, w\<lparr>w_pc := W_exit 1\<rparr>)"

definition rvt_provisioning_softap_task_main :: "work_in \<Rightarrow> prov \<Rightarrow> worker \<Rightarrow> prov \<times> worker" where
  "rvt_provisioning_softap_task_main i g w =
     (case w_pc w of
        W_init \<Rightarrow> work_init i g w
      | W_loop elapsed ret \<Rightarrow> work_loop elapsed ret g w
      | W_select elapsed ret \<Rightarrow> work_select i elapsed ret g w
      | W_end ret \<Rightarrow> work_end ret g w
      | W_waited r \<Rightarrow> work_waited r g w
      | W_announce config \<Rightarrow> work_announce config g w
      | W_connecting config \<Rightarrow> work_connecting config g w
      | W_saving config \<Rightarrow> work_saving i config g w
      | W_saved config ret \<Rightarrow> work_saved config ret g w
      | W_softap config ret \<Rightarrow> work_softap config ret g w
      | W_softap_down config ret called \<Rightarrow> work_softap_down i config ret called g w
      | W_stopped config \<Rightarrow> work_stopped config g w
      | W_submitting config \<Rightarrow> work_submitting i config g w
      | W_submitted config \<Rightarrow> work_submitted config g w
      | W_ready config \<Rightarrow> work_ready i config g w
      | W_confirmed config ret \<Rightarrow> work_confirmed config ret g w
      | W_finish config ret \<Rightarrow> work_finish i ret g w
      | W_giveup ret \<Rightarrow> work_giveup ret g w
      | W_giveup_down ret called \<Rightarrow> work_giveup_down i ret called g w
      | W_failing ret \<Rightarrow> work_failing ret g w
      | W_exit code \<Rightarrow> (g, w))"

section \<open>The calls of the user interface\<close>

text \<open>What the driver and the scheduler answer to one start.\<close>

record start_in =
  si_rand1 :: "u8 list"
  si_rand2 :: "u8 list"
  si_rand3 :: "u8 list"
  si_start :: int
  si_ip :: "int + string"
  si_task :: "int option"
  si_stop :: int

definition start_session :: "softap_config \<Rightarrow> prov \<Rightarrow> prov" where
  "start_session config g =
     g\<lparr>g_session := zero_session\<lparr>ps_state := RVT_PROVISIONING_STATE_STARTING, ps_ttl_seconds := RVT_PROVISIONING_QR_TTL_SECONDS, ps_running := True,
         ps_ap_ssid := cstr_copy 33 (ap_ssid config), ps_ap_password := cstr_copy 13 (ap_password config),
         ps_nonce := cstr_copy 13 (ap_nonce config), ps_port := ap_port config\<rparr>,
       g_stop_requested := False, g_session_id := g_session_id g + 1\<rparr>"

definition show_qr :: "string \<Rightarrow> prov \<Rightarrow> prov" where
  "show_qr ip g = provisioning_notify RVT_PROVISIONING_EVENT_QR_SHOW
     (g\<lparr>g_softap_running := True,
        g_session := (provisioning_build_softap_qr_payload ((g_session g)\<lparr>ps_ip := cstr_copy 16 ip\<rparr>))\<lparr>ps_state := RVT_PROVISIONING_STATE_WAITING_APP\<rparr>\<rparr>)"

text \<open>The result, the state and whether a worker was created.\<close>

definition rvt_provisioning_start_softap :: "start_in \<Rightarrow> prov \<Rightarrow> int \<times> prov \<times> bool" where
  "rvt_provisioning_start_softap i g =
     (case rvt_prov_generate_softap_config (si_rand1 i) (si_rand2 i) (si_rand3 i) of
        Inl e \<Rightarrow> (e, g, False)
      | Inr config \<Rightarrow>
          let g1 = start_session config g in
          if si_start i < 0 then (si_start i, session_failed (si_start i) g1, False)
          else let ip = (case si_ip i of Inl e \<Rightarrow> ap_ip config | Inr a \<Rightarrow> cstr_copy 16 a);
                   g2 = show_qr ip g1 in
               (case si_task i of
                  None \<Rightarrow> (0, g2, True)
                | Some err \<Rightarrow> let ret = (if err \<noteq> 0 then - err else - ECHILD) in
                    (ret, session_failed ret (snd (rvt_provisioning_stop_softap_direct (si_stop i) g2)), False)))"

definition rvt_provisioning_is_running :: "prov \<Rightarrow> bool" where
  "rvt_provisioning_is_running g \<longleftrightarrow> ps_running (g_session g) \<or> g_softap_running g"

definition rvt_provisioning_start :: "prov_type \<Rightarrow> start_in \<Rightarrow> prov \<Rightarrow> int \<times> prov \<times> bool" where
  "rvt_provisioning_start type i g =
     (if rvt_provisioning_is_running g then (- EALREADY, g, False)
      else (case type of
              RVT_PROVISIONING_TYPE_WIFI \<Rightarrow> rvt_provisioning_start_softap i g
            | RVT_PROVISIONING_TYPE_BLUETOOTH \<Rightarrow> (- ENOSYS, g, False)
            | Other_type _ \<Rightarrow> (- EINVAL, g, False)))"

text \<open>A stop first raises the flag, then waits for the access point to go down, then declares the session stopped.\<close>

definition stop_request :: "prov \<Rightarrow> prov" where
  "stop_request g = g\<lparr>g_stop_requested := True, g_session_id := g_session_id g + 1\<rparr>"

definition stop_finish :: "bool \<Rightarrow> int \<Rightarrow> prov \<Rightarrow> int \<times> prov" where
  "stop_finish called stop_ret g =
     (let (ret, g1) = softap_down called stop_ret g
      in (ret, provisioning_notify RVT_PROVISIONING_EVENT_QR_HIDE (provisioning_notify RVT_PROVISIONING_EVENT_STOPPED
            (g1\<lparr>g_session := (g_session g1)\<lparr>ps_state := RVT_PROVISIONING_STATE_STOPPED, ps_result := ret, ps_running := False\<rparr>\<rparr>))))"

definition rvt_provisioning_stop :: "int \<Rightarrow> prov \<Rightarrow> int \<times> prov" where
  "rvt_provisioning_stop stop_ret g = stop_finish (g_softap_running g) stop_ret (stop_request g)"

definition rvt_provisioning_get_session :: "prov \<Rightarrow> int \<times> prov_session" where
  "rvt_provisioning_get_session g = (0, g_session g)"

definition rvt_provisioning_set_event_callback :: "nat option \<Rightarrow> prov \<Rightarrow> int \<times> prov" where
  "rvt_provisioning_set_event_callback cb g = (0, g\<lparr>g_event_cb := cb\<rparr>)"

definition rvt_provisioning_has_provisioned :: "prov \<Rightarrow> bool \<times> prov" where
  "rvt_provisioning_has_provisioned g = provisioning_read_provisioned_flag g"

definition rvt_provisioning_set_provisioned :: "prov_io \<Rightarrow> int \<Rightarrow> prov \<Rightarrow> int \<times> prov" where
  "rvt_provisioning_set_provisioned io provisioned g = provisioning_write_provisioned_flag io (provisioned \<noteq> 0) g"

definition rvt_provisioning_get_network_status :: "prov \<Rightarrow> network_status \<times> prov" where
  "rvt_provisioning_get_network_status g =
     (let (provisioned, g1) = provisioning_read_provisioned_flag g
      in (if provisioned then RVT_PROVISIONING_NETWORK_STATUS_PROVISIONED_UNAVAILABLE
          else RVT_PROVISIONING_NETWORK_STATUS_UNPROVISIONED, g1))"

definition rvt_provisioning_set_network_status_callback :: "nat option \<Rightarrow> prov \<Rightarrow> int \<times> prov" where
  "rvt_provisioning_set_network_status_callback cb g = (0, g\<lparr>g_network_status_cb := cb\<rparr>)"

definition rvt_provisioning_notify_network_unavailable :: "prov \<Rightarrow> int \<times> prov" where
  "rvt_provisioning_notify_network_unavailable g =
     (let (status, g1) = rvt_provisioning_get_network_status g
      in (0, g1\<lparr>net_events := net_events g1 @ [(status, g_network_status_cb g)]\<rparr>))"

section \<open>The system\<close>

datatype prov_action = Start prov_type start_in | Stop int | Work nat work_in | Set_provisioned prov_io int

fun prov_do :: "prov_action \<Rightarrow> prov \<times> worker list \<Rightarrow> prov \<times> worker list" where
  "prov_do (Start type i) (g, ws) =
     (let (ret, g1, created) = rvt_provisioning_start type i g
      in (g1, if created then ws @ [\<lparr>w_sid = 0, w_timeout = 0, w_pc = W_init\<rparr>] else ws))"
| "prov_do (Stop r) (g, ws) = (snd (rvt_provisioning_stop r g), ws)"
| "prov_do (Work k i) (g, ws) =
     (if k < length ws then let (g1, w1) = rvt_provisioning_softap_task_main i g (ws ! k) in (g1, ws[k := w1]) else (g, ws))"
| "prov_do (Set_provisioned io v) (g, ws) = (snd (rvt_provisioning_set_provisioned io v g), ws)"

inductive prov_step :: "prov \<times> worker list \<Rightarrow> prov \<times> worker list \<Rightarrow> bool" where
  "prov_step s (prov_do a s)"

inductive prov_reachable :: "prov \<times> worker list \<Rightarrow> bool" where
  boot: "g_session g = zero_session \<Longrightarrow> \<not> g_softap_running g \<Longrightarrow> prov_reachable (g, [])"
| act: "prov_reachable s \<Longrightarrow> prov_step s t \<Longrightarrow> prov_reachable t"

lemmas worker_defs = rvt_provisioning_softap_task_main_def work_init_def work_loop_def work_select_def work_end_def work_waited_def
  work_announce_def work_connecting_def work_saving_def work_saved_def work_softap_def work_softap_down_def work_stopped_def work_submitting_def
  work_submitted_def work_ready_def work_confirmed_def work_finish_def work_giveup_def work_giveup_down_def work_failing_def

lemmas session_defs = session_failed_def session_connected_def provisioning_notify_def provisioning_send_config_response_def
  rvt_provisioning_stop_softap_direct_def softap_down_def provisioning_save_wapi_config_def
  provisioning_mark_success_def provisioning_write_provisioned_flag_def flag_write_def

lemmas stop_defs = rvt_provisioning_stop_def stop_finish_def stop_request_def

section \<open>A stopped session\<close>

text \<open>What the user sees of the service: everything but the notes on the last phone and the replies to it.\<close>

definition visible :: "prov \<Rightarrow> prov" where
  "visible g = g\<lparr>responses := [], g_session := (g_session g)\<lparr>ps_peer_phone_id := [], ps_peer_addr := []\<rparr>\<rparr>"

text \<open>
  A worker is past a check when it has found the session alive and has not yet finished what follows: an announcement, the writing of the file, the access point,
  the connection, the end of the session.
\<close>

fun past_check :: "wpc \<Rightarrow> bool" where
  "past_check (W_announce _) = True"
| "past_check (W_saving _) = True"
| "past_check (W_softap _ _) = True"
| "past_check (W_softap_down _ _ _) = True"
| "past_check (W_stopped _) = True"
| "past_check (W_submitting _) = True"
| "past_check (W_finish _ _) = True"
| "past_check (W_giveup _) = True"
| "past_check (W_giveup_down _ _) = True"
| "past_check (W_failing _) = True"
| "past_check _ = False"

fun submitting :: "wpc \<Rightarrow> bool" where
  "submitting (W_submitting _) = True"
| "submitting _ = False"

text \<open>One step of a worker after the flag is up: what it may still announce is used up by the announcement.\<close>

definition late :: "worker \<Rightarrow> nat" where
  "late w = (if past_check (w_pc w) then 1 else 0)"

lemma work_late:
  assumes "g_stop_requested g" "rvt_provisioning_softap_task_main i g w = (g1, w1)"
  shows "length (events g1) + late w1 \<le> length (events g) + late w" "g_stop_requested g1"
    "ps_running (g_session g1) \<Longrightarrow> ps_running (g_session g)" "g_softap_running g1 \<Longrightarrow> g_softap_running g"
    "submitting (w_pc w1) \<Longrightarrow> submitting (w_pc w)"
proof -
  have c: "cancelled g w" using assms(1) by (simp add: cancelled_def)
  have "length (events g1) + late w1 \<le> length (events g) + late w \<and> g_stop_requested g1
    \<and> (ps_running (g_session g1) \<longrightarrow> ps_running (g_session g)) \<and> (g_softap_running g1 \<longrightarrow> g_softap_running g)
    \<and> (submitting (w_pc w1) \<longrightarrow> submitting (w_pc w))"
    using assms c
    by (cases "w_pc w") (auto simp: worker_defs session_defs late_def Let_def split: wait_event.splits sum.splits option.splits prod.splits if_splits)
  then show "length (events g1) + late w1 \<le> length (events g) + late w" "g_stop_requested g1"
    "ps_running (g_session g1) \<Longrightarrow> ps_running (g_session g)" "g_softap_running g1 \<Longrightarrow> g_softap_running g"
    "submitting (w_pc w1) \<Longrightarrow> submitting (w_pc w)" by auto
qed

lemma work_quiet:
  assumes "g_stop_requested g" "\<not> past_check (w_pc w)" "rvt_provisioning_softap_task_main i g w = (g1, w1)"
  shows "visible g1 = visible g" "\<not> past_check (w_pc w1)"
proof -
  have c: "cancelled g w" using assms(1) by (simp add: cancelled_def)
  have "visible g1 = visible g \<and> \<not> past_check (w_pc w1)"
  proof (cases "w_pc w")
    case (W_select e r)
    then show ?thesis using assms(3)
      by (auto simp: worker_defs visible_def provisioning_send_config_response_def split: wait_event.splits sum.splits)
  qed (use assms c in \<open>auto simp: worker_defs split: option.splits\<close>)
  then show "visible g1 = visible g" "\<not> past_check (w_pc w1)" by auto
qed

fun is_work :: "prov_action \<Rightarrow> bool" where
  "is_work (Work _ _) = True"
| "is_work _ = False"

lemma is_workE: "is_work a \<Longrightarrow> (\<And>k i. a = Work k i \<Longrightarrow> P) \<Longrightarrow> P"
  by (cases a) auto

lemma sum_list_late_update:
  assumes "k < length ws" "x + late w1 \<le> y + late (ws ! k)"
  shows "x + sum_list (map late (ws[k := w1])) \<le> y + sum_list (map late ws)"
proof -
  have "sum_list (map late ws) = sum_list (map late (take k ws)) + late (ws ! k) + sum_list (map late (drop (Suc k) ws))"
    using id_take_nth_drop [OF assms(1)] by (metis (no_types, lifting) add.assoc list.simps(9) map_append sum_list.Cons sum_list.append)
  moreover have "sum_list (map late (ws[k := w1])) = sum_list (map late (take k ws)) + late w1 + sum_list (map late (drop (Suc k) ws))"
    using assms(1) by (simp add: upd_conv_take_nth_drop)
  ultimately show ?thesis using assms(2) by simp
qed

lemma works_late:
  assumes "list_all is_work acts" "g_stop_requested g" "fold prov_do acts (g, ws) = (g2, ws2)"
  shows "length (events g2) + sum_list (map late ws2) \<le> length (events g) + sum_list (map late ws) \<and> g_stop_requested g2
    \<and> (ps_running (g_session g2) \<longrightarrow> ps_running (g_session g)) \<and> (g_softap_running g2 \<longrightarrow> g_softap_running g)
    \<and> length ws2 = length ws \<and> (\<forall>k < length ws. submitting (w_pc (ws2 ! k)) \<longrightarrow> submitting (w_pc (ws ! k)))"
  using assms
proof (induction acts arbitrary: g ws)
  case (Cons a acts)
  then obtain k i where a: "a = Work k i" by (auto elim: is_workE)
  show ?case
  proof (cases "k < length ws")
    case True
    obtain g1 w1 where t: "rvt_provisioning_softap_task_main i g (ws ! k) = (g1, w1)" by fastforce
    note st = work_late [OF Cons.prems(2) t]
    have rest: "fold prov_do acts (g1, ws[k := w1]) = (g2, ws2)" using Cons.prems(3) a True t by simp
    have up: "length (events g1) + sum_list (map late (ws[k := w1])) \<le> length (events g) + sum_list (map late ws)"
      by (rule sum_list_late_update [OF True st(1)])
    have sub: "submitting (w_pc (ws ! j))" if "j < length ws" "submitting (w_pc (ws[k := w1] ! j))" for j
      using that st(5) True by (cases "j = k") auto
    have "list_all is_work acts" using Cons.prems(1) by simp
    from Cons.IH [OF this st(2) rest] up st(3,4) sub show ?thesis by auto
  qed (use Cons a in simp)
qed simp

lemma works_quiet:
  assumes "list_all is_work acts" "g_stop_requested g" "list_all (\<lambda>w. \<not> past_check (w_pc w)) ws"
  shows "visible (fst (fold prov_do acts (g, ws))) = visible g"
  using assms
proof (induction acts arbitrary: g ws)
  case (Cons a acts)
  then obtain k i where a: "a = Work k i" by (auto elim: is_workE)
  show ?case
  proof (cases "k < length ws")
    case True
    obtain g1 w1 where t: "rvt_provisioning_softap_task_main i g (ws ! k) = (g1, w1)" by fastforce
    have n: "\<not> past_check (w_pc (ws ! k))" using Cons.prems(3) True by (simp add: list_all_length)
    note q = work_quiet [OF Cons.prems(2) n t] work_late(2) [OF Cons.prems(2) t]
    moreover have "list_all (\<lambda>w. \<not> past_check (w_pc w)) (ws[k := w1])"
      using Cons.prems(3) q(2) set_update_subset_insert [of ws k w1] by (auto simp: list_all_iff)
    ultimately show ?thesis using Cons.IH [of g1 "ws[k := w1]"] Cons.prems(1) a True t by simp
  qed (use Cons a in simp)
qed simp

lemma stop_finish_state:
  assumes "stop_finish called r g = (ret, g1)"
  shows "g_stop_requested g1 = g_stop_requested g" "ps_state (g_session g1) = RVT_PROVISIONING_STATE_STOPPED" "\<not> rvt_provisioning_is_running g1"
  using assms by (auto simp: stop_finish_def softap_down_def provisioning_notify_def rvt_provisioning_is_running_def)

lemma stop_state:
  "g_stop_requested (snd (rvt_provisioning_stop r g))"
  "ps_state (g_session (snd (rvt_provisioning_stop r g))) = RVT_PROVISIONING_STATE_STOPPED"
  "\<not> rvt_provisioning_is_running (snd (rvt_provisioning_stop r g))"
  by (simp_all add: stop_defs softap_down_def provisioning_notify_def rvt_provisioning_is_running_def)

lemma visible_fields:
  assumes "visible h = visible g"
  shows "ps_state (g_session h) = ps_state (g_session g)" "ps_running (g_session h) = ps_running (g_session g)"
    "g_softap_running h = g_softap_running g" "events h = events g" "wapi_file h = wapi_file g" "flag_file h = flag_file g"
proof -
  have "ps_state (g_session (visible h)) = ps_state (g_session (visible g))" "ps_running (g_session (visible h)) = ps_running (g_session (visible g))"
    "g_softap_running (visible h) = g_softap_running (visible g)" "events (visible h) = events (visible g)"
    "wapi_file (visible h) = wapi_file (visible g)" "flag_file (visible h) = flag_file (visible g)"
    by (simp_all only: assms)
  then show "ps_state (g_session h) = ps_state (g_session g)" "ps_running (g_session h) = ps_running (g_session g)"
    "g_softap_running h = g_softap_running g" "events h = events g" "wapi_file h = wapi_file g" "flag_file h = flag_file g"
    by (simp_all add: visible_def)
qed

lemma sum_list_late: "sum_list (map late ws) = length (filter (\<lambda>w. past_check (w_pc w)) ws)"
  by (induction ws) (auto simp: late_def)

text \<open>
  C32. A stop takes effect on every worker. The workers run on while the stop takes down the access point (\<open>acts0\<close>) and after it has returned (\<open>acts\<close>), with
  whatever phones, driver and flash answer. Once it has returned, the service is and stays not running with the access point down, no worker begins to ask for a
  connection, and there are at most as many further announcements as there were workers past one of their checks at that moment (one each: a worker caught
  between a check and the end of what follows it, such as the connection, which takes up to two minutes, still announces its result and may overwrite the
  state or finish writing the file). If there is none, as when the workers wait for a phone, nothing happens any more: the session stays stopped, nothing is
  announced and no file changes.
\<close>

theorem stop_is_final:
  assumes "fold prov_do acts0 (stop_request g, ws0) = (g0, ws)" "list_all is_work acts0" "stop_finish called r g0 = (ret, g1)"
    "fold prov_do acts (g1, ws) = (g2, ws2)" "list_all is_work acts"
  shows "\<not> rvt_provisioning_is_running g2 \<and> (\<forall>k < length ws. submitting (w_pc (ws2 ! k)) \<longrightarrow> submitting (w_pc (ws ! k)))
    \<and> length (events g2) \<le> length (events g1) + length (filter (\<lambda>w. past_check (w_pc w)) ws)
    \<and> (list_all (\<lambda>w. \<not> past_check (w_pc w)) ws \<longrightarrow>
        ps_state (g_session g2) = RVT_PROVISIONING_STATE_STOPPED \<and> events g2 = events g1 \<and> wapi_file g2 = wapi_file g1 \<and> flag_file g2 = flag_file g1)"
proof -
  have "g_stop_requested g0" using works_late [OF assms(2) _ assms(1)] by (simp add: stop_request_def)
  then have stopped: "g_stop_requested g1" using stop_finish_state(1) [OF assms(3)] by simp
  note late = works_late [OF assms(5) stopped assms(4)]
  have "visible g2 = visible g1" if "list_all (\<lambda>w. \<not> past_check (w_pc w)) ws"
    using works_quiet [OF assms(5) stopped that] assms(4) by simp
  with late visible_fields [of g2 g1] stop_finish_state(2,3) [OF assms(3)] show ?thesis
    by (auto simp: rvt_provisioning_is_running_def sum_list_late)
qed

section \<open>Who finishes a session\<close>

text \<open>A worker that will end the session: whatever comes, or unless it is cancelled.\<close>

fun ending_pc :: "wpc \<Rightarrow> bool" where
  "ending_pc (W_stopped _) = True"
| "ending_pc (W_finish _ _) = True"
| "ending_pc (W_failing _) = True"
| "ending_pc _ = False"

fun connecting_pc :: "wpc \<Rightarrow> bool" where
  "connecting_pc (W_submitting _) = True"
| "connecting_pc (W_submitted _) = True"
| "connecting_pc (W_ready _) = True"
| "connecting_pc (W_confirmed _ r) = (r \<noteq> - ECANCELED)"
| "connecting_pc _ = False"

definition in_charge :: "prov \<Rightarrow> worker \<Rightarrow> bool" where
  "in_charge g w \<longleftrightarrow> ending_pc (w_pc w) \<or> (\<not> cancelled g w \<and> connecting_pc (w_pc w))"

definition not_stranded :: "prov \<times> worker list \<Rightarrow> bool" where
  "not_stranded s \<longleftrightarrow> (ps_running (g_session (fst s)) \<longrightarrow> g_softap_running (fst s) \<or> list_ex (in_charge (fst s)) (snd s))"

lemma work_keeps_ids:
  "g_stop_requested (fst (rvt_provisioning_softap_task_main i g w)) = g_stop_requested g
   \<and> g_session_id (fst (rvt_provisioning_softap_task_main i g w)) = g_session_id g"
  by (cases "w_pc w")
    (auto simp: worker_defs session_defs Let_def split: wait_event.splits sum.splits option.splits prod.splits)

lemma work_outcome:
  assumes "rvt_provisioning_softap_task_main i g w = (g1, w1)"
  shows "\<not> ps_running (g_session g1) \<or> in_charge g1 w1
    \<or> (g_softap_running g1 = g_softap_running g \<and> ps_running (g_session g1) = ps_running (g_session g) \<and> \<not> in_charge g w)"
  using assms
  by (cases "w_pc w")
    (auto simp: worker_defs session_defs Let_def in_charge_def cancelled_def ECANCELED_def ENETDOWN_def split: wait_event.splits sum.splits option.splits prod.splits if_splits)

lemma work_not_stranded:
  assumes "not_stranded (g, ws)" "k < length ws" "rvt_provisioning_softap_task_main i g (ws ! k) = (g1, w1)"
  shows "not_stranded (g1, ws[k := w1])"
proof -
  have ids: "cancelled g1 w = cancelled g w" for w using work_keeps_ids [of i g "ws ! k"] assms(3) by (simp add: cancelled_def)
  from work_outcome [OF assms(3)] show ?thesis
  proof (elim disjE conjE)
    assume "in_charge g1 w1"
    then show ?thesis using assms(2) set_update_memI [of k ws w1] by (auto simp: not_stranded_def list_ex_iff)
  next
    assume o: "g_softap_running g1 = g_softap_running g" "ps_running (g_session g1) = ps_running (g_session g)" "\<not> in_charge g (ws ! k)"
    have "w \<in> set (ws[k := w1])" if w: "w \<in> set ws" "in_charge g w" for w
    proof -
      obtain j where "j < length ws" "w = ws ! j" using w(1) by (auto simp: in_set_conv_nth)
      moreover from this w(2) o(3) have "j \<noteq> k" by auto
      ultimately show ?thesis using nth_mem [of j "ws[k := w1]"] by simp
    qed
    with assms(1) o ids show ?thesis by (fastforce simp: not_stranded_def list_ex_iff in_charge_def)
  qed (simp add: not_stranded_def)
qed

lemma start_not_stranded:
  assumes "not_stranded (g, ws)" "rvt_provisioning_start type i g = (ret, g1, created)"
  shows "not_stranded (g1, ws @ us)"
proof -
  have "g1 = g \<or> \<not> ps_running (g_session g1) \<or> g_softap_running g1"
    using assms(2) by (auto simp: rvt_provisioning_start_def rvt_provisioning_start_softap_def session_failed_def provisioning_notify_def show_qr_def Let_def
        split: if_splits prov_type.splits sum.splits option.splits)
  with assms(1) show ?thesis by (auto simp: not_stranded_def)
qed

lemma do_not_stranded:
  assumes "not_stranded s"
  shows "not_stranded (prov_do a s)"
proof -
  obtain g ws where s: "s = (g, ws)" by fastforce
  show ?thesis
  proof (cases a)
    case (Start type i)
    obtain ret g1 created where st: "rvt_provisioning_start type i g = (ret, g1, created)" by (metis prod_cases3)
    show ?thesis using start_not_stranded [OF assms [unfolded s] st, of "[]"] start_not_stranded [OF assms [unfolded s] st] s Start st by simp
  next
    case (Stop r)
    then show ?thesis using stop_state(3) [of r g] s by (simp add: not_stranded_def rvt_provisioning_is_running_def)
  next
    case (Work k i)
    then show ?thesis using assms s work_not_stranded [of g ws k i] by (auto split: prod.splits)
  next
    case (Set_provisioned io v)
    then show ?thesis using assms s
      by (auto simp: not_stranded_def list_ex_iff in_charge_def cancelled_def rvt_provisioning_set_provisioned_def
          provisioning_write_provisioned_flag_def flag_write_def flag_clear_def Let_def split: prod.splits if_splits)
  qed
qed

text \<open>
  In every reachable state, under any interleaving of starts, stops and workers, a session that is marked as running has its access point up or a worker in
  charge of it that is about to finish it with success or failure: no session is left running with nobody to end it.
\<close>

theorem session_not_stranded:
  assumes "prov_reachable s"
  shows "not_stranded s"
  using assms
proof (induction rule: prov_reachable.induct)
  case (boot g)
  then show ?case by (simp add: not_stranded_def zero_session_def)
next
  case (act s t)
  from act(2) obtain a where "t = prov_do a s" by (auto simp only: prov_step.simps)
  with act(3) do_not_stranded show ?case by simp
qed

definition flash_ok :: prov_io where
  "flash_ok = \<lparr>io_open = True, io_fail = None, io_short = 0, io_unlink_flag = True, io_unlink_wapi = True\<rparr>"

definition boot_state :: prov where
  "boot_state = \<lparr>g_softap_running = False, g_stop_requested = False, g_session_id = 0, g_session = zero_session, g_event_cb = None,
     g_network_status_cb = None, g_provisioned_cache_valid = False, g_provisioned_cache = False, flag_file = False, wapi_file = None,
     events = [], net_events = [], responses = []\<rparr>"

definition good_start :: start_in where
  "good_start = \<lparr>si_rand1 = replicate 6 1, si_rand2 = replicate 12 2, si_rand3 = replicate 12 3, si_start = 0, si_ip = Inl (- ENOENT),
     si_task = None, si_stop = 0\<rparr>"

theorem session_not_stranded_witness: "not_stranded (prov_do (Start RVT_PROVISIONING_TYPE_WIFI good_start) (boot_state, []))"
proof (rule session_not_stranded, rule prov_reachable.act)
  show "prov_reachable (boot_state, [])" by (rule prov_reachable.boot) (simp_all add: boot_state_def)
qed (rule prov_step.intros)

section \<open>A session that succeeds\<close>

definition run_worker :: "work_in list \<Rightarrow> prov \<times> worker \<Rightarrow> prov \<times> worker" where
  "run_worker is s = fold (\<lambda>i (g, w). rvt_provisioning_softap_task_main i g w) is s"

lemma run_worker_simps [simp]:
  "run_worker [] s = s"
  "run_worker (i # is) (g, w) = run_worker is (rvt_provisioning_softap_task_main i g w)"
  "run_worker (is @ js) s = run_worker js (run_worker is s)"
  by (simp_all add: run_worker_def)

text \<open>Waiting: each empty wait of half a second costs the worker half a second of its time.\<close>

lemma run_idle:
  assumes "\<not> cancelled g w" "w_pc w = W_loop e r" "e + 500 * int n \<le> w_timeout w" "wi_wait i = Wait_none"
  shows "run_worker (concat (replicate n [i, i])) (g, w) = (g, w\<lparr>w_pc := W_loop (e + 500 * int n) (if n = 0 then r else 0)\<rparr>)"
  using assms
proof (induction n arbitrary: w e r)
  case 0
  then show ?case by (cases w) simp
next
  case (Suc n)
  have two: "run_worker [i, i] (g, w) = (g, w\<lparr>w_pc := W_loop (e + 500) 0\<rparr>)"
    using Suc.prems by (simp add: worker_defs c_consts cancelled_def)
  have "\<not> cancelled g (w\<lparr>w_pc := W_loop (e + 500) 0\<rparr>)" using Suc.prems(1) by (simp add: cancelled_def)
  note ih = Suc.IH [OF this, of "e + 500" 0]
  have cat: "concat (replicate (Suc n) [i, i]) = [i, i] @ concat (replicate n [i, i])" by simp
  show ?case unfolding cat run_worker_simps(3) two using ih Suc.prems by (simp add: algebra_simps)
qed

lemma write_chunks_all: "write_chunks None k cs out = (0, out @ concat cs)"
  by (induction cs arbitrary: out) auto

lemma save_good:
  assumes "pc_ssid c \<noteq> []" "pc_password c \<noteq> []" "io_open io" "io_fail io = None"
  shows "provisioning_save_wapi_config io c g = (0, g\<lparr>wapi_file := Some (concat (wapi_chunks c))\<rparr>)"
  using assms by (simp add: provisioning_save_wapi_config_def write_chunks_all)

text \<open>The state after each part of a run in which nothing fails.\<close>

definition took_config :: "phone_config \<Rightarrow> string \<Rightarrow> nat \<Rightarrow> prov \<Rightarrow> prov" where
  "took_config c ip port g = provisioning_send_config_response ''accepted'' 0
     (g\<lparr>g_session := (g_session g)\<lparr>ps_peer_phone_id := cstr_copy 65 (pc_phone_id c), ps_peer_addr := provisioning_format_peer_addr ip port\<rparr>\<rparr>)"

definition went_connecting :: "prov \<Rightarrow> prov" where
  "went_connecting g = provisioning_notify RVT_PROVISIONING_EVENT_CONNECTING
     (g\<lparr>g_session := (g_session g)\<lparr>ps_state := RVT_PROVISIONING_STATE_CONNECTING, ps_result := 0,
        ps_ttl_seconds := RVT_PROVISIONING_CONNECTING_UI_TTL_SECONDS\<rparr>\<rparr>)"

definition saved_config :: "phone_config \<Rightarrow> prov \<Rightarrow> prov" where
  "saved_config c g = g\<lparr>wapi_file := Some (concat (wapi_chunks c)), g_softap_running := False\<rparr>"

lemma show_zero: "show_int 0 = ''0''" by code_simp

lemma run_fields [simp]:
  "g_stop_requested (took_config c ip port g) = g_stop_requested g" "g_session_id (took_config c ip port g) = g_session_id g"
  "g_stop_requested (went_connecting g) = g_stop_requested g" "g_session_id (went_connecting g) = g_session_id g"
  "g_stop_requested (saved_config c g) = g_stop_requested g" "g_session_id (saved_config c g) = g_session_id g"
  "events (took_config c ip port g) = events g" "wapi_file (saved_config c g) = Some (concat (wapi_chunks c))"
  "map fst (events (went_connecting g)) = map fst (events g) @ [RVT_PROVISIONING_EVENT_CONNECTING]" "events (saved_config c g) = events g"
  "\<not> g_softap_running (saved_config c g)"
  "responses (took_config c ip port g) = responses g @ [''status=accepted&code=0'' @ [CHR 0x0A]]"
  "responses (went_connecting g) = responses g" "responses (saved_config c g) = responses g"
  by (simp_all add: took_config_def went_connecting_def saved_config_def provisioning_send_config_response_def provisioning_notify_def
      show_zero cstr_copy_def)

lemma connected_fields:
  assumes "io_open io" "io_fail io = None"
  shows "ps_state (g_session (session_connected io g)) = RVT_PROVISIONING_STATE_CONNECTED" "\<not> ps_running (g_session (session_connected io g))"
    "g_softap_running (session_connected io g) = g_softap_running g" "flag_file (session_connected io g)"
    "wapi_file (session_connected io g) = wapi_file g" "responses (session_connected io g) = responses g"
    "map fst (events (session_connected io g)) = map fst (events g) @ [RVT_PROVISIONING_EVENT_CONNECTED]"
  using assms by (simp_all add: session_defs Let_def)

definition all_well :: "work_in \<Rightarrow> bool" where
  "all_well i \<longleftrightarrow> wi_sock i = None \<and> wi_bind i = None \<and> wi_listen i = None \<and> wi_softap i = 0 \<and> wi_submit i = 0 \<and> wi_ready i
     \<and> io_open (wi_io i) \<and> io_fail (wi_io i) = None"

lemma run_accepting:
  assumes "all_well i" "\<not> cancelled g w" "w_pc w = W_loop e r" "e < w_timeout w" "wi_wait i = Client ip port rxs"
    "provisioning_receive_config (ps_nonce (g_session g)) rxs = Inr c" "pc_ssid c \<noteq> []" "pc_password c \<noteq> []"
  shows "run_worker (replicate 15 i) (g, w)
    = (session_connected (wi_io i) (saved_config c (went_connecting (took_config c ip port g))), w\<lparr>w_pc := W_exit 0\<rparr>)"
proof -
  let ?g1 = "took_config c ip port g"
  let ?g2 = "went_connecting ?g1"
  let ?g3 = "?g2\<lparr>wapi_file := Some (concat (wapi_chunks c))\<rparr>"
  let ?m = "rvt_provisioning_softap_task_main i"
  note ok = assms(1) [unfolded all_well_def] and run = assms(2) [unfolded cancelled_def, simplified]
  have 1: "?m g w = (g, w\<lparr>w_pc := W_select e r\<rparr>)" using assms(2-4) by (simp add: worker_defs)
  have 2: "?m g (w\<lparr>w_pc := W_select e r\<rparr>) = (?g1, w\<lparr>w_pc := W_waited (Inr c)\<rparr>)"
    using assms(5,6) by (simp add: worker_defs took_config_def)
  have 3: "?m ?g1 (w\<lparr>w_pc := W_waited (Inr c)\<rparr>) = (?g1, w\<lparr>w_pc := W_announce c\<rparr>)" using run by (simp add: worker_defs cancelled_def)
  have 4: "?m ?g1 (w\<lparr>w_pc := W_announce c\<rparr>) = (?g2, w\<lparr>w_pc := W_connecting c\<rparr>)" by (simp add: worker_defs went_connecting_def)
  have 5: "?m ?g2 (w\<lparr>w_pc := W_connecting c\<rparr>) = (?g2, w\<lparr>w_pc := W_saving c\<rparr>)" using run by (simp add: worker_defs cancelled_def)
  have 6: "?m ?g2 (w\<lparr>w_pc := W_saving c\<rparr>) = (?g3, w\<lparr>w_pc := W_saved c 0\<rparr>)"
    using ok save_good [OF assms(7,8), of "wi_io i" ?g2] by (simp add: worker_defs)
  have 7: "?m ?g3 (w\<lparr>w_pc := W_saved c 0\<rparr>) = (?g3, w\<lparr>w_pc := W_softap c 0\<rparr>)" using run by (simp add: worker_defs cancelled_def ECANCELED_def)
  have 8: "?m ?g3 (w\<lparr>w_pc := W_softap c 0\<rparr>) = (?g3, w\<lparr>w_pc := W_softap_down c 0 (g_softap_running ?g3)\<rparr>)" by (simp add: worker_defs)
  have 9: "?m ?g3 (w\<lparr>w_pc := W_softap_down c 0 b\<rparr>) = (saved_config c ?g2, w\<lparr>w_pc := W_stopped c\<rparr>)" for b
    using ok by (simp add: worker_defs softap_down_def saved_config_def)
  have 10: "?m (saved_config c ?g2) (w\<lparr>w_pc := W_stopped c\<rparr>) = (saved_config c ?g2, w\<lparr>w_pc := W_submitting c\<rparr>)"
    using run by (simp add: worker_defs cancelled_def)
  have 11: "?m (saved_config c ?g2) (w\<lparr>w_pc := W_submitting c\<rparr>) = (saved_config c ?g2, w\<lparr>w_pc := W_submitted c\<rparr>)"
    using ok by (simp add: worker_defs)
  have 12: "?m (saved_config c ?g2) (w\<lparr>w_pc := W_submitted c\<rparr>) = (saved_config c ?g2, w\<lparr>w_pc := W_ready c\<rparr>)"
    using run by (simp add: worker_defs cancelled_def)
  have 13: "?m (saved_config c ?g2) (w\<lparr>w_pc := W_ready c\<rparr>) = (saved_config c ?g2, w\<lparr>w_pc := W_confirmed c 0\<rparr>)"
    using ok by (simp add: worker_defs)
  have 14: "?m (saved_config c ?g2) (w\<lparr>w_pc := W_confirmed c 0\<rparr>) = (saved_config c ?g2, w\<lparr>w_pc := W_finish c 0\<rparr>)"
    using run by (simp add: worker_defs cancelled_def ECANCELED_def)
  have 15: "?m (saved_config c ?g2) (w\<lparr>w_pc := W_finish c 0\<rparr>) = (session_connected (wi_io i) (saved_config c ?g2), w\<lparr>w_pc := W_exit 0\<rparr>)"
    by (simp add: worker_defs)
  have "replicate 15 i = [i, i, i, i, i, i, i, i, i, i, i, i, i, i, i]" by (simp add: numeral_eq_Suc)
  then show ?thesis by (simp add: 1 2 3 4 5 6 7 8 9 10 11 12 13 14 15)
qed

lemma start_facts:
  assumes "rvt_provisioning_start type si g = (0, g1, True)"
  shows "\<not> g_stop_requested g1" "ps_ttl_seconds (g_session g1) = 120" "map fst (events g1) = map fst (events g) @ [RVT_PROVISIONING_EVENT_QR_SHOW]"
  using assms
  by (auto simp: rvt_provisioning_start_def rvt_provisioning_start_softap_def Let_def show_qr_def provisioning_notify_def start_session_def
      provisioning_build_softap_qr_payload_def c_consts split: if_splits prov_type.splits sum.splits option.splits)

text \<open>
  C31. Provisioning succeeds: after a successful start, the first phone to connect, when it sends a valid configuration with the nonce of the session, at any time
  within the two minutes and cut into any pieces, is answered \<^verbatim>\<open>accepted\<close>; when the driver connects and the flash works, the worker ends with the session connected, the access point down, the
  configuration and the flag saved, and the announcements in order.
\<close>

theorem provisioning_succeeds:
  assumes "rvt_provisioning_start RVT_PROVISIONING_TYPE_WIFI si g = (0, g1, True)" "all_well i" "n < 240"
    "config_fits c" "provisioning_validate_phone_config (ps_nonce (g_session g1)) c = 0" "concat bs = render_config c" "[] \<notin> set bs"
    "wi_wait i = Client ip port (map Rx_data bs)"
    "run_worker (i # concat (replicate n [i\<lparr>wi_wait := Wait_none\<rparr>, i\<lparr>wi_wait := Wait_none\<rparr>]) @ replicate 15 i)
       (g1, \<lparr>w_sid = 0, w_timeout = 0, w_pc = W_init\<rparr>) = (g2, w2)"
  shows "w_pc w2 = W_exit 0 \<and> ps_state (g_session g2) = RVT_PROVISIONING_STATE_CONNECTED \<and> \<not> rvt_provisioning_is_running g2
    \<and> flag_file g2 \<and> wapi_file g2 = Some (concat (wapi_chunks c)) \<and> responses g2 = responses g1 @ [''status=accepted&code=0'' @ [CHR 0x0A]]
    \<and> map fst (events g2) = map fst (events g) @ [RVT_PROVISIONING_EVENT_QR_SHOW, RVT_PROVISIONING_EVENT_CONNECTING, RVT_PROVISIONING_EVENT_CONNECTED]"
proof -
  let ?w = "\<lparr>w_sid = g_session_id g1, w_timeout = 120000, w_pc = W_loop 0 (- ETIMEDOUT)\<rparr>"
  let ?w1 = "?w\<lparr>w_pc := W_loop (500 * int n) (if n = 0 then - ETIMEDOUT else 0)\<rparr>"
  note st = start_facts [OF assms(1)]
  have init: "rvt_provisioning_softap_task_main i g1 \<lparr>w_sid = 0, w_timeout = 0, w_pc = W_init\<rparr> = (g1, ?w)"
    using assms(2) st(2) by (simp add: worker_defs all_well_def provisioning_create_config_server_def)
  have live: "\<not> cancelled g1 ?w" "\<not> cancelled g1 ?w1" using st(1) by (simp_all add: cancelled_def)
  have idle: "run_worker (concat (replicate n [i\<lparr>wi_wait := Wait_none\<rparr>, i\<lparr>wi_wait := Wait_none\<rparr>])) (g1, ?w) = (g1, ?w1)"
    using run_idle [OF live(1), of 0 "- ETIMEDOUT" n "i\<lparr>wi_wait := Wait_none\<rparr>"] assms(3) by simp
  have rec: "provisioning_receive_config (ps_nonce (g_session g1)) (map Rx_data bs) = Inr c"
    by (rule receive_rendered [OF assms(4-7)])
  have ne: "pc_ssid c \<noteq> []" "pc_password c \<noteq> []"
    using assms(5) by (auto simp: provisioning_validate_phone_config_def EINVAL_def EACCES_def split: if_splits)
  have "run_worker (replicate 15 i) (g1, ?w1)
      = (session_connected (wi_io i) (saved_config c (went_connecting (took_config c ip port g1))), ?w1\<lparr>w_pc := W_exit 0\<rparr>)"
    by (rule run_accepting [OF assms(2) live(2) _ _ assms(8) rec ne]) (use assms(3) in auto)
  with assms(9) init idle have "g2 = session_connected (wi_io i) (saved_config c (went_connecting (took_config c ip port g1)))" "w_pc w2 = W_exit 0"
    by auto
  moreover have "io_open (wi_io i)" "io_fail (wi_io i) = None" using assms(2) by (simp_all add: all_well_def)
  ultimately show ?thesis using connected_fields [of "wi_io i" "saved_config c (went_connecting (took_config c ip port g1))"] st(3)
    by (simp add: rvt_provisioning_is_running_def)
qed

definition sample_work :: work_in where
  "sample_work = \<lparr>wi_sock = None, wi_bind = None, wi_listen = None,
     wi_wait = Client ''192.168.49.2'' 50000 (map Rx_data [render_config (sample_config\<lparr>pc_nonce := ''DDDDDDDDDDDD''\<rparr>)]),
     wi_softap = 0, wi_io = flash_ok, wi_submit = 0, wi_ready = True\<rparr>"

text \<open>Two workers, one waiting and one connecting when the stop comes: the session stays down, and one more announcement is possible.\<close>

theorem stop_is_final_witness:
  "\<not> rvt_provisioning_is_running (fst (fold prov_do [Work 0 sample_work, Work 1 sample_work]
     (snd (stop_finish True 0 (stop_request boot_state)),
      [\<lparr>w_sid = 0, w_timeout = 120000, w_pc = W_loop 0 0\<rparr>, \<lparr>w_sid = 0, w_timeout = 120000, w_pc = W_submitting sample_config\<rparr>])))"
proof -
  let ?ws = "[\<lparr>w_sid = 0, w_timeout = 120000, w_pc = W_loop 0 0\<rparr>, \<lparr>w_sid = 0, w_timeout = 120000, w_pc = W_submitting sample_config\<rparr>]"
  let ?acts = "[Work 0 sample_work, Work 1 sample_work]"
  obtain ret g1 where f: "stop_finish True 0 (stop_request boot_state) = (ret, g1)" by fastforce
  obtain g2 ws2 where r: "fold prov_do ?acts (g1, ?ws) = (g2, ws2)" by fastforce
  have "fold prov_do [] (stop_request boot_state, ?ws) = (stop_request boot_state, ?ws)" "list_all is_work []" "list_all is_work ?acts" by simp_all
  from stop_is_final [OF this(1,2) f r this(3)] show ?thesis unfolding f snd_conv r fst_conv by blast
qed

definition sample_started :: prov where
  "sample_started = fst (snd (rvt_provisioning_start RVT_PROVISIONING_TYPE_WIFI good_start boot_state))"

lemma start_ok:
  assumes "\<not> rvt_provisioning_is_running g" "rvt_prov_generate_softap_config (si_rand1 i) (si_rand2 i) (si_rand3 i) = Inr config"
    "0 \<le> si_start i" "si_task i = None"
  shows "\<exists>ip. rvt_provisioning_start RVT_PROVISIONING_TYPE_WIFI i g = (0, show_qr ip (start_session config g), True)"
  using assms by (auto simp: rvt_provisioning_start_def rvt_provisioning_start_softap_def Let_def)

lemma start_nonce: "ps_nonce (g_session (show_qr ip (start_session config g))) = cstr_copy 13 (ap_nonce config)"
  by (simp add: show_qr_def provisioning_notify_def provisioning_build_softap_qr_payload_def start_session_def)

lemma sample_generate:
  "rvt_prov_generate_softap_config (si_rand1 good_start) (si_rand2 good_start) (si_rand3 good_start)
   = Inr \<lparr>ap_ssid = ''YADEA_CAR_BBBBBB'', ap_password = ''CCCCCCCCCCCC'', ap_nonce = ''DDDDDDDDDDDD'', ap_ip = ''192.168.49.1'', ap_port = 39888\<rparr>"
  by code_simp

lemma sample_start: "rvt_provisioning_start RVT_PROVISIONING_TYPE_WIFI good_start boot_state = (0, sample_started, True)"
  "ps_nonce (g_session sample_started) = ''DDDDDDDDDDDD''"
proof -
  have "\<not> rvt_provisioning_is_running boot_state" by (simp add: rvt_provisioning_is_running_def boot_state_def zero_session_def)
  from start_ok [OF this sample_generate] show "rvt_provisioning_start RVT_PROVISIONING_TYPE_WIFI good_start boot_state = (0, sample_started, True)"
    "ps_nonce (g_session sample_started) = ''DDDDDDDDDDDD''"
    by (auto simp: good_start_def sample_started_def start_nonce cstr_copy_def)
qed

theorem provisioning_succeeds_witness:
  "ps_state (g_session (fst (run_worker (sample_work # concat (replicate 1 [sample_work\<lparr>wi_wait := Wait_none\<rparr>, sample_work\<lparr>wi_wait := Wait_none\<rparr>])
     @ replicate 15 sample_work) (sample_started, \<lparr>w_sid = 0, w_timeout = 0, w_pc = W_init\<rparr>)))) = RVT_PROVISIONING_STATE_CONNECTED"
proof -
  let ?c = "sample_config\<lparr>pc_nonce := ''DDDDDDDDDDDD''\<rparr>"
  let ?r = "run_worker (sample_work # concat (replicate 1 [sample_work\<lparr>wi_wait := Wait_none\<rparr>, sample_work\<lparr>wi_wait := Wait_none\<rparr>])
     @ replicate 15 sample_work) (sample_started, \<lparr>w_sid = 0, w_timeout = 0, w_pc = W_init\<rparr>)"
  obtain g2 w2 where r: "?r = (g2, w2)" by fastforce
  have c: "config_fits ?c" "provisioning_validate_phone_config (ps_nonce (g_session sample_started)) ?c = 0" "render_config ?c \<noteq> []"
    unfolding sample_start(2) by code_simp+
  have w: "all_well sample_work" by (simp add: all_well_def sample_work_def flash_ok_def)
  have p: "wi_wait sample_work = Client ''192.168.49.2'' 50000 (map Rx_data [render_config ?c])" by (simp add: sample_work_def)
  have b: "concat [render_config ?c] = render_config ?c" "[] \<notin> set [render_config ?c]" using c(3) by simp_all
  show ?thesis using provisioning_succeeds [OF sample_start(1) w _ c(1,2) b p r] unfolding r by (simp only: fst_conv)
qed

section \<open>A worker that outlives its session\<close>

text \<open>
  A worker stopped between taking down the access point and asking for the connection does not exit silently: it declares the session that is current then,
  which may already be the next one, as failed with \<^verbatim>\<open>ECANCELED\<close>. The access point of the new session stays up, so that every further start is refused
  until someone calls stop.
\<close>

theorem stale_worker_fails_new_session:
  assumes "w_pc w = W_stopped c" "rvt_provisioning_start RVT_PROVISIONING_TYPE_WIFI si (snd (rvt_provisioning_stop r g)) = (0, g1, True)"
    "w_sid w = g_session_id g"
  shows "case run_worker [i, i] (g1, w) of (g2, w2) \<Rightarrow>
    ps_state (g_session g2) = RVT_PROVISIONING_STATE_FAILED \<and> ps_result (g_session g2) = - ECANCELED \<and> ps_nonce (g_session g2) = ps_nonce (g_session g1)
    \<and> g_softap_running g2 \<and> fst (rvt_provisioning_start type si2 g2) = - EALREADY"
proof -
  have g1: "g_softap_running g1" "g_session_id g1 = g_session_id g + 2"
    using assms(2)
    by (auto simp: rvt_provisioning_start_def rvt_provisioning_start_softap_def Let_def show_qr_def provisioning_notify_def start_session_def
        stop_defs rvt_provisioning_stop_softap_direct_def softap_down_def split: if_splits sum.splits option.splits)
  have "g_session_id g \<noteq> g_session_id g + 2" by simp
  then have "cancelled g1 w" using g1(2) assms(3) by (simp add: cancelled_def)
  then show ?thesis
    using assms(1) g1(1) by (simp add: worker_defs session_failed_def provisioning_notify_def
        rvt_provisioning_start_def rvt_provisioning_is_running_def)
qed

theorem stale_worker_fails_new_session_witness:
  "ps_result (g_session (fst (run_worker [sample_work, sample_work]
      (fst (snd (rvt_provisioning_start RVT_PROVISIONING_TYPE_WIFI good_start (snd (rvt_provisioning_stop 0 boot_state)))),
      \<lparr>w_sid = 0, w_timeout = 120000, w_pc = W_stopped sample_config\<rparr>)))) = - ECANCELED"
proof -
  let ?w = "\<lparr>w_sid = 0, w_timeout = 120000, w_pc = W_stopped sample_config\<rparr>"
  let ?s = "rvt_provisioning_start RVT_PROVISIONING_TYPE_WIFI good_start (snd (rvt_provisioning_stop 0 boot_state))"
  have "fst ?s = 0 \<and> snd (snd ?s)"
    using start_ok [OF stop_state(3) [of 0 boot_state] sample_generate] by (auto simp: good_start_def)
  then have "?s = (0, fst (snd ?s), True)" by (metis prod.collapse)
  moreover have "w_sid ?w = g_session_id boot_state" by (simp add: boot_state_def)
  ultimately show ?thesis
    using stale_worker_fails_new_session [where w = ?w and c = sample_config and si = good_start and r = 0 and g = boot_state
        and ?g1.0 = "fst (snd ?s)" and i = sample_work and type = RVT_PROVISIONING_TYPE_WIFI and ?si2.0 = good_start]
    by (simp add: case_prod_unfold del: run_worker_simps)
qed

text \<open>A stop that falls into the connection: when the connection fails afterwards, the worker overwrites the stopped session and announces the failure.\<close>

theorem stop_during_connection_overwritten:
  assumes "w_pc w = W_submitting c" "wi_submit i \<noteq> 0"
  shows "case run_worker [i, i] (snd (rvt_provisioning_stop r g), w) of (g2, w2) \<Rightarrow>
    ps_state (g_session g2) = RVT_PROVISIONING_STATE_FAILED
    \<and> map fst (events g2) = map fst (events (snd (rvt_provisioning_stop r g))) @ [RVT_PROVISIONING_EVENT_FAILED]"
  using assms by (simp add: worker_defs session_failed_def provisioning_notify_def)

section \<open>The end of the wait\<close>

text \<open>When nobody comes, the worker fails the session with a timeout after 240 waits and takes the access point down.\<close>

lemma wait_times_out:
  assumes "\<not> cancelled g w" "w_pc w = W_loop 0 r" "w_timeout w = 120000" "wi_wait i = Wait_none"
  shows "run_worker (concat (replicate 240 [i, i]) @ [i, i, i, i, i, i]) (g, w)
    = (session_failed (- ETIMEDOUT) (g\<lparr>g_softap_running := False\<rparr>), w\<lparr>w_pc := W_exit 1\<rparr>)"
proof -
  have idle: "run_worker (concat (replicate 240 [i, i])) (g, w) = (g, w\<lparr>w_pc := W_loop 120000 0\<rparr>)"
    using run_idle [OF assms(1,2), of 240 i] assms(3,4) by simp
  have "\<not> g_stop_requested g" "w_sid w = g_session_id g" using assms(1) by (simp_all add: cancelled_def)
  with assms(3) show ?thesis unfolding run_worker_simps(3) idle
    by (simp add: worker_defs cancelled_def softap_down_def ECANCELED_def ETIMEDOUT_def)
qed

text \<open>Time passes only while nobody connects: refused phones, however many, leave the remaining time as it is.\<close>

lemma refused_phones_stop_the_clock:
  assumes "\<not> cancelled g w" "w_pc w = W_loop e r" "e < w_timeout w" "\<And>nonce. \<exists>x. provisioning_receive_config nonce rxs = Inl x"
    "wi_wait i = Client ip port rxs"
  shows "\<exists>g1 r1. run_worker (concat (replicate n [i, i])) (g, w) = (g1, w\<lparr>w_pc := W_loop e r1\<rparr>) \<and> \<not> cancelled g1 w"
  using assms(1,2,3)
proof (induction n arbitrary: g w r)
  case 0
  then show ?case by (cases w) auto
next
  case (Suc n)
  obtain x where x: "provisioning_receive_config (ps_nonce (g_session g)) rxs = Inl x" using assms(4) by blast
  let ?g = "provisioning_send_config_response ''error'' (- x) g"
  have two: "run_worker [i, i] (g, w) = (?g, w\<lparr>w_pc := W_loop e x\<rparr>)"
    using Suc.prems x assms(5) by (simp add: worker_defs)
  have "\<not> cancelled ?g (w\<lparr>w_pc := W_loop e x\<rparr>)" using Suc.prems(1) by (simp add: cancelled_def provisioning_send_config_response_def)
  from Suc.IH [OF this] Suc.prems(3) obtain g1 r1
    where "run_worker (concat (replicate n [i, i])) (?g, w\<lparr>w_pc := W_loop e x\<rparr>) = (g1, w\<lparr>w_pc := W_loop e r1\<rparr>)"
      "\<not> cancelled g1 (w\<lparr>w_pc := W_loop e x\<rparr>)" by auto
  moreover have cat: "concat (replicate (Suc n) [i, i]) = [i, i] @ concat (replicate n [i, i])" by simp
  ultimately show ?case unfolding cat run_worker_simps(3) two by (auto simp: cancelled_def)
qed

section \<open>The saved configuration read back\<close>

text \<open>A reader of JSON strings as RFC 8259 defines them, for the escapes that occur.\<close>

fun json_read :: "string \<Rightarrow> (string \<times> string) option" where
  "json_read [] = None"
| "json_read (c # cs) =
     (if c = CHR 0x22 then Some ([], cs)
      else if c = CHR 0x5C
      then (case cs of
              d # ds \<Rightarrow>
                if d = CHR 0x22 \<or> d = CHR 0x5C then map_option (\<lambda>(v, r). (d # v, r)) (json_read ds)
                else (case ds of
                        CHR ''0'' # CHR ''0'' # h # l # es \<Rightarrow>
                          (case (provisioning_hex_value h, provisioning_hex_value l) of
                             (Some a, Some b) \<Rightarrow> map_option (\<lambda>(v, r). (char_of (16 * a + b) # v, r)) (json_read es)
                           | _ \<Rightarrow> None)
                      | _ \<Rightarrow> None)
            | [] \<Rightarrow> None)
      else map_option (\<lambda>(v, r). (c # v, r)) (json_read cs))"

lemma hex_lower_value: "n < 16 \<Longrightarrow> provisioning_hex_value (hex_lower n) = Some n"
proof -
  have "list_all (\<lambda>n. provisioning_hex_value (hex_lower n) = Some n) [0..<16]" by code_simp
  then show "n < 16 \<Longrightarrow> ?thesis" by (simp add: list_all_iff)
qed

lemma json_read_escaped: "json_read (concat (map json_escape v) @ CHR 0x22 # r) = Some (v, r)"
proof (induction v)
  case (Cons c v)
  consider "c = CHR 0x22 \<or> c = CHR 0x5C" | "c \<noteq> CHR 0x22" "c \<noteq> CHR 0x5C" "(of_char c :: nat) < 32"
    | "c \<noteq> CHR 0x22" "c \<noteq> CHR 0x5C" "\<not> (of_char c :: nat) < 32" by blast
  then show ?case
  proof cases
    case 2
    have "char_of (16 * (of_char c div 16) + of_char c mod 16 :: nat) = c" by (simp add: mult_div_mod_eq)
    with 2 Cons hex_lower_value [OF nibbles(1) [of c]] hex_lower_value [OF nibbles(2) [of c]] show ?thesis by (simp add: json_escape_def)
  qed (use Cons in \<open>auto simp: json_escape_def\<close>)
qed simp

lemma saved_config_read_back:
  assumes "CHR 0x00 \<notin> set (pc_ssid c)" "CHR 0x00 \<notin> set (pc_password c)"
  shows "\<exists>rest. concat (wapi_chunks c) = wapi_prefix @ CHR 0x22 # rest
    \<and> (\<exists>r. json_read rest = Some (pc_ssid c, wapi_middle @ CHR 0x22 # r) \<and> json_read r = Some (pc_password c, ''}}'' @ [CHR 0x0A]))"
proof -
  have z: "cstr (pc_ssid c) = pc_ssid c" "cstr (pc_password c) = pc_password c"
    using assms by (auto simp: cstr_def takeWhile_eq_all_conv)
  let ?r = "concat (map json_escape (pc_password c)) @ CHR 0x22 # ''}}'' @ [CHR 0x0A]"
  have "concat (wapi_chunks c) = wapi_prefix @ CHR 0x22 # concat (map json_escape (pc_ssid c)) @ CHR 0x22 # wapi_middle @ CHR 0x22 # ?r"
    by (simp add: wapi_chunks_def provisioning_write_json_string_def z)
  with json_read_escaped [of "pc_ssid c" "wapi_middle @ CHR 0x22 # ?r"] json_read_escaped [of "pc_password c" "''}}'' @ [CHR 0x0A]"]
  show ?thesis by blast
qed

text \<open>The flag is cached whatever the flash answered: a failed write is believed until the next boot.\<close>

lemma flag_believed: "fst (rvt_provisioning_has_provisioned (snd (rvt_provisioning_set_provisioned io v g))) = (v \<noteq> 0)"
  by (simp add: rvt_provisioning_has_provisioned_def rvt_provisioning_set_provisioned_def provisioning_read_provisioned_flag_def
      provisioning_write_provisioned_flag_def case_prod_unfold Let_def)

section \<open>The code on the screen\<close>

lemma generated_lengths:
  assumes "rvt_prov_generate_softap_config r1 r2 r3 = Inr config"
  shows "length (ap_ssid config) \<le> 16" "length (ap_password config) \<le> 12" "length (ap_nonce config) \<le> 12" "ap_port config = 39888"
  using assms by (auto simp: rvt_prov_generate_softap_config_def generate_base32_def cstr_copy_def c_consts)

lemma start_qr_fields:
  "ps_ap_ssid (g_session (start_session config g)) = cstr_copy 33 (ap_ssid config)"
  "ps_ap_password (g_session (start_session config g)) = cstr_copy 13 (ap_password config)"
  "ps_nonce (g_session (start_session config g)) = cstr_copy 13 (ap_nonce config)"
  "ps_port (g_session (start_session config g)) = ap_port config" "ps_ttl_seconds (g_session (start_session config g)) = 120"
  by (simp_all add: start_session_def c_consts)

text \<open>The payload of the code is never cut: it carries the name, the password, the address and the nonce in full.\<close>

lemma qr_payload_complete:
  assumes "rvt_prov_generate_softap_config r1 r2 r3 = Inr config"
  shows "ps_qr_payload (g_session (show_qr ip (start_session config g)))
    = ''rvt://wifi-pair?v=3&m=ap&nt=hotspot&ssid='' @ ap_ssid config @ ''&psk='' @ ap_password config @ ''&ip='' @ cstr_copy 16 ip
      @ ''&port='' @ show_int 39888 @ ''&n='' @ ap_nonce config @ ''&exp='' @ show_int 120"
proof -
  have n: "length (show_int 39888) = 5" "length (show_int 120) = 3" by (simp_all add: show_int_def show_nat.simps)
  note len = generated_lengths [OF assms]
  have "length (cstr_copy 16 ip) \<le> 15" by (simp add: cstr_copy_def)
  then show ?thesis using len
    by (simp add: show_qr_def provisioning_notify_def provisioning_build_softap_qr_payload_def start_qr_fields n cstr_copy_fits c_consts)
qed

end
