(* ===== verification/Ws_Frame.thy ===== *)
theory Ws_Frame
  imports Prelude "HOL-Library.Monad_Syntax"
begin

text \<open>
  The frames of the WebSocket channel (\<^verbatim>\<open>services/ai_agent/src/channels/ws_server.c\<close>): sending a
  text frame, receiving one frame from a byte stream. A stream is the list of the bytes the
  client still sends before the connection ends; \<open>None\<close> is the error return \<open>-1\<close>.
\<close>

unbundle bit_operations_syntax

section \<open>Receiving bytes\<close>

text \<open>\<^verbatim>\<open>recv(fd, buf, n, MSG_WAITALL)\<close>.\<close>

definition recv_all :: "nat \<Rightarrow> u8 list \<Rightarrow> (u8 list \<times> u8 list) option" where
  "recv_all n s = (if n \<le> length s then Some (take n s, drop n s) else None)"

text \<open>
  The loop around a plain \<^verbatim>\<open>recv\<close>: the number of bytes a call returns is up to the network, an
  arbitrary function of the bytes received so far.
\<close>

function recv_loop :: "(nat \<Rightarrow> nat) \<Rightarrow> nat \<Rightarrow> nat \<Rightarrow> u8 list \<Rightarrow> u8 list \<Rightarrow> (u8 list \<times> u8 list) option" where
  "recv_loop net plen received buf s =
     (if received < plen
      then let n = min (Suc (net received)) (min (plen - received) (length s)) in
           if n = 0 then None
           else recv_loop net plen (received + n) (buf @ take n s) (drop n s)
      else Some (buf, s))"
  by pat_completeness auto
termination
  by (relation "measure (\<lambda>(net, plen, received, buf, s). plen - received)")
    (auto simp: min_def length_greater_0_conv [symmetric] simp del: length_greater_0_conv)

declare recv_loop.simps [simp del]

definition apply_mask :: "u8 list \<Rightarrow> u8 list \<Rightarrow> u8 list" where
  "apply_mask key p = map (\<lambda>i. p ! i XOR key ! (i mod 4)) [0..<length p]"

definition ext_len :: "nat \<Rightarrow> u8 list \<Rightarrow> (nat \<times> u8 list) option" where
  "ext_len plen s =
     (if plen = 126
      then do { (e, s1) \<leftarrow> recv_all 2 s; Some (256 * unat (e ! 0) + unat (e ! 1), s1) }
      else if plen = 127 then None
      else Some (plen, s))"

definition read_mask :: "bool \<Rightarrow> u8 list \<Rightarrow> (u8 list \<times> u8 list) option" where
  "read_mask masked s = (if masked then recv_all 4 s else Some ([0, 0, 0, 0], s))"

text \<open>A received frame: the return value, the payload left in the buffer, what was sent in reply, the rest of the stream.\<close>

type_synonym received = "int \<times> u8 list \<times> u8 list \<times> u8 list"

definition control_frame :: "nat \<Rightarrow> bool \<Rightarrow> nat \<Rightarrow> u8 list \<Rightarrow> received option" where
  "control_frame opcode masked len7 s = do {
     (plen, s1) \<leftarrow> ext_len len7 s;
     (pp_mask, s2) \<leftarrow> read_mask masked s1;
     if plen > 125 then None
     else do {
       (p, s3) \<leftarrow> recv_all plen s2;
       let ctrl_payload = (if masked then apply_mask pp_mask p else p);
       Some (- 2, [], if opcode = 9 then [0x8A, of_nat plen] @ ctrl_payload else [], s3)
     }
   }"

definition data_frame :: "(nat \<Rightarrow> nat) \<Rightarrow> nat \<Rightarrow> bool \<Rightarrow> nat \<Rightarrow> u8 list \<Rightarrow> received option" where
  "data_frame net buf_size masked len7 s = do {
     (plen, s1) \<leftarrow> ext_len len7 s;
     (mask_key, s2) \<leftarrow> read_mask masked s1;
     if plen \<ge> buf_size then None
     else do {
       (p, s3) \<leftarrow> recv_loop net plen 0 [] s2;
       Some (int plen, if masked then apply_mask mask_key p else p, [], s3)
     }
   }"

definition frame_body :: "(nat \<Rightarrow> nat) \<Rightarrow> nat \<Rightarrow> nat \<Rightarrow> bool \<Rightarrow> nat \<Rightarrow> u8 list \<Rightarrow> received option" where
  "frame_body net buf_size opcode masked plen s =
     (if opcode = 8 then Some (0, [], [], s)
      else if opcode = 9 \<or> opcode = 10 then control_frame opcode masked plen s
      else if opcode \<noteq> 1 \<and> opcode \<noteq> 2 then Some (- 2, [], [], s)
      else data_frame net buf_size masked plen s)"

definition ws_recv_frame :: "(nat \<Rightarrow> nat) \<Rightarrow> nat \<Rightarrow> u8 list \<Rightarrow> received option" where
  "ws_recv_frame net buf_size s = do {
     (b0, s1) \<leftarrow> recv_all 1 s;
     (b1, s2) \<leftarrow> recv_all 1 s1;
     frame_body net buf_size (unat (b0 ! 0 AND 0x0F)) (b1 ! 0 AND 0x80 \<noteq> 0) (unat (b1 ! 0 AND 0x7F)) s2
   }"

section \<open>Sending\<close>

text \<open>The bytes of the two \<^verbatim>\<open>send\<close> calls, or nothing for a payload that is too large.\<close>

definition ws_frame_header :: "nat \<Rightarrow> u8 list option" where
  "ws_frame_header len =
     (if len < 126 then Some [0x81, of_nat len]
      else if len < 65536 then Some [0x81, 126, of_nat (len div 256), of_nat (len mod 256)]
      else None)"

text \<open>\<open>ok1\<close> and \<open>ok2\<close> tell whether a \<^verbatim>\<open>send\<close> takes all its bytes; the result is the return value and what was handed to the socket.\<close>

definition ws_send_frame :: "bool \<Rightarrow> bool \<Rightarrow> u8 list \<Rightarrow> int \<times> u8 list" where
  "ws_send_frame ok1 ok2 payload =
     (case ws_frame_header (length payload) of
        None \<Rightarrow> (- 1, [])
      | Some hdr \<Rightarrow> if \<not> ok1 then (- 1, hdr) else (if ok2 then 0 else - 1, hdr @ payload))"

section \<open>The receive loop\<close>

lemma recv_loop_eq:
  "received \<le> plen \<Longrightarrow> recv_loop net plen received buf s =
     (if plen - received \<le> length s then Some (buf @ take (plen - received) s, drop (plen - received) s) else None)"
proof (induction net plen received buf s rule: recv_loop.induct)
  case (1 net plen received buf s)
  define n where "n = min (Suc (net received)) (min (plen - received) (length s))"
  show ?case
  proof (cases "received < plen \<and> s \<noteq> []")
    case True
    then have n: "n \<noteq> 0" "received + n \<le> plen" "n \<le> length s" by (auto simp: n_def)
    have "take n s @ take (plen - (received + n)) (drop n s) = take (plen - received) s"
      using n take_add [of n "plen - (received + n)" s] by simp
    moreover have "drop (plen - (received + n)) (drop n s) = drop (plen - received) s" using n by simp
    moreover have "recv_loop net plen received buf s = recv_loop net plen (received + n) (buf @ take n s) (drop n s)"
      using True n(1) by (simp add: recv_loop.simps [of net plen received] Let_def n_def [symmetric])
    moreover have "recv_loop net plen (received + n) (buf @ take n s) (drop n s) =
        (if plen - (received + n) \<le> length (drop n s)
         then Some ((buf @ take n s) @ take (plen - (received + n)) (drop n s), drop (plen - (received + n)) (drop n s)) else None)"
      using 1(1) [of n] True n by (simp add: n_def)
    ultimately show ?thesis using n by auto
  next
    case False
    then show ?thesis using 1(2) by (subst recv_loop.simps) auto
  qed
qed

lemma recv_payload: "recv_loop net plen 0 [] s = recv_all plen s"
  by (simp add: recv_loop_eq recv_all_def)

lemma recv_all_append [simp]: "length p = n \<Longrightarrow> recv_all n (p @ s) = Some (p, s)"
  by (auto simp: recv_all_def)

lemma recv_all_Cons [simp]: "recv_all (Suc 0) (b # s) = Some ([b], s)"
  by (simp add: recv_all_def)

section \<open>Frames of a client\<close>

text \<open>How a client frames a payload (RFC 6455, section 5): one final frame, masked with a key of its choice.\<close>

definition client_length :: "nat \<Rightarrow> u8 list" where
  "client_length n = (if n < 126 then [of_nat (128 + n)] else [0xFE, of_nat (n div 256), of_nat (n mod 256)])"

definition client_frame :: "nat \<Rightarrow> u8 list \<Rightarrow> u8 list \<Rightarrow> u8 list" where
  "client_frame opcode key p = [of_nat (128 + opcode)] @ client_length (length p) @ key @ apply_mask key p"

lemma low_bits: "unat ((b :: u8) AND 0x0F) = unat b mod 16" "unat ((b :: u8) AND 0x7F) = unat b mod 128"
proof -
  have "b AND 0x0F = take_bit 4 b" "b AND 0x7F = take_bit 7 b" by (simp_all add: take_bit_eq_mask mask_eq_exp_minus_1)
  then show "unat (b AND 0x0F) = unat b mod 16" "unat (b AND 0x7F) = unat b mod 128"
    by (simp_all add: take_bit_eq_mod unat_mod)
qed

lemma top_bit: "(b :: u8) AND 0x80 \<noteq> 0 \<longleftrightarrow> 128 \<le> unat b"
proof -
  have "(b AND 0x80 \<noteq> 0) = bit b 7" using and_exp_eq_0_iff_not_bit [of b 7] by simp
  also have "\<dots> = bit (unat b) 7" by (simp add: bit_unsigned_iff)
  also have "\<dots> = odd (unat b div 128)" by (simp add: bit_iff_odd)
  also have "\<dots> \<longleftrightarrow> 128 \<le> unat b"
  proof (cases "128 \<le> unat b")
    case True
    with unat_less_exp [of b] have "unat b div 128 = 1" by auto
    with True show ?thesis by simp
  qed simp
  finally show ?thesis .
qed

lemma byte_of_nat: "n < 256 \<Longrightarrow> unat (of_nat n :: u8) = n"
  by (simp add: unat_of_nat)

lemma apply_mask_length [simp]: "length (apply_mask key p) = length p"
  by (simp add: apply_mask_def)

lemma apply_mask_twice [simp]: "apply_mask key (apply_mask key p) = p"
  by (rule nth_equalityI) (simp_all add: apply_mask_def xor.assoc)

lemma ext_len_client:
  assumes "n < 65536"
  shows "\<exists>b. client_length n = b # tl (client_length n) \<and> 128 \<le> unat b
    \<and> ext_len (unat b mod 128) (tl (client_length n) @ s) = Some (n, s)"
proof (cases "n < 126")
  case True
  then have "unat (of_nat (128 + n) :: u8) = 128 + n" by (intro byte_of_nat) simp
  with True show ?thesis by (auto simp: client_length_def ext_len_def simp del: of_nat_add)
next
  case False
  have "unat (of_nat (n div 256) :: u8) = n div 256" using assms by (intro byte_of_nat) (simp add: less_mult_imp_div_less)
  moreover have "unat (of_nat (n mod 256) :: u8) = n mod 256" by (intro byte_of_nat) simp
  ultimately show ?thesis using False by (auto simp: client_length_def ext_len_def recv_all_def simp del: of_nat_mod)
qed

lemma recv_client_frame:
  assumes "opcode < 16" "length p < 65536"
  shows "\<exists>len7 r. ws_recv_frame net n (client_frame opcode key p @ s) = frame_body net n opcode True len7 r
    \<and> ext_len len7 r = Some (length p, key @ apply_mask key p @ s)"
proof -
  let ?t = "tl (client_length (length p)) @ key @ apply_mask key p @ s"
  obtain b where b: "client_length (length p) = b # tl (client_length (length p))" "128 \<le> unat b"
    "ext_len (unat b mod 128) ?t = Some (length p, key @ apply_mask key p @ s)"
    using ext_len_client [OF assms(2), of "key @ apply_mask key p @ s"] by blast
  have op: "unat (of_nat (128 + opcode) AND 0x0F :: u8) = opcode"
    using assms(1) byte_of_nat [of "128 + opcode"] by (simp add: low_bits mod_add_eq [symmetric] del: of_nat_add)
  have "client_frame opcode key p @ s = of_nat (128 + opcode) # b # ?t"
    by (subst client_frame_def, subst b(1)) simp
  then have "ws_recv_frame net n (client_frame opcode key p @ s) = frame_body net n opcode True (unat b mod 128) ?t"
    using b(2) op by (simp add: ws_recv_frame_def recv_all_def top_bit low_bits(2) del: of_nat_add)
  with b(3) show ?thesis by blast
qed

lemmas frame_defs = frame_body_def control_frame_def data_frame_def read_mask_def recv_payload

lemma recv_text:
  assumes "length p < n" "n \<le> 65536" "length key = 4"
  shows "ws_recv_frame net n (client_frame 1 key p @ s) = Some (int (length p), p, [], s)"
  using recv_client_frame [of 1 p net n key s] assms by (auto simp: frame_defs)

lemma recv_ping:
  assumes "length p \<le> 125" "length key = 4"
  shows "ws_recv_frame net n (client_frame 9 key p @ s) = Some (- 2, [], [0x8A, of_nat (length p)] @ p, s)"
  using recv_client_frame [of 9 p net n key s] assms by (auto simp: frame_defs)

lemma recv_pong:
  assumes "length p \<le> 125" "length key = 4"
  shows "ws_recv_frame net n (client_frame 10 key p @ s) = Some (- 2, [], [], s)"
  using recv_client_frame [of 10 p net n key s] assms by (auto simp: frame_defs)

lemma recv_close: "length p < 65536 \<Longrightarrow> \<exists>r. ws_recv_frame net n (client_frame 8 key p @ s) = Some (0, [], [], r)"
  using recv_client_frame [of 8 p net n key s] by (auto simp: frame_body_def)

text \<open>What the server sends is a frame the same reader accepts.\<close>

lemma recv_server_frame:
  assumes "length p < n" "n \<le> 65536"
  shows "\<exists>hdr. ws_frame_header (length p) = Some hdr \<and> ws_recv_frame net n (hdr @ p @ s) = Some (int (length p), p, [], s)"
proof (cases "length p < 126")
  case True
  then have "unat (of_nat (length p) :: u8) = length p" by (intro byte_of_nat) simp
  with True assms show ?thesis
    by (simp add: ws_frame_header_def ws_recv_frame_def top_bit low_bits frame_defs ext_len_def)
next
  case False
  have "unat (of_nat (length p div 256) :: u8) = length p div 256" using assms by (intro byte_of_nat) (simp add: less_mult_imp_div_less)
  moreover have "unat (of_nat (length p mod 256) :: u8) = length p mod 256" by (intro byte_of_nat) simp
  ultimately show ?thesis using False assms
    by (simp add: ws_frame_header_def ws_recv_frame_def recv_all_def [of 2] top_bit low_bits frame_defs ext_len_def del: of_nat_mod)
qed

text \<open>Every frame takes at least its two header bytes from the stream.\<close>

lemma recv_all_rest: "recv_all n s = Some (p, r) \<Longrightarrow> length s = n + length r \<and> length p = n"
  by (auto simp: recv_all_def split: if_splits)

lemma ext_len_rest: "ext_len l s = Some (n, r) \<Longrightarrow> length r \<le> length s"
  by (auto simp: ext_len_def bind_eq_Some_conv split: if_splits dest: recv_all_rest)

lemma read_mask_rest: "read_mask m s = Some (k, r) \<Longrightarrow> length r \<le> length s"
  by (auto simp: read_mask_def split: if_splits dest: recv_all_rest)

lemma frame_body_rest: "frame_body net n op m l s = Some (ret, p, out, r) \<Longrightarrow> length r \<le> length s"
  by (auto simp: frame_body_def control_frame_def data_frame_def recv_payload Let_def bind_eq_Some_conv split: if_splits
      dest!: ext_len_rest read_mask_rest recv_all_rest)

lemma ws_recv_frame_shorter: "ws_recv_frame net n s = Some (ret, p, out, r) \<Longrightarrow> length r + 2 \<le> length s"
  by (auto simp: ws_recv_frame_def bind_eq_Some_conv dest!: frame_body_rest recv_all_rest)

lemma data_frame_bound: "data_frame net n m l s = Some (ret, p, out, r) \<Longrightarrow> ret = int (length p) \<and> length p < n"
  by (auto simp: data_frame_def recv_payload bind_eq_Some_conv split: if_splits dest: recv_all_rest)

lemma ws_recv_frame_bound: "ws_recv_frame net n s = Some (ret, p, out, r) \<Longrightarrow> ret > 0 \<Longrightarrow> ret = int (length p) \<and> length p < n"
  by (auto simp: ws_recv_frame_def frame_body_def control_frame_def Let_def bind_eq_Some_conv split: if_splits dest!: data_frame_bound)

end
