(* ===== verification/Ws_Server.thy ===== *)
theory Ws_Server
  imports Ws_Frame Message_Bus
begin

text \<open>
  The WebSocket channel (\<^verbatim>\<open>services/ai_agent/src/channels/ws_server.c\<close>) in the configuration of the
  boards, without the node protocol: the client table, the opening handshake, the thread of a
  client and the replies. The table, the messages pushed on the inbound queue, the bytes handed
  to each socket and the sockets closed are one record; the critical sections of the threads
  interleave. SHA-1 with base64 and the JSON library are arguments.
\<close>

unbundle bit_operations_syntax

definition AGENT_WS_MAX_CLIENTS :: nat where [c_consts]: "AGENT_WS_MAX_CLIENTS = 8"

section \<open>The client table\<close>

record ws_client =
  wc_fd :: int
  wc_chat_id :: string
  wc_active :: bool

record ws_server =
  s_clients :: "ws_client list"
  s_listen_fd :: int
  s_running :: bool
  ws_inbound :: "agent_msg list"
  ws_wire :: "(int \<times> u8 list) list"
  ws_closed :: "int list"

definition zero_client :: ws_client where
  "zero_client = \<lparr>wc_fd = 0, wc_chat_id = [], wc_active = False\<rparr>"

definition find_by_fd_locked :: "ws_server \<Rightarrow> int \<Rightarrow> nat option" where
  "find_by_fd_locked w fd = first_idx (\<lambda>c. wc_active c \<and> wc_fd c = fd) (s_clients w)"

definition find_by_chat_id_locked :: "ws_server \<Rightarrow> string \<Rightarrow> nat option" where
  "find_by_chat_id_locked w chat_id = first_idx (\<lambda>c. wc_active c \<and> wc_chat_id c = chat_id) (s_clients w)"

definition default_chat_id :: "int \<Rightarrow> string" where
  "default_chat_id fd = cstr_copy 32 (''ws_'' @ show_int fd)"

definition add_client_locked :: "int \<Rightarrow> ws_server \<Rightarrow> nat option \<times> ws_server" where
  "add_client_locked fd w =
     (case first_idx (\<lambda>c. \<not> wc_active c) (s_clients w) of
        None \<Rightarrow> (None, w)
      | Some i \<Rightarrow> (Some i, w\<lparr>s_clients := (s_clients w)[i := \<lparr>wc_fd = fd, wc_chat_id = default_chat_id fd, wc_active = True\<rparr>]\<rparr>))"

definition remove_client_locked :: "int \<Rightarrow> ws_server \<Rightarrow> ws_server" where
  "remove_client_locked fd w =
     (case find_by_fd_locked w fd of
        None \<Rightarrow> w
      | Some i \<Rightarrow> w\<lparr>s_clients := (s_clients w)[i := (s_clients w ! i)\<lparr>wc_active := False, wc_fd := - 1\<rparr>], ws_closed := ws_closed w @ [fd]\<rparr>)"

definition wire_send :: "int \<Rightarrow> u8 list \<Rightarrow> ws_server \<Rightarrow> ws_server" where
  "wire_send fd bs w = (if bs = [] then w else w\<lparr>ws_wire := ws_wire w @ [(fd, bs)]\<rparr>)"

section \<open>The handshake\<close>











section \<open>The thread of a client\<close>

text \<open>A JSON object as the thread looks at it: the string members.\<close>

record ws_json =
  j_type :: "string option"
  j_content :: "string option"
  j_chat_id :: "string option"

record ws_env =
  we_json :: "u8 list \<Rightarrow> ws_json option"
  we_net :: "nat \<Rightarrow> nat"
  we_junk :: string
  we_keep :: "agent_msg list \<Rightarrow> agent_msg \<Rightarrow> bool"

text \<open>
  \<open>we_keep\<close> tells whether \<^verbatim>\<open>strdup\<close> and the push of a message on the inbound queue succeed, given what
  was pushed before; a message that is not taken is lost without a word.
\<close>

text \<open>
  The local copy of the chat id: \<^verbatim>\<open>strncpy\<close> of 31 bytes into a buffer whose last byte is never
  set, so that what follows an id of 31 characters is what the stack held (\<open>we_junk\<close>).
\<close>

definition local_chat_id :: "ws_env \<Rightarrow> string \<Rightarrow> string" where
  "local_chat_id e chat_id = (if length chat_id < 31 then chat_id else take 31 chat_id @ we_junk e)"

definition ws_msg :: "string \<Rightarrow> string \<Rightarrow> agent_msg" where
  "ws_msg chat_id content =
     zero_msg\<lparr>msg_channel := ''websocket'', msg_chat_id := cstr_copy 64 chat_id, msg_content := Some content\<rparr>"

definition set_chat_id :: "nat \<Rightarrow> string option \<Rightarrow> ws_server \<Rightarrow> ws_server" where
  "set_chat_id i cid w =
     (case cid of None \<Rightarrow> w
      | Some s \<Rightarrow> w\<lparr>s_clients := (s_clients w)[i := (s_clients w ! i)\<lparr>wc_chat_id := cstr_copy 32 s\<rparr>]\<rparr>)"

definition handle_text :: "ws_env \<Rightarrow> int \<Rightarrow> u8 list \<Rightarrow> string \<Rightarrow> ws_server \<Rightarrow> string \<times> ws_server" where
  "handle_text e fd p chat w =
     (case we_json e (takeWhile (\<lambda>b. b \<noteq> 0) p) of
        None \<Rightarrow> (chat, w)
      | Some root \<Rightarrow>
          (case j_content root of
             None \<Rightarrow> (chat, w)
           | Some content \<Rightarrow>
               if j_type root \<noteq> Some ''message'' then (chat, w)
               else let (chat1, w1) =
                      (case find_by_fd_locked w fd of
                         None \<Rightarrow> (chat, w)
                       | Some i \<Rightarrow> let w1 = set_chat_id i (j_chat_id root) w
                                   in (local_chat_id e (wc_chat_id (s_clients w1 ! i)), w1))
                    in (chat1, if we_keep e (ws_inbound w1) (ws_msg chat1 content)
                               then w1\<lparr>ws_inbound := ws_inbound w1 @ [ws_msg chat1 content]\<rparr> else w1)))"

text \<open>One round of the reading loop: the rest of the stream, or \<open>None\<close> when the loop ends.\<close>

definition client_round :: "ws_env \<Rightarrow> int \<Rightarrow> u8 list \<Rightarrow> string \<Rightarrow> ws_server \<Rightarrow> u8 list option \<times> string \<times> ws_server" where
  "client_round e fd s chat w =
     (if \<not> s_running w then (None, chat, w)
      else (case ws_recv_frame (we_net e) 4096 s of
              None \<Rightarrow> (None, chat, w)
            | Some (n, p, reply, rest) \<Rightarrow>
                let w1 = wire_send fd reply w in
                if n = 0 then (None, chat, w1)
                else if n < 0 then (Some rest, chat, w1)
                else let (chat1, w2) = handle_text e fd p chat w1 in (Some rest, chat1, w2)))"

function client_loop :: "ws_env \<Rightarrow> int \<Rightarrow> u8 list \<Rightarrow> string \<Rightarrow> ws_server \<Rightarrow> ws_server" where
  "client_loop e fd s chat w =
     (case client_round e fd s chat w of
        (None, _, w1) \<Rightarrow> w1
      | (Some rest, chat1, w1) \<Rightarrow> client_loop e fd rest chat1 w1)"
  by pat_completeness auto
termination
  by (relation "measure (\<lambda>(e, fd, s, chat, w). length s)")
    (auto simp: client_round_def Let_def split: if_splits option.splits prod.splits dest!: ws_recv_frame_shorter)

declare client_loop.simps [simp del]

definition bytes_of :: "string \<Rightarrow> u8 list" where
  "bytes_of s = map of_char s"

text \<open>The registration after the handshake, and the end of the thread.\<close>

definition client_enter :: "int \<Rightarrow> string option \<Rightarrow> ws_server \<Rightarrow> bool \<times> ws_server" where
  "client_enter fd response w =
     (case response of
        None \<Rightarrow> (False, w\<lparr>ws_closed := ws_closed w @ [fd]\<rparr>)
      | Some r \<Rightarrow>
          (case add_client_locked fd (wire_send fd (bytes_of r) w) of
             (None, w1) \<Rightarrow> (False, (wire_send fd [0x88, 0x00] w1)\<lparr>ws_closed := ws_closed w @ [fd]\<rparr>)
           | (Some i, w1) \<Rightarrow> (True, w1)))"


text \<open>
  One round of the accepting thread, given what \<^verbatim>\<open>poll\<close> and \<^verbatim>\<open>accept\<close> return and whether memory and a
  thread are to be had: the socket for which a client thread was started.
\<close>

definition accept_round :: "int \<Rightarrow> int \<Rightarrow> bool \<Rightarrow> bool \<Rightarrow> ws_server \<Rightarrow> int option \<times> ws_server" where
  "accept_round pr cfd mem thread_ok w =
     (if \<not> s_running w \<or> pr \<le> 0 \<or> cfd < 0 then (None, w)
      else if \<not> mem \<or> \<not> thread_ok then (None, w\<lparr>ws_closed := ws_closed w @ [cfd]\<rparr>)
      else (Some cfd, w))"

section \<open>The interface of the channel\<close>

text \<open>The results of the socket calls and of the thread creation.\<close>

definition ws_server_start :: "int \<Rightarrow> bool \<Rightarrow> bool \<Rightarrow> bool \<Rightarrow> ws_server \<Rightarrow> int \<times> ws_server" where
  "ws_server_start fd bind_ok listen_ok thread_ok w =
     (let w1 = w\<lparr>s_clients := replicate AGENT_WS_MAX_CLIENTS zero_client, s_listen_fd := fd\<rparr> in
      if fd < 0 then (ERROR, w1)
      else if \<not> bind_ok \<or> \<not> listen_ok then (ERROR, w1\<lparr>s_listen_fd := - 1, ws_closed := ws_closed w @ [fd]\<rparr>)
      else if \<not> thread_ok then (ERROR, w1\<lparr>s_running := False, s_listen_fd := - 1, ws_closed := ws_closed w @ [fd]\<rparr>)
      else (OK, w1\<lparr>s_running := True\<rparr>))"

text \<open>\<open>print\<close> builds the JSON text of a reply; it fails without memory.\<close>

definition ws_server_send :: "(string \<Rightarrow> string \<Rightarrow> u8 list option) \<Rightarrow> bool \<Rightarrow> bool \<Rightarrow> string \<Rightarrow> string \<Rightarrow> ws_server \<Rightarrow> int \<times> ws_server" where
  "ws_server_send print ok1 ok2 chat_id body w =
     (if s_listen_fd w < 0 \<or> \<not> s_running w then (ERROR, w)
      else (case print body chat_id of
              None \<Rightarrow> (ERROR, w)
            | Some json \<Rightarrow>
                (case find_by_chat_id_locked w chat_id of
                   None \<Rightarrow> (ERROR, w)
                 | Some i \<Rightarrow>
                     let fd = wc_fd (s_clients w ! i); (rc, bs) = ws_send_frame ok1 ok2 json
                     in (if rc = 0 then OK else ERROR, wire_send fd bs w))))"

definition ws_server_stop :: "ws_server \<Rightarrow> int \<times> ws_server" where
  "ws_server_stop w =
     (OK, if s_listen_fd w \<ge> 0 then w\<lparr>s_running := False, s_listen_fd := - 1, ws_closed := ws_closed w @ [s_listen_fd w]\<rparr>
          else w\<lparr>s_running := False\<rparr>)"

section \<open>What a client says and what the server does\<close>





lemma wire_send_fields [simp]:
  "s_clients (wire_send fd bs w) = s_clients w" "s_running (wire_send fd bs w) = s_running w" "ws_closed (wire_send fd bs w) = ws_closed w"
  "s_listen_fd (wire_send fd bs w) = s_listen_fd w" "ws_inbound (wire_send fd bs w) = ws_inbound w" "wire_send fd [] w = w"
  by (simp_all add: wire_send_def)

lemma set_chat_id_fields [simp]:
  "s_running (set_chat_id i cid w) = s_running w" "ws_closed (set_chat_id i cid w) = ws_closed w"
  "s_listen_fd (set_chat_id i cid w) = s_listen_fd w" "ws_inbound (set_chat_id i cid w) = ws_inbound w"
  "length (s_clients (set_chat_id i cid w)) = length (s_clients w)"
  by (simp_all add: set_chat_id_def split: option.splits)

lemma handle_text_fields:
  assumes "handle_text e fd p chat w = (chat1, w1)"
  shows "s_running w1 = s_running w" "ws_closed w1 = ws_closed w" "s_listen_fd w1 = s_listen_fd w"
  using assms by (auto simp: handle_text_def Let_def split: option.splits if_splits)









text \<open>The table while the thread of slot \<open>i\<close> talks: only the name in this slot changes.\<close>

definition renamed :: "nat \<Rightarrow> string \<Rightarrow> ws_server \<Rightarrow> ws_server" where
  "renamed i name w = w\<lparr>s_clients := (s_clients w)[i := (s_clients w ! i)\<lparr>wc_chat_id := name\<rparr>]\<rparr>"




lemma renamed_fields [simp]:
  "ws_inbound (renamed i n w) = ws_inbound w" "ws_wire (renamed i n w) = ws_wire w" "ws_closed (renamed i n w) = ws_closed w"
  "renamed i n (w\<lparr>ws_inbound := q\<rparr>) = (renamed i n w)\<lparr>ws_inbound := q\<rparr>" "renamed i n (w\<lparr>ws_wire := x\<rparr>) = (renamed i n w)\<lparr>ws_wire := x\<rparr>"
  by (simp_all add: renamed_def)

lemma find_fields [simp]:
  "find_by_fd_locked (w\<lparr>ws_inbound := q\<rparr>) fd = find_by_fd_locked w fd" "find_by_fd_locked (w\<lparr>ws_wire := x\<rparr>) fd = find_by_fd_locked w fd"
  by (simp_all add: find_by_fd_locked_def)








definition ws_sample_env :: ws_env where
  "ws_sample_env = \<lparr>we_json = (\<lambda>p. if p = [7] then Some \<lparr>j_type = Some ''message'', j_content = Some ''hi'', j_chat_id = Some ''bob''\<rparr> else None),
     we_net = (\<lambda>_. 0), we_junk = [], we_keep = (\<lambda>_ _. True)\<rparr>"

definition sample_server :: ws_server where
  "sample_server = \<lparr>s_clients = replicate 8 zero_client, s_listen_fd = 3, s_running = True, ws_inbound = [], ws_wire = [], ws_closed = []\<rparr>"




section \<open>Replies\<close>

lemma first_idx_update:
  assumes "i < length xs" "P x" "\<And>j. j < i \<Longrightarrow> \<not> P (xs ! j)"
  shows "first_idx P (xs[i := x]) = Some i"
  using assms by (auto simp: first_idx_Some)

text \<open>
  A reply reaches the client that asked: after a text of a client that names its chat, a reply addressed to the chat id of the message the agent received goes as
  one well-formed text frame to this client's socket, provided that no client in an earlier slot uses the same name.
\<close>

theorem reply_reaches_sender:
  assumes "find_by_fd_locked w fd = Some i" "we_json e (takeWhile (\<lambda>b. b \<noteq> 0) p) = Some root" "j_type root = Some ''message''"
    "j_content root = Some content" "j_chat_id root = Some name" "length name < 31"
    "\<And>j. j < i \<Longrightarrow> \<not> (wc_active (s_clients w ! j) \<and> wc_chat_id (s_clients w ! j) = name)"
    "handle_text e fd p chat w = (chat1, w1)" "0 \<le> s_listen_fd w" "s_running w" "print body name = Some json" "length json < n" "n \<le> 65536"
    "we_keep e (ws_inbound w) (ws_msg name content)"
  shows "\<exists>msg frame. ws_inbound w1 = ws_inbound w @ [msg] \<and> msg_content msg = Some content
    \<and> ws_server_send print True True (msg_chat_id msg) body w1 = (OK, w1\<lparr>ws_wire := ws_wire w1 @ [(fd, frame)]\<rparr>)
    \<and> ws_recv_frame net n frame = Some (int (length json), json, [], [])"
proof -
  note i = first_idx_SomeD [OF assms(1) [unfolded find_by_fd_locked_def]]
  let ?c = "(s_clients w ! i)\<lparr>wc_chat_id := name\<rparr>"
  have name: "cstr_copy 32 name = name" "local_chat_id e name = name" "cstr_copy 64 name = name"
    using assms(6) by (simp_all add: cstr_copy_fits local_chat_id_def)
  have w1: "w1 = w\<lparr>s_clients := (s_clients w)[i := ?c], ws_inbound := ws_inbound w @ [ws_msg name content]\<rparr>"
    using assms(8) i(1) assms(14) by (auto simp: handle_text_def assms(1-5) set_chat_id_def name Let_def)
  have "find_by_chat_id_locked w1 name = Some i"
    unfolding w1 find_by_chat_id_locked_def using i assms(7) by (simp add: first_idx_update)
  moreover obtain hdr where hdr: "ws_frame_header (length json) = Some hdr" "ws_recv_frame net n (hdr @ json @ []) = Some (int (length json), json, [], [])"
    using recv_server_frame [OF assms(12,13)] by blast
  moreover have "hdr @ json \<noteq> []" using hdr(1) by (auto simp: ws_frame_header_def split: if_splits)
  ultimately have "ws_server_send print True True name body w1 = (OK, w1\<lparr>ws_wire := ws_wire w1 @ [(fd, hdr @ json)]\<rparr>)"
    using i assms(9-11) by (auto simp: ws_server_send_def ws_send_frame_def wire_send_def w1)
  moreover have "msg_chat_id (ws_msg name content) = name" by (simp add: ws_msg_def name)
  ultimately show ?thesis using hdr(2) w1
    by (intro exI [of _ "ws_msg name content"] exI [of _ "hdr @ json"]) (simp add: ws_msg_def)
qed

lemma obey_text_message:
  "we_json e (takeWhile (\<lambda>b. b \<noteq> 0) p) = None \<Longrightarrow> handle_text e fd p chat w = (chat, w)"
  by (simp add: handle_text_def)

definition sample_busy :: ws_server where
  "sample_busy = sample_server\<lparr>s_clients := (replicate 8 zero_client)[0 := \<lparr>wc_fd = 5, wc_chat_id = ''ws_5'', wc_active = True\<rparr>]\<rparr>"

definition sample_reply :: "string \<Rightarrow> string \<Rightarrow> u8 list option" where
  "sample_reply body name = Some [42]"

definition sample_root :: ws_json where
  "sample_root = \<lparr>j_type = Some ''message'', j_content = Some ''hi'', j_chat_id = Some ''bob''\<rparr>"

theorem reply_reaches_sender_witness:
  "\<exists>msg. ws_inbound (snd (handle_text ws_sample_env 5 [7] ''ws_5'' sample_busy)) = [msg] \<and> msg_content msg = Some ''hi''
    \<and> fst (ws_server_send sample_reply True True (msg_chat_id msg) ''ok'' (snd (handle_text ws_sample_env 5 [7] ''ws_5'' sample_busy))) = OK"
proof -
  let ?h = "handle_text ws_sample_env 5 [7] ''ws_5'' sample_busy"
  have f: "find_by_fd_locked sample_busy 5 = Some 0" by (simp add: find_by_fd_locked_def sample_busy_def numeral_eq_Suc)
  have r: "we_json ws_sample_env (takeWhile (\<lambda>b. b \<noteq> 0) [7]) = Some sample_root" "j_type sample_root = Some ''message''"
    "j_content sample_root = Some ''hi''" "j_chat_id sample_root = Some ''bob''" "length ''bob'' < 31"
    by (simp_all add: ws_sample_env_def sample_root_def)
  have h: "?h = (fst ?h, snd ?h)" by simp
  have s: "0 \<le> s_listen_fd sample_busy" "s_running sample_busy" "sample_reply ''ok'' ''bob'' = Some [42]" "length [42 :: u8] < 100" "(100 :: nat) \<le> 65536"
    "we_keep ws_sample_env (ws_inbound sample_busy) (ws_msg ''bob'' ''hi'')" "ws_inbound sample_busy = []"
    by (simp_all add: sample_busy_def sample_server_def sample_reply_def ws_sample_env_def)
  show ?thesis using reply_reaches_sender [where print = sample_reply and body = "''ok''" and json = "[42]" and n = 100 and net = "\<lambda>_. 0", OF f r _ h s(1-6)] s(7)
    by force
qed

section \<open>The table and the threads\<close>

text \<open>
  The state of the channel from one start on, with ghosts: the sockets whose threads still shake
  hands, the sockets of the registered threads, and every socket that was opened so far. A socket
  that \<^verbatim>\<open>accept\<close> returns has a number that is not in use, because the kernel gives no number that is
  still open.
\<close>

definition slot_holds :: "ws_server \<Rightarrow> nat \<Rightarrow> int \<Rightarrow> bool" where
  "slot_holds w i fd \<longleftrightarrow> i < length (s_clients w) \<and> wc_active (s_clients w ! i) \<and> wc_fd (s_clients w ! i) = fd"

definition in_use :: "ws_server \<Rightarrow> int list \<Rightarrow> int list \<Rightarrow> int \<Rightarrow> bool" where
  "in_use w shaking live fd \<longleftrightarrow> fd \<in> set shaking \<or> fd \<in> set live \<or> (fd = s_listen_fd w \<and> 0 \<le> fd)"

inductive ws_reach :: "ws_server \<Rightarrow> int list \<Rightarrow> int list \<Rightarrow> int list \<Rightarrow> bool" where
  boot: "ws_server_start fd b l t w0 = (OK, w) \<Longrightarrow> ws_closed w0 = [] \<Longrightarrow> ws_reach w [] [] [fd]"
| accept: "ws_reach w shaking live opened \<Longrightarrow> \<not> in_use w shaking live fd \<Longrightarrow> accept_round pr fd mem tok w = (Some fd, w1) \<Longrightarrow>
    ws_reach w1 (fd # shaking) live (fd # opened)"
| drop: "ws_reach w shaking live opened \<Longrightarrow> \<not> in_use w shaking live fd \<Longrightarrow> s_running w \<Longrightarrow> 0 < pr \<Longrightarrow> 0 \<le> fd \<Longrightarrow>
    accept_round pr fd mem tok w = (None, w1) \<Longrightarrow> ws_reach w1 shaking live (fd # opened)"
| enter: "ws_reach w shaking live opened \<Longrightarrow> fd \<in> set shaking \<Longrightarrow> client_enter fd response w = (True, w1) \<Longrightarrow>
    ws_reach w1 (remove1 fd shaking) (fd # live) opened"
| refuse: "ws_reach w shaking live opened \<Longrightarrow> fd \<in> set shaking \<Longrightarrow> client_enter fd response w = (False, w1) \<Longrightarrow>
    ws_reach w1 (remove1 fd shaking) live opened"
| round: "ws_reach w shaking live opened \<Longrightarrow> fd \<in> set live \<Longrightarrow> client_round e fd s chat w = (rest, chat1, w1) \<Longrightarrow>
    ws_reach w1 shaking live opened"
| leave: "ws_reach w shaking live opened \<Longrightarrow> fd \<in> set live \<Longrightarrow>
    ws_reach (remove_client_locked fd w) shaking (removeAll fd live) opened"
| send: "ws_reach w shaking live opened \<Longrightarrow> ws_server_send print ok1 ok2 chat_id body w = (ret, w1) \<Longrightarrow> ws_reach w1 shaking live opened"
| stop: "ws_reach w shaking live opened \<Longrightarrow> ws_server_stop w = (ret, w1) \<Longrightarrow> ws_reach w1 shaking live opened"

text \<open>Every number was closed as often as it was opened, less once while it is in use.\<close>

definition closes_ok :: "ws_server \<Rightarrow> int list \<Rightarrow> int list \<Rightarrow> int list \<Rightarrow> bool" where
  "closes_ok w shaking live opened \<longleftrightarrow> distinct shaking \<and> set shaking \<inter> set live = {}
     \<and> (\<forall>fd \<in> set shaking \<union> set live. 0 \<le> fd \<and> fd \<noteq> s_listen_fd w)
     \<and> (\<forall>fd. count_list (ws_closed w) fd + (if in_use w shaking live fd then 1 else 0) = count_list opened fd)"

definition table_ok :: "ws_server \<Rightarrow> int list \<Rightarrow> bool" where
  "table_ok w live \<longleftrightarrow> length (s_clients w) = AGENT_WS_MAX_CLIENTS \<and> distinct live
     \<and> (\<forall>fd. (\<exists>i. slot_holds w i fd) \<longleftrightarrow> fd \<in> set live) \<and> (\<forall>i j fd. slot_holds w i fd \<longrightarrow> slot_holds w j fd \<longrightarrow> i = j)"

lemma slot_holds_cong: "s_clients w1 = s_clients w \<Longrightarrow> slot_holds w1 = slot_holds w"
  by (simp add: slot_holds_def fun_eq_iff)

lemma table_ok_cong:
  assumes "\<And>i f. slot_holds w1 i f = slot_holds w i f" "length (s_clients w1) = length (s_clients w)" "table_ok w live"
  shows "table_ok w1 live"
  using assms(3) unfolding table_ok_def assms(1,2) .

lemma set_chat_id_holds: "slot_holds (set_chat_id k cid w) i fd = slot_holds w i fd"
  by (cases "i = k") (auto simp: slot_holds_def set_chat_id_def split: option.splits)

lemma handle_text_holds:
  assumes "handle_text e fd p chat w = (chat1, w1)"
  shows "slot_holds w1 i f = slot_holds w i f \<and> length (s_clients w1) = length (s_clients w)"
proof -
  consider "w1 = w" | k cid where "w1 = set_chat_id k cid w" | k cid ms where "w1 = (set_chat_id k cid w)\<lparr>ws_inbound := ms\<rparr>" | ms where "w1 = w\<lparr>ws_inbound := ms\<rparr>"
    using assms by (auto simp: handle_text_def Let_def split: option.splits if_splits)
  then show ?thesis
  proof cases
    case 2
    then show ?thesis using set_chat_id_holds [of k cid w i f] by simp
  next
    case 3
    then show ?thesis using set_chat_id_holds [of k cid w i f] by (simp add: slot_holds_def)
  qed (simp_all add: slot_holds_def)
qed

lemma enter_registered:
  assumes "table_ok w live" "fd \<notin> set live" "client_enter fd response w = (True, w1)"
  shows "table_ok w1 (fd # live)"
proof -
  obtain i where i: "first_idx (\<lambda>c. \<not> wc_active c) (s_clients w) = Some i"
    and w1: "s_clients w1 = (s_clients w)[i := \<lparr>wc_fd = fd, wc_chat_id = default_chat_id fd, wc_active = True\<rparr>]"
    using assms(3) by (auto simp: client_enter_def add_client_locked_def split: option.splits prod.splits)
  have h: "slot_holds w1 j f = (if j = i then f = fd else slot_holds w j f)" for j f
    using first_idx_SomeD(1) [OF i] by (auto simp: slot_holds_def w1 nth_list_update)
  have free: "\<not> slot_holds w i f" for f using first_idx_SomeD(2) [OF i] by (simp add: slot_holds_def)
  have t: "length (s_clients w) = AGENT_WS_MAX_CLIENTS" "distinct live" "\<And>f. (\<exists>j. slot_holds w j f) \<longleftrightarrow> f \<in> set live"
    "\<And>j k f. slot_holds w j f \<Longrightarrow> slot_holds w k f \<Longrightarrow> j = k"
    using assms(1) unfolding table_ok_def by blast+
  have "(\<exists>j. slot_holds w1 j f) \<longleftrightarrow> f \<in> set (fd # live)" for f unfolding h using t(3) [of f] free by (metis list.set_intros set_ConsD)
  moreover have "j = k" if "slot_holds w1 j f" "slot_holds w1 k f" for j k f
    using that t(3) [of fd] t(4) assms(2) unfolding h by (auto split: if_splits)
  ultimately show ?thesis unfolding table_ok_def using t(1,2) assms(2) by (simp add: w1)
qed

lemma leave_unregistered:
  assumes "table_ok w live" "fd \<in> set live"
  shows "table_ok (remove_client_locked fd w) (removeAll fd live)" "ws_closed (remove_client_locked fd w) = ws_closed w @ [fd]"
proof -
  obtain j where "slot_holds w j fd" using assms unfolding table_ok_def by blast
  then obtain i where i: "find_by_fd_locked w fd = Some i"
    using first_idx_exists [of j "s_clients w" "\<lambda>c. wc_active c \<and> wc_fd c = fd"] unfolding find_by_fd_locked_def slot_holds_def by blast
  from first_idx_SomeD(1,2) [OF i [unfolded find_by_fd_locked_def]] have here: "slot_holds w i fd" by (simp add: slot_holds_def)
  have w1: "s_clients (remove_client_locked fd w) = (s_clients w)[i := (s_clients w ! i)\<lparr>wc_active := False, wc_fd := - 1\<rparr>]"
    by (simp add: remove_client_locked_def i)
  have h: "slot_holds (remove_client_locked fd w) j f = (j \<noteq> i \<and> slot_holds w j f)" for j f
    by (cases "j = i") (auto simp: slot_holds_def w1)
  show "ws_closed (remove_client_locked fd w) = ws_closed w @ [fd]" by (simp add: remove_client_locked_def i)
  have t: "length (s_clients w) = AGENT_WS_MAX_CLIENTS" "distinct live" "\<And>f. (\<exists>j. slot_holds w j f) \<longleftrightarrow> f \<in> set live"
    "\<And>j k f. slot_holds w j f \<Longrightarrow> slot_holds w k f \<Longrightarrow> j = k"
    using assms(1) unfolding table_ok_def by blast+
  have "slot_holds w i f \<Longrightarrow> f = fd" for f using here by (simp add: slot_holds_def)
  then have "(\<exists>j. j \<noteq> i \<and> slot_holds w j f) \<longleftrightarrow> f \<in> set live \<and> f \<noteq> fd" for f
    using t(3) [of f] t(4) [of _ fd i] here by metis
  then have "(\<exists>j. slot_holds (remove_client_locked fd w) j f) \<longleftrightarrow> f \<in> set (removeAll fd live)" for f
    unfolding h by auto
  moreover have "j = k" if "slot_holds (remove_client_locked fd w) j f" "slot_holds (remove_client_locked fd w) k f" for j k f
    using that t(4) unfolding h by blast
  ultimately show "table_ok (remove_client_locked fd w) (removeAll fd live)"
    unfolding table_ok_def using t(1,2) by (simp add: w1 distinct_removeAll)
qed

text \<open>The steps other than registration, leaving and stopping keep table and sockets.\<close>

lemma refuse_fields:
  assumes "client_enter fd response w = (False, w1)"
  shows "s_clients w1 = s_clients w" "s_listen_fd w1 = s_listen_fd w" "ws_closed w1 = ws_closed w @ [fd]"
  using assms by (auto simp: client_enter_def add_client_locked_def split: option.splits prod.splits)

lemma enter_fields:
  assumes "client_enter fd response w = (True, w1)"
  shows "s_listen_fd w1 = s_listen_fd w" "ws_closed w1 = ws_closed w"
  using assms by (auto simp: client_enter_def add_client_locked_def split: option.splits prod.splits)

lemma send_fields:
  assumes "ws_server_send print ok1 ok2 chat_id body w = (ret, w1)"
  shows "s_clients w1 = s_clients w" "s_listen_fd w1 = s_listen_fd w" "ws_closed w1 = ws_closed w"
  using assms by (auto simp: ws_server_send_def Let_def split: if_splits option.splits prod.splits)

lemma round_fields:
  assumes "client_round e fd s chat w = (rest, chat1, w1)"
  shows "slot_holds w1 i f = slot_holds w i f" "length (s_clients w1) = length (s_clients w)"
    "s_listen_fd w1 = s_listen_fd w" "ws_closed w1 = ws_closed w"
  using assms handle_text_holds [of e fd _ chat "wire_send fd _ w" _ w1 i f] handle_text_fields(2,3) [of e fd _ chat "wire_send fd _ w" _ w1]
  by (auto simp: client_round_def Let_def slot_holds_def split: if_splits option.splits prod.splits)

lemma accept_fields:
  assumes "accept_round pr fd mem tok w = (Some fd, w1)"
  shows "w1 = w" "0 \<le> fd"
  using assms by (auto simp: accept_round_def split: if_splits)

lemma drop_fields:
  assumes "accept_round pr fd mem tok w = (None, w1)" "s_running w" "0 < pr" "0 \<le> fd"
  shows "w1 = w\<lparr>ws_closed := ws_closed w @ [fd]\<rparr>"
  using assms by (auto simp: accept_round_def split: if_splits)

lemma remove_fields: "s_listen_fd (remove_client_locked fd w) = s_listen_fd w"
  by (simp add: remove_client_locked_def split: option.splits)

lemma closes_close:
  assumes "closes_ok w shaking live opened" "in_use w shaking live fd" "ws_closed w1 = ws_closed w @ [fd]"
    "\<And>f. in_use w1 shaking1 live1 f = (f \<noteq> fd \<and> in_use w shaking live f)"
    "distinct shaking1" "set shaking1 \<inter> set live1 = {}" "\<And>f. f \<in> set shaking1 \<union> set live1 \<Longrightarrow> 0 \<le> f \<and> f \<noteq> s_listen_fd w1"
  shows "closes_ok w1 shaking1 live1 opened"
proof -
  have "count_list (ws_closed w1) f + (if in_use w1 shaking1 live1 f then 1 else 0) = count_list opened f" for f
  proof -
    have "count_list (ws_closed w) f + (if in_use w shaking live f then 1 else 0) = count_list opened f"
      using assms(1) unfolding closes_ok_def by blast
    then show ?thesis unfolding assms(3,4) using assms(2) by (cases "f = fd") auto
  qed
  with assms(5-7) show ?thesis by (auto simp: closes_ok_def)
qed

lemma reach_table_ok: "ws_reach w shaking live opened \<Longrightarrow> table_ok w live \<and> closes_ok w shaking live opened"
proof (induction rule: ws_reach.induct)
  case (boot fd b l t w0 w)
  then have "s_clients w = replicate AGENT_WS_MAX_CLIENTS zero_client" "0 \<le> fd" "s_listen_fd w = fd" "ws_closed w = []"
    by (auto simp: ws_server_start_def Let_def c_consts split: if_splits)
  then show ?case by (auto simp: table_ok_def slot_holds_def zero_client_def closes_ok_def in_use_def)
next
  case (accept w shaking live opened fd pr mem tok w1)
  have "count_list (ws_closed w) fd = count_list opened fd" using accept.IH accept(2) unfolding closes_ok_def by (metis add_0_right)
  then show ?case using accept accept_fields [OF accept(3)] by (auto simp: closes_ok_def in_use_def)
next
  case (drop w shaking live opened fd pr mem tok w1)
  have w1: "w1 = w\<lparr>ws_closed := ws_closed w @ [fd]\<rparr>" using drop by (intro drop_fields)
  have "table_ok w1 live" using drop.IH by (intro table_ok_cong [of w1 w]) (simp_all add: w1 slot_holds_def)
  then show ?case using drop.IH drop(2) by (auto simp: w1 closes_ok_def in_use_def)
next
  case (enter w shaking live opened fd response w1)
  have new: "fd \<notin> set live" using enter by (auto simp: closes_ok_def)
  have use: "in_use w1 (remove1 fd shaking) (fd # live) f = in_use w shaking live f" for f
    using enter by (auto simp: in_use_def enter_fields [OF enter(3)] closes_ok_def)
  have "table_ok w1 (fd # live)" using enter new by (intro enter_registered) auto
  then show ?case using enter new unfolding closes_ok_def use by (auto simp: enter_fields [OF enter(3)])
next
  case (refuse w shaking live opened fd response w1)
  note f = refuse_fields [OF refuse(3)]
  have "table_ok w1 live" using refuse.IH by (intro table_ok_cong [of w1 w]) (simp_all add: slot_holds_def f)
  moreover have "closes_ok w1 (remove1 fd shaking) live opened"
    using refuse.IH refuse(2) by (intro closes_close [of w shaking live opened fd w1]) (auto simp: closes_ok_def in_use_def f)
  ultimately show ?case by simp
next
  case (round w shaking live opened fd e s chat rest chat1 w1)
  note f = round_fields [OF round(3)]
  have "table_ok w1 live" using round.IH by (intro table_ok_cong [of w1 w]) (simp_all add: f)
  then show ?case using round.IH by (simp add: closes_ok_def in_use_def f)
next
  case (leave w shaking live opened fd)
  have t: "table_ok w live" and c: "closes_ok w shaking live opened" using leave.IH by simp_all
  have d: "distinct shaking" "set shaking \<inter> set live = {}" "\<And>f. f \<in> set shaking \<union> set live \<Longrightarrow> 0 \<le> f \<and> f \<noteq> s_listen_fd w"
    using c unfolding closes_ok_def by blast+
  have "closes_ok (remove_client_locked fd w) shaking (removeAll fd live) opened"
  proof (rule closes_close [OF c _ leave_unregistered(2) [OF t leave(2)]])
    show "in_use w shaking live fd" using leave(2) by (simp add: in_use_def)
    show "in_use (remove_client_locked fd w) shaking (removeAll fd live) f = (f \<noteq> fd \<and> in_use w shaking live f)" for f
      using d(2) d(3) [of fd] leave(2) by (auto simp: in_use_def remove_fields)
  qed (use d in \<open>auto simp: remove_fields\<close>)
  then show ?case using leave_unregistered(1) [OF t leave(2)] by simp
next
  case (send w shaking live opened print ok1 ok2 chat_id body ret w1)
  note f = send_fields [OF send(2)]
  have "table_ok w1 live" using send.IH by (intro table_ok_cong [of w1 w]) (simp_all add: slot_holds_def f)
  then show ?case using send.IH by (simp add: closes_ok_def in_use_def f)
next
  case (stop w shaking live opened ret w1)
  then have "s_clients w1 = s_clients w" by (auto simp: ws_server_stop_def split: if_splits)
  then have "table_ok w1 live" using stop.IH by (intro table_ok_cong [of w1 w]) (simp_all add: slot_holds_def)
  moreover have "closes_ok w1 shaking live opened"
  proof (cases "0 \<le> s_listen_fd w")
    case True
    then have "ws_closed w1 = ws_closed w @ [s_listen_fd w]" "s_listen_fd w1 = - 1" using stop(2) by (auto simp: ws_server_stop_def)
    note w1 = this
    have c: "closes_ok w shaking live opened" using stop.IH by simp
    have d: "distinct shaking" "set shaking \<inter> set live = {}" "\<And>f. f \<in> set shaking \<union> set live \<Longrightarrow> 0 \<le> f \<and> f \<noteq> s_listen_fd w"
      using c unfolding closes_ok_def by blast+
    show ?thesis
    proof (rule closes_close [OF c _ w1(1)])
      show "in_use w shaking live (s_listen_fd w)" using True by (simp add: in_use_def)
      show "in_use w1 shaking live f = (f \<noteq> s_listen_fd w \<and> in_use w shaking live f)" for f
        using d(3) [of f] by (auto simp: in_use_def w1(2))
    qed (use d w1(2) in force)+
  next
    case False
    then have f: "ws_closed w1 = ws_closed w" "s_listen_fd w1 = s_listen_fd w" using stop(2) by (auto simp: ws_server_stop_def)
    then have "in_use w1 shaking live = in_use w shaking live" by (simp add: in_use_def fun_eq_iff)
    then show ?thesis using stop.IH f by (simp add: closes_ok_def)
  qed
  ultimately show ?case by simp
qed

lemma live_bounded:
  assumes "table_ok w live"
  shows "length live \<le> AGENT_WS_MAX_CLIENTS"
proof -
  have "set live \<subseteq> wc_fd ` set (s_clients w)"
  proof
    fix fd assume "fd \<in> set live"
    then obtain i where "slot_holds w i fd" using assms unfolding table_ok_def by blast
    then show "fd \<in> wc_fd ` set (s_clients w)" by (auto simp: slot_holds_def)
  qed
  then have "card (set live) \<le> card (wc_fd ` set (s_clients w))" by (intro card_mono) auto
  also have "\<dots> \<le> length (s_clients w)" using card_image_le [of "set (s_clients w)" wc_fd] card_length [of "s_clients w"] by simp
  finally show ?thesis using assms by (simp add: table_ok_def distinct_card)
qed

text \<open>
  C21. From one start of the channel on, under every interleaving of accepted, connecting, talking and leaving clients, replies and a stop, the client table lists
  exactly the sockets of the registered threads, each in one slot, at most eight. Every socket number has been closed exactly as often as it was opened, less once
  while a thread or the listener has it: no socket is closed twice, none in use is closed, and none is left open.
\<close>

theorem table_follows_threads:
  assumes "ws_reach w shaking live opened"
  shows "length live \<le> 8 \<and> distinct live \<and> (find_by_fd_locked w fd \<noteq> None \<longleftrightarrow> fd \<in> set live)
    \<and> (\<forall>i j. slot_holds w i fd \<and> slot_holds w j fd \<longrightarrow> i = j)
    \<and> count_list (ws_closed w) fd + (if fd \<in> set shaking \<or> fd \<in> set live \<or> (fd = s_listen_fd w \<and> 0 \<le> fd) then 1 else 0)
       = count_list opened fd"
proof -
  have ok: "table_ok w live" and cl: "closes_ok w shaking live opened" using reach_table_ok [OF assms] by auto
  have "(find_by_fd_locked w fd \<noteq> None) = (\<exists>i. slot_holds w i fd)"
    unfolding find_by_fd_locked_def slot_holds_def by (auto simp: first_idx_None_nth)
  also have "\<dots> = (fd \<in> set live)" using ok unfolding table_ok_def by blast
  finally have f: "(find_by_fd_locked w fd \<noteq> None) = (fd \<in> set live)" .
  have "count_list (ws_closed w) fd + (if in_use w shaking live fd then 1 else 0) = count_list opened fd"
    using cl unfolding closes_ok_def by blast
  moreover have "\<forall>i j. slot_holds w i fd \<and> slot_holds w j fd \<longrightarrow> i = j" using ok unfolding table_ok_def by blast
  ultimately show ?thesis using f live_bounded [OF ok] ok by (simp add: table_ok_def c_consts in_use_def)
qed

text \<open>A client connects, registers and leaves: its socket is closed once, the listener still open.\<close>

theorem table_follows_threads_witness:
  "find_by_fd_locked (remove_client_locked 5 (snd (client_enter 5 (Some ''x'') sample_server))) 5 = None
   \<and> count_list (ws_closed (remove_client_locked 5 (snd (client_enter 5 (Some ''x'') sample_server)))) 5 = 1"
proof -
  have "ws_server_start 3 True True True sample_server = (OK, sample_server)" "ws_closed sample_server = []"
    by (simp_all add: ws_server_start_def Let_def sample_server_def c_consts)
  note r1 = ws_reach.boot [OF this]
  have "\<not> in_use sample_server [] [] 5" "accept_round 1 5 True True sample_server = (Some 5, sample_server)"
    by (simp_all add: in_use_def accept_round_def sample_server_def)
  note r2 = ws_reach.accept [OF r1 this]
  have "client_enter 5 (Some ''x'') sample_server = (True, snd (client_enter 5 (Some ''x'') sample_server))"
    by (simp add: client_enter_def add_client_locked_def sample_server_def wire_send_def bytes_of_def zero_client_def numeral_eq_Suc)
  note r3 = ws_reach.leave [OF ws_reach.enter [OF r2 _ this], of 5] and l = enter_fields(1) [OF this]
  have "s_listen_fd (snd (client_enter 5 (Some ''x'') sample_server)) = 3" unfolding l by (simp add: sample_server_def)
  then show ?thesis using table_follows_threads [OF r3, of 5] by (simp add: remove_fields)
qed

section \<open>Where the channel fails\<close>

text \<open>An empty text is taken for the end of the connection.\<close>

lemma empty_text_ends_session:
  assumes "length key = 4" "s_running w"
  shows "client_loop e fd (client_frame 1 key [] @ s) chat w = w"
  using assms recv_text [of "[]" 4096 key "we_net e" s] by (subst client_loop.simps) (simp add: client_round_def)

text \<open>
  A frame with another opcode, such as the continuation of a fragmented message, is skipped
  without its payload: the reader goes on in the middle of it.
\<close>

lemma continuation_not_consumed:
  assumes "length p < 126"
  shows "ws_recv_frame net n (client_frame 0 key p @ s) = Some (- 2, [], [], key @ apply_mask key p @ s)"
proof -
  have "unat (128 :: u8) mod 16 = 0" by simp
  then show ?thesis using assms by (simp add: ws_recv_frame_def client_frame_def client_length_def frame_body_def low_bits)
qed

text \<open>A restart clears the table under the threads that are still alive: their sockets are never closed.\<close>

lemma restart_leaks_sockets:
  "ws_closed (remove_client_locked fd (snd (ws_server_start lfd True True True w))) = ws_closed w" if "0 \<le> lfd"
proof -
  have "find_by_fd_locked (snd (ws_server_start lfd True True True w)) fd = None"
    using that by (auto simp: find_by_fd_locked_def ws_server_start_def Let_def first_idx_None zero_client_def)
  then show ?thesis using that by (simp add: remove_client_locked_def ws_server_start_def Let_def)
qed

text \<open>A client may take the name of another: when it sits in an earlier slot, it gets the other's replies.\<close>

lemma chat_id_taken_over:
  assumes "find_by_fd_locked w fd = Some i" "find_by_chat_id_locked w name = Some k" "i < k" "length name < 31"
    "we_json e (takeWhile (\<lambda>b. b \<noteq> 0) p) = Some \<lparr>j_type = Some ''message'', j_content = Some c, j_chat_id = Some name\<rparr>"
    "handle_text e fd p chat w = (chat1, w1)"
  shows "find_by_chat_id_locked w1 name = Some i"
proof -
  note i = first_idx_SomeD [OF assms(1) [unfolded find_by_fd_locked_def]] and k = first_idx_SomeD [OF assms(2) [unfolded find_by_chat_id_locked_def]]
  have "s_clients w1 = (s_clients w)[i := (s_clients w ! i)\<lparr>wc_chat_id := name\<rparr>]"
    using assms(4,6) by (auto simp: handle_text_def assms(1,5) set_chat_id_def cstr_copy_fits Let_def)
  then show ?thesis unfolding find_by_chat_id_locked_def using i k(3) assms(3) by (simp add: first_idx_update)
qed

end
