(* ===== verification/Chat_History.thy ===== *)
theory Chat_History
  imports Prelude
begin

text \<open>
  The contract between the agent loop and the store of the chats: what the loop reads as the
  recent history of a chat after it has written to this or another chat.
\<close>

definition take_last :: "nat \<Rightarrow> 'a list \<Rightarrow> 'a list" where
  "take_last n xs = drop (length xs - n) xs"

lemma take_last_all: "length xs \<le> n \<Longrightarrow> take_last n xs = xs"
  by (simp add: take_last_def)

lemma length_take_last [simp]: "length (take_last n xs) = min n (length xs)"
  by (simp add: take_last_def)

lemma take_last_append: "take_last n (xs @ ys) = take_last (n - length ys) xs @ take_last n ys"
  by (cases "n \<le> length ys") (simp_all add: take_last_def)

lemma take_last_take_last: "n \<le> m \<Longrightarrow> take_last n (take_last m xs) = take_last n xs"
  by (cases "m \<le> length xs") (simp_all add: take_last_def)

lemma take_last_of_append: "n \<le> m \<Longrightarrow> take_last n (take_last m xs @ ys) = take_last n (xs @ ys)"
  by (simp add: take_last_append take_last_take_last)

lemma take_last_map: "take_last n (map f xs) = map f (take_last n xs)"
  by (simp add: take_last_def drop_map)

text \<open>
  \<open>recent n k s\<close> are the last \<open>n\<close> entries of the chat \<open>k\<close>; \<open>same\<close> tells which chats share their
  storage, \<open>ok\<close> which entries can be stored, \<open>cap\<close> up to which \<open>n\<close> the store remembers.
\<close>

locale chat_history =
  fixes inv :: "'s \<Rightarrow> bool"
    and ok :: "'e \<Rightarrow> bool"
    and same :: "'k \<Rightarrow> 'k \<Rightarrow> bool"
    and put :: "'k \<Rightarrow> 'e \<Rightarrow> 's \<Rightarrow> 's"
    and recent :: "nat \<Rightarrow> 'k \<Rightarrow> 's \<Rightarrow> 'e list"
    and cap :: nat
  assumes recent_length: "inv s \<Longrightarrow> length (recent n k s) \<le> n"
    and put_inv: "inv s \<Longrightarrow> ok e \<Longrightarrow> inv (put k e s)"
    and recent_put: "inv s \<Longrightarrow> ok e \<Longrightarrow> same j k \<Longrightarrow> n \<le> cap \<Longrightarrow> recent n j (put k e s) = take_last n (recent n j s @ [e])"
    and recent_other: "inv s \<Longrightarrow> ok e \<Longrightarrow> \<not> same j k \<Longrightarrow> recent n j (put k e s) = recent n j s"
begin

text \<open>A conversation: the entries are written one after the other, in any mixture of chats.\<close>

lemma puts_inv: "inv s \<Longrightarrow> list_all (\<lambda>(k, e). ok e) kes \<Longrightarrow> inv (fold (\<lambda>(k, e). put k e) kes s)"
  by (induction kes arbitrary: s) (auto simp: put_inv)

lemma recent_conversation:
  assumes "inv s" "list_all (\<lambda>(k, e). ok e) kes" "n \<le> cap"
  shows "recent n j (fold (\<lambda>(k, e). put k e) kes s) = take_last n (recent n j s @ map snd (filter (\<lambda>(k, e). same j k) kes))"
  using assms
proof (induction kes arbitrary: s)
  case Nil
  then show ?case using recent_length by (simp add: take_last_all)
next
  case (Cons ke kes)
  obtain k e where ke: "ke = (k, e)" by fastforce
  have step: "inv (put k e s)" "list_all (\<lambda>(k, e). ok e) kes" using Cons.prems put_inv by (auto simp: ke)
  note ih = Cons.IH [OF step Cons.prems(3)]
  show ?case
  proof (cases "same j k")
    case True
    have "recent n j (put k e s) = take_last n (recent n j s @ [e])" using Cons.prems True recent_put by (auto simp: ke)
    with ih True show ?thesis by (simp add: ke take_last_of_append)
  next
    case False
    have "recent n j (put k e s) = recent n j s" using Cons.prems False recent_other by (auto simp: ke)
    with ih False show ?thesis by (simp add: ke)
  qed
qed

end

end
