(* ===== verification/Session_Mgr.thy ===== *)
theory Session_Mgr
  imports Chat_History C_Text
begin

text \<open>
  The session files of the agent (\<^verbatim>\<open>services/ai_agent/src/core/session_mgr.c\<close>): one file of JSON
  lines per chat, appended to, cut to its last lines from time to time and read back through a
  ring of the most recent messages. The JSON library is an argument; the files are a map.
\<close>

definition AGENT_SESSION_MAX_MSGS :: nat where [c_consts]: "AGENT_SESSION_MAX_MSGS = 20"
definition AGENT_SESSION_DIR :: string where "AGENT_SESSION_DIR = AGENT_DATA_DIR @ ''/sessions''"
definition LINE_BUF :: nat where [c_consts]: "LINE_BUF = 8192"

section \<open>Names of files\<close>

definition safe_char :: "char \<Rightarrow> char" where
  "safe_char c =
     (let n = of_char c :: nat in
      if 65 \<le> n \<and> n \<le> 90 \<or> 97 \<le> n \<and> n \<le> 122 \<or> 48 \<le> n \<and> n \<le> 57 \<or> c = CHR ''-'' \<or> c = CHR ''_'' \<or> c = CHR ''.''
      then c else CHR ''_'')"

definition sanitize_filename :: "string \<Rightarrow> nat \<Rightarrow> string" where
  "sanitize_filename src dst_size = map safe_char (take (dst_size - 1) src)"

definition session_path :: "string \<Rightarrow> string" where
  "session_path chat_id = cstr_copy 128 (AGENT_SESSION_DIR @ ''/tg_'' @ sanitize_filename chat_id 64 @ ''.jsonl'')"

section \<open>Lines\<close>

text \<open>Files are read by \<^verbatim>\<open>fgets\<close> into a line buffer; empty lines do not count.\<close>

definition counted :: "string \<Rightarrow> bool" where
  "counted line \<longleftrightarrow> cstr line \<noteq> [] \<and> hd line \<noteq> CHR 0x0A"

section \<open>The store\<close>

record sess_entry =
  e_role :: string
  e_content :: string

record sessions =
  sess_files :: "string \<Rightarrow> string option"
  s_append_count :: int

record sess_env =
  se_print :: "sess_entry \<Rightarrow> string option"
  se_parse :: "string \<Rightarrow> sess_entry option option"

text \<open>
  \<open>se_print\<close> builds the line of an entry (with the time, which nobody reads); \<open>se_parse\<close> gives for a
  text that is JSON its role and content, when both are there.
\<close>

fun skip_lines :: "nat \<Rightarrow> string list \<Rightarrow> string list" where
  "skip_lines 0 ls = ls"
| "skip_lines (Suc k) [] = []"
| "skip_lines (Suc k) (l # ls) = (if counted l then skip_lines k ls else skip_lines (Suc k) ls)"

text \<open>
  \<open>tmp_ok\<close> tells whether the temporary file can be opened. Once it is open, writing it and putting it
  in the place of the session file are taken to succeed; the code does not look at the results of
  \<^verbatim>\<open>fputs\<close>, \<^verbatim>\<open>remove\<close> and \<^verbatim>\<open>rename\<close>, and what a disk that fails in between leaves behind is not modelled.
\<close>

definition session_truncate :: "bool \<Rightarrow> string \<Rightarrow> nat \<Rightarrow> sessions \<Rightarrow> sessions" where
  "session_truncate tmp_ok chat_id max_lines s =
     (let path = session_path chat_id in
      case sess_files s path of
        None \<Rightarrow> s
      | Some content \<Rightarrow>
          let ls = fgets_lines LINE_BUF content;
              total_lines = length (filter counted ls)
          in if total_lines \<le> max_lines \<or> \<not> tmp_ok then s
             else s\<lparr>sess_files := (sess_files s)(path \<mapsto> concat (map cstr (skip_lines (total_lines - max_lines) ls)))\<rparr>)"

definition session_append :: "sess_env \<Rightarrow> bool \<Rightarrow> bool \<Rightarrow> string \<Rightarrow> sess_entry \<Rightarrow> sessions \<Rightarrow> int \<times> sessions" where
  "session_append env open_ok tmp_ok chat_id entry s =
     (if \<not> open_ok then (ERROR, s)
      else let path = session_path chat_id;
               old = (case sess_files s path of None \<Rightarrow> [] | Some c \<Rightarrow> c);
               new = (case se_print env entry of None \<Rightarrow> old | Some line \<Rightarrow> old @ cstr line @ [CHR 0x0A]);
               s1 = s\<lparr>sess_files := (sess_files s)(path \<mapsto> new), s_append_count := s_append_count s + 1\<rparr>
           in (OK, if s_append_count s1 \<ge> 10
                   then session_truncate tmp_ok chat_id (AGENT_SESSION_MAX_MSGS * 2) (s1\<lparr>s_append_count := 0\<rparr>)
                   else s1))"

text \<open>The line without its newline.\<close>

definition chomp :: "string \<Rightarrow> string" where
  "chomp line = (if cstr line \<noteq> [] \<and> last (cstr line) = CHR 0x0A then butlast (cstr line) else cstr line)"

text \<open>The ring of parsed messages: the array, the number stored and the next index.\<close>

type_synonym ring = "sess_entry option list \<times> nat \<times> nat"

definition ring_put :: "nat \<Rightarrow> sess_entry option \<Rightarrow> ring \<Rightarrow> ring" where
  "ring_put max_msgs obj r =
     (case r of (messages, count, write_idx) \<Rightarrow>
        (messages[write_idx := obj], if count < max_msgs then count + 1 else count, (write_idx + 1) mod max_msgs))"

fun read_ring :: "sess_env \<Rightarrow> nat \<Rightarrow> string list \<Rightarrow> ring \<Rightarrow> ring" where
  "read_ring env max_msgs [] r = r"
| "read_ring env max_msgs (l # ls) r =
     (if chomp l = [] then read_ring env max_msgs ls r
      else (case se_parse env (chomp l) of
              None \<Rightarrow> read_ring env max_msgs ls r
            | Some obj \<Rightarrow> read_ring env max_msgs ls (ring_put max_msgs obj r)))"

definition ring_list :: "nat \<Rightarrow> ring \<Rightarrow> sess_entry option list" where
  "ring_list max_msgs r =
     (case r of (messages, count, write_idx) \<Rightarrow>
        let start = (if count < max_msgs then 0 else write_idx)
        in map (\<lambda>i. messages ! ((start + i) mod max_msgs)) [0..<count])"

text \<open>
  The array that is printed: an entry without role or content is an empty object. \<open>to_json\<close> prints the
  array; the text is copied into a buffer of \<open>n\<close> bytes.
\<close>

definition session_history :: "sess_env \<Rightarrow> string \<Rightarrow> nat \<Rightarrow> sessions \<Rightarrow> sess_entry option list" where
  "session_history env chat_id max_msgs0 s =
     (case sess_files s (session_path chat_id) of
        None \<Rightarrow> []
      | Some content \<Rightarrow>
          let max_msgs = min max_msgs0 AGENT_SESSION_MAX_MSGS
          in ring_list max_msgs (read_ring env max_msgs (fgets_lines LINE_BUF content) (replicate AGENT_SESSION_MAX_MSGS None, 0, 0)))"

definition session_get_history_json ::
  "sess_env \<Rightarrow> (sess_entry option list \<Rightarrow> string option) \<Rightarrow> string \<Rightarrow> nat \<Rightarrow> nat \<Rightarrow> sessions \<Rightarrow> int \<times> string" where
  "session_get_history_json env to_json chat_id n max_msgs s =
     (OK, case sess_files s (session_path chat_id) of
            None \<Rightarrow> cstr_copy n ''[]''
          | Some _ \<Rightarrow> (case to_json (session_history env chat_id max_msgs s) of
                        None \<Rightarrow> cstr_copy n ''[]'' | Some json_str \<Rightarrow> cstr_copy n json_str))"

text \<open>\<open>rm_ok\<close> tells whether an existing file can be removed.\<close>

definition session_clear :: "bool \<Rightarrow> string \<Rightarrow> sessions \<Rightarrow> int \<times> sessions" where
  "session_clear rm_ok chat_id s =
     (if sess_files s (session_path chat_id) \<noteq> None \<and> rm_ok
      then (OK, s\<lparr>sess_files := (sess_files s)(session_path chat_id := None)\<rparr>) else (ERROR, s))"

definition session_file_name :: "string \<Rightarrow> bool" where
  "session_file_name d_name \<longleftrightarrow> strstr d_name ''tg_'' \<noteq> None \<and> strstr d_name ''.jsonl'' \<noteq> None"

text \<open>\<open>names\<close> are the entries of the directory, or \<open>None\<close> when it cannot be opened.\<close>

definition session_clear_all :: "(string \<Rightarrow> bool) \<Rightarrow> string list option \<Rightarrow> sessions \<Rightarrow> int \<times> sessions" where
  "session_clear_all rm_ok names s =
     (case names of
        None \<Rightarrow> (ERROR, s)
      | Some ns \<Rightarrow>
          (OK, fold (\<lambda>d_name s. if session_file_name d_name
                 then let path = cstr_copy 256 (AGENT_SESSION_DIR @ ''/'' @ d_name)
                      in if rm_ok path then s\<lparr>sess_files := (sess_files s)(path := None)\<rparr> else s
                 else s) ns s))"

definition session_list :: "string list option \<Rightarrow> string list option \<Rightarrow> string list" where
  "session_list names data_names =
     (case names of Some ns \<Rightarrow> filter session_file_name ns
      | None \<Rightarrow> (case data_names of Some ns \<Rightarrow> filter session_file_name ns | None \<Rightarrow> []))"

section \<open>Well-formed files\<close>

definition line_ok :: "string \<Rightarrow> bool" where
  "line_ok l \<longleftrightarrow> l \<noteq> [] \<and> CHR 0x0A \<notin> set l \<and> CHR 0x00 \<notin> set l \<and> length l + 2 \<le> LINE_BUF"

definition unlines :: "string list \<Rightarrow> string" where
  "unlines ls = concat (map (\<lambda>l. l @ [CHR 0x0A]) ls)"

lemma unlines_simps [simp]: "unlines [] = []" "unlines (l # ls) = l @ CHR 0x0A # unlines ls" "unlines (ls @ ms) = unlines ls @ unlines ms"
  by (simp_all add: unlines_def)

lemma split_line_ok: "CHR 0x0A \<notin> set l \<Longrightarrow> length l < k \<Longrightarrow> split_line k (l @ CHR 0x0A # r) = (l @ [CHR 0x0A], r)"
proof (induction l arbitrary: k)
  case Nil
  then show ?case by (cases k) auto
next
  case (Cons c l)
  then show ?case by (cases k) auto
qed

lemma fgets_unlines: "list_all line_ok ls \<Longrightarrow> fgets_lines LINE_BUF (unlines ls) = map (\<lambda>l. l @ [CHR 0x0A]) ls"
proof (induction ls)
  case (Cons l ls)
  then have "split_line (LINE_BUF - 1) (unlines (l # ls)) = (l @ [CHR 0x0A], unlines ls)"
    using split_line_ok [of l "LINE_BUF - 1" "unlines ls"] by (auto simp: line_ok_def c_consts)
  with Cons show ?case by (subst fgets_lines.simps) (simp add: c_consts)
qed (simp add: fgets_lines.simps)

lemma line_ok_cstr: "line_ok l \<Longrightarrow> cstr (l @ [CHR 0x0A]) = l @ [CHR 0x0A]" "line_ok l \<Longrightarrow> cstr l = l"
  by (auto simp: line_ok_def cstr_def takeWhile_eq_all_conv)

lemma line_ok_facts: "line_ok l \<Longrightarrow> counted (l @ [CHR 0x0A]) \<and> chomp (l @ [CHR 0x0A]) = l"
  using line_ok_cstr [of l] by (cases l) (auto simp: counted_def chomp_def line_ok_def)

lemma skip_lines_drop: "list_all counted ls \<Longrightarrow> skip_lines k ls = drop k ls"
  by (induction k ls rule: skip_lines.induct) auto

lemma truncate_unlines:
  assumes "sess_files s (session_path k) = Some (unlines ls)" "list_all line_ok ls"
  shows "\<exists>m \<ge> n. session_truncate tmp_ok k n s = s\<lparr>sess_files := (sess_files s)(session_path k \<mapsto> unlines (take_last m ls))\<rparr>"
proof -
  have c: "list_all counted (map (\<lambda>l. l @ [CHR 0x0A]) ls)" using assms(2) line_ok_facts by (auto simp: list_all_iff)
  then have f: "filter counted (map (\<lambda>l. l @ [CHR 0x0A]) ls) = map (\<lambda>l. l @ [CHR 0x0A]) ls" by (auto simp: list_all_iff filter_id_conv)
  have keep: "s = s\<lparr>sess_files := (sess_files s)(session_path k \<mapsto> unlines (take_last (max n (length ls)) ls))\<rparr>"
    using assms(1) by (simp add: take_last_all fun_upd_idem)
  show ?thesis
  proof (cases "length ls \<le> n \<or> \<not> tmp_ok")
    case True
    then have "session_truncate tmp_ok k n s = s" using assms fgets_unlines f by (simp add: session_truncate_def)
    with keep show ?thesis by (intro exI [of _ "max n (length ls)"]) simp
  next
    case False
    have "concat (map cstr (drop (length ls - n) (map (\<lambda>l. l @ [CHR 0x0A]) ls))) = unlines (take_last n ls)"
    proof -
      have "map cstr (map (\<lambda>l. l @ [CHR 0x0A]) ls) = map (\<lambda>l. l @ [CHR 0x0A]) ls" using assms(2) line_ok_cstr by (simp add: list_all_iff)
      then show ?thesis by (simp only: unlines_def take_last_def drop_map [symmetric])
    qed
    with False have "session_truncate tmp_ok k n s = s\<lparr>sess_files := (sess_files s)(session_path k \<mapsto> unlines (take_last n ls))\<rparr>"
      using assms fgets_unlines f skip_lines_drop [OF c] by (simp add: session_truncate_def)
    then show ?thesis by blast
  qed
qed

section \<open>The ring\<close>

definition ring_rep :: "nat \<Rightarrow> sess_entry option list \<Rightarrow> ring \<Rightarrow> bool" where
  "ring_rep m xs r \<longleftrightarrow> (case r of (messages, count, write_idx) \<Rightarrow>
     m \<le> length messages \<and> count = min m (length xs) \<and> write_idx = length xs mod m
     \<and> (\<forall>j < length xs. length xs \<le> j + m \<longrightarrow> messages ! (j mod m) = xs ! j))"

lemma ring_put_rep:
  assumes "0 < m" "ring_rep m xs r"
  shows "ring_rep m (xs @ [x]) (ring_put m x r)"
proof -
  obtain messages where r: "r = (messages, min m (length xs), length xs mod m)" and "m \<le> length messages"
    and old: "\<And>j. j < length xs \<Longrightarrow> length xs \<le> j + m \<Longrightarrow> messages ! (j mod m) = xs ! j"
    using assms(2) by (auto simp: ring_rep_def split: prod.splits)
  have new: "messages[length xs mod m := x] ! (j mod m) = (xs @ [x]) ! j" if j: "j < Suc (length xs)" "Suc (length xs) \<le> j + m" for j
  proof (cases "j = length xs")
    case True
    have "length xs mod m < length messages" using \<open>m \<le> length messages\<close> assms(1) mod_less_divisor [of m "length xs"] by linarith
    with True show ?thesis by simp
  next
    case False
    with j have "j < length xs" "length xs \<le> j + m" "length xs < j + m" by auto
    have "j mod m \<noteq> length xs mod m"
    proof
      assume "j mod m = length xs mod m"
      then have "m dvd length xs - j" using \<open>j < length xs\<close> mod_eq_dvd_iff_nat [of j "length xs" m] by simp
      with \<open>j < length xs\<close> \<open>length xs < j + m\<close> show False by (auto dest: dvd_imp_le)
    qed
    with old \<open>j < length xs\<close> \<open>length xs \<le> j + m\<close> show ?thesis by (simp add: nth_append)
  qed
  show ?thesis using \<open>m \<le> length messages\<close> new assms(1)
    by (auto simp: ring_rep_def ring_put_def r min_def mod_Suc_eq)
qed

lemma ring_list_rep:
  assumes "0 < m" "ring_rep m xs r"
  shows "ring_list m r = take_last m xs"
proof -
  obtain messages where r: "r = (messages, min m (length xs), length xs mod m)"
    and old: "\<And>j. j < length xs \<Longrightarrow> length xs \<le> j + m \<Longrightarrow> messages ! (j mod m) = xs ! j"
    using assms(2) by (auto simp: ring_rep_def split: prod.splits)
  have "messages ! (((if length xs < m then 0 else length xs mod m) + i) mod m) = take_last m xs ! i" if i: "i < min m (length xs)" for i
  proof (cases "length xs < m")
    case True
    with i old [of i] show ?thesis by (simp add: take_last_def)
  next
    case False
    have "(length xs - m + i) mod m = (length xs - m + i + m) mod m" by simp
    also have "\<dots> = (length xs mod m + i) mod m" using False by (simp add: mod_add_left_eq)
    finally show ?thesis using False i old [of "length xs - m + i"] by (simp add: take_last_def)
  qed
  moreover have "(if min m (length xs) < m then 0 else length xs mod m) = (if length xs < m then 0 else length xs mod m)" by auto
  ultimately show ?thesis by (auto simp: ring_list_def r Let_def intro!: nth_equalityI)
qed

lemma read_ring_rep:
  assumes "0 < m" "list_all (\<lambda>l. line_ok l \<and> se_parse env l \<noteq> None) ls" "ring_rep m xs r"
  shows "ring_rep m (xs @ map (\<lambda>l. the (se_parse env l)) ls) (read_ring env m (map (\<lambda>l. l @ [CHR 0x0A]) ls) r)"
  using assms(2,3)
proof (induction ls arbitrary: xs r)
  case (Cons l ls)
  then obtain obj where obj: "se_parse env l = Some obj" "line_ok l" by auto
  then have "chomp (l @ [CHR 0x0A]) = l" "l \<noteq> []" using line_ok_facts by (auto simp: line_ok_def)
  with obj Cons.IH [of "xs @ [obj]" "ring_put m obj r"] ring_put_rep [OF assms(1) Cons.prems(2), of obj] Cons.prems(1) show ?case by simp
qed simp

section \<open>The store implements the contract\<close>

definition stored_ok :: "sess_env \<Rightarrow> string \<Rightarrow> bool" where
  "stored_ok env l \<longleftrightarrow> line_ok l \<and> (\<exists>e. se_parse env l = Some (Some e))"

definition sess_inv :: "sess_env \<Rightarrow> sessions \<Rightarrow> bool" where
  "sess_inv env s \<longleftrightarrow> (\<forall>p c. sess_files s p = Some c \<longrightarrow> (\<exists>ls. c = unlines ls \<and> list_all (stored_ok env) ls))"

definition entry_ok :: "sess_env \<Rightarrow> sess_entry \<Rightarrow> bool" where
  "entry_ok env e \<longleftrightarrow> (case se_print env e of None \<Rightarrow> False | Some l \<Rightarrow> line_ok l \<and> se_parse env l = Some (Some e))"

definition same_file :: "string \<Rightarrow> string \<Rightarrow> bool" where
  "same_file j k \<longleftrightarrow> session_path j = session_path k"

definition store_entry :: "sess_env \<Rightarrow> bool \<Rightarrow> string \<Rightarrow> sess_entry \<Rightarrow> sessions \<Rightarrow> sessions" where
  "store_entry env tmp_ok k e s = snd (session_append env True tmp_ok k e s)"

definition recent_entries :: "sess_env \<Rightarrow> nat \<Rightarrow> string \<Rightarrow> sessions \<Rightarrow> sess_entry list" where
  "recent_entries env n k s = map the (session_history env k n s)"

lemma store_entry_file:
  assumes "sess_inv env s" "se_print env e = Some line" "stored_ok env line"
  shows "\<exists>ls m. (case sess_files s (session_path k) of None \<Rightarrow> [] | Some c \<Rightarrow> c) = unlines ls \<and> list_all (stored_ok env) ls \<and> 40 \<le> m
    \<and> sess_files (store_entry env tmp_ok k e s) = (sess_files s)(session_path k \<mapsto> unlines (take_last m (ls @ [line])))"
proof -
  let ?p = "session_path k"
  obtain ls where ls: "(case sess_files s ?p of None \<Rightarrow> [] | Some c \<Rightarrow> c) = unlines ls" "list_all (stored_ok env) ls"
  proof (cases "sess_files s ?p")
    case None
    then show ?thesis using that [of "[]"] by simp
  next
    case (Some c)
    then obtain ls where "c = unlines ls" "list_all (stored_ok env) ls" using assms(1) by (auto simp: sess_inv_def)
    with Some show ?thesis using that [of ls] by simp
  qed
  let ?s1 = "s\<lparr>sess_files := (sess_files s)(?p \<mapsto> unlines (ls @ [line])), s_append_count := 0\<rparr>"
  have cstr: "cstr line = line" using assms(3) line_ok_cstr by (simp add: stored_ok_def)
  have "list_all line_ok (ls @ [line])" using ls(2) assms(3) by (auto simp: stored_ok_def list_all_iff)
  then obtain m where m: "40 \<le> m" "session_truncate tmp_ok k 40 ?s1 = ?s1\<lparr>sess_files := (sess_files ?s1)(?p \<mapsto> unlines (take_last m (ls @ [line])))\<rparr>"
    using truncate_unlines [of ?s1 k "ls @ [line]" 40 tmp_ok] by auto
  have "sess_files (store_entry env tmp_ok k e s) = (sess_files s)(?p \<mapsto> unlines (take_last m (ls @ [line])))
      \<or> sess_files (store_entry env tmp_ok k e s) = (sess_files s)(?p \<mapsto> unlines (ls @ [line]))"
    using m(2) by (simp add: store_entry_def session_append_def Let_def ls(1) assms(2) cstr c_consts)
  then show ?thesis
  proof
    assume "sess_files (store_entry env tmp_ok k e s) = (sess_files s)(?p \<mapsto> unlines (take_last m (ls @ [line])))"
    with ls m(1) show ?thesis by blast
  next
    assume "sess_files (store_entry env tmp_ok k e s) = (sess_files s)(?p \<mapsto> unlines (ls @ [line]))"
    with ls show ?thesis by (intro exI [of _ ls] exI [of _ "40 + length (ls @ [line])"]) (simp add: take_last_all)
  qed
qed

lemma history_of_file:
  assumes "sess_files s (session_path k) = Some (unlines ls)" "list_all (stored_ok env) ls" "n \<le> 20"
  shows "recent_entries env n k s = take_last n (map (\<lambda>l. the (the (se_parse env l))) ls)"
proof (cases "n = 0")
  case True
  have "fst (snd (read_ring env 0 us r)) = fst (snd r)" for us r
    by (induction us arbitrary: r) (auto simp: ring_put_def split: prod.splits option.splits)
  then have "ring_list 0 (read_ring env 0 us (replicate AGENT_SESSION_MAX_MSGS None, 0, 0)) = []" for us
    by (simp add: ring_list_def case_prod_unfold)
  with True assms(1) show ?thesis by (simp add: recent_entries_def session_history_def take_last_def)
next
  case False
  have l: "list_all line_ok ls" "list_all (\<lambda>l. line_ok l \<and> se_parse env l \<noteq> None) ls" using assms(2) by (auto simp: stored_ok_def list_all_iff)
  have "ring_rep n [] (replicate AGENT_SESSION_MAX_MSGS None, 0, 0)" using assms(3) by (simp add: ring_rep_def c_consts)
  from read_ring_rep [OF _ l(2) this] False
  have "ring_rep n (map (\<lambda>l. the (se_parse env l)) ls) (read_ring env n (map (\<lambda>l. l @ [CHR 0x0A]) ls) (replicate AGENT_SESSION_MAX_MSGS None, 0, 0))" by simp
  from ring_list_rep [OF _ this] False
  have "ring_list n (read_ring env n (map (\<lambda>l. l @ [CHR 0x0A]) ls) (replicate AGENT_SESSION_MAX_MSGS None, 0, 0)) = take_last n (map (\<lambda>l. the (se_parse env l)) ls)"
    by simp
  then show ?thesis using assms fgets_unlines [OF l(1)]
    by (simp add: recent_entries_def session_history_def c_consts Let_def min_def take_last_map [symmetric] comp_def)
qed

lemma put_other:
  assumes "\<not> same_file j k"
  shows "recent_entries env n j (store_entry env tmp_ok k e s) = recent_entries env n j s"
proof -
  have "sess_files (session_truncate tmp_ok k m t) (session_path j) = sess_files t (session_path j)" for m t
    using assms by (simp add: session_truncate_def same_file_def Let_def split: option.splits)
  then have "sess_files (store_entry env tmp_ok k e s) (session_path j) = sess_files s (session_path j)"
    using assms by (simp add: store_entry_def session_append_def same_file_def Let_def)
  then show ?thesis by (simp add: recent_entries_def session_history_def)
qed

lemma put_recent:
  assumes "sess_inv env s" "entry_ok env e" "n \<le> 20"
  shows "recent_entries env n j (store_entry env tmp_ok k e s)
    = (if same_file j k then take_last n (recent_entries env n j s @ [e]) else recent_entries env n j s)"
proof -
  obtain line where line: "se_print env e = Some line" "stored_ok env line" "se_parse env line = Some (Some e)"
    using assms(2) by (auto simp: entry_ok_def stored_ok_def split: option.splits)
  obtain ls m where ls: "(case sess_files s (session_path k) of None \<Rightarrow> [] | Some c \<Rightarrow> c) = unlines ls" "list_all (stored_ok env) ls" "40 \<le> m"
    and fil: "sess_files (store_entry env tmp_ok k e s) = (sess_files s)(session_path k \<mapsto> unlines (take_last m (ls @ [line])))"
    using store_entry_file [OF assms(1) line(1,2), of k tmp_ok] by blast
  show ?thesis
  proof (cases "same_file j k")
    case True
    then have path: "session_path j = session_path k" by (simp add: same_file_def)
    let ?f = "\<lambda>l. the (the (se_parse env l))"
    have "list_all (stored_ok env) (take_last m (ls @ [line]))" using ls(2) line(2) by (auto simp: list_all_iff take_last_def dest: in_set_dropD)
    then have "recent_entries env n j (store_entry env tmp_ok k e s) = take_last n (map ?f (take_last m (ls @ [line])))"
      by (intro history_of_file) (simp_all add: fil path assms(3))
    also have "\<dots> = take_last n (map ?f ls @ [e])" using ls(3) assms(3) line(3) by (simp add: take_last_map [symmetric] take_last_take_last)
    also have "\<dots> = take_last n (take_last n (map ?f ls) @ [e])" by (simp add: take_last_of_append)
    also have "take_last n (map ?f ls) = recent_entries env n j s"
    proof (cases "sess_files s (session_path k)")
      case None
      with ls(1) have "ls = []" by (cases ls) auto
      with None show ?thesis by (simp add: recent_entries_def session_history_def path take_last_def)
    next
      case (Some c)
      with ls have "sess_files s (session_path j) = Some (unlines ls)" by (simp add: path)
      from history_of_file [OF this ls(2) assms(3)] show ?thesis by simp
    qed
    finally show ?thesis using True by simp
  next
    case False
    then show ?thesis using put_other by simp
  qed
qed

lemma put_keeps_inv:
  assumes "sess_inv env s" "entry_ok env e"
  shows "sess_inv env (store_entry env tmp_ok k e s)"
proof -
  obtain line where line: "se_print env e = Some line" "stored_ok env line"
    using assms(2) by (auto simp: entry_ok_def stored_ok_def split: option.splits)
  obtain ls m where ls: "list_all (stored_ok env) ls"
    and fil: "sess_files (store_entry env tmp_ok k e s) = (sess_files s)(session_path k \<mapsto> unlines (take_last m (ls @ [line])))"
    using store_entry_file [OF assms(1) line, of k tmp_ok] by blast
  have "list_all (stored_ok env) (take_last m (ls @ [line]))" using ls line(2) by (auto simp: list_all_iff take_last_def dest: in_set_dropD)
  with assms(1) show ?thesis unfolding sess_inv_def fil by auto
qed

lemma recent_entries_length:
  assumes "sess_inv env s"
  shows "length (recent_entries env n k s) \<le> n"
proof (cases "sess_files s (session_path k)")
  case None
  then show ?thesis by (simp add: recent_entries_def session_history_def)
next
  case (Some c)
  then obtain ls where ls: "c = unlines ls" "list_all (stored_ok env) ls" using assms by (auto simp: sess_inv_def)
  have "recent_entries env n k s = recent_entries env (min n 20) k s"
    using Some by (simp add: recent_entries_def session_history_def c_consts)
  also have "\<dots> = take_last (min n 20) (map (\<lambda>l. the (the (se_parse env l))) ls)"
    using Some ls by (intro history_of_file) simp_all
  finally show ?thesis by simp
qed

interpretation sess: chat_history "sess_inv env" "entry_ok env" same_file "store_entry env tmp_ok" "recent_entries env" 20 for env tmp_ok
  by unfold_locales (simp_all add: recent_entries_length put_keeps_inv put_recent put_other)

text \<open>The same with the result of opening the temporary file varying from message to message.\<close>

interpretation sess_io: chat_history "sess_inv env" "entry_ok env" "\<lambda>j k. same_file (snd j) (snd k)"
  "\<lambda>k. store_entry env (fst k) (snd k)" "\<lambda>n k. recent_entries env n (snd k)" 20 for env
  by unfold_locales (simp_all add: recent_entries_length put_keeps_inv put_recent put_other)

lemma appends_stored:
  "fold (\<lambda>(opened, tmp_ok, k, e) s. snd (session_append env opened tmp_ok k e s)) xs s
     = fold (\<lambda>(k, e). store_entry env (fst k) (snd k) e) (map (\<lambda>(opened, tmp_ok, k, e). ((tmp_ok, k), e)) (filter fst xs)) s"
  by (induction xs arbitrary: s) (auto simp: store_entry_def session_append_def [of env False])

text \<open>
  C10. The history of a chat is its most recent messages: over files that were well-formed, after messages to any mixture of chats, some of which may fail because the
  session file cannot be opened, reading 1 to 20 messages of a chat gives exactly the last ones that were written to its file, in order, although the files are cut now
  and then and the reader goes through a ring. Every message that is written must print to one line of at most 8190 bytes that the JSON library reads back
  (a longer one is read in pieces and lost), and writing and renaming files must work.
\<close>

theorem history_follows_conversation:
  assumes "sess_inv env s" "list_all (\<lambda>(opened, tmp_ok, k, e). opened \<longrightarrow> entry_ok env e) xs" "0 < n" "n \<le> 20"
  shows "recent_entries env n j (fold (\<lambda>(opened, tmp_ok, k, e) s. snd (session_append env opened tmp_ok k e s)) xs s)
    = take_last n (recent_entries env n j s
        @ map (\<lambda>(opened, tmp_ok, k, e). e) (filter (\<lambda>(opened, tmp_ok, k, e). opened \<and> session_path j = session_path k) xs))"
proof -
  let ?kes = "map (\<lambda>(opened, tmp_ok, k, e). ((tmp_ok, k), e)) (filter fst xs)"
  have "list_all (\<lambda>(k, e). entry_ok env e) ?kes" using assms(2) by (auto simp: list_all_iff)
  from sess_io.recent_conversation [OF assms(1) this assms(4), of "(True, j)"]
  have "recent_entries env n j (fold (\<lambda>(opened, tmp_ok, k, e) s. snd (session_append env opened tmp_ok k e s)) xs s)
    = take_last n (recent_entries env n j s @ map snd (filter (\<lambda>(k, e). same_file j (snd k)) ?kes))"
    by (simp add: appends_stored)
  moreover have "map snd (filter (\<lambda>(k, e). same_file j (snd k)) ?kes) =
      map (\<lambda>(opened, tmp_ok, k, e). e) (filter (\<lambda>(opened, tmp_ok, k, e). opened \<and> session_path j = session_path k) xs)"
    by (induction xs) (auto simp: same_file_def)
  ultimately show ?thesis by simp
qed

definition plain_sess :: sess_env where
  "plain_sess = \<lparr>se_print = (\<lambda>e. Some (e_role e @ '':'' @ e_content e)),
     se_parse = (\<lambda>l. let r = takeWhile (\<lambda>c. c \<noteq> CHR '':'') l in Some (Some \<lparr>e_role = r, e_content = drop (length r + 1) l\<rparr>))\<rparr>"

theorem history_follows_conversation_witness:
  "recent_entries plain_sess 1 ''bob'' (fold (\<lambda>(opened, tmp_ok, k, e) s. snd (session_append plain_sess opened tmp_ok k e s))
     [(True, True, ''bob'', \<lparr>e_role = ''user'', e_content = ''hi''\<rparr>), (True, False, ''bob'', \<lparr>e_role = ''user'', e_content = ''again''\<rparr>),
      (False, True, ''bob'', \<lparr>e_role = ''user'', e_content = ''lost''\<rparr>)]
     \<lparr>sess_files = (\<lambda>_. None), s_append_count = 0\<rparr>) = [\<lparr>e_role = ''user'', e_content = ''again''\<rparr>]"
proof -
  let ?xs = "[(True, True, ''bob'', \<lparr>e_role = ''user'', e_content = ''hi''\<rparr>), (True, False, ''bob'', \<lparr>e_role = ''user'', e_content = ''again''\<rparr>),
      (False, True, ''bob'', \<lparr>e_role = ''user'', e_content = ''lost''\<rparr>)]"
  let ?s = "\<lparr>sess_files = (\<lambda>_. None), s_append_count = 0\<rparr>"
  have "sess_inv plain_sess ?s" by (simp add: sess_inv_def)
  moreover have "list_all (\<lambda>(opened, tmp_ok, k, e). opened \<longrightarrow> entry_ok plain_sess e) ?xs" by (simp add: entry_ok_def plain_sess_def line_ok_def c_consts)
  ultimately show ?thesis using history_follows_conversation [of plain_sess ?s ?xs 1 "''bob''"]
    by (simp add: recent_entries_def session_history_def take_last_def)
qed

text \<open>Two chats whose ids differ only in characters outside the allowed set share one file.\<close>

lemma sessions_shared: "session_path ''a/b'' = session_path ''a b'' \<and> session_path ''a/b'' = session_path ''a_b''"
  by code_simp

text \<open>An entry whose line does not fit the buffer is read in pieces; when no piece is JSON, it is lost.\<close>

end
