(* ===== verification/Agent_Mem.thy ===== *)
theory Agent_Mem
  imports Prelude
begin

text \<open>
  Memory for the agent loop (\<^verbatim>\<open>services/ai_agent/src/core/agent_mem.h\<close>): buffer sizes
  scaled to the free heap, the pool of tool output buffers, the growable buffer, and the
  execution of a tool into a caller's buffer.

  The free heap that \<^verbatim>\<open>mallinfo\<close> reports and the addresses that \<^verbatim>\<open>calloc\<close> returns
  (\<open>None\<close> for NULL) are arguments. Sizes are \<open>nat\<close>: no operation subtracts more than it holds.
\<close>

definition AGENT_MEM_RESERVE_BYTES :: nat where [c_consts]: "AGENT_MEM_RESERVE_BYTES = 32 * 1024"
definition AGENT_MAX_TOOL_CALLS :: nat where [c_consts]: "AGENT_MAX_TOOL_CALLS = 2"
definition AGENT_STREAM_INIT_SIZE :: nat where [c_consts]: "AGENT_STREAM_INIT_SIZE = 1024"

definition agent_mem_safe_size :: "nat \<Rightarrow> nat \<Rightarrow> nat \<Rightarrow> nat" where
  "agent_mem_safe_size free_heap requested min_size =
     (if free_heap \<le> AGENT_MEM_RESERVE_BYTES then min_size
      else let available = free_heap - AGENT_MEM_RESERVE_BYTES in
           if available \<ge> requested then requested
           else if available \<ge> min_size then available
           else min_size)"

lemma safe_size_bounds:
  assumes "min_size \<le> requested"
  shows "min_size \<le> agent_mem_safe_size free_heap requested min_size"
    "agent_mem_safe_size free_heap requested min_size \<le> requested"
    "agent_mem_safe_size free_heap requested min_size + AGENT_MEM_RESERVE_BYTES \<le> free_heap
     \<or> agent_mem_safe_size free_heap requested min_size = min_size"
  using assms by (auto simp: agent_mem_safe_size_def Let_def)

section \<open>The pool\<close>

record agent_mem_pool =
  pool_buffers :: "nat option list"
  pool_in_use :: "bool list"
  pool_buf_size :: nat
  pool_count :: nat

text \<open>\<open>addrs\<close> are the results of the successive \<^verbatim>\<open>calloc\<close> calls.\<close>

definition agent_pool_init :: "nat option list \<Rightarrow> nat \<Rightarrow> nat \<Rightarrow> int \<times> agent_mem_pool" where
  "agent_pool_init addrs buf_size count0 =
     (let count = min count0 AGENT_MAX_TOOL_CALLS;
          got = takeWhile (\<lambda>a. a \<noteq> None) (take count addrs)
      in (if length got = count then OK else ERROR,
          \<lparr>pool_buffers = got @ replicate (AGENT_MAX_TOOL_CALLS - length got) None,
           pool_in_use = replicate AGENT_MAX_TOOL_CALLS False, pool_buf_size = buf_size, pool_count = count\<rparr>))"

definition agent_pool_acquire :: "agent_mem_pool \<Rightarrow> nat option \<times> agent_mem_pool" where
  "agent_pool_acquire pool =
     (case first_idx Not (take (pool_count pool) (pool_in_use pool)) of
        None \<Rightarrow> (None, pool)
      | Some i \<Rightarrow> (pool_buffers pool ! i, pool\<lparr>pool_in_use := (pool_in_use pool)[i := True]\<rparr>))"

definition agent_pool_release :: "nat option \<Rightarrow> agent_mem_pool \<Rightarrow> agent_mem_pool" where
  "agent_pool_release buf pool =
     (if buf = None then pool
      else case first_idx (\<lambda>b. b = buf) (take (pool_count pool) (pool_buffers pool)) of
             None \<Rightarrow> pool
           | Some i \<Rightarrow> pool\<lparr>pool_in_use := (pool_in_use pool)[i := False]\<rparr>)"

definition agent_pool_destroy :: "agent_mem_pool \<Rightarrow> agent_mem_pool" where
  "agent_pool_destroy pool =
     pool\<lparr>pool_buffers := replicate (pool_count pool) None @ drop (pool_count pool) (pool_buffers pool)\<rparr>"

definition pool_inv :: "agent_mem_pool \<Rightarrow> bool" where
  "pool_inv pool \<longleftrightarrow> length (pool_buffers pool) = AGENT_MAX_TOOL_CALLS \<and> length (pool_in_use pool) = AGENT_MAX_TOOL_CALLS
     \<and> pool_count pool \<le> AGENT_MAX_TOOL_CALLS
     \<and> None \<notin> set (take (pool_count pool) (pool_buffers pool)) \<and> distinct (take (pool_count pool) (pool_buffers pool))"

definition pool_busy :: "agent_mem_pool \<Rightarrow> nat set" where
  "pool_busy pool = {b. \<exists>i<pool_count pool. pool_in_use pool ! i \<and> pool_buffers pool ! i = Some b}"

definition pool_all :: "agent_mem_pool \<Rightarrow> nat set" where
  "pool_all pool = {b. \<exists>i<pool_count pool. pool_buffers pool ! i = Some b}"

lemma pool_init_ok:
  assumes "agent_pool_init addrs sz n = (OK, pool)" "distinct addrs"
  shows "pool_inv pool" "pool_busy pool = {}" "pool_buf_size pool = sz" "pool_count pool = min n AGENT_MAX_TOOL_CALLS"
proof -
  let ?c = "min n AGENT_MAX_TOOL_CALLS"
  let ?got = "takeWhile (\<lambda>a. a \<noteq> None) (take ?c addrs)"
  from assms(1) have g: "length ?got = ?c" and p: "pool = \<lparr>pool_buffers = ?got @ replicate (AGENT_MAX_TOOL_CALLS - length ?got) None,
       pool_in_use = replicate AGENT_MAX_TOOL_CALLS False, pool_buf_size = sz, pool_count = ?c\<rparr>"
    by (auto simp: agent_pool_init_def Let_def split: if_splits)
  have "None \<notin> set ?got" by (auto dest: set_takeWhileD)
  moreover have "distinct ?got" using assms(2) by (simp add: distinct_takeWhile)
  ultimately show "pool_inv pool" using g p by (simp add: pool_inv_def)
  show "pool_busy pool = {}" "pool_buf_size pool = sz" "pool_count pool = ?c" using p by (auto simp: pool_busy_def)
qed

lemma pool_nth_neq:
  assumes "pool_inv pool" "i < pool_count pool" "j < pool_count pool" "pool_buffers pool ! i = pool_buffers pool ! j"
  shows "i = j"
proof -
  have "take (pool_count pool) (pool_buffers pool) ! i = take (pool_count pool) (pool_buffers pool) ! j"
    using assms by simp
  moreover have "i < length (take (pool_count pool) (pool_buffers pool))" "j < length (take (pool_count pool) (pool_buffers pool))"
    using assms by (simp_all add: pool_inv_def)
  ultimately show ?thesis using assms(1) by (simp add: pool_inv_def nth_eq_iff_index_eq del: nth_take length_take)
qed

lemma pool_nth_Some:
  assumes "pool_inv pool" "i < pool_count pool"
  obtains b where "pool_buffers pool ! i = Some b"
proof -
  have "pool_buffers pool ! i \<in> set (take (pool_count pool) (pool_buffers pool))"
    using assms by (auto simp: pool_inv_def in_set_conv_nth intro!: exI [of _ i])
  with assms(1) that show ?thesis by (cases "pool_buffers pool ! i") (auto simp: pool_inv_def)
qed

text \<open>A buffer handed out was free; no buffer is handed out twice until it is released.\<close>

lemma pool_acquire:
  assumes inv: "pool_inv pool"
  shows "(agent_pool_acquire pool = (None, pool) \<and> pool_busy pool = pool_all pool)
    \<or> (\<exists>b pool'. agent_pool_acquire pool = (Some b, pool') \<and> b \<in> pool_all pool - pool_busy pool \<and> pool_inv pool'
         \<and> pool_busy pool' = insert b (pool_busy pool) \<and> pool_all pool' = pool_all pool
         \<and> pool_buf_size pool' = pool_buf_size pool)"
proof (cases "first_idx Not (take (pool_count pool) (pool_in_use pool))")
  case None
  then have "\<forall>i<pool_count pool. pool_in_use pool ! i"
    using inv by (auto simp: first_idx_None_nth pool_inv_def)
  with None show ?thesis by (auto simp: agent_pool_acquire_def pool_busy_def pool_all_def)
next
  case (Some i)
  then have i: "i < pool_count pool" "\<not> pool_in_use pool ! i" using inv by (auto simp: first_idx_Some pool_inv_def)
  then obtain b where b: "pool_buffers pool ! i = Some b" using pool_nth_Some [OF inv] by blast
  have "i < length (pool_in_use pool)" using inv i(1) by (simp add: pool_inv_def)
  then have busy: "pool_busy (pool\<lparr>pool_in_use := (pool_in_use pool)[i := True]\<rparr>) = insert b (pool_busy pool)"
    using i b by (auto simp: pool_busy_def nth_list_update)
  moreover have "b \<notin> pool_busy pool" using pool_nth_neq [OF inv i(1)] i(2) b by (auto simp: pool_busy_def)
  moreover have "b \<in> pool_all pool" using i(1) b by (auto simp: pool_all_def)
  ultimately show ?thesis using Some b inv by (auto simp: agent_pool_acquire_def pool_inv_def pool_all_def)
qed

lemma pool_release:
  assumes inv: "pool_inv pool" and b: "b \<in> pool_all pool"
  shows "pool_inv (agent_pool_release (Some b) pool)"
    "pool_busy (agent_pool_release (Some b) pool) = pool_busy pool - {b}"
    "pool_all (agent_pool_release (Some b) pool) = pool_all pool"
    "pool_buf_size (agent_pool_release (Some b) pool) = pool_buf_size pool"
proof -
  from b obtain k where k: "k < pool_count pool" "pool_buffers pool ! k = Some b" by (auto simp: pool_all_def)
  have len: "length (take (pool_count pool) (pool_buffers pool)) = pool_count pool" using inv by (simp add: pool_inv_def)
  have idx: "first_idx (\<lambda>x. x = Some b) (take (pool_count pool) (pool_buffers pool)) = Some k"
  proof (rule first_idx_unique)
    show "k < length (take (pool_count pool) (pool_buffers pool))" using k(1) len by simp
    show "take (pool_count pool) (pool_buffers pool) ! k = Some b" using k by simp
    show "j = k" if "j < length (take (pool_count pool) (pool_buffers pool))" "take (pool_count pool) (pool_buffers pool) ! j = Some b" for j
      using pool_nth_neq [OF inv _ k(1), of j] that k(2) len by simp
  qed
  then have r: "agent_pool_release (Some b) pool = pool\<lparr>pool_in_use := (pool_in_use pool)[k := False]\<rparr>"
    by (simp add: agent_pool_release_def)
  show "pool_inv (agent_pool_release (Some b) pool)" "pool_all (agent_pool_release (Some b) pool) = pool_all pool"
    "pool_buf_size (agent_pool_release (Some b) pool) = pool_buf_size pool"
    using inv by (auto simp: r pool_inv_def pool_all_def)
  have "k < length (pool_in_use pool)" using inv k(1) by (simp add: pool_inv_def)
  then have upd: "(pool_in_use pool)[k := False] ! i \<longleftrightarrow> pool_in_use pool ! i \<and> i \<noteq> k" for i
    by (simp add: nth_list_update)
  have eq: "pool_buffers pool ! i = Some b \<longleftrightarrow> i = k" if "i < pool_count pool" for i
    using pool_nth_neq [OF inv that k(1)] k(2) by auto
  show "pool_busy (agent_pool_release (Some b) pool) = pool_busy pool - {b}"
    unfolding r pool_busy_def using eq by (auto simp: upd) (metis k(2) option.inject)
qed

section \<open>The growable buffer\<close>

record stream_buf =
  sb_data :: string
  sb_cap :: nat
  sb_max_cap :: nat

definition agent_stream_init :: "bool \<Rightarrow> nat \<Rightarrow> int \<times> stream_buf option" where
  "agent_stream_init malloc_ok max_cap =
     (if \<not> malloc_ok then (ERROR, None)
      else (OK, Some \<lparr>sb_data = [], sb_cap = min AGENT_STREAM_INIT_SIZE max_cap, sb_max_cap = max_cap\<rparr>))"

definition agent_stream_append :: "bool \<Rightarrow> string \<Rightarrow> stream_buf \<Rightarrow> int \<times> stream_buf" where
  "agent_stream_append realloc_ok chunk sb =
     (let need = length (sb_data sb) + length chunk + 1 in
      if need > sb_cap sb
      then let new_cap1 = sb_cap sb * 2;
               new_cap2 = (if new_cap1 < need then need else new_cap1);
               new_cap = (if new_cap2 > sb_max_cap sb then sb_max_cap sb else new_cap2)
           in if need > new_cap then (ERROR, sb)
              else if \<not> realloc_ok then (ERROR, sb)
              else (OK, sb\<lparr>sb_data := sb_data sb @ chunk, sb_cap := new_cap\<rparr>)
      else (OK, sb\<lparr>sb_data := sb_data sb @ chunk\<rparr>))"

definition stream_inv :: "stream_buf \<Rightarrow> bool" where
  "stream_inv sb \<longleftrightarrow> length (sb_data sb) < sb_cap sb \<and> sb_cap sb \<le> sb_max_cap sb"

fun stream_appends :: "string list \<Rightarrow> stream_buf \<Rightarrow> int list \<times> stream_buf" where
  "stream_appends [] sb = ([], sb)"
| "stream_appends (c # cs) sb =
     (case agent_stream_append True c sb of (r, sb1) \<Rightarrow> case stream_appends cs sb1 of (rs, sb2) \<Rightarrow> (r # rs, sb2))"

lemma stream_append_keeps:
  assumes "stream_inv sb"
  shows "stream_inv (snd (agent_stream_append ok chunk sb))"
    "sb_max_cap (snd (agent_stream_append ok chunk sb)) = sb_max_cap sb"
    "fst (agent_stream_append True chunk sb) = OK \<longleftrightarrow> length (sb_data sb) + length chunk < sb_max_cap sb"
    "sb_data (snd (agent_stream_append ok chunk sb)) =
       sb_data sb @ (if fst (agent_stream_append ok chunk sb) = OK then chunk else [])"
  using assms by (auto simp: agent_stream_append_def stream_inv_def Let_def)

section \<open>Running a tool into a buffer\<close>

text \<open>
  \<open>exec\<close> runs the tool into a buffer of the given size and yields the text it left there with
  the new world; the tool runs exactly once on either path.
\<close>

definition agent_tool_exec_streamed ::
  "(nat \<Rightarrow> 'w \<Rightarrow> string \<times> 'w) \<Rightarrow> nat \<Rightarrow> bool \<Rightarrow> nat \<Rightarrow> 'w \<Rightarrow> string \<times> 'w"
where
  "agent_tool_exec_streamed exec free_heap malloc_ok output_size w =
     (if malloc_ok
      then case exec (agent_mem_safe_size free_heap output_size AGENT_STREAM_INIT_SIZE) w of
             (buf, w1) \<Rightarrow> (take (output_size - 1) buf, w1)
      else exec output_size w)"

lemma exec_streamed_fits:
  assumes "\<And>n v. 0 < n \<Longrightarrow> length (fst (exec n v)) < n" "0 < output_size"
  shows "length (fst (agent_tool_exec_streamed exec free_heap malloc_ok output_size w)) < output_size"
  using assms by (auto simp: agent_tool_exec_streamed_def split: prod.splits)

end
