(* ===== verification/Memory_Store.thy ===== *)
theory Memory_Store
  imports Prelude
begin

text \<open>
  The memory files of the agent (\<^verbatim>\<open>services/ai_agent/src/core/memory_store.c\<close>).

  The files are a map from paths to contents and the directories a set of paths. Text that C
  writes into a buffer is kept as the bytes before the terminator with the running offset of the
  code, which may move past them; sizes are the 32-bit \<^verbatim>\<open>size_t\<close> of the target, so that a
  subtraction wraps, and \<open>None\<close> is a write outside the size the caller gave.
\<close>

definition AGENT_CONFIG_DIR :: string where "AGENT_CONFIG_DIR = AGENT_DATA_DIR @ ''/config''"
definition AGENT_MEMORY_DIR :: string where "AGENT_MEMORY_DIR = AGENT_DATA_DIR @ ''/memory''"
definition AGENT_MEMORY_FILE :: string where "AGENT_MEMORY_FILE = AGENT_DATA_DIR @ ''/memory/MEMORY.md''"
definition AGENT_SOUL_FILE :: string where "AGENT_SOUL_FILE = AGENT_DATA_DIR @ ''/config/SOUL.md''"
definition AGENT_USER_FILE :: string where "AGENT_USER_FILE = AGENT_DATA_DIR @ ''/config/USER.md''"

section \<open>Dates\<close>

text \<open>The civil date of a day number since 1970-01-01, as \<^verbatim>\<open>gmtime_r\<close> computes it.\<close>

definition civil_from_days :: "int \<Rightarrow> int \<times> int \<times> int" where
  "civil_from_days z0 =
     (let z = z0 + 719468;
          era = z div 146097;
          doe = z mod 146097;
          yoe = (doe - doe div 1460 + doe div 36524 - doe div 146096) div 365;
          doy = doe - (365 * yoe + yoe div 4 - yoe div 100);
          mp = (5 * doy + 2) div 153;
          d = doy - (153 * mp + 2) div 5 + 1;
          m = (if mp < 10 then mp + 3 else mp - 9)
      in (yoe + era * 400 + (if m \<le> 2 then 1 else 0), m, d))"

definition two_digits :: "int \<Rightarrow> string" where
  "two_digits n = (if n < 10 then CHR ''0'' # show_int n else show_int n)"

definition format_date :: "int \<Rightarrow> string" where
  "format_date epoch =
     (case civil_from_days (epoch div 86400) of (y, m, d) \<Rightarrow>
        show_int y @ ''-'' @ two_digits m @ ''-'' @ two_digits d)"

definition format_minute :: "int \<Rightarrow> string" where
  "format_minute epoch = two_digits (epoch mod 86400 div 3600) @ '':'' @ two_digits (epoch mod 3600 div 60)"

definition format_time :: "int \<Rightarrow> string" where
  "format_time epoch = format_date epoch @ '' '' @ format_minute epoch @ '':'' @ two_digits (epoch mod 60)"

definition get_date_str :: "int \<Rightarrow> int \<Rightarrow> string" where
  "get_date_str now days_ago = format_date (now - days_ago * 86400 + 8 * 3600)"

section \<open>Directories and files\<close>

record mem_fs =
  mf_files :: "string \<Rightarrow> string option"
  mf_dirs :: "string set"

definition exists_path :: "mem_fs \<Rightarrow> string \<Rightarrow> bool" where
  "exists_path fs path \<longleftrightarrow> path \<in> mf_dirs fs \<or> mf_files fs path \<noteq> None"

text \<open>The text before the last \<^verbatim>\<open>/\<close>, unless it is the first character; \<open>None\<close> without a slash.\<close>

definition parent_of :: "string \<Rightarrow> string option" where
  "parent_of path =
     (let p = rev (dropWhile (\<lambda>c. c \<noteq> CHR ''/'') (rev path)) in
      if length p < 2 then None else Some (butlast p))"

lemma parent_shorter: "parent_of path = Some p \<Longrightarrow> length p < length path"
proof -
  assume a: "parent_of path = Some p"
  let ?d = "dropWhile (\<lambda>c. c \<noteq> CHR ''/'') (rev path)"
  have "length ?d \<le> length path" using length_dropWhile_le [of "\<lambda>c. c \<noteq> CHR ''/''" "rev path"] by simp
  moreover have "p = butlast (rev ?d)" "2 \<le> length ?d"
    using a by (auto simp: parent_of_def Let_def split: if_splits)
  ultimately show ?thesis by simp
qed

text \<open>\<open>mk\<close> tells whether \<^verbatim>\<open>mkdir\<close> succeeds on a path whose parent exists.\<close>

function ensure_dir :: "(string \<Rightarrow> bool) \<Rightarrow> string \<Rightarrow> mem_fs \<Rightarrow> int \<times> mem_fs" where
  "ensure_dir mk path fs =
     (if exists_path fs path then (OK, fs)
      else case (case parent_of path of None \<Rightarrow> (OK, fs) | Some p \<Rightarrow> ensure_dir mk p fs) of
             (r, fs1) \<Rightarrow>
               if r \<noteq> OK then (ERROR, fs1)
               else if mk path then (OK, fs1\<lparr>mf_dirs := insert path (mf_dirs fs1)\<rparr>) else (ERROR, fs1))"
  by pat_completeness auto
termination by (relation "measure (\<lambda>(mk, path, fs). length path)") (auto dest: parent_shorter)

declare ensure_dir.simps [simp del]

definition ensure_file :: "(string \<Rightarrow> bool) \<Rightarrow> string \<Rightarrow> string \<Rightarrow> mem_fs \<Rightarrow> int \<times> mem_fs" where
  "ensure_file open_ok path default_content fs =
     (if exists_path fs path then (OK, fs)
      else if open_ok path then (OK, fs\<lparr>mf_files := (mf_files fs)(path \<mapsto> default_content)\<rparr>)
      else (ERROR, fs))"

text \<open>The five defaults: personality, user, memory, heartbeat and cron file.\<close>

record mem_defaults =
  default_soul :: string
  default_user :: string
  default_memory :: string
  default_heartbeat :: string
  default_cron :: string

definition ensure_dirs :: "(string \<Rightarrow> bool) \<Rightarrow> string list \<Rightarrow> mem_fs \<Rightarrow> int \<times> mem_fs" where
  "ensure_dirs mk paths fs =
     fold (\<lambda>p (r, fs). if r \<noteq> OK then (r, fs) else ensure_dir mk p fs) paths (OK, fs)"

definition memory_store_init ::
  "(string \<Rightarrow> bool) \<Rightarrow> (string \<Rightarrow> bool) \<Rightarrow> mem_defaults \<Rightarrow> mem_fs \<Rightarrow> int \<times> mem_fs"
where
  "memory_store_init mk open_ok d fs =
     (case ensure_dirs mk [AGENT_DATA_DIR, AGENT_CONFIG_DIR, AGENT_MEMORY_DIR, AGENT_DATA_DIR @ ''/sessions''] fs of
        (r, fs1) \<Rightarrow>
          if r \<noteq> OK then (ERROR, fs1)
          else let fs2 = snd (ensure_file open_ok AGENT_SOUL_FILE (default_soul d) fs1);
                   fs3 = snd (ensure_file open_ok AGENT_USER_FILE (default_user d) fs2);
                   fs4 = snd (ensure_file open_ok AGENT_MEMORY_FILE (default_memory d) fs3);
                   fs5 = snd (ensure_file open_ok (AGENT_CONFIG_DIR @ ''/HEARTBEAT.md'') (default_heartbeat d) fs4);
                   fs6 = snd (ensure_file open_ok (AGENT_CONFIG_DIR @ ''/cron.json'') (default_cron d) fs5);
                   fs7 = snd (ensure_dir mk (AGENT_MEMORY_DIR @ ''/daily'') fs6)
               in (OK, fs7))"

section \<open>Reading and writing notes\<close>

definition memory_read_long_term :: "nat \<Rightarrow> mem_fs \<Rightarrow> int \<times> string" where
  "memory_read_long_term size0 fs =
     (case mf_files fs AGENT_MEMORY_FILE of
        None \<Rightarrow> (ERROR, [])
      | Some c \<Rightarrow> (OK, cstr (take (size0 - 1) c)))"

definition memory_write_long_term :: "bool \<Rightarrow> string \<Rightarrow> mem_fs \<Rightarrow> int \<times> mem_fs" where
  "memory_write_long_term open_ok content fs =
     (if open_ok then (OK, fs\<lparr>mf_files := (mf_files fs)(AGENT_MEMORY_FILE \<mapsto> content)\<rparr>) else (ERROR, fs))"

definition note_path :: "int \<Rightarrow> int \<Rightarrow> string" where
  "note_path now days_ago = AGENT_MEMORY_DIR @ ''/'' @ get_date_str now days_ago @ ''.md''"

text \<open>Opening for append creates the file; the second open and the title are for when it fails.\<close>

definition memory_append_today :: "int \<Rightarrow> bool \<Rightarrow> bool \<Rightarrow> string \<Rightarrow> mem_fs \<Rightarrow> int \<times> mem_fs" where
  "memory_append_today now append_ok write_ok note0 fs =
     (let path = note_path now 0; body = note0 @ [CHR 0x0A] in
      if append_ok
      then (OK, fs\<lparr>mf_files := (mf_files fs)(path \<mapsto> (case mf_files fs path of None \<Rightarrow> [] | Some c \<Rightarrow> c) @ body)\<rparr>)
      else if write_ok
      then (OK, fs\<lparr>mf_files := (mf_files fs)(path \<mapsto> ''# '' @ get_date_str now 0 @ [CHR 0x0A, CHR 0x0A] @ body)\<rparr>)
      else (ERROR, fs))"

definition size_sub :: "nat \<Rightarrow> nat \<Rightarrow> nat" where
  "size_sub a b = nat ((int a - int b) mod 2 ^ 32)"

lemma size_sub_le [simp]: "b \<le> a \<Longrightarrow> a < 2 ^ 32 \<Longrightarrow> size_sub a b = a - b"
  unfolding size_sub_def by (subst mod_pos_pos_trivial) auto

lemma size_sub_wrap:
  assumes "a < b" "b < 2 ^ 32"
  shows "size_sub a b = 2 ^ 32 - (b - a)"
proof -
  have "(int a - int b) mod 2 ^ 32 = (int a - int b + 2 ^ 32) mod 2 ^ 32" by simp
  also have "\<dots> = int a - int b + 2 ^ 32" using assms by (intro mod_pos_pos_trivial) auto
  finally show ?thesis using assms by (simp add: size_sub_def)
qed

type_synonym out_buf = "string \<times> nat"

text \<open>
  \<^verbatim>\<open>off += snprintf(buf + off, size - off, ...)\<close> with the printed text \<open>s\<close>, and
  \<^verbatim>\<open>fread(buf + off, 1, size - off - 1, f)\<close> of a file with its terminator.
\<close>

definition snprintf_at :: "nat \<Rightarrow> string \<Rightarrow> out_buf \<Rightarrow> out_buf option" where
  "snprintf_at sz s b =
     (case b of (t, off) \<Rightarrow>
        let n = size_sub sz off; w = take (n - 1) s in
        if n = 0 then Some (t, off + length s)
        else if off + length w < sz then Some (take off t @ w, off + length s)
        else None)"

definition fread_at :: "nat \<Rightarrow> string \<Rightarrow> out_buf \<Rightarrow> out_buf option" where
  "fread_at sz content b =
     (case b of (t, off) \<Rightarrow>
        let w = take (size_sub sz (off + 1)) content in
        if off + length w < sz then Some (take off t @ w, off + length w) else None)"

fun read_days :: "int \<Rightarrow> nat \<Rightarrow> mem_fs \<Rightarrow> nat \<Rightarrow> nat \<Rightarrow> out_buf \<Rightarrow> out_buf option" where
  "read_days now sz fs i 0 b = Some b"
| "read_days now sz fs i (Suc k) b =
     (if \<not> snd b < size_sub sz 1 then Some b
      else case mf_files fs (note_path now (int i)) of
             None \<Rightarrow> read_days now sz fs (Suc i) k b
           | Some c \<Rightarrow>
               (case (if 0 < snd b \<and> snd b < size_sub sz 4
                      then snprintf_at sz [CHR 0x0A, CHR ''-'', CHR ''-'', CHR ''-'', CHR 0x0A] b else Some b) of
                  None \<Rightarrow> None
                | Some b1 \<Rightarrow> (case fread_at sz c b1 of None \<Rightarrow> None | Some b2 \<Rightarrow> read_days now sz fs (Suc i) k b2)))"

definition memory_read_recent :: "int \<Rightarrow> nat \<Rightarrow> nat \<Rightarrow> mem_fs \<Rightarrow> string option" where
  "memory_read_recent now sz days fs = map_option (cstr \<circ> fst) (read_days now sz fs 0 days ([], 0))"

section \<open>What the buffer operations do inside their bounds\<close>

lemma snprintf_at_fits:
  assumes "length t + length s < sz" "sz < 2 ^ 32"
  shows "snprintf_at sz s (t, length t) = Some (t @ s, length (t @ s))"
  using assms by (simp add: snprintf_at_def Let_def)

lemma fread_at_fits:
  assumes "length t + length c < sz" "sz < 2 ^ 32"
  shows "fread_at sz c (t, length t) = Some (t @ c, length (t @ c))"
  using assms by (simp add: fread_at_def Let_def)

text \<open>Past the end of the buffer, both write outside it.\<close>

lemma snprintf_at_past:
  assumes "sz < off" "off < 2 ^ 31" "sz < 2 ^ 31"
  shows "snprintf_at sz s (t, off) = None"
  using assms by (simp add: snprintf_at_def Let_def size_sub_wrap)

text \<open>A note that is written is the one the recent notes show, for a day without other notes.\<close>

lemma append_then_read:
  assumes "mf_files fs (note_path now 0) = None" "length note0 + 1 < sz" "sz < 2 ^ 32" "CHR 0x00 \<notin> set note0"
  shows "memory_read_recent now sz 1 (snd (memory_append_today now True w note0 fs)) = Some (note0 @ [CHR 0x0A])"
proof -
  let ?fs = "snd (memory_append_today now True w note0 fs)"
  have f: "mf_files ?fs (note_path now 0) = Some (note0 @ [CHR 0x0A])"
    using assms(1) by (simp add: memory_append_today_def Let_def)
  have "fread_at sz (note0 @ [CHR 0x0A]) ([], length ([] :: string)) = Some ([] @ note0 @ [CHR 0x0A], length ([] @ note0 @ [CHR 0x0A]))"
    by (rule fread_at_fits) (use assms in auto)
  then have "read_days now sz ?fs 0 1 ([], 0) = Some (note0 @ [CHR 0x0A], Suc (length note0))"
    using assms f unfolding One_nat_def by (simp only: read_days.simps) simp
  moreover have "cstr (note0 @ [CHR 0x0A]) = note0 @ [CHR 0x0A]"
    using assms(4) by (auto simp: cstr_def takeWhile_eq_all_conv)
  ultimately show ?thesis by (simp add: memory_read_recent_def)
qed

text \<open>
  The separator between two days is printed when up to five bytes are left; with exactly five it
  moves the offset to the end of the buffer, and the next read starts outside it.
\<close>

lemma separator_overruns:
  assumes "snd b = sz - 5" "6 \<le> sz" "sz < 2 ^ 31" "mf_files fs (note_path now (int i)) = Some c" "c \<noteq> []"
  shows "read_days now sz fs i (Suc k) b = None"
proof -
  obtain t where b: "b = (t, sz - 5)" using assms(1) by (cases b) auto
  have "snprintf_at sz [CHR 0x0A, CHR ''-'', CHR ''-'', CHR ''-'', CHR 0x0A] b
      = Some (take (sz - 5) t @ [CHR 0x0A, CHR ''-'', CHR ''-'', CHR ''-''], sz)"
    using assms by (simp add: b snprintf_at_def Let_def) linarith
  moreover have "fread_at sz c (u, sz) = None" for u
    using assms by (simp add: fread_at_def Let_def)
  moreover have "sz - 5 < sz - 4" "sz - 5 < sz - Suc 0" using assms(2) by linarith+
  ultimately show ?thesis using assms b by simp
qed

end
