(* ===== verification/Agent_State.thy ===== *)
theory Agent_State
  imports Message_Bus Llm_Cache Llm_Router Tool_Guard Session_Mgr Agent_Mem Context_Builder
begin

text \<open>
  The state of the agent task and the services it calls
  (\<^verbatim>\<open>services/ai_agent/src/core/agent_loop.c\<close>).

  The state holds the message bus, the router, the cache and the sessions of their own theories,
  the pool of buffers, the tool output buffer and the two counters. Everything behind the LLM
  service, the tools, the clocks and the allocator is a \<open>world\<close> of any type: a call takes a world
  and yields the next one. The log records, in order, what the task did to the outside.
\<close>

section \<open>Data\<close>

record llm_tool_call =
  call_id :: string
  call_name :: string
  call_input :: "string option"

record llm_response =
  resp_text :: "string option"
  resp_reasoning :: "string option"
  resp_calls :: "llm_tool_call list"
  resp_tool_use :: bool
  prompt_tokens :: int
  completion_tokens :: int
  total_tokens :: int

text \<open>
  The elements of the message array: a role with a text (history, user, system), an assistant
  turn (its text or null, its reasoning, its calls), the result of a tool call.
\<close>

datatype chat_msg =
    Text_Msg string string
  | Assistant_Msg "string option" "string option" "llm_tool_call list"
  | Tool_Msg string string

datatype event =
    Ev_Tool string "string option"
  | Ev_Llm string "chat_msg list" "string option"
  | Ev_Vision string
  | Ev_Sent agent_msg int

record 'w agent_env =
  ae_exec :: "string \<Rightarrow> string option \<Rightarrow> nat \<Rightarrow> 'w \<Rightarrow> int \<times> string \<times> 'w"
  ae_llm :: "string \<Rightarrow> chat_msg list \<Rightarrow> string option \<Rightarrow> 'w \<Rightarrow> int \<times> llm_response \<times> 'w"
  ae_vision :: "string \<Rightarrow> string \<Rightarrow> nat \<Rightarrow> 'w \<Rightarrow> int \<times> string \<times> 'w"
  ae_monotonic :: "'w \<Rightarrow> timespec"
  ae_epoch :: "'w \<Rightarrow> int"
  ae_free_heap :: "'w \<Rightarrow> nat"
  ae_mem :: "'w \<Rightarrow> bool"
  ae_rand :: "'w \<Rightarrow> nat"
  ae_waits :: "'w \<Rightarrow> wait_result list"
  ae_thread :: "nat \<Rightarrow> 'w \<Rightarrow> bool"
  ae_order :: "nat \<Rightarrow> 'w \<Rightarrow> nat list"
  ae_skills :: "nat \<Rightarrow> 'w \<Rightarrow> string"
  ae_member :: "string \<Rightarrow> string \<Rightarrow> string option"
  ae_first_song :: "string \<Rightarrow> (string \<times> string option \<times> string option) option"
  ae_patch_cron :: "string \<Rightarrow> string \<Rightarrow> string \<Rightarrow> string option"
  ae_sess :: sess_env
  ae_print_history :: "sess_entry option list \<Rightarrow> string option"
  ae_parse_history :: "string \<Rightarrow> chat_msg list option"
  ae_set_all :: "string \<times> string \<times> string \<times> string \<times> string \<Rightarrow> 'w \<Rightarrow> 'w"
  ae_refresh_skills :: "'w \<Rightarrow> 'w"
  ae_tools_json :: "'w \<Rightarrow> string option"
  ae_tool_names :: "'w \<Rightarrow> string list option"
  ae_memory :: "'w \<Rightarrow> mem_fs"
  ae_append_ok :: "'w \<Rightarrow> bool"
  ae_trunc_ok :: "'w \<Rightarrow> bool"

record 'w agent =
  ag_world :: 'w
  ag_router :: router
  ag_cache :: llm_cache
  ag_sessions :: sessions
  ag_bus :: bus
  ag_pool :: agent_mem_pool
  s_pool_ready :: bool
  ag_tool_output :: string
  s_fast_path_count :: int
  s_llm_path_count :: int
  ag_log :: "event list"

section \<open>Calls to the outside\<close>

definition log_event :: "event \<Rightarrow> 'w agent \<Rightarrow> 'w agent" where
  "log_event e s = s\<lparr>ag_log := ag_log s @ [e]\<rparr>"

text \<open>\<^verbatim>\<open>tool_registry_execute\<close> into a buffer of the given size.\<close>

definition run_tool :: "'w agent_env \<Rightarrow> string \<Rightarrow> string option \<Rightarrow> nat \<Rightarrow> 'w agent \<Rightarrow> int \<times> string \<times> 'w agent" where
  "run_tool env name input osize s =
     (case ae_exec env name input osize (ag_world s) of (r, out, w) \<Rightarrow>
        (r, out, log_event (Ev_Tool name input) (s\<lparr>ag_world := w\<rparr>)))"

text \<open>
  A push of a message with a channel and a chat id to the outbound queue. Waiting for room ends
  within the five seconds of the bus; the waits of the environment are long enough for that, and
  a shorter list counts as a failed push.
\<close>

definition push_out :: "'w agent_env \<Rightarrow> agent_msg \<Rightarrow> 'w agent \<Rightarrow> 'w agent" where
  "push_out env out s =
     (case message_bus_push_outbound (ae_waits env (ag_world s)) (ag_bus s) (Some out) of
        None \<Rightarrow> log_event (Ev_Sent out ERROR) s
      | Some (r, b) \<Rightarrow> log_event (Ev_Sent out r) (s\<lparr>ag_bus := b\<rparr>))"

definition reply_to :: "agent_msg \<Rightarrow> string \<Rightarrow> agent_msg" where
  "reply_to msg t = \<lparr>msg_channel = cstr_copy 16 (msg_channel msg), msg_chat_id = cstr_copy 64 (msg_chat_id msg),
     msg_content = Some t, msg_image_b64 = None\<rparr>"

section \<open>What a stretch of the log did\<close>

fun is_llm :: "event \<Rightarrow> bool" where
  "is_llm (Ev_Llm _ _ _) = True"
| "is_llm _ = False"

fun is_tool :: "event \<Rightarrow> bool" where
  "is_tool (Ev_Tool _ _) = True"
| "is_tool _ = False"

abbreviation (input) llm_calls :: "event list \<Rightarrow> nat" where
  "llm_calls l \<equiv> length (filter is_llm l)"

abbreviation (input) tool_runs :: "event list \<Rightarrow> nat" where
  "tool_runs l \<equiv> length (filter is_tool l)"

lemma push_out_log: "\<exists>r. ag_log (push_out env m s) = ag_log s @ [Ev_Sent m r]"
  by (auto simp: push_out_def log_event_def split: option.splits)

lemma push_out_same [simp]:
  "ag_world (push_out env m s) = ag_world s" "ag_sessions (push_out env m s) = ag_sessions s"
  "ag_cache (push_out env m s) = ag_cache s" "ag_router (push_out env m s) = ag_router s"
  "ag_pool (push_out env m s) = ag_pool s" "ag_tool_output (push_out env m s) = ag_tool_output s"
  by (auto simp: push_out_def log_event_def split: option.splits)

lemma run_tool_log: "ag_log (snd (snd (run_tool env n i z s))) = ag_log s @ [Ev_Tool n i]"
  by (simp add: run_tool_def log_event_def split: prod.splits)

lemma run_tool_same [simp]:
  "ag_sessions (snd (snd (run_tool env n i z s))) = ag_sessions s" "ag_cache (snd (snd (run_tool env n i z s))) = ag_cache s"
  "ag_router (snd (snd (run_tool env n i z s))) = ag_router s" "ag_bus (snd (snd (run_tool env n i z s))) = ag_bus s"
  "ag_pool (snd (snd (run_tool env n i z s))) = ag_pool s"
  by (simp_all add: run_tool_def log_event_def split: prod.splits)

end
