(* ===== verification/Agent_Commands.thy ===== *)
theory Agent_Commands
  imports Agent_State Memory_Store
begin

text \<open>
  The fast paths of the agent loop (\<^verbatim>\<open>services/ai_agent/src/core/agent_loop.c\<close>): slash commands
  and key words that run a tool directly, without the LLM. Texts are their UTF-8 bytes.

  A reply buffer that cannot be allocated (\<open>ae_mem\<close>) gives no reply.
\<close>

section \<open>Key words\<close>

definition contains_any :: "string \<Rightarrow> string list \<Rightarrow> bool" where
  "contains_any txt0 keywords = list_ex (strcasestr txt0) keywords"

record nl_intent =
  ni_keywords :: "string list"
  ni_tool :: string
  ni_size :: nat

definition kw_time :: "string list" where "kw_time = [([CHR 0xE5, CHR 0x87, CHR 0xA0, CHR 0xE7, CHR 0x82, CHR 0xB9, CHR 0xE4, CHR 0xBA, CHR 0x86]), ([CHR 0xE4, CHR 0xBB, CHR 0x80, CHR 0xE4, CHR 0xB9, CHR 0x88, CHR 0xE6, CHR 0x97, CHR 0xB6, CHR 0xE9, CHR 0x97, CHR 0xB4]), ''what time'', ([CHR 0xE5, CHR 0x87, CHR 0xA0, CHR 0xE7, CHR 0x82, CHR 0xB9, CHR 0xE9, CHR 0x92, CHR 0x9F])]"
definition kw_battery :: "string list" where "kw_battery = [([CHR 0xE7, CHR 0x94, CHR 0xB5, CHR 0xE9, CHR 0x87, CHR 0x8F, CHR 0xE5, CHR 0xA4, CHR 0x9A, CHR 0xE5, CHR 0xB0, CHR 0x91]), ([CHR 0xE7, CHR 0x94, CHR 0xB5, CHR 0xE6, CHR 0xB1, CHR 0xA0, CHR 0xE7, CHR 0x94, CHR 0xB5, CHR 0xE9, CHR 0x87, CHR 0x8F]), ''battery'']"
definition kw_heartrate :: "string list" where "kw_heartrate = [([CHR 0xE5, CHR 0xBF, CHR 0x83, CHR 0xE7, CHR 0x8E, CHR 0x87, CHR 0xE5, CHR 0xA4, CHR 0x9A, CHR 0xE5, CHR 0xB0, CHR 0x91]), ''heart rate'', ([CHR 0xE5, CHR 0xBF, CHR 0x83, CHR 0xE7, CHR 0x8E, CHR 0x87, CHR 0xE6, CHR 0x98, CHR 0xAF, CHR 0xE5, CHR 0xA4, CHR 0x9A])]"
definition kw_steps :: "string list" where "kw_steps = [([CHR 0xE8, CHR 0xB5, CHR 0xB0, CHR 0xE4, CHR 0xBA, CHR 0x86, CHR 0xE5, CHR 0xA4, CHR 0x9A, CHR 0xE5, CHR 0xB0, CHR 0x91, CHR 0xE6, CHR 0xAD]
     @ [CHR 0xA5]), ([CHR 0xE4, CHR 0xBB, CHR 0x8A, CHR 0xE5, CHR 0xA4, CHR 0xA9, CHR 0xE8, CHR 0xB5, CHR 0xB0, CHR 0xE4, CHR 0xBA, CHR 0x86, CHR 0xE5, CHR 0xA4]
     @ [CHR 0x9A, CHR 0xE5, CHR 0xB0, CHR 0x91]), ''steps'', ([CHR 0xE6, CHR 0xAD, CHR 0xA5, CHR 0xE6, CHR 0x95, CHR 0xB0])]"
definition kw_pause :: "string list" where "kw_pause = [([CHR 0xE6, CHR 0x9A, CHR 0x82, CHR 0xE5, CHR 0x81, CHR 0x9C, CHR 0xE9, CHR 0x9F, CHR 0xB3, CHR 0xE4, CHR 0xB9, CHR 0x90]), ([CHR 0xE6, CHR 0x9A, CHR 0x82, CHR 0xE5, CHR 0x81, CHR 0x9C, CHR 0xE6, CHR 0x92, CHR 0xAD, CHR 0xE6, CHR 0x94, CHR 0xBE]), ''pause music'']"
definition kw_stop :: "string list" where "kw_stop = [([CHR 0xE5, CHR 0x81, CHR 0x9C, CHR 0xE6, CHR 0xAD, CHR 0xA2, CHR 0xE6, CHR 0x92, CHR 0xAD, CHR 0xE6, CHR 0x94, CHR 0xBE]), ([CHR 0xE5, CHR 0x81, CHR 0x9C, CHR 0xE6, CHR 0xAD, CHR 0xA2, CHR 0xE9, CHR 0x9F, CHR 0xB3, CHR 0xE4, CHR 0xB9, CHR 0x90]), ''stop music'']"
definition kw_resume :: "string list" where "kw_resume = [([CHR 0xE7, CHR 0xBB, CHR 0xA7, CHR 0xE7, CHR 0xBB, CHR 0xAD, CHR 0xE6, CHR 0x92, CHR 0xAD, CHR 0xE6, CHR 0x94, CHR 0xBE]), ''resume'']"
definition kw_skill :: "string list" where "kw_skill = [([CHR 0xE6, CHR 0x8A, CHR 0x80, CHR 0xE8, CHR 0x83, CHR 0xBD, CHR 0xE5, CHR 0x88, CHR 0x97, CHR 0xE8, CHR 0xA1, CHR 0xA8]), ([CHR 0xE6, CHR 0x9C, CHR 0x89, CHR 0xE4, CHR 0xBB, CHR 0x80, CHR 0xE4, CHR 0xB9, CHR 0x88, CHR 0xE6, CHR 0x8A, CHR 0x80, CHR 0xE8, CHR 0x83]
     @ [CHR 0xBD]), ''list skill'']"
definition kw_weather :: "string list" where "kw_weather = [([CHR 0xE5, CHR 0xA4, CHR 0xA9, CHR 0xE6, CHR 0xB0, CHR 0x94, CHR 0xE6, CHR 0x80, CHR 0x8E, CHR 0xE4, CHR 0xB9, CHR 0x88, CHR 0xE6, CHR 0xA0]
     @ [CHR 0xB7]), ''weather'', ([CHR 0xE5, CHR 0xA4, CHR 0xA9, CHR 0xE6, CHR 0xB0, CHR 0x94, CHR 0xE5, CHR 0xA6, CHR 0x82, CHR 0xE4, CHR 0xBD, CHR 0x95])]"
definition kw_play :: "string list" where "kw_play = [([CHR 0xE6, CHR 0x92, CHR 0xAD, CHR 0xE6, CHR 0x94, CHR 0xBE]), ''play '', ([CHR 0xE6, CHR 0x94, CHR 0xBE, CHR 0xE4, CHR 0xB8, CHR 0x80, CHR 0xE9, CHR 0xA6, CHR 0x96])]"

definition s_intents :: "nl_intent list" where
  "s_intents =
     [\<lparr>ni_keywords = kw_time, ni_tool = ''get_current_time'', ni_size = 256\<rparr>,
      \<lparr>ni_keywords = kw_battery, ni_tool = ''get_battery'', ni_size = 512\<rparr>,
      \<lparr>ni_keywords = kw_heartrate, ni_tool = ''get_heartrate'', ni_size = 256\<rparr>,
      \<lparr>ni_keywords = kw_steps, ni_tool = ''get_steps'', ni_size = 256\<rparr>,
      \<lparr>ni_keywords = kw_pause, ni_tool = ''music_pause'', ni_size = 256\<rparr>,
      \<lparr>ni_keywords = kw_stop, ni_tool = ''music_stop'', ni_size = 256\<rparr>,
      \<lparr>ni_keywords = kw_resume, ni_tool = ''music_resume'', ni_size = 256\<rparr>]"

definition count_fast :: "'w agent \<Rightarrow> 'w agent" where
  "count_fast s = s\<lparr>s_fast_path_count := s_fast_path_count s + 1\<rparr>"

text \<open>A reply that is the output of one tool.\<close>

definition tool_reply :: "'w agent_env \<Rightarrow> string \<Rightarrow> string \<Rightarrow> nat \<Rightarrow> 'w agent \<Rightarrow> string option \<times> 'w agent" where
  "tool_reply env name input osize s =
     (if ae_mem env (ag_world s)
      then case run_tool env name (Some input) osize s of (r, out, s1) \<Rightarrow> (Some out, s1)
      else (None, s))"

definition no_skills_text :: string where "no_skills_text = ([CHR 0xE6, CHR 0x9A, CHR 0x82, CHR 0xE6, CHR 0x97, CHR 0xA0, CHR 0xE5, CHR 0xB7, CHR 0xB2, CHR 0xE5, CHR 0x8A, CHR 0xA0, CHR 0xE8, CHR 0xBD]
     @ [CHR 0xBD, CHR 0xE7, CHR 0x9A, CHR 0x84, CHR 0xE6, CHR 0x8A, CHR 0x80, CHR 0xE8, CHR 0x83, CHR 0xBD, CHR 0xE3, CHR 0x80, CHR 0x82])"

definition skills_reply :: "'w agent_env \<Rightarrow> 'w agent \<Rightarrow> string option" where
  "skills_reply env s =
     (let buf = ae_skills env 2048 (ag_world s) in
      if ae_mem env (ag_world s) then Some (if buf \<noteq> [] then buf else no_skills_text) else None)"

definition quote :: char where "quote = CHR 0x22"
definition backslash :: char where "backslash = CHR 0x5C"

text \<open>\<^verbatim>\<open>{"key":"value"}\<close>, as \<^verbatim>\<open>snprintf\<close> prints it into a buffer.\<close>

definition json_1 :: "nat \<Rightarrow> string \<Rightarrow> string \<Rightarrow> string" where
  "json_1 sz key val = cstr_copy sz (''{'' @ [quote] @ key @ [quote] @ '':'' @ [quote] @ val @ [quote] @ ''}'')"

definition weather_word :: string where "weather_word = ([CHR 0xE5, CHR 0xA4, CHR 0xA9, CHR 0xE6, CHR 0xB0, CHR 0x94])"
definition play_word :: string where "play_word = ([CHR 0xE6, CHR 0x92, CHR 0xAD, CHR 0xE6, CHR 0x94, CHR 0xBE])"

text \<open>The city: what stands before the word for weather, without quotes, backslashes and spaces.\<close>

definition safe_city :: "string \<Rightarrow> string" where
  "safe_city txt0 =
     (case strstr txt0 weather_word of
        Some p \<Rightarrow>
          if 0 < p \<and> p < 63
          then let c = take 62 (filter (\<lambda>c. c \<noteq> quote \<and> c \<noteq> backslash \<and> c \<noteq> CHR '' '') (take p txt0))
               in if c \<noteq> [] then c else ''Beijing''
          else ''Beijing''
      | None \<Rightarrow> ''Beijing'')"

definition after_spaces :: "string \<Rightarrow> string" where
  "after_spaces s = dropWhile (\<lambda>c. c = CHR '' '') s"

fun strcasestr_pos :: "string \<Rightarrow> string \<Rightarrow> nat option" where
  "strcasestr_pos [] needle = (if needle = [] then Some 0 else None)"
| "strcasestr_pos (c # cs) needle =
     (if map to_lower (take (length needle) (c # cs)) = map to_lower needle then Some 0
      else map_option Suc (strcasestr_pos cs needle))"

definition play_keyword :: "string \<Rightarrow> string option" where
  "play_keyword txt0 =
     (let after = (\<lambda>p n. case p of None \<Rightarrow> None | Some k \<Rightarrow>
                     (let r = after_spaces (drop (k + n) txt0) in if r \<noteq> [] then Some r else None))
      in case after (strstr txt0 play_word) (length play_word) of
           Some kw \<Rightarrow> Some kw
         | None \<Rightarrow> after (strcasestr_pos txt0 ''play '') 5)"

definition clean_keyword :: "string \<Rightarrow> string" where
  "clean_keyword kw = take 100 (takeWhile (\<lambda>c. c \<noteq> quote \<and> c \<noteq> backslash) kw)"

definition unknown_name :: string where "unknown_name = ([CHR 0xE6, CHR 0x9C, CHR 0xAA, CHR 0xE7, CHR 0x9F, CHR 0xA5])"

definition play_music :: "'w agent_env \<Rightarrow> string \<Rightarrow> 'w agent \<Rightarrow> string option \<times> 'w agent" where
  "play_music env kw s =
     (case run_tool env ''music_search'' (Some (json_1 256 ''keyword'' (clean_keyword kw))) 4096 s of
        (_, search_result, s1) \<Rightarrow>
          (case ae_first_song env search_result of
             Some (url, name, artist) \<Rightarrow>
               (case run_tool env ''music_play'' (Some (json_1 512 ''url'' url)) 256 s1 of
                  (_, play_result, s2) \<Rightarrow>
                    let sname = (case name of Some n \<Rightarrow> n | None \<Rightarrow> unknown_name);
                        sartist = (case artist of Some n \<Rightarrow> n | None \<Rightarrow> unknown_name);
                        play_ok = (strstr play_result ''error'' = None \<and> play_result \<noteq> [])
                    in (if ae_mem env (ag_world s2)
                        then Some (cstr_copy 512
                          (if play_ok then ([CHR 0xE6, CHR 0xAD, CHR 0xA3, CHR 0xE5, CHR 0x9C, CHR 0xA8, CHR 0xE6, CHR 0x92, CHR 0xAD, CHR 0xE6, CHR 0x94, CHR 0xBE]
     @ '': '') @ sname @ '' - '' @ sartist
                           else ([CHR 0xE6, CHR 0x89, CHR 0xBE, CHR 0xE5, CHR 0x88, CHR 0xB0, CHR 0xE4, CHR 0xBA, CHR 0x86] @ '' '') @ sname @ '' - '' @ sartist @ ([CHR 0xEF, CHR 0xBC, CHR 0x8C, CHR 0xE4, CHR 0xBD, CHR 0x86, CHR 0xE6, CHR 0x92, CHR 0xAD, CHR 0xE6, CHR 0x94, CHR 0xBE, CHR 0xE5, CHR 0xA4]
     @ [CHR 0xB1, CHR 0xE8, CHR 0xB4, CHR 0xA5] @ '': '') @ play_result))
                        else None, s2))
           | None \<Rightarrow> (if ae_mem env (ag_world s1) then Some (cstr_copy 4096 search_result) else None, s1)))"

definition count_if_reply :: "string option \<times> 'w agent \<Rightarrow> string option \<times> 'w agent" where
  "count_if_reply rs = (case rs of (Some r, s) \<Rightarrow> (Some r, count_fast s) | (None, s) \<Rightarrow> (None, s))"

definition handle_nl_fast_path :: "'w agent_env \<Rightarrow> string \<Rightarrow> 'w agent \<Rightarrow> string option \<times> 'w agent" where
  "handle_nl_fast_path env txt0 s =
     (case first_idx (\<lambda>i. contains_any txt0 (ni_keywords i)) s_intents of
        Some i \<Rightarrow> count_if_reply (tool_reply env (ni_tool (s_intents ! i)) ''{}'' (ni_size (s_intents ! i)) s)
      | None \<Rightarrow>
          if contains_any txt0 kw_skill then (skills_reply env s, count_fast s)
          else if contains_any txt0 kw_weather
          then count_if_reply (tool_reply env ''get_weather'' (json_1 256 ''location'' (safe_city txt0)) 4096 s)
          else if contains_any txt0 kw_play
          then (case play_keyword txt0 of
                  Some kw \<Rightarrow> count_if_reply (play_music env kw s)
                | None \<Rightarrow> (None, s))
          else (None, s))"

section \<open>Slash commands\<close>

definition starts :: "string \<Rightarrow> string \<Rightarrow> bool" where
  "starts c p \<longleftrightarrow> take (length p) c = p"

definition help_text :: string where
  "help_text = (''AI Agent ''
     @ [CHR 0xE5, CHR 0xBF, CHR 0xAB, CHR 0xE6, CHR 0x8D, CHR 0xB7, CHR 0xE5, CHR 0x91, CHR 0xBD, CHR 0xE4, CHR 0xBB, CHR 0xA4, CHR 0xEF, CHR 0xBC]
     @ [CHR 0x9A, CHR 0x0A, CHR 0x0A] @ ''/help           ''
     @ [CHR 0xE6, CHR 0x98, CHR 0xBE, CHR 0xE7, CHR 0xA4, CHR 0xBA, CHR 0xE6, CHR 0x9C, CHR 0xAC, CHR 0xE5, CHR 0xB8, CHR 0xAE, CHR 0xE5, CHR 0x8A]
     @ [CHR 0xA9, CHR 0x0A] @ ''/time           ''
     @ [CHR 0xE5, CHR 0xBD, CHR 0x93, CHR 0xE5, CHR 0x89, CHR 0x8D, CHR 0xE6, CHR 0x97, CHR 0xB6, CHR 0xE9, CHR 0x97, CHR 0xB4, CHR 0x0A]
     @ ''/weather '' @ [CHR 0xE5, CHR 0x9F, CHR 0x8E, CHR 0xE5, CHR 0xB8, CHR 0x82] @ ''   ''
     @ [CHR 0xE5, CHR 0xAE, CHR 0x9E, CHR 0xE6, CHR 0x97, CHR 0xB6, CHR 0xE5, CHR 0xA4, CHR 0xA9, CHR 0xE6, CHR 0xB0, CHR 0x94, CHR 0x0A]
     @ ''/news ['' @ [CHR 0xE5, CHR 0x85, CHR 0xB3, CHR 0xE9, CHR 0x94, CHR 0xAE, CHR 0xE8, CHR 0xAF, CHR 0x8D]
     @ '']  ''
     @ [CHR 0xE6, CHR 0x9C, CHR 0x80, CHR 0xE6, CHR 0x96, CHR 0xB0, CHR 0xE6, CHR 0x96, CHR 0xB0, CHR 0xE9, CHR 0x97, CHR 0xBB, CHR 0x0A]
     @ ''/memory         ''
     @ [CHR 0xE6, CHR 0x9F, CHR 0xA5, CHR 0xE7, CHR 0x9C, CHR 0x8B, CHR 0xE9, CHR 0x95, CHR 0xBF, CHR 0xE6, CHR 0x9C, CHR 0x9F, CHR 0xE8, CHR 0xAE]
     @ [CHR 0xB0, CHR 0xE5, CHR 0xBF, CHR 0x86, CHR 0x0A] @ ''/note ''
     @ [CHR 0xE5, CHR 0x86, CHR 0x85, CHR 0xE5, CHR 0xAE, CHR 0xB9] @ ''      ''
     @ [CHR 0xE8, CHR 0xAE, CHR 0xB0, CHR 0xE4, CHR 0xB8, CHR 0x80, CHR 0xE6, CHR 0x9D, CHR 0xA1, CHR 0xE7, CHR 0xAC, CHR 0x94, CHR 0xE8, CHR 0xAE]
     @ [CHR 0xB0, CHR 0x0A] @ ''/remind '' @ [CHR 0xE7, CHR 0xA7, CHR 0x92, CHR 0xE6, CHR 0x95, CHR 0xB0] @ '' ''
     @ [CHR 0xE5, CHR 0x86, CHR 0x85, CHR 0xE5, CHR 0xAE, CHR 0xB9] @ ''  ''
     @ [CHR 0xE8, CHR 0xAE, CHR 0xBE, CHR 0xE6, CHR 0x8F, CHR 0x90, CHR 0xE9, CHR 0x86, CHR 0x92, CHR 0x0A]
     @ ''/skill          ''
     @ [CHR 0xE5, CHR 0x88, CHR 0x97, CHR 0xE5, CHR 0x87, CHR 0xBA, CHR 0xE6, CHR 0x8A, CHR 0x80, CHR 0xE8, CHR 0x83, CHR 0xBD, CHR 0x0A]
     @ ''/translate '' @ [CHR 0xE6, CHR 0x96, CHR 0x87, CHR 0xE6, CHR 0x9C, CHR 0xAC] @ '' ''
     @ [CHR 0xE7, CHR 0xBF, CHR 0xBB, CHR 0xE8, CHR 0xAF, CHR 0x91, CHR 0x0A] @ ''/daily          ''
     @ [CHR 0xE6, CHR 0xAF, CHR 0x8F, CHR 0xE6, CHR 0x97, CHR 0xA5, CHR 0xE7, CHR 0xAE, CHR 0x80, CHR 0xE6, CHR 0x8A, CHR 0xA5, CHR 0x0A, CHR 0x0A]
     @ [CHR 0xE4, CHR 0xB9, CHR 0x9F, CHR 0xE5, CHR 0x8F, CHR 0xAF, CHR 0xE4, CHR 0xBB, CHR 0xA5, CHR 0xE7, CHR 0x9B, CHR 0xB4, CHR 0xE6, CHR 0x8E]
     @ [CHR 0xA5, CHR 0xE7, CHR 0x94, CHR 0xA8, CHR 0xE8, CHR 0x87, CHR 0xAA, CHR 0xE7, CHR 0x84, CHR 0xB6, CHR 0xE8, CHR 0xAF, CHR 0xAD, CHR 0xE8]
     @ [CHR 0xA8, CHR 0x80, CHR 0xE5, CHR 0xAF, CHR 0xB9, CHR 0xE8, CHR 0xAF, CHR 0x9D, CHR 0xEF, CHR 0xBC, CHR 0x8C, CHR 0xE6, CHR 0x88, CHR 0x91]
     @ [CHR 0xE4, CHR 0xBC, CHR 0x9A, CHR 0xE8, CHR 0x87, CHR 0xAA, CHR 0xE5, CHR 0x8A, CHR 0xA8, CHR 0xE8, CHR 0xB0, CHR 0x83, CHR 0xE7, CHR 0x94]
     @ [CHR 0xA8, CHR 0xE5, CHR 0xB7, CHR 0xA5, CHR 0xE5, CHR 0x85, CHR 0xB7, CHR 0xE3, CHR 0x80, CHR 0x82])"

definition no_memory_text :: string where "no_memory_text = ([CHR 0xE6, CHR 0x9A, CHR 0x82, CHR 0xE6, CHR 0x97, CHR 0xA0, CHR 0xE9, CHR 0x95, CHR 0xBF, CHR 0xE6, CHR 0x9C, CHR 0x9F, CHR 0xE8, CHR 0xAE]
     @ [CHR 0xB0, CHR 0xE5, CHR 0xBF, CHR 0x86, CHR 0xE3, CHR 0x80, CHR 0x82])"
definition noted_text :: string where "noted_text = ([CHR 0xE5, CHR 0xB7, CHR 0xB2, CHR 0xE8, CHR 0xAE, CHR 0xB0, CHR 0xE5, CHR 0xBD, CHR 0x95, CHR 0xEF, CHR 0xBC, CHR 0x9A])"
definition translate_text :: string where "translate_text = ([CHR 0xE8, CHR 0xAF, CHR 0xB7, CHR 0xE7, CHR 0xBF, CHR 0xBB, CHR 0xE8, CHR 0xAF, CHR 0x91, CHR 0xE4, CHR 0xBB, CHR 0xA5, CHR 0xE4, CHR 0xB8]
     @ [CHR 0x8B, CHR 0xE5, CHR 0x86, CHR 0x85, CHR 0xE5, CHR 0xAE, CHR 0xB9, CHR 0xEF, CHR 0xBC, CHR 0x88, CHR 0xE4, CHR 0xB8, CHR 0xAD, CHR 0xE8]
     @ [CHR 0x8B, CHR 0xB1, CHR 0xE4, CHR 0xBA, CHR 0x92, CHR 0xE8, CHR 0xAF, CHR 0x91, CHR 0xEF, CHR 0xBC, CHR 0x89, CHR 0xEF, CHR 0xBC, CHR 0x9A])"
definition daily_text :: string where
  "daily_text = ([CHR 0xE8, CHR 0xAF, CHR 0xB7, CHR 0xE7, CHR 0xBB, CHR 0x99, CHR 0xE6, CHR 0x88, CHR 0x91, CHR 0xE4, CHR 0xB8, CHR 0x80, CHR 0xE4, CHR 0xBB]
     @ [CHR 0xBD, CHR 0xE4, CHR 0xBB, CHR 0x8A, CHR 0xE6, CHR 0x97, CHR 0xA5, CHR 0xE7, CHR 0xAE, CHR 0x80, CHR 0xE6, CHR 0x8A, CHR 0xA5, CHR 0xEF]
     @ [CHR 0xBC, CHR 0x8C, CHR 0xE5, CHR 0x8C, CHR 0x85, CHR 0xE6, CHR 0x8B, CHR 0xAC, CHR 0xEF, CHR 0xBC, CHR 0x9A, CHR 0xE5, CHR 0xBD, CHR 0x93]
     @ [CHR 0xE5, CHR 0x89, CHR 0x8D, CHR 0xE6, CHR 0x97, CHR 0xB6, CHR 0xE9, CHR 0x97, CHR 0xB4, CHR 0xE3, CHR 0x80, CHR 0x81, CHR 0xE4, CHR 0xBB]
     @ [CHR 0x8A, CHR 0xE6, CHR 0x97, CHR 0xA5, CHR 0xE5, CHR 0xA4, CHR 0xA9, CHR 0xE6, CHR 0xB0, CHR 0x94, CHR 0xE3, CHR 0x80, CHR 0x81, CHR 0xE6]
     @ [CHR 0x9C, CHR 0x80, CHR 0xE6, CHR 0x96, CHR 0xB0, CHR 0xE6, CHR 0x96, CHR 0xB0, CHR 0xE9, CHR 0x97, CHR 0xBB, CHR 0xE6, CHR 0x91, CHR 0x98]
     @ [CHR 0xE8, CHR 0xA6, CHR 0x81, CHR 0xE3, CHR 0x80, CHR 0x82])"
definition remind_default :: string where "remind_default = ([CHR 0xE6, CHR 0x8F, CHR 0x90, CHR 0xE9, CHR 0x86, CHR 0x92, CHR 0xE6, CHR 0x97, CHR 0xB6, CHR 0xE9, CHR 0x97, CHR 0xB4, CHR 0xE5, CHR 0x88]
     @ [CHR 0xB0])"

text \<open>The escape \<^verbatim>\<open>\n\<close> inside a JSON string: a backslash and the letter.\<close>

definition json_nl :: string where "json_nl = [backslash, CHR ''n'']"

definition note_input :: "int \<Rightarrow> string \<Rightarrow> string" where
  "note_input now note0 =
     (let date_str = format_date (now + 8 * 3600); time_str = format_minute (now + 8 * 3600);
          path = cstr_copy 256 (AGENT_DATA_DIR @ ''/memory/daily/'' @ date_str @ ''.md'')
      in cstr_copy 4096 (''{'' @ [quote] @ ''path'' @ [quote] @ '':'' @ [quote] @ path @ [quote] @ '','' @ [quote] @ ''content'' @ [quote] @ '':''
           @ [quote] @ ''#  '' @ date_str @ json_nl @ ''- '' @ time_str @ '' '' @ note0 @ json_nl @ [quote] @ ''}''))"

definition handle_slash_note :: "'w agent_env \<Rightarrow> string \<Rightarrow> 'w agent \<Rightarrow> string option \<times> 'w agent" where
  "handle_slash_note env content s =
     (let note0 = drop 6 content in
      if ae_mem env (ag_world s)
      then case run_tool env ''write_file'' (Some (note_input (ae_epoch env (ag_world s)) note0)) 512 s of
             (_, _, s1) \<Rightarrow> (Some (cstr_copy 512 (noted_text @ note0)), s1)
      else (None, s))"

definition ascii_digit :: "char \<Rightarrow> bool" where
  "ascii_digit c \<longleftrightarrow> (let n = of_char c :: nat in 48 \<le> n \<and> n \<le> 57)"

definition digits_val :: "string \<Rightarrow> int" where
  "digits_val ds = foldl (\<lambda>n c. 10 * n + (int (of_char c) - 48)) 0 ds"

definition is_space :: "char \<Rightarrow> bool" where
  "is_space c \<longleftrightarrow> (let n = of_char c :: nat in n = 32 \<or> 9 \<le> n \<and> n \<le> 13)"

text \<open>
  \<^verbatim>\<open>sscanf(s, "%d %511[^\n]", ...)\<close>: the number with the text after it, \<open>None\<close> when there is no
  number. Numbers outside the range of \<^verbatim>\<open>int\<close> are outside the model.
\<close>

definition scan_remind :: "string \<Rightarrow> (int \<times> string) option" where
  "scan_remind t =
     (let t1 = dropWhile is_space t;
          neg = (t1 \<noteq> [] \<and> hd t1 = CHR ''-'');
          t2 = (if t1 \<noteq> [] \<and> (hd t1 = CHR ''-'' \<or> hd t1 = CHR ''+'') then tl t1 else t1);
          ds = takeWhile ascii_digit t2;
          rest = dropWhile is_space (dropWhile ascii_digit t2)
      in if ds = [] then None
         else Some (if neg then - digits_val ds else digits_val ds, take 511 (takeWhile (\<lambda>c. c \<noteq> CHR 0x0A) rest)))"

definition remind_input :: "int \<Rightarrow> string \<Rightarrow> string \<Rightarrow> string \<Rightarrow> string" where
  "remind_input at_epoch remind_msg channel chat_id =
     cstr_copy 1024 (''{'' @ [quote] @ ''name'' @ [quote] @ '':'' @ [quote] @ ''remind'' @ [quote] @ '','' @ [quote] @ ''schedule_type'' @ [quote] @ '':''
       @ [quote] @ ''at'' @ [quote] @ '','' @ [quote] @ ''at_epoch'' @ [quote] @ '':'' @ show_int at_epoch @ '','' @ [quote] @ ''message'' @ [quote] @ '':''
       @ [quote] @ remind_msg @ [quote] @ '','' @ [quote] @ ''channel'' @ [quote] @ '':'' @ [quote] @ channel @ [quote] @ '',''
       @ [quote] @ ''chat_id'' @ [quote] @ '':'' @ [quote] @ chat_id @ [quote] @ ''}'')"

definition handle_slash_remind :: "'w agent_env \<Rightarrow> agent_msg \<Rightarrow> string \<Rightarrow> 'w agent \<Rightarrow> string option \<times> 'w agent" where
  "handle_slash_remind env msg content s =
     (case scan_remind (drop 8 content) of
        None \<Rightarrow> (None, s)
      | Some (secs, m0) \<Rightarrow>
          let remind_msg = (if m0 = [] then remind_default else m0) in
          if ae_mem env (ag_world s)
          then case run_tool env ''cron_add''
                 (Some (remind_input (ae_epoch env (ag_world s) + secs) remind_msg (msg_channel msg) (msg_chat_id msg))) 512 s of
                 (_, _, s1) \<Rightarrow> (Some (cstr_copy 512 (([CHR 0xE5, CHR 0xA5, CHR 0xBD, CHR 0xE7, CHR 0x9A, CHR 0x84, CHR 0xEF, CHR 0xBC, CHR 0x8C]) @ show_int secs @ ('' ''
     @ [CHR 0xE7, CHR 0xA7, CHR 0x92, CHR 0xE5, CHR 0x90, CHR 0x8E, CHR 0xE6, CHR 0x8F, CHR 0x90, CHR 0xE9, CHR 0x86, CHR 0x92, CHR 0xE4, CHR 0xBD]
     @ [CHR 0xA0, CHR 0xEF, CHR 0xBC, CHR 0x9A]) @ remind_msg)), s1)
          else (None, s))"

text \<open>The argument after a command: without leading spaces, or the default.\<close>

definition cmd_arg :: "nat \<Rightarrow> string \<Rightarrow> string \<Rightarrow> string" where
  "cmd_arg n dflt content = (let a = after_spaces (drop n content) in if a = [] then dflt else a)"

definition news_input :: "string \<Rightarrow> string" where
  "news_input arg = cstr_copy 256 (''{'' @ [quote] @ ''query'' @ [quote] @ '':'' @ [quote] @ arg @ [quote] @ '',''
     @ [quote] @ ''top_headlines'' @ [quote] @ '':true}'')"

definition memory_reply :: "'w agent_env \<Rightarrow> 'w agent \<Rightarrow> string option \<times> 'w agent" where
  "memory_reply env s =
     (if ae_mem env (ag_world s)
      then case run_tool env ''read_file'' (Some (json_1 256 ''path'' (AGENT_DATA_DIR @ ''/memory/MEMORY.md''))) 4096 s of
             (r, out, s1) \<Rightarrow> (Some (if r \<noteq> OK \<or> out = [] then no_memory_text else out), s1)
      else (None, s))"

text \<open>The reply, the content (which two of the commands rewrite for the LLM) and the state.\<close>

definition slash_reply :: "'w agent_env \<Rightarrow> agent_msg \<Rightarrow> string \<Rightarrow> 'w agent \<Rightarrow> (string option \<times> 'w agent) \<times> string" where
  "slash_reply env msg c s =
     (let m = ae_mem env (ag_world s) in
      if starts c ''/help'' then ((if m then Some help_text else None, s), c)
      else if starts c ''/time'' then (tool_reply env ''get_current_time'' ''{}'' 256 s, c)
      else if starts c ''/weather'' then (tool_reply env ''get_weather'' (json_1 256 ''location'' (cmd_arg 8 ''Beijing'' c)) 4096 s, c)
      else if starts c ''/news'' then (tool_reply env ''news_search'' (news_input (cmd_arg 5 ''today'' c)) 8192 s, c)
      else if starts c ''/memory'' then (memory_reply env s, c)
      else if starts c ''/note '' then (handle_slash_note env c s, c)
      else if starts c ''/remind '' then (handle_slash_remind env msg c s, c)
      else if starts c ''/skill'' then ((skills_reply env s, s), c)
      else if starts c ''/translate '' then ((None, s), if m then cstr_copy (length c + 64) (translate_text @ drop 11 c) else c)
      else if starts c ''/daily'' then ((None, s), if m then daily_text else c)
      else ((None, s), c))"

definition handle_slash_command :: "'w agent_env \<Rightarrow> agent_msg \<Rightarrow> 'w agent \<Rightarrow> string option \<times> agent_msg \<times> 'w agent" where
  "handle_slash_command env msg s =
     (case msg_content msg of
        None \<Rightarrow> (None, msg, s)
      | Some c \<Rightarrow>
          if c = [] \<or> hd c \<noteq> CHR ''/'' then (None, msg, s)
          else case slash_reply env msg c s of (rs, c') \<Rightarrow>
                 (case count_if_reply rs of (reply, s1) \<Rightarrow> (reply, msg\<lparr>msg_content := Some c'\<rparr>, s1)))"

end
