(* ===== verification/Agent_Text.thy ===== *)
theory Agent_Text
  imports Prelude
begin

text \<open>
  Two pure helpers of the agent loop (\<^verbatim>\<open>services/ai_agent/src/core/agent_loop.c\<close>): the elapsed
  time of a call, and the removal of tool-call markup that a model leaked into its text.
\<close>

section \<open>Elapsed time\<close>

text \<open>The conversion to \<^verbatim>\<open>int32_t\<close>.\<close>

definition to_s32 :: "int \<Rightarrow> int" where
  "to_s32 x = (x + 2 ^ 31) mod 2 ^ 32 - 2 ^ 31"

definition calc_elapsed_ms :: "timespec \<Rightarrow> timespec \<Rightarrow> u32" where
  "calc_elapsed_ms t0 t1 =
     (let sec_diff = to_s32 (tv_sec t1 - tv_sec t0);
          nsec_diff = to_s32 (tv_nsec t1 - tv_nsec t0)
      in if sec_diff < 0 then 0
         else let sec = (if nsec_diff < 0 then sec_diff - 1 else sec_diff);
                  nsec = (if nsec_diff < 0 then nsec_diff + 1000000000 else nsec_diff)
              in if sec < 0 then 0
                 else of_int sec * 1000 + of_int (nsec div 1000000))"

lemma to_s32_id: "- (2 ^ 31) \<le> x \<Longrightarrow> x < 2 ^ 31 \<Longrightarrow> to_s32 x = x"
  by (simp add: to_s32_def mod_pos_pos_trivial)

lemma elapsed_exact:
  assumes "timespec_ok t0" "timespec_ok t1" "timespec_ns t0 \<le> timespec_ns t1"
    "timespec_ns t1 - timespec_ns t0 < 2 ^ 32 * 1000000"
  shows "uint (calc_elapsed_ms t0 t1) = (timespec_ns t1 - timespec_ns t0) div 1000000"
proof -
  let ?s = "tv_sec t1 - tv_sec t0" and ?n = "tv_nsec t1 - tv_nsec t0"
  let ?D = "timespec_ns t1 - timespec_ns t0"
  have D: "?D = ?s * 1000000000 + ?n" by (simp add: timespec_ns_def algebra_simps)
  have n: "- 1000000000 < ?n" "?n < 1000000000" using assms(1,2) by (auto simp: timespec_ok_def)
  have s: "0 \<le> ?s" "?s \<le> 4294968" using D n assms(3,4) by auto
  let ?sec = "if ?n < 0 then ?s - 1 else ?s" and ?nsec = "if ?n < 0 then ?n + 1000000000 else ?n"
  have r: "to_s32 ?s = ?s" "to_s32 ?n = ?n" using s n by (auto intro!: to_s32_id)
  have sec: "0 \<le> ?sec" using D n assms(3) by auto
  have ms: "?D div 1000000 = ?sec * 1000 + ?nsec div 1000000"
    using D by (auto simp: algebra_simps)
  have "calc_elapsed_ms t0 t1 = of_int (?sec * 1000 + ?nsec div 1000000)"
    using r sec s by (simp add: calc_elapsed_ms_def Let_def)
  then have "calc_elapsed_ms t0 t1 = of_int (?D div 1000000)" by (simp only: ms)
  moreover have "0 \<le> ?D div 1000000" "?D div 1000000 < 2 ^ 32" using assms(3,4) by auto
  ultimately show ?thesis by (simp add: unsigned_of_int take_bit_int_eq_self)
qed

section \<open>Leaked tool-call markup\<close>

definition open_tag :: string where "open_tag = ''<tool_call>''"
definition close_tag :: string where "close_tag = ''</tool_call>''"
definition ns_tag :: string where "ns_tag = '':tool_call>''"

text \<open>The last \<^verbatim>\<open><\<close> before position \<open>i\<close>.\<close>

fun back_to_lt :: "string \<Rightarrow> nat \<Rightarrow> nat option" where
  "back_to_lt r 0 = None"
| "back_to_lt r (Suc i) = (if r ! i = CHR ''<'' then Some i else back_to_lt r i)"

text \<open>
  The block to cut from the rest \<open>r\<close> of the text: where it starts and where the text goes on.
  A plain block is preferred when it starts first; a block with a name space ends with its own
  closing tag.
\<close>

definition next_block :: "string \<Rightarrow> (nat \<times> nat) option" where
  "next_block r =
     (let plain = strstr r open_tag;
          ns = strstr r ns_tag;
          ns_open = (case ns of None \<Rightarrow> None | Some k \<Rightarrow> back_to_lt r k)
      in case plain of
           Some ts \<Rightarrow>
             if (case ns_open of None \<Rightarrow> True | Some o' \<Rightarrow> ts \<le> o')
             then map_option (\<lambda>e. (ts, ts + 11 + e + 12)) (strstr (drop (ts + 11) r) close_tag)
             else (case ns_open of None \<Rightarrow> None | Some o' \<Rightarrow>
               let plen = the ns - (o' + 1); ctag = ''</'' @ take plen (drop (o' + 1) r) @ ns_tag in
               if 0 < plen \<and> plen < 32 then map_option (\<lambda>e. (o', o' + e + length ctag)) (strstr (drop o' r) ctag) else None)
         | None \<Rightarrow>
             (case ns_open of None \<Rightarrow> None | Some o' \<Rightarrow>
               let plen = the ns - (o' + 1); ctag = ''</'' @ take plen (drop (o' + 1) r) @ ns_tag in
               if 0 < plen \<and> plen < 32 then map_option (\<lambda>e. (o', o' + e + length ctag)) (strstr (drop o' r) ctag) else None))"

lemma next_block_progress: "next_block r = Some (ts, te) \<Longrightarrow> ts < te"
  by (auto simp: next_block_def Let_def ns_tag_def split: option.splits if_splits)

lemma next_block_in: "next_block r = Some (ts, te) \<Longrightarrow> te \<le> length r"
  by (auto simp: next_block_def Let_def close_tag_def dest!: strstr_Some split: option.splits if_splits)

function strip_blocks :: "string \<Rightarrow> string" where
  "strip_blocks r =
     (if r = [] then []
      else case next_block r of
             Some (ts, te) \<Rightarrow> take ts r @ strip_blocks (drop te r)
           | None \<Rightarrow> r)"
  by pat_completeness auto
termination
  by (relation "measure length") (auto dest!: next_block_progress)

declare strip_blocks.simps [simp del]

definition too_complex_text :: string where
  "too_complex_text =
     [CHR 0xE6, CHR 0x8A, CHR 0xB1, CHR 0xE6, CHR 0xAD, CHR 0x89, CHR 0xEF, CHR 0xBC, CHR 0x8C, CHR 0xE8, CHR 0xBF, CHR 0x99, CHR 0xE4, CHR 0xB8]
     @ [CHR 0xAA, CHR 0xE4, CHR 0xBB, CHR 0xBB, CHR 0xE5, CHR 0x8A, CHR 0xA1, CHR 0xE6, CHR 0xAF, CHR 0x94, CHR 0xE8, CHR 0xBE, CHR 0x83, CHR 0xE5]
     @ [CHR 0xA4, CHR 0x8D, CHR 0xE6, CHR 0x9D, CHR 0x82, CHR 0xEF, CHR 0xBC, CHR 0x8C, CHR 0xE6, CHR 0x88, CHR 0x91, CHR 0xE5, CHR 0xB7, CHR 0xB2]
     @ [CHR 0xE7, CHR 0xBB, CHR 0x8F, CHR 0xE6, CHR 0x94, CHR 0xB6, CHR 0xE9, CHR 0x9B, CHR 0x86, CHR 0xE4, CHR 0xBA, CHR 0x86, CHR 0xE4, CHR 0xB8]
     @ [CHR 0x80, CHR 0xE4, CHR 0xBA, CHR 0x9B, CHR 0xE4, CHR 0xBF, CHR 0xA1, CHR 0xE6, CHR 0x81, CHR 0xAF, CHR 0xE4, CHR 0xBD, CHR 0x86, CHR 0xE6]
     @ [CHR 0x9C, CHR 0xAA, CHR 0xE8, CHR 0x83, CHR 0xBD, CHR 0xE5, CHR 0xAE, CHR 0x8C, CHR 0xE6, CHR 0x88, CHR 0x90, CHR 0xE5, CHR 0x85, CHR 0xA8]
     @ [CHR 0xE9, CHR 0x83, CHR 0xA8, CHR 0xE6, CHR 0xAD, CHR 0xA5, CHR 0xE9, CHR 0xAA, CHR 0xA4, CHR 0xE3, CHR 0x80, CHR 0x82, CHR 0xE8, CHR 0xAF]
     @ [CHR 0xB7, CHR 0xE5, CHR 0xB0, CHR 0x9D, CHR 0xE8, CHR 0xAF, CHR 0x95, CHR 0xE6, CHR 0x8B, CHR 0x86, CHR 0xE5, CHR 0x88, CHR 0x86, CHR 0xE6]
     @ [CHR 0x88, CHR 0x90, CHR 0xE6, CHR 0x9B, CHR 0xB4, CHR 0xE5, CHR 0xB0, CHR 0x8F, CHR 0xE7, CHR 0x9A, CHR 0x84, CHR 0xE9, CHR 0x97, CHR 0xAE]
     @ [CHR 0xE9, CHR 0xA2, CHR 0x98, CHR 0xE5, CHR 0x86, CHR 0x8D, CHR 0xE9, CHR 0x97, CHR 0xAE, CHR 0xE6, CHR 0x88, CHR 0x91, CHR 0xE3, CHR 0x80]
     @ [CHR 0x82]"

definition blank :: "string \<Rightarrow> bool" where
  "blank s \<longleftrightarrow> list_all (\<lambda>c. c \<in> {CHR '' '', CHR 0x09, CHR 0x0D, CHR 0x0A}) s"

text \<open>\<open>mem\<close>: the buffer for the clean text, as long as the text, could be allocated.\<close>

definition strip_tool_call_markup :: "bool \<Rightarrow> string option \<Rightarrow> string option" where
  "strip_tool_call_markup mem txt0 =
     (case txt0 of
        None \<Rightarrow> None
      | Some s \<Rightarrow>
          if strstr s open_tag = None \<and> strstr s ns_tag = None then Some s
          else if \<not> mem then Some s
          else let clean = strip_blocks s in
               if clean = [] \<or> blank clean then Some too_complex_text else Some clean)"

section \<open>What is removed\<close>

lemma strip_blocks_cut: "next_block r = Some (ts, te) \<Longrightarrow> strip_blocks r = take ts r @ strip_blocks (drop te r)"
  using next_block_progress [of r ts te] next_block_in [of r ts te] by (subst strip_blocks.simps) auto

lemma strip_blocks_length: "length (strip_blocks r) \<le> length r"
proof (induction r rule: strip_blocks.induct)
  case (1 r)
  show ?case
  proof (cases "r = [] \<or> next_block r = None")
    case True
    then show ?thesis by (subst strip_blocks.simps) auto
  next
    case False
    then obtain ts te where b: "r \<noteq> []" "next_block r = Some (ts, te)" by auto
    have "length (strip_blocks (drop te r)) \<le> length r - te" using 1 [OF b(1) b(2) refl] by simp
    then show ?thesis using b next_block_progress [OF b(2)] next_block_in [OF b(2)] by (subst strip_blocks.simps) auto
  qed
qed

lemma next_block_plain:
  assumes "CHR ''<'' \<notin> set p" "CHR ''<'' \<notin> set b" "strstr (p @ open_tag @ b @ close_tag @ r) ns_tag = None"
  shows "next_block (p @ open_tag @ b @ close_tag @ r) = Some (length p, length p + 11 + length b + 12)"
proof -
  have "strstr (p @ open_tag @ b @ close_tag @ r) open_tag = Some (length p)"
    using assms(1) strstr_skip [of open_tag p "open_tag @ b @ close_tag @ r"] strstr_here by (simp add: open_tag_def)
  moreover have "strstr (b @ close_tag @ r) close_tag = Some (length b)"
    using assms(2) strstr_skip [of close_tag b "close_tag @ r"] strstr_here by (simp add: close_tag_def)
  moreover have "drop (length p + 11) (p @ open_tag @ b @ close_tag @ r) = b @ close_tag @ r"
    by (simp add: open_tag_def)
  ultimately show ?thesis using assms(3) by (simp add: next_block_def Let_def)
qed

definition with_blocks :: "(string \<times> string) list \<Rightarrow> string \<Rightarrow> string" where
  "with_blocks segs t = concat (map (\<lambda>(p, b). p @ open_tag @ b @ close_tag) segs) @ t"

lemma strip_blocks_plain:
  assumes "\<forall>(p, b)\<in>set segs. CHR ''<'' \<notin> set p \<and> CHR ''<'' \<notin> set b" "CHR ''<'' \<notin> set t"
    "strstr (with_blocks segs t) ns_tag = None"
  shows "strip_blocks (with_blocks segs t) = concat (map fst segs) @ t"
  using assms(1,3)
proof (induction segs)
  case Nil
  have "strstr t open_tag = None" using strstr_skip [of open_tag t "[]"] assms(2) by (simp add: open_tag_def)
  then have "next_block t = None" using Nil by (simp add: next_block_def with_blocks_def)
  then show ?case by (subst strip_blocks.simps) (simp add: with_blocks_def)
next
  case (Cons s segs)
  obtain p b where s: "s = (p, b)" by fastforce
  let ?r = "with_blocks segs t"
  have w: "with_blocks (s # segs) t = p @ open_tag @ b @ close_tag @ ?r" by (simp add: with_blocks_def s)
  have nb: "next_block (p @ open_tag @ b @ close_tag @ ?r) = Some (length p, length p + 11 + length b + 12)"
    by (rule next_block_plain) (use Cons.prems s w in auto)
  have d: "drop (length p + 11 + length b + 12) (p @ open_tag @ b @ close_tag @ ?r) = ?r"
  proof -
    have "length (p @ open_tag @ b @ close_tag) = length p + 11 + length b + 12" by (simp add: open_tag_def close_tag_def)
    then show ?thesis by (metis append.assoc append_eq_conv_conj)
  qed
  then have "strstr ?r ns_tag = None" using Cons.prems(2) strstr_None_drop w by metis
  then have "strip_blocks ?r = concat (map fst segs) @ t" using Cons by simp
  moreover have "strip_blocks (with_blocks (s # segs) t) = p @ strip_blocks ?r"
    unfolding w strip_blocks_cut [OF nb] d by simp
  ultimately show ?case by (simp add: s)
qed

text \<open>
  Leaked tool calls are cut out and nothing else: in a text with any number of
  \<^verbatim>\<open><tool_call>\<close> blocks (no other \<^verbatim>\<open><\<close> and no tag with a name space),
  \<^verbatim>\<open>strip_tool_call_markup\<close> keeps exactly the text around the blocks, in order; when only white
  space is left, the user gets the fixed apology instead.
\<close>

theorem markup_stripped:
  assumes "segs \<noteq> []" "\<forall>(p, b)\<in>set segs. CHR ''<'' \<notin> set p \<and> CHR ''<'' \<notin> set b" "CHR ''<'' \<notin> set t"
    "strstr (with_blocks segs t) ns_tag = None"
  shows "strip_tool_call_markup True (Some (with_blocks segs t)) =
    (let rest = concat (map fst segs) @ t in Some (if blank rest then too_complex_text else rest))"
proof -
  obtain p b segs' where s: "segs = (p, b) # segs'" using assms(1) by (cases segs) auto
  have "with_blocks segs t = p @ open_tag @ b @ close_tag @ with_blocks segs' t" by (simp add: with_blocks_def s)
  then have "strstr (with_blocks segs t) open_tag = Some (length p)"
    using strstr_skip [of open_tag p "open_tag @ b @ close_tag @ with_blocks segs' t"] strstr_here assms(2) s
    by (simp add: open_tag_def)
  then show ?thesis using strip_blocks_plain [OF assms(2-4)]
    by (cases "concat (map fst segs) @ t = []") (auto simp: strip_tool_call_markup_def Let_def blank_def simp del: append_is_Nil_conv)
qed

theorem markup_stripped_witness:
  "strip_tool_call_markup True (Some ''It rains.<tool_call>f()</tool_call> Take a coat.'') = Some ''It rains. Take a coat.''"
proof -
  have "strstr (with_blocks [(''It rains.'', ''f()'')] '' Take a coat.'') ns_tag = None" by code_simp
  then show ?thesis
    using markup_stripped [of "[(''It rains.'', ''f()'')]" "'' Take a coat.''"]
    by (simp add: with_blocks_def open_tag_def close_tag_def blank_def Let_def)
qed

end
