(* ===== verification/Agent_Loop.thy ===== *)
theory Agent_Loop
  imports Agent_Commands Agent_Text
begin

text \<open>
  The ReAct loop of the agent (\<^verbatim>\<open>services/ai_agent/src/core/agent_loop.c\<close>): one turn asks the
  LLM, runs the tools it calls, adds their results to the messages and asks again, at most ten
  times; it fails over to another backend, watches the time of every call, breaks out of repeated
  calls and caches the answers to simple questions.

  Tools called together run in threads of their own: each runs to its end at one point, in the
  order that the environment chooses. The structured trace only writes log lines and is left out.
\<close>

definition AGENT_AI_AGENT_MAX_TOOL_ITER :: nat where [c_consts]: "AGENT_AI_AGENT_MAX_TOOL_ITER = 10"
definition AGENT_TOOL_NAME_REPEAT_MAX :: int where [c_consts]: "AGENT_TOOL_NAME_REPEAT_MAX = 4"
definition AGENT_LLM_TIMEOUT_SEC :: u32 where [c_consts]: "AGENT_LLM_TIMEOUT_SEC = 60"
definition TOOL_OUTPUT_SIZE_LARGE :: nat where [c_consts]: "TOOL_OUTPUT_SIZE_LARGE = 16 * 1024"
definition TOOL_OUTPUT_SIZE_MIN :: nat where [c_consts]: "TOOL_OUTPUT_SIZE_MIN = 2 * 1024"

definition LLM_TIMEOUT_MSG :: string where
  "LLM_TIMEOUT_MSG = ([CHR 0xE8, CHR 0xAF, CHR 0xB7, CHR 0xE6, CHR 0xB1, CHR 0x82, CHR 0xE8, CHR 0xB6, CHR 0x85, CHR 0xE6, CHR 0x97, CHR 0xB6, CHR 0xEF, CHR 0xBC]
     @ [CHR 0x8C] @ ''LLM ''
     @ [CHR 0xE5, CHR 0x93, CHR 0x8D, CHR 0xE5, CHR 0xBA, CHR 0x94, CHR 0xE6, CHR 0x97, CHR 0xB6, CHR 0xE9, CHR 0x97, CHR 0xB4, CHR 0xE8, CHR 0xBF]
     @ [CHR 0x87, CHR 0xE9, CHR 0x95, CHR 0xBF, CHR 0xE3, CHR 0x80, CHR 0x82, CHR 0xE8, CHR 0xAF, CHR 0xB7, CHR 0xE7, CHR 0xA8, CHR 0x8D, CHR 0xE5]
     @ [CHR 0x90, CHR 0x8E, CHR 0xE9, CHR 0x87, CHR 0x8D, CHR 0xE8, CHR 0xAF, CHR 0x95, CHR 0xEF, CHR 0xBC, CHR 0x8C, CHR 0xE6, CHR 0x88, CHR 0x96]
     @ [CHR 0xE5, CHR 0xB0, CHR 0x9D, CHR 0xE8, CHR 0xAF, CHR 0x95, CHR 0xE7, CHR 0xAE, CHR 0x80, CHR 0xE5, CHR 0x8C, CHR 0x96, CHR 0xE4, CHR 0xBD]
     @ [CHR 0xA0, CHR 0xE7, CHR 0x9A, CHR 0x84, CHR 0xE9, CHR 0x97, CHR 0xAE, CHR 0xE9, CHR 0xA2, CHR 0x98, CHR 0xE3, CHR 0x80, CHR 0x82])"
definition LLM_TIMEOUT_TASK_COMPLETE_MSG :: string where
  "LLM_TIMEOUT_TASK_COMPLETE_MSG = ([CHR 0xE4, CHR 0xBB, CHR 0xBB, CHR 0xE5, CHR 0x8A, CHR 0xA1, CHR 0xE5, CHR 0xB7, CHR 0xB2, CHR 0xE5, CHR 0xAE, CHR 0x8C, CHR 0xE6, CHR 0x88]
     @ [CHR 0x90, CHR 0xEF, CHR 0xBC, CHR 0x8C, CHR 0xE4, CHR 0xBD, CHR 0x86, CHR 0xE7, CHR 0x94, CHR 0x9F, CHR 0xE6, CHR 0x88, CHR 0x90, CHR 0xE7]
     @ [CHR 0xA1, CHR 0xAE, CHR 0xE8, CHR 0xAE, CHR 0xA4, CHR 0xE6, CHR 0xB6, CHR 0x88, CHR 0xE6, CHR 0x81, CHR 0xAF, CHR 0xE8, CHR 0xB6, CHR 0x85]
     @ [CHR 0xE6, CHR 0x97, CHR 0xB6, CHR 0xE3, CHR 0x80, CHR 0x82])"

section \<open>Complexity of a question\<close>

definition s_complex_keywords :: "string list" where
  "s_complex_keywords = [''analyze'', ''explain'', ''implement'', ''debug'', ''refactor'', ''design'', ''architect'', ''optimize'',
     ''review'', ''compare'', ([CHR 0xE5, CHR 0x88, CHR 0x86, CHR 0xE6, CHR 0x9E, CHR 0x90]), ([CHR 0xE8, CHR 0xA7, CHR 0xA3, CHR 0xE9, CHR 0x87, CHR 0x8A]), ([CHR 0xE5, CHR 0xAE, CHR 0x9E, CHR 0xE7, CHR 0x8E, CHR 0xB0]), ([CHR 0xE8, CHR 0xB0, CHR 0x83, CHR 0xE8, CHR 0xAF, CHR 0x95]), ([CHR 0xE9, CHR 0x87, CHR 0x8D, CHR 0xE6, CHR 0x9E, CHR 0x84]), ([CHR 0xE8, CHR 0xAE, CHR 0xBE, CHR 0xE8, CHR 0xAE, CHR 0xA1]), ([CHR 0xE4, CHR 0xBC, CHR 0x98, CHR 0xE5, CHR 0x8C, CHR 0x96])]"

definition s_simple_keywords :: "string list" where
  "s_simple_keywords = [''hello'', ''hi'', ''thanks'', ''yes'', ''no'', ''ok'', ''help'', ([CHR 0xE4, CHR 0xBD, CHR 0xA0, CHR 0xE5, CHR 0xA5, CHR 0xBD]), ([CHR 0xE8, CHR 0xB0, CHR 0xA2, CHR 0xE8, CHR 0xB0, CHR 0xA2]), ([CHR 0xE5, CHR 0xA5, CHR 0xBD, CHR 0xE7, CHR 0x9A, CHR 0x84]), ([CHR 0xE6, CHR 0x98, CHR 0xAF]), ([CHR 0xE5, CHR 0x90, CHR 0xA6])]"

definition utf8_bytes :: "string \<Rightarrow> u8 list" where
  "utf8_bytes s = map (\<lambda>c. of_nat (of_char c)) s"

definition estimate_complexity :: "string \<Rightarrow> llm_complexity" where
  "estimate_complexity prompt =
     llm_router_estimate_complexity (strstr prompt [CHR 0x60, CHR 0x60, CHR 0x60] \<noteq> None)
       (contains_any prompt s_complex_keywords) (contains_any prompt s_simple_keywords) (utf8_bytes prompt)"

section \<open>Messages\<close>

definition nonempty :: "string option \<Rightarrow> string option" where
  "nonempty t = (case t of Some (c # cs) \<Rightarrow> Some (c # cs) | _ \<Rightarrow> None)"

definition add_assistant_message :: "llm_response \<Rightarrow> chat_msg list \<Rightarrow> chat_msg list" where
  "add_assistant_message resp messages =
     messages @ [Assistant_Msg (nonempty (resp_text resp)) (nonempty (resp_reasoning resp))
       (map (\<lambda>c. c\<lparr>call_input := Some (case call_input c of None \<Rightarrow> ''{}'' | Some i \<Rightarrow> i)\<rparr>) (resp_calls resp))]"

definition inject_cron_context :: "'w agent_env \<Rightarrow> llm_tool_call \<Rightarrow> string \<Rightarrow> string \<Rightarrow> string option" where
  "inject_cron_context env call channel chat_id =
     (if call_name call \<noteq> ''cron_add'' then None
      else if channel = [] \<or> chat_id = [] then None
      else case call_input call of None \<Rightarrow> None | Some i \<Rightarrow> ae_patch_cron env channel chat_id i)"

definition exec_call :: "'w agent_env \<Rightarrow> llm_tool_call \<Rightarrow> string \<Rightarrow> string \<Rightarrow> nat \<Rightarrow> 'w agent \<Rightarrow> string \<times> 'w agent" where
  "exec_call env call channel chat_id output_size s =
     (let input = (case inject_cron_context env call channel chat_id of Some p \<Rightarrow> Some p | None \<Rightarrow> call_input call) in
      agent_tool_exec_streamed
        (\<lambda>n t. case run_tool env (call_name call) input n t of (_, out, t1) \<Rightarrow> (out, t1))
        (ae_free_heap env (ag_world s)) (ae_mem env (ag_world s)) output_size s)"

text \<open>A task of the parallel path: the call, the buffer (from the pool, from the heap or none), its size, the thread.\<close>

record tool_task =
  tt_call :: llm_tool_call
  tt_pool_buf :: "nat option"
  tt_output :: bool
  tt_size :: nat
  tt_thread :: bool

fun start_tasks :: "'w agent_env \<Rightarrow> nat \<Rightarrow> nat \<Rightarrow> llm_tool_call list \<Rightarrow> 'w agent \<Rightarrow> tool_task list \<times> 'w agent" where
  "start_tasks env par_size i [] s = ([], s)"
| "start_tasks env par_size i (c # cs) s =
     (case (if s_pool_ready s then agent_pool_acquire (ag_pool s) else (None, ag_pool s)) of
        (buf, pool) \<Rightarrow>
          let w = ag_world s;
              out = (buf \<noteq> None \<or> ae_mem env w);
              t = \<lparr>tt_call = c, tt_pool_buf = buf, tt_output = out,
                   tt_size = (if buf \<noteq> None then pool_buf_size pool else par_size), tt_thread = (out \<and> ae_thread env i w)\<rparr>
          in case start_tasks env par_size (Suc i) cs (s\<lparr>ag_pool := pool\<rparr>) of (ts, s1) \<Rightarrow> (t # ts, s1))"

definition tool_exec_thread ::
  "'w agent_env \<Rightarrow> tool_task list \<Rightarrow> string \<Rightarrow> string \<Rightarrow> nat \<Rightarrow> string list \<times> 'w agent \<Rightarrow> string list \<times> 'w agent"
where
  "tool_exec_thread env ts channel chat_id i os =
     (case os of (outs, s) \<Rightarrow>
        if i < length ts \<and> tt_thread (ts ! i)
        then case exec_call env (tt_call (ts ! i)) channel chat_id (tt_size (ts ! i)) s of (out, s1) \<Rightarrow> (outs[i := out], s1)
        else (outs, s))"

text \<open>The results in the order of the calls; ids are remembered by their first 31 bytes.\<close>

fun collect_results :: "string list \<Rightarrow> llm_tool_call list \<Rightarrow> string list \<Rightarrow> chat_msg list" where
  "collect_results seen (c # cs) (out # outs) =
     (if list_ex (\<lambda>s. s = call_id c) seen then collect_results seen cs outs
      else Tool_Msg (call_id c) (if out \<noteq> [] then out else ''{}'') # collect_results (seen @ [take 31 (call_id c)]) cs outs)"
| "collect_results seen _ _ = []"

definition add_tool_result_messages ::
  "'w agent_env \<Rightarrow> nat \<Rightarrow> agent_msg \<Rightarrow> llm_response \<Rightarrow> chat_msg list \<Rightarrow> 'w agent \<Rightarrow> chat_msg list \<times> 'w agent"
where
  "add_tool_result_messages env tool_size msg resp messages s =
     (let calls = resp_calls resp; n = length calls in
      if n = 1
      then case exec_call env (hd calls) (msg_channel msg) (msg_chat_id msg) tool_size s of
             (out, s1) \<Rightarrow> (messages @ [Tool_Msg (call_id (hd calls)) out], s1\<lparr>ag_tool_output := out\<rparr>)
      else let par_size = agent_mem_safe_size (ae_free_heap env (ag_world s)) TOOL_OUTPUT_SIZE_LARGE TOOL_OUTPUT_SIZE_MIN in
           case start_tasks env par_size 0 calls s of (ts, s1) \<Rightarrow>
             (case fold (tool_exec_thread env ts (cstr_copy 16 (msg_channel msg)) (cstr_copy 64 (msg_chat_id msg)))
                     (ae_order env n (ag_world s1)) (replicate n [], s1) of
                (outs, s2) \<Rightarrow>
                  (messages @ collect_results [] calls outs,
                   s2\<lparr>ag_pool := fold agent_pool_release (map tt_pool_buf ts) (ag_pool s2)\<rparr>)))"

section \<open>Repeated calls\<close>

record dup_state =
  prev_sig :: string
  dup_count :: int
  prev_name :: string
  name_repeat :: int

definition dup_init :: dup_state where
  "dup_init = \<lparr>prev_sig = [], dup_count = 0, prev_name = [], name_repeat = 0\<rparr>"

definition call_sig :: "llm_tool_call \<Rightarrow> string" where
  "call_sig c = cstr_copy 512 (call_name c @ ''|'' @ take 400 (case call_input c of None \<Rightarrow> [] | Some i \<Rightarrow> i))"

definition check_tool_dup :: "llm_response \<Rightarrow> dup_state \<Rightarrow> bool \<times> dup_state" where
  "check_tool_dup resp d =
     (if length (resp_calls resp) \<noteq> 1 then (False, dup_init)
      else let c = hd (resp_calls resp); cur_sig = call_sig c;
               dc = (if cur_sig = prev_sig d then dup_count d + 1 else 0)
           in if cur_sig = prev_sig d \<and> dc \<ge> 2 then (True, d\<lparr>dup_count := dc\<rparr>)
              else let nr = (if call_name c = prev_name d then name_repeat d + 1 else 0)
                   in if call_name c = prev_name d \<and> nr \<ge> AGENT_TOOL_NAME_REPEAT_MAX
                      then (True, d\<lparr>dup_count := dc, prev_sig := cstr_copy 512 cur_sig, name_repeat := nr\<rparr>)
                      else (False, \<lparr>prev_sig = cstr_copy 512 cur_sig, dup_count = dc,
                                    prev_name = cstr_copy 64 (call_name c), name_repeat = nr\<rparr>))"

section \<open>Calls of the LLM\<close>

definition llm_call_timed_out :: "u32 \<Rightarrow> bool" where
  "llm_call_timed_out latency_ms \<longleftrightarrow> latency_ms > AGENT_LLM_TIMEOUT_SEC * 1000"

text \<open>\<^verbatim>\<open>llm_chat_tools\<close> between two readings of the monotonic clock.\<close>

definition llm_chat_timed ::
  "'w agent_env \<Rightarrow> string \<Rightarrow> chat_msg list \<Rightarrow> string option \<Rightarrow> 'w agent \<Rightarrow> int \<times> llm_response \<times> u32 \<times> 'w agent"
where
  "llm_chat_timed env sys_prompt messages tools s =
     (case ae_llm env sys_prompt messages tools (ag_world s) of (err, resp, w) \<Rightarrow>
        (err, resp, calc_elapsed_ms (ae_monotonic env (ag_world s)) (ae_monotonic env w),
         log_event (Ev_Llm sys_prompt messages tools) (s\<lparr>ag_world := w\<rparr>)))"

definition dup_str :: "'w agent_env \<Rightarrow> 'w agent \<Rightarrow> string \<Rightarrow> string option" where
  "dup_str env s t = (if ae_mem env (ag_world s) then Some t else None)"

definition task_hint :: string where
  "task_hint = ''The task has been completed successfully. Do NOT call any more tools. Reply to the user now confirming what was done.''"

definition finish_hint :: string where
  "finish_hint = ''You have used all available tool iterations. Do NOT call any more tools. Summarize what you have ''
     @ ''learned so far and reply to the user in plain text now.''"

text \<open>The last call of a turn, without tools: its text, or nothing after an error or a timeout.\<close>

definition final_call ::
  "'w agent_env \<Rightarrow> string \<Rightarrow> string \<Rightarrow> chat_msg list \<Rightarrow> 'w agent \<Rightarrow> string option \<times> bool \<times> 'w agent"
where
  "final_call env sys_prompt hint messages s =
     (case llm_chat_timed env sys_prompt (messages @ [Text_Msg ''system'' hint]) None s of (err, resp, ms, s1) \<Rightarrow>
        let timed_out = llm_call_timed_out ms in
        (if err = OK \<and> \<not> timed_out
         then (case nonempty (resp_text resp) of Some t \<Rightarrow> dup_str env s1 t | None \<Rightarrow> None) else None, timed_out, s1))"

definition handle_task_complete ::
  "'w agent_env \<Rightarrow> string \<Rightarrow> chat_msg list \<Rightarrow> 'w agent \<Rightarrow> string option \<times> bool \<times> 'w agent"
where
  "handle_task_complete env sys_prompt messages s =
     (case final_call env sys_prompt task_hint messages s of (result, timed_out, s1) \<Rightarrow>
        if result = None \<and> timed_out then (dup_str env s1 LLM_TIMEOUT_TASK_COMPLETE_MSG, True, s1)
        else (result, False, s1))"

definition force_finish_reply :: "'w agent_env \<Rightarrow> string \<Rightarrow> chat_msg list \<Rightarrow> 'w agent \<Rightarrow> string option \<times> 'w agent" where
  "force_finish_reply env sys_prompt messages s =
     (case final_call env sys_prompt finish_hint messages s of (result, timed_out, s1) \<Rightarrow>
        let result1 = (if result = None \<and> timed_out then dup_str env s1 LLM_TIMEOUT_MSG else result)
        in (strip_tool_call_markup (ae_mem env (ag_world s1)) result1, s1))"

section \<open>One round\<close>

definition s_working_phrases :: "string list" where
  "s_working_phrases = [([CHR 0xE6, CHR 0xAD, CHR 0xA3, CHR 0xE5, CHR 0x9C, CHR 0xA8, CHR 0xE6, CHR 0x80, CHR 0x9D, CHR 0xE8, CHR 0x80, CHR 0x83, CHR 0xE4, CHR 0xB8]
     @ [CHR 0xAD] @ ''...''), ([CHR 0xE7, CHR 0xA8, CHR 0x8D, CHR 0xE7, CHR 0xAD, CHR 0x89, CHR 0xEF, CHR 0xBC, CHR 0x8C, CHR 0xE5, CHR 0xA4, CHR 0x84, CHR 0xE7, CHR 0x90]
     @ [CHR 0x86, CHR 0xE4, CHR 0xB8, CHR 0xAD] @ ''...''), ([CHR 0xE8, CHR 0xAE, CHR 0xA9, CHR 0xE6, CHR 0x88, CHR 0x91, CHR 0xE6, CHR 0x9F, CHR 0xA5, CHR 0xE4, CHR 0xB8, CHR 0x80, CHR 0xE4, CHR 0xB8]
     @ [CHR 0x8B] @ ''...''), ([CHR 0xE6, CHR 0xAD, CHR 0xA3, CHR 0xE5, CHR 0x9C, CHR 0xA8, CHR 0xE5, CHR 0x88, CHR 0x86, CHR 0xE6, CHR 0x9E, CHR 0x90]
     @ ''...''), ([CHR 0xE9, CHR 0xA9, CHR 0xAC, CHR 0xE4, CHR 0xB8, CHR 0x8A, CHR 0xE5, CHR 0xA5, CHR 0xBD] @ ''...'')]"

definition quiet_channel :: "string \<Rightarrow> bool" where
  "quiet_channel ch \<longleftrightarrow> ch = ''feishu'' \<or> ch = ''voice'' \<or> ch = ''weixin''"

definition send_working_status :: "'w agent_env \<Rightarrow> agent_msg \<Rightarrow> nat \<Rightarrow> 'w agent \<Rightarrow> 'w agent" where
  "send_working_status env msg iteration s =
     (if iteration \<noteq> 0 \<or> quiet_channel (msg_channel msg) then s
      else case dup_str env s (s_working_phrases ! (ae_rand env (ag_world s) mod 5)) of
             None \<Rightarrow> s
           | Some t \<Rightarrow> push_out env (reply_to msg t) s)"

definition now32 :: "'w agent_env \<Rightarrow> 'w agent \<Rightarrow> u32" where
  "now32 env s = of_int (ae_epoch env (ag_world s))"

definition apply_backend :: "'w agent_env \<Rightarrow> nat \<Rightarrow> 'w agent \<Rightarrow> 'w agent" where
  "apply_backend env i s =
     (case llm_router_apply (int i) (ag_router s) of
        None \<Rightarrow> s
      | Some cfg \<Rightarrow> s\<lparr>ag_world := ae_set_all env cfg (ag_world s)\<rparr>)"

definition select_backend ::
  "'w agent_env \<Rightarrow> llm_complexity \<Rightarrow> llm_route_profile \<Rightarrow> 'w agent \<Rightarrow> nat option \<times> 'w agent"
where
  "select_backend env complexity profile s =
     (case llm_router_select_with_profile complexity profile (now32 env s) (ag_router s) of
        (idx, r) \<Rightarrow> (idx, s\<lparr>ag_router := r\<rparr>))"

text \<open>What a turn carries from round to round.\<close>

record turn =
  tn_messages :: "chat_msg list"
  tn_dup :: dup_state
  tn_router_idx :: "nat option"
  tn_last_tokens :: int

text \<open>The call of the round, with the failover to another backend after an error.\<close>

definition call_with_failover ::
  "'w agent_env \<Rightarrow> string \<Rightarrow> string option \<Rightarrow> llm_complexity \<Rightarrow> turn \<Rightarrow> 'w agent
   \<Rightarrow> int \<times> llm_response \<times> u32 \<times> nat option \<times> 'w agent"
where
  "call_with_failover env sys_prompt tools complexity tn s =
     (case llm_chat_timed env sys_prompt (tn_messages tn) tools s of (err, resp, ms, s1) \<Rightarrow>
        (case tn_router_idx tn of
           None \<Rightarrow> (err, resp, ms, None, s1)
         | Some idx \<Rightarrow>
             if err = OK then (err, resp, ms, Some idx, s1)
             else let s2 = s1\<lparr>ag_router := llm_router_report_failure (now32 env s1) (int idx) (ag_router s1)\<rparr> in
                  (case select_backend env complexity (s_profile (ag_router s2)) s2 of (nxt, s3) \<Rightarrow>
                     (case nxt of
                        None \<Rightarrow> (err, resp, ms, Some idx, s3)
                      | Some j \<Rightarrow>
                          if j = idx then (err, resp, ms, Some idx, s3)
                          else (case llm_chat_timed env sys_prompt (tn_messages tn) tools (apply_backend env j s3) of
                                  (err2, resp2, ms2, s4) \<Rightarrow> (err2, resp2, ms2, Some j, s4))))))"

definition report_ok :: "nat option \<Rightarrow> llm_response \<Rightarrow> u32 \<Rightarrow> 'w agent \<Rightarrow> 'w agent" where
  "report_ok idx resp ms s =
     (case idx of
        None \<Rightarrow> s
      | Some i \<Rightarrow>
          let r1 = llm_router_report_success (int i) (ag_router s);
              r2 = llm_router_report_latency (int i) ms r1;
              r3 = (if total_tokens resp > 0 then llm_router_report_tokens (int i) (prompt_tokens resp) (completion_tokens resp) r2 else r2)
          in s\<lparr>ag_router := r3\<rparr>)"

definition low_quality :: "string \<Rightarrow> bool" where
  "low_quality t \<longleftrightarrow> strstr t (''I don'' @ [CHR 0x27] @ ''t know'') \<noteq> None \<or> strstr t ''I cannot'' \<noteq> None \<or> strstr t ([CHR 0xE6, CHR 0x97, CHR 0xA0, CHR 0xE6, CHR 0xB3, CHR 0x95]) \<noteq> None"

text \<open>The answer of a round without tool calls; the text, the watchdog and the state.\<close>

definition final_answer ::
  "'w agent_env \<Rightarrow> string \<Rightarrow> string option \<Rightarrow> llm_complexity \<Rightarrow> turn \<Rightarrow> nat option \<Rightarrow> llm_response \<Rightarrow> 'w agent
   \<Rightarrow> string option \<times> bool \<times> 'w agent"
where
  "final_answer env sys_prompt tools complexity tn idx resp s =
     (let txt0 = (case nonempty (resp_text resp) of None \<Rightarrow> None | Some t \<Rightarrow> dup_str env s t);
          retry = (llm_router_get_profile (ag_router s) = LLM_ROUTE_AUTO \<and> complexity = LLM_COMPLEXITY_SIMPLE \<and> idx \<noteq> None
                   \<and> (case resp_text resp of None \<Rightarrow> False | Some t \<Rightarrow> low_quality t))
      in if \<not> retry then (txt0, False, s)
         else case select_backend env LLM_COMPLEXITY_MEDIUM LLM_ROUTE_PREMIUM s of (prem, s1) \<Rightarrow>
                (case prem of
                   None \<Rightarrow> (txt0, False, s1)
                 | Some p \<Rightarrow>
                     if Some p = idx then (txt0, False, s1)
                     else case llm_chat_timed env sys_prompt (tn_messages tn) tools (apply_backend env p s1) of
                            (err, resp2, ms, s2) \<Rightarrow>
                              if llm_call_timed_out ms then (dup_str env s2 LLM_TIMEOUT_MSG, True, s2)
                              else (case nonempty (resp_text resp2) of
                                      Some t \<Rightarrow> if err = OK then (dup_str env s2 t, False, s2) else (txt0, False, s2)
                                    | None \<Rightarrow> (txt0, False, s2))))"

definition local_tool :: "string \<Rightarrow> bool" where
  "local_tool n \<longleftrightarrow> n = ''read_file'' \<or> n = ''write_file'' \<or> n = ''edit_file'' \<or> n = ''list_dir''"

definition is_skill_read :: "'w agent_env \<Rightarrow> llm_tool_call \<Rightarrow> bool" where
  "is_skill_read env c \<longleftrightarrow> call_name c = ''read_file''
     \<and> (case call_input c of None \<Rightarrow> False | Some i \<Rightarrow>
          (case ae_member env ''path'' i of None \<Rightarrow> False | Some p \<Rightarrow> starts p AGENT_SKILLS_DIR))"

datatype 'w round = Break "string option" bool "'w agent" turn | Again "'w agent" turn

definition tool_round ::
  "'w agent_env \<Rightarrow> nat \<Rightarrow> agent_msg \<Rightarrow> string \<Rightarrow> turn \<Rightarrow> llm_response \<Rightarrow> 'w agent \<Rightarrow> 'w round"
where
  "tool_round env tool_size msg sys_prompt tn resp s =
     (case check_tool_dup resp (tn_dup tn) of (should_break, d) \<Rightarrow>
        (case add_tool_result_messages env tool_size msg resp (add_assistant_message resp (tn_messages tn)) s of
           (messages, s1) \<Rightarrow>
             let tn1 = tn\<lparr>tn_messages := messages, tn_dup := d\<rparr>; out = ag_tool_output s1 in
             if should_break then Break None False s1 tn1
             else if length (resp_calls resp) = 1 \<and> local_tool (call_name (hd (resp_calls resp))) \<and> out \<noteq> []
                     \<and> \<not> is_skill_read env (hd (resp_calls resp))
             then Break (dup_str env s1 out) False s1 tn1
             else if length (resp_calls resp) = 1 \<and> out \<noteq> [] \<and> strstr out ''TASK_COMPLETE'' \<noteq> None
             then (case handle_task_complete env sys_prompt messages s1 of (t, timed_out, s2) \<Rightarrow> Break t timed_out s2 tn1)
             else Again s1 tn1))"

definition react_round ::
  "'w agent_env \<Rightarrow> nat \<Rightarrow> agent_msg \<Rightarrow> string \<Rightarrow> string option \<Rightarrow> llm_complexity \<Rightarrow> nat \<Rightarrow> turn \<Rightarrow> 'w agent \<Rightarrow> 'w round"
where
  "react_round env tool_size msg sys_prompt tools complexity iteration tn s =
     (case call_with_failover env sys_prompt tools complexity tn (send_working_status env msg iteration s) of
        (err, resp, ms, idx, s1) \<Rightarrow>
          let tn1 = tn\<lparr>tn_router_idx := idx\<rparr> in
          if llm_call_timed_out ms then Break (dup_str env s1 LLM_TIMEOUT_MSG) True s1 tn1
          else if err \<noteq> OK then Break None False s1 tn1
          else let s2 = report_ok idx resp ms s1;
                   tn2 = (if idx \<noteq> None \<and> total_tokens resp > 0 then tn1\<lparr>tn_last_tokens := total_tokens resp\<rparr> else tn1)
               in if resp_tool_use resp then tool_round env tool_size msg sys_prompt tn2 resp s2
                  else (case final_answer env sys_prompt tools complexity tn2 idx resp s2 of
                          (t, wd, s3) \<Rightarrow> Break t wd s3 tn2))"

text \<open>The rounds; \<open>k\<close> are left. The last component tells whether the limit was reached.\<close>

fun react_rounds ::
  "'w agent_env \<Rightarrow> nat \<Rightarrow> agent_msg \<Rightarrow> string \<Rightarrow> string option \<Rightarrow> llm_complexity \<Rightarrow> nat \<Rightarrow> nat \<Rightarrow> turn \<Rightarrow> 'w agent
   \<Rightarrow> string option \<times> bool \<times> 'w agent \<times> turn \<times> bool"
where
  "react_rounds env tool_size msg sys_prompt tools complexity 0 iteration tn s = (None, False, s, tn, True)"
| "react_rounds env tool_size msg sys_prompt tools complexity (Suc k) iteration tn s =
     (case react_round env tool_size msg sys_prompt tools complexity iteration tn s of
        Break t wd s1 tn1 \<Rightarrow> (t, wd, s1, tn1, False)
      | Again s1 tn1 \<Rightarrow> react_rounds env tool_size msg sys_prompt tools complexity k (Suc iteration) tn1 s1)"

section \<open>One turn\<close>

definition cache_answer :: "'w agent_env \<Rightarrow> string \<Rightarrow> string \<Rightarrow> int \<Rightarrow> 'w agent \<Rightarrow> 'w agent" where
  "cache_answer env content t tokens s =
     (let c1 = llm_cache_put (ae_mem env (ag_world s)) (now32 env s) (Some (utf8_bytes content)) (Some t) (ag_cache s);
          c2 = (if tokens > 0 then llm_cache_put_tokens (Some (utf8_bytes content)) tokens c1 else c1)
      in s\<lparr>ag_cache := c2\<rparr>)"

definition run_react_loop ::
  "'w agent_env \<Rightarrow> nat \<Rightarrow> string \<Rightarrow> chat_msg list \<Rightarrow> string option \<Rightarrow> agent_msg \<Rightarrow> string \<Rightarrow> 'w agent \<Rightarrow> string option \<times> 'w agent"
where
  "run_react_loop env tool_size sys_prompt messages tools msg content s =
     (let complexity = estimate_complexity content; simple = (complexity = LLM_COMPLEXITY_SIMPLE) in
      case select_backend env complexity (s_profile (ag_router s)) s of (idx, s1) \<Rightarrow>
        let s2 = (case idx of None \<Rightarrow> s1 | Some i \<Rightarrow> apply_backend env i s1) in
        case (if simple then llm_cache_get (ae_mem env (ag_world s2)) (now32 env s2) (Some (utf8_bytes content)) (ag_cache s2)
              else (None, ag_cache s2)) of
          (Some t, c) \<Rightarrow> (Some t, cache_answer env content t 0 (s2\<lparr>ag_cache := c\<rparr>))
        | (None, c) \<Rightarrow>
            (case react_rounds env tool_size msg sys_prompt tools complexity AGENT_AI_AGENT_MAX_TOOL_ITER 0
                    \<lparr>tn_messages = messages, tn_dup = dup_init, tn_router_idx = idx, tn_last_tokens = 0\<rparr> (s2\<lparr>ag_cache := c\<rparr>) of
               (t, wd, s3, tn, limit) \<Rightarrow>
                 (case (if t = None \<and> limit then force_finish_reply env sys_prompt (tn_messages tn) s3 else (t, s3)) of
                    (final_text, s4) \<Rightarrow>
                      (case final_text of
                         Some ft \<Rightarrow> (Some ft, if \<not> wd \<and> simple then cache_answer env content ft (tn_last_tokens tn) s4 else s4)
                       | None \<Rightarrow> (None, s4)))))"

end
