(* ===== verification/Agent_Task.thy ===== *)
theory Agent_Task
  imports Agent_Loop
begin

text \<open>
  The agent task (\<^verbatim>\<open>services/ai_agent/src/core/agent_loop.c\<close>): it takes one message after the
  other from the inbound queue, answers it on a fast path or with a turn of the ReAct loop, sends
  the reply and records the exchange in the session.

  Handling a message yields no state (\<open>None\<close>) when the code would read a NULL content or when
  the system prompt overruns its buffer.
\<close>

definition AGENT_AI_AGENT_MAX_HISTORY :: nat where [c_consts]: "AGENT_AI_AGENT_MAX_HISTORY = 10"

definition default_vision_prompt :: string where
  "default_vision_prompt = ''Please analyze this image in detail. If it contains text, tables, or documents, extract and describe the content accurately.''"

text \<open>The sizes of the three buffers of the task.\<close>

record agent_bufs =
  ctx_size :: nat
  hist_size :: nat
  tool_size :: nat

section \<open>Handling one message\<close>

definition build_messages :: "'w agent_env \<Rightarrow> nat \<Rightarrow> string \<Rightarrow> string \<Rightarrow> sessions \<Rightarrow> chat_msg list" where
  "build_messages env hsize chat_id content ss =
     (case session_get_history_json (ae_sess env) (ae_print_history env) chat_id hsize AGENT_AI_AGENT_MAX_HISTORY ss of
        (_, json) \<Rightarrow>
          (case ae_parse_history env json of None \<Rightarrow> [] | Some ms \<Rightarrow> ms) @ [Text_Msg ''user'' content])"

text \<open>\<open>image_b64\<close> is freed in every case; the reply of the vision model, if it has one.\<close>

definition handle_vision_message :: "'w agent_env \<Rightarrow> agent_msg \<Rightarrow> 'w agent \<Rightarrow> string option \<times> agent_msg \<times> 'w agent" where
  "handle_vision_message env msg s =
     (case nonempty (msg_image_b64 msg) of
        None \<Rightarrow> (None, msg, s)
      | Some img \<Rightarrow>
          let vis_size = agent_mem_safe_size (ae_free_heap env (ag_world s)) (8 * 1024) TOOL_OUTPUT_SIZE_MIN;
              msg1 = msg\<lparr>msg_image_b64 := None\<rparr>
          in if \<not> ae_mem env (ag_world s) then (None, msg1, s)
             else let prompt = (case nonempty (msg_content msg) of Some c \<Rightarrow> c | None \<Rightarrow> default_vision_prompt) in
                  case ae_vision env prompt img vis_size (ag_world s) of (err, resp, w) \<Rightarrow>
                    (if err = OK \<and> resp \<noteq> [] then Some resp else None, msg1,
                     log_event (Ev_Vision prompt) (s\<lparr>ag_world := w\<rparr>)))"

definition append_session :: "'w agent_env \<Rightarrow> string \<Rightarrow> string \<Rightarrow> string \<Rightarrow> 'w agent \<Rightarrow> 'w agent" where
  "append_session env chat_id role content s =
     s\<lparr>ag_sessions := snd (session_append (ae_sess env) (ae_append_ok env (ag_world s)) (ae_trunc_ok env (ag_world s)) chat_id
        \<lparr>e_role = role, e_content = content\<rparr> (ag_sessions s))\<rparr>"

definition error_text :: string where "error_text = ''Sorry, I encountered an error.''"

definition dispatch_response :: "'w agent_env \<Rightarrow> agent_msg \<Rightarrow> string \<Rightarrow> string option \<Rightarrow> 'w agent \<Rightarrow> 'w agent" where
  "dispatch_response env msg content final_text s =
     (case nonempty final_text of
        Some t \<Rightarrow>
          push_out env (reply_to msg t)
            (append_session env (msg_chat_id msg) ''assistant'' t (append_session env (msg_chat_id msg) ''user'' content s))
      | None \<Rightarrow>
          (case dup_str env s error_text of None \<Rightarrow> s | Some t \<Rightarrow> push_out env (reply_to msg t) s))"

definition low_memory_text :: string where "low_memory_text = ([CHR 0xE7, CHR 0xB3, CHR 0xBB, CHR 0xE7, CHR 0xBB, CHR 0x9F, CHR 0xE5, CHR 0x86, CHR 0x85, CHR 0xE5, CHR 0xAD, CHR 0x98, CHR 0xE4, CHR 0xB8]
     @ [CHR 0x8D, CHR 0xE8, CHR 0xB6, CHR 0xB3, CHR 0xEF, CHR 0xBC, CHR 0x8C, CHR 0xE8, CHR 0xAF, CHR 0xB7, CHR 0xE7, CHR 0xA8, CHR 0x8D, CHR 0xE5]
     @ [CHR 0x90, CHR 0x8E, CHR 0xE5, CHR 0x86, CHR 0x8D, CHR 0xE8, CHR 0xAF, CHR 0x95, CHR 0xE3, CHR 0x80, CHR 0x82])"
definition refuse_text :: string where "refuse_text = ''I can'' @ [CHR 0x27] @ ''t do that.''"

text \<open>A turn of the LLM: prompt, history, vision or ReAct loop, reply.\<close>

definition llm_turn :: "'w agent_env \<Rightarrow> agent_bufs \<Rightarrow> agent_msg \<Rightarrow> string \<Rightarrow> 'w agent \<Rightarrow> 'w agent option" where
  "llm_turn env bufs msg content s0 =
     (let s = s0\<lparr>ag_world := ae_refresh_skills env (ag_world s0)\<rparr>; w = ag_world s in
      case context_build_system_prompt (ctx_size bufs) (ae_epoch env w) (ae_tool_names env w) (ae_skills env 1024 w) (ae_memory env w) of
        None \<Rightarrow> None
      | Some (p, _) \<Rightarrow>
          let sys_prompt = inject_session_context (ctx_size bufs) (msg_channel msg) (msg_chat_id msg) p;
              messages = build_messages env (hist_size bufs) (msg_chat_id msg) content (ag_sessions s)
          in case handle_vision_message env msg s of
               (Some t, msg1, s1) \<Rightarrow> Some (dispatch_response env msg1 content (Some t) s1)
             | (None, msg1, s1) \<Rightarrow>
                 (case run_react_loop env (tool_size bufs) sys_prompt messages (ae_tools_json env w) msg1 content
                         (s1\<lparr>s_llm_path_count := s_llm_path_count s1 + 1\<rparr>) of
                    (final_text, s2) \<Rightarrow> Some (dispatch_response env msg1 content final_text s2)))"

definition process_message :: "'w agent_env \<Rightarrow> agent_bufs \<Rightarrow> agent_msg \<Rightarrow> 'w agent \<Rightarrow> 'w agent option" where
  "process_message env bufs msg0 s =
     (if ae_free_heap env (ag_world s) < AGENT_MEM_RESERVE_BYTES
      then Some (case dup_str env s low_memory_text of None \<Rightarrow> s | Some t \<Rightarrow> push_out env (reply_to msg0 t) s)
      else case handle_slash_command env msg0 s of (slash, msg, s1) \<Rightarrow>
        (case slash of
           Some r \<Rightarrow> Some (push_out env (reply_to msg r) s1)
         | None \<Rightarrow>
             if tool_guard_check_injection (msg_content msg)
             then Some (case dup_str env s1 refuse_text of None \<Rightarrow> s1 | Some r \<Rightarrow> push_out env (reply_to msg r) s1)
             else (case msg_content msg of
                     None \<Rightarrow> None
                   | Some content \<Rightarrow>
                       (case handle_nl_fast_path env content s1 of
                          (Some r, s2) \<Rightarrow> Some (push_out env (reply_to msg r) s2)
                        | (None, s2) \<Rightarrow> llm_turn env bufs msg content s2))))"

section \<open>The task\<close>

text \<open>
  One round of the task loop: whether shutdown was requested before the pop, the result of the
  pop, and whether shutdown was requested after it.
\<close>

record task_round =
  rd_stop_before :: bool
  rd_code :: int
  rd_msg :: agent_msg
  rd_stop_after :: bool

fun agent_task_loop :: "'w agent_env \<Rightarrow> agent_bufs \<Rightarrow> task_round list \<Rightarrow> 'w agent \<Rightarrow> 'w agent option" where
  "agent_task_loop env bufs [] s = Some s"
| "agent_task_loop env bufs (r # rs) s =
     (if rd_stop_before r then Some s
      else if rd_code r \<noteq> OK then agent_task_loop env bufs rs s
      else if rd_stop_after r then Some s
      else (case process_message env bufs (rd_msg r) s of
              None \<Rightarrow> None
            | Some s1 \<Rightarrow> agent_task_loop env bufs rs s1))"

text \<open>
  The start: buffer sizes from the free heap, the three buffers (\<open>calloc_ok\<close>), the pool
  (\<open>addrs\<close>); and the end: the pool is destroyed.
\<close>

definition agent_task_bufs :: "nat \<Rightarrow> agent_bufs" where
  "agent_task_bufs free_heap =
     \<lparr>ctx_size = agent_mem_safe_size free_heap (8 * 1024) (4 * 1024), hist_size = agent_mem_safe_size free_heap (8 * 1024) (8 * 1024),
      tool_size = agent_mem_safe_size free_heap (8 * 1024) TOOL_OUTPUT_SIZE_MIN\<rparr>"

definition agent_loop_task ::
  "'w agent_env \<Rightarrow> nat \<Rightarrow> bool \<Rightarrow> nat option list \<Rightarrow> task_round list \<Rightarrow> 'w agent \<Rightarrow> 'w agent option"
where
  "agent_loop_task env free_heap calloc_ok addrs rounds s =
     (if \<not> calloc_ok then Some s
      else case agent_pool_init addrs (agent_mem_safe_size free_heap TOOL_OUTPUT_SIZE_LARGE TOOL_OUTPUT_SIZE_MIN) AGENT_MAX_TOOL_CALLS of
             (r, pool) \<Rightarrow>
               map_option (\<lambda>t. if s_pool_ready t then t\<lparr>ag_pool := agent_pool_destroy (ag_pool t), s_pool_ready := False\<rparr> else t)
                 (agent_task_loop env (agent_task_bufs free_heap) rounds
                    (s\<lparr>ag_pool := pool, s_pool_ready := (r = OK \<or> s_pool_ready s), ag_tool_output := []\<rparr>)))"

end
