(* ===== verification/Agent_Effects.thy ===== *)
theory Agent_Effects
  imports Agent_Task
begin

text \<open>
  What handling a message does to the outside, as a bound on the log it adds: the calls of the
  LLM, the runs of tools, the messages sent, and a property of every message array that the LLM
  is given. The array properties are an interface: a locale with the two laws a property needs to
  survive a turn, in which the effects of every operation are derived once.
\<close>

section \<open>Effects\<close>

text \<open>The messages pushed to the outbound queue, also those the queue refuses: \<^verbatim>\<open>dispatch_response\<close> frees them then.\<close>

definition sent_msgs :: "event list \<Rightarrow> agent_msg list" where
  "sent_msgs l = concat (map (\<lambda>e. case e of Ev_Sent m r \<Rightarrow> [m] | _ \<Rightarrow> []) l)"

lemma sent_msgs_simps [simp]:
  "sent_msgs [] = []" "sent_msgs (l @ m) = sent_msgs l @ sent_msgs m" "sent_msgs (Ev_Sent x r # l) = x # sent_msgs l"
  "sent_msgs (Ev_Tool n i # l) = sent_msgs l" "sent_msgs (Ev_Llm p c t # l) = sent_msgs l" "sent_msgs (Ev_Vision v # l) = sent_msgs l"
  by (simp_all add: sent_msgs_def)

fun asked :: "(chat_msg list \<Rightarrow> bool) \<Rightarrow> event \<Rightarrow> bool" where
  "asked Q (Ev_Llm p m t) = Q m"
| "asked Q _ = True"

definition eff ::
  "(chat_msg list \<Rightarrow> bool) \<Rightarrow> nat \<Rightarrow> nat \<Rightarrow> agent_msg list \<Rightarrow> 'w agent \<Rightarrow> 'w agent \<Rightarrow> bool"
where
  "eff Q a b ms s t \<longleftrightarrow> (\<exists>l. ag_log t = ag_log s @ l \<and> llm_calls l \<le> a \<and> tool_runs l \<le> b \<and> sent_msgs l = ms
     \<and> list_all (asked Q) l)"

named_theorems effs

lemma eff_trans: "eff Q a b ms s t \<Longrightarrow> eff Q c d ns t u \<Longrightarrow> eff Q (a + c) (b + d) (ms @ ns) s u"
proof -
  assume "eff Q a b ms s t" "eff Q c d ns t u"
  then obtain l k where "ag_log t = ag_log s @ l" "llm_calls l \<le> a" "tool_runs l \<le> b" "sent_msgs l = ms" "list_all (asked Q) l"
    "ag_log u = ag_log t @ k" "llm_calls k \<le> c" "tool_runs k \<le> d" "sent_msgs k = ns" "list_all (asked Q) k"
    unfolding eff_def by blast
  then show ?thesis unfolding eff_def by (intro exI [of _ "l @ k"]) auto
qed

lemma eff_mono: "eff Q a b ms s t \<Longrightarrow> a \<le> c \<Longrightarrow> b \<le> d \<Longrightarrow> eff Q c d ms s t"
proof -
  assume "eff Q a b ms s t" "a \<le> c" "b \<le> d"
  then obtain l where "ag_log t = ag_log s @ l" "llm_calls l \<le> a" "tool_runs l \<le> b" "sent_msgs l = ms" "list_all (asked Q) l"
    unfolding eff_def by blast
  with \<open>a \<le> c\<close> \<open>b \<le> d\<close> show ?thesis unfolding eff_def by (intro exI [of _ l]) auto
qed

lemma eff_same [effs]: "ag_log t = ag_log s \<Longrightarrow> eff Q 0 0 [] s t"
  unfolding eff_def by (rule exI [of _ "[]"]) simp

lemma eff_log: "ag_log t = ag_log t' \<Longrightarrow> eff Q a b ms s t = eff Q a b ms s t'"
  by (simp add: eff_def)

lemma eff_log1: "ag_log s = ag_log s' \<Longrightarrow> eff Q a b ms s t = eff Q a b ms s' t"
  by (simp add: eff_def)

lemma eff_push [effs]: "eff Q 0 0 [m] s (push_out env m s)"
proof -
  obtain r where "ag_log (push_out env m s) = ag_log s @ [Ev_Sent m r]" using push_out_log by metis
  then show ?thesis unfolding eff_def by (intro exI [of _ "[Ev_Sent m r]"]) simp
qed

lemma eff_tool [effs]: "eff Q 0 1 [] s (snd (snd (run_tool env n i z s)))"
  unfolding eff_def by (rule exI [of _ "[Ev_Tool n i]"]) (simp add: run_tool_log)

lemma eff_toolD: "run_tool env n i z s = (r, out, t) \<Longrightarrow> eff Q 0 1 [] s t"
  using eff_tool [of Q s env n i z] by simp

lemma eff_llm:
  assumes "Q m"
  shows "eff Q 1 0 [] s (snd (snd (snd (llm_chat_timed env p m t s))))"
  unfolding eff_def by (rule exI [of _ "[Ev_Llm p m t]"]) (use assms in \<open>auto simp: llm_chat_timed_def log_event_def split: prod.splits\<close>)

lemma select_backend_log [simp]: "ag_log (snd (select_backend env c p s)) = ag_log s"
  by (simp add: select_backend_def split: prod.splits)

lemma select_backend_logD: "select_backend env c p s = (i, t) \<Longrightarrow> ag_log t = ag_log s"
  using select_backend_log [of env c p s] by simp

lemma apply_backend_log [simp]: "ag_log (apply_backend env i s) = ag_log s"
  by (simp add: apply_backend_def split: option.splits)

lemma report_ok_log [simp]: "ag_log (report_ok idx r ms s) = ag_log s"
  by (simp add: report_ok_def Let_def split: option.splits)

lemma cache_answer_log [simp]: "ag_log (cache_answer env c t k s) = ag_log s"
  by (simp add: cache_answer_def Let_def)

lemma append_session_log [simp]: "ag_log (append_session env c r t s) = ag_log s"
  by (simp add: append_session_def)

section \<open>Tools of a round\<close>

definition order_ok :: "'w agent_env \<Rightarrow> bool" where
  "order_ok env \<longleftrightarrow> (\<forall>n w. distinct (ae_order env n w) \<and> set (ae_order env n w) = {..<n})"

lemma order_length: "order_ok env \<Longrightarrow> length (ae_order env n w) = n"
  using distinct_card [of "ae_order env n w"] by (simp add: order_ok_def)

lemma exec_call_eff [effs]: "eff Q 0 1 [] s (snd (exec_call env c ch cid z s))"
proof -
  have "\<exists>n i k. snd (exec_call env c ch cid z s) = snd (snd (run_tool env n i k s))"
    by (auto simp: exec_call_def agent_tool_exec_streamed_def Let_def split: prod.splits) (metis snd_conv)+
  then show ?thesis using eff_tool by metis
qed

lemma start_tasks_log: "ag_log (snd (start_tasks env z i cs s)) = ag_log s"
  by (induction env z i cs s rule: start_tasks.induct) (auto simp: Let_def split: prod.splits)

lemma start_tasks_length: "length (fst (start_tasks env z i cs s)) = length cs"
  by (induction env z i cs s rule: start_tasks.induct) (auto simp: Let_def split: prod.splits)

lemma thread_eff: "eff Q 0 1 [] (snd os) (snd (tool_exec_thread env ts ch cid i os))"
proof -
  obtain outs s where os: "os = (outs, s)" by fastforce
  have "snd (tool_exec_thread env ts ch cid i os) = s
      \<or> snd (tool_exec_thread env ts ch cid i os) = snd (exec_call env (tt_call (ts ! i)) ch cid (tt_size (ts ! i)) s)"
    by (auto simp: os tool_exec_thread_def split: prod.splits)
  then show ?thesis using exec_call_eff [of Q s] eff_mono [OF eff_same, of s s 0 1 Q] os by auto
qed

lemma thread_outs: "length (fst (tool_exec_thread env ts ch cid i os)) = length (fst os)"
  by (auto simp: tool_exec_thread_def split: prod.splits)

lemma threads_eff: "eff Q 0 (length is) [] (snd os) (snd (fold (tool_exec_thread env ts ch cid) is os))"
proof (induction "is" arbitrary: os)
  case Nil
  then show ?case by (simp add: eff_same)
next
  case (Cons i "is")
  have "eff Q (0 + 0) (1 + length is) ([] @ []) (snd os) (snd (fold (tool_exec_thread env ts ch cid) is (tool_exec_thread env ts ch cid i os)))"
    by (rule eff_trans [OF thread_eff Cons])
  then show ?case by simp
qed

lemma threads_outs: "length (fst (fold (tool_exec_thread env ts ch cid) is os)) = length (fst os)"
  by (induction "is" arbitrary: os) (simp_all add: thread_outs)

text \<open>The results that a round adds for a response.\<close>

definition answers :: "llm_response \<Rightarrow> chat_msg list \<Rightarrow> bool" where
  "answers r rs \<longleftrightarrow> (\<exists>outs. length outs = length (resp_calls r) \<and>
     rs = (if length (resp_calls r) = 1 then [Tool_Msg (call_id (hd (resp_calls r))) (hd outs)]
           else collect_results [] (resp_calls r) outs))"

lemma tool_results:
  assumes "order_ok env"
  shows "eff Q 0 (length (resp_calls r)) [] s (snd (add_tool_result_messages env z msg r m s))"
    and "\<exists>rs. fst (add_tool_result_messages env z msg r m s) = m @ rs \<and> answers r rs"
proof -
  let ?cs = "resp_calls r"
  let ?add = "add_tool_result_messages env z msg r m s"
  have "eff Q 0 (length ?cs) [] s (snd ?add) \<and> (\<exists>rs. fst ?add = m @ rs \<and> answers r rs)"
  proof (cases "length ?cs = 1")
    case True
    obtain out t where e: "exec_call env (hd ?cs) (msg_channel msg) (msg_chat_id msg) z s = (out, t)" by fastforce
    then have a: "?add = (m @ [Tool_Msg (call_id (hd ?cs)) out], t\<lparr>ag_tool_output := out\<rparr>)"
      using True by (simp add: add_tool_result_messages_def Let_def)
    have "eff Q 0 1 [] s t" using exec_call_eff [of Q s env "hd ?cs"] e by (metis snd_conv)
    then have "eff Q 0 1 [] s (snd ?add)" using a by (simp add: eff_def)
    moreover have "answers r [Tool_Msg (call_id (hd ?cs)) out]" unfolding answers_def using True by (intro exI [of _ "[out]"]) simp
    ultimately show ?thesis using True a by auto
  next
    case False
    let ?z = "agent_mem_safe_size (ae_free_heap env (ag_world s)) TOOL_OUTPUT_SIZE_LARGE TOOL_OUTPUT_SIZE_MIN"
    obtain ts s1 where st: "start_tasks env ?z 0 ?cs s = (ts, s1)" by fastforce
    let ?f = "fold (tool_exec_thread env ts (cstr_copy 16 (msg_channel msg)) (cstr_copy 64 (msg_chat_id msg)))
        (ae_order env (length ?cs) (ag_world s1)) (replicate (length ?cs) [], s1)"
    obtain outs s2 where f: "?f = (outs, s2)" by fastforce
    have a: "?add = (m @ collect_results [] ?cs outs, s2\<lparr>ag_pool := fold agent_pool_release (map tt_pool_buf ts) (ag_pool s2)\<rparr>)"
      using False st f by (simp add: add_tool_result_messages_def Let_def)
    have l: "ag_log s1 = ag_log s" using start_tasks_log [of env ?z 0 ?cs s] st by simp
    have "eff Q 0 (length ?cs) [] s1 s2"
      using threads_eff [of Q "ae_order env (length ?cs) (ag_world s1)" "(replicate (length ?cs) [], s1)" env ts] f order_length [OF assms]
      by (metis snd_conv)
    then have "eff Q 0 (length ?cs) [] s (snd ?add)" using a l by (simp add: eff_def)
    moreover have "length outs = length ?cs"
      using threads_outs [of env ts "cstr_copy 16 (msg_channel msg)" "cstr_copy 64 (msg_chat_id msg)" "ae_order env (length ?cs) (ag_world s1)" "(replicate (length ?cs) [], s1)"] f by simp
    then have "answers r (collect_results [] ?cs outs)" unfolding answers_def using False by auto
    ultimately show ?thesis using a by auto
  qed
  then show "eff Q 0 (length ?cs) [] s (snd ?add)" "\<exists>rs. fst ?add = m @ rs \<and> answers r rs" by auto
qed

section \<open>A property of the message array through a turn\<close>

definition from_llm :: "'w agent_env \<Rightarrow> llm_response \<Rightarrow> bool" where
  "from_llm env r \<longleftrightarrow> (\<exists>p m t w. r = fst (snd (ae_llm env p m t w)))"

lemma chat_timed_from_llm: "from_llm env (fst (snd (llm_chat_timed env p m t s)))"
  unfolding from_llm_def by (auto simp: llm_chat_timed_def split: prod.splits) (metis fst_conv snd_conv)

definition working_status :: "agent_msg \<Rightarrow> nat \<Rightarrow> agent_msg list \<Rightarrow> bool" where
  "working_status msg iteration ms \<longleftrightarrow> ms = [] \<or>
     (iteration = 0 \<and> \<not> quiet_channel (msg_channel msg) \<and> (\<exists>t\<in>set s_working_phrases. ms = [reply_to msg t]))"

lemma working_status_eff: "\<exists>ms. working_status msg i ms \<and> eff Q 0 0 ms s (send_working_status env msg i s)"
proof -
  have "s_working_phrases ! (k mod 5) \<in> set s_working_phrases" for k by (rule nth_mem) (simp add: s_working_phrases_def)
  then show ?thesis
    by (auto simp: send_working_status_def working_status_def dup_str_def intro: eff_same eff_push split: option.splits)
qed

locale chat_rule =
  fixes Q :: "chat_msg list \<Rightarrow> bool" and good :: "llm_response \<Rightarrow> bool"
  assumes results: "Q m \<Longrightarrow> good r \<Longrightarrow> answers r rs \<Longrightarrow> Q (add_assistant_message r m @ rs)"
    and hint: "Q m \<Longrightarrow> Q (m @ [Text_Msg role t])"
    and few: "good r \<Longrightarrow> length (resp_calls r) \<le> AGENT_MAX_TOOL_CALLS"
begin

lemma failover_eff:
  assumes "Q (tn_messages tn)"
  shows "eff Q 2 0 [] s (snd (snd (snd (snd (call_with_failover env p t c tn s)))))"
    "from_llm env (fst (snd (call_with_failover env p t c tn s)))"
proof -
  obtain err resp ms s1 where c1: "llm_chat_timed env p (tn_messages tn) t s = (err, resp, ms, s1)"
    by (metis prod.exhaust)
  have e1: "eff Q 1 0 [] s s1" using eff_llm [of Q "tn_messages tn" s env p t] assms c1 by simp
  have f1: "from_llm env resp" using chat_timed_from_llm [of env p "tn_messages tn" t s] c1 by simp
  have e1': "eff Q 2 0 [] s s1" using e1 by (rule eff_mono) simp_all
  have "eff Q 2 0 [] s (snd (snd (snd (snd (call_with_failover env p t c tn s)))))
      \<and> from_llm env (fst (snd (call_with_failover env p t c tn s)))"
  proof (cases "tn_router_idx tn = None \<or> err = OK")
    case True
    then show ?thesis using c1 e1' f1 by (auto simp: call_with_failover_def split: option.splits)
  next
    case False
    then obtain idx where idx: "tn_router_idx tn = Some idx" "err \<noteq> OK" by auto
    let ?s2 = "s1\<lparr>ag_router := llm_router_report_failure (now32 env s1) (int idx) (ag_router s1)\<rparr>"
    obtain nxt s3 where sel: "select_backend env c (s_profile (ag_router ?s2)) ?s2 = (nxt, s3)" by fastforce
    have l3: "ag_log s3 = ag_log s1" using select_backend_logD [OF sel] by simp
    have e3: "eff Q 1 0 [] s s3" "eff Q 2 0 [] s s3" using e1 e1' l3 by (simp_all add: eff_def)
    show ?thesis
    proof (cases "nxt = None \<or> nxt = Some idx")
      case True
      then show ?thesis using c1 idx sel e3 f1 by (auto simp: call_with_failover_def Let_def)
    next
      case False
      then obtain j where j: "nxt = Some j" "j \<noteq> idx" by auto
      obtain err2 resp2 ms2 s4 where c2: "llm_chat_timed env p (tn_messages tn) t (apply_backend env j s3) = (err2, resp2, ms2, s4)"
        by (metis prod.exhaust)
      have "eff Q 1 0 [] (apply_backend env j s3) s4"
        using eff_llm [of Q "tn_messages tn" "apply_backend env j s3" env p t] assms c2 by simp
      then have "eff Q 1 0 [] s3 s4" by (simp add: eff_def)
      then have "eff Q (1 + 1) (0 + 0) ([] @ []) s s4" by (rule eff_trans [OF e3(1)])
      moreover have "from_llm env resp2" using chat_timed_from_llm [of env p "tn_messages tn" t "apply_backend env j s3"] c2 by simp
      ultimately show ?thesis using c1 idx sel j c2 by (auto simp: call_with_failover_def Let_def numeral_2_eq_2)
    qed
  qed
  then show "eff Q 2 0 [] s (snd (snd (snd (snd (call_with_failover env p t c tn s)))))"
    "from_llm env (fst (snd (call_with_failover env p t c tn s)))" by auto
qed

lemma final_call_eff:
  assumes "Q m"
  shows "eff Q 1 0 [] s (snd (snd (final_call env p h m s)))"
  using eff_llm [of Q "m @ [Text_Msg ''system'' h]" s env p None] hint [OF assms]
  by (auto simp: final_call_def Let_def split: prod.splits)

lemma task_complete_eff: "Q m \<Longrightarrow> eff Q 1 0 [] s (snd (snd (handle_task_complete env p m s)))"
  using final_call_eff [of m s env p task_hint] by (auto simp: handle_task_complete_def split: prod.splits)

lemma force_finish_eff: "Q m \<Longrightarrow> eff Q 1 0 [] s (snd (force_finish_reply env p m s))"
  using final_call_eff [of m s env p finish_hint] by (auto simp: force_finish_reply_def Let_def split: prod.splits)

lemma final_answer_eff:
  assumes "Q (tn_messages tn)"
  shows "eff Q 1 0 [] s (snd (snd (final_answer env p t c tn idx r s)))"
proof -
  obtain prem s1 where sel: "select_backend env LLM_COMPLEXITY_MEDIUM LLM_ROUTE_PREMIUM s = (prem, s1)" by fastforce
  have l1: "ag_log s1 = ag_log s" using select_backend_log [of env LLM_COMPLEXITY_MEDIUM LLM_ROUTE_PREMIUM s] sel by simp
  have e: "eff Q 1 0 [] s s" "eff Q 1 0 [] s s1" using l1 by (auto intro: eff_mono [OF eff_same])
  have "eff Q 1 0 [] s (snd (snd (snd (llm_chat_timed env p (tn_messages tn) t (apply_backend env j s1)))))" for j
    using eff_llm [of Q "tn_messages tn" "apply_backend env j s1" env p t] assms l1 by (simp add: eff_def)
  then show ?thesis using e sel
    by (auto simp: final_answer_def Let_def split: prod.splits option.splits if_splits) (metis snd_conv)+
qed

lemma tool_round_eff:
  assumes "order_ok env" "good r" "Q (tn_messages tn)"
  shows "case tool_round env z msg p tn r s of
      Break t wd s1 tn1 \<Rightarrow> eff Q 1 2 [] s s1
    | Again s1 tn1 \<Rightarrow> eff Q 0 2 [] s s1 \<and> Q (tn_messages tn1)"
proof -
  let ?m = "add_assistant_message r (tn_messages tn)"
  obtain sb d where d: "check_tool_dup r (tn_dup tn) = (sb, d)" by fastforce
  obtain ms s1 where a: "add_tool_result_messages env z msg r ?m s = (ms, s1)" by fastforce
  have "eff Q 0 (length (resp_calls r)) [] s s1" using tool_results(1) [OF assms(1), of Q r s z msg ?m] a by simp
  then have e: "eff Q 0 2 [] s s1" using few [OF assms(2)] by (elim eff_mono) (simp_all add: c_consts)
  have q: "Q ms" using tool_results(2) [OF assms(1), of z msg r ?m s] a results [OF assms(3,2)] by auto
  obtain t to s2 where h: "handle_task_complete env p ms s1 = (t, to, s2)" by (metis prod.exhaust)
  have "eff Q 1 0 [] s1 s2" using task_complete_eff [OF q, of s1 env p] h by simp
  then have "eff Q (0 + 1) (2 + 0) ([] @ []) s s2" by (rule eff_trans [OF e])
  moreover have "eff Q 1 2 [] s s1" using e by (rule eff_mono) simp_all
  ultimately show ?thesis using d a h e q by (auto simp: tool_round_def Let_def)
qed

lemma react_round_eff:
  assumes "order_ok env" "\<And>r. from_llm env r \<Longrightarrow> good r" "Q (tn_messages tn)"
  shows "\<exists>ms. working_status msg i ms \<and>
    (case react_round env z msg p tools c i tn s of
      Break t wd s1 tn1 \<Rightarrow> eff Q 3 2 ms s s1
    | Again s1 tn1 \<Rightarrow> eff Q 2 2 ms s s1 \<and> Q (tn_messages tn1))"
proof -
  let ?s0 = "send_working_status env msg i s"
  obtain ms where ms: "working_status msg i ms" "eff Q 0 0 ms s ?s0" using working_status_eff by blast
  obtain err resp lat idx s1 where f: "call_with_failover env p tools c tn ?s0 = (err, resp, lat, idx, s1)"
    by (metis prod.exhaust)
  have "eff Q 2 0 [] ?s0 s1" and g: "good resp"
    using failover_eff [OF assms(3), where s = ?s0 and env = env and p = p and t = tools and c = c] f assms(2) by auto
  then have "eff Q (0 + 2) (0 + 0) (ms @ []) s s1" by (intro eff_trans [OF ms(2)])
  then have e1: "eff Q 2 0 ms s s1" by (simp add: numeral_2_eq_2)
  let ?s2 = "report_ok idx resp lat s1"
  let ?tn = "tn\<lparr>tn_router_idx := idx\<rparr>"
  let ?tn2 = "if idx \<noteq> None \<and> total_tokens resp > 0 then ?tn\<lparr>tn_last_tokens := total_tokens resp\<rparr> else ?tn"
  have e2: "eff Q 2 0 ms s ?s2" using e1 by (simp add: eff_def)
  have q: "Q (tn_messages ?tn2)" using assms(3) by simp
  have tool: "case tool_round env z msg p ?tn2 resp ?s2 of
      Break t wd s3 tn1 \<Rightarrow> eff Q 3 2 ms s s3
    | Again s3 tn1 \<Rightarrow> eff Q 2 2 ms s s3 \<and> Q (tn_messages tn1)"
  proof (cases "tool_round env z msg p ?tn2 resp ?s2")
    case (Break t wd s3 tn1)
    then have "eff Q 1 2 [] ?s2 s3" using tool_round_eff [OF assms(1) g q, where z = z and msg = msg and p = p and s = ?s2] by simp
    then have "eff Q (2 + 1) (0 + 2) (ms @ []) s s3" by (rule eff_trans [OF e2])
    then show ?thesis unfolding Break round.case append_Nil2 by (rule eff_mono) simp_all
  next
    case (Again s3 tn1)
    then have a: "eff Q 0 2 [] ?s2 s3 \<and> Q (tn_messages tn1)"
      using tool_round_eff [OF assms(1) g q, where z = z and msg = msg and p = p and s = ?s2] by simp
    then have "eff Q (2 + 0) (0 + 2) (ms @ []) s s3" by (intro eff_trans [OF e2]) simp
    then have "eff Q 2 2 ms s s3" unfolding append_Nil2 by (rule eff_mono) simp_all
    with a show ?thesis unfolding Again round.case by simp
  qed
  obtain t wd s3 where fa: "final_answer env p tools c ?tn2 idx resp ?s2 = (t, wd, s3)" by (metis prod.exhaust)
  have "eff Q 1 0 [] ?s2 s3" using final_answer_eff [OF q, of ?s2 env p tools c idx resp] fa by simp
  then have "eff Q (2 + 1) (0 + 0) (ms @ []) s s3" by (rule eff_trans [OF e2])
  then have "eff Q 3 2 ms s s3" unfolding append_Nil2 by (rule eff_mono) simp_all
  moreover have "eff Q 3 2 ms s s1" using e1 by (rule eff_mono) simp_all
  moreover have "react_round env z msg p tools c i tn s =
     (if llm_call_timed_out lat then Break (dup_str env s1 LLM_TIMEOUT_MSG) True s1 ?tn
      else if err \<noteq> OK then Break None False s1 ?tn
      else if resp_tool_use resp then tool_round env z msg p ?tn2 resp ?s2 else Break t wd s3 ?tn2)"
    using f fa by (simp add: react_round_def Let_def)
  ultimately show ?thesis using ms(1) tool by (intro exI [of _ ms]) simp
qed

lemma react_rounds_eff:
  assumes "order_ok env" "\<And>r. from_llm env r \<Longrightarrow> good r" "Q (tn_messages tn)"
  shows "\<exists>ms. working_status msg i ms \<and>
    (case react_rounds env z msg p tools c k i tn s of (t, wd, s1, tn1, limit) \<Rightarrow>
       eff Q (if limit then 2 * k else 2 * k + 1) (2 * k) ms s s1 \<and> (limit \<longrightarrow> t = None \<and> Q (tn_messages tn1)))"
  using assms(3)
proof (induction k arbitrary: i tn s)
  case 0
  then show ?case by (intro exI [of _ "[]"]) (simp add: working_status_def eff_same)
next
  case (Suc k)
  obtain ms where ms: "working_status msg i ms"
    "case react_round env z msg p tools c i tn s of
      Break t wd s1 tn1 \<Rightarrow> eff Q 3 2 ms s s1 | Again s1 tn1 \<Rightarrow> eff Q 2 2 ms s s1 \<and> Q (tn_messages tn1)"
    using react_round_eff [OF assms(1,2) Suc.prems] by blast
  show ?case
  proof (cases "react_round env z msg p tools c i tn s")
    case (Break t wd s1 tn1)
    then have "eff Q 3 2 ms s s1" using ms(2) by simp
    then have "eff Q (2 * Suc k + 1) (2 * Suc k) ms s s1" by (rule eff_mono) simp_all
    then show ?thesis using ms(1) Break by auto
  next
    case (Again s1 tn1)
    then have e: "eff Q 2 2 ms s s1" and q: "Q (tn_messages tn1)" using ms(2) by simp_all
    obtain t wd s2 tn2 limit where rest: "react_rounds env z msg p tools c k (Suc i) tn1 s1 = (t, wd, s2, tn2, limit)"
      by (metis prod.exhaust)
    with Suc.IH [OF q, of "Suc i" s1] have "eff Q (if limit then 2 * k else 2 * k + 1) (2 * k) [] s1 s2"
      and l: "limit \<longrightarrow> t = None \<and> Q (tn_messages tn2)"
      by (auto simp: working_status_def)
    then have "eff Q (2 + (if limit then 2 * k else 2 * k + 1)) (2 + 2 * k) (ms @ []) s s2" by (intro eff_trans [OF e])
    then have "eff Q (if limit then 2 * Suc k else 2 * Suc k + 1) (2 * Suc k) ms s s2"
      unfolding append_Nil2 by (rule eff_mono) simp_all
    then show ?thesis using ms(1) Again rest l by auto
  qed
qed

text \<open>A turn: 21 calls of the LLM and 20 tools at most, and only the status message.\<close>

lemma run_react_loop_eff:
  assumes "order_ok env" "\<And>r. from_llm env r \<Longrightarrow> good r" "Q messages"
  shows "\<exists>ms. working_status msg 0 ms \<and> eff Q 21 20 ms s (snd (run_react_loop env z p messages tools msg content s))"
proof -
  let ?c = "estimate_complexity content"
  obtain idx s1 where sel: "select_backend env ?c (s_profile (ag_router s)) s = (idx, s1)" by fastforce
  let ?s2 = "case idx of None \<Rightarrow> s1 | Some i \<Rightarrow> apply_backend env i s1"
  have l2: "ag_log ?s2 = ag_log s" using select_backend_logD [OF sel] by (simp split: option.splits)
  obtain hit ch where g: "(if ?c = LLM_COMPLEXITY_SIMPLE then llm_cache_get (ae_mem env (ag_world ?s2)) (now32 env ?s2) (Some (utf8_bytes content)) (ag_cache ?s2)
      else (None, ag_cache ?s2)) = (hit, ch)" by fastforce
  show ?thesis
  proof (cases hit)
    case (Some t)
    then have "snd (run_react_loop env z p messages tools msg content s) = cache_answer env content t 0 (?s2\<lparr>ag_cache := ch\<rparr>)"
      using sel g by (simp add: run_react_loop_def Let_def)
    then have "eff Q 0 0 [] s (snd (run_react_loop env z p messages tools msg content s))" using l2 by (auto intro: eff_same)
    then show ?thesis by (intro exI [of _ "[]"]) (auto simp: working_status_def intro: eff_mono)
  next
    case None
    let ?tn = "\<lparr>tn_messages = messages, tn_dup = dup_init, tn_router_idx = idx, tn_last_tokens = 0\<rparr>"
    let ?s3 = "?s2\<lparr>ag_cache := ch\<rparr>"
    obtain t wd s3 tn limit where rr: "react_rounds env z msg p tools ?c AGENT_AI_AGENT_MAX_TOOL_ITER 0 ?tn ?s3 = (t, wd, s3, tn, limit)"
      by (metis prod.exhaust)
    obtain ms where ms: "working_status msg 0 ms" "eff Q (if limit then 20 else 21) 20 ms ?s3 s3" "limit \<longrightarrow> t = None \<and> Q (tn_messages tn)"
      using react_rounds_eff [OF assms(1,2), where tn = ?tn and msg = msg and i = 0 and z = z and p = p and tools = tools and c = ?c
        and k = AGENT_AI_AGENT_MAX_TOOL_ITER and s = ?s3] assms(3) rr
      by (auto simp: c_consts split: if_splits)
    have e: "eff Q (if limit then 20 else 21) 20 ms s s3" using ms(2) l2 by (simp add: eff_def)
    obtain ft s4 where ff: "(if t = None \<and> limit then force_finish_reply env p (tn_messages tn) s3 else (t, s3)) = (ft, s4)" by fastforce
    have e4: "eff Q 21 20 ms s s4"
    proof (cases limit)
      case True
      then have "eff Q 1 0 [] s3 s4" using force_finish_eff [where m = "tn_messages tn" and s = s3 and env = env and p = p] ms(3) ff by (metis snd_conv)
      then have "eff Q (20 + 1) (20 + 0) (ms @ []) s s4" using e True by (intro eff_trans [of Q 20 20 ms s s3]) simp_all
      then show ?thesis by simp
    qed (use e ff in auto)
    have "ag_log (snd (run_react_loop env z p messages tools msg content s)) = ag_log s4"
      using sel g rr ff None by (auto simp: run_react_loop_def Let_def split: option.splits)
    then show ?thesis using ms(1) e4 by (auto simp: eff_def)
  qed
qed

end

section \<open>Fast paths\<close>

lemma tool_reply_eff: "eff Q 0 1 [] s (snd (tool_reply env n i z s))"
  using eff_tool [of Q s env n "Some i" z] by (auto simp: tool_reply_def intro: eff_mono [OF eff_same] split: prod.splits)

lemma count_if_reply_log [simp]: "ag_log (snd (count_if_reply rs)) = ag_log (snd rs)"
  by (auto simp: count_if_reply_def count_fast_def split: prod.splits option.splits)

lemma play_music_eff: "eff Q 0 2 [] s (snd (play_music env kw s))"
proof -
  obtain r out s1 where t1: "run_tool env ''music_search'' (Some (json_1 256 ''keyword'' (clean_keyword kw))) 4096 s = (r, out, s1)"
    by (metis prod.exhaust)
  have e1: "eff Q 0 1 [] s s1" using t1 by (rule eff_toolD)
  show ?thesis
  proof (cases "ae_first_song env out")
    case None
    then have "snd (play_music env kw s) = s1" using t1 by (simp add: play_music_def)
    then show ?thesis using eff_mono [OF e1, of 0 2] by simp
  next
    case (Some u)
    obtain url n a where u: "u = (url, n, a)" by (metis prod.exhaust)
    obtain r2 out2 s2 where t2: "run_tool env ''music_play'' (Some (json_1 512 ''url'' url)) 256 s1 = (r2, out2, s2)"
      by (metis prod.exhaust)
    have "eff Q 0 1 [] s1 s2" using t2 by (rule eff_toolD)
    then have "eff Q (0 + 0) (1 + 1) ([] @ []) s s2" by (rule eff_trans [OF e1])
    moreover have "snd (play_music env kw s) = s2" using t1 t2 Some u by (simp add: play_music_def Let_def)
    ultimately show ?thesis by (simp add: numeral_2_eq_2)
  qed
qed

lemma fast_path_eff: "eff Q 0 2 [] s (snd (handle_nl_fast_path env t s))"
proof -
  have a: "eff Q 0 2 [] s (snd (count_if_reply (tool_reply env n i z s)))" for n i z
    using eff_mono [OF tool_reply_eff, of 0 2 Q s env n i z] by (simp add: eff_def)
  have b: "eff Q 0 2 [] s (snd (count_if_reply (play_music env kw s)))" for kw
    using play_music_eff [of Q s env kw] by (simp add: eff_def)
  have c: "eff Q 0 2 [] s s" "eff Q 0 2 [] s (count_fast s)" by (auto simp: count_fast_def intro!: eff_mono [OF eff_same])
  show ?thesis using a b c by (auto simp: handle_nl_fast_path_def split: option.splits)
qed

lemma fast_path_sessions: "ag_sessions (snd (handle_nl_fast_path env t s)) = ag_sessions s"
proof -
  have a: "ag_sessions (snd (count_if_reply rs)) = ag_sessions (snd rs)" for rs :: "string option \<times> 'a agent"
    by (auto simp: count_if_reply_def count_fast_def split: prod.splits option.splits)
  have b: "run_tool env n i z s = (r, out, u) \<Longrightarrow> ag_sessions u = ag_sessions s" for n i z s r out u
    using run_tool_same(1) [of env n i z s] by simp
  have "ag_sessions (snd (tool_reply env n i z s)) = ag_sessions s" for n i z
    by (auto simp: tool_reply_def dest: b split: prod.splits)
  moreover have "ag_sessions (snd (play_music env kw s)) = ag_sessions s" for kw
    by (auto simp: play_music_def Let_def dest!: b split: prod.splits option.splits)
  ultimately show ?thesis by (auto simp: handle_nl_fast_path_def a count_fast_def split: option.splits)
qed

lemma no_reply_quiet:
  "fst (tool_reply env n i z s) = None \<Longrightarrow> snd (tool_reply env n i z s) = s"
  "fst (memory_reply env s) = None \<Longrightarrow> snd (memory_reply env s) = s"
  "fst (handle_slash_note env c s) = None \<Longrightarrow> snd (handle_slash_note env c s) = s"
  "fst (handle_slash_remind env msg c s) = None \<Longrightarrow> snd (handle_slash_remind env msg c s) = s"
  by (auto simp: tool_reply_def memory_reply_def handle_slash_note_def handle_slash_remind_def Let_def
      split: prod.splits option.splits if_splits)

lemma slash_eff:
  assumes "handle_slash_command env msg s = (reply, msg1, s1)"
  shows "eff Q 0 1 [] s s1" "reply = None \<Longrightarrow> s1 = s" "msg_channel msg1 = msg_channel msg" "msg_chat_id msg1 = msg_chat_id msg"
    "msg_image_b64 msg1 = msg_image_b64 msg" "msg_content msg \<noteq> None \<Longrightarrow> msg_content msg1 \<noteq> None"
proof -
  have m: "eff Q 0 1 [] s (snd (memory_reply env s))" "eff Q 0 1 [] s (snd (handle_slash_note env c s))"
    "eff Q 0 1 [] s (snd (handle_slash_remind env msg c s))" for c
    by (auto simp: memory_reply_def handle_slash_note_def handle_slash_remind_def Let_def intro: eff_mono [OF eff_same] dest: eff_toolD
        split: prod.splits option.splits)
  have z: "eff Q 0 1 [] s s" by (intro eff_mono [OF eff_same]) simp_all
  have e: "eff Q 0 1 [] s (snd (fst (slash_reply env msg c s)))" for c
    using m tool_reply_eff [of Q s env] z by (auto simp: slash_reply_def Let_def)
  have n: "fst (fst (slash_reply env msg c s)) = None \<Longrightarrow> snd (fst (slash_reply env msg c s)) = s" for c
    unfolding slash_reply_def Let_def using no_reply_quiet by (simp split: if_split_asm del: append.simps) 
  show "eff Q 0 1 [] s s1"
  proof (cases "msg_content msg")
    case (Some c)
    then show ?thesis using assms e [of c] z
      by (auto simp: handle_slash_command_def count_if_reply_def count_fast_def eff_def split: option.splits if_splits prod.splits)
  qed (use assms z in \<open>simp add: handle_slash_command_def\<close>)
  show "s1 = s" if "reply = None"
    using assms n that by (auto simp: handle_slash_command_def count_if_reply_def split: option.splits if_splits prod.splits) (metis fst_conv snd_conv)
  show "msg_channel msg1 = msg_channel msg" "msg_chat_id msg1 = msg_chat_id msg" "msg_image_b64 msg1 = msg_image_b64 msg"
    "msg_content msg \<noteq> None \<Longrightarrow> msg_content msg1 \<noteq> None"
    using assms by (auto simp: handle_slash_command_def split: option.splits if_splits prod.splits)
qed

section \<open>Handling a message\<close>

definition replied :: "'w agent_env \<Rightarrow> agent_msg \<Rightarrow> agent_msg list \<Rightarrow> bool" where
  "replied env msg ms \<longleftrightarrow> (\<exists>st. working_status msg 0 st \<and> ((\<exists>t. ms = st @ [reply_to msg t]) \<or> ms = st \<and> (\<exists>w. \<not> ae_mem env w)))"

lemma replied_single: "(\<exists>t. ms = [reply_to msg t]) \<or> ms = [] \<and> (\<exists>w. \<not> ae_mem env w) \<Longrightarrow> replied env msg ms"
  unfolding replied_def by (rule exI [of _ "[]"]) (auto simp: working_status_def)

lemma reply_to_cong: "msg_channel a = msg_channel b \<Longrightarrow> msg_chat_id a = msg_chat_id b \<Longrightarrow> reply_to a t = reply_to b t"
  by (simp add: reply_to_def)

lemma dispatch_eff:
  "\<exists>ms. ((\<exists>t. ms = [reply_to msg t]) \<or> ms = [] \<and> (\<exists>w. \<not> ae_mem env w)) \<and> eff Q 0 0 ms s (dispatch_response env msg c ft s)"
proof (cases "nonempty ft")
  case (Some t)
  have "eff Q 0 0 [reply_to msg t] s (dispatch_response env msg c ft s)"
    using eff_push [of Q "reply_to msg t" "append_session env (msg_chat_id msg) ''assistant'' t (append_session env (msg_chat_id msg) ''user'' c s)" env] Some
    by (simp add: dispatch_response_def eff_def)
  then show ?thesis by blast
next
  case None
  then show ?thesis
    by (cases "ae_mem env (ag_world s)") (auto simp: dispatch_response_def dup_str_def intro: eff_push eff_same)
qed

lemma send_or_skip_eff:
  "\<exists>ms. ((\<exists>t. ms = [reply_to msg t]) \<or> ms = [] \<and> (\<exists>w. \<not> ae_mem env w))
     \<and> eff Q 0 0 ms s (case dup_str env s t of None \<Rightarrow> s | Some r \<Rightarrow> push_out env (reply_to msg r) s)"
  by (cases "ae_mem env (ag_world s)") (auto simp: dup_str_def intro: eff_push eff_same)

lemma vision_eff:
  assumes "handle_vision_message env msg s = (r, msg1, s1)"
  shows "eff Q 0 0 [] s s1" "msg_channel msg1 = msg_channel msg" "msg_chat_id msg1 = msg_chat_id msg"
proof -
  have "eff Q 0 0 [] s (log_event (Ev_Vision v) (s\<lparr>ag_world := w\<rparr>))" for v w
    unfolding eff_def by (rule exI [of _ "[Ev_Vision v]"]) (simp add: log_event_def)
  then show "eff Q 0 0 [] s s1"
    using assms eff_same [of s s Q] by (auto simp: handle_vision_message_def Let_def split: option.splits if_splits prod.splits)
  show "msg_channel msg1 = msg_channel msg" "msg_chat_id msg1 = msg_chat_id msg"
    using assms by (auto simp: handle_vision_message_def Let_def split: option.splits if_splits prod.splits)
qed

context chat_rule
begin

lemma llm_turn_eff:
  assumes "order_ok env" "\<And>r. from_llm env r \<Longrightarrow> good r" "Q (build_messages env (hist_size bufs) (msg_chat_id msg) content (ag_sessions s))"
    "llm_turn env bufs msg content s = Some s'"
  shows "\<exists>ms. replied env msg ms \<and> eff Q 21 20 ms s s'"
proof -
  let ?s = "s\<lparr>ag_world := ae_refresh_skills env (ag_world s)\<rparr>" and ?w = "ae_refresh_skills env (ag_world s)"
  obtain p k where p: "context_build_system_prompt (ctx_size bufs) (ae_epoch env ?w) (ae_tool_names env ?w) (ae_skills env 1024 ?w) (ae_memory env ?w) = Some (p, k)"
    using assms(4) by (auto simp: llm_turn_def Let_def split: option.splits)
  let ?sp = "inject_session_context (ctx_size bufs) (msg_channel msg) (msg_chat_id msg) p"
  let ?ms = "build_messages env (hist_size bufs) (msg_chat_id msg) content (ag_sessions s)"
  obtain r msg1 s1 where v: "handle_vision_message env msg ?s = (r, msg1, s1)" by (metis prod.exhaust)
  note vis = vision_eff [OF v]
  have e1: "eff Q 0 0 [] s s1" using vis(1) [of Q] by (simp add: eff_def)
  show ?thesis
  proof (cases r)
    case (Some t)
    then have s': "s' = dispatch_response env msg1 content (Some t) s1" using assms(4) p v by (simp add: llm_turn_def Let_def)
    obtain ms where "(\<exists>t. ms = [reply_to msg1 t]) \<or> ms = [] \<and> (\<exists>w. \<not> ae_mem env w)" "eff Q 0 0 ms s1 s'"
      using dispatch_eff [of msg1 env Q s1 content "Some t"] s' by blast
    moreover from this(2) have "eff Q (0 + 0) (0 + 0) ([] @ ms) s s'" by (rule eff_trans [OF e1])
    moreover have "reply_to msg1 t = reply_to msg t" for t using vis(2,3) by (rule reply_to_cong)
    ultimately show ?thesis using replied_single [of ms msg env] by (auto intro: eff_mono)
  next
    case None
    let ?s2 = "s1\<lparr>s_llm_path_count := s_llm_path_count s1 + 1\<rparr>"
    obtain ft s3 where r: "run_react_loop env (tool_size bufs) ?sp ?ms (ae_tools_json env ?w) msg1 content ?s2 = (ft, s3)" by fastforce
    have s': "s' = dispatch_response env msg1 content ft s3" using assms(4) p v r None by (simp add: llm_turn_def Let_def)
    obtain st where st: "working_status msg1 0 st" "eff Q 21 20 st ?s2 s3"
      using run_react_loop_eff [OF assms(1,2,3), where msg = msg1 and s = ?s2 and z = "tool_size bufs" and p = ?sp
          and tools = "ae_tools_json env ?w" and content = content] r by auto
    have e2: "eff Q 21 20 st s s3" using eff_trans [OF e1, of 21 20 st s3] st(2) by (simp add: eff_def)
    obtain ms where ms: "(\<exists>t. ms = [reply_to msg1 t]) \<or> ms = [] \<and> (\<exists>w. \<not> ae_mem env w)" "eff Q 0 0 ms s3 s'"
      using dispatch_eff [of msg1 env Q s3 content ft] s' by blast
    have "eff Q (21 + 0) (20 + 0) (st @ ms) s s'" using ms(2) by (rule eff_trans [OF e2])
    moreover have "working_status msg 0 st" using st(1) vis(2,3) by (simp add: working_status_def reply_to_cong [of msg1 msg])
    ultimately show ?thesis using ms(1) vis(2,3)
      by (intro exI [of _ "st @ ms"]) (auto simp: replied_def reply_to_cong [of msg1 msg])
  qed
qed

text \<open>Handling one message: 21 calls of the LLM, 22 tools, a status message and a reply at most.\<close>

lemma process_eff:
  assumes "order_ok env" "\<And>r. from_llm env r \<Longrightarrow> good r"
    "\<And>c. Q (build_messages env (hist_size bufs) (msg_chat_id msg) c (ag_sessions s))"
    "process_message env bufs msg s = Some s'"
  shows "\<exists>ms. replied env msg ms \<and> eff Q 21 22 ms s s'"
proof -
  have one: "replied env msg ms" if "(\<exists>t. ms = [reply_to msg t]) \<or> ms = [] \<and> (\<exists>w. \<not> ae_mem env w)" for ms
    using that by (rule replied_single)
  have ended: "\<exists>ms. replied env msg ms \<and> eff Q 21 22 ms s s'"
    if "(\<exists>t. ms = [reply_to msg t]) \<or> ms = [] \<and> (\<exists>w. \<not> ae_mem env w)" "eff Q a b ms s s'" "a \<le> 21" "b \<le> 22" for ms a b
    using one [OF that(1)] eff_mono [OF that(2-4)] by blast
  obtain sl msg1 s1 where sl: "handle_slash_command env msg s = (sl, msg1, s1)" by (metis prod.exhaust)
  note se = slash_eff [OF sl]
  have cong: "reply_to msg1 t = reply_to msg t" for t using se(3,4) by (rule reply_to_cong)
  show ?thesis
  proof (cases "ae_free_heap env (ag_world s) < AGENT_MEM_RESERVE_BYTES")
    case True
    then have "s' = (case dup_str env s low_memory_text of None \<Rightarrow> s | Some t \<Rightarrow> push_out env (reply_to msg t) s)"
      using assms(4) by (simp add: process_message_def)
    then show ?thesis using send_or_skip_eff [of msg env Q s low_memory_text] ended [of _ 0 0] by auto
  next
    case heap: False
    show ?thesis
    proof (cases sl)
      case (Some r)
      then have "s' = push_out env (reply_to msg r) s1" using assms(4) heap sl cong by (simp add: process_message_def)
      then have "eff Q (0 + 0) (1 + 0) ([] @ [reply_to msg r]) s s'" using eff_trans [OF se(1) eff_push] by simp
      then show ?thesis by (intro ended [of "[reply_to msg r]" 0 1]) auto
    next
      case None
      then have s1: "s1 = s" by (rule se(2))
      show ?thesis
      proof (cases "tool_guard_check_injection (msg_content msg1)")
        case True
        then have "s' = (case dup_str env s refuse_text of None \<Rightarrow> s | Some t \<Rightarrow> push_out env (reply_to msg t) s)"
          using assms(4) heap sl None s1 cong by (simp add: process_message_def cong: option.case_cong)
        then show ?thesis using send_or_skip_eff [of msg env Q s refuse_text] ended [of _ 0 0] by auto
      next
        case inj: False
        then obtain c where c: "msg_content msg1 = Some c" using assms(4) heap sl None by (auto simp: process_message_def split: option.splits)
        obtain fr s2 where fp: "handle_nl_fast_path env c s = (fr, s2)" by fastforce
        have e2: "eff Q 0 2 [] s s2" using fast_path_eff [of Q s env c] fp by simp
        show ?thesis
        proof (cases fr)
          case (Some r)
          then have "s' = push_out env (reply_to msg r) s2" using assms(4) heap sl None inj c fp s1 cong by (simp add: process_message_def)
          then have "eff Q (0 + 0) (2 + 0) ([] @ [reply_to msg r]) s s'" using eff_trans [OF e2 eff_push] by simp
          then show ?thesis by (intro ended [of "[reply_to msg r]" 0 2]) auto
        next
          case none: None
          then have t: "llm_turn env bufs msg1 c s2 = Some s'" using assms(4) heap sl None inj c fp s1 by (simp add: process_message_def)
          have "ag_sessions s2 = ag_sessions s" using fast_path_sessions [of env c s] fp by simp
          then obtain ms where ms: "replied env msg1 ms" "eff Q 21 20 ms s2 s'"
            using llm_turn_eff [OF assms(1,2) _ t] assms(3) se(4) by auto
          have "eff Q (0 + 21) (2 + 20) ([] @ ms) s s'" using ms(2) by (rule eff_trans [OF e2])
          moreover have "replied env msg ms" using ms(1) se(3,4) cong by (simp add: replied_def working_status_def)
          ultimately show ?thesis by auto
        qed
      qed
    qed
  qed
qed

end

end
