(* ===== verification/Agent_Frontend.thy ===== *)
theory Agent_Frontend
  imports Message_Bus Bus_Tap Ws_Server Llm_Router
begin

text \<open>
  The tasks around the agent loop (\<^verbatim>\<open>services/ai_agent/src/ai_agent_lib.c\<close>, the entry point that
  the Makefile builds): the dispatch of outbound messages to hook, taps and channels with the
  cool-down of the voice, the polling of voice and speech requests that other programs leave in
  files, the check of the profile and the default backend.

  The state joins the taps and the WebSocket server of their own theories with the voice state and
  the request files. Sinks that are other programs or services (Feishu, nodes, MQTT, WeChat,
  the speech output, the terminal) are events.
\<close>

section \<open>State\<close>

datatype out_event =
    Hooked agent_msg
  | Tapped "nat option" nat agent_msg
  | Feishu_Sent string string
  | Node_Sent string string string
  | Mqtt_Sent string string
  | Lvgl_Sent string
  | Weixin_Sent string string string
  | Spoken int string int int
  | Printed string

record front_cfg =
  with_feishu :: bool
  with_node :: bool
  with_mqtt :: bool
  with_lvgl_ui :: bool
  with_weixin :: bool

record front_profile =
  enable_feishu :: bool
  enable_node :: bool
  enable_mqtt :: bool
  enable_lvgl_ui :: bool
  enable_weixin :: bool
  enable_websocket :: bool

text \<open>
  What the outside answers while one message is dispatched; \<open>fe_after\<close> is the clock when the speech
  output has returned.
\<close>

record front_env =
  fe_hook :: "agent_msg \<Rightarrow> bool"
  fe_app_id :: string
  fe_node_ok :: bool
  fe_speak :: "string \<Rightarrow> int"
  fe_after :: int
  fe_print :: "string \<Rightarrow> string \<Rightarrow> u8 list option"

record front =
  fr_taps :: "tap_slot list"
  fr_ws :: ws_server
  s_voice_cooldown :: bool
  s_voice_cooldown_until :: int
  s_voice_dialog_pending :: bool
  s_voice_dialog_deadline :: int
  fr_voice_status :: string
  fr_events :: "out_event list"

definition emit_out :: "out_event \<Rightarrow> front \<Rightarrow> front" where
  "emit_out e f = f\<lparr>fr_events := fr_events f @ [e]\<rparr>"

definition voice_request_write_status :: "string \<Rightarrow> front \<Rightarrow> front" where
  "voice_request_write_status status f = f\<lparr>fr_voice_status := status\<rparr>"

section \<open>Outbound dispatch\<close>

definition dispatch_feishu :: "front_cfg \<Rightarrow> front_profile \<Rightarrow> front_env \<Rightarrow> agent_msg \<Rightarrow> string \<Rightarrow> front \<Rightarrow> front" where
  "dispatch_feishu cfg prof env msg content f =
     (if with_feishu cfg \<and> enable_feishu prof \<and> fe_app_id env \<noteq> [] then emit_out (Feishu_Sent (msg_chat_id msg) content) f
      else if with_node cfg \<and> enable_node prof \<and> fe_node_ok env
      then emit_out (Node_Sent (msg_channel msg) (msg_chat_id msg) content) f
      else f)"

definition dispatch_voice :: "front_env \<Rightarrow> int \<Rightarrow> string \<Rightarrow> front \<Rightarrow> front" where
  "dispatch_voice env now content f =
     (let (ret, f1) =
        (if s_voice_cooldown f \<and> now < s_voice_cooldown_until f then (- EBUSY, f)
         else let r = fe_speak env content;
                  f1 = emit_out (Spoken now content (fe_after env) r) (f\<lparr>s_voice_cooldown := False\<rparr>)
              in (r, if r \<noteq> 0 then f1\<lparr>s_voice_cooldown := True, s_voice_cooldown_until := fe_after env + 5\<rparr> else f1))
      in voice_request_write_status (if ret = 0 then ''idle'' else ''error'') (f1\<lparr>s_voice_dialog_pending := False\<rparr>))"

text \<open>The chat id of WeChat is \<^verbatim>\<open>user|context\<close>.\<close>

definition weixin_ids :: "string \<Rightarrow> string \<times> string" where
  "weixin_ids chat_id =
     (let u = takeWhile (\<lambda>c. c \<noteq> CHR 0x7C) chat_id in
      if u = chat_id then (take 63 chat_id, []) else (take 63 u, drop (length u + 1) chat_id))"

definition outbound_dispatch :: "front_cfg \<Rightarrow> front_profile \<Rightarrow> front_env \<Rightarrow> int \<Rightarrow> agent_msg \<Rightarrow> front \<Rightarrow> front" where
  "outbound_dispatch cfg prof env now msg f =
     (case msg_content msg of
        None \<Rightarrow> f
      | Some content \<Rightarrow>
          if fe_hook env msg then emit_out (Hooked msg) f
          else (case mbus_tap_try_deliver (fr_taps f) (Some msg) of
                  Some (cb, cookie) \<Rightarrow> emit_out (Tapped cb cookie msg) f
                | None \<Rightarrow>
                    let ch = msg_channel msg in
                    if ch = ''feishu'' then dispatch_feishu cfg prof env msg content f
                    else if ch = ''websocket''
                    then (if enable_websocket prof
                          then f\<lparr>fr_ws := snd (ws_server_send (fe_print env) True True (msg_chat_id msg) content (fr_ws f))\<rparr> else f)
                    else if with_mqtt cfg \<and> ch = ''mqtt''
                    then (if enable_mqtt prof then emit_out (Mqtt_Sent (msg_chat_id msg) content) f else f)
                    else if ch = ''voice'' then dispatch_voice env now content f
                    else if with_lvgl_ui cfg \<and> ch = ''lvgl_ui''
                    then (if enable_lvgl_ui prof then emit_out (Lvgl_Sent content) f else f)
                    else if with_weixin cfg \<and> ch = ''weixin''
                    then (if enable_weixin prof
                          then (case weixin_ids (msg_chat_id msg) of (uid, ctx) \<Rightarrow> emit_out (Weixin_Sent uid ctx content) f) else f)
                    else if ch = ''cli'' then emit_out (Printed content) f
                    else f))"

section \<open>Voice requests\<close>

definition VOICE_DIALOG_TIMEOUT_SEC :: int where [c_consts]: "VOICE_DIALOG_TIMEOUT_SEC = 90"

text \<open>The first line of the request file, at most fifteen bytes, without line ends.\<close>

definition request_line :: "nat \<Rightarrow> string \<Rightarrow> string option" where
  "request_line n content =
     (if content = [] then None
      else let l = takeWhile (\<lambda>c. c \<noteq> CHR 0x0A) content;
               line = take (n - 1) (l @ (if length l < length content then [CHR 0x0A] else []))
           in Some (rev (dropWhile (\<lambda>c. c = CHR 0x0A \<or> c = CHR 0x0D) (rev (takeWhile (\<lambda>c. c \<noteq> CHR 0x00) line)))))"

definition poll_expire :: "int \<Rightarrow> front \<Rightarrow> front" where
  "poll_expire now f =
     (if s_voice_dialog_pending f \<and> now \<ge> s_voice_dialog_deadline f
      then voice_request_write_status ''error'' (f\<lparr>s_voice_dialog_pending := False\<rparr>) else f)"

text \<open>
  The command \<^verbatim>\<open>start\<close>: \<open>start_ret\<close> is what \<^verbatim>\<open>voice_channel_start\<close> would return; the result
  is the code and whether the recording was really started.
\<close>

definition voice_start :: "int \<Rightarrow> front \<Rightarrow> int \<times> bool \<times> front" where
  "voice_start start_ret f =
     (let ret = (if s_voice_dialog_pending f then - EBUSY else start_ret) in
      (ret, \<not> s_voice_dialog_pending f, voice_request_write_status (if ret = 0 then ''recording'' else ''error'') f))"

text \<open>The command \<^verbatim>\<open>stop\<close> before and after \<^verbatim>\<open>voice_channel_stop\<close>, which returned \<open>ret\<close>.\<close>

definition voice_stop_before :: "front \<Rightarrow> front" where
  "voice_stop_before f = voice_request_write_status ''processing'' f"

definition voice_stop_after :: "int \<Rightarrow> int \<Rightarrow> front \<Rightarrow> front" where
  "voice_stop_after now ret f =
     (if ret = 0 then f\<lparr>s_voice_dialog_pending := True, s_voice_dialog_deadline := now + VOICE_DIALOG_TIMEOUT_SEC\<rparr>
      else voice_request_write_status (if ret = - ENODATA then ''no_speech'' else ''error'') (f\<lparr>s_voice_dialog_pending := False\<rparr>))"

text \<open>
  One round of the polling that nothing interrupts, with the content of the request file, if there
  is one; \<open>later\<close> is the clock after \<^verbatim>\<open>voice_channel_stop\<close>.
\<close>

definition voice_poll :: "int \<Rightarrow> int \<Rightarrow> (string \<Rightarrow> int) \<Rightarrow> string option \<Rightarrow> front \<Rightarrow> front" where
  "voice_poll now later voice request f0 =
     (let f = poll_expire now f0 in
      case request of
        None \<Rightarrow> f
      | Some content \<Rightarrow>
          (case request_line 16 content of
             None \<Rightarrow> f
           | Some cmd \<Rightarrow>
               if cmd = ''start'' then snd (snd (voice_start (voice ''start'') f))
               else if cmd = ''stop'' then voice_stop_after later (voice ''stop'') (voice_stop_before f)
               else f))"

text \<open>The speech request: the text that is spoken and the status of the file before and after.\<close>

definition tts_poll :: "string option \<Rightarrow> (string \<times> string list) option" where
  "tts_poll request =
     (case request of
        None \<Rightarrow> None
      | Some content \<Rightarrow>
          (case request_line 512 content of
             Some (c # cs) \<Rightarrow> Some (c # cs, [''speaking'', ''idle''])
           | _ \<Rightarrow> None))"

section \<open>Profile and default backend\<close>

record ai_profile =
  abi_version :: nat
  project_id :: "string option"
  llm_timeout_sec :: int
  default_llm_backend :: "string option"
  default_llm_model :: "string option"
  default_llm_api_key :: "string option"

definition validate_profile :: "ai_profile option \<Rightarrow> int" where
  "validate_profile p =
     (case p of
        None \<Rightarrow> - EINVAL
      | Some p \<Rightarrow>
          if abi_version p \<noteq> 1 then - ENOSYS
          else (case project_id p of
                  None \<Rightarrow> - EINVAL
                | Some pid \<Rightarrow>
                    if pid = [] \<or> length pid > 16 then - EINVAL
                    else if llm_timeout_sec p < 0 \<or> llm_timeout_sec p > 300 then - EINVAL
                    else OK))"

definition default_backend :: "string \<Rightarrow> string option \<Rightarrow> string option \<Rightarrow> llm_backend" where
  "default_backend url mdl key =
     (let b = (case strstr url ''://'' of
                 Some i \<Rightarrow>
                   let p = drop (i + 3) url; h = takeWhile (\<lambda>c. c \<noteq> CHR ''/'') p; slash = drop (length h) p in
                   if slash = [] then zero_backend
                   else zero_backend\<lparr>host := take 127 h,
                          path := (if strstr slash ''chat/completions'' \<noteq> None then take 127 slash
                                   else cstr_copy 128 (slash @ ''/chat/completions''))\<rparr>
               | None \<Rightarrow> zero_backend\<lparr>host := take 127 url, path := ''/v1/chat/completions''\<rparr>)
      in b\<lparr>model := (case mdl of None \<Rightarrow> [] | Some m \<Rightarrow> take 63 m), api_key := (case key of None \<Rightarrow> [] | Some k \<Rightarrow> take 127 k),
           enabled := True, cost_tier := 1\<rparr>)"

definition inject_llm_defaults :: "bool \<Rightarrow> ai_profile \<Rightarrow> router \<Rightarrow> router" where
  "inject_llm_defaults json_ok p r =
     (case default_llm_backend p of
        None \<Rightarrow> r
      | Some url \<Rightarrow>
          if url = [] then r
          else if (case llm_router_get_backend 0 r of None \<Rightarrow> False | Some b \<Rightarrow> enabled b) then r
          else snd (llm_router_set_backend json_ok 0 (Some (default_backend url (default_llm_model p) (default_llm_api_key p))) r))"

section \<open>Seeding the data directory\<close>

record seed_fs =
  sf_files :: "string \<Rightarrow> string option"
  sf_writable :: "string \<Rightarrow> bool"

definition seed_file :: "string \<Rightarrow> string \<Rightarrow> seed_fs \<Rightarrow> seed_fs" where
  "seed_file src dst fs =
     (if sf_files fs dst \<noteq> None then fs
      else (case sf_files fs src of
              None \<Rightarrow> fs
            | Some content \<Rightarrow> if sf_writable fs dst then fs\<lparr>sf_files := (sf_files fs)(dst \<mapsto> content)\<rparr> else fs))"

definition pstr :: "string option \<Rightarrow> string \<Rightarrow> string" where
  "pstr v def = (case v of Some (c # cs) \<Rightarrow> c # cs | _ \<Rightarrow> def)"

definition seed_path :: "string \<Rightarrow> string \<Rightarrow> string" where
  "seed_path dir name = cstr_copy 128 (dir @ name)"

definition is_skill_file :: "string \<Rightarrow> bool" where
  "is_skill_file n \<longleftrightarrow> length n \<ge> 4 \<and> drop (length n - 3) n = ''.md''"

text \<open>
  The root of the read-only image and the data directory of a project, and the files copied from one
  to the other; \<open>skills\<close> is the listing of the skill directory, if it can be opened.
\<close>

definition resolve_data_dir :: "string option \<Rightarrow> string \<Rightarrow> string" where
  "resolve_data_dir d pid = pstr d (cstr_copy 64 (''/data/'' @ pid))"

definition resolve_romfs :: "string option \<Rightarrow> string \<Rightarrow> string" where
  "resolve_romfs d pid = pstr d (cstr_copy 64 (''/etc/'' @ pid))"

definition resolve_skills :: "string option \<Rightarrow> string \<Rightarrow> string" where
  "resolve_skills d romfs = pstr d (cstr_copy 80 (romfs @ ''/skills''))"

definition romfs_seed :: "string \<Rightarrow> string \<Rightarrow> string \<Rightarrow> string list option \<Rightarrow> seed_fs \<Rightarrow> seed_fs" where
  "romfs_seed romfs dd skills_src skills fs =
     (let fs = seed_file (seed_path romfs ''/SOUL.md'') (seed_path dd ''/config/SOUL.md'') fs;
          fs = seed_file (seed_path romfs ''/USER.md'') (seed_path dd ''/config/USER.md'') fs;
          fs = seed_file (seed_path romfs ''/MEMORY.md'') (seed_path dd ''/memory/MEMORY.md'') fs
      in case skills of
           None \<Rightarrow> fs
         | Some names \<Rightarrow>
             fold (\<lambda>n. seed_file (seed_path skills_src (''/'' @ n)) (seed_path dd (''/skills/'' @ n)))
               (filter is_skill_file names) fs)"

lemma seed_file_keeps: "sf_files fs p = Some c \<Longrightarrow> sf_files (seed_file src dst fs) p = Some c"
  by (auto simp: seed_file_def split: option.split)

lemma seed_fold_keeps: "sf_files fs p = Some c \<Longrightarrow> sf_files (fold (\<lambda>n. seed_file (g n) (h n)) ns fs) p = Some c"
  by (induction ns arbitrary: fs) (simp_all add: seed_file_keeps)

text \<open>A file that exists, the user's own edits with it, is never overwritten by the seeding.\<close>

lemma seeding_keeps_files:
  "sf_files fs p = Some c \<Longrightarrow> sf_files (romfs_seed romfs dd skills_src skills fs) p = Some c"
  by (simp add: romfs_seed_def Let_def seed_file_keeps seed_fold_keeps split: option.split)

section \<open>The voice rests after a failure\<close>

text \<open>What was tried to be spoken, and when, with the result.\<close>

record attempt =
  at_begin :: int
  at_end :: int
  at_ret :: int

definition attempts :: "front \<Rightarrow> attempt list" where
  "attempts f = concat (map (\<lambda>e. case e of Spoken t c u r \<Rightarrow> [\<lparr>at_begin = t, at_end = u, at_ret = r\<rparr>] | _ \<Rightarrow> []) (fr_events f))"

definition rested :: "attempt list \<Rightarrow> bool" where
  "rested as \<longleftrightarrow> (\<forall>i. Suc i < length as \<longrightarrow> at_ret (as ! i) \<noteq> 0 \<longrightarrow> at_end (as ! i) + 5 \<le> at_begin (as ! Suc i))"

definition voice_inv :: "front \<Rightarrow> bool" where
  "voice_inv f \<longleftrightarrow> rested (attempts f)
     \<and> (attempts f \<noteq> [] \<longrightarrow> at_ret (last (attempts f)) \<noteq> 0 \<longrightarrow> s_voice_cooldown f \<and> s_voice_cooldown_until f = at_end (last (attempts f)) + 5)"

lemma rested_snoc:
  "rested (as @ [a]) \<longleftrightarrow> rested as \<and> (as \<noteq> [] \<longrightarrow> at_ret (last as) \<noteq> 0 \<longrightarrow> at_end (last as) + 5 \<le> at_begin a)"
proof (cases as rule: rev_cases)
  case (snoc ys y)
  then show ?thesis by (auto simp: rested_def nth_append less_Suc_eq)
qed (simp add: rested_def)

lemma attempts_emit [simp]:
  "attempts (emit_out (Spoken t c u r) f) = attempts f @ [\<lparr>at_begin = t, at_end = u, at_ret = r\<rparr>]"
  "attempts (emit_out (Hooked m) f) = attempts f" "attempts (emit_out (Tapped cb k m) f) = attempts f"
  "attempts (emit_out (Feishu_Sent a b) f) = attempts f" "attempts (emit_out (Node_Sent a b c') f) = attempts f"
  "attempts (emit_out (Mqtt_Sent a b) f) = attempts f" "attempts (emit_out (Lvgl_Sent a) f) = attempts f"
  "attempts (emit_out (Weixin_Sent a b c') f) = attempts f" "attempts (emit_out (Printed a) f) = attempts f"
  by (simp_all add: attempts_def emit_out_def)

lemma attempts_upd [simp]:
  "attempts (f\<lparr>s_voice_cooldown := x\<rparr>) = attempts f" "attempts (f\<lparr>s_voice_cooldown_until := y\<rparr>) = attempts f"
  "attempts (f\<lparr>s_voice_dialog_pending := x\<rparr>) = attempts f" "attempts (f\<lparr>s_voice_dialog_deadline := y\<rparr>) = attempts f"
  "attempts (f\<lparr>fr_voice_status := z\<rparr>) = attempts f" "attempts (f\<lparr>fr_ws := w\<rparr>) = attempts f"
  by (simp_all add: attempts_def)

lemma cooldown_emit [simp]:
  "s_voice_cooldown (emit_out e f) = s_voice_cooldown f" "s_voice_cooldown_until (emit_out e f) = s_voice_cooldown_until f"
  by (simp_all add: emit_out_def)

lemma dispatch_voice_inv:
  assumes "voice_inv f"
  shows "voice_inv (dispatch_voice env now content f)"
proof (cases "s_voice_cooldown f \<and> now < s_voice_cooldown_until f")
  case True
  then show ?thesis using assms by (simp add: dispatch_voice_def voice_inv_def voice_request_write_status_def)
next
  case False
  have "rested (attempts f @ [\<lparr>at_begin = now, at_end = fe_after env, at_ret = fe_speak env content\<rparr>])"
    using assms False by (auto simp: rested_snoc voice_inv_def)
  then show ?thesis using False by (auto simp: dispatch_voice_def voice_inv_def voice_request_write_status_def Let_def)
qed

lemma emit_voice_inv:
  assumes "voice_inv f" and "\<And>t c u r. e \<noteq> Spoken t c u r"
  shows "voice_inv (emit_out e f)"
proof -
  have "attempts (emit_out e f) = attempts f" using assms(2) by (cases e) (simp_all, blast)
  then show ?thesis using assms(1) by (simp add: voice_inv_def)
qed

lemma ws_voice_inv: "voice_inv f \<Longrightarrow> voice_inv (f\<lparr>fr_ws := w\<rparr>)"
  by (simp add: voice_inv_def)

lemma if_voice_inv: "voice_inv x \<Longrightarrow> voice_inv y \<Longrightarrow> voice_inv (if b then x else y)"
  by simp

lemma case_ids_voice_inv: "(\<And>u c. voice_inv (g u c)) \<Longrightarrow> voice_inv (case ids of (u, c) \<Rightarrow> g u c)"
  by (simp add: case_prod_beta)

lemma outbound_voice_inv:
  assumes "voice_inv f"
  shows "voice_inv (outbound_dispatch cfg prof env now msg f)"
proof (cases "msg_content msg")
  case (Some content)
  show ?thesis
  proof (cases "mbus_tap_try_deliver (fr_taps f) (Some msg)")
    case None
    show ?thesis unfolding outbound_dispatch_def dispatch_feishu_def Let_def Some None option.case
      by (intro if_voice_inv case_ids_voice_inv emit_voice_inv ws_voice_inv dispatch_voice_inv assms out_event.distinct)
  next
    case (Some t)
    then show ?thesis using \<open>msg_content msg = Some content\<close> assms
      by (cases t) (simp add: outbound_dispatch_def emit_voice_inv)
  qed
qed (simp add: outbound_dispatch_def assms)

lemma voice_inv_fields [simp]:
  "voice_inv (f\<lparr>s_voice_dialog_pending := x\<rparr>) = voice_inv f" "voice_inv (f\<lparr>s_voice_dialog_deadline := y\<rparr>) = voice_inv f"
  "voice_inv (f\<lparr>fr_voice_status := z\<rparr>) = voice_inv f"
  by (simp_all add: voice_inv_def)

lemma voice_inv_parts [simp]:
  "voice_inv (voice_request_write_status z f) = voice_inv f" "voice_inv (poll_expire now f) = voice_inv f"
  "voice_inv (snd (snd (voice_start r f))) = voice_inv f" "voice_inv (voice_stop_before f) = voice_inv f"
  "voice_inv (voice_stop_after now r f) = voice_inv f"
  by (simp_all add: voice_request_write_status_def poll_expire_def voice_start_def voice_stop_before_def
      voice_stop_after_def Let_def)

text \<open>
  The dispatch task and the polling task run side by side: while the poller is inside
  \<^verbatim>\<open>voice_channel_stop\<close> any number of messages may be dispatched.
\<close>

datatype poller = Polling | Stopping

inductive front_step :: "front_cfg \<Rightarrow> front_profile \<Rightarrow> poller \<times> front \<Rightarrow> poller \<times> front \<Rightarrow> bool" for cfg prof where
  dispatch: "front_step cfg prof (pc, f) (pc, outbound_dispatch cfg prof env now msg f)"
| expire: "front_step cfg prof (Polling, f) (Polling, poll_expire now f)"
| start: "front_step cfg prof (Polling, f) (Polling, snd (snd (voice_start ret f)))"
| stop_begin: "front_step cfg prof (Polling, f) (Stopping, voice_stop_before f)"
| stop_end: "front_step cfg prof (Stopping, f) (Polling, voice_stop_after now ret f)"

lemma front_step_voice_inv: "front_step cfg prof s t \<Longrightarrow> voice_inv (snd s) \<Longrightarrow> voice_inv (snd t)"
  by (induction rule: front_step.induct) (simp_all add: outbound_voice_inv)

lemma front_steps_voice_inv: "(front_step cfg prof)\<^sup>*\<^sup>* s t \<Longrightarrow> voice_inv (snd s) \<Longrightarrow> voice_inv (snd t)"
  by (induction rule: rtranclp_induct) (simp_all add: front_step_voice_inv)

text \<open>An uninterrupted round of the poller is a sequence of these steps.\<close>

lemma voice_poll_steps: "(front_step cfg prof)\<^sup>*\<^sup>* (Polling, f) (Polling, voice_poll now later voice request f)"
proof -
  have e: "(front_step cfg prof)\<^sup>*\<^sup>* (Polling, f) (Polling, poll_expire now f)" by (rule r_into_rtranclp, rule expire)
  moreover have "(front_step cfg prof)\<^sup>*\<^sup>* (Polling, g) (Polling, snd (snd (voice_start r g)))" for g r
    by (rule r_into_rtranclp, rule start)
  moreover have "(front_step cfg prof)\<^sup>*\<^sup>* (Polling, g) (Polling, voice_stop_after later r (voice_stop_before g))" for g r
    by (rule rtranclp_trans, rule r_into_rtranclp, rule stop_begin, rule r_into_rtranclp, rule stop_end)
  ultimately show ?thesis
    unfolding voice_poll_def Let_def by (intro rtranclp_trans[OF e]) (simp split: option.split)
qed

definition front_start :: "front \<Rightarrow> bool" where
  "front_start f \<longleftrightarrow> fr_events f = [] \<and> \<not> s_voice_cooldown f \<and> \<not> s_voice_dialog_pending f"

text \<open>
  C35. The voice rests after a failure: however dispatched messages and voice requests interleave,
  two consecutive attempts to speak a reply, the first of which failed, are at least five seconds
  apart, counted from the end of the first.
\<close>

theorem voice_rests_after_failure:
  assumes "front_start f" "(front_step cfg prof)\<^sup>*\<^sup>* (Polling, f) (pc, g)"
    and "Suc i < length (attempts g)" "at_ret (attempts g ! i) \<noteq> 0"
  shows "at_end (attempts g ! i) + 5 \<le> at_begin (attempts g ! Suc i)"
proof -
  have "voice_inv f" using assms(1) by (simp add: front_start_def voice_inv_def attempts_def rested_def)
  then have "voice_inv g" using front_steps_voice_inv[OF assms(2)] by simp
  then show ?thesis using assms(3,4) by (simp add: voice_inv_def rested_def)
qed

text \<open>A first reply fails to be spoken; the one that comes six seconds later is tried again.\<close>

definition front_fails :: front_env where
  "front_fails = \<lparr>fe_hook = (\<lambda>_. False), fe_app_id = [], fe_node_ok = False, fe_speak = (\<lambda>_. - EIO), fe_after = 1, fe_print = (\<lambda>_ _. None)\<rparr>"

definition front_idle :: front where
  "front_idle = \<lparr>fr_taps = [], fr_ws = \<lparr>s_clients = [], s_listen_fd = -1, s_running = False, ws_inbound = [], ws_wire = [], ws_closed = []\<rparr>, s_voice_cooldown = False, s_voice_cooldown_until = 0,
     s_voice_dialog_pending = False, s_voice_dialog_deadline = 0, fr_voice_status = ''idle'', fr_events = []\<rparr>"

definition front_reply :: agent_msg where
  "front_reply = \<lparr>msg_channel = ''voice'', msg_chat_id = ''me'', msg_content = Some ''hi'', msg_image_b64 = None\<rparr>"

definition front_off :: front_cfg where
  "front_off = \<lparr>with_feishu = False, with_node = False, with_mqtt = False, with_lvgl_ui = False, with_weixin = False\<rparr>"

definition front_plain :: front_profile where
  "front_plain = \<lparr>enable_feishu = False, enable_node = False, enable_mqtt = False, enable_lvgl_ui = False,
     enable_weixin = False, enable_websocket = False\<rparr>"

definition front_retry :: front where
  "front_retry = outbound_dispatch front_off front_plain front_fails 6 front_reply
     (outbound_dispatch front_off front_plain front_fails 0 front_reply front_idle)"

lemma front_speaks:
  "outbound_dispatch cfg prof env now front_reply f
     = (if fe_hook env front_reply then emit_out (Hooked front_reply) f
        else case mbus_tap_try_deliver (fr_taps f) (Some front_reply) of
               Some (cb, cookie) \<Rightarrow> emit_out (Tapped cb cookie front_reply) f
             | None \<Rightarrow> dispatch_voice env now ''hi'' f)"
  by (simp add: outbound_dispatch_def front_reply_def Let_def split: option.split)

lemma front_retry_attempts:
  "attempts front_retry = [\<lparr>at_begin = 0, at_end = 1, at_ret = - EIO\<rparr>, \<lparr>at_begin = 6, at_end = 1, at_ret = - EIO\<rparr>]"
  by (simp add: front_retry_def front_speaks front_fails_def front_idle_def mbus_tap_try_deliver_def
      dispatch_voice_def emit_out_def voice_request_write_status_def attempts_def EIO_def)

theorem voice_rests_after_failure_witness:
  "at_end (attempts front_retry ! 0) + 5 \<le> at_begin (attempts front_retry ! Suc 0) \<and> length (attempts front_retry) = 2"
proof -
  have "(front_step front_off front_plain)\<^sup>*\<^sup>* (Polling, front_idle) (Polling, front_retry)"
    unfolding front_retry_def
    by (rule rtranclp_trans, rule r_into_rtranclp, rule dispatch, rule r_into_rtranclp, rule dispatch)
  moreover have "front_start front_idle" by (simp add: front_start_def front_idle_def)
  ultimately show ?thesis
    using voice_rests_after_failure[of front_idle front_off front_plain Polling front_retry 0]
    by (simp add: front_retry_attempts EIO_def)
qed

section \<open>The voice dialog\<close>

text \<open>
  A dialog that waits for its reply refuses a new recording, and the first poll after its deadline
  ends it, so that the voice is never blocked for longer than ninety seconds.
\<close>

lemma pending_refuses_start: "s_voice_dialog_pending f \<Longrightarrow> fst (voice_start r f) = - EBUSY \<and> \<not> fst (snd (voice_start r f))"
  by (simp add: voice_start_def Let_def)

lemma dialog_expires:
  assumes "now + VOICE_DIALOG_TIMEOUT_SEC \<le> then'"
  shows "\<not> s_voice_dialog_pending (poll_expire then' (voice_stop_after now ret f))"
  using assms by (simp add: poll_expire_def voice_stop_after_def voice_request_write_status_def)

lemma voice_reply_ends_dialog: "\<not> s_voice_dialog_pending (dispatch_voice env now content f)"
  by (simp add: dispatch_voice_def Let_def voice_request_write_status_def)

text \<open>
  The flag is set only after \<^verbatim>\<open>voice_channel_stop\<close> has returned, when the recorded request is
  already on the bus: a reply that is dispatched before that does not end the dialog, and the next
  recording is refused although the reply has been spoken.
\<close>

lemma early_reply_leaves_dialog:
  "fst (voice_start r (voice_stop_after now 0 (dispatch_voice env t content (voice_stop_before f)))) = - EBUSY"
  by (simp add: voice_stop_after_def voice_start_def Let_def)

section \<open>The default backend\<close>

text \<open>
  The defaults are injected before \<^verbatim>\<open>llm_router_init\<close> has read the configuration, when no backend
  is enabled yet: a profile with a default always writes it over the first stored backend.
\<close>

lemma backend_defaults_always_win:
  assumes "default_llm_backend p = Some url" "url \<noteq> []" "case llm_router_get_backend 0 r of None \<Rightarrow> True | Some b \<Rightarrow> \<not> enabled b"
  shows "inject_llm_defaults json_ok p r
    = snd (llm_router_set_backend json_ok 0 (Some (default_backend url (default_llm_model p) (default_llm_api_key p))) r)"
proof -
  have "\<not> (case llm_router_get_backend 0 r of None \<Rightarrow> False | Some b \<Rightarrow> enabled b)"
    using assms(3) by (cases "llm_router_get_backend 0 r") simp_all
  then show ?thesis unfolding inject_llm_defaults_def assms(1) option.case using assms(2) by (simp only: if_False)
qed

text \<open>An address with a scheme and no path gives a backend without host and path.\<close>

lemma url_without_path_loses_host:
  assumes "strstr url ''://'' = Some i" "CHR ''/'' \<notin> set (drop (i + 3) url)"
  shows "host (default_backend url mdl key) = []"
proof -
  define p where "p = drop (i + 3) url"
  have tw: "takeWhile (\<lambda>c. c \<noteq> CHR ''/'') p = p"
    unfolding takeWhile_eq_all_conv p_def using assms(2) by blast
  show ?thesis
    unfolding default_backend_def assms(1) option.case Let_def p_def[symmetric] tw by (simp add: zero_backend_def)
qed

end
