(* ===== verification/Http_Pool.thy ===== *)
theory Http_Pool
  imports Prelude
begin

text \<open>
  The pool of kept connections of the HTTP client (\<^verbatim>\<open>services/ai_agent/src/infra/vela_tls.c\<close>) and the
  use that concurrent requests make of it.

  A slot's TLS context is either open, and then \<open>ctx_peer\<close> is the host and port it was connected to (or
  initialised for, by an attempt that failed), or freed. Freeing a context that is not open sets
  \<open>bad_free\<close>. The step relation interleaves any number of
  threads, each of which runs \<^verbatim>\<open>vela_https_request\<close>: the pool functions hold the lock and are one step;
  what a thread does to a slot between them is not protected by it.
\<close>

section \<open>The pool\<close>

definition CONN_POOL_SIZE :: nat where [c_consts]: "CONN_POOL_SIZE = 2"

record conn_slot =
  slot_host :: string
  slot_port :: string
  slot_in_use :: bool
  slot_valid :: bool
  ctx_peer :: "(string \<times> string) option"

record conn_pool =
  s_pool :: "conn_slot list"
  bad_free :: bool

definition idle_slot :: conn_slot where
  "idle_slot = \<lparr>slot_host = [], slot_port = [], slot_in_use = False, slot_valid = False, ctx_peer = None\<rparr>"

definition empty_pool :: conn_pool where
  "empty_pool = \<lparr>s_pool = replicate CONN_POOL_SIZE idle_slot, bad_free = False\<rparr>"

definition upd_slot :: "nat \<Rightarrow> (conn_slot \<Rightarrow> conn_slot) \<Rightarrow> conn_pool \<Rightarrow> conn_pool" where
  "upd_slot i f p = p\<lparr>s_pool := (s_pool p)[i := f (s_pool p ! i)]\<rparr>"

definition tls_ctx_free :: "nat \<Rightarrow> conn_pool \<Rightarrow> conn_pool" where
  "tls_ctx_free i p =
     (if ctx_peer (s_pool p ! i) = None then p\<lparr>bad_free := True\<rparr> else upd_slot i (\<lambda>s. s\<lparr>ctx_peer := None\<rparr>) p)"

definition pool_acquire :: "string \<Rightarrow> string \<Rightarrow> conn_pool \<Rightarrow> nat option \<times> conn_pool" where
  "pool_acquire host port p =
     (case first_idx (\<lambda>s. slot_valid s \<and> \<not> slot_in_use s \<and> slot_host s = host \<and> slot_port s = port) (s_pool p) of
        Some i \<Rightarrow> (Some i, upd_slot i (\<lambda>s. s\<lparr>slot_in_use := True\<rparr>) p)
      | None \<Rightarrow>
          (case first_idx (\<lambda>s. \<not> slot_valid s \<and> \<not> slot_in_use s) (s_pool p) of
             Some i \<Rightarrow> (Some i, upd_slot i (\<lambda>s. s\<lparr>slot_in_use := True\<rparr>) p)
           | None \<Rightarrow>
               (case first_idx (\<lambda>s. \<not> slot_in_use s) (s_pool p) of
                  Some i \<Rightarrow> (Some i, upd_slot i (\<lambda>s. s\<lparr>slot_valid := False, slot_in_use := True\<rparr>) (tls_ctx_free i p))
                | None \<Rightarrow> (None, p))))"

definition pool_release :: "nat \<Rightarrow> string \<Rightarrow> string \<Rightarrow> bool \<Rightarrow> conn_pool \<Rightarrow> conn_pool" where
  "pool_release i host port keep p =
     upd_slot i (\<lambda>s. s\<lparr>slot_in_use := False\<rparr>)
       (if keep then upd_slot i (\<lambda>s. s\<lparr>slot_host := cstr_copy 128 host, slot_port := cstr_copy 8 port, slot_valid := True\<rparr>) p
        else upd_slot i (\<lambda>s. s\<lparr>slot_valid := False, slot_host := []\<rparr>) (tls_ctx_free i p))"

definition cleanup_slot :: "nat \<Rightarrow> conn_pool \<Rightarrow> conn_pool" where
  "cleanup_slot i p =
     (let s = s_pool p ! i in
      if slot_in_use s then p
      else upd_slot i (\<lambda>s. s\<lparr>slot_host := []\<rparr>)
             (if slot_valid s then upd_slot i (\<lambda>s. s\<lparr>slot_valid := False\<rparr>) (tls_ctx_free i p) else p))"

definition vela_tls_pool_cleanup :: "conn_pool \<Rightarrow> conn_pool" where
  "vela_tls_pool_cleanup p = fold cleanup_slot [0..<CONN_POOL_SIZE] p"

section \<open>A request\<close>

text \<open>
  A thread that has a slot for a host and a port uses the connection it finds in it or makes one
  (\<open>Fresh\<close>); after the attempt it is \<open>Connected\<close>, whether the attempt succeeded or not.
\<close>

datatype phase = Fresh nat string string | Connected nat string string

text \<open>The parts of \<^verbatim>\<open>vela_https_request\<close> that change a slot outside the lock.\<close>

definition drop_stale :: "nat \<Rightarrow> conn_pool \<Rightarrow> conn_pool" where
  "drop_stale i p = upd_slot i (\<lambda>s. s\<lparr>slot_valid := False\<rparr>) (tls_ctx_free i p)"

definition tls_ctx_connect :: "nat \<Rightarrow> string \<Rightarrow> string \<Rightarrow> conn_pool \<Rightarrow> conn_pool" where
  "tls_ctx_connect i host port p = upd_slot i (\<lambda>s. s\<lparr>ctx_peer := Some (host, port)\<rparr>) p"

inductive req_step :: "conn_pool \<times> (nat \<Rightarrow> phase option) \<Rightarrow> conn_pool \<times> (nat \<Rightarrow> phase option) \<Rightarrow> bool" where
  acquire: "own t = None \<Longrightarrow> pool_acquire host port p = (Some i, p') \<Longrightarrow>
    req_step (p, own) (p', own(t \<mapsto> Fresh i host port))"
| ephemeral: "own t = None \<Longrightarrow> pool_acquire host port p = (None, p') \<Longrightarrow> req_step (p, own) (p', own)"
| reused: "own t = Some (Fresh i host port) \<Longrightarrow> slot_valid (s_pool p ! i) \<Longrightarrow>
    req_step (p, own) (pool_release i host port keep p, own(t := None))"
| stale: "own t = Some (Fresh i host port) \<Longrightarrow> slot_valid (s_pool p ! i) \<Longrightarrow> req_step (p, own) (drop_stale i p, own)"
| connect: "own t = Some (Fresh i host port) \<Longrightarrow> \<not> slot_valid (s_pool p ! i) \<Longrightarrow>
    req_step (p, own) (tls_ctx_connect i host port p, own(t \<mapsto> Connected i host port))"
| finish: "own t = Some (Connected i host port) \<Longrightarrow>
    req_step (p, own) (pool_release i host port keep p, own(t := None))"
| cleanup: "req_step (p, own) (vela_tls_pool_cleanup p, own)"

section \<open>Ownership\<close>

fun slot_of :: "phase \<Rightarrow> nat" where
  "slot_of (Fresh i _ _) = i"
| "slot_of (Connected i _ _) = i"

text \<open>A slot that keeps a connection has the name of its peer, as far as the fields hold it; any other is closed.\<close>

definition slot_kept :: "conn_slot \<Rightarrow> bool" where
  "slot_kept s \<longleftrightarrow> (case ctx_peer s of
     None \<Rightarrow> \<not> slot_valid s
   | Some (h, p) \<Rightarrow> slot_valid s \<and> slot_host s = cstr_copy 128 h \<and> slot_port s = cstr_copy 8 p)"

text \<open>What is true of a slot, by what its holder is doing.\<close>

definition slot_inv :: "phase option \<Rightarrow> conn_slot \<Rightarrow> bool" where
  "slot_inv x s \<longleftrightarrow> (case x of
     None \<Rightarrow> \<not> slot_in_use s \<and> slot_kept s
   | Some (Fresh i h p) \<Rightarrow> slot_in_use s \<and> slot_kept s \<and> (slot_valid s \<longrightarrow> slot_host s = h \<and> slot_port s = p)
   | Some (Connected i h p) \<Rightarrow> slot_in_use s \<and> ctx_peer s = Some (h, p) \<and> \<not> slot_valid s)"

definition pool_ok :: "conn_pool \<times> (nat \<Rightarrow> phase option) \<Rightarrow> bool" where
  "pool_ok st \<longleftrightarrow> (case st of (p, own) \<Rightarrow>
     \<not> bad_free p \<and> length (s_pool p) = CONN_POOL_SIZE
     \<and> (\<forall>t ph. own t = Some ph \<longrightarrow> slot_of ph < CONN_POOL_SIZE \<and> slot_inv (Some ph) (s_pool p ! slot_of ph))
     \<and> (\<forall>t u ph ph'. own t = Some ph \<longrightarrow> own u = Some ph' \<longrightarrow> slot_of ph = slot_of ph' \<longrightarrow> t = u)
     \<and> (\<forall>i<CONN_POOL_SIZE. (\<forall>t ph. own t = Some ph \<longrightarrow> slot_of ph \<noteq> i) \<longrightarrow> slot_inv None (s_pool p ! i)))"

lemma pool_okD:
  assumes "pool_ok (p, own)"
  shows "\<not> bad_free p" "length (s_pool p) = CONN_POOL_SIZE"
    "own t = Some ph \<Longrightarrow> slot_of ph < CONN_POOL_SIZE" "own t = Some ph \<Longrightarrow> slot_inv (Some ph) (s_pool p ! slot_of ph)"
    "own t = Some ph \<Longrightarrow> own u = Some ph' \<Longrightarrow> slot_of ph = slot_of ph' \<Longrightarrow> t = u"
    "i < CONN_POOL_SIZE \<Longrightarrow> (\<And>t ph. own t = Some ph \<Longrightarrow> slot_of ph \<noteq> i) \<Longrightarrow> slot_inv None (s_pool p ! i)"
  using assms by (auto simp: pool_ok_def)

lemma pool_okI:
  assumes "\<not> bad_free p" "length (s_pool p) = CONN_POOL_SIZE"
    "\<And>t ph. own t = Some ph \<Longrightarrow> slot_of ph < CONN_POOL_SIZE \<and> slot_inv (Some ph) (s_pool p ! slot_of ph)"
    "\<And>t u ph ph'. own t = Some ph \<Longrightarrow> own u = Some ph' \<Longrightarrow> slot_of ph = slot_of ph' \<Longrightarrow> t = u"
    "\<And>i. i < CONN_POOL_SIZE \<Longrightarrow> (\<And>t ph. own t = Some ph \<Longrightarrow> slot_of ph \<noteq> i) \<Longrightarrow> slot_inv None (s_pool p ! i)"
  shows "pool_ok (p, own)"
  using assms unfolding pool_ok_def by (simp add: split_def)

lemma upd_slot_simps [simp]:
  "bad_free (upd_slot i f p) = bad_free p" "length (s_pool (upd_slot i f p)) = length (s_pool p)"
  "i < length (s_pool p) \<Longrightarrow> s_pool (upd_slot i f p) ! j = (if j = i then f (s_pool p ! i) else s_pool p ! j)"
  "upd_slot i f (upd_slot i g p) = upd_slot i (\<lambda>s. f (g s)) p"
proof -
  show "upd_slot i f (upd_slot i g p) = upd_slot i (\<lambda>s. f (g s)) p"
    by (cases "i < length (s_pool p)") (simp_all add: upd_slot_def list_update_beyond)
qed (auto simp: upd_slot_def)

lemma free_open: "ctx_peer (s_pool p ! i) \<noteq> None \<Longrightarrow> tls_ctx_free i p = upd_slot i (\<lambda>s. s\<lparr>ctx_peer := None\<rparr>) p"
  by (auto simp: tls_ctx_free_def)

lemma in_use_iff:
  assumes "pool_ok (p, own)" "i < CONN_POOL_SIZE"
  shows "slot_in_use (s_pool p ! i) \<longleftrightarrow> (\<exists>t ph. own t = Some ph \<and> slot_of ph = i)"
proof (cases "\<exists>t ph. own t = Some ph \<and> slot_of ph = i")
  case True
  then obtain t ph where "own t = Some ph" "slot_of ph = i" by blast
  then have "slot_in_use (s_pool p ! i)" using pool_okD(4) [OF assms(1), of t ph] by (cases ph) (auto simp: slot_inv_def)
  then show ?thesis using True by simp
next
  case False
  then show ?thesis using pool_okD(6) [OF assms] by (auto simp: slot_inv_def)
qed

text \<open>A step that changes one slot, of which no other thread is a holder.\<close>

lemma slot_change:
  assumes ok: "pool_ok (p, own)" and i: "i < CONN_POOL_SIZE"
    and alone: "\<And>u ph. u \<noteq> t \<Longrightarrow> own u = Some ph \<Longrightarrow> slot_of ph \<noteq> i"
    and t: "\<And>ph. own t = Some ph \<Longrightarrow> slot_of ph = i" and x: "\<And>ph. x = Some ph \<Longrightarrow> slot_of ph = i"
    and inv: "slot_inv x (f (s_pool p ! i))"
  shows "pool_ok (upd_slot i f p, own(t := x))"
proof (rule pool_okI)
  note d = pool_okD [OF ok]
  show "\<not> bad_free (upd_slot i f p)" "length (s_pool (upd_slot i f p)) = CONN_POOL_SIZE" using d(1,2) by simp_all
  show "slot_of ph < CONN_POOL_SIZE \<and> slot_inv (Some ph) (s_pool (upd_slot i f p) ! slot_of ph)"
    if "(own(t := x)) u = Some ph" for u ph
    using that x inv i d(2,3,4) alone by (cases "u = t") auto
  have away: "slot_of ph \<noteq> i" if "(own(t := x)) u = Some ph" "u \<noteq> t" for u ph using that alone by simp
  have here: "slot_of ph = i" if "(own(t := x)) t = Some ph" for ph using that x by simp
  show "u = v" if h: "(own(t := x)) u = Some ph" "(own(t := x)) v = Some ph'" and eq: "slot_of ph = slot_of ph'" for u v ph ph'
  proof (cases "u = t \<or> v = t")
    case True
    then show ?thesis using here away h eq by metis
  next
    case False
    then show ?thesis using d(5) [of u ph v ph'] h eq by simp
  qed
  show "slot_inv None (s_pool (upd_slot i f p) ! j)"
    if j: "j < CONN_POOL_SIZE" and none: "\<And>u ph. (own(t := x)) u = Some ph \<Longrightarrow> slot_of ph \<noteq> j" for j
  proof (cases "j = i")
    case True
    then have "x = None" using none [of t] x by (cases x) auto
    then show ?thesis using True inv i d(2) by simp
  next
    case False
    have "slot_of ph \<noteq> j" if "own u = Some ph" for u ph using that none [of u ph] t False by (cases "u = t") auto
    then show ?thesis using d(6) [OF j] False i d(2) by simp
  qed
qed

lemma held_change:
  assumes ok: "pool_ok (p, own)" and t: "own t = Some ph" and x: "\<And>ph'. x = Some ph' \<Longrightarrow> slot_of ph' = slot_of ph"
    and inv: "slot_inv (Some ph) (s_pool p ! slot_of ph) \<Longrightarrow> slot_inv x (f (s_pool p ! slot_of ph))"
  shows "pool_ok (upd_slot (slot_of ph) f p, own(t := x))"
proof -
  have "slot_of ph' \<noteq> slot_of ph" if "u \<noteq> t" "own u = Some ph'" for u ph'
    using pool_okD(5) [OF ok that(2) t] that(1) by blast
  moreover have "slot_of ph' = slot_of ph" if "own t = Some ph'" for ph' using that t by simp
  ultimately show ?thesis using slot_change [OF ok pool_okD(3) [OF ok t]] x inv pool_okD(4) [OF ok t] by blast
qed

lemma free_slot:
  assumes "pool_ok (p, own)" "i < CONN_POOL_SIZE" "\<not> slot_in_use (s_pool p ! i)"
  shows "own u = Some ph \<Longrightarrow> slot_of ph \<noteq> i" "slot_kept (s_pool p ! i)"
  using in_use_iff [OF assms(1,2)] pool_okD(6) [OF assms(1,2)] assms(3) by (auto simp: slot_inv_def)

lemma slot_kept_open: "slot_kept s \<Longrightarrow> slot_valid s \<longleftrightarrow> ctx_peer s \<noteq> None"
  by (auto simp: slot_kept_def split: option.splits)

lemma slot_kept_simps [simp]:
  "slot_kept (s\<lparr>slot_in_use := b\<rparr>) = slot_kept s" "slot_kept (s\<lparr>ctx_peer := None, slot_valid := False\<rparr>)"
  "\<not> slot_valid s \<Longrightarrow> slot_kept (s\<lparr>slot_host := h\<rparr>) = slot_kept s"
  by (auto simp: slot_kept_def split: option.splits)

lemma acquire_ok:
  assumes ok: "pool_ok (p, own)" and t: "own t = None" and q: "pool_acquire host port p = (Some i, p')"
  shows "pool_ok (p', own(t \<mapsto> Fresh i host port))"
proof -
  have len: "length (s_pool p) = CONN_POOL_SIZE" by (rule pool_okD(2) [OF ok])
  have i: "i < CONN_POOL_SIZE" "\<not> slot_in_use (s_pool p ! i)"
    using q len by (auto simp: pool_acquire_def dest: first_idx_SomeD split: option.splits)
  note k = free_slot(2) [OF ok i]
  have change: "pool_ok (upd_slot i f p, own(t \<mapsto> Fresh i host port))" if "slot_inv (Some (Fresh i host port)) (f (s_pool p ! i))" for f
    by (rule slot_change [OF ok i(1)]) (use free_slot(1) [OF ok i] t that in auto)
  have "ctx_peer (s_pool p ! i) \<noteq> None" if "first_idx (\<lambda>s. \<not> slot_valid s \<and> \<not> slot_in_use s) (s_pool p) = None"
    using that i len slot_kept_open [OF k] by (auto simp: first_idx_None_nth)
  then show ?thesis using q k
    by (auto simp: pool_acquire_def free_open slot_inv_def dest: first_idx_SomeD intro!: change split: option.splits)
qed

lemma release_ok:
  assumes ok: "pool_ok (p, own)" and t: "own t = Some ph"
    and ph: "ph = Connected i host port \<or> ph = Fresh i host port \<and> slot_valid (s_pool p ! i)"
  shows "pool_ok (pool_release i host port keep p, own(t := None))"
proof -
  have i: "slot_of ph = i" using ph by auto
  have inv: "slot_inv (Some ph) (s_pool p ! i)" using pool_okD(4) [OF ok t] i by simp
  have open_ctx: "ctx_peer (s_pool p ! i) \<noteq> None" using inv ph slot_kept_open [of "s_pool p ! i"] by (auto simp: slot_inv_def)
  have change: "pool_ok (upd_slot i f p, own(t := None))" if "slot_inv None (f (s_pool p ! i))" for f
    using held_change [OF ok t, of None f] that i by simp
  show ?thesis
  proof (cases keep)
    case True
    then show ?thesis using inv ph
      by (auto simp: pool_release_def slot_inv_def slot_kept_def split: option.splits intro!: change)
  next
    case False
    then show ?thesis using free_open [OF open_ctx]
      by (simp add: pool_release_def) (rule change, simp add: slot_inv_def slot_kept_def)
  qed
qed

lemma cleanup_slot_ok:
  assumes ok: "pool_ok (p, own)" and i: "i < CONN_POOL_SIZE"
  shows "pool_ok (cleanup_slot i p, own)"
proof (cases "slot_in_use (s_pool p ! i)")
  case True
  then show ?thesis using ok by (simp add: cleanup_slot_def)
next
  case False
  note free = free_slot [OF ok i False]
  have change: "pool_ok (upd_slot i f p, own)" if "slot_inv None (f (s_pool p ! i))" for f
  proof (rule pool_okI)
    note d = pool_okD [OF ok]
    show "slot_of ph < CONN_POOL_SIZE \<and> slot_inv (Some ph) (s_pool (upd_slot i f p) ! slot_of ph)" if "own u = Some ph" for u ph
      using that d(3,4) free(1) i d(2) by auto
  qed (use pool_okD [OF ok] i that in auto)
  show ?thesis
  proof (cases "slot_valid (s_pool p ! i)")
    case True
    then have "ctx_peer (s_pool p ! i) \<noteq> None" using slot_kept_open [OF free(2)] by simp
    then show ?thesis using True False change by (simp add: cleanup_slot_def free_open slot_inv_def slot_kept_def)
  next
    case closed: False
    then show ?thesis using False free(2) change [of "slot_host_update (\<lambda>_. [])"]
      by (simp add: cleanup_slot_def slot_inv_def)
  qed
qed

lemma step_ok:
  assumes "req_step st st'" "pool_ok st"
  shows "pool_ok st'"
  using assms
proof (induction rule: req_step.induct)
  case (acquire own t host port p i p')
  then show ?case by (blast intro: acquire_ok)
next
  case (ephemeral own t host port p p')
  then show ?case by (auto simp: pool_acquire_def split: option.splits)
next
  case (reused own t i host port p keep)
  then show ?case by (blast intro: release_ok)
next
  case (stale own t i host port p)
  have "ctx_peer (s_pool p ! i) \<noteq> None"
    using stale pool_okD(4) [OF stale(3,1)] slot_kept_open by (auto simp: slot_inv_def)
  moreover have "pool_ok (upd_slot i (\<lambda>s. s\<lparr>ctx_peer := None, slot_valid := False\<rparr>) p, own(t := Some (Fresh i host port)))"
    using held_change [OF stale(3,1), of "Some (Fresh i host port)"] by (simp add: slot_inv_def)
  moreover have "own(t := Some (Fresh i host port)) = own" using stale(1) by auto
  ultimately show ?case by (simp add: drop_stale_def free_open)
next
  case (connect own t i host port p)
  then show ?case using held_change [OF connect(3,1), of "Some (Connected i host port)"]
    by (simp add: tls_ctx_connect_def slot_inv_def)
next
  case (finish own t i host port p keep)
  then show ?case by (blast intro: release_ok)
next
  case (cleanup p own)
  have "pool_ok (fold cleanup_slot is p, own)" if "set is \<subseteq> {..<CONN_POOL_SIZE}" for "is"
    using that cleanup by (induction "is" arbitrary: p) (auto intro: cleanup_slot_ok)
  then show ?case unfolding vela_tls_pool_cleanup_def by (simp add: atLeast0LessThan)
qed

lemma empty_pool_ok: "pool_ok (empty_pool, Map.empty)"
  by (rule pool_okI) (auto simp: empty_pool_def idle_slot_def slot_inv_def slot_kept_def)

lemma steps_ok: "req_step\<^sup>*\<^sup>* (empty_pool, Map.empty) st \<Longrightarrow> pool_ok st"
  by (induction rule: rtranclp_induct) (auto intro: empty_pool_ok step_ok)

text \<open>
  C8. However the requests of several threads interleave from boot, and however often the pool is
  cleaned up meanwhile, no context is freed that is not open and no slot is held by two threads. A
  thread that is about to reuse a connection has one to its own host and port (host names up to 126
  characters; the pool compares the first 127 only), and one that made a connection has it still.
\<close>

theorem pool_connections_safe:
  assumes "req_step\<^sup>*\<^sup>* (empty_pool, Map.empty) (p, own)"
  shows "\<not> bad_free p
    \<and> (\<forall>t ph u ph'. own t = Some ph \<and> own u = Some ph' \<and> slot_of ph = slot_of ph' \<longrightarrow> t = u)
    \<and> (\<forall>t i host port. own t = Some (Connected i host port) \<longrightarrow> ctx_peer (s_pool p ! i) = Some (host, port))
    \<and> (\<forall>t i host port. own t = Some (Fresh i host port) \<and> slot_valid (s_pool p ! i) \<and> length host < 127 \<and> length port < 7
         \<longrightarrow> ctx_peer (s_pool p ! i) = Some (host, port))"
proof -
  note d = pool_okD [OF steps_ok [OF assms]]
  have made: "ctx_peer (s_pool p ! i) = Some (host, port)" if "own t = Some (Connected i host port)" for t i host port
    using d(4) [OF that] by (simp add: slot_inv_def)
  have reuse: "ctx_peer (s_pool p ! i) = Some (host, port)"
    if "own t = Some (Fresh i host port)" "slot_valid (s_pool p ! i)" "length host < 127" "length port < 7" for t i host port
    using d(4) [OF that(1)] that(2-) by (auto simp: slot_inv_def slot_kept_def cstr_copy_def split: option.splits)
  show ?thesis using d(1,5) made reuse by blast
qed

theorem pool_connections_safe_witness:
  "ctx_peer (s_pool (snd (pool_acquire ''h'' ''443'' (pool_release 0 ''h'' ''443'' True
     (tls_ctx_connect 0 ''h'' ''443'' (snd (pool_acquire ''h'' ''443'' empty_pool)))))) ! 0) = Some (''h'', ''443'')"
proof -
  let ?p1 = "snd (pool_acquire ''h'' ''443'' empty_pool)"
  let ?p2 = "tls_ctx_connect 0 ''h'' ''443'' ?p1"
  let ?p3 = "pool_release 0 ''h'' ''443'' True ?p2"
  let ?p4 = "snd (pool_acquire ''h'' ''443'' ?p3)"
  have "req_step (empty_pool, Map.empty) (?p1, Map.empty(0 \<mapsto> Fresh 0 ''h'' ''443''))"
    by (rule req_step.acquire) code_simp+
  moreover have "req_step (?p1, Map.empty(0 \<mapsto> Fresh 0 ''h'' ''443'')) (?p2, Map.empty(0 \<mapsto> Fresh 0 ''h'' ''443'', 0 \<mapsto> Connected 0 ''h'' ''443''))"
    by (rule req_step.connect) code_simp+
  moreover have "req_step (?p2, Map.empty(0 \<mapsto> Fresh 0 ''h'' ''443'', 0 \<mapsto> Connected 0 ''h'' ''443''))
      (?p3, (Map.empty(0 \<mapsto> Fresh 0 ''h'' ''443'', 0 \<mapsto> Connected 0 ''h'' ''443''))(0 := None))"
    by (rule req_step.finish) code_simp
  moreover have "req_step (?p3, (Map.empty(0 \<mapsto> Fresh 0 ''h'' ''443'', 0 \<mapsto> Connected 0 ''h'' ''443''))(0 := None))
      (?p4, ((Map.empty(0 \<mapsto> Fresh 0 ''h'' ''443'', 0 \<mapsto> Connected 0 ''h'' ''443''))(0 := None))(0 \<mapsto> Fresh 0 ''h'' ''443''))"
    by (rule req_step.acquire) code_simp+
  ultimately have "req_step\<^sup>*\<^sup>* (empty_pool, Map.empty) (?p4, ((Map.empty(0 \<mapsto> Fresh 0 ''h'' ''443'', 0 \<mapsto> Connected 0 ''h'' ''443''))(0 := None))(0 \<mapsto> Fresh 0 ''h'' ''443''))"
    by (meson converse_rtranclp_into_rtranclp rtranclp.rtrancl_refl)
  moreover have "slot_valid (s_pool ?p4 ! 0)" by code_simp
  moreover have "(f(0 \<mapsto> ph)) 0 = Some ph" for f :: "nat \<Rightarrow> phase option" and ph by simp
  moreover have "length ''h'' < 127" "length ''443'' < 7" by simp_all
  ultimately show ?thesis using pool_connections_safe [THEN conjunct2, THEN conjunct2, THEN conjunct2] by blast
qed

end
