(* ===== verification/Http_Client.thy ===== *)
theory Http_Client
  imports C_Text
begin

text \<open>
  The HTTP client of the agent (\<^verbatim>\<open>services/ai_agent/src/infra/vela_tls.c\<close>): requests, the reading of
  a response with a length or in chunks, and the pool of connections that are kept alive.

  What a connection delivers is a list of events, one per read: bytes, a read to be repeated, an
  error (the time-out of the socket is one), or the end. A reader that needs another event when there
  is none waits for ever, which is the result \<open>None\<close>.
\<close>

definition CRLF2 :: string where "CRLF2 = [CHR 0x0D, CHR 0x0A]"
definition BLANK_LINE :: string where "BLANK_LINE = CRLF2 @ CRLF2"

definition VELA_TLS_ERR_READ :: int where [c_consts]: "VELA_TLS_ERR_READ = - 4"
definition VELA_TLS_ERR_OVERFLOW :: int where [c_consts]: "VELA_TLS_ERR_OVERFLOW = - 5"
definition TLS_RAW_BUF_SIZE :: nat where [c_consts]: "TLS_RAW_BUF_SIZE = 8192"

datatype net_event = Arrive string | Again | Fail | Shut

section \<open>Chunked bodies\<close>

text \<open>
  One chunk at the start of \<open>src\<close>: its data and the rest; \<open>None\<close> at the last chunk or a malformed
  one. The C code moves the data to the front of the buffer it reads from.
\<close>

definition chunk_at :: "string \<Rightarrow> (string \<times> string) option" where
  "chunk_at src =
     (case strstr src CRLF2 of
        None \<Rightarrow> None
      | Some crlf \<Rightarrow>
          let (chunk_sz, used) = strtol16 (cstr src);
              endptr = (if used < crlf then used + length (takeWhile (\<lambda>c. c = CHR '' '') (take (crlf - used) (drop used src))) else used)
          in if endptr \<noteq> crlf \<or> chunk_sz < 0 \<or> chunk_sz > int (length src) - int crlf - 2 then None
             else if chunk_sz = 0 then None
             else let s1 = drop (crlf + 2) src; s2 = drop (nat chunk_sz) s1
                  in Some (take (nat chunk_sz) s1, if take 2 s2 = CRLF2 then drop 2 s2 else s2))"

lemma chunk_at_shorter: "chunk_at src = Some (d, rest) \<Longrightarrow> length rest < length src"
  by (auto simp: chunk_at_def Let_def CRLF2_def dest!: strstr_Some split: option.splits if_splits prod.splits)

function decode_chunked :: "string \<Rightarrow> string" where
  "decode_chunked src = (case chunk_at src of None \<Rightarrow> [] | Some (d, rest) \<Rightarrow> d @ decode_chunked rest)"
  by pat_completeness auto
termination
  by (relation "measure length") (auto dest: chunk_at_shorter)

declare decode_chunked.simps [simp del]

section \<open>Reading a response\<close>

text \<open>Until the blank line after the header has arrived, the buffer is full, or the connection ends (\<open>True\<close>).\<close>

fun read_header :: "string \<Rightarrow> net_event list \<Rightarrow> (string \<times> bool \<times> net_event list) option option" where
  "read_header raw [] = (if length raw \<ge> TLS_RAW_BUF_SIZE - 1 then Some (Some (raw, False, [])) else None)"
| "read_header raw (e # es) =
     (if length raw \<ge> TLS_RAW_BUF_SIZE - 1 then Some (Some (raw, False, e # es))
      else case e of
             Arrive d \<Rightarrow>
               let k = TLS_RAW_BUF_SIZE - 1 - length raw; raw' = raw @ take k d in
               if strstr raw' BLANK_LINE \<noteq> None \<or> length d > k
               then Some (Some (raw', False, if length d > k then Arrive (drop k d) # es else es))
               else read_header raw' es
           | Again \<Rightarrow> read_header raw es
           | Shut \<Rightarrow> Some (Some (raw, True, es))
           | Fail \<Rightarrow> Some None)"

definition http_status :: "string \<Rightarrow> int option" where
  "http_status raw =
     (if take 7 raw = ''HTTP/1.''
      then (case strtol (drop 7 raw) of None \<Rightarrow> None | Some (m, rest) \<Rightarrow> map_option fst (strtol rest))
      else None)"

text \<open>The place of a header line that starts before the body.\<close>

definition header_at :: "string \<Rightarrow> string \<Rightarrow> nat \<Rightarrow> nat option" where
  "header_at raw name body_start =
     (case strcasestr_in raw name of None \<Rightarrow> None | Some k \<Rightarrow> if k < body_start then Some k else None)"

definition http_content_length :: "string \<Rightarrow> nat \<Rightarrow> int" where
  "http_content_length raw body_start =
     (case header_at raw ''Content-Length:'' body_start of
        None \<Rightarrow> - 1
      | Some k \<Rightarrow> let v = c_atoi (drop (k + 15) raw) in if v < 0 \<or> v > 10 * 1024 * 1024 then - 1 else v)"

definition http_chunked :: "string \<Rightarrow> nat \<Rightarrow> bool" where
  "http_chunked raw body_start =
     (case header_at raw ''Transfer-Encoding:'' body_start of
        None \<Rightarrow> False
      | Some k \<Rightarrow> strcasestr_in (drop k raw) ''chunked'' \<noteq> None)"

definition http_keep_alive :: "string \<Rightarrow> nat \<Rightarrow> bool" where
  "http_keep_alive raw body_start =
     (case header_at raw ''Connection:'' body_start of
        None \<Rightarrow> True
      | Some k \<Rightarrow> strcasestr_in (drop k raw) ''keep-alive'' \<noteq> None)"

fun read_body :: "nat \<Rightarrow> int \<Rightarrow> string \<Rightarrow> net_event list \<Rightarrow> (string \<times> net_event list) option" where
  "read_body cap cl buf [] =
     (if length buf \<ge> cap - 1 \<or> (cl \<ge> 0 \<and> int (length buf) \<ge> cl) then Some (buf, []) else None)"
| "read_body cap cl buf (e # es) =
     (if length buf \<ge> cap - 1 \<or> (cl \<ge> 0 \<and> int (length buf) \<ge> cl) then Some (buf, e # es)
      else case e of
             Arrive d \<Rightarrow>
               let k = cap - 1 - length buf in
               if length d > k then Some (buf @ take k d, Arrive (drop k d) # es)
               else read_body cap cl (buf @ d) es
           | Again \<Rightarrow> read_body cap cl buf es
           | Shut \<Rightarrow> Some (buf, es)
           | Fail \<Rightarrow> Some (buf, es))"

text \<open>The return value, the body and whether the connection can be kept.\<close>

record http_result =
  hr_status :: int
  hr_body :: string
  hr_keep :: bool

definition finish_body :: "bool \<Rightarrow> string \<Rightarrow> string" where
  "finish_body chunked buf = (if chunked then decode_chunked buf else buf)"

definition tls_read_response :: "nat \<Rightarrow> net_event list \<Rightarrow> (http_result \<times> net_event list) option" where
  "tls_read_response cap evs =
     (case read_header [] evs of
        None \<Rightarrow> None
      | Some None \<Rightarrow> Some (\<lparr>hr_status = VELA_TLS_ERR_READ, hr_body = [], hr_keep = False\<rparr>, [])
      | Some (Some (raw, eof, es)) \<Rightarrow>
          (case http_status (cstr raw) of
             None \<Rightarrow> Some (\<lparr>hr_status = VELA_TLS_ERR_READ, hr_body = [], hr_keep = False\<rparr>, es)
           | Some st \<Rightarrow>
               (case strstr raw BLANK_LINE of
                  None \<Rightarrow> Some (\<lparr>hr_status = st, hr_body = [], hr_keep = False\<rparr>, es)
                | Some bs \<Rightarrow>
                    let keep = http_keep_alive (cstr raw) bs;
                        cl = http_content_length (cstr raw) (bs + 4);
                        chunked = http_chunked (cstr raw) (bs + 4);
                        buf = take (cap - 1) (drop (bs + 4) raw)
                    in if eof then Some (\<lparr>hr_status = st, hr_body = finish_body chunked buf, hr_keep = keep\<rparr>, es)
                       else (case read_body cap cl buf es of
                               None \<Rightarrow> None
                             | Some (b, es') \<Rightarrow> Some (\<lparr>hr_status = st, hr_body = finish_body chunked b, hr_keep = keep\<rparr>, es')))))"

section \<open>Requests\<close>

text \<open>
  The header of a request, printed piece by piece into a buffer of 4096 bytes: \<open>None\<close> when one of
  the pieces does not fit.
\<close>

definition header_lines :: "string \<Rightarrow> string \<Rightarrow> string \<Rightarrow> (string \<times> string) list \<Rightarrow> nat \<Rightarrow> string list" where
  "header_lines meth host path headers body_len =
     [meth @ '' '' @ path @ '' HTTP/1.1'' @ CRLF2, ''Host: '' @ host @ CRLF2, ''Connection: keep-alive'' @ CRLF2,
      ''User-Agent: agent-vela/1.0'' @ CRLF2]
     @ (if body_len > 0 then [''Content-Length: '' @ show_nat body_len @ CRLF2] else [])
     @ map (\<lambda>(n, v). n @ '': '' @ v @ CRLF2) headers
     @ [CRLF2]"

fun append_lines :: "nat \<Rightarrow> string list \<Rightarrow> string \<Rightarrow> string option" where
  "append_lines cap [] hdr = Some hdr"
| "append_lines cap (l # ls) hdr =
     (let hdr' = hdr @ l in if length hdr' \<ge> cap then None else append_lines cap ls hdr')"

text \<open>The block of 4096 bytes for the header is taken to be there; without memory for it the request fails before anything is sent.\<close>

definition tls_write_request :: "string \<Rightarrow> string \<Rightarrow> string \<Rightarrow> (string \<times> string) list \<Rightarrow> string \<Rightarrow> string option" where
  "tls_write_request meth host path headers body =
     map_option (\<lambda>hdr. hdr @ body) (append_lines 4096 (header_lines meth host path headers (length body)) [])"

definition post_headers :: "(string \<times> string) list \<Rightarrow> (string \<times> string) list" where
  "post_headers extra = take 31 ((''Content-Type'', ''application/json'') # extra)"

lemma append_lines_Some: "append_lines cap ls hdr = Some h \<Longrightarrow> h = hdr @ concat ls"
proof (induction ls arbitrary: hdr)
  case (Cons l ls)
  then have "append_lines cap ls (hdr @ l) = Some h" by (simp add: Let_def split: if_splits)
  from Cons.IH [OF this] show ?case by simp
qed simp

lemma append_lines_fits: "length (hdr @ concat ls) < cap \<Longrightarrow> append_lines cap ls hdr = Some (hdr @ concat ls)"
  by (induction ls arbitrary: hdr) (auto simp: Let_def)

section \<open>Round trip of a chunked body\<close>

fun show_hex :: "nat \<Rightarrow> string" where
  "show_hex n = (let d = n mod 16; c = char_of (if d < 10 then 48 + d else 87 + d) in
     if n < 16 then [c] else show_hex (n div 16) @ [c])"

declare show_hex.simps [simp del]

definition chunk_text :: "string \<Rightarrow> string" where
  "chunk_text d = show_hex (length d) @ CRLF2 @ d @ CRLF2"

definition chunked_text :: "string list \<Rightarrow> string" where
  "chunked_text ds = concat (map chunk_text ds) @ ''0'' @ CRLF2 @ CRLF2"

lemma hex_nibble_char: "d < 16 \<Longrightarrow> hex_nibble (char_of (if d < 10 then 48 + d else 87 + d)) = Some d"
  by (simp add: hex_nibble_def Let_def)

definition hex_string :: "string \<Rightarrow> bool" where
  "hex_string s \<longleftrightarrow> s \<noteq> [] \<and> list_all (\<lambda>c. hex_nibble c \<noteq> None) s"

lemma show_hex_ok: "hex_string (show_hex n) \<and> hex_value (show_hex n) = int n"
proof (induction n rule: show_hex.induct)
  case (1 n)
  let ?d = "n mod 16"
  have d: "hex_nibble (char_of (if ?d < 10 then 48 + ?d else 87 + ?d)) = Some ?d" by (rule hex_nibble_char) simp
  show ?case
  proof (cases "n < 16")
    case True
    then have "show_hex n = [char_of (if ?d < 10 then 48 + ?d else 87 + ?d)]" by (subst show_hex.simps) (simp add: Let_def)
    then show ?thesis using d True by (simp only: hex_string_def hex_value_def) simp
  next
    case False
    let ?c = "char_of (if ?d < 10 then 48 + ?d else 87 + ?d)"
    have e: "show_hex n = show_hex (n div 16) @ [?c]" using False by (subst show_hex.simps) (simp add: Let_def)
    have "hex_string (show_hex (n div 16)) \<and> hex_value (show_hex (n div 16)) = int (n div 16)" using 1 False by simp
    moreover have "16 * int (n div 16) + int (n mod 16) = int n" by (simp add: zdiv_int zmod_int)
    ultimately show ?thesis using d unfolding e by (simp add: hex_string_def hex_value_def)
  qed
qed

lemma hex_nibble_plain:
  assumes "hex_nibble c \<noteq> None"
  shows "\<not> c_isspace c" "c \<noteq> CHR ''-''" "c \<noteq> CHR ''+''" "c \<noteq> CHR 0x0D" "c \<noteq> CHR 0x00" "c \<noteq> CHR ''x''" "c \<noteq> CHR ''X''"
  using assms by (auto simp: hex_nibble_def Let_def c_isspace_def split: if_splits)

lemma strtol16_hex:
  assumes "hex_string h" "hex_value h < 2 ^ 31" "0 \<le> hex_value h" "hex_nibble c = None" "c \<noteq> CHR ''x''" "c \<noteq> CHR ''X''"
  shows "strtol16 (h @ c # r) = (hex_value h, length h)"
proof -
  obtain a u where h: "h = a # u" using assms(1) by (cases h) (auto simp: hex_string_def)
  have all: "\<forall>x\<in>set h. hex_nibble x \<noteq> None" using assms(1) by (simp add: hex_string_def list_all_iff)
  define p where p: "p = h @ c # r"
  have q: "dropWhile c_isspace p = p" and hd: "p \<noteq> []" "hd p \<noteq> CHR ''-''" "hd p \<noteq> CHR ''+''"
    using hex_nibble_plain(1-3) [of a] all h by (simp_all add: p)
  have x: "take 2 p \<notin> {''0x'', ''0X''}"
  proof (cases u)
    case Nil
    then show ?thesis using assms(5,6) h by (simp add: p)
  next
    case (Cons b w)
    then have "b \<noteq> CHR ''x'' \<and> b \<noteq> CHR ''X''" using hex_nibble_plain(6,7) [of b] all h by simp
    then show ?thesis using h Cons by (simp add: p)
  qed
  have ds: "takeWhile (\<lambda>x. hex_nibble x \<noteq> None) p = h"
    unfolding p using all assms(4) by (subst takeWhile_append2) auto
  have l: "length p - length (drop (length h) p) = length h" "h \<noteq> []" by (simp_all add: p h)
  have c: "clamp_long (hex_value h) = hex_value h" using assms(2,3) by (simp add: clamp_long_def)
  show ?thesis unfolding p [symmetric] strtol16_def q Let_def using hd x by (simp only: ds l c if_False simp_thms)
qed

lemma chunk_at_text:
  assumes "d \<noteq> []" "int (length d) < 2 ^ 31"
  shows "chunk_at (chunk_text d @ rest) = Some (d, rest)"
proof -
  let ?h = "show_hex (length d)" and ?src = "chunk_text d @ rest"
  note h = show_hex_ok [of "length d"]
  have all: "\<forall>x\<in>set ?h. hex_nibble x \<noteq> None" using h by (simp add: hex_string_def list_all_iff)
  have src: "?src = ?h @ CHR 0x0D # CHR 0x0A # d @ CRLF2 @ rest" by (simp add: chunk_text_def CRLF2_def)
  have cr: "strstr ?src CRLF2 = Some (length ?h)"
  proof -
    have "CHR 0x0D \<notin> set ?h" using all hex_nibble_plain(4) by blast
    then have "strstr (?h @ CRLF2 @ d @ CRLF2 @ rest) CRLF2 = map_option (\<lambda>k. k + length ?h) (strstr (CRLF2 @ d @ CRLF2 @ rest) CRLF2)"
      using strstr_skip [of CRLF2 ?h] by (simp add: CRLF2_def)
    then show ?thesis unfolding src by (simp add: CRLF2_def)
  qed
  have "cstr ?src = ?h @ CHR 0x0D # takeWhile (\<lambda>c. c \<noteq> CHR 0x00) (CHR 0x0A # d @ CRLF2 @ rest)"
  proof -
    have "CHR 0x00 \<notin> set ?h" using all hex_nibble_plain(5) by blast
    then have "\<And>x. x \<in> set ?h \<Longrightarrow> x \<noteq> CHR 0x00" by blast
    then show ?thesis unfolding src cstr_def by (subst takeWhile_append2) simp_all
  qed
  moreover have "hex_nibble (CHR 0x0D) = None" by (simp add: hex_nibble_def)
  ultimately have num: "strtol16 (cstr ?src) = (int (length d), length ?h)"
    using strtol16_hex [of ?h "CHR 0x0D"] h assms(2) by simp
  have "drop (length ?h + 2) ?src = d @ CRLF2 @ rest" unfolding src by simp
  then show ?thesis
    unfolding chunk_at_def cr option.case num Let_def prod.case using assms(1) src by (simp add: CRLF2_def)
qed

lemma decode_chunked_text:
  assumes "list_all (\<lambda>d. d \<noteq> [] \<and> int (length d) < 2 ^ 31) ds"
  shows "decode_chunked (chunked_text ds) = concat ds"
  using assms
proof (induction ds)
  case Nil
  have "chunk_at (chunked_text []) = None"
    by code_simp
  then show ?case by (subst decode_chunked.simps) simp
next
  case (Cons d ds)
  have "chunked_text (d # ds) = chunk_text d @ chunked_text ds" by (simp add: chunked_text_def)
  then have "chunk_at (chunked_text (d # ds)) = Some (d, chunked_text ds)" using chunk_at_text Cons.prems by simp
  then show ?case using Cons by (subst decode_chunked.simps) simp
qed

section \<open>Reading the response of a server\<close>

lemma strstr_append_Some: "strstr a n = Some k \<Longrightarrow> strstr (a @ b) n = Some k"
proof (induction a n arbitrary: k rule: strstr.induct)
  case (1 needle)
  then show ?case by (cases b) (auto split: if_splits)
next
  case (2 c cs needle)
  show ?case
  proof (cases "take (length needle) (c # cs) = needle")
    case True
    then have "length needle \<le> length (c # cs)" by (metis length_take min.cobounded1)
    then have "take (length needle) (c # cs @ b) = take (length needle) (c # cs)" by (cases needle) simp_all
    with True 2(2) show ?thesis by simp
  next
    case False
    with 2(2) obtain m where m: "k = Suc m" "strstr cs needle = Some m" by auto
    have "take (length needle) (c # cs @ b) \<noteq> needle"
    proof
      assume t: "take (length needle) (c # cs @ b) = needle"
      have "m + length needle \<le> length cs" using strstr_Some [OF m(2)] by simp
      then have "take (length needle) (c # cs @ b) = take (length needle) (c # cs)" by (cases needle) simp_all
      with t False show False by simp
    qed
    then show ?thesis using m 2(1) [OF False m(2)] by simp
  qed
qed

text \<open>The header of a response ends with its first blank line.\<close>

definition header_ends :: "string \<Rightarrow> bool" where
  "header_ends h \<longleftrightarrow> length h < TLS_RAW_BUF_SIZE \<and> 4 \<le> length h \<and> strstr h BLANK_LINE = Some (length h - 4)"

lemma blank_line_after_header:
  assumes "header_ends h" "raw @ r = h @ body" "strstr raw BLANK_LINE = Some k"
  shows "length h \<le> length raw"
proof -
  have "strstr (h @ body) BLANK_LINE = Some k" using strstr_append_Some [OF assms(3), of r] assms(2) by simp
  moreover have "strstr (h @ body) BLANK_LINE = Some (length h - 4)" using assms(1) by (intro strstr_append_Some) (simp add: header_ends_def)
  ultimately have "k = length h - 4" by simp
  moreover have "length BLANK_LINE = 4" by (simp add: BLANK_LINE_def CRLF2_def)
  ultimately have "length h - 4 + 4 \<le> length raw" using strstr_Some [OF assms(3)] by metis
  then show ?thesis using assms(1) by (simp add: header_ends_def)
qed

lemma header_inside: "header_ends h \<Longrightarrow> raw @ r = h @ body \<Longrightarrow> length h \<le> length raw \<Longrightarrow> \<exists>x. raw = h @ x \<and> x @ r = body"
  by (auto simp: append_eq_append_conv2)

lemma header_inside_blank: "header_ends h \<Longrightarrow> strstr (h @ x) BLANK_LINE = Some (length h - 4)"
  by (rule strstr_append_Some) (simp add: header_ends_def)

lemma read_header_arrives:
  assumes "header_ends h" "list_all (\<lambda>d. d \<noteq> []) ds" "raw @ concat ds = h @ body" "strstr raw BLANK_LINE = None"
  shows "\<exists>x ds'. read_header raw (map Arrive ds @ es) = Some (Some (h @ x, False, map Arrive ds' @ es))
    \<and> x @ concat ds' = body \<and> list_all (\<lambda>d. d \<noteq> []) ds'"
  using assms(2-4)
proof (induction ds arbitrary: raw)
  case Nil
  then have "raw = h @ body" by simp
  then show ?case using header_inside_blank [OF assms(1)] Nil by simp
next
  case (Cons d ds)
  let ?k = "TLS_RAW_BUF_SIZE - 1 - length raw" and ?raw = "raw @ take (TLS_RAW_BUF_SIZE - 1 - length raw) d"
  let ?ds = "if length d > ?k then drop ?k d # ds else ds"
  have short: "length raw < TLS_RAW_BUF_SIZE - 1"
  proof (rule ccontr)
    assume "\<not> length raw < TLS_RAW_BUF_SIZE - 1"
    moreover have "length h < TLS_RAW_BUF_SIZE" using assms(1) by (simp add: header_ends_def)
    ultimately have "length h \<le> length raw" by linarith
    then obtain x where "raw = h @ x" using header_inside [OF assms(1) Cons.prems(2)] by blast
    then show False using header_inside_blank [OF assms(1)] Cons.prems(3) by simp
  qed
  have "?raw @ concat ?ds = raw @ (take ?k d @ drop ?k d) @ concat ds" by simp
  then have cat: "?raw @ concat ?ds = h @ body" unfolding append_take_drop_id using Cons.prems(2) by simp
  have ne: "list_all (\<lambda>d. d \<noteq> []) ?ds" using Cons.prems(1) by simp
  show ?case
  proof (cases "strstr ?raw BLANK_LINE \<noteq> None \<or> length d > ?k")
    case True
    have "length h \<le> length ?raw"
    proof (cases "strstr ?raw BLANK_LINE")
      case None
      then have "length ?raw = TLS_RAW_BUF_SIZE - 1" using True short by simp
      moreover have "length h < TLS_RAW_BUF_SIZE" using assms(1) by (simp add: header_ends_def)
      ultimately show ?thesis by linarith
    qed (use blank_line_after_header [OF assms(1) cat] in blast)
    then obtain x where x: "?raw = h @ x" "x @ concat ?ds = body" using header_inside [OF assms(1) cat] by blast
    have "read_header raw (map Arrive (d # ds) @ es) = Some (Some (?raw, False, map Arrive ?ds @ es))"
      using True short by (auto simp: Let_def)
    then show ?thesis unfolding x(1) using x(2) ne by blast
  next
    case False
    then have e: "?raw = raw @ d" "?ds = ds" by simp_all
    have "read_header raw (map Arrive (d # ds) @ es) = read_header (raw @ d) (map Arrive ds @ es)"
      using False short unfolding e(1) by (simp add: Let_def)
    then show ?thesis using Cons.IH [of "raw @ d"] cat ne False unfolding e by (metis (no_types))
  qed
qed

lemma read_header_more:
  assumes "read_header raw es = Some (Some (r, e, es'))" shows "read_header raw (es @ fs) = Some (Some (r, e, es' @ fs))"
  using assms
proof (induction raw es rule: read_header.induct)
  case (1 raw)
  then show ?case by (cases fs) (auto split: if_splits)
next
  case (2 raw a es)
  then show ?case by (cases a) (auto simp: Let_def split: if_splits)
qed

lemma read_body_length:
  assumes "list_all (\<lambda>d. d \<noteq> []) ds" "length (buf @ concat ds) < cap"
  shows "read_body cap (int (length (buf @ concat ds))) buf (map Arrive ds @ es) = Some (buf @ concat ds, es)"
  using assms
proof (induction ds arbitrary: buf)
  case Nil
  then show ?case by (cases es) simp_all
next
  case (Cons d ds)
  have "0 < length d" using Cons.prems(1) by simp
  then have "\<not> (length buf \<ge> cap - 1 \<or> int (length buf) \<ge> int (length (buf @ concat (d # ds))))" "\<not> length d > cap - 1 - length buf"
    using Cons.prems(2) by (simp_all del: length_greater_0_conv)
  then have "read_body cap (int (length (buf @ concat (d # ds)))) buf (map Arrive (d # ds) @ es)
      = read_body cap (int (length ((buf @ d) @ concat ds))) (buf @ d) (map Arrive ds @ es)" by (simp add: Let_def add_ac)
  then show ?case using Cons.IH [of "buf @ d"] Cons.prems by simp
qed

text \<open>Without a length the reader goes on until the connection fails or ends.\<close>

lemma read_body_open:
  assumes "length (buf @ concat ds) < cap - 1"
  shows "read_body cap (- 1) buf (map Arrive ds) = None"
    "e \<in> {Fail, Shut} \<Longrightarrow> read_body cap (- 1) buf (map Arrive ds @ e # es) = Some (buf @ concat ds, es)"
proof -
  have "read_body cap (- 1) buf (map Arrive ds) = None
    \<and> (e \<in> {Fail, Shut} \<longrightarrow> read_body cap (- 1) buf (map Arrive ds @ e # es) = Some (buf @ concat ds, es))"
    using assms
  proof (induction ds arbitrary: buf)
    case (Cons d ds)
    then have "\<not> length d > cap - 1 - length buf" "\<not> length buf \<ge> cap - 1" by auto
    then show ?case using Cons.IH [of "buf @ d"] Cons.prems by (simp add: Let_def)
  qed auto
  then show "read_body cap (- 1) buf (map Arrive ds) = None"
    "e \<in> {Fail, Shut} \<Longrightarrow> read_body cap (- 1) buf (map Arrive ds @ e # es) = Some (buf @ concat ds, es)" by auto
qed

text \<open>What the header says, whatever of the body has arrived with it.\<close>

definition header_says :: "string \<Rightarrow> int \<Rightarrow> int \<Rightarrow> bool \<Rightarrow> bool \<Rightarrow> bool" where
  "header_says h code cl chunked keep \<longleftrightarrow> header_ends h \<and> CHR 0x00 \<notin> set h
     \<and> (\<forall>x. http_status (h @ x) = Some code \<and> http_content_length (h @ x) (length h) = cl
          \<and> http_chunked (h @ x) (length h) = chunked \<and> http_keep_alive (h @ x) (length h - 4) = keep)"

lemma cstr_id: "CHR 0x00 \<notin> set s \<Longrightarrow> cstr s = s"
  unfolding cstr_def takeWhile_eq_all_conv by blast

lemma read_response_general:
  assumes "header_says h code cl chunked keep" "list_all (\<lambda>d. d \<noteq> []) ds" "concat ds = h @ body" "CHR 0x00 \<notin> set body"
  obtains x ds' where "x @ concat ds' = body" "list_all (\<lambda>d. d \<noteq> []) ds'"
    "\<And>es. tls_read_response cap (map Arrive ds @ es) =
      (case read_body cap cl (take (cap - 1) x) (map Arrive ds' @ es) of
         None \<Rightarrow> None
       | Some (b, es') \<Rightarrow> Some (\<lparr>hr_status = code, hr_body = finish_body chunked b, hr_keep = keep\<rparr>, es'))"
proof -
  have he: "header_ends h" using assms(1) by (simp add: header_says_def)
  have b0: "strstr [] BLANK_LINE = None" by (simp add: BLANK_LINE_def CRLF2_def)
  have "\<forall>es. \<exists>x ds'. read_header [] (map Arrive ds @ es) = Some (Some (h @ x, False, map Arrive ds' @ es))
    \<and> x @ concat ds' = body \<and> list_all (\<lambda>d. d \<noteq> []) ds'"
    using read_header_arrives [OF he assms(2) _ b0] assms(3) by simp
  then obtain x ds' where x: "read_header [] (map Arrive ds) = Some (Some (h @ x, False, map Arrive ds'))"
    "x @ concat ds' = body" "list_all (\<lambda>d. d \<noteq> []) ds'" by (metis append_Nil2)
  have rh: "read_header [] (map Arrive ds @ es) = Some (Some (h @ x, False, map Arrive ds' @ es))" for es
    using read_header_more [OF x(1)] by simp
  have c: "cstr (h @ x) = h @ x" using assms(1,4) x(2) by (intro cstr_id) (auto simp: header_says_def)
  have bl: "strstr (h @ x) BLANK_LINE = Some (length h - 4)" by (rule header_inside_blank [OF he])
  have l: "length h - 4 + 4 = length h" using he by (simp add: header_ends_def)
  have st: "http_status (h @ x) = Some code" "http_content_length (h @ x) (length h) = cl"
    "http_chunked (h @ x) (length h) = chunked" "http_keep_alive (h @ x) (length h - 4) = keep"
    using assms(1) by (simp_all add: header_says_def)
  show ?thesis
  proof (rule that [OF x(2,3)])
    fix es
    show "tls_read_response cap (map Arrive ds @ es) =
      (case read_body cap cl (take (cap - 1) x) (map Arrive ds' @ es) of
         None \<Rightarrow> None
       | Some (b, es') \<Rightarrow> Some (\<lparr>hr_status = code, hr_body = finish_body chunked b, hr_keep = keep\<rparr>, es'))"
      unfolding tls_read_response_def rh option.case prod.case c bl Let_def l st by simp
  qed
qed

lemma read_response_steps:
  assumes "header_says h code cl chunked keep" "list_all (\<lambda>d. d \<noteq> []) ds" "concat ds = h @ body" "CHR 0x00 \<notin> set body"
    "length body < cap"
  obtains x ds' where "x @ concat ds' = body" "list_all (\<lambda>d. d \<noteq> []) ds'"
    "\<And>es. tls_read_response cap (map Arrive ds @ es) =
      (case read_body cap cl x (map Arrive ds' @ es) of
         None \<Rightarrow> None
       | Some (b, es') \<Rightarrow> Some (\<lparr>hr_status = code, hr_body = finish_body chunked b, hr_keep = keep\<rparr>, es'))"
proof -
  obtain x ds' where x: "x @ concat ds' = body" "list_all (\<lambda>d. d \<noteq> []) ds'"
    "\<And>es. tls_read_response cap (map Arrive ds @ es) =
      (case read_body cap cl (take (cap - 1) x) (map Arrive ds' @ es) of
         None \<Rightarrow> None
       | Some (b, es') \<Rightarrow> Some (\<lparr>hr_status = code, hr_body = finish_body chunked b, hr_keep = keep\<rparr>, es'))"
    using read_response_general [OF assms(1-4), where cap = cap] by metis
  have "take (cap - 1) x = x" using x(1) assms(5) by auto
  then show ?thesis using that [OF x(1,2)] x(3) by simp
qed

text \<open>A body that does not fit the caller's buffer is cut without a trace.\<close>

lemma read_body_cut:
  assumes "cap - 1 \<le> length (buf @ concat ds)" "length buf \<le> cap - 1" "int (cap - 1) \<le> cl"
  shows "\<exists>es'. read_body cap cl buf (map Arrive ds @ es) = Some (take (cap - 1) (buf @ concat ds), es')"
  using assms(1,2)
proof (induction ds arbitrary: buf)
  case Nil
  then show ?case by (cases es) auto
next
  case (Cons d ds)
  show ?case
  proof (cases "length buf \<ge> cap - 1")
    case True
    then have "take (cap - 1) (buf @ concat (d # ds)) = buf" using Cons.prems(2) by simp
    then show ?thesis using True by simp
  next
    case False
    then have short: "\<not> (length buf \<ge> cap - 1 \<or> cl \<ge> 0 \<and> int (length buf) \<ge> cl)" using assms(3) by linarith
    show ?thesis
    proof (cases "length d > cap - 1 - length buf")
      case True
      then have "read_body cap cl buf (map Arrive (d # ds) @ es)
          = Some (buf @ take (cap - 1 - length buf) d, Arrive (drop (cap - 1 - length buf) d) # map Arrive ds @ es)"
        using short by (auto simp: Let_def)
      then show ?thesis using True False by simp
    next
      case d: False
      then have "read_body cap cl buf (map Arrive (d # ds) @ es) = read_body cap cl (buf @ d) (map Arrive ds @ es)"
        using short by (auto simp: Let_def)
      then show ?thesis using Cons.IH [of "buf @ d"] Cons.prems d False by simp
    qed
  qed
qed

lemma response_cut:
  assumes "header_says h code (int (length body)) False keep" "list_all (\<lambda>d. d \<noteq> []) ds" "concat ds = h @ body"
    "CHR 0x00 \<notin> set body" "cap \<le> length body + 1"
  shows "\<exists>es'. tls_read_response cap (map Arrive ds @ es) = Some (\<lparr>hr_status = code, hr_body = take (cap - 1) body, hr_keep = keep\<rparr>, es')"
proof -
  obtain x ds' where x: "x @ concat ds' = body"
    "\<And>es. tls_read_response cap (map Arrive ds @ es) =
      (case read_body cap (int (length body)) (take (cap - 1) x) (map Arrive ds' @ es) of
         None \<Rightarrow> None
       | Some (b, es') \<Rightarrow> Some (\<lparr>hr_status = code, hr_body = finish_body False b, hr_keep = keep\<rparr>, es'))"
    using read_response_general [OF assms(1-4), where cap = cap] by metis
  have "length (x @ concat ds') = length body" using x(1) by simp
  then have "cap - 1 \<le> length (take (cap - 1) x @ concat ds')" using assms(5) by simp
  moreover have small: "int (cap - 1) \<le> int (length body)" using assms(5) by linarith
  ultimately obtain es' where "read_body cap (int (length body)) (take (cap - 1) x) (map Arrive ds' @ es)
      = Some (take (cap - 1) (take (cap - 1) x @ concat ds'), es')"
    using read_body_cut [of cap "take (cap - 1) x" ds' "int (length body)" es] small by auto
  moreover have "take (cap - 1) (take (cap - 1) x @ concat ds') = take (cap - 1) body"
    unfolding x(1) [symmetric] by (simp add: min_def)
  ultimately show ?thesis using x(2) [of es] by (simp add: finish_body_def)
qed

text \<open>
  A response with a length is received as it was sent: however the network cuts header and body
  into pieces, the reader returns the status of the header and exactly the body, as soon as its last
  byte is there, and leaves what follows on the connection unread. The header must fit the raw
  buffer of 8191 bytes and the body the caller's buffer.
\<close>

lemma response_read:
  assumes "header_says h code (int (length body)) False keep" "list_all (\<lambda>d. d \<noteq> []) ds" "concat ds = h @ body"
    "CHR 0x00 \<notin> set body" "length body < cap"
  shows "tls_read_response cap (map Arrive ds @ es) = Some (\<lparr>hr_status = code, hr_body = body, hr_keep = keep\<rparr>, es)"
proof -
  obtain x ds' where x: "x @ concat ds' = body" "list_all (\<lambda>d. d \<noteq> []) ds'"
    "tls_read_response cap (map Arrive ds @ es) =
      (case read_body cap (int (length body)) x (map Arrive ds' @ es) of
         None \<Rightarrow> None
       | Some (b, es') \<Rightarrow> Some (\<lparr>hr_status = code, hr_body = finish_body False b, hr_keep = keep\<rparr>, es'))"
    using read_response_steps [OF assms] by metis
  then show ?thesis using read_body_length [OF x(2), of x cap es] assms(5) by (simp add: finish_body_def)
qed

text \<open>
  A chunked response is not recognised as complete: when all of it has arrived, down to the last
  chunk, and the server keeps the connection open as the request asks it to, the reader still waits
  for more. Only when the connection fails (the socket's time-out of 120 seconds, twice the limit
  after which the agent gives up the call) or is closed does it return the decoded body.
\<close>

theorem chunked_response_waits:
  assumes "header_says h code (- 1) True keep" "list_all (\<lambda>d. d \<noteq> []) ds" "concat ds = h @ chunked_text cs"
    "list_all (\<lambda>d. d \<noteq> [] \<and> int (length d) < 2 ^ 31 \<and> CHR 0x00 \<notin> set d) cs" "length (chunked_text cs) < cap - 1"
  shows "tls_read_response cap (map Arrive ds) = None
    \<and> tls_read_response cap (map Arrive ds @ [Fail]) = Some (\<lparr>hr_status = code, hr_body = concat cs, hr_keep = keep\<rparr>, [])
    \<and> tls_read_response cap (map Arrive ds @ [Shut]) = Some (\<lparr>hr_status = code, hr_body = concat cs, hr_keep = keep\<rparr>, [])"
proof -
  have nul: "CHR 0x00 \<notin> set (chunked_text cs)"
  proof -
    have "CHR 0x00 \<notin> set (show_hex n)" for n
      using show_hex_ok [of n] hex_nibble_plain(5) [of "CHR 0x00"] unfolding hex_string_def list_all_iff by blast
    then show ?thesis using assms(4) by (auto simp: chunked_text_def chunk_text_def CRLF2_def list_all_iff)
  qed
  have dec: "decode_chunked (chunked_text cs) = concat cs"
    using assms(4) by (intro decode_chunked_text) (auto simp: list_all_iff)
  have "length (chunked_text cs) < cap" using assms(5) by simp
  from read_response_steps [OF assms(1-3) nul this] obtain x ds' where x: "x @ concat ds' = chunked_text cs"
    and r: "\<And>es. tls_read_response cap (map Arrive ds @ es) =
      (case read_body cap (- 1) x (map Arrive ds' @ es) of
         None \<Rightarrow> None
       | Some (b, es') \<Rightarrow> Some (\<lparr>hr_status = code, hr_body = finish_body True b, hr_keep = keep\<rparr>, es'))" by metis
  have l: "length (x @ concat ds') < cap - 1" using x assms(5) by simp
  note b = read_body_open(1) [OF l] read_body_open(2) [OF l, of Fail "[]"] read_body_open(2) [OF l, of Shut "[]"]
  show ?thesis using r [of "[]"] r [of "[Fail]"] r [of "[Shut]"] b x dec by (simp add: finish_body_def)
qed

section \<open>Concrete headers\<close>

definition plain_header :: "string \<Rightarrow> string" where
  "plain_header len = ''HTTP/1.1 200 OK'' @ CRLF2 @ ''Content-Length: '' @ len @ BLANK_LINE"

definition chunked_header :: string where
  "chunked_header = ''HTTP/1.1 200 OK'' @ CRLF2 @ ''Transfer-Encoding: chunked'' @ BLANK_LINE"

lemma strstr_beyond:
  assumes "strstr h n = None" "h = [] \<or> last h \<notin> set n"
  shows "strstr (h @ x) n = map_option (\<lambda>k. k + length h) (strstr x n)"
  using assms
proof (induction h)
  case Nil
  then show ?case by (simp add: option.map_ident)
next
  case (Cons c h)
  have "take (length n) (c # h @ x) \<noteq> n"
  proof
    assume t: "take (length n) (c # h @ x) = n"
    show False
    proof (cases "length n \<le> length (c # h)")
      case True
      then have "take (length n) (c # h @ x) = take (length n) (c # h)" by (cases n) simp_all
      then show ?thesis using Cons.prems(1) t by (auto split: if_splits)
    next
      case False
      then have "set (c # h) \<subseteq> set (take (length n) (c # h @ x))" by (cases n) auto
      moreover have "last (c # h) \<in> set (c # h)" by (rule last_in_set) simp
      ultimately show ?thesis using Cons.prems(2) unfolding t by blast
    qed
  qed
  moreover have "strstr h n = None" using Cons.prems(1) by (simp split: if_splits)
  moreover have "h = [] \<or> last h \<notin> set n" using Cons.prems(2) by auto
  ultimately show ?case using Cons.IH by (simp add: option.map_comp comp_def)
qed

lemma header_at_later:
  assumes "strstr (map to_lower h) (map to_lower name) = None" "last (map to_lower h) \<notin> set (map to_lower name)" "bs \<le> length h"
  shows "header_at (h @ x) name bs = None"
  using strstr_beyond [of "map to_lower h" "map to_lower name" "map to_lower x"] assms
  by (auto simp: header_at_def strcasestr_in_def split: option.split)

lemma header_at_here:
  assumes "strstr (map to_lower h) (map to_lower name) = Some k" "k < bs"
  shows "header_at (h @ x) name bs = Some k"
  using strstr_append_Some [OF assms(1), of "map to_lower x"] assms(2) by (simp add: header_at_def strcasestr_in_def)

lemma plain_header_says:
  assumes d: "(len, n) \<in> {(''5'', 5), (''9000'', 9000)}"
  shows "header_says (plain_header len) 200 n False True"
proof -
  let ?h = "plain_header len"
  have l: "length ?h = 37 + length len" by (simp add: plain_header_def CRLF2_def BLANK_LINE_def)
  have "header_ends ?h"
    unfolding header_ends_def l using d by (auto simp: plain_header_def CRLF2_def BLANK_LINE_def c_consts)
  moreover have "CHR 0x00 \<notin> set ?h" using d by (auto simp: plain_header_def CRLF2_def BLANK_LINE_def)
  moreover have "http_status (?h @ x) = Some 200" for x
    by (simp add: plain_header_def CRLF2_def http_status_def strtol_def c_isspace_def c_isdigit_def digits_value_def clamp_long_def)
  moreover have "http_content_length (?h @ x) (length ?h) = n" for x
  proof -
    have "strstr (map to_lower ?h) (map to_lower ''Content-Length:'') = Some 17" using d by (elim insertE; simp; code_simp)
    then have "header_at (?h @ x) ''Content-Length:'' (length ?h) = Some 17" by (rule header_at_here) (simp add: l)
    moreover have "drop (17 + 15) (?h @ x) = '' '' @ len @ BLANK_LINE @ x" by (simp add: plain_header_def CRLF2_def)
    ultimately show ?thesis using d
      by (auto simp: http_content_length_def c_atoi_def strtol_def c_isspace_def c_isdigit_def digits_value_def clamp_long_def BLANK_LINE_def CRLF2_def)
  qed
  moreover have "header_at (?h @ x) ''Transfer-Encoding:'' (length ?h) = None" for x
    using d by (elim insertE; simp; intro header_at_later; code_simp)
  moreover have "header_at (?h @ x) ''Connection:'' (length ?h - 4) = None" for x
    using d by (elim insertE; simp; intro header_at_later; code_simp)
  ultimately show ?thesis by (simp add: header_says_def http_chunked_def http_keep_alive_def)
qed

lemma chunked_header_says: "header_says chunked_header 200 (- 1) True True"
proof -
  have l: "length chunked_header = 47" by (simp add: chunked_header_def CRLF2_def BLANK_LINE_def)
  have "header_ends chunked_header"
    unfolding header_ends_def l by (simp add: chunked_header_def CRLF2_def BLANK_LINE_def c_consts)
  moreover have "CHR 0x00 \<notin> set chunked_header" by (simp add: chunked_header_def CRLF2_def BLANK_LINE_def)
  moreover have "http_status (chunked_header @ x) = Some 200" for x
    by (simp add: chunked_header_def CRLF2_def http_status_def strtol_def c_isspace_def c_isdigit_def digits_value_def clamp_long_def)
  moreover have "http_chunked (chunked_header @ x) (length chunked_header) = True" for x
  proof -
    have "header_at (chunked_header @ x) ''Transfer-Encoding:'' (length chunked_header) = Some 17"
      by (rule header_at_here) (simp_all add: l, code_simp)
    moreover have "strcasestr_in (drop 17 chunked_header @ x) ''chunked'' = Some 19"
      unfolding strcasestr_in_def map_append by (rule strstr_append_Some) code_simp
    ultimately show ?thesis by (simp add: http_chunked_def l)
  qed
  moreover have "header_at (chunked_header @ x) ''Content-Length:'' (length chunked_header) = None" for x
    by (rule header_at_later; code_simp)
  moreover have "header_at (chunked_header @ x) ''Connection:'' (length chunked_header - 4) = None" for x
    by (rule header_at_later; code_simp)
  ultimately show ?thesis by (simp add: header_says_def http_content_length_def http_keep_alive_def)
qed

text \<open>Headers with any other lines: the search for a name does not run over the end of a line.\<close>

lemma strstr_sep:
  assumes "sep \<notin> set n" "n \<noteq> []" "strstr a n = None"
  shows "strstr (a @ sep # b) n = map_option (\<lambda>k. k + length a + 1) (strstr b n)"
proof -
  have "strstr (a @ [sep]) n = None"
    using assms(3)
  proof (induction a)
    case Nil
    have "take (length n) [sep] \<noteq> n" using assms(1,2) by (cases n) auto
    then show ?case using assms(2) by simp
  next
    case (Cons c a)
    then have t: "take (length n) (c # a) \<noteq> n" "strstr a n = None" by (auto split: if_splits)
    have "take (length n) (c # a @ [sep]) \<noteq> n"
    proof
      assume e: "take (length n) (c # a @ [sep]) = n"
      show False
      proof (cases "length n \<le> length (c # a)")
        case True
        then show ?thesis using e t(1) by (cases n) simp_all
      next
        case False
        then have "take (length n) (c # a @ [sep]) = c # a @ [sep]" by simp
        then show ?thesis using e assms(1) by (metis append_Cons in_set_conv_decomp)
      qed
    qed
    then show ?case using Cons.IH [OF t(2)] by simp
  qed
  moreover have "last (a @ [sep]) \<notin> set n" using assms(1) by simp
  ultimately have "strstr ((a @ [sep]) @ b) n = map_option (\<lambda>k. k + length (a @ [sep])) (strstr b n)" by (intro strstr_beyond) auto
  then show ?thesis by (simp add: comp_def)
qed

definition reply_header :: "string list \<Rightarrow> nat \<Rightarrow> string" where
  "reply_header others n = concat (map (\<lambda>l. l @ CRLF2) (''HTTP/1.1 200 OK'' # others @ [''Content-Length: '' @ show_nat n])) @ CRLF2"

definition other_line :: "string \<Rightarrow> bool" where
  "other_line l \<longleftrightarrow> l \<noteq> [] \<and> list_all (\<lambda>c. c \<noteq> CHR 0x0D \<and> c \<noteq> CHR 0x0A \<and> c \<noteq> CHR 0x00) l
     \<and> list_all (\<lambda>name. strstr (map to_lower l) name = None) [''content-length:'', ''transfer-encoding:'', ''connection:'']"

text \<open>The first blank line after a list of lines.\<close>

lemma blank_skip:
  assumes "CHR 0x0D \<notin> set l" "r = [] \<or> hd r \<noteq> CHR 0x0D"
  shows "strstr (l @ CRLF2 @ r) BLANK_LINE = map_option (\<lambda>k. k + length l + 2) (strstr r BLANK_LINE)"
  using assms(1)
proof (induction l)
  case Nil
  have "take 4 (CRLF2 @ r) \<noteq> BLANK_LINE" using assms(2) by (cases r) (auto simp: CRLF2_def BLANK_LINE_def)
  moreover have "take 4 (tl CRLF2 @ r) \<noteq> BLANK_LINE" by (auto simp: CRLF2_def BLANK_LINE_def)
  ultimately show ?case by (simp add: CRLF2_def BLANK_LINE_def option.map_comp comp_def numeral_2_eq_2)
next
  case (Cons c l)
  then have "take (length BLANK_LINE) (c # l @ CRLF2 @ r) \<noteq> BLANK_LINE" by (auto simp: CRLF2_def BLANK_LINE_def)
  then show ?case using Cons by (simp add: option.map_comp comp_def)
qed

lemma blank_end:
  assumes "CHR 0x0D \<notin> set l"
  shows "strstr (l @ CRLF2 @ CRLF2) BLANK_LINE = Some (length l)"
  using assms
proof (induction l)
  case (Cons c l)
  then have "take (length BLANK_LINE) (c # l @ CRLF2 @ CRLF2) \<noteq> BLANK_LINE" by (auto simp: CRLF2_def BLANK_LINE_def)
  then show ?case using Cons by simp
qed (simp add: CRLF2_def BLANK_LINE_def)

lemma blank_lines_end:
  assumes "list_all (\<lambda>l. l \<noteq> [] \<and> CHR 0x0D \<notin> set l) ls" "ls \<noteq> []"
  shows "strstr (concat (map (\<lambda>l. l @ CRLF2) ls) @ CRLF2) BLANK_LINE = Some (length (concat (map (\<lambda>l. l @ CRLF2) ls)) - 2)"
  using assms
proof (induction ls)
  case (Cons l ls)
  have l: "CHR 0x0D \<notin> set l" using Cons.prems(1) by simp
  show ?case
  proof (cases ls)
    case Nil
    then show ?thesis using blank_end [OF l] by (simp add: CRLF2_def)
  next
    case (Cons m ms)
    let ?r = "concat (map (\<lambda>l. l @ CRLF2) ls) @ CRLF2"
    have "m \<noteq> []" "CHR 0x0D \<notin> set m" using Cons.prems(1) Cons by simp_all
    then have "hd ?r \<noteq> CHR 0x0D" using Cons by (cases m) auto
    then have "strstr (l @ CRLF2 @ ?r) BLANK_LINE = map_option (\<lambda>k. k + length l + 2) (strstr ?r BLANK_LINE)" by (intro blank_skip l) simp
    moreover have "2 \<le> length (concat (map (\<lambda>l. l @ CRLF2) ls))" using Cons by (simp add: CRLF2_def)
    ultimately show ?thesis using Cons.IH Cons.prems(1) Cons by (simp add: CRLF2_def)
  qed
qed simp

text \<open>A name that no line has is not found in the lines, and the search goes on behind them.\<close>

lemma name_beyond_lines:
  assumes "list_all (\<lambda>l. strstr (map to_lower l) n = None) ls" "n \<noteq> []" "CHR 0x0D \<notin> set n" "CHR 0x0A \<notin> set n"
  shows "strstr (map to_lower (concat (map (\<lambda>l. l @ CRLF2) ls)) @ y) n
    = map_option (\<lambda>k. k + length (concat (map (\<lambda>l. l @ CRLF2) ls))) (strstr y n)"
  using assms(1)
proof (induction ls)
  case Nil
  then show ?case by (simp add: option.map_ident)
next
  case (Cons l ls)
  let ?r = "map to_lower (concat (map (\<lambda>l. l @ CRLF2) ls)) @ y"
  have low: "map to_lower CRLF2 = CRLF2" by (simp add: CRLF2_def to_lower_def)
  have nl: "strstr (CHR 0x0A # ?r) n = map_option Suc (strstr ?r n)"
    using strstr_sep [of "CHR 0x0A" n "[]" ?r] assms(2,4) by (cases n) auto
  have "strstr (map to_lower l @ CHR 0x0D # CHR 0x0A # ?r) n = map_option (\<lambda>k. k + length l + 1) (strstr (CHR 0x0A # ?r) n)"
    using strstr_sep [OF assms(3,2), of "map to_lower l"] Cons.prems by simp
  moreover have "map to_lower (concat (map (\<lambda>l. l @ CRLF2) (l # ls))) @ y = map to_lower l @ CHR 0x0D # CHR 0x0A # ?r"
    using low by (simp add: CRLF2_def)
  ultimately show ?case using Cons nl by (simp add: option.map_comp comp_def CRLF2_def ac_simps)
qed

lemma atoi_after_space:
  assumes "n < 2 ^ 31" "r = [] \<or> \<not> c_isdigit (hd r)"
  shows "c_atoi ('' '' @ show_nat n @ r) = int n"
proof -
  obtain c cs where s: "show_nat n = c # cs" using show_nat_digits [of n] by (cases "show_nat n") auto
  have d: "list_all c_isdigit (c # cs)" using show_nat_digits [of n] s by simp
  then have "c_isdigit c" by simp
  then have c: "\<not> c_isspace c" "c \<noteq> CHR ''-''" "c \<noteq> CHR ''+''" by (auto simp: c_isdigit_def c_isspace_def)
  have "takeWhile c_isdigit r = []" using assms(2) by (cases r) auto
  then have t: "takeWhile c_isdigit ((c # cs) @ r) = c # cs" using d by (subst takeWhile_append2) (auto simp: list_all_iff)
  have sp: "c_isspace (CHR '' '')" by (simp add: c_isspace_def)
  have "digits_value (c # cs) = int n" using digits_show_nat [of n] s by simp
  then show ?thesis using assms(1) t c sp unfolding c_atoi_def strtol_def s Let_def by (simp add: clamp_long_def)
qed

definition searched_names :: "string list" where
  "searched_names = [''content-length:'', ''transfer-encoding:'', ''connection:'']"

lemma searched_names_plain:
  assumes "nm \<in> set searched_names"
  shows "nm \<noteq> []" "CHR 0x0D \<notin> set nm" "CHR 0x0A \<notin> set nm" "CHR '' '' \<notin> set nm" "list_all (\<lambda>c. \<not> c_isdigit c) nm"
  using assms by (auto simp: searched_names_def c_isdigit_def)

lemma status_line_names: "list_all (\<lambda>nm. strstr (map to_lower ''HTTP/1.1 200 OK'') nm = None) searched_names"
  by code_simp

lemma length_line_names: "list_all (\<lambda>nm. strstr (map to_lower ''Content-Length:'') nm = None) [''transfer-encoding:'', ''connection:'']"
  by code_simp

lemma lower_names: "map to_lower ''Transfer-Encoding:'' = ''transfer-encoding:''" "map to_lower ''Connection:'' = ''connection:''"
  by code_simp+

lemma reply_header_cat:
  "reply_header others n = concat (map (\<lambda>l. l @ CRLF2) (''HTTP/1.1 200 OK'' # others)) @ (''Content-Length: '' @ show_nat n) @ CRLF2 @ CRLF2"
  by (simp add: reply_header_def)

lemma first_lines_names:
  assumes "list_all other_line others" "nm \<in> set searched_names"
  shows "list_all (\<lambda>l. strstr (map to_lower l) nm = None) (''HTTP/1.1 200 OK'' # others)"
proof -
  have "strstr (map to_lower ''HTTP/1.1 200 OK'') nm = None" using status_line_names assms(2) unfolding list_all_iff by blast
  moreover have "strstr (map to_lower l) nm = None" if "l \<in> set others" for l
    using assms that unfolding other_line_def list_all_iff searched_names_def by blast
  ultimately show ?thesis unfolding list_all_iff by simp
qed

lemma digits_no_name:
  assumes "nm \<noteq> []" "list_all (\<lambda>c. \<not> c_isdigit c) nm" "list_all c_isdigit ds"
  shows "strstr ds nm = None"
proof (rule ccontr)
  assume "strstr ds nm \<noteq> None"
  then obtain k where "take (length nm) (drop k ds) = nm" using strstr_Some by blast
  then have "hd nm \<in> set ds" using assms(1) by (metis hd_in_set in_set_dropD in_set_takeD)
  then show False using assms by (auto simp: list_all_iff)
qed

lemma lower_digits: "map to_lower (show_nat n) = show_nat n"
  using show_nat_digits [of n] by (intro map_idI) (auto simp: list_all_iff to_lower_def c_isdigit_def)

lemma length_line_no_name:
  assumes "nm \<in> {''transfer-encoding:'', ''connection:''}"
  shows "strstr (map to_lower (''Content-Length: '' @ show_nat n)) nm = None"
proof -
  have nm: "nm \<in> set searched_names" using assms by (auto simp: searched_names_def)
  note plain = searched_names_plain [OF nm]
  have "strstr (map to_lower ''Content-Length:'') nm = None" using length_line_names assms by auto
  from strstr_sep [OF plain(4,1) this, of "show_nat n"] digits_no_name [OF plain(1,5), of "show_nat n"] show_nat_digits [of n]
  have "strstr (map to_lower ''Content-Length:'' @ CHR '' '' # show_nat n) nm = None" by simp
  moreover have "map to_lower (''Content-Length: '' @ show_nat n) = map to_lower ''Content-Length:'' @ CHR '' '' # show_nat n"
    unfolding map_append lower_digits by (simp add: to_lower_def)
  ultimately show ?thesis by simp
qed

lemma lower_crlf: "map to_lower (CRLF2 @ x) = CHR 0x0D # CHR 0x0A # map to_lower x"
  by (simp add: CRLF2_def to_lower_def)

lemma name_absent:
  assumes "list_all other_line others" "nm \<in> {''transfer-encoding:'', ''connection:''}" "map to_lower name = nm" "bs \<le> length (reply_header others n)"
  shows "header_at (reply_header others n @ x) name bs = None"
proof -
  have nm: "nm \<in> set searched_names" using assms(2) by (auto simp: searched_names_def)
  note plain = searched_names_plain [OF nm]
  let ?ls = "''HTTP/1.1 200 OK'' # others @ [''Content-Length: '' @ show_nat n]" and ?cat = "\<lambda>ls. concat (map (\<lambda>l. l @ CRLF2) ls)"
  have all: "list_all (\<lambda>l. strstr (map to_lower l) nm = None) ?ls"
    using first_lines_names [OF assms(1) nm] length_line_no_name [OF assms(2), of n] by (simp only: list_all_append list.pred_inject append_Cons simp_thms)
  have "map to_lower (reply_header others n @ x) = map to_lower (?cat ?ls) @ map to_lower (CRLF2 @ x)"
    by (simp only: reply_header_def append_assoc map_append)
  then have "strstr (map to_lower (reply_header others n @ x)) nm = map_option (\<lambda>k. k + length (?cat ?ls)) (strstr (map to_lower (CRLF2 @ x)) nm)"
    using name_beyond_lines [OF all plain(1,2,3)] by simp
  moreover have "strstr (map to_lower (CRLF2 @ x)) nm = map_option (\<lambda>k. k + 2) (strstr (map to_lower x) nm)"
    unfolding lower_crlf
    using strstr_sep [OF plain(2,1), of "[]" "CHR 0x0A # map to_lower x"] strstr_sep [OF plain(3,1), of "[]" "map to_lower x"] plain(1)
    by (cases nm) (simp_all add: option.map_comp comp_def)
  moreover have "length (reply_header others n) = length (?cat ?ls) + 2" by (simp add: reply_header_def CRLF2_def)
  ultimately show ?thesis using assms(3,4) by (cases "strstr (map to_lower x) nm") (simp_all add: header_at_def strcasestr_in_def)
qed

lemma length_found:
  assumes "list_all other_line others" "n \<le> 10 * 1024 * 1024"
  shows "http_content_length (reply_header others n @ x) (length (reply_header others n)) = int n"
proof -
  let ?ls = "''HTTP/1.1 200 OK'' # others" and ?cat = "\<lambda>ls. concat (map (\<lambda>l. l @ CRLF2) ls)"
  let ?nm = "''content-length:''" and ?tail = "(''Content-Length: '' @ show_nat n) @ CRLF2 @ CRLF2 @ x"
  have low: "map to_lower ''Content-Length:'' = ?nm" by code_simp
  have nm: "?nm \<in> set searched_names" by (simp add: searched_names_def)
  have e: "reply_header others n @ x = ?cat ?ls @ ?tail" unfolding reply_header_cat by (simp only: append_assoc)
  have "map to_lower ?tail = ?nm @ map to_lower ('' '' @ show_nat n @ CRLF2 @ CRLF2 @ x)"
    unfolding low [symmetric] by simp
  then have "strstr (map to_lower ?tail) ?nm = Some 0" by (simp only: strstr_here)
  then have "strstr (map to_lower (reply_header others n @ x)) ?nm = Some (length (?cat ?ls))"
    unfolding e map_append [of _ "?cat ?ls"]
    using name_beyond_lines [OF first_lines_names [OF assms(1) nm] searched_names_plain(1,2,3) [OF nm], of "map to_lower ?tail"] by simp
  moreover have "length (?cat ?ls) < length (reply_header others n)" unfolding reply_header_cat by simp
  ultimately have "header_at (reply_header others n @ x) ''Content-Length:'' (length (reply_header others n)) = Some (length (?cat ?ls))"
    by (simp only: header_at_def strcasestr_in_def low option.case if_True)
  moreover have "drop (length (?cat ?ls) + 15) (reply_header others n @ x) = '' '' @ show_nat n @ CRLF2 @ CRLF2 @ x"
    unfolding e by (simp only: drop_append) simp
  moreover have "c_atoi ('' '' @ show_nat n @ CRLF2 @ CRLF2 @ x) = int n"
    using assms(2) by (intro atoi_after_space) (simp_all add: CRLF2_def c_isdigit_def)
  ultimately show ?thesis using assms(2) by (simp only: http_content_length_def option.case Let_def) simp
qed

lemma reply_header_says:
  assumes "list_all other_line others" "n \<le> 10 * 1024 * 1024" "length (reply_header others n) < TLS_RAW_BUF_SIZE"
  shows "header_says (reply_header others n) 200 (int n) False True"
proof -
  let ?h = "reply_header others n" and ?len = "''Content-Length: '' @ show_nat n" and ?ok = "''HTTP/1.1 200 OK''"
  let ?cat = "\<lambda>ls. concat (map (\<lambda>l. l @ CRLF2) ls)"
  have digs: "CHR 0x0D \<notin> set (show_nat n)" "CHR 0x00 \<notin> set (show_nat n)"
    using show_nat_digits [of n] by (force simp: c_isdigit_def list_all_iff)+
  have "list_all (\<lambda>l. l \<noteq> [] \<and> CHR 0x0D \<notin> set l) (?ok # others @ [?len])"
    using assms(1) digs by (auto simp: other_line_def list_all_iff)
  from blank_lines_end [OF this] have "strstr ?h BLANK_LINE = Some (length (?cat (?ok # others @ [?len])) - 2)"
    unfolding reply_header_def by simp
  moreover have "length ?h = length (?cat (?ok # others @ [?len])) + 2" "4 \<le> length ?h" by (simp_all add: reply_header_def CRLF2_def)
  ultimately have ends: "header_ends ?h" using assms(3) by (simp add: header_ends_def)
  have nul: "CHR 0x00 \<notin> set ?h"
    using assms(1) digs by (auto simp: reply_header_def CRLF2_def other_line_def list_all_iff)
  have "http_status (?h @ x) = Some 200" for x
    unfolding reply_header_cat
    by (simp add: CRLF2_def http_status_def strtol_def c_isspace_def c_isdigit_def digits_value_def clamp_long_def)
  moreover have "http_chunked (?h @ x) (length ?h) = False" for x
    using name_absent [OF assms(1), where nm = "''transfer-encoding:''" and name = "''Transfer-Encoding:''" and bs = "length ?h" and x = x and n = n] lower_names
    by (simp add: http_chunked_def)
  moreover have "http_keep_alive (?h @ x) (length ?h - 4) = True" for x
    using name_absent [OF assms(1), where nm = "''connection:''" and name = "''Connection:''" and bs = "length ?h - 4" and x = x and n = n] lower_names
    by (simp add: http_keep_alive_def)
  ultimately show ?thesis using ends nul length_found [OF assms(1,2)] by (simp add: header_says_def)
qed

theorem chunked_response_waits_witness:
  "tls_read_response 8192 [Arrive (chunked_header @ chunked_text [''hello'', '' world''])] = None
    \<and> hr_body (fst (the (tls_read_response 8192 [Arrive (chunked_header @ chunked_text [''hello'', '' world'']), Fail]))) = ''hello world''"
proof -
  have "length (chunked_text [''hello'', '' world'']) < 8192 - 1" by code_simp
  moreover have "chunked_header \<noteq> []" by (simp add: chunked_header_def)
  ultimately show ?thesis
    using chunked_response_waits [OF chunked_header_says, of "[chunked_header @ chunked_text [''hello'', '' world'']]" "[''hello'', '' world'']" 8192]
    by simp
qed

end
