(* ===== verification/Http_Request.thy ===== *)
theory Http_Request
  imports Http_Client
begin

text \<open>
  The requests that the rest of the agent makes (\<^verbatim>\<open>services/ai_agent/src/infra/vela_tls.c\<close>): over a
  kept TLS connection, a new one, or plain HTTP. The network is the record \<open>http_net\<close>: whether
  a connection is left in the pool or can be made, whether what is written to it goes through, and
  what it delivers after that. \<open>None\<close> as a result is a request that waits for ever.
\<close>

definition VELA_TLS_ERR_CONNECT :: int where [c_consts]: "VELA_TLS_ERR_CONNECT = - 1"
definition VELA_TLS_ERR_WRITE :: int where [c_consts]: "VELA_TLS_ERR_WRITE = - 3"

text \<open>A connection answers the bytes of a request with events, or fails while they are written.\<close>

type_synonym conn = "string \<Rightarrow> net_event list option"

record http_net =
  hn_pooled :: "string \<Rightarrow> string \<Rightarrow> conn option"
  hn_connect :: "string \<Rightarrow> string \<Rightarrow> int + conn"
  hn_plain :: "string \<Rightarrow> string \<Rightarrow> conn option"

definition failed :: "int \<Rightarrow> http_result" where
  "failed e = \<lparr>hr_status = e, hr_body = [], hr_keep = False\<rparr>"

definition exchange :: "nat \<Rightarrow> string option \<Rightarrow> conn \<Rightarrow> http_result option" where
  "exchange cap req c =
     (case req of
        None \<Rightarrow> Some (failed VELA_TLS_ERR_OVERFLOW)
      | Some bytes \<Rightarrow>
          (case c bytes of
             None \<Rightarrow> Some (failed VELA_TLS_ERR_WRITE)
           | Some evs \<Rightarrow> map_option fst (tls_read_response cap evs)))"

text \<open>A kept connection that turns out stale, at the write or at the read, is replaced by a new one.\<close>

definition vela_https_request ::
  "http_net \<Rightarrow> string \<Rightarrow> string \<Rightarrow> string \<Rightarrow> string \<Rightarrow> (string \<times> string) list \<Rightarrow> string \<Rightarrow> nat \<Rightarrow> http_result option"
where
  "vela_https_request net host port meth path headers body cap =
     (let req = tls_write_request meth host path headers body;
          fresh = (case hn_connect net host port of Inl e \<Rightarrow> Some (failed e) | Inr c \<Rightarrow> exchange cap req c)
      in case hn_pooled net host port of
           None \<Rightarrow> fresh
         | Some c \<Rightarrow>
             (case exchange cap req c of
                None \<Rightarrow> None
              | Some r \<Rightarrow> if hr_status r > 0 then Some r else fresh))"

definition vela_https_get :: "http_net \<Rightarrow> string \<Rightarrow> string \<Rightarrow> string \<Rightarrow> nat \<Rightarrow> http_result option" where
  "vela_https_get net host port path cap = vela_https_request net host port ''GET'' path [] [] cap"

definition vela_https_post_json ::
  "http_net \<Rightarrow> string \<Rightarrow> string \<Rightarrow> string \<Rightarrow> (string \<times> string) list \<Rightarrow> string \<Rightarrow> nat \<Rightarrow> http_result option"
where
  "vela_https_post_json net host port path extra json_body cap =
     vela_https_request net host port ''POST'' path (post_headers extra) json_body cap"

section \<open>Plain HTTP\<close>

definition plain_lines :: "string \<Rightarrow> string \<Rightarrow> (string \<times> string) list \<Rightarrow> nat \<Rightarrow> string list" where
  "plain_lines host path headers body_len =
     [''POST '' @ path @ '' HTTP/1.1'' @ CRLF2, ''Host: '' @ host @ CRLF2, ''Content-Type: application/json'' @ CRLF2,
      ''Connection: close'' @ CRLF2, ''User-Agent: agent/1.0'' @ CRLF2]
     @ (if body_len > 0 then [''Content-Length: '' @ show_nat body_len @ CRLF2] else [])
     @ map (\<lambda>(n, v). n @ '': '' @ v @ CRLF2) headers
     @ [CRLF2]"

text \<open>The plain reader ends at any read that brings nothing; otherwise it is the one over TLS.\<close>

definition plain_event :: "net_event \<Rightarrow> net_event" where
  "plain_event e = (case e of Arrive d \<Rightarrow> Arrive d | _ \<Rightarrow> Shut)"

definition vela_http_post_json ::
  "http_net \<Rightarrow> bool \<Rightarrow> string \<Rightarrow> string \<Rightarrow> string \<Rightarrow> (string \<times> string) list \<Rightarrow> string \<Rightarrow> nat \<Rightarrow> http_result option"
where
  "vela_http_post_json net mem host port path extra json_body cap =
     (case hn_plain net host port of
        None \<Rightarrow> Some (failed VELA_TLS_ERR_CONNECT)
      | Some c \<Rightarrow>
          (case append_lines 4096 (plain_lines host path extra (length json_body)) [] of
             None \<Rightarrow> Some (failed VELA_TLS_ERR_OVERFLOW)
           | Some hdr \<Rightarrow>
               (case c (hdr @ json_body) of
                  None \<Rightarrow> Some (failed VELA_TLS_ERR_WRITE)
                | Some evs \<Rightarrow>
                    if \<not> mem then Some (failed VELA_TLS_ERR_READ)
                    else map_option fst (tls_read_response cap (map plain_event evs)))))"

section \<open>The date of a server\<close>

fun read_upto :: "nat \<Rightarrow> string \<Rightarrow> net_event list \<Rightarrow> string option" where
  "read_upto cap buf [] = (if length buf \<ge> cap - 1 then Some buf else None)"
| "read_upto cap buf (e # es) =
     (if length buf \<ge> cap - 1 then Some buf
      else case e of
             Again \<Rightarrow> read_upto cap buf es
           | Fail \<Rightarrow> Some buf
           | Shut \<Rightarrow> Some buf
           | Arrive d \<Rightarrow>
               let k = cap - 1 - length buf; buf' = buf @ take k d in
               if strstr (cstr buf') BLANK_LINE \<noteq> None \<or> length d > k then Some buf' else read_upto cap buf' es)"

definition date_line :: "string \<Rightarrow> nat \<Rightarrow> int + string" where
  "date_line hdr date_cap =
     (case strcasestr_in hdr (CRLF2 @ ''Date: '') of
        None \<Rightarrow> Inl VELA_TLS_ERR_READ
      | Some k \<Rightarrow>
          let p = drop (k + 8) hdr in
          case strstr p CRLF2 of None \<Rightarrow> Inl VELA_TLS_ERR_READ | Some eol \<Rightarrow> Inr (cstr_copy date_cap (take eol p)))"

definition vela_https_head_date :: "http_net \<Rightarrow> string \<Rightarrow> string \<Rightarrow> string \<Rightarrow> nat \<Rightarrow> (int + string) option" where
  "vela_https_head_date net host port path date_cap =
     (case hn_connect net host port of
        Inl e \<Rightarrow> Some (Inl e)
      | Inr c \<Rightarrow>
          (case tls_write_request ''HEAD'' host path [] [] of
             None \<Rightarrow> Some (Inl VELA_TLS_ERR_OVERFLOW)
           | Some req \<Rightarrow>
               (case c req of
                  None \<Rightarrow> Some (Inl VELA_TLS_ERR_WRITE)
                | Some evs \<Rightarrow>
                    (case read_upto 2048 [] evs of
                       None \<Rightarrow> None
                     | Some buf \<Rightarrow> if buf = [] then Some (Inl VELA_TLS_ERR_READ) else Some (date_line (cstr buf) date_cap)))))"

lemma date_line_fits: "0 < cap \<Longrightarrow> date_line hdr cap = Inr d \<Longrightarrow> length d < cap"
  by (auto simp: date_line_def Let_def length_cstr_copy split: option.splits)

section \<open>What a request sends and returns\<close>

text \<open>The size of the header of a POST request with one or two extra lines.\<close>

lemma concat_lines_length: "length (concat (header_lines meth host path headers n)) =
    length meth + length path + length host + 74 + (if n > 0 then 18 + length (show_nat n) else 0)
    + sum_list (map (\<lambda>(a, b). length a + length b + 4) headers)"
  by (induction headers) (simp_all add: header_lines_def CRLF2_def split_def)

lemma write_request_fits:
  "length (concat (header_lines meth host path headers (length body))) < 4096 \<Longrightarrow>
   tls_write_request meth host path headers body = Some (concat (header_lines meth host path headers (length body)) @ body)"
  by (simp add: tls_write_request_def append_lines_fits)

lemma post_fresh:
  assumes "hn_pooled net host port = None" "hn_connect net host port = Inr c"
    "tls_write_request ''POST'' host path (post_headers extra) body = Some req" "c req = Some evs"
  shows "vela_https_post_json net host port path extra body cap = map_option fst (tls_read_response cap evs)"
  using assms by (simp add: vela_https_post_json_def vela_https_request_def exchange_def)

end
