(* ===== verification/Llm_Config.thy ===== *)
theory Llm_Config
  imports Config_Store C_Text
begin

text \<open>
  The settings of the LLM client (\<^verbatim>\<open>services/ai_agent/src/llm/llm_proxy.c\<close>) and of the HTTP proxy
  (\<^verbatim>\<open>services/ai_agent/src/infra/http_proxy.c\<close>): buffers in memory that are filled at start from the
  build and the configuration store, and changed together with the store. The store is a state
  \<open>e\<close> of the configuration store.
\<close>

section \<open>The settings\<close>

record llm_cfg =
  s_api_key :: string
  s_model :: string
  s_llm_host :: string
  s_llm_path :: string
  s_llm_port :: string
  s_proxy_host :: string
  s_proxy_port :: nat

definition boot_cfg :: llm_cfg where
  "boot_cfg = \<lparr>s_api_key = [], s_model = [], s_llm_host = [], s_llm_path = ''/v1/chat/completions'', s_llm_port = ''443'',
     s_proxy_host = [], s_proxy_port = 0\<rparr>"

text \<open>The macros of the build.\<close>

record llm_secrets =
  AGENT_SECRET_API_KEY :: string
  AGENT_SECRET_MODEL :: string
  AGENT_SECRET_PROXY_HOST :: string
  AGENT_SECRET_PROXY_PORT :: string

definition load_field :: "'j cfg_env \<Rightarrow> string \<Rightarrow> nat \<Rightarrow> string \<Rightarrow> string" where
  "load_field e key n old =
     (case env_get e key 128 of Some tmp \<Rightarrow> if tmp \<noteq> [] then cstr_copy n tmp else old | None \<Rightarrow> old)"

definition llm_proxy_init :: "llm_secrets \<Rightarrow> 'j cfg_env \<Rightarrow> llm_cfg \<Rightarrow> llm_cfg" where
  "llm_proxy_init b e cfg =
     (let key0 = (if AGENT_SECRET_API_KEY b \<noteq> [] then cstr_copy 128 (AGENT_SECRET_API_KEY b) else s_api_key cfg);
          model0 = (if AGENT_SECRET_MODEL b \<noteq> [] then cstr_copy 64 (AGENT_SECRET_MODEL b) else s_model cfg)
      in cfg\<lparr>s_api_key := load_field e ''api_key'' 128 key0,
             s_model := load_field e ''model'' 64 model0,
             s_llm_host := load_field e ''llm_host'' 128 (s_llm_host cfg),
             s_llm_path := load_field e ''llm_path'' 128 (s_llm_path cfg),
             s_llm_port := load_field e ''llm_port'' 8 (s_llm_port cfg)\<rparr>)"

text \<open>A pointer that is null or an empty string leaves its setting alone.\<close>

definition set_field :: "string \<Rightarrow> nat \<Rightarrow> string option \<Rightarrow> 'j cfg_env \<times> string \<Rightarrow> 'j cfg_env \<times> string" where
  "set_field key n v st =
     (case st of (e, old) \<Rightarrow>
        (case v of
           Some (c # cs) \<Rightarrow> (snd (env_set e key (c # cs)), cstr_copy n (c # cs))
         | _ \<Rightarrow> (e, old)))"

definition llm_set_backend :: "string option \<Rightarrow> string option \<Rightarrow> 'j cfg_env \<times> llm_cfg \<Rightarrow> 'j cfg_env \<times> llm_cfg" where
  "llm_set_backend host path st =
     (case st of (e, cfg) \<Rightarrow>
        case set_field ''llm_host'' 128 host (e, s_llm_host cfg) of (e1, h) \<Rightarrow>
        case set_field ''llm_path'' 128 path (e1, s_llm_path cfg) of (e2, p) \<Rightarrow>
          (e2, cfg\<lparr>s_llm_host := h, s_llm_path := p\<rparr>))"

definition llm_set_port :: "string option \<Rightarrow> 'j cfg_env \<times> llm_cfg \<Rightarrow> 'j cfg_env \<times> llm_cfg" where
  "llm_set_port port st =
     (case st of (e, cfg) \<Rightarrow>
        case set_field ''llm_port'' 8 port (e, s_llm_port cfg) of (e1, p) \<Rightarrow> (e1, cfg\<lparr>s_llm_port := p\<rparr>))"

definition llm_set_all ::
  "string option \<Rightarrow> string option \<Rightarrow> string option \<Rightarrow> string option \<Rightarrow> string option \<Rightarrow> 'j cfg_env \<times> llm_cfg \<Rightarrow> 'j cfg_env \<times> llm_cfg"
where
  "llm_set_all host path port api_key model st =
     (case st of (e, cfg) \<Rightarrow>
        case set_field ''llm_host'' 128 host (e, s_llm_host cfg) of (e1, h) \<Rightarrow>
        case set_field ''llm_path'' 128 path (e1, s_llm_path cfg) of (e2, p) \<Rightarrow>
        case set_field ''llm_port'' 8 port (e2, s_llm_port cfg) of (e3, q) \<Rightarrow>
        case set_field ''api_key'' 128 api_key (e3, s_api_key cfg) of (e4, k) \<Rightarrow>
        case set_field ''model'' 64 model (e4, s_model cfg) of (e5, m) \<Rightarrow>
          (e5, cfg\<lparr>s_llm_host := h, s_llm_path := p, s_llm_port := q, s_api_key := k, s_model := m\<rparr>))"

definition llm_snapshot_config :: "nat \<Rightarrow> nat \<Rightarrow> nat \<Rightarrow> llm_cfg \<Rightarrow> string \<times> string \<times> string" where
  "llm_snapshot_config model_sz key_sz host_sz cfg =
     (cstr_copy model_sz (s_model cfg), cstr_copy key_sz (s_api_key cfg), cstr_copy host_sz (s_llm_host cfg))"

section \<open>The proxy\<close>

definition uint16 :: "int \<Rightarrow> nat" where
  "uint16 i = nat (i mod 65536)"

definition http_proxy_init :: "llm_secrets \<Rightarrow> 'j cfg_env \<Rightarrow> llm_cfg \<Rightarrow> llm_cfg" where
  "http_proxy_init b e cfg =
     (let cfg0 = (if AGENT_SECRET_PROXY_HOST b \<noteq> [] \<and> AGENT_SECRET_PROXY_PORT b \<noteq> []
                  then cfg\<lparr>s_proxy_host := cstr_copy 64 (AGENT_SECRET_PROXY_HOST b),
                           s_proxy_port := uint16 (c_atoi (AGENT_SECRET_PROXY_PORT b))\<rparr>
                  else cfg);
          cfg1 = (case env_get e ''proxy_host'' 64 of
                    Some tmp \<Rightarrow> if tmp \<noteq> [] then cfg0\<lparr>s_proxy_host := cstr_copy 64 tmp\<rparr> else cfg0
                  | None \<Rightarrow> cfg0)
      in case env_get e ''proxy_port'' 64 of
           Some tmp \<Rightarrow> if tmp \<noteq> [] then cfg1\<lparr>s_proxy_port := uint16 (c_atoi tmp)\<rparr> else cfg1
         | None \<Rightarrow> cfg1)"

definition http_proxy_is_enabled :: "llm_cfg \<Rightarrow> bool" where
  "http_proxy_is_enabled cfg \<longleftrightarrow> s_proxy_host cfg \<noteq> [] \<and> s_proxy_port cfg \<noteq> 0"

definition http_proxy_set :: "string \<Rightarrow> nat \<Rightarrow> 'j cfg_env \<times> llm_cfg \<Rightarrow> 'j cfg_env \<times> llm_cfg" where
  "http_proxy_set host port st =
     (case st of (e, cfg) \<Rightarrow>
        let e1 = snd (env_set e ''proxy_host'' host);
            e2 = snd (env_set e1 ''proxy_port'' (cstr_copy 8 (show_nat port)))
        in (e2, cfg\<lparr>s_proxy_host := cstr_copy 64 host, s_proxy_port := port\<rparr>))"

definition http_proxy_clear :: "'j cfg_env \<times> llm_cfg \<Rightarrow> 'j cfg_env \<times> llm_cfg" where
  "http_proxy_clear st =
     (case st of (e, cfg) \<Rightarrow>
        (snd (env_del (snd (env_del e ''proxy_host'')) ''proxy_port''), cfg\<lparr>s_proxy_host := [], s_proxy_port := 0\<rparr>))"

section \<open>The settings after a restart\<close>

datatype cfg_change =
    Set_Backend "string option" "string option"
  | Set_Port "string option"
  | Set_All "string option" "string option" "string option" "string option" "string option"
  | Proxy_Set string nat
  | Proxy_Clear

fun change :: "cfg_change \<Rightarrow> 'j cfg_env \<times> llm_cfg \<Rightarrow> 'j cfg_env \<times> llm_cfg" where
  "change (Set_Backend h p) = llm_set_backend h p"
| "change (Set_Port p) = llm_set_port p"
| "change (Set_All h p q k m) = llm_set_all h p q k m"
| "change (Proxy_Set h p) = http_proxy_set h p"
| "change Proxy_Clear = http_proxy_clear"

definition restart :: "llm_secrets \<Rightarrow> 'j cfg_env \<Rightarrow> llm_cfg" where
  "restart b e = llm_proxy_init b e (http_proxy_init b e boot_cfg)"

text \<open>Different keys stay different for the library, which ignores the case of letters.\<close>

definition keys_apart :: "'j cfg_env \<Rightarrow> bool" where
  "keys_apart e \<longleftrightarrow> (\<forall>k k'. env_same e k k' \<longrightarrow> map to_lower k = map to_lower k')"

definition llm_keys :: "string set" where
  "llm_keys = {''api_key'', ''model'', ''llm_host'', ''llm_path'', ''llm_port'', ''proxy_host'', ''proxy_port''}"

lemma keys_apartD:
  assumes "keys_apart e" "env_good e" "k \<in> llm_keys" "k' \<in> llm_keys"
  shows "env_same e k k' \<longleftrightarrow> k = k'"
proof
  assume "env_same e k k'"
  then have "map to_lower k = map to_lower k'" using assms(1) by (simp add: keys_apart_def)
  moreover have "map to_lower x = x" if "x \<in> llm_keys" for x
    using that by (auto simp: llm_keys_def to_lower_def)
  ultimately show "k = k'" using assms(3,4) by metis
qed (simp add: cs.same_refl [OF assms(2)])

text \<open>A write or a deletion, on the view of the store.\<close>

lemma env_set_view:
  assumes "env_good e" "keys_apart e" "k \<in> llm_keys"
  shows "env_good (snd (env_set e k v))" "keys_apart (snd (env_set e k v))"
    "k' \<in> llm_keys \<Longrightarrow> env_view (snd (env_set e k v)) k' = (if k' = k then Some v else env_view e k')"
proof -
  have r: "do_op env_set env_del env_erase (Put_op k v) e = (fst (env_set e k v), snd (env_set e k v))" by simp
  note o = cs.op_refines [OF assms(1) r]
  show "env_good (snd (env_set e k v))" "keys_apart (snd (env_set e k v))" using o assms(2) by (auto simp: keys_apart_def)
  show "env_view (snd (env_set e k v)) k' = (if k' = k then Some v else env_view e k')" if "k' \<in> llm_keys"
    using o keys_apartD [OF assms(2,1,3) that] by auto
qed

lemma env_del_view:
  assumes "env_good e" "keys_apart e" "k \<in> llm_keys"
  shows "env_good (snd (env_del e k))" "keys_apart (snd (env_del e k))"
    "k' \<in> llm_keys \<Longrightarrow> env_view (snd (env_del e k)) k' = (if k' = k then None else env_view e k')"
proof -
  have r: "do_op env_set env_del env_erase (Del_op k) e = (fst (env_del e k), snd (env_del e k))" by simp
  note o = cs.op_refines [OF assms(1) r]
  show "env_good (snd (env_del e k))" "keys_apart (snd (env_del e k))" using o assms(2) by (auto simp: keys_apart_def)
  show "env_view (snd (env_del e k)) k' = (if k' = k then None else env_view e k')" if "k' \<in> llm_keys"
    using o keys_apartD [OF assms(2,1,3) that] by auto
qed

text \<open>A setting in memory that is what a restart would load.\<close>

definition loaded :: "nat \<Rightarrow> string option \<Rightarrow> string \<Rightarrow> string" where
  "loaded n v old = (case v of Some (c # cs) \<Rightarrow> cstr_copy n (c # cs) | _ \<Rightarrow> old)"

lemma load_field_view: "env_good e \<Longrightarrow> 0 < n \<Longrightarrow> n \<le> 128 \<Longrightarrow> load_field e key n old = loaded n (env_view e key) old"
  by (auto simp: load_field_def loaded_def cs.get_view read_setting_def cstr_copy_def split: option.splits list.splits)

definition loaded_port :: "string option \<Rightarrow> nat \<Rightarrow> nat" where
  "loaded_port v old = (case v of Some (c # cs) \<Rightarrow> uint16 (c_atoi (take 63 (c # cs))) | _ \<Rightarrow> old)"

definition synced :: "llm_secrets \<Rightarrow> 'j cfg_env \<times> llm_cfg \<Rightarrow> bool" where
  "synced b st \<longleftrightarrow> (case st of (e, cfg) \<Rightarrow> env_good e \<and> keys_apart e \<and> restart b e = cfg)"

lemma proxy_init_view:
  assumes "env_good e" "AGENT_SECRET_PROXY_HOST b = [] \<or> AGENT_SECRET_PROXY_PORT b = []"
  shows "http_proxy_init b e cfg = cfg\<lparr>s_proxy_host := loaded 64 (env_view e ''proxy_host'') (s_proxy_host cfg),
     s_proxy_port := loaded_port (env_view e ''proxy_port'') (s_proxy_port cfg)\<rparr>"
  using assms by (auto simp: http_proxy_init_def loaded_def loaded_port_def cs.get_view read_setting_def cstr_copy_def Let_def split: option.splits list.splits)

lemma set_field_view:
  assumes "env_good e" "keys_apart e" "key \<in> llm_keys" "set_field key n v (e, old) = (e', new)"
  shows "env_good e'" "keys_apart e'" "k' \<in> llm_keys \<Longrightarrow> k' \<noteq> key \<Longrightarrow> env_view e' k' = env_view e k'"
    "loaded n (env_view e key) boot = old \<Longrightarrow> loaded n (env_view e' key) boot = new"
  using assms env_set_view [OF assms(1-3), where v = "the v"]
  by (auto simp: set_field_def loaded_def split: option.splits list.splits)

text \<open>The restart in terms of the view.\<close>

lemma restart_eq:
  assumes "env_good e" "AGENT_SECRET_PROXY_HOST b = [] \<or> AGENT_SECRET_PROXY_PORT b = []"
  shows "restart b e = cfg \<longleftrightarrow>
    s_api_key cfg = loaded 128 (env_view e ''api_key'') (cstr_copy 128 (AGENT_SECRET_API_KEY b))
    \<and> s_model cfg = loaded 64 (env_view e ''model'') (cstr_copy 64 (AGENT_SECRET_MODEL b))
    \<and> s_llm_host cfg = loaded 128 (env_view e ''llm_host'') []
    \<and> s_llm_path cfg = loaded 128 (env_view e ''llm_path'') ''/v1/chat/completions''
    \<and> s_llm_port cfg = loaded 8 (env_view e ''llm_port'') ''443''
    \<and> s_proxy_host cfg = loaded 64 (env_view e ''proxy_host'') []
    \<and> s_proxy_port cfg = loaded_port (env_view e ''proxy_port'') 0"
proof -
  have b: "s_api_key boot_cfg = []" "s_model boot_cfg = []" "s_llm_host boot_cfg = []" "s_llm_port boot_cfg = ''443''"
    "s_llm_path boot_cfg = ''/v1/chat/completions''" "s_proxy_host boot_cfg = []" "s_proxy_port boot_cfg = 0"
    by (simp_all add: boot_cfg_def)
  have "cfg = cfg' \<longleftrightarrow> s_api_key cfg = s_api_key cfg' \<and> s_model cfg = s_model cfg' \<and> s_llm_host cfg = s_llm_host cfg'
    \<and> s_llm_path cfg = s_llm_path cfg' \<and> s_llm_port cfg = s_llm_port cfg' \<and> s_proxy_host cfg = s_proxy_host cfg'
    \<and> s_proxy_port cfg = s_proxy_port cfg'" for cfg' :: llm_cfg by (cases cfg; cases cfg') simp
  moreover have "cstr_copy n [] = []" for n by (simp add: cstr_copy_def)
  ultimately show ?thesis
    unfolding restart_def llm_proxy_init_def proxy_init_view [OF assms] Let_def eq_commute [of _ cfg]
    using load_field_view [OF assms(1)] b by simp
qed

definition no_proxy_secret :: "llm_secrets \<Rightarrow> bool" where
  "no_proxy_secret b \<longleftrightarrow> AGENT_SECRET_PROXY_HOST b = [] \<or> AGENT_SECRET_PROXY_PORT b = []"

definition change_ok :: "cfg_change \<Rightarrow> bool" where
  "change_ok c \<longleftrightarrow> (case c of Proxy_Set h p \<Rightarrow> p < 65536 | _ \<Rightarrow> True)"

lemmas keys_in = llm_keys_def

lemma llm_set_all_synced:
  assumes "synced b (e, cfg)" "no_proxy_secret b"
  shows "synced b (llm_set_all h p q k m (e, cfg))"
proof -
  obtain e1 h' where 1: "set_field ''llm_host'' 128 h (e, s_llm_host cfg) = (e1, h')" by fastforce
  obtain e2 p' where 2: "set_field ''llm_path'' 128 p (e1, s_llm_path cfg) = (e2, p')" by fastforce
  obtain e3 q' where 3: "set_field ''llm_port'' 8 q (e2, s_llm_port cfg) = (e3, q')" by fastforce
  obtain e4 k' where 4: "set_field ''api_key'' 128 k (e3, s_api_key cfg) = (e4, k')" by fastforce
  obtain e5 m' where 5: "set_field ''model'' 64 m (e4, s_model cfg) = (e5, m')" by fastforce
  have g: "env_good e" "keys_apart e" "restart b e = cfg" using assms(1) by (simp_all add: synced_def)
  note f1 = set_field_view [OF g(1,2) _ 1]
  note f2 = set_field_view [OF f1(1,2) _ 2]
  note f3 = set_field_view [OF f2(1,2) _ 3]
  note f4 = set_field_view [OF f3(1,2) _ 4]
  note f5 = set_field_view [OF f4(1,2) _ 5]
  have good: "env_good e5" "keys_apart e5" using f5(1,2) by (simp_all add: keys_in)
  have r: "restart b e5 = cfg\<lparr>s_llm_host := h', s_llm_path := p', s_llm_port := q', s_api_key := k', s_model := m'\<rparr>"
    using g(3) f1(3,4) f2(3,4) f3(3,4) f4(3,4) f5(3,4)
    unfolding restart_eq [OF good(1) assms(2) [unfolded no_proxy_secret_def]] restart_eq [OF g(1) assms(2) [unfolded no_proxy_secret_def]]
    by (simp add: keys_in)
  show ?thesis using good r unfolding llm_set_all_def synced_def by (simp add: 1 2 3 4 5)
qed

text \<open>The two smaller functions are cases of it.\<close>

lemma set_some_eq:
  "llm_set_backend h p st = llm_set_all h p None None None st" "llm_set_port q st = llm_set_all None None q None None st"
  by (cases st; simp add: llm_set_backend_def llm_set_port_def llm_set_all_def set_field_def split: prod.splits)+

lemma proxy_set_synced:
  assumes "synced b (e, cfg)" "no_proxy_secret b" "port < 65536"
  shows "synced b (http_proxy_set h port (e, cfg))"
proof -
  have g: "env_good e" "keys_apart e" "restart b e = cfg" using assms(1) by (simp_all add: synced_def)
  let ?e1 = "snd (env_set e ''proxy_host'' h)" let ?v = "cstr_copy 8 (show_nat port)"
  let ?e2 = "snd (env_set ?e1 ''proxy_port'' ?v)"
  note f1 = env_set_view [OF g(1,2), where k = "''proxy_host''" and v = h]
  note f2 = env_set_view [OF f1(1,2), where k = "''proxy_port''" and v = ?v]
  have good: "env_good ?e2" "keys_apart ?e2" using f2(1,2) by (simp_all add: keys_in)
  have "length (show_nat port) \<le> 5" using assms(3) by (simp add: show_nat.simps)
  then have v: "?v = show_nat port" by (simp add: cstr_copy_def)
  obtain c cs where c: "show_nat port = c # cs" using show_nat_digits [of port] by (cases "show_nat port") auto
  have "take 63 (c # cs) = c # cs" using \<open>length (show_nat port) \<le> 5\<close> c by simp
  then have p: "loaded_port (Some ?v) 0 = port"
    using atoi_show_nat [of port] assms(3) c v by (simp add: uint16_def loaded_port_def)
  have host: "loaded 64 (Some h) [] = cstr_copy 64 h" by (cases h) (simp_all add: loaded_def cstr_copy_def)
  have "restart b ?e2 = cfg\<lparr>s_proxy_host := cstr_copy 64 h, s_proxy_port := port\<rparr>"
    using g(3) f1(3) f2(3) p host
    unfolding restart_eq [OF good(1) assms(2) [unfolded no_proxy_secret_def]] restart_eq [OF g(1) assms(2) [unfolded no_proxy_secret_def]]
    by (simp add: keys_in)
  then show ?thesis using good by (simp add: http_proxy_set_def synced_def)
qed

lemma proxy_clear_synced:
  assumes "synced b (e, cfg)" "no_proxy_secret b"
  shows "synced b (http_proxy_clear (e, cfg))"
proof -
  have g: "env_good e" "keys_apart e" "restart b e = cfg" using assms(1) by (simp_all add: synced_def)
  note f1 = env_del_view [OF g(1,2), where k = "''proxy_host''"]
  note f2 = env_del_view [OF f1(1,2), where k = "''proxy_port''"]
  let ?e2 = "snd (env_del (snd (env_del e ''proxy_host'')) ''proxy_port'')"
  have good: "env_good ?e2" "keys_apart ?e2" using f2(1,2) by (simp_all add: keys_in)
  have "restart b ?e2 = cfg\<lparr>s_proxy_host := [], s_proxy_port := 0\<rparr>"
    using g(3) f1(3) f2(3)
    unfolding restart_eq [OF good(1) assms(2) [unfolded no_proxy_secret_def]] restart_eq [OF g(1) assms(2) [unfolded no_proxy_secret_def]]
    by (simp add: keys_in loaded_def loaded_port_def)
  then show ?thesis using good by (simp add: http_proxy_clear_def synced_def)
qed

lemma change_synced:
  assumes "synced b st" "no_proxy_secret b" "change_ok c"
  shows "synced b (change c st)"
  using assms llm_set_all_synced proxy_set_synced proxy_clear_synced
  by (cases st; cases c) (simp_all add: set_some_eq change_ok_def)

lemma changes_synced:
  "synced b st \<Longrightarrow> no_proxy_secret b \<Longrightarrow> list_all change_ok cs \<Longrightarrow> synced b (fold change cs st)"
  by (induction cs arbitrary: st) (simp_all add: change_synced)

text \<open>
  C13. Settings survive a restart: after any sequence of changes of the LLM backend and of the proxy,
  made on a system started from a readable configuration file, starting again from the file gives
  exactly the settings that were in use, including what the buffers cut off. A proxy built into the
  firmware is excluded: it comes back after it has been cleared.
\<close>

theorem settings_survive_restart:
  assumes "cjson_ok cj" "io_ok io" "file_ok cj f" "keys_apart (cj, io, f)" "no_proxy_secret b" "list_all change_ok cs"
    "fold change cs ((cj, io, f), restart b (cj, io, f)) = (e, cfg)"
  shows "restart b e = cfg"
proof -
  have "synced b ((cj, io, f), restart b (cj, io, f))" using assms(1-4) by (simp add: synced_def env_good_def)
  from changes_synced [OF this assms(5,6)] show ?thesis unfolding assms(7) by (simp add: synced_def)
qed

definition plain_build :: llm_secrets where
  "plain_build = \<lparr>AGENT_SECRET_API_KEY = [], AGENT_SECRET_MODEL = [], AGENT_SECRET_PROXY_HOST = [], AGENT_SECRET_PROXY_PORT = []\<rparr>"

theorem settings_survive_restart_witness:
  "restart plain_build (fst (fold change [Set_All (Some ''h'') None (Some ''8080'') (Some ''k'') (Some ''m/x''), Proxy_Set ''p'' 3128]
      ((sample_cj, good_io, None), restart plain_build (sample_cj, good_io, None))))
   = snd (fold change [Set_All (Some ''h'') None (Some ''8080'') (Some ''k'') (Some ''m/x''), Proxy_Set ''p'' 3128]
      ((sample_cj, good_io, None), restart plain_build (sample_cj, good_io, None)))"
proof -
  let ?cs = "[Set_All (Some ''h'') None (Some ''8080'') (Some ''k'') (Some ''m/x''), Proxy_Set ''p'' 3128]"
  let ?st = "fold change ?cs ((sample_cj, good_io, None), restart plain_build (sample_cj, good_io, None))"
  have "keys_apart (sample_cj, good_io, None)" by (simp add: keys_apart_def env_same_def sample_cj_def)
  moreover have "no_proxy_secret plain_build" by (simp add: no_proxy_secret_def plain_build_def)
  moreover have "list_all change_ok ?cs" by (simp add: change_ok_def)
  moreover have "?st = (fst ?st, snd ?st)" by (rule prod.collapse [symmetric])
  ultimately show ?thesis by (rule settings_survive_restart [OF sample_cj_ok sample_env(1,2)])
qed

end
