(* ===== verification/Http_Proxy.thy ===== *)
theory Http_Proxy
  imports Llm_Config Http_Client
begin

text \<open>
  The tunnel through an HTTP proxy (\<^verbatim>\<open>services/ai_agent/src/infra/http_proxy.c\<close>): the CONNECT
  request, the reading of the proxy's answer byte by byte, and the reads on the TLS connection inside
  the tunnel. The bytes that arrive on the socket are a string; its end is an error or a time-out.
\<close>

section \<open>The answer of the proxy\<close>

text \<open>One line without its CR and LF; the first argument is the room left in the buffer.\<close>

fun sock_read_line :: "nat \<Rightarrow> string \<Rightarrow> string \<Rightarrow> (string \<times> string) option" where
  "sock_read_line 0 buf s = Some (buf, s)"
| "sock_read_line (Suc n) buf [] = None"
| "sock_read_line (Suc n) buf (c # s) =
     (if c = CHR 0x0A then Some (buf, s)
      else if c = CHR 0x0D then sock_read_line (Suc n) buf s
      else sock_read_line n (buf @ [c]) s)"

lemma sock_read_line_shorter:
  "sock_read_line n buf s = Some (l, rest) \<Longrightarrow> length rest \<le> length s \<and> (length l > length buf \<longrightarrow> length rest < length s)"
proof (induction n buf s rule: sock_read_line.induct)
  case (3 n buf c s)
  then show ?case by (auto split: if_splits)
qed auto

definition LINE_ROOM :: nat where [c_consts]: "LINE_ROOM = 255"

text \<open>The rest of the header: a line of length zero or an error ends it.\<close>

function skip_headers :: "string \<Rightarrow> string" where
  "skip_headers s =
     (case sock_read_line LINE_ROOM [] s of
        None \<Rightarrow> []
      | Some (l, rest) \<Rightarrow> if l = [] then rest else skip_headers rest)"
  by pat_completeness auto
termination
  by (relation "measure length") (auto dest: sock_read_line_shorter)

declare skip_headers.simps [simp del]

definition connect_text :: "string \<Rightarrow> nat \<Rightarrow> string" where
  "connect_text host port =
     ''CONNECT '' @ host @ '':'' @ show_nat port @ '' HTTP/1.1'' @ CRLF2 @ ''Host: '' @ host @ '':'' @ show_nat port @ BLANK_LINE"

text \<open>
  The text is printed into 256 bytes, but \<^verbatim>\<open>send\<close> gets the length that \<^verbatim>\<open>snprintf\<close> returns, which is the
  length of the whole text: the bytes that \<^verbatim>\<open>send\<close> reads behind the buffer are \<open>over_read\<close>.
\<close>

definition over_read :: "string \<Rightarrow> nat \<Rightarrow> nat" where
  "over_read host port = length (connect_text host port) - 256"

text \<open>
  The socket of the proxy: \<open>None\<close> when it cannot be reached, otherwise what it sends after the
  request. The result is what is left to read on the tunnel.
\<close>

definition open_connect_tunnel :: "string option \<Rightarrow> bool \<Rightarrow> string option" where
  "open_connect_tunnel answer sent =
     (case answer of
        None \<Rightarrow> None
      | Some s \<Rightarrow>
          if \<not> sent then None
          else (case sock_read_line LINE_ROOM [] s of
                  None \<Rightarrow> None
                | Some (l, rest) \<Rightarrow> if strstr l ''200'' = None then None else Some (skip_headers rest)))"

definition proxy_open_tunnel :: "llm_cfg \<Rightarrow> string option \<Rightarrow> bool \<Rightarrow> string option" where
  "proxy_open_tunnel cfg answer sent = (if http_proxy_is_enabled cfg then open_connect_tunnel answer sent else None)"

text \<open>
  With the memory for the connection and a handshake that succeeds, the tunnel is a connection;
  \<open>setup\<close> is whether all of that works.
\<close>

definition proxy_conn_open :: "llm_cfg \<Rightarrow> bool \<Rightarrow> string option \<Rightarrow> bool \<Rightarrow> string option" where
  "proxy_conn_open cfg setup answer sent =
     (if \<not> http_proxy_is_enabled cfg then None
      else (case open_connect_tunnel answer sent of None \<Rightarrow> None | Some rest \<Rightarrow> if setup then Some rest else None))"

text \<open>One read of at most \<open>len\<close> bytes; a read that would have to be repeated counts as the end.\<close>

definition proxy_conn_read :: "nat \<Rightarrow> net_event \<Rightarrow> int \<times> string \<times> net_event list" where
  "proxy_conn_read len e =
     (case e of
        Arrive d \<Rightarrow> (int (length (take len d)), take len d, if length d > len then [Arrive (drop len d)] else [])
      | Again \<Rightarrow> (0, [], [])
      | Shut \<Rightarrow> (0, [], [])
      | Fail \<Rightarrow> (- 1, [], []))"

section \<open>A header of any shape\<close>

definition header_line :: "string \<Rightarrow> bool" where
  "header_line l \<longleftrightarrow> l \<noteq> [] \<and> length l < LINE_ROOM \<and> CHR 0x0A \<notin> set l \<and> CHR 0x0D \<notin> set l"

lemma read_line_text:
  assumes "CHR 0x0A \<notin> set l" "CHR 0x0D \<notin> set l" "length l < n"
  shows "sock_read_line n buf (l @ CRLF2 @ s) = Some (buf @ l, s)"
  using assms
proof (induction l arbitrary: n buf)
  case Nil
  then show ?case by (cases n) (simp_all add: CRLF2_def)
next
  case (Cons c l)
  then show ?case by (cases n) auto
qed

lemma skip_lines:
  assumes "list_all header_line ls"
  shows "skip_headers (concat (map (\<lambda>l. l @ CRLF2) ls) @ CRLF2 @ s) = s"
  using assms
proof (induction ls)
  case Nil
  have "sock_read_line LINE_ROOM [] (CRLF2 @ s) = Some ([], s)"
    using read_line_text [of "[]" LINE_ROOM "[]" s] by (simp add: c_consts)
  then show ?case by (simp add: skip_headers.simps)
next
  case (Cons l ls)
  have "sock_read_line LINE_ROOM [] (l @ CRLF2 @ (concat (map (\<lambda>l. l @ CRLF2) ls) @ CRLF2 @ s))
      = Some (l, concat (map (\<lambda>l. l @ CRLF2) ls) @ CRLF2 @ s)"
    using read_line_text [of l LINE_ROOM "[]"] Cons.prems by (simp add: header_line_def)
  then show ?case using Cons by (simp add: skip_headers.simps [of "l @ _"] header_line_def)
qed

text \<open>
  After the proxy accepts, whatever header lines it sends, the first byte that the TLS handshake
  reads is the first byte behind the blank line, as long as every line has fewer than 255
  characters. A refusal (a status line without 200) closes the tunnel.
\<close>

theorem tunnel_leaves_payload:
  assumes "header_line status" "list_all header_line ls"
  shows "open_connect_tunnel (Some (concat (map (\<lambda>l. l @ CRLF2) (status # ls)) @ CRLF2 @ payload)) True
    = (if strstr status ''200'' = None then None else Some payload)"
proof -
  have "sock_read_line LINE_ROOM [] (status @ CRLF2 @ (concat (map (\<lambda>l. l @ CRLF2) ls) @ CRLF2 @ payload))
      = Some (status, concat (map (\<lambda>l. l @ CRLF2) ls) @ CRLF2 @ payload)"
    using read_line_text [of status LINE_ROOM "[]"] assms(1) by (simp add: header_line_def)
  then show ?thesis using skip_lines [OF assms(2), of payload] by (simp add: open_connect_tunnel_def)
qed

theorem tunnel_leaves_payload_witness:
  "open_connect_tunnel (Some (concat (map (\<lambda>l. l @ CRLF2) [''HTTP/1.1 200 OK'', ''Via: x'']) @ CRLF2 @ ''tls'')) True = Some ''tls''
   \<and> open_connect_tunnel (Some (concat (map (\<lambda>l. l @ CRLF2) [''HTTP/1.1 407 No'']) @ CRLF2 @ ''tls'')) True = None"
  using tunnel_leaves_payload [of "''HTTP/1.1 200 OK''" "[''Via: x'']" "''tls''"]
    tunnel_leaves_payload [of "''HTTP/1.1 407 No''" "[]" "''tls''"]
  by (simp add: header_line_def c_consts)

text \<open>A line of exactly 255 characters ends the header early: what follows it is taken for TLS data.\<close>

lemma read_line_full:
  assumes "CHR 0x0A \<notin> set l" "CHR 0x0D \<notin> set l" "length l = n"
  shows "sock_read_line n buf (l @ s) = Some (buf @ l, s)"
  using assms
proof (induction l arbitrary: n buf)
  case (Cons c l)
  then show ?case by (cases n) auto
qed simp

lemma long_line_ends_header:
  assumes "CHR 0x0A \<notin> set l" "CHR 0x0D \<notin> set l" "length l = LINE_ROOM"
  shows "skip_headers (l @ CRLF2 @ s) = s"
proof -
  have "sock_read_line LINE_ROOM [] (l @ CRLF2 @ s) = Some (l, CRLF2 @ s)" using read_line_full [OF assms] by simp
  moreover have "l \<noteq> []" using assms(3) by (auto simp: c_consts)
  ultimately show ?thesis using skip_lines [of "[]" s] by (simp add: skip_headers.simps [of "l @ _"])
qed

text \<open>For the port 443, host names from 110 characters on make the request longer than its buffer.\<close>

lemma over_read_iff: "over_read host 443 > 0 \<longleftrightarrow> length host \<ge> 110"
proof -
  have "show_nat 443 = ''443''" by code_simp
  then show ?thesis by (simp add: over_read_def connect_text_def CRLF2_def BLANK_LINE_def) linarith
qed

end
