(* ===== verification/Llm_Parse.thy ===== *)
theory Llm_Parse
  imports Agent_State Agent_Text Json_Lib
begin

text \<open>
  The parsers of model answers (\<^verbatim>\<open>services/ai_agent/src/llm/llm_parse.c\<close>): the tools in the format
  of the service, the calls in the two textual formats that some models use instead of the
  structured one, and the structured calls.

  Positions in the text are relative to the rest of the text the C code searches from; \<open>mem v\<close>
  says whether the buffer for the value \<open>v\<close> could be allocated.
\<close>

definition strchr :: "string \<Rightarrow> char \<Rightarrow> nat option" where
  "strchr s c = first_idx (\<lambda>x. x = c) s"

section \<open>Tools\<close>

definition tool_function :: "'j json_lib \<Rightarrow> 'j \<Rightarrow> 'j" where
  "tool_function lib def =
     jl_obj lib (
       (case get_string lib def ''name'' of Some n \<Rightarrow> [(''name'', jl_str lib n)] | None \<Rightarrow> [])
       @ (case get_string lib def ''description'' of Some d \<Rightarrow> [(''description'', jl_str lib d)] | None \<Rightarrow> [])
       @ [(''parameters'', case jl_get lib def ''input_schema'' of
            Some schema \<Rightarrow> schema
          | None \<Rightarrow> jl_obj lib [(''type'', jl_str lib ''object''), (''properties'', jl_obj lib [])])])"

definition build_openai_tools_array :: "'j json_lib \<Rightarrow> string option \<Rightarrow> 'j option" where
  "build_openai_tools_array lib tools_json =
     (case tools_json of
        None \<Rightarrow> None
      | Some t \<Rightarrow>
          (case Option.bind (jl_parse lib t) (jl_array lib) of
             None \<Rightarrow> None
           | Some defs \<Rightarrow>
               Some (jl_arr lib (map (\<lambda>d. jl_obj lib [(''type'', jl_str lib ''function''), (''function'', tool_function lib d)]) defs))))"

section \<open>Format 1: function and parameter tags\<close>

definition fn_tag :: string where "fn_tag = ''<function=''"
definition param_tag :: string where "param_tag = ''<parameter=''"
definition param_end :: string where "param_end = ''</parameter>''"

text \<open>
  The parameters from position \<open>pp\<close> of the text \<open>r\<close> on, before the end \<open>te\<close> of the call:
  \<open>key_at\<close> finds the key and the position of the value.
\<close>

definition value_at :: "(string \<Rightarrow> bool) \<Rightarrow> string \<Rightarrow> nat \<Rightarrow> string \<Rightarrow> nat \<Rightarrow> ((string \<times> string) list \<times> nat) option" where
  "value_at mem r te key vs =
     (case strstr (drop vs r) param_end of
        None \<Rightarrow> None
      | Some k \<Rightarrow>
          if vs + k > te then None
          else let v = take k (drop vs r) in Some (if mem v then [(take 63 key, v)] else [], vs + k + 12))"

definition xml_key_at :: "string \<Rightarrow> nat \<Rightarrow> nat \<Rightarrow> (string \<times> nat) option" where
  "xml_key_at r te pp =
     (case strstr (drop pp r) param_tag of
        None \<Rightarrow> None
      | Some i \<Rightarrow>
          let ps = pp + i in
          if ps \<ge> te then None
          else (case strchr (drop (ps + 11) r) (CHR ''>'') of
                  None \<Rightarrow> None
                | Some j \<Rightarrow> if ps + 11 + j \<ge> te then None else Some (take j (drop (ps + 11) r), ps + 11 + j + 1)))"

lemma xml_key_at_gt: "xml_key_at r te pp = Some (key, vs) \<Longrightarrow> pp < vs"
  by (auto simp: xml_key_at_def Let_def split: option.splits if_splits)

lemma value_at_gt: "value_at mem r te key vs = Some (a, pp) \<Longrightarrow> vs < pp"
  by (auto simp: value_at_def Let_def split: option.splits if_splits)

function xml_args :: "(string \<Rightarrow> bool) \<Rightarrow> string \<Rightarrow> nat \<Rightarrow> nat \<Rightarrow> (string \<times> string) list" where
  "xml_args mem r te pp =
     (if pp < te then
        (case xml_key_at r te pp of
           None \<Rightarrow> []
         | Some (key, vs) \<Rightarrow>
             (case value_at mem r te key vs of
                None \<Rightarrow> []
              | Some (a, pp') \<Rightarrow> a @ xml_args mem r te pp'))
      else [])"
  by pat_completeness auto
termination
  by (relation "measure (\<lambda>(mem, r, te, pp). te - pp)") (auto dest!: xml_key_at_gt value_at_gt)

declare xml_args.simps [simp del]

definition args_object :: "'j json_lib \<Rightarrow> (string \<times> string) list \<Rightarrow> 'j" where
  "args_object lib as = jl_obj lib (map (\<lambda>(k, v). (k, jl_str lib v)) as)"

text \<open>The call of the block that starts at \<open>ts\<close> and ends at \<open>te\<close>, if it names a function.\<close>

definition xml_call :: "'j json_lib \<Rightarrow> (string \<Rightarrow> bool) \<Rightarrow> nat \<Rightarrow> string \<Rightarrow> nat \<Rightarrow> nat \<Rightarrow> llm_tool_call option" where
  "xml_call lib mem n r ts te =
     (case strstr (drop ts r) fn_tag of
        None \<Rightarrow> None
      | Some i \<Rightarrow>
          let fs = ts + i in
          (case strchr (drop (fs + 10) r) (CHR ''>'') of
             None \<Rightarrow> None
           | Some j \<Rightarrow>
               if fs > te then None
               else Some \<lparr>call_id = ''xml_'' @ show_nat n, call_name = take 31 (take j (drop (fs + 10) r)),
                          call_input = jl_print lib (args_object lib (xml_args mem r te (fs + 10 + j + 1)))\<rparr>))"

function xml_calls :: "'j json_lib \<Rightarrow> (string \<Rightarrow> bool) \<Rightarrow> nat \<Rightarrow> string \<Rightarrow> llm_tool_call list" where
  "xml_calls lib mem n r =
     (if n < AGENT_MAX_TOOL_CALLS then
        (case strstr r open_tag of
           None \<Rightarrow> []
         | Some ts \<Rightarrow>
             (case strstr r close_tag of
                None \<Rightarrow> []
              | Some te \<Rightarrow>
                  if te \<le> ts then []
                  else (case xml_call lib mem n r ts te of
                          None \<Rightarrow> xml_calls lib mem n (drop (te + 12) r)
                        | Some c \<Rightarrow> c # xml_calls lib mem (Suc n) (drop (te + 12) r))))
      else [])"
  by pat_completeness auto
termination
  by (relation "measure (\<lambda>(lib, mem, n, r). length r)") (auto dest!: strstr_Some simp: close_tag_def)

declare xml_calls.simps [simp del]

text \<open>What both textual parsers do with the calls they found.\<close>

definition take_calls :: "llm_tool_call list \<Rightarrow> llm_response \<Rightarrow> llm_response" where
  "take_calls cs resp = (if cs = [] then resp else resp\<lparr>resp_calls := cs, resp_tool_use := True, resp_text := None\<rparr>)"

definition parse_xml_tool_calls :: "'j json_lib \<Rightarrow> (string \<Rightarrow> bool) \<Rightarrow> llm_response \<Rightarrow> llm_response" where
  "parse_xml_tool_calls lib mem resp =
     (case resp_text resp of
        None \<Rightarrow> resp
      | Some t \<Rightarrow>
          if resp_calls resp \<noteq> [] then resp
          else if strstr t open_tag = None then resp
          else take_calls (xml_calls lib mem 0 t) resp)"

section \<open>Format 2: tags with a name space\<close>

definition quot :: string where "quot = [CHR 0x22]"
definition invoke_tag :: string where "invoke_tag = ''<invoke name='' @ quot"
definition param_name_tag :: string where "param_name_tag = ''<parameter name='' @ quot"

definition ns_key_at :: "string \<Rightarrow> nat \<Rightarrow> nat \<Rightarrow> (string \<times> nat) option" where
  "ns_key_at r te pp =
     (case strstr (drop pp r) param_name_tag of
        None \<Rightarrow> None
      | Some i \<Rightarrow>
          let ps = pp + i; ks = ps + 17 in
          if ps \<ge> te then None
          else (case strchr (drop ks r) (CHR 0x22) of
                  None \<Rightarrow> None
                | Some j \<Rightarrow>
                    if ks + j \<ge> te then None
                    else (case strchr (drop (ks + j) r) (CHR ''>'') of
                            None \<Rightarrow> None
                          | Some l \<Rightarrow> if ks + j + l \<ge> te then None else Some (take j (drop ks r), ks + j + l + 1))))"

lemma ns_key_at_gt: "ns_key_at r te pp = Some (key, vs) \<Longrightarrow> pp < vs"
  by (auto simp: ns_key_at_def Let_def split: option.splits if_splits)

function ns_args :: "(string \<Rightarrow> bool) \<Rightarrow> string \<Rightarrow> nat \<Rightarrow> nat \<Rightarrow> (string \<times> string) list" where
  "ns_args mem r te pp =
     (if pp < te then
        (case ns_key_at r te pp of
           None \<Rightarrow> []
         | Some (key, vs) \<Rightarrow>
             (case value_at mem r te key vs of
                None \<Rightarrow> []
              | Some (a, pp') \<Rightarrow> a @ ns_args mem r te pp'))
      else [])"
  by pat_completeness auto
termination
  by (relation "measure (\<lambda>(mem, r, te, pp). te - pp)") (auto dest!: ns_key_at_gt value_at_gt)

declare ns_args.simps [simp del]

definition ns_call :: "'j json_lib \<Rightarrow> (string \<Rightarrow> bool) \<Rightarrow> nat \<Rightarrow> string \<Rightarrow> nat \<Rightarrow> nat \<Rightarrow> llm_tool_call option" where
  "ns_call lib mem n r ts te =
     (case strstr (drop ts r) invoke_tag of
        None \<Rightarrow> None
      | Some i \<Rightarrow>
          let ns = ts + i + 14 in
          if ts + i > te then None
          else (case strchr (drop ns r) (CHR 0x22) of
                  None \<Rightarrow> None
                | Some j \<Rightarrow>
                    if ns + j > te then None
                    else Some \<lparr>call_id = ''nsxml_'' @ show_nat n, call_name = take 31 (take j (drop ns r)),
                               call_input = jl_print lib (args_object lib (ns_args mem r te (ns + j)))\<rparr>))"

definition ns_close :: "string \<Rightarrow> string" where
  "ns_close p = ''</'' @ p @ ns_tag"

function ns_calls :: "'j json_lib \<Rightarrow> (string \<Rightarrow> bool) \<Rightarrow> nat \<Rightarrow> string \<Rightarrow> llm_tool_call list" where
  "ns_calls lib mem n r =
     (if n < AGENT_MAX_TOOL_CALLS then
        (case strstr r ns_tag of
           None \<Rightarrow> []
         | Some colon \<Rightarrow>
             (case back_to_lt r colon of
                None \<Rightarrow> []
              | Some ts \<Rightarrow>
                  let plen = colon - (ts + 1); ctag = ns_close (take plen (drop (ts + 1) r)) in
                  if plen = 0 \<or> plen > 31 then ns_calls lib mem n (drop (colon + 11) r)
                  else (case strstr (drop colon r) ctag of
                          None \<Rightarrow> ns_calls lib mem n (drop (colon + 11) r)
                        | Some e \<Rightarrow>
                            let te = colon + e; r' = drop (te + length ctag) r in
                            (case ns_call lib mem n r ts te of
                               None \<Rightarrow> ns_calls lib mem n r'
                             | Some c \<Rightarrow> c # ns_calls lib mem (Suc n) r'))))
      else [])"
  by pat_completeness auto
termination
  by (relation "measure (\<lambda>(lib, mem, n, r). length r)") (auto dest!: strstr_Some simp: ns_tag_def ns_close_def)

declare ns_calls.simps [simp del]

definition parse_ns_xml_tool_calls :: "'j json_lib \<Rightarrow> (string \<Rightarrow> bool) \<Rightarrow> llm_response \<Rightarrow> llm_response" where
  "parse_ns_xml_tool_calls lib mem resp =
     (case resp_text resp of
        None \<Rightarrow> resp
      | Some t \<Rightarrow>
          if resp_calls resp \<noteq> [] then resp
          else if strstr t ns_tag = None then resp
          else take_calls (ns_calls lib mem 0 t) resp)"

section \<open>Structured calls\<close>

text \<open>
  One element of \<^verbatim>\<open>tool_calls\<close>: an item that is missing or of another type leaves the zeroed field
  of the response as it was. \<open>obj_args\<close> says whether arguments given as an object are accepted
  and printed, as the client does, or only strings, as \<^verbatim>\<open>extract_openai_tool_calls\<close> does.
\<close>

definition call_arguments :: "'j json_lib \<Rightarrow> (string \<Rightarrow> bool) \<Rightarrow> bool \<Rightarrow> 'j \<Rightarrow> string option" where
  "call_arguments lib mem obj_args func =
     (case jl_get lib func ''arguments'' of
        None \<Rightarrow> None
      | Some a \<Rightarrow>
          (case jl_string lib a of
             Some t \<Rightarrow> if mem t then Some t else None
           | None \<Rightarrow> if obj_args \<and> jl_is_object lib a then jl_print lib a else None))"

definition openai_call :: "'j json_lib \<Rightarrow> (string \<Rightarrow> bool) \<Rightarrow> bool \<Rightarrow> 'j \<Rightarrow> llm_tool_call" where
  "openai_call lib mem obj_args tc =
     \<lparr>call_id = (case get_string lib tc ''id'' of None \<Rightarrow> [] | Some i \<Rightarrow> cstr_copy 64 i),
      call_name = (case jl_get lib tc ''function'' of
                     None \<Rightarrow> []
                   | Some f \<Rightarrow> (case get_string lib f ''name'' of None \<Rightarrow> [] | Some n \<Rightarrow> cstr_copy 32 n)),
      call_input = Option.bind (jl_get lib tc ''function'') (call_arguments lib mem obj_args)\<rparr>"

definition openai_calls :: "'j json_lib \<Rightarrow> (string \<Rightarrow> bool) \<Rightarrow> bool \<Rightarrow> 'j \<Rightarrow> llm_tool_call list" where
  "openai_calls lib mem obj_args message =
     (case get_array lib message ''tool_calls'' of
        None \<Rightarrow> []
      | Some tcs \<Rightarrow> map (openai_call lib mem obj_args) (take AGENT_MAX_TOOL_CALLS tcs))"

text \<open>Text and reasoning of a message, then its calls.\<close>

definition message_texts :: "'j json_lib \<Rightarrow> (string \<Rightarrow> bool) \<Rightarrow> 'j \<Rightarrow> llm_response \<Rightarrow> llm_response" where
  "message_texts lib mem message resp =
     (let resp1 = (case get_string lib message ''content'' of
                     Some t \<Rightarrow> if mem t then resp\<lparr>resp_text := Some t\<rparr> else resp\<lparr>resp_text := None\<rparr>
                   | None \<Rightarrow> resp)
      in case get_string lib message ''reasoning_content'' of
           Some (c # cs) \<Rightarrow> resp1\<lparr>resp_reasoning := (if mem (c # cs) then Some (c # cs) else None)\<rparr>
         | _ \<Rightarrow> resp1)"

definition add_calls :: "llm_tool_call list \<Rightarrow> llm_response \<Rightarrow> llm_response" where
  "add_calls cs resp = (if cs = [] then resp else resp\<lparr>resp_calls := cs, resp_tool_use := True\<rparr>)"

text \<open>On a response without calls, as after its initialisation.\<close>

definition extract_openai_tool_calls :: "'j json_lib \<Rightarrow> (string \<Rightarrow> bool) \<Rightarrow> 'j \<Rightarrow> llm_response \<Rightarrow> llm_response" where
  "extract_openai_tool_calls lib mem message resp =
     add_calls (openai_calls lib mem False message) (message_texts lib mem message resp)"

definition llm_response_free :: "llm_response \<Rightarrow> llm_response" where
  "llm_response_free resp = resp\<lparr>resp_text := None, resp_reasoning := None, resp_calls := [], resp_tool_use := False\<rparr>"

section \<open>Bounds of what is parsed\<close>

definition calls_fit :: "llm_tool_call list \<Rightarrow> bool" where
  "calls_fit cs \<longleftrightarrow> length cs \<le> AGENT_MAX_TOOL_CALLS \<and> (\<forall>c\<in>set cs. length (call_id c) < 64 \<and> length (call_name c) < 32)"

lemma openai_calls_fit: "calls_fit (openai_calls lib mem o' m)"
  by (auto simp: calls_fit_def openai_calls_def openai_call_def cstr_copy_def split: option.splits)

lemma show_nat_small: "n < 10 \<Longrightarrow> length (show_nat n) = 1"
  by (simp add: show_nat.simps)

lemma xml_call_fits:
  assumes "xml_call lib mem n r ts te = Some c" "n < AGENT_MAX_TOOL_CALLS"
  shows "length (call_id c) < 64 \<and> length (call_name c) < 32"
  using assms by (auto simp: xml_call_def Let_def show_nat_small c_consts split: option.splits if_splits)

lemma ns_call_fits:
  assumes "ns_call lib mem n r ts te = Some c" "n < AGENT_MAX_TOOL_CALLS"
  shows "length (call_id c) < 64 \<and> length (call_name c) < 32"
  using assms by (auto simp: ns_call_def Let_def show_nat_small c_consts split: option.splits if_splits)

lemma xml_calls_step:
  assumes "n < AGENT_MAX_TOOL_CALLS" "strstr r open_tag = Some ts" "strstr r close_tag = Some te" "\<not> te \<le> ts"
  shows "xml_calls lib mem n r = (case xml_call lib mem n r ts te of
           None \<Rightarrow> xml_calls lib mem n (drop (te + 12) r)
         | Some c \<Rightarrow> c # xml_calls lib mem (Suc n) (drop (te + 12) r))"
  using assms by (subst xml_calls.simps) simp

lemma xml_calls_stop:
  assumes "\<not> (n < AGENT_MAX_TOOL_CALLS \<and> (\<exists>ts te. strstr r open_tag = Some ts \<and> strstr r close_tag = Some te \<and> \<not> te \<le> ts))"
  shows "xml_calls lib mem n r = []"
  using assms by (subst xml_calls.simps) (auto split: option.split)

lemma xml_calls_fit:
  "length (xml_calls lib mem n r) \<le> AGENT_MAX_TOOL_CALLS - n
   \<and> (\<forall>c\<in>set (xml_calls lib mem n r). length (call_id c) < 64 \<and> length (call_name c) < 32)"
proof (induction lib mem n r rule: xml_calls.induct)
  case (1 lib mem n r)
  show ?case
  proof (cases "n < AGENT_MAX_TOOL_CALLS \<and> (\<exists>ts te. strstr r open_tag = Some ts \<and> strstr r close_tag = Some te \<and> \<not> te \<le> ts)")
    case True
    then obtain ts te where n: "n < AGENT_MAX_TOOL_CALLS" and t: "strstr r open_tag = Some ts" "strstr r close_tag = Some te" "\<not> te \<le> ts" by auto
    show ?thesis
    proof (cases "xml_call lib mem n r ts te")
      case None
      then show ?thesis using 1(1) [OF n t None] by (simp add: xml_calls_step [OF n t])
    next
      case (Some c)
      then show ?thesis using 1(2) [OF n t Some] n xml_call_fits [OF Some n] by (auto simp: xml_calls_step [OF n t])
    qed
  qed (simp add: xml_calls_stop)
qed

lemma ns_calls_step:
  assumes "n < AGENT_MAX_TOOL_CALLS" "strstr r ns_tag = Some k" "back_to_lt r k = Some ts"
    "plen = k - (ts + 1)" "ctag = ns_close (take plen (drop (ts + 1) r))"
  shows "plen = 0 \<or> plen > 31 \<Longrightarrow> ns_calls lib mem n r = ns_calls lib mem n (drop (k + 11) r)"
    "\<not> (plen = 0 \<or> plen > 31) \<Longrightarrow> strstr (drop k r) ctag = None \<Longrightarrow> ns_calls lib mem n r = ns_calls lib mem n (drop (k + 11) r)"
    "\<not> (plen = 0 \<or> plen > 31) \<Longrightarrow> strstr (drop k r) ctag = Some e \<Longrightarrow>
       ns_calls lib mem n r = (case ns_call lib mem n r ts (k + e) of
           None \<Rightarrow> ns_calls lib mem n (drop (k + e + length ctag) r)
         | Some c \<Rightarrow> c # ns_calls lib mem (Suc n) (drop (k + e + length ctag) r))"
  unfolding ns_calls.simps [of lib mem n r] assms(2,3) option.case Let_def assms(4) [symmetric] assms(5) [symmetric]
  using assms(1) by simp_all

lemma ns_calls_stop:
  assumes "\<not> (n < AGENT_MAX_TOOL_CALLS \<and> (\<exists>k ts. strstr r ns_tag = Some k \<and> back_to_lt r k = Some ts))"
  shows "ns_calls lib mem n r = []"
  using assms by (subst ns_calls.simps) (auto split: option.split)

lemma ns_calls_fit:
  "length (ns_calls lib mem n r) \<le> AGENT_MAX_TOOL_CALLS - n
   \<and> (\<forall>c\<in>set (ns_calls lib mem n r). length (call_id c) < 64 \<and> length (call_name c) < 32)"
proof (induction lib mem n r rule: ns_calls.induct)
  case (1 lib mem n r)
  show ?case
  proof (cases "n < AGENT_MAX_TOOL_CALLS \<and> (\<exists>k ts. strstr r ns_tag = Some k \<and> back_to_lt r k = Some ts)")
    case True
    then obtain k ts where n: "n < AGENT_MAX_TOOL_CALLS" and k: "strstr r ns_tag = Some k" "back_to_lt r k = Some ts" by auto
    define plen where plen: "plen = k - (ts + 1)"
    define ctag where ctag: "ctag = ns_close (take plen (drop (ts + 1) r))"
    note step = ns_calls_step [OF n k plen ctag] and ind = 1(1,2) [OF n k plen ctag] 1(3,4) [OF n k plen ctag _ _ refl refl]
    show ?thesis
    proof (cases "plen = 0 \<or> plen > 31")
      case True
      then show ?thesis using ind(1) [OF True] unfolding step(1) [OF True] by blast
    next
      case p: False
      show ?thesis
      proof (cases "strstr (drop k r) ctag")
        case None
        then show ?thesis using ind(2) [OF p None] unfolding step(2) [OF p None] by blast
      next
        case e: (Some e)
        show ?thesis
        proof (cases "ns_call lib mem n r ts (k + e)")
          case None
          then show ?thesis using ind(3) [OF p e None] by (simp add: step(3) [OF p e])
        next
          case (Some c)
          then show ?thesis using ind(4) [OF p e Some] n ns_call_fits [OF Some n] by (auto simp: step(3) [OF p e])
        qed
      qed
    qed
  qed (simp add: ns_calls_stop)
qed

lemma parsed_calls_fit:
  assumes "calls_fit (resp_calls resp)"
  shows "calls_fit (resp_calls (parse_ns_xml_tool_calls lib mem (parse_xml_tool_calls lib mem resp)))"
proof -
  have "calls_fit (xml_calls lib mem 0 t)" "calls_fit (ns_calls lib mem 0 t)" for t
    using xml_calls_fit [of lib mem 0 t] ns_calls_fit [of lib mem 0 t] by (simp_all add: calls_fit_def)
  then have "calls_fit (resp_calls (parse_xml_tool_calls lib mem r))" "calls_fit (resp_calls (parse_ns_xml_tool_calls lib mem r))"
    if "calls_fit (resp_calls r)" for r
    using that by (auto simp: parse_xml_tool_calls_def parse_ns_xml_tool_calls_def take_calls_def split: option.split)
  then show ?thesis using assms by blast
qed

section \<open>Round trip of the first format\<close>

text \<open>
  Calls as a model writes them, with a filler (such as a line end) between the tags.
\<close>

definition param_text :: "string \<Rightarrow> string \<times> string \<Rightarrow> string" where
  "param_text g kv = g @ param_tag @ fst kv @ ''>'' @ snd kv @ param_end"

definition fn_end :: string where "fn_end = ''</function>''"

definition tail_text :: "string \<Rightarrow> string" where
  "tail_text g = g @ fn_end @ g"

definition call_text :: "string \<Rightarrow> string \<times> (string \<times> string) list \<Rightarrow> string" where
  "call_text g c = g @ open_tag @ g @ fn_tag @ fst c @ ''>'' @ concat (map (param_text g) (snd c)) @ tail_text g @ close_tag"

definition free_of :: "char \<Rightarrow> string \<Rightarrow> bool" where
  "free_of c s \<longleftrightarrow> c \<notin> set s"

definition call_writable :: "string \<times> (string \<times> string) list \<Rightarrow> bool" where
  "call_writable c \<longleftrightarrow> free_of (CHR ''<'') (fst c) \<and> free_of (CHR ''>'') (fst c) \<and> length (fst c) < 32
     \<and> (\<forall>(k, v)\<in>set (snd c). free_of (CHR ''<'') k \<and> free_of (CHR ''>'') k \<and> length k < 64 \<and> free_of (CHR ''<'') v)"

definition written_call :: "'j json_lib \<Rightarrow> nat \<Rightarrow> string \<times> (string \<times> string) list \<Rightarrow> llm_tool_call" where
  "written_call lib n c = \<lparr>call_id = ''xml_'' @ show_nat n, call_name = fst c, call_input = jl_print lib (args_object lib (snd c))\<rparr>"

text \<open>A tag other than the one that is looked for is skipped like plain text.\<close>

lemma strstr_skip_tag:
  assumes "n \<noteq> []" "T \<noteq> []" "hd n \<notin> set (tl T)" "take (length n) T \<noteq> take (length T) n"
  shows "strstr (T @ r) n = map_option (\<lambda>k. k + length T) (strstr r n)"
proof -
  obtain a U where T: "T = a # U" using assms(2) by (cases T) auto
  have "take (length n) (T @ r) \<noteq> n"
  proof
    assume h: "take (length n) (T @ r) = n"
    have "take (length T) n = take (length T) (take (length n) (T @ r))" by (simp only: h)
    also have "\<dots> = take (length n) (take (length T) (T @ r))" by (simp only: take_take min.commute)
    also have "\<dots> = take (length n) T" by simp
    finally show False using assms(4) by simp
  qed
  moreover have "strstr (U @ r) n = map_option (\<lambda>k. k + length U) (strstr r n)"
    using strstr_skip [of n U r] assms(1,3) T by simp
  ultimately show ?thesis using T by (simp add: option.map_comp comp_def)
qed

lemma strchr_here: "c \<notin> set k \<Longrightarrow> strchr (k @ c # r) c = Some (length k)"
  unfolding strchr_def by (induction k) auto

lemma tag_lengths:
  "length param_tag = 11" "length param_end = 12" "length fn_tag = 10" "length fn_end = 11" "length open_tag = 11" "length close_tag = 12"
  by (simp_all add: param_tag_def param_end_def fn_tag_def fn_end_def open_tag_def close_tag_def)

lemma drop_length_add: "drop (length a + k) (a @ b) = drop k b"
  by simp

lemma xml_key_found:
  assumes "drop pp r = param_text g (k, v) @ rest" "free_of (CHR ''<'') g" "free_of (CHR ''>'') k"
    "pp + length (param_text g (k, v)) \<le> te"
  shows "xml_key_at r te pp = Some (k, pp + length g + 11 + length k + 1)"
proof -
  have s: "strstr (drop pp r) param_tag = Some (length g)"
    unfolding assms(1) param_text_def
    using strstr_skip [of param_tag g "param_tag @ k @ ''>'' @ v @ param_end @ rest"] assms(2)
    by (simp add: strstr_here free_of_def param_tag_def)
  have d: "drop (pp + length g + 11) r = k @ CHR ''>'' # v @ param_end @ rest"
  proof -
    have "drop (pp + length g + 11) r = drop (length g + 11) (drop pp r)" by (simp add: add_ac)
    also have "\<dots> = drop 11 (param_tag @ k @ ''>'' @ v @ param_end @ rest)"
      unfolding assms(1) param_text_def by (simp add: drop_length_add)
    finally show ?thesis by (simp add: param_tag_def)
  qed
  have l: "length (param_text g (k, v)) = length g + 11 + length k + 1 + length v + 12"
    by (simp add: param_text_def param_tag_def param_end_def)
  show ?thesis
    using s d strchr_here [of "CHR ''>''" k] assms(3,4) l by (simp add: xml_key_at_def Let_def free_of_def)
qed

lemma xml_value_found:
  assumes "drop vs r = v @ param_end @ rest" "free_of (CHR ''<'') v" "vs + length v \<le> te" "length k < 64"
  shows "value_at (\<lambda>_. True) r te k vs = Some ([(k, v)], vs + length v + 12)"
proof -
  have "strstr (drop vs r) param_end = Some (length v)"
    unfolding assms(1) using strstr_skip [of param_end v "param_end @ rest"] assms(2)
    by (simp add: strstr_here free_of_def param_end_def)
  then show ?thesis using assms by (simp add: value_at_def)
qed

lemma param_tag_after_tail:
  assumes "free_of (CHR ''<'') g" "strstr (tail_text g @ close_tag @ rest) param_tag = Some i"
  shows "length (tail_text g) \<le> i"
proof -
  have fe: "strstr (fn_end @ s) param_tag = map_option (\<lambda>k. k + length fn_end) (strstr s param_tag)" for s
    by (rule strstr_skip_tag) (simp_all add: param_tag_def fn_end_def)
  have g: "strstr (g @ s) param_tag = map_option (\<lambda>k. k + length g) (strstr s param_tag)" for s
    using strstr_skip [of param_tag g s] assms(1) by (simp add: param_tag_def free_of_def)
  show ?thesis using assms(2) unfolding tail_text_def append_assoc g fe by auto
qed

lemma xml_args_written:
  assumes "free_of (CHR ''<'') g" "\<forall>(k, v)\<in>set as. free_of (CHR ''<'') k \<and> free_of (CHR ''>'') k \<and> length k < 64 \<and> free_of (CHR ''<'') v"
    "drop pp r = concat (map (param_text g) as) @ tail_text g @ close_tag @ rest"
    "te = pp + length (concat (map (param_text g) as)) + length (tail_text g)"
  shows "xml_args (\<lambda>_. True) r te pp = as"
  using assms(2-4)
proof (induction as arbitrary: pp)
  case Nil
  have "xml_key_at r te pp = None"
  proof (cases "strstr (drop pp r) param_tag")
    case (Some i)
    then have "length (tail_text g) \<le> i" using param_tag_after_tail [OF assms(1)] Nil by simp
    then show ?thesis using Some Nil by (simp add: xml_key_at_def)
  qed (simp add: xml_key_at_def)
  then show ?case by (subst xml_args.simps) simp
next
  case (Cons a as)
  obtain k v where a: "a = (k, v)" by fastforce
  let ?rest = "concat (map (param_text g) as) @ tail_text g @ close_tag @ rest"
  let ?vs = "pp + length g + 11 + length k + 1"
  have l: "length (param_text g (k, v)) = length g + 11 + length k + 1 + length v + 12"
    by (simp add: param_text_def param_tag_def param_end_def)
  have d: "drop pp r = param_text g (k, v) @ ?rest" using Cons.prems(2) a by simp
  have key: "xml_key_at r te pp = Some (k, ?vs)"
    using xml_key_found [OF d assms(1)] Cons.prems(1,3) a by simp
  have dv: "drop ?vs r = v @ param_end @ ?rest"
  proof -
    have "drop ?vs r = drop (length g + (11 + (length k + 1))) (drop pp r)" by (simp add: add_ac)
    also have "\<dots> = drop (11 + (length k + 1)) (param_tag @ k @ ''>'' @ v @ param_end @ ?rest)"
      unfolding d param_text_def fst_conv snd_conv append_assoc drop_length_add ..
    also have "\<dots> = drop (length k + 1) (k @ ''>'' @ v @ param_end @ ?rest)"
      using drop_length_add [of param_tag "length k + 1" "k @ ''>'' @ v @ param_end @ ?rest"] unfolding tag_lengths .
    also have "\<dots> = v @ param_end @ ?rest" unfolding drop_length_add by simp
    finally show ?thesis .
  qed
  have val: "value_at (\<lambda>_. True) r te k ?vs = Some ([(k, v)], ?vs + length v + 12)"
    using xml_value_found [OF dv] Cons.prems(1,3) a l by simp
  have "drop (?vs + length v + 12) r = ?rest"
  proof -
    have "drop (?vs + length v + 12) r = drop (length v + 12) (drop ?vs r)" by (simp add: add_ac)
    also have "\<dots> = drop 12 (param_end @ ?rest)" unfolding dv drop_length_add ..
    finally show ?thesis by (simp add: param_end_def)
  qed
  then have "xml_args (\<lambda>_. True) r te (?vs + length v + 12) = as"
    using Cons.IH [of "?vs + length v + 12"] Cons.prems(1,3) a l by simp
  moreover have "pp < te" using Cons.prems(3) a l by simp
  ultimately show ?case using key val a by (subst xml_args.simps) simp
qed

text \<open>Text that a search runs over.\<close>

definition skips :: "string \<Rightarrow> string \<Rightarrow> bool" where
  "skips n x \<longleftrightarrow> (\<forall>s. strstr (x @ s) n = map_option (\<lambda>k. k + length x) (strstr s n))"

lemma skips_append: "skips n x \<Longrightarrow> skips n y \<Longrightarrow> skips n (x @ y)"
  by (simp add: skips_def option.map_comp comp_def add_ac)

lemma skips_concat: "(\<And>x. x \<in> set xs \<Longrightarrow> skips n x) \<Longrightarrow> skips n (concat xs)"
proof (induction xs)
  case Nil
  then show ?case by (simp add: skips_def option.map_ident)
next
  case (Cons x xs)
  then show ?case by (simp add: skips_append)
qed

lemma skips_plain: "n = CHR ''<'' # m \<Longrightarrow> free_of (CHR ''<'') x \<Longrightarrow> skips n x"
  using strstr_skip [of n x] by (simp add: skips_def free_of_def)

lemma skips_tag:
  "n = CHR ''<'' # m \<Longrightarrow> T \<noteq> [] \<Longrightarrow> free_of (CHR ''<'') (tl T) \<Longrightarrow> take (length n) T \<noteq> take (length T) n \<Longrightarrow> skips n T"
  using strstr_skip_tag [of n T] by (simp add: skips_def free_of_def)

lemma skips_here: "skips n x \<Longrightarrow> strstr (x @ n @ r) n = Some (length x)"
  by (simp add: skips_def strstr_here)

lemma close_tag_skips:
  assumes "free_of (CHR ''<'') g"
  shows "skips close_tag g" "skips close_tag open_tag" "skips close_tag param_end" "skips close_tag fn_end"
    "free_of (CHR ''<'') x \<Longrightarrow> skips close_tag (param_tag @ x)" "free_of (CHR ''<'') x \<Longrightarrow> skips close_tag (fn_tag @ x)"
proof -
  note d = close_tag_def open_tag_def param_end_def fn_end_def param_tag_def fn_tag_def free_of_def
  have c: "close_tag = CHR ''<'' # ''/tool_call>''" by (simp add: close_tag_def)
  show "skips close_tag g" by (rule skips_plain [OF c assms])
  show "skips close_tag open_tag" "skips close_tag param_end" "skips close_tag fn_end"
    by (rule skips_tag [OF c]; simp add: d)+
  show "free_of (CHR ''<'') x \<Longrightarrow> skips close_tag (param_tag @ x)" by (rule skips_tag [OF c]) (simp_all add: d)
  show "free_of (CHR ''<'') x \<Longrightarrow> skips close_tag (fn_tag @ x)" by (rule skips_tag [OF c]) (simp_all add: d)
qed

text \<open>A written call: its head up to the parameters, where it ends, and what is read from it.\<close>

definition head_text :: "string \<Rightarrow> string \<Rightarrow> string" where
  "head_text g name = g @ open_tag @ g @ fn_tag @ name @ ''>''"

lemma call_text_parts:
  "call_text g c = head_text g (fst c) @ concat (map (param_text g) (snd c)) @ tail_text g @ close_tag"
  by (simp add: call_text_def head_text_def)

lemma call_text_end:
  assumes "free_of (CHR ''<'') g" "call_writable c"
  shows "strstr (call_text g c @ rest) close_tag
    = Some (length (head_text g (fst c)) + length (concat (map (param_text g) (snd c))) + length (tail_text g))"
proof -
  note sk = close_tag_skips [OF assms(1)]
  have "skips close_tag (head_text g (fst c))"
    unfolding head_text_def using assms(2) by (intro skips_append sk) (auto simp: call_writable_def free_of_def)
  moreover have "skips close_tag (concat (map (param_text g) (snd c)))"
  proof (rule skips_concat)
    fix x assume "x \<in> set (map (param_text g) (snd c))"
    then obtain k v where kv: "(k, v) \<in> set (snd c)" "x = param_text g (k, v)" by auto
    then have f: "free_of (CHR ''<'') (k @ ''>'' @ v)" using assms(2) by (auto simp: call_writable_def free_of_def)
    have "x = g @ (param_tag @ k @ ''>'' @ v) @ param_end" by (simp add: kv(2) param_text_def)
    then show "skips close_tag x" using skips_append [OF sk(1) skips_append [OF sk(5) [OF f] sk(3)]] by simp
  qed
  moreover have "skips close_tag (tail_text g)"
    unfolding tail_text_def by (intro skips_append sk)
  ultimately have "skips close_tag (head_text g (fst c) @ concat (map (param_text g) (snd c)) @ tail_text g)"
    by (intro skips_append)
  from skips_here [OF this, of rest] show ?thesis by (simp add: call_text_parts)
qed

lemma call_text_start:
  assumes "free_of (CHR ''<'') g"
  shows "strstr (call_text g c @ rest) open_tag = Some (length g)"
proof -
  have "open_tag = CHR ''<'' # ''tool_call>''" by (simp add: open_tag_def)
  from skips_here [OF skips_plain [OF this assms]] show ?thesis by (simp add: call_text_def)
qed

lemma fn_tag_found:
  assumes "free_of (CHR ''<'') g"
  shows "strstr (open_tag @ g @ fn_tag @ rest) fn_tag = Some (11 + length g)"
proof -
  have c: "fn_tag = CHR ''<'' # ''function=''" by (simp add: fn_tag_def)
  have "skips fn_tag (open_tag @ g)"
    by (intro skips_append skips_plain [OF c assms] skips_tag [OF c]) (simp_all add: open_tag_def fn_tag_def free_of_def)
  from skips_here [OF this, of rest] show ?thesis by (simp add: tag_lengths)
qed

lemma call_text_read:
  assumes "free_of (CHR ''<'') g" "call_writable c"
    "te = length (head_text g (fst c)) + length (concat (map (param_text g) (snd c))) + length (tail_text g)"
  shows "xml_call lib (\<lambda>_. True) n (call_text g c @ rest) (length g) te = Some (written_call lib n c)"
proof -
  let ?r = "call_text g c @ rest" and ?ps = "concat (map (param_text g) (snd c)) @ tail_text g @ close_tag @ rest"
  have d0: "drop (length g) ?r = open_tag @ g @ fn_tag @ fst c @ ''>'' @ ?ps" by (simp add: call_text_def)
  have fs: "strstr (drop (length g) ?r) fn_tag = Some (11 + length g)" unfolding d0 by (rule fn_tag_found [OF assms(1)])
  have d1: "drop (length g + (11 + length g) + 10) ?r = fst c @ CHR ''>'' # ?ps"
  proof -
    have "length g + (11 + length g) + 10 = length (g @ open_tag @ g @ fn_tag)" by (simp add: tag_lengths)
    moreover have "?r = (g @ open_tag @ g @ fn_tag) @ fst c @ CHR ''>'' # ?ps" by (simp add: call_text_def)
    ultimately show ?thesis by (metis append_eq_conv_conj)
  qed
  have ch: "strchr (drop (length g + (11 + length g) + 10) ?r) (CHR ''>'') = Some (length (fst c))"
    unfolding d1 using assms(2) by (intro strchr_here) (simp add: call_writable_def free_of_def)
  have h: "length (head_text g (fst c)) = length g + (11 + length g) + 10 + length (fst c) + 1" by (simp add: head_text_def tag_lengths)
  have d2: "drop (length (head_text g (fst c))) ?r = ?ps" unfolding call_text_parts append_assoc by simp
  have "xml_args (\<lambda>_. True) ?r te (length (head_text g (fst c))) = snd c"
    by (rule xml_args_written [OF assms(1) _ d2]) (use assms(2,3) in \<open>auto simp: call_writable_def\<close>)
  then have as: "xml_args (\<lambda>_. True) ?r te (length g + (11 + length g) + 10 + length (fst c) + 1) = snd c" by (simp only: h)
  have le: "\<not> length g + (11 + length g) > te" using assms(3) h by simp
  have nm: "take 31 (take (length (fst c)) (fst c @ CHR ''>'' # ?ps)) = fst c" using assms(2) by (simp add: call_writable_def)
  show ?thesis
    unfolding xml_call_def fs option.case Let_def ch as
    unfolding d1 nm written_call_def using le by simp
qed

lemma xml_calls_written:
  assumes "free_of (CHR ''<'') g" "list_all call_writable cs" "free_of (CHR ''<'') post"
  shows "xml_calls lib (\<lambda>_. True) n (concat (map (call_text g) cs) @ post)
    = map (\<lambda>(i, c). written_call lib i c) (enumerate n (take (AGENT_MAX_TOOL_CALLS - n) cs))"
  using assms(2)
proof (induction cs arbitrary: n)
  case Nil
  have "strstr post open_tag = None"
    using strstr_skip [of open_tag post "[]"] assms(3) by (simp add: open_tag_def free_of_def)
  then show ?case by (simp add: xml_calls_stop)
next
  case (Cons c cs)
  let ?rest = "concat (map (call_text g) cs) @ post" let ?r = "call_text g c @ ?rest"
  define te where te: "te = length (head_text g (fst c)) + length (concat (map (param_text g) (snd c))) + length (tail_text g)"
  have w: "call_writable c" using Cons.prems by simp
  show ?case
  proof (cases "n < AGENT_MAX_TOOL_CALLS")
    case True
    have ts: "strstr ?r open_tag = Some (length g)" by (rule call_text_start [OF assms(1)])
    have end_at: "strstr ?r close_tag = Some te" unfolding te by (rule call_text_end [OF assms(1) w])
    have nle: "\<not> te \<le> length g" by (simp add: te head_text_def tag_lengths)
    have "te + 12 = length (call_text g c)" by (simp add: te call_text_parts tag_lengths)
    then have dr: "drop (te + 12) ?r = ?rest" by simp
    have "xml_calls lib (\<lambda>_. True) n ?r = written_call lib n c # xml_calls lib (\<lambda>_. True) (Suc n) ?rest"
      unfolding xml_calls_step [OF True ts end_at nle] call_text_read [OF assms(1) w te] option.case dr ..
    moreover have "AGENT_MAX_TOOL_CALLS - n = Suc (AGENT_MAX_TOOL_CALLS - Suc n)" using True by simp
    ultimately show ?thesis using Cons.IH [of "Suc n"] Cons.prems by simp
  qed (simp add: xml_calls_stop)
qed

text \<open>
  C14. Round trip of the textual format: a text in which a model writes tool calls with
  \<^verbatim>\<open><tool_call>\<close>, \<^verbatim>\<open><function=\<close> and \<^verbatim>\<open><parameter=\<close> tags, any filler between them, is parsed into
  exactly the first two of these calls, in order and numbered, each with its name and the printed
  object of its parameters; the text is dropped and the response counts as a tool turn. Names, keys
  and values must not contain tag brackets and fit their buffers.
\<close>

theorem written_calls_parsed:
  assumes "free_of (CHR ''<'') g" "list_all call_writable cs" "cs \<noteq> []" "free_of (CHR ''<'') post"
    "resp_text resp = Some (concat (map (call_text g) cs) @ post)" "resp_calls resp = []"
  shows "parse_xml_tool_calls lib (\<lambda>_. True) resp
    = resp\<lparr>resp_calls := map (\<lambda>(i, c). written_call lib i c) (enumerate 0 (take AGENT_MAX_TOOL_CALLS cs)),
           resp_tool_use := True, resp_text := None\<rparr>"
proof -
  obtain c cs' where cs: "cs = c # cs'" using assms(3) by (cases cs) auto
  have "strstr (concat (map (call_text g) cs) @ post) open_tag \<noteq> None"
    using call_text_start [OF assms(1), of c "concat (map (call_text g) cs') @ post"] cs by simp
  moreover have "map (\<lambda>(i, c). written_call lib i c) (enumerate 0 (take AGENT_MAX_TOOL_CALLS cs)) \<noteq> []"
    using cs by (simp add: c_consts)
  ultimately show ?thesis
    using xml_calls_written [OF assms(1,2,4), of lib 0] assms(6)
    unfolding parse_xml_tool_calls_def assms(5) option.case take_calls_def by auto
qed

definition empty_response :: llm_response where
  "empty_response = \<lparr>resp_text = None, resp_reasoning = None, resp_calls = [], resp_tool_use = False,
     prompt_tokens = 0, completion_tokens = 0, total_tokens = 0\<rparr>"

theorem written_calls_parsed_witness:
  "resp_calls (parse_xml_tool_calls (sample_lib (\<lambda>_. None) (\<lambda>_. Some ''{...}'')) (\<lambda>_. True)
      (empty_response\<lparr>resp_text := Some (call_text [CHR 0x0A] (''get_weather'', [(''city'', ''Rome'')]))\<rparr>))
    = [\<lparr>call_id = ''xml_'' @ show_nat 0, call_name = ''get_weather'', call_input = Some ''{...}''\<rparr>]"
  using written_calls_parsed [of "[CHR 0x0A]" "[(''get_weather'', [(''city'', ''Rome'')])]" "[]"
      "empty_response\<lparr>resp_text := Some (call_text [CHR 0x0A] (''get_weather'', [(''city'', ''Rome'')]))\<rparr>"
      "sample_lib (\<lambda>_. None) (\<lambda>_. Some ''{...}'')"]
  by (simp add: free_of_def call_writable_def empty_response_def written_call_def c_consts)

end
