(* ===== verification/Llm_Client.thy ===== *)
theory Llm_Client
  imports Http_Request Http_Proxy Llm_Parse
begin

text \<open>
  The LLM client (\<^verbatim>\<open>services/ai_agent/src/llm/llm_proxy.c\<close>, without the Bluetooth network): it builds
  the request, sends it directly or through the proxy, tries again while the server limits the rate,
  and reads text, tool calls and token counts from the answer.

  Every attempt reads the settings anew and meets its own network: an environment gives for each
  attempt the settings at that moment, the network, the allocator, and the connection through the
  proxy. A call that waits for ever is \<open>None\<close>.
\<close>

definition AGENT_LLM_MAX_RETRIES :: nat where [c_consts]: "AGENT_LLM_MAX_RETRIES = 3"
definition AGENT_LLM_RETRY_BASE_SEC :: nat where [c_consts]: "AGENT_LLM_RETRY_BASE_SEC = 2"
definition AGENT_LLM_STREAM_BUF_SIZE :: nat where [c_consts]: "AGENT_LLM_STREAM_BUF_SIZE = 8192"
definition AGENT_LLM_MAX_RESP_SIZE :: nat where [c_consts]: "AGENT_LLM_MAX_RESP_SIZE = 524288"
definition AGENT_LLM_MAX_TOKENS :: int where [c_consts]: "AGENT_LLM_MAX_TOKENS = 4096"
definition AGENT_LLM_MAX_TOKENS_OPENAI :: int where [c_consts]: "AGENT_LLM_MAX_TOKENS_OPENAI = 16384"

section \<open>Names and hosts\<close>

definition is_openai_compat_host :: "string \<Rightarrow> bool" where
  "is_openai_compat_host hst \<longleftrightarrow> strstr hst ''openai.com'' \<noteq> None \<or> strstr hst ''openrouter.ai'' \<noteq> None
     \<or> strstr hst ''xiaomimimo.com'' \<noteq> None"

definition model_name_for_api :: "string \<Rightarrow> string \<Rightarrow> string" where
  "model_name_for_api mdl hst =
     (if strstr hst ''openrouter.ai'' \<noteq> None then mdl
      else (case strchr mdl (CHR ''/'') of Some k \<Rightarrow> drop (k + 1) mdl | None \<Rightarrow> mdl))"

definition provider_of :: "string \<Rightarrow> string" where
  "provider_of mdl = (case strchr mdl (CHR ''/'') of Some k \<Rightarrow> take (min k 63) mdl | None \<Rightarrow> [])"

section \<open>The growing response buffer\<close>

record resp_buf =
  rb_data :: string
  rb_cap :: nat

definition resp_buf_init :: "bool \<Rightarrow> nat \<Rightarrow> resp_buf option" where
  "resp_buf_init mem cap = (if mem then Some \<lparr>rb_data = [], rb_cap = cap\<rparr> else None)"

text \<open>The capacity that holds \<open>need\<close> bytes and the NUL, by doubling. A buffer of size 0 cannot grow.\<close>

function grow_cap :: "(nat \<Rightarrow> bool) \<Rightarrow> nat \<Rightarrow> nat \<Rightarrow> nat option" where
  "grow_cap mem need cap =
     (if need < cap then Some cap
      else if cap = 0 \<or> cap * 2 > AGENT_LLM_MAX_RESP_SIZE then None
      else if \<not> mem (cap * 2) then None
      else grow_cap mem need (cap * 2))"
  by pat_completeness auto
termination
  by (relation "measure (\<lambda>(m, n, c). AGENT_LLM_MAX_RESP_SIZE + 1 - c)") auto

declare grow_cap.simps [simp del]

definition resp_buf_append :: "(nat \<Rightarrow> bool) \<Rightarrow> string \<Rightarrow> resp_buf \<Rightarrow> resp_buf option" where
  "resp_buf_append mem d rb =
     (case grow_cap mem (length (rb_data rb) + length d) (rb_cap rb) of
        None \<Rightarrow> None
      | Some cap \<Rightarrow> Some \<lparr>rb_data = rb_data rb @ d, rb_cap = cap\<rparr>)"

definition resp_buf_free :: "resp_buf \<Rightarrow> resp_buf" where
  "resp_buf_free rb = \<lparr>rb_data = [], rb_cap = 0\<rparr>"

section \<open>One HTTP call\<close>

record llm_net =
  ln_http :: http_net
  ln_tunnel :: "string \<Rightarrow> int \<Rightarrow> conn option"
  ln_mem :: "nat \<Rightarrow> bool"

text \<open>
  The outcome of a call: \<open>None\<close> an error, otherwise the status and the data, which the client
  reads as a C string.
\<close>

definition auth_header :: "llm_cfg \<Rightarrow> string" where
  "auth_header cfg = cstr_copy 256 (''Bearer '' @ s_api_key cfg)"

definition direct_headers :: "llm_cfg \<Rightarrow> (string \<times> string) list" where
  "direct_headers cfg = (''Authorization'', auth_header cfg)
     # (if provider_of (s_model cfg) \<noteq> [] then [(''X-Model-Provider-Id'', provider_of (s_model cfg))] else [])"

definition llm_http_direct :: "llm_net \<Rightarrow> llm_cfg \<Rightarrow> string \<Rightarrow> (int \<times> string) option option" where
  "llm_http_direct net cfg post_data =
     (let cap = AGENT_LLM_STREAM_BUF_SIZE in
      case resp_buf_init (ln_mem net cap) cap of
        None \<Rightarrow> Some None
      | Some rb \<Rightarrow>
          map_option (\<lambda>r. if hr_status r < 0 then None else Some (hr_status r, cstr (hr_body r)))
            (if s_llm_port cfg = ''443''
             then vela_https_post_json (ln_http net) (s_llm_host cfg) (s_llm_port cfg) (s_llm_path cfg) (direct_headers cfg) post_data cap
             else vela_http_post_json (ln_http net) (ln_mem net TLS_RAW_BUF_SIZE) (s_llm_host cfg) (s_llm_port cfg) (s_llm_path cfg)
                    (direct_headers cfg) post_data cap))"

definition proxy_header :: "llm_cfg \<Rightarrow> nat \<Rightarrow> string" where
  "proxy_header cfg body_len =
     ''POST '' @ s_llm_path cfg @ '' HTTP/1.1'' @ CRLF2 @ ''Host: '' @ s_llm_host cfg @ CRLF2
     @ ''Content-Type: application/json'' @ CRLF2 @ ''Authorization: '' @ auth_header cfg @ CRLF2
     @ (if strchr (s_model cfg) (CHR ''/'') = None then []
        else cstr_copy 128 (''X-Model-Provider-Id: '' @ provider_of (s_model cfg) @ CRLF2))
     @ ''Content-Length: '' @ show_nat body_len @ CRLF2 @ ''Connection: close'' @ BLANK_LINE"

text \<open>Reads of at most 4096 bytes until one brings nothing or the buffer cannot grow.\<close>

function proxy_read_all :: "(nat \<Rightarrow> bool) \<Rightarrow> resp_buf \<Rightarrow> net_event list \<Rightarrow> resp_buf option" where
  "proxy_read_all mem rb [] = None"
| "proxy_read_all mem rb (e # es) =
     (case proxy_conn_read 4096 e of (n, d, back) \<Rightarrow>
        if n \<le> 0 then Some rb
        else (case resp_buf_append mem d rb of
                None \<Rightarrow> Some rb
              | Some rb' \<Rightarrow> proxy_read_all mem rb' (back @ es)))"
  by pat_completeness auto
termination
proof (relation "measure (\<lambda>(m, rb, es). sum_list (map (\<lambda>e. case e of Arrive d \<Rightarrow> Suc (length d) | _ \<Rightarrow> 1) es))")
qed (auto simp: proxy_conn_read_def split: net_event.splits if_splits)

definition proxy_status :: "string \<Rightarrow> int" where
  "proxy_status raw =
     (if length raw > 5 \<and> take 5 raw = ''HTTP/''
      then (case strchr (cstr raw) (CHR '' '') of Some k \<Rightarrow> c_atoi (cstr (drop (k + 1) raw)) | None \<Rightarrow> 0)
      else 0)"

definition strip_header :: "string \<Rightarrow> string" where
  "strip_header raw = (case strstr (cstr raw) BLANK_LINE of Some k \<Rightarrow> drop (k + 4) raw | None \<Rightarrow> raw)"

definition llm_http_via_proxy :: "llm_net \<Rightarrow> llm_cfg \<Rightarrow> string \<Rightarrow> (int \<times> string) option option" where
  "llm_http_via_proxy net cfg post_data =
     (let port = (let p = c_atoi (s_llm_port cfg) in if p \<le> 0 then 443 else p) in
      case ln_tunnel net (s_llm_host cfg) port of
        None \<Rightarrow> Some None
      | Some c \<Rightarrow>
          (case c (proxy_header cfg (length post_data) @ post_data) of
             None \<Rightarrow> Some None
           | Some evs \<Rightarrow>
               (case resp_buf_init (ln_mem net AGENT_LLM_STREAM_BUF_SIZE) AGENT_LLM_STREAM_BUF_SIZE of
                  None \<Rightarrow> Some None
                | Some rb \<Rightarrow>
                    map_option (\<lambda>rb'. Some (proxy_status (rb_data rb'), cstr (strip_header (rb_data rb'))))
                      (proxy_read_all (ln_mem net) rb evs))))"

text \<open>The port is read once for the choice of the path and again, with the other settings, on the path.\<close>

definition llm_http_call :: "llm_net \<Rightarrow> llm_cfg \<Rightarrow> llm_cfg \<Rightarrow> string \<Rightarrow> (int \<times> string) option option" where
  "llm_http_call net cfg0 cfg post_data =
     (if s_llm_port cfg0 = ''443'' \<and> http_proxy_is_enabled cfg0 then llm_http_via_proxy net cfg post_data
      else llm_http_direct net cfg post_data)"

section \<open>Rate limits\<close>

record llm_attempt =
  at_net :: llm_net
  at_cfg0 :: llm_cfg
  at_cfg :: llm_cfg

text \<open>The outcome and the seconds slept before each further attempt.\<close>

function llm_send :: "(nat \<Rightarrow> llm_attempt) \<Rightarrow> string \<Rightarrow> nat \<Rightarrow> ((int \<times> string) option \<times> nat list) option" where
  "llm_send att post_data retry =
     (case llm_http_call (at_net (att retry)) (at_cfg0 (att retry)) (at_cfg (att retry)) post_data of
        None \<Rightarrow> None
      | Some None \<Rightarrow> Some (None, [])
      | Some (Some (status, d)) \<Rightarrow>
          if status \<noteq> 429 then Some (Some (status, d), [])
          else if retry \<ge> AGENT_LLM_MAX_RETRIES then Some (Some (429, []), [])
          else map_option (apsnd ((#) (AGENT_LLM_RETRY_BASE_SEC * 2 ^ retry))) (llm_send att post_data (retry + 1)))"
  by pat_completeness auto
termination
  by (relation "measure (\<lambda>(a, p, r). AGENT_LLM_MAX_RETRIES - r)") auto

declare llm_send.simps [simp del]

section \<open>Requests and answers\<close>

definition system_message :: "'j json_lib \<Rightarrow> string \<Rightarrow> 'j" where
  "system_message lib system_prompt = jl_obj lib [(''role'', jl_str lib ''system''), (''content'', jl_str lib system_prompt)]"

definition token_limit :: "'j json_lib \<Rightarrow> string \<Rightarrow> string \<times> 'j" where
  "token_limit lib hst =
     (if is_openai_compat_host hst then (''max_completion_tokens'', jl_num lib AGENT_LLM_MAX_TOKENS_OPENAI)
      else (''max_tokens'', jl_num lib AGENT_LLM_MAX_TOKENS))"

definition chat_body :: "'j json_lib \<Rightarrow> llm_cfg \<Rightarrow> string \<Rightarrow> 'j list \<Rightarrow> 'j option \<Rightarrow> 'j" where
  "chat_body lib cfg system_prompt messages tools =
     jl_obj lib ([(''model'', jl_str lib (model_name_for_api (s_model cfg) (s_llm_host cfg))), token_limit lib (s_llm_host cfg),
                  (''messages'', jl_arr lib (system_message lib system_prompt # messages))]
                 @ (case tools of None \<Rightarrow> [] | Some t \<Rightarrow> [(''tools'', t)]))"

definition extract_text :: "'j json_lib \<Rightarrow> 'j \<Rightarrow> nat \<Rightarrow> string" where
  "extract_text lib root sz =
     (case get_array lib root ''choices'' of
        Some (first # _) \<Rightarrow>
          (case Option.bind (jl_get lib first ''message'') (\<lambda>m. get_string lib m ''content'') of
             Some t \<Rightarrow> cstr_copy sz t
           | None \<Rightarrow> [])
      | _ \<Rightarrow> [])"

definition zero_response :: llm_response where
  "zero_response = \<lparr>resp_text = None, resp_reasoning = None, resp_calls = [], resp_tool_use = False,
     prompt_tokens = 0, completion_tokens = 0, total_tokens = 0\<rparr>"

definition usage_numbers :: "'j json_lib \<Rightarrow> 'j \<Rightarrow> llm_response \<Rightarrow> llm_response" where
  "usage_numbers lib root resp =
     (case jl_get lib root ''usage'' of
        None \<Rightarrow> resp
      | Some u \<Rightarrow>
          let num = (\<lambda>k old. case get_number lib u k of Some n \<Rightarrow> n | None \<Rightarrow> old) in
          resp\<lparr>prompt_tokens := num ''prompt_tokens'' (prompt_tokens resp),
               completion_tokens := num ''completion_tokens'' (completion_tokens resp),
               total_tokens := num ''total_tokens'' (total_tokens resp)\<rparr>)"

definition read_choice :: "'j json_lib \<Rightarrow> (string \<Rightarrow> bool) \<Rightarrow> 'j \<Rightarrow> 'j \<Rightarrow> llm_response" where
  "read_choice lib mem root choice =
     (let resp0 = zero_response\<lparr>resp_tool_use := (get_string lib choice ''finish_reason'' = Some ''tool_calls'')\<rparr>;
          resp1 = (case jl_get lib choice ''message'' of
                     None \<Rightarrow> resp0
                   | Some m \<Rightarrow> add_calls (openai_calls lib mem True m) (message_texts lib mem m resp0))
      in parse_ns_xml_tool_calls lib mem (parse_xml_tool_calls lib mem (usage_numbers lib root resp1)))"

definition llm_chat_tools ::
  "'j json_lib \<Rightarrow> (string \<Rightarrow> bool) \<Rightarrow> llm_cfg \<Rightarrow> (nat \<Rightarrow> llm_attempt) \<Rightarrow> string \<Rightarrow> 'j list \<Rightarrow> string option
    \<Rightarrow> (int \<times> llm_response \<times> nat list) option"
where
  "llm_chat_tools lib mem cfg att system_prompt messages tools_json =
     (if s_api_key cfg = [] then Some (ERROR, zero_response, [])
      else case jl_print lib (chat_body lib cfg system_prompt messages (build_openai_tools_array lib tools_json)) of
             None \<Rightarrow> Some (ERROR, zero_response, [])
           | Some post_data \<Rightarrow>
               (case llm_send att post_data 0 of
                  None \<Rightarrow> None
                | Some (None, slept) \<Rightarrow> Some (ERROR, zero_response, slept)
                | Some (Some (status, d), slept) \<Rightarrow>
                    if status \<noteq> 200 then Some (ERROR, zero_response, slept)
                    else (case jl_parse lib d of
                            None \<Rightarrow> Some (ERROR, zero_response, slept)
                          | Some root \<Rightarrow>
                              (case get_array lib root ''choices'' of
                                 Some (choice # _) \<Rightarrow> Some (OK, read_choice lib mem root choice, slept)
                               | _ \<Rightarrow> Some (ERROR, zero_response, slept)))))"

text \<open>The messages are given as the text of an array; a text that is not JSON counts as none.\<close>

definition llm_chat ::
  "'j json_lib \<Rightarrow> llm_cfg \<Rightarrow> (nat \<Rightarrow> llm_attempt) \<Rightarrow> string \<Rightarrow> string \<Rightarrow> nat \<Rightarrow> (int \<times> string \<times> nat list) option"
where
  "llm_chat lib cfg att system_prompt messages_json buf_size =
     (let say = (\<lambda>t. cstr_copy buf_size t) in
      if s_api_key cfg = [] then Some (ERROR, say ''Error: No API key configured'', [])
      else let messages = (case jl_parse lib messages_json of
                             None \<Rightarrow> []
                           | Some m \<Rightarrow> (case jl_array lib m of Some ms \<Rightarrow> ms | None \<Rightarrow> [])) in
           case jl_print lib (chat_body lib cfg system_prompt messages None) of
             None \<Rightarrow> Some (ERROR, say ''Error: Failed to build request'', [])
           | Some post_data \<Rightarrow>
               (case llm_send att post_data 0 of
                  None \<Rightarrow> None
                | Some (None, slept) \<Rightarrow> Some (ERROR, say ''Error: HTTP request failed'', slept)
                | Some (Some (status, d), slept) \<Rightarrow>
                    if status \<noteq> 200
                    then Some (ERROR, say (''API error (HTTP '' @ show_int status @ ''): '' @ take 200 d), slept)
                    else (case jl_parse lib d of
                            None \<Rightarrow> Some (ERROR, say ''Error: Failed to parse response'', slept)
                          | Some root \<Rightarrow>
                              let t = extract_text lib root buf_size in
                              Some (OK, if t = [] then say ''No response from LLM API'' else t, slept))))"

section \<open>Bounds\<close>

lemma chat_tools_calls_fit:
  assumes "llm_chat_tools lib mem cfg att p ms t = Some (err, resp, slept)"
  shows "calls_fit (resp_calls resp)"
proof -
  have z: "calls_fit []" by (simp add: calls_fit_def)
  have m: "resp_calls (message_texts lib mem m r) = resp_calls r" for m r
    by (auto simp: message_texts_def Let_def split: option.splits list.splits)
  have u: "resp_calls (usage_numbers lib root r) = resp_calls r" for root r
    by (auto simp: usage_numbers_def Let_def split: option.splits)
  have c: "calls_fit (resp_calls (add_calls cs r))" if "calls_fit cs" "calls_fit (resp_calls r)" for cs r
    using that by (simp add: add_calls_def)
  have "calls_fit (resp_calls (read_choice lib mem root choice))" for root choice
    unfolding read_choice_def Let_def
    by (rule parsed_calls_fit)
      (auto simp: u m zero_response_def intro!: c openai_calls_fit z split: option.splits)
  then show ?thesis using assms z
    by (auto simp: llm_chat_tools_def zero_response_def split: if_splits option.splits prod.splits list.splits)
qed

text \<open>The buffer of the proxy path grows to half a megabyte and no further.\<close>

lemma grow_cap_Some: "grow_cap mem need cap = Some c \<Longrightarrow> need < c \<and> cap \<le> c \<and> (cap \<le> AGENT_LLM_MAX_RESP_SIZE \<longrightarrow> c \<le> AGENT_LLM_MAX_RESP_SIZE)"
proof (induction mem need cap rule: grow_cap.induct)
  case (1 mem need cap)
  show ?case using 1(2) 1(1)
    by (auto simp: grow_cap.simps [of mem need cap] split: if_splits)
qed

lemma resp_buf_append_holds:
  assumes "resp_buf_append mem d rb = Some rb'"
  shows "rb_data rb' = rb_data rb @ d" "length (rb_data rb') < rb_cap rb'"
    "rb_cap rb \<le> AGENT_LLM_MAX_RESP_SIZE \<Longrightarrow> rb_cap rb' \<le> AGENT_LLM_MAX_RESP_SIZE"
  using assms grow_cap_Some [of mem "length (rb_data rb) + length d" "rb_cap rb"]
  by (auto simp: resp_buf_append_def split: option.splits)

text \<open>Every request line fits: the settings are cut to their buffers, so that the header stays below 1024 bytes.\<close>

definition cfg_fits :: "llm_cfg \<Rightarrow> bool" where
  "cfg_fits cfg \<longleftrightarrow> length (s_api_key cfg) < 128 \<and> length (s_model cfg) < 64 \<and> length (s_llm_host cfg) < 128
     \<and> length (s_llm_path cfg) < 128 \<and> length (s_llm_port cfg) < 8"

lemma show_nat_length: "n < 10 ^ k \<Longrightarrow> 0 < k \<Longrightarrow> length (show_nat n) \<le> k"
proof (induction k arbitrary: n)
  case (Suc k)
  show ?case
  proof (cases "n < 10")
    case True
    then show ?thesis by (simp add: show_nat.simps [of n])
  next
    case False
    have k: "0 < k" using Suc.prems(1) False by (cases k) auto
    have "n div 10 < 10 ^ k" using Suc.prems(1) by (simp add: less_mult_imp_div_less mult.commute)
    from Suc.IH [OF this k] False show ?thesis by (simp add: show_nat.simps [of n])
  qed
qed simp

lemma provider_short: "cfg_fits cfg \<Longrightarrow> length (provider_of (s_model cfg)) \<le> 63"
  by (auto simp: provider_of_def cfg_fits_def split: option.splits)

lemma auth_short: "cfg_fits cfg \<Longrightarrow> length (auth_header cfg) \<le> 134"
  by (auto simp: auth_header_def cstr_copy_def cfg_fits_def)

lemma proxy_header_fits:
  assumes "cfg_fits cfg" "n < 2 ^ 32"
  shows "length (proxy_header cfg n) < 1024"
proof -
  have "n < 10 ^ 10" using assms(2) by (rule less_trans) simp
  then have "length (show_nat n) \<le> 10" by (rule show_nat_length) simp
  moreover have "length (s_llm_host cfg) \<le> 127" "length (s_llm_path cfg) \<le> 127" using assms(1) by (auto simp: cfg_fits_def)
  moreover define q where "q = (if strchr (s_model cfg) (CHR ''/'') = None then []
      else cstr_copy 128 (''X-Model-Provider-Id: '' @ provider_of (s_model cfg) @ CRLF2))"
  moreover have "length (cstr_copy 128 x) \<le> 127" for x using length_cstr_copy [of 128 x] by simp
  then have "length q \<le> 127" by (simp add: q_def)
  ultimately show ?thesis using auth_short [OF assms(1)]
    unfolding proxy_header_def q_def [symmetric] by (simp add: CRLF2_def BLANK_LINE_def)
qed

section \<open>Rate limits\<close>

lemma llm_send_limited:
  assumes "retry < AGENT_LLM_MAX_RETRIES" "llm_http_call (at_net (att retry)) (at_cfg0 (att retry)) (at_cfg (att retry)) post = Some (Some (429, d))"
  shows "llm_send att post retry = map_option (apsnd ((#) (AGENT_LLM_RETRY_BASE_SEC * 2 ^ retry))) (llm_send att post (retry + 1))"
  using assms by (simp add: llm_send.simps [of att post retry])

definition limited :: "(nat \<Rightarrow> llm_attempt) \<Rightarrow> string \<Rightarrow> nat \<Rightarrow> bool" where
  "limited att post i \<longleftrightarrow> (\<exists>d. llm_http_call (at_net (att i)) (at_cfg0 (att i)) (at_cfg (att i)) post = Some (Some (429, d)))"

lemma llm_send_until:
  assumes "\<And>i. r \<le> i \<Longrightarrow> i < r + k \<Longrightarrow> limited att post i" "r + k \<le> AGENT_LLM_MAX_RETRIES"
  shows "llm_send att post r = map_option (apsnd (\<lambda>ss. map (\<lambda>i. AGENT_LLM_RETRY_BASE_SEC * 2 ^ i) [r..<r + k] @ ss)) (llm_send att post (r + k))"
  using assms
proof (induction k arbitrary: r)
  case 0
  then show ?case by (cases "llm_send att post r") auto
next
  case (Suc k)
  have "limited att post r" using Suc.prems(1) by simp
  then have "llm_send att post r = map_option (apsnd ((#) (AGENT_LLM_RETRY_BASE_SEC * 2 ^ r))) (llm_send att post (r + 1))"
    using llm_send_limited Suc.prems(2) by (auto simp: limited_def)
  moreover have "llm_send att post (r + 1) = map_option (apsnd (\<lambda>ss. map (\<lambda>i. AGENT_LLM_RETRY_BASE_SEC * 2 ^ i) [r + 1..<r + 1 + k] @ ss)) (llm_send att post (r + 1 + k))"
    using Suc.IH [of "r + 1"] Suc.prems by simp
  moreover have "[r..<r + Suc k] = r # [r + 1..<r + 1 + k]" by (simp add: upt_rec)
  ultimately show ?case by (simp add: option.map_comp comp_def apsnd_def map_prod_def split_def)
qed

abbreviation call_at :: "(nat \<Rightarrow> llm_attempt) \<Rightarrow> string \<Rightarrow> nat \<Rightarrow> (int \<times> string) option option" where
  "call_at att post i \<equiv> llm_http_call (at_net (att i)) (at_cfg0 (att i)) (at_cfg (att i)) post"

text \<open>
  C15. Rate limits are waited out: the request is sent again, at most three times and after 2, 4 and
  8 seconds, exactly as long as the server answers 429; the result is the outcome of the first
  attempt that was not limited (an answer, an error, or a wait without end), or 429 when all four
  were.
\<close>

theorem rate_limit_retries:
  "llm_send att post 0 =
     (case find (\<lambda>i. \<not> limited att post i) [0..<4] of
        None \<Rightarrow> Some (Some (429, []), [2, 4, 8])
      | Some k \<Rightarrow> map_option (\<lambda>r. (r, map (\<lambda>i. 2 ^ (i + 1)) [0..<k])) (call_at att post k))"
proof (cases "find (\<lambda>i. \<not> limited att post i) [0..<4]")
  case None
  then have lim: "limited att post i" if "i < 4" for i using that by (auto simp: find_None_iff)
  have "llm_send att post 0 = map_option (apsnd (\<lambda>ss. map (\<lambda>i. AGENT_LLM_RETRY_BASE_SEC * 2 ^ i) [0..<0 + 3] @ ss)) (llm_send att post (0 + 3))"
    by (rule llm_send_until) (simp_all add: lim c_consts)
  moreover have "llm_send att post 3 = Some (Some (429, []), [])"
    using lim [of 3] by (auto simp: limited_def llm_send.simps [of att post 3] c_consts)
  ultimately show ?thesis using None by (simp add: c_consts upt_rec)
next
  case (Some k)
  then have k: "k < 4" "\<not> limited att post k" and lim: "\<And>i. i < k \<Longrightarrow> limited att post i"
    by (auto simp: find_Some_iff nth_append)
  have "llm_send att post 0 = map_option (apsnd (\<lambda>ss. map (\<lambda>i. AGENT_LLM_RETRY_BASE_SEC * 2 ^ i) [0..<0 + k] @ ss)) (llm_send att post (0 + k))"
    by (rule llm_send_until) (use lim k in \<open>simp_all add: c_consts\<close>)
  moreover have "llm_send att post k = map_option (\<lambda>r. (r, [])) (call_at att post k)"
    using k(2) by (auto simp: limited_def llm_send.simps [of att post k] split: option.splits)
  ultimately show ?thesis using Some by (simp add: option.map_comp comp_def c_consts)
qed

section \<open>From the server to the agent\<close>

definition direct :: "llm_cfg \<Rightarrow> bool" where
  "direct cfg \<longleftrightarrow> cfg_fits cfg \<and> s_llm_port cfg = ''443'' \<and> \<not> http_proxy_is_enabled cfg"

definition request_text :: "llm_cfg \<Rightarrow> string \<Rightarrow> string" where
  "request_text cfg post = concat (header_lines ''POST'' (s_llm_host cfg) (s_llm_path cfg) (post_headers (direct_headers cfg)) (length post)) @ post"

lemma post_headers_direct: "post_headers (direct_headers cfg) = (''Content-Type'', ''application/json'') # direct_headers cfg"
  by (simp add: post_headers_def direct_headers_def)

lemma request_written:
  assumes "cfg_fits cfg" "length post < 2 ^ 32"
  shows "tls_write_request ''POST'' (s_llm_host cfg) (s_llm_path cfg) (post_headers (direct_headers cfg)) post = Some (request_text cfg post)"
proof -
  have "length post < 10 ^ 10" using assms(2) by (rule less_trans) simp
  then have "length (show_nat (length post)) \<le> 10" by (rule show_nat_length) simp
  moreover have "length (s_llm_host cfg) \<le> 127" "length (s_llm_path cfg) \<le> 127" using assms(1) by (auto simp: cfg_fits_def)
  ultimately have "length (concat (header_lines ''POST'' (s_llm_host cfg) (s_llm_path cfg) (post_headers (direct_headers cfg)) (length post))) < 4096"
    using auth_short [OF assms(1)] provider_short [OF assms(1)]
    unfolding concat_lines_length post_headers_direct direct_headers_def by (auto simp: post_headers_def split: if_splits)
  from write_request_fits [OF this] show ?thesis by (simp add: request_text_def)
qed

lemma direct_call:
  assumes "direct cfg" "length post < 2 ^ 32" "ln_mem net AGENT_LLM_STREAM_BUF_SIZE"
    "hn_pooled (ln_http net) (s_llm_host cfg) ''443'' = None" "hn_connect (ln_http net) (s_llm_host cfg) ''443'' = Inr c"
    "c (request_text cfg post) = Some evs" "tls_read_response AGENT_LLM_STREAM_BUF_SIZE evs = Some (r, es)" "hr_status r \<ge> 0"
  shows "llm_http_call net cfg cfg post = Some (Some (hr_status r, cstr (hr_body r)))"
proof -
  have d: "cfg_fits cfg" "s_llm_port cfg = ''443''" "\<not> http_proxy_is_enabled cfg" using assms(1) by (simp_all add: direct_def)
  have "vela_https_post_json (ln_http net) (s_llm_host cfg) ''443'' (s_llm_path cfg) (direct_headers cfg) post AGENT_LLM_STREAM_BUF_SIZE
      = map_option fst (tls_read_response AGENT_LLM_STREAM_BUF_SIZE evs)"
    by (rule post_fresh [OF assms(4,5) request_written [OF d(1) assms(2)] assms(6)])
  then show ?thesis using assms(3,7,8) d
    by (simp add: llm_http_call_def llm_http_direct_def resp_buf_init_def)
qed

text \<open>
  The server of an attempt: it gets the request in full on a new connection and answers with a
  header and a body, cut by the network into any pieces.
\<close>

definition served :: "llm_attempt \<Rightarrow> llm_cfg \<Rightarrow> string \<Rightarrow> string list \<Rightarrow> net_event list \<Rightarrow> bool" where
  "served a cfg post ds es \<longleftrightarrow> at_cfg0 a = cfg \<and> at_cfg a = cfg \<and> direct cfg \<and> length post < 2 ^ 32
     \<and> ln_mem (at_net a) AGENT_LLM_STREAM_BUF_SIZE \<and> hn_pooled (ln_http (at_net a)) (s_llm_host cfg) ''443'' = None
     \<and> (\<exists>c. hn_connect (ln_http (at_net a)) (s_llm_host cfg) ''443'' = Inr c \<and> c (request_text cfg post) = Some (map Arrive ds @ es))"

lemma served_call:
  assumes "served (att i) cfg post ds es" "tls_read_response AGENT_LLM_STREAM_BUF_SIZE (map Arrive ds @ es) = Some (r, es')" "hr_status r \<ge> 0"
  shows "call_at att post i = Some (Some (hr_status r, cstr (hr_body r)))"
  using assms direct_call [where net = "at_net (att i)" and cfg = cfg and post = post] by (auto simp: served_def)

lemma chat_tools_first:
  assumes "s_api_key cfg \<noteq> []" "jl_print lib (chat_body lib cfg p ms (build_openai_tools_array lib t)) = Some post"
    "call_at att post 0 = Some (Some (200, d))"
  shows "llm_chat_tools lib mem cfg att p ms t =
    (case jl_parse lib d of
       None \<Rightarrow> Some (ERROR, zero_response, [])
     | Some root \<Rightarrow>
         (case get_array lib root ''choices'' of
            Some (choice # _) \<Rightarrow> Some (OK, read_choice lib mem root choice, [])
          | _ \<Rightarrow> Some (ERROR, zero_response, [])))"
proof -
  have "llm_send att post 0 = Some (Some (200, d), [])" using assms(3) by (simp add: llm_send.simps)
  then show ?thesis using assms(1,2) by (simp add: llm_chat_tools_def)
qed

lemma answer_read:
  assumes "s_api_key cfg \<noteq> []" "jl_print lib (chat_body lib cfg p ms (build_openai_tools_array lib t)) = Some post"
    "served (att 0) cfg post ds es" "header_says h 200 (int (length body)) False keep" "list_all (\<lambda>d. d \<noteq> []) ds"
    "concat ds = h @ body" "CHR 0x00 \<notin> set body" "length body < AGENT_LLM_STREAM_BUF_SIZE"
    "jl_parse lib body = Some root" "get_array lib root ''choices'' = Some (choice # rest)"
  shows "llm_chat_tools lib mem cfg att p ms t = Some (OK, read_choice lib mem root choice, [])"
proof -
  from response_read [OF assms(4-8)] have "tls_read_response AGENT_LLM_STREAM_BUF_SIZE (map Arrive ds @ es)
      = Some (\<lparr>hr_status = 200, hr_body = body, hr_keep = keep\<rparr>, es)" .
  from served_call [where att = att and i = 0, OF assms(3) this] have "call_at att post 0 = Some (Some (200, body))"
    using assms(7) by (simp add: cstr_id)
  from chat_tools_first [where att = att, OF assms(1,2) this] assms(9,10) show ?thesis by simp
qed

text \<open>
  What the JSON document of an answer says, read through the library: the text of the first choice, the
  reason it finished, the calls with name and arguments, and the token counts.
\<close>

definition call_says :: "'j json_lib \<Rightarrow> 'j \<Rightarrow> string \<times> string \<times> string \<Rightarrow> bool" where
  "call_says lib tc c = (case c of (cid, name, args) \<Rightarrow>
     length cid < 64 \<and> length name < 32 \<and> get_string lib tc ''id'' = Some cid
     \<and> (case jl_get lib tc ''function'' of
          None \<Rightarrow> False
        | Some f \<Rightarrow> get_string lib f ''name'' = Some name \<and> get_string lib f ''arguments'' = Some args))"

definition message_says :: "'j json_lib \<Rightarrow> 'j \<Rightarrow> string \<Rightarrow> (string \<times> string \<times> string) list \<Rightarrow> bool" where
  "message_says lib m t cs \<longleftrightarrow> get_string lib m ''content'' = Some t \<and> get_string lib m ''reasoning_content'' = None
     \<and> (case get_array lib m ''tool_calls'' of None \<Rightarrow> cs = [] | Some tcs \<Rightarrow> list_all2 (call_says lib) tcs cs)"

definition answer_says :: "'j json_lib \<Rightarrow> 'j \<Rightarrow> string \<Rightarrow> string \<Rightarrow> (string \<times> string \<times> string) list \<Rightarrow> int \<Rightarrow> int \<Rightarrow> int \<Rightarrow> bool" where
  "answer_says lib root t reason cs pt ct tt \<longleftrightarrow>
     (case get_array lib root ''choices'' of
        Some (choice # _) \<Rightarrow> get_string lib choice ''finish_reason'' = Some reason
          \<and> (case jl_get lib choice ''message'' of None \<Rightarrow> False | Some m \<Rightarrow> message_says lib m t cs)
      | _ \<Rightarrow> False)
     \<and> (case jl_get lib root ''usage'' of
          None \<Rightarrow> False
        | Some u \<Rightarrow> get_number lib u ''prompt_tokens'' = Some pt \<and> get_number lib u ''completion_tokens'' = Some ct
            \<and> get_number lib u ''total_tokens'' = Some tt)"

lemma call_read:
  assumes "call_says lib tc (cid, name, args)"
  shows "openai_call lib (\<lambda>t. True) True tc = \<lparr>call_id = cid, call_name = name, call_input = Some args\<rparr>"
  using assms
  by (auto simp: call_says_def openai_call_def call_arguments_def get_string_def cstr_copy_fits bind_eq_Some_conv split: option.splits)

lemma calls_read:
  assumes "message_says lib m t cs"
  shows "openai_calls lib (\<lambda>t. True) True m
    = map (\<lambda>(cid, name, args). \<lparr>call_id = cid, call_name = name, call_input = Some args\<rparr>) (take AGENT_MAX_TOOL_CALLS cs)"
proof (cases "get_array lib m ''tool_calls''")
  case None
  then show ?thesis using assms by (simp add: openai_calls_def message_says_def)
next
  case (Some tcs)
  then have l: "list_all2 (call_says lib) tcs cs" using assms by (simp add: message_says_def)
  then have "map (openai_call lib (\<lambda>t. True) True) tcs = map (\<lambda>(cid, name, args). \<lparr>call_id = cid, call_name = name, call_input = Some args\<rparr>) cs"
  proof (induction rule: list_all2_induct)
    case (Cons tc tcs c cs)
    then show ?case using call_read [of lib tc] by (cases c) simp
  qed simp
  then show ?thesis using Some by (simp add: openai_calls_def flip: take_map)
qed

text \<open>A text that is not searched for calls, because there are calls or because it holds no tag of a call.\<close>

definition plain_text :: "string \<Rightarrow> bool" where
  "plain_text t \<longleftrightarrow> strstr t ''<tool_call>'' = None \<and> strstr t '':tool_call>'' = None"

lemma choice_read:
  assumes "answer_says lib root t reason cs pt ct tt" "cs \<noteq> [] \<or> plain_text t"
  obtains choice rest where "get_array lib root ''choices'' = Some (choice # rest)"
    "read_choice lib (\<lambda>t. True) root choice =
       \<lparr>resp_text = Some t, resp_reasoning = None,
        resp_calls = map (\<lambda>(cid, name, args). \<lparr>call_id = cid, call_name = name, call_input = Some args\<rparr>) (take 2 cs),
        resp_tool_use = (cs \<noteq> [] \<or> reason = ''tool_calls''), prompt_tokens = pt, completion_tokens = ct, total_tokens = tt\<rparr>"
proof -
  obtain choice rest m u where c: "get_array lib root ''choices'' = Some (choice # rest)"
    and fin: "get_string lib choice ''finish_reason'' = Some reason" and m: "jl_get lib choice ''message'' = Some m" "message_says lib m t cs"
    and u: "jl_get lib root ''usage'' = Some u" "get_number lib u ''prompt_tokens'' = Some pt"
      "get_number lib u ''completion_tokens'' = Some ct" "get_number lib u ''total_tokens'' = Some tt"
    using assms(1) by (auto simp: answer_says_def split: option.splits list.splits)
  have t: "get_string lib m ''content'' = Some t" "get_string lib m ''reasoning_content'' = None" using m(2) by (simp_all add: message_says_def)
  have tags: "open_tag = ''<tool_call>''" "ns_tag = '':tool_call>''" by (simp_all add: open_tag_def ns_tag_def)
  have "read_choice lib (\<lambda>t. True) root choice =
       \<lparr>resp_text = Some t, resp_reasoning = None,
        resp_calls = map (\<lambda>(cid, name, args). \<lparr>call_id = cid, call_name = name, call_input = Some args\<rparr>) (take 2 cs),
        resp_tool_use = (cs \<noteq> [] \<or> reason = ''tool_calls''), prompt_tokens = pt, completion_tokens = ct, total_tokens = tt\<rparr>"
    using assms(2) unfolding read_choice_def Let_def m(1) option.case calls_read [OF m(2)]
    by (cases "cs = []") (simp_all add: c_consts fin t u message_texts_def usage_numbers_def add_calls_def zero_response_def Let_def
        parse_xml_tool_calls_def parse_ns_xml_tool_calls_def plain_text_def tags)
  with c show ?thesis by (rule that)
qed

text \<open>
  C9. An answer reaches the agent. On a new connection straight to the server by TLS (no proxy), when
  the server gets the request, which always fits its buffers, and answers 200 with a
  \<^verbatim>\<open>Content-Length\<close>, any other header lines (none that names a transfer encoding or a connection; a
  chunked answer is not covered, see \<open>chunked_response_waits\<close>) and a JSON body of fewer than 8192
  bytes, however the network cuts the bytes and with memory to copy what is read: the client
  returns OK with exactly the text, the first two calls (with their ids, names and arguments)
  and the token counts that the first choice of the document has, and marks the answer as a tool
  use when there are calls or the reason is \<^verbatim>\<open>tool_calls\<close>. An answer without calls must not
  contain a tag of a call in its text.
\<close>

theorem answer_delivered:
  assumes "s_api_key cfg \<noteq> []" "jl_print lib (chat_body lib cfg p ms (build_openai_tools_array lib t)) = Some post"
    "served (att 0) cfg post ds es" "list_all other_line others" "length (reply_header others (length body)) < 8192"
    "list_all (\<lambda>d. d \<noteq> []) ds" "concat ds = reply_header others (length body) @ body" "CHR 0x00 \<notin> set body" "length body < 8192"
    "jl_parse lib body = Some root" "answer_says lib root answer reason cs pt ct tt" "cs \<noteq> [] \<or> plain_text answer"
  shows "llm_chat_tools lib (\<lambda>t. True) cfg att p ms t = Some (OK,
    \<lparr>resp_text = Some answer, resp_reasoning = None,
     resp_calls = map (\<lambda>(cid, name, args). \<lparr>call_id = cid, call_name = name, call_input = Some args\<rparr>) (take 2 cs),
     resp_tool_use = (cs \<noteq> [] \<or> reason = ''tool_calls''), prompt_tokens = pt, completion_tokens = ct, total_tokens = tt\<rparr>, [])"
proof -
  have "header_says (reply_header others (length body)) 200 (int (length body)) False True"
    using assms(4,5,9) by (intro reply_header_says) (simp_all add: c_consts)
  note h = this assms(6,7,8)
  have len: "length body < AGENT_LLM_STREAM_BUF_SIZE" using assms(9) by (simp add: c_consts)
  show ?thesis
    by (rule choice_read [OF assms(11,12)])
      (simp add: answer_read [where att = att, OF assms(1-3) h len assms(10)])
qed

text \<open>
  C39. A long answer is lost: a body of 8191 bytes or more is cut to its first 8191 bytes without
  an error, so that the client parses a fragment of the JSON text; when the library rejects it, the
  agent sees a failed call although the server has answered 200.
\<close>

theorem long_answer_cut:
  assumes "s_api_key cfg \<noteq> []" "jl_print lib (chat_body lib cfg p ms (build_openai_tools_array lib t)) = Some post"
    "served (att 0) cfg post ds es" "header_says h 200 (int (length body)) False keep" "list_all (\<lambda>d. d \<noteq> []) ds"
    "concat ds = h @ body" "CHR 0x00 \<notin> set body" "AGENT_LLM_STREAM_BUF_SIZE \<le> length body + 1"
    "jl_parse lib (take 8191 body) = None"
  shows "llm_chat_tools lib mem cfg att p ms t = Some (ERROR, zero_response, [])"
proof -
  from response_cut [OF assms(4-8)] obtain es' where "tls_read_response AGENT_LLM_STREAM_BUF_SIZE (map Arrive ds @ es)
      = Some (\<lparr>hr_status = 200, hr_body = take 8191 body, hr_keep = keep\<rparr>, es')" by (auto simp: c_consts)
  from served_call [where att = att and i = 0, OF assms(3) this] have "call_at att post 0 = Some (Some (200, cstr (take 8191 body)))" by simp
  moreover have "CHR 0x00 \<notin> set (take 8191 body)" using assms(7) by (meson in_set_takeD)
  ultimately show ?thesis using chat_tools_first [OF assms(1,2)] assms(9) by (simp add: cstr_id)
qed

section \<open>A small server\<close>

definition demo_cfg :: llm_cfg where
  "demo_cfg = boot_cfg\<lparr>s_api_key := ''k'', s_model := ''qwen-turbo'', s_llm_host := ''dashscope.aliyuncs.com''\<rparr>"

definition demo_attempt :: "string list \<Rightarrow> llm_attempt" where
  "demo_attempt ds = \<lparr>at_net = \<lparr>ln_http = \<lparr>hn_pooled = (\<lambda>h p. None), hn_connect = (\<lambda>h p. Inr (\<lambda>req. Some (map Arrive ds))),
     hn_plain = (\<lambda>h p. None)\<rparr>, ln_tunnel = (\<lambda>h p. None), ln_mem = (\<lambda>n. True)\<rparr>, at_cfg0 = demo_cfg, at_cfg = demo_cfg\<rparr>"

definition demo_root :: json where
  "demo_root = JObj [(''choices'', JArr [JObj [(''finish_reason'', JStr ''stop''), (''message'', JObj [(''content'', JStr ''Hi'')])]])]"

definition demo_json :: "json json_lib" where
  "demo_json = sample_lib (\<lambda>t. if t = ''hello'' then Some demo_root else None) (\<lambda>j. Some ''request'')"

lemma demo_served: "served (demo_attempt ds) demo_cfg ''request'' ds []"
  by (simp add: served_def demo_attempt_def direct_def cfg_fits_def demo_cfg_def boot_cfg_def http_proxy_is_enabled_def)

definition demo_choice :: json where
  "demo_choice = JObj [(''finish_reason'', JStr ''stop''), (''message'', JObj [(''content'', JStr ''Hi'')])]"

lemma demo_choices: "get_array demo_json demo_root ''choices'' = Some [demo_choice]"
  by (simp add: demo_json_def demo_root_def demo_choice_def get_array_def)

lemma demo_parse: "jl_parse demo_json ''hello'' = Some demo_root" "jl_print demo_json j = Some ''request''"
  by (simp_all add: demo_json_def)

definition demo_response :: llm_response where
  "demo_response = read_choice demo_json (\<lambda>t. True) demo_root demo_choice"

lemma demo_text: "resp_text demo_response = Some ''Hi''" by code_simp

lemma demo_hello: "header_says (plain_header ''5'') 200 (int (length ''hello'')) False True"
  "list_all (\<lambda>d. d \<noteq> []) [plain_header ''5'' @ ''he'', ''llo'']" "concat [plain_header ''5'' @ ''he'', ''llo''] = plain_header ''5'' @ ''hello''"
  "CHR 0x00 \<notin> set ''hello''" "length ''hello'' < AGENT_LLM_STREAM_BUF_SIZE"
  using plain_header_says [of "''5''" 5] by (simp_all add: c_consts)

lemma demo_key: "s_api_key demo_cfg \<noteq> []" by (simp add: demo_cfg_def)

lemma demo_call_ok:
  "llm_chat_tools demo_json (\<lambda>t. True) demo_cfg (\<lambda>i. demo_attempt [plain_header ''5'' @ ''he'', ''llo'']) p ms t = Some (OK, demo_response, [])"
  unfolding demo_response_def
  by (rule answer_read [where att = "\<lambda>i. demo_attempt [plain_header ''5'' @ ''he'', ''llo'']", OF demo_key demo_parse(2) demo_served demo_hello demo_parse(1) demo_choices])

definition tool_root :: json where
  "tool_root = JObj [(''choices'', JArr [JObj [(''finish_reason'', JStr ''tool_calls''), (''message'', JObj [(''content'', JStr ''One moment''),
     (''tool_calls'', JArr [JObj [(''id'', JStr ''c1''), (''function'', JObj [(''name'', JStr ''get_time''), (''arguments'', JStr ''{}'')])]])])]]),
     (''usage'', JObj [(''prompt_tokens'', JNum 7), (''completion_tokens'', JNum 3), (''total_tokens'', JNum 10)])]"

definition tool_json :: "json json_lib" where
  "tool_json = sample_lib (\<lambda>t. if t = ''hello'' then Some tool_root else None) (\<lambda>j. Some ''request'')"

lemma tool_root_says: "answer_says tool_json tool_root ''One moment'' ''tool_calls'' [(''c1'', ''get_time'', ''{}'')] 7 3 10"
  by (simp add: answer_says_def message_says_def call_says_def tool_json_def tool_root_def get_array_def get_string_def get_number_def)

definition server_line :: string where "server_line = ''Server: test''"

lemma server_line_ok: "list_all other_line [server_line]" "length (reply_header [server_line] 5) < 8192"
  by code_simp+

theorem answer_delivered_witness:
  "llm_chat_tools tool_json (\<lambda>t. True) demo_cfg (\<lambda>i. demo_attempt [reply_header [server_line] 5 @ ''he'', ''llo'']) ''You are helpful'' [] None
     = Some (OK, \<lparr>resp_text = Some ''One moment'', resp_reasoning = None,
         resp_calls = [\<lparr>call_id = ''c1'', call_name = ''get_time'', call_input = Some ''{}''\<rparr>],
         resp_tool_use = True, prompt_tokens = 7, completion_tokens = 3, total_tokens = 10\<rparr>, [])"
proof -
  have five: "length ''hello'' = 5" by simp
  note a = answer_delivered [where att = "\<lambda>i. demo_attempt [reply_header [server_line] 5 @ ''he'', ''llo'']" and lib = tool_json and body = "''hello''"
        and others = "[server_line]" and cs = "[(''c1'', ''get_time'', ''{}'')]" and p = "''You are helpful''" and ms = "[]" and t = None,
        OF demo_key _ demo_served _ _ _ _ _ _ _ tool_root_says, unfolded five]
  show ?thesis using a server_line_ok by (simp add: tool_json_def)
qed

theorem long_answer_cut_witness:
  "llm_chat_tools demo_json (\<lambda>t. True) demo_cfg (\<lambda>i. demo_attempt [plain_header ''9000'', replicate 9000 (CHR ''x'')]) ''p'' [] None
     = Some (ERROR, zero_response, [])"
proof (rule long_answer_cut [where post = "''request''" and ds = "[plain_header ''9000'', replicate 9000 (CHR ''x'')]" and h = "plain_header ''9000''"
      and body = "replicate 9000 (CHR ''x'')" and es = "[]" and keep = True])
  show "header_says (plain_header ''9000'') 200 (int (length (replicate 9000 (CHR ''x'')))) False True"
    using plain_header_says [of "''9000''" 9000] by (simp only: length_replicate) simp
  have "take 8191 (replicate 9000 (CHR ''x'')) \<noteq> ''hello''"
  proof
    assume "take 8191 (replicate 9000 (CHR ''x'')) = ''hello''"
    then have "CHR ''h'' \<in> set (take 8191 (replicate 9000 (CHR ''x'')))" by simp
    then show False by simp
  qed
  then show "jl_parse demo_json (take 8191 (replicate 9000 (CHR ''x''))) = None" by (simp add: demo_json_def)
  show "CHR 0x00 \<notin> set (replicate 9000 (CHR ''x''))" by simp
  show "AGENT_LLM_STREAM_BUF_SIZE \<le> length (replicate 9000 (CHR ''x'')) + 1" by (simp add: c_consts)
  have "replicate 9000 (CHR ''x'') \<noteq> []" by simp
  moreover have "plain_header ''9000'' \<noteq> []" by (simp add: plain_header_def)
  ultimately show "list_all (\<lambda>d. d \<noteq> []) [plain_header ''9000'', replicate 9000 (CHR ''x'')]" by (simp only: list.pred_inject simp_thms)
  show "concat [plain_header ''9000'', replicate 9000 (CHR ''x'')] = plain_header ''9000'' @ replicate 9000 (CHR ''x'')"
    by (simp only: concat.simps append_Nil2)
qed (simp_all only: demo_served, simp_all add: demo_json_def demo_cfg_def)

end
