(* ===== verification/Llm_Vision.thy ===== *)
theory Llm_Vision
  imports Llm_Client
begin

text \<open>
  Questions about images (\<^verbatim>\<open>services/ai_agent/src/llm/llm_vision.c\<close>): one variant that builds the request
  with the JSON library, and one that prints it into a buffer of its own, with the prompt escaped
  by hand and the image encoded in place. The Base64 encoder belongs to mbedTLS and is the
  argument \<open>b64\<close>; called without a buffer it reports the length of its text and one more byte.
\<close>

definition AGENT_VISION_MAX_TOKENS :: nat where [c_consts]: "AGENT_VISION_MAX_TOKENS = 4096"

definition AGENT_VISION_DEFAULT_PROMPT :: string where
  "AGENT_VISION_DEFAULT_PROMPT = ''Please analyze this image in detail. If it contains text, tables, or documents, extract and describe the content accurately.''"

definition default_mime :: "string option \<Rightarrow> string" where
  "default_mime m = (case m of Some (c # cs) \<Rightarrow> c # cs | _ \<Rightarrow> ''image/jpeg'')"

section \<open>The answer\<close>

definition vision_answer :: "'j json_lib \<Rightarrow> nat \<Rightarrow> (int \<times> string) option \<Rightarrow> int \<times> string" where
  "vision_answer lib buf_size out =
     (let say = (\<lambda>t. cstr_copy buf_size t) in
      case out of
        None \<Rightarrow> (ERROR, say ''Error: Vision HTTP request failed'')
      | Some (status, d) \<Rightarrow>
          if status \<noteq> 200 then (ERROR, say (''Vision API error (HTTP '' @ show_int status @ ''): '' @ take 200 d))
          else (case jl_parse lib d of
                  None \<Rightarrow> (ERROR, say ''Error: Failed to parse vision response'')
                | Some root \<Rightarrow>
                    let t = extract_text lib root buf_size in
                    (OK, if t = [] then say ''No response from Vision API'' else t)))"

section \<open>With the JSON library\<close>

definition vision_body :: "'j json_lib \<Rightarrow> llm_cfg \<Rightarrow> string option \<Rightarrow> string \<Rightarrow> string \<Rightarrow> 'j" where
  "vision_body lib cfg prompt image_b64 mime =
     (let txt_part = jl_obj lib [(''type'', jl_str lib ''text''),
            (''text'', jl_str lib (case prompt of Some p \<Rightarrow> p | None \<Rightarrow> AGENT_VISION_DEFAULT_PROMPT))];
          url = jl_obj lib [(''url'', jl_str lib (''data:'' @ mime @ '';base64,'' @ image_b64))];
          img_part = jl_obj lib [(''type'', jl_str lib ''image_url''), (''image_url'', url)];
          user_msg = jl_obj lib [(''role'', jl_str lib ''user''), (''content'', jl_arr lib [txt_part, img_part])]
      in jl_obj lib [(''model'', jl_str lib (model_name_for_api (s_model cfg) (s_llm_host cfg))),
           (if is_openai_compat_host (s_llm_host cfg) then ''max_completion_tokens'' else ''max_tokens'', jl_num lib (int AGENT_VISION_MAX_TOKENS)),
           (''messages'', jl_arr lib [user_msg])])"

text \<open>\<open>mem\<close> and \<open>mem_uri\<close>: whether the objects and the text of the URL can be allocated.\<close>

definition llm_chat_vision ::
  "'j json_lib \<Rightarrow> bool \<Rightarrow> bool \<Rightarrow> llm_cfg \<Rightarrow> llm_attempt \<Rightarrow> string option \<Rightarrow> string \<Rightarrow> string option \<Rightarrow> nat \<Rightarrow> (int \<times> string) option"
where
  "llm_chat_vision lib mem mem_uri cfg att prompt image_b64 mime_type buf_size =
     (let say = (\<lambda>t. cstr_copy buf_size t) in
      if s_api_key cfg = [] then Some (ERROR, say ''Error: No API key configured'')
      else if \<not> mem then Some (ERROR, say ''Error: OOM building vision JSON'')
      else if \<not> mem_uri then Some (ERROR, say ''Error: OOM building data URI'')
      else (case jl_print lib (vision_body lib cfg prompt image_b64 (default_mime mime_type)) of
              None \<Rightarrow> Some (ERROR, say ''Error: Failed to build vision request'')
            | Some post_data \<Rightarrow>
                map_option (vision_answer lib buf_size) (llm_http_call (at_net att) (at_cfg0 att) (at_cfg att) post_data)))"

section \<open>With a buffer of its own\<close>

definition low_hex :: "nat \<Rightarrow> char" where
  "low_hex d = char_of (if d < 10 then 48 + d else 87 + d)"

definition esc_char :: "char \<Rightarrow> string" where
  "esc_char c =
     (if c = CHR 0x22 then [CHR 0x5C, CHR 0x22]
      else if c = CHR 0x5C then [CHR 0x5C, CHR 0x5C]
      else if c = CHR 0x0A then [CHR 0x5C, CHR ''n'']
      else if c = CHR 0x0D then [CHR 0x5C, CHR ''r'']
      else if c = CHR 0x09 then [CHR 0x5C, CHR ''t'']
      else if c = CHR 0x08 then [CHR 0x5C, CHR ''b'']
      else if c = CHR 0x0C then [CHR 0x5C, CHR ''f'']
      else if of_char c < (32 :: nat)
      then [CHR 0x5C, CHR ''u'', CHR ''0'', CHR ''0'', low_hex (of_char c div 16), low_hex (of_char c mod 16)]
      else [c])"

definition json_escape_string :: "string \<Rightarrow> string" where
  "json_escape_string src = concat (map esc_char src)"

text \<open>The texts around the values, in the order of the format.\<close>

definition raw_header :: "string \<Rightarrow> string \<Rightarrow> nat \<Rightarrow> string \<Rightarrow> string \<Rightarrow> string" where
  "raw_header mdl tokens_key max_tokens escaped mime =
     ''{'' @ quot @ ''model'' @ quot @ '':'' @ quot @ mdl @ quot @ '','' @ quot @ tokens_key @ quot @ '':'' @ show_nat max_tokens
     @ '','' @ quot @ ''messages'' @ quot @ '':[{'' @ quot @ ''role'' @ quot @ '':'' @ quot @ ''user'' @ quot @ '','' @ quot @ ''content'' @ quot
     @ '':[{'' @ quot @ ''type'' @ quot @ '':'' @ quot @ ''text'' @ quot @ '','' @ quot @ ''text'' @ quot @ '':'' @ quot @ escaped @ quot
     @ ''},{'' @ quot @ ''type'' @ quot @ '':'' @ quot @ ''image_url'' @ quot @ '','' @ quot @ ''image_url'' @ quot @ '':{'' @ quot @ ''url'' @ quot
     @ '':'' @ quot @ ''data:'' @ mime @ '';base64,''"

text \<open>The format itself has two characters, \<^verbatim>\<open>%s\<close> or \<^verbatim>\<open>%d\<close>, for each of the five values.\<close>

definition raw_fixed :: nat where
  "raw_fixed = length (raw_header [] [] 0 [] []) - length (show_nat 0)"

definition hdr_fmt_length :: nat where
  "hdr_fmt_length = raw_fixed + 10"

definition trailer :: string where
  "trailer = quot @ ''}}]}]}''"

definition b64_need :: "(string \<Rightarrow> string) \<Rightarrow> string \<Rightarrow> nat" where
  "b64_need b64 raw = (if raw = [] then 0 else length (b64 raw) + 1)"

record raw_plan =
  rp_total :: nat
  rp_off :: nat
  rp_room :: int
  rp_header :: string

definition plan_raw :: "(string \<Rightarrow> string) \<Rightarrow> llm_cfg \<Rightarrow> string \<Rightarrow> string \<Rightarrow> string \<Rightarrow> raw_plan" where
  "plan_raw b64 cfg escaped mime raw =
     (let tokens_key = (if is_openai_compat_host (s_llm_host cfg) then ''max_completion_tokens'' else ''max_tokens'');
          hdr_max = hdr_fmt_length + 64 + 32 + length tokens_key + length escaped + length mime + 64;
          total = hdr_max + b64_need b64 raw + length trailer + 1;
          hdr = raw_header (model_name_for_api (s_model cfg) (s_llm_host cfg)) tokens_key AGENT_VISION_MAX_TOKENS escaped mime
      in \<lparr>rp_total = total, rp_off = length hdr, rp_room = int total - int (length hdr) - int (length trailer) - 1,
          rp_header = cstr_copy total hdr\<rparr>)"

definition llm_chat_vision_raw ::
  "'j json_lib \<Rightarrow> (string \<Rightarrow> string) \<Rightarrow> (nat \<Rightarrow> bool) \<Rightarrow> llm_cfg \<Rightarrow> llm_attempt \<Rightarrow> string option \<Rightarrow> string \<Rightarrow> string option \<Rightarrow> nat
    \<Rightarrow> (int \<times> string) option"
where
  "llm_chat_vision_raw lib b64 mem cfg att prompt raw mime_type buf_size =
     (let say = (\<lambda>t. cstr_copy buf_size t);
          mime = default_mime mime_type;
          p = (case prompt of Some (c # cs) \<Rightarrow> c # cs | _ \<Rightarrow> AGENT_VISION_DEFAULT_PROMPT);
          plan = plan_raw b64 cfg (json_escape_string p) mime raw
      in if s_api_key cfg = [] then Some (ERROR, say ''Error: No API key configured'')
         else if \<not> mem (6 * length p + 1) then Some (ERROR, say ''Error: OOM escaping prompt'')
         else if \<not> mem (rp_total plan) then Some (ERROR, say ''Error: OOM building vision request'')
         else if rp_room plan < int (b64_need b64 raw) then Some (ERROR, say ''Error: base64 encode failed (-42)'')
         else map_option (vision_answer lib buf_size)
                (llm_http_call (at_net att) (at_cfg0 att) (at_cfg att) (rp_header plan @ (if raw = [] then [] else b64 raw) @ trailer)))"

section \<open>The request is complete\<close>

lemma esc_char_length: "length (esc_char c) \<le> 6"
  by (simp add: esc_char_def)

lemma escape_length: "length (json_escape_string p) \<le> 6 * length p"
proof (induction p)
  case (Cons c p)
  then show ?case using esc_char_length [of c] by (simp add: json_escape_string_def)
qed (simp add: json_escape_string_def)

lemma model_name_short: "length (model_name_for_api m h) \<le> length m"
  by (simp add: model_name_for_api_def split: option.split)

lemma raw_header_length:
  "length (raw_header m k n e t) = raw_fixed + length m + length k + length (show_nat n) + length e + length t"
proof -
  have "length (show_nat 0) = 1" by (simp add: show_nat.simps)
  then show ?thesis by (simp add: raw_fixed_def raw_header_def quot_def)
qed

lemma plan_raw_fits:
  assumes "cfg_fits cfg"
  shows "rp_off (plan_raw bb cfg e m raw) < rp_total (plan_raw bb cfg e m raw)"
    "int (b64_need bb raw) \<le> rp_room (plan_raw bb cfg e m raw)"
    "rp_off (plan_raw bb cfg e m raw) + b64_need bb raw + length trailer + 1 \<le> rp_total (plan_raw bb cfg e m raw)"
proof -
  have "length (show_nat AGENT_VISION_MAX_TOKENS) \<le> 10" by (rule show_nat_length) (simp_all add: c_consts)
  moreover have "length (model_name_for_api (s_model cfg) (s_llm_host cfg)) \<le> 63"
    using model_name_short [of "s_model cfg" "s_llm_host cfg"] assms by (simp add: cfg_fits_def)
  ultimately show "rp_off (plan_raw bb cfg e m raw) < rp_total (plan_raw bb cfg e m raw)"
    "int (b64_need bb raw) \<le> rp_room (plan_raw bb cfg e m raw)"
    "rp_off (plan_raw bb cfg e m raw) + b64_need bb raw + length trailer + 1 \<le> rp_total (plan_raw bb cfg e m raw)"
    unfolding plan_raw_def Let_def raw_header_length hdr_fmt_length_def by simp_all
qed

text \<open>
  The request with an image is always complete: for settings as the client keeps them, the
  escaped prompt fits its buffer, the header is printed uncut, the encoder finds the room it asks
  for, and header, image and trailer end inside the allocated block. With memory, what is posted is
  exactly their concatenation.
\<close>

theorem vision_request_complete:
  assumes "cfg_fits cfg" "s_api_key cfg \<noteq> []" "\<And>n. mem n" "p \<noteq> []"
  shows "length (json_escape_string p) < 6 * length p + 1
    \<and> rp_off (plan_raw b64 cfg (json_escape_string p) (default_mime mime) raw) + b64_need b64 raw + length trailer + 1
        \<le> rp_total (plan_raw b64 cfg (json_escape_string p) (default_mime mime) raw)
    \<and> llm_chat_vision_raw lib b64 mem cfg att (Some p) raw mime buf_size =
        map_option (vision_answer lib buf_size) (llm_http_call (at_net att) (at_cfg0 att) (at_cfg att)
          (raw_header (model_name_for_api (s_model cfg) (s_llm_host cfg))
             (if is_openai_compat_host (s_llm_host cfg) then ''max_completion_tokens'' else ''max_tokens'')
             4096 (json_escape_string p) (default_mime mime) @ (if raw = [] then [] else b64 raw) @ trailer))"
proof -
  let ?plan = "plan_raw b64 cfg (json_escape_string p) (default_mime mime) raw"
  note f = plan_raw_fits [OF assms(1), where bb = b64 and e = "json_escape_string p" and m = "default_mime mime" and raw = raw]
  have "rp_header ?plan = raw_header (model_name_for_api (s_model cfg) (s_llm_host cfg))
             (if is_openai_compat_host (s_llm_host cfg) then ''max_completion_tokens'' else ''max_tokens'')
             4096 (json_escape_string p) (default_mime mime)"
    using f(1) unfolding plan_raw_def Let_def by (simp add: cstr_copy_fits c_consts)
  moreover have "(case Some p of Some (c # cs) \<Rightarrow> c # cs | _ \<Rightarrow> AGENT_VISION_DEFAULT_PROMPT) = p" using assms(4) by (cases p) simp_all
  ultimately show ?thesis using f(2,3) assms(2,3) escape_length [of p]
    unfolding llm_chat_vision_raw_def Let_def by (simp add: not_less)
qed

section \<open>The prompt stays inside its string\<close>

text \<open>A reader of JSON strings: up to the first quote that is not escaped.\<close>

definition simple_escape :: "char \<Rightarrow> char option" where
  "simple_escape e =
     (if e = CHR 0x22 \<or> e = CHR 0x5C \<or> e = CHR ''/'' then Some e
      else if e = CHR ''n'' then Some (CHR 0x0A) else if e = CHR ''r'' then Some (CHR 0x0D)
      else if e = CHR ''t'' then Some (CHR 0x09) else if e = CHR ''b'' then Some (CHR 0x08)
      else if e = CHR ''f'' then Some (CHR 0x0C) else None)"

fun read_json_char :: "string \<Rightarrow> (char \<times> string) option" where
  "read_json_char [] = None"
| "read_json_char (c # cs) =
     (if c = CHR 0x22 \<or> of_char c < (32 :: nat) then None
      else if c \<noteq> CHR 0x5C then Some (c, cs)
      else (case cs of
              [] \<Rightarrow> None
            | e # cs' \<Rightarrow>
                if e = CHR ''u''
                then (case map hex_nibble (take 4 cs') of
                        [Some 0, Some 0, Some a, Some b] \<Rightarrow> Some (char_of (16 * a + b), drop 4 cs')
                      | _ \<Rightarrow> None)
                else map_option (\<lambda>x. (x, cs')) (simple_escape e)))"

lemma read_json_char_shorter: "read_json_char s = Some (c, r) \<Longrightarrow> length r < length s"
  by (cases s) (auto split: if_splits list.splits option.splits nat.splits)

function read_json_string :: "string \<Rightarrow> (string \<times> string) option" where
  "read_json_string s =
     (if s \<noteq> [] \<and> hd s = CHR 0x22 then Some ([], tl s)
      else case read_json_char s of
             None \<Rightarrow> None
           | Some (c, r) \<Rightarrow> map_option (\<lambda>(cs, rest). (c # cs, rest)) (read_json_string r))"
  by pat_completeness auto
termination
  by (relation "measure length") (auto dest: read_json_char_shorter)

declare read_json_string.simps [simp del]

lemma low_hex_digit: "d < 16 \<Longrightarrow> hex_nibble (low_hex d) = Some d"
  using hex_nibble_char [of d] by (simp add: low_hex_def)

lemma esc_char_read: "read_json_char (esc_char c @ r) = Some (c, r) \<and> esc_char c \<noteq> [] \<and> hd (esc_char c) \<noteq> CHR 0x22"
proof (cases "c = CHR 0x22 \<or> c = CHR 0x5C \<or> c = CHR 0x0A \<or> c = CHR 0x0D \<or> c = CHR 0x09 \<or> c = CHR 0x08 \<or> c = CHR 0x0C")
  case True
  then show ?thesis by (elim disjE) (simp_all add: esc_char_def simple_escape_def)
next
  case False
  show ?thesis
  proof (cases "of_char c < (32 :: nat)")
    case True
    have "of_char c div 16 < (16 :: nat)" "of_char c mod 16 < (16 :: nat)" using True by simp_all
    then have h: "hex_nibble (low_hex (of_char c div 16)) = Some (of_char c div 16)"
      "hex_nibble (low_hex (of_char c mod 16)) = Some (of_char c mod 16)" by (simp_all add: low_hex_digit)
    have z: "hex_nibble (CHR ''0'') = Some 0" by (simp add: hex_nibble_def)
    have "esc_char c = [CHR 0x5C, CHR ''u'', CHR ''0'', CHR ''0'', low_hex (of_char c div 16), low_hex (of_char c mod 16)]"
      using False True by (simp add: esc_char_def)
    then show ?thesis by (simp add: h z)
  next
    case plain: False
    then have "esc_char c = [c]" using False by (simp add: esc_char_def)
    then show ?thesis using False plain by simp
  qed
qed

text \<open>
  C16. A prompt cannot leave its place in the request: whatever bytes it has (quotes, backslashes,
  control characters), a JSON reader at the start of the escaped prompt reads exactly the prompt and
  stops at the quote that the request puts behind it.
\<close>

theorem prompt_stays_inside: "read_json_string (json_escape_string p @ quot @ rest) = Some (p, rest)"
proof (induction p)
  case Nil
  then show ?case by (simp add: json_escape_string_def quot_def read_json_string.simps)
next
  case (Cons c p)
  have e: "json_escape_string (c # p) @ quot @ rest = esc_char c @ json_escape_string p @ quot @ rest"
    by (simp add: json_escape_string_def)
  have "\<not> (hd (esc_char c @ json_escape_string p @ quot @ rest) = CHR 0x22)" using esc_char_read [of c] by simp
  then show ?case unfolding e using Cons esc_char_read [of c "json_escape_string p @ quot @ rest"]
    by (simp add: read_json_string.simps [of "esc_char c @ _"])
qed

theorem vision_request_complete_witness:
  "\<exists>post. llm_chat_vision_raw demo_json (\<lambda>r. r) (\<lambda>n. True) demo_cfg (demo_attempt [plain_header ''5'' @ ''he'', ''llo'']) (Some ''what?'') ''img'' None 100
    = map_option (vision_answer demo_json 100) (llm_http_call (at_net (demo_attempt [plain_header ''5'' @ ''he'', ''llo''])) demo_cfg demo_cfg post)"
  using vision_request_complete [of demo_cfg "\<lambda>n. True" "''what?''" "\<lambda>r. r" None "''img''" demo_json
      "demo_attempt [plain_header ''5'' @ ''he'', ''llo'']" 100]
  by (auto simp: cfg_fits_def demo_cfg_def boot_cfg_def demo_attempt_def)

end
