(* ===== verification/Agent_Client.thy ===== *)
theory Agent_Client
  imports Agent_Props Llm_Client
begin

text \<open>
  The agent on the real LLM client: the messages of \<^verbatim>\<open>core/agent_loop.c\<close> as the JSON that it builds, and
  the message properties for an agent whose every LLM call is a call of \<^verbatim>\<open>llm_chat_tools\<close>, whatever
  settings and network that call meets.
\<close>

section \<open>Messages as JSON\<close>

definition text_json :: "'j json_lib \<Rightarrow> string \<Rightarrow> string \<Rightarrow> 'j" where
  "text_json lib role content = jl_obj lib [(''role'', jl_str lib role), (''content'', jl_str lib content)]"

definition call_json :: "'j json_lib \<Rightarrow> llm_tool_call \<Rightarrow> 'j" where
  "call_json lib c =
     jl_obj lib [(''id'', jl_str lib (call_id c)), (''type'', jl_str lib ''function''),
       (''function'', jl_obj lib [(''name'', jl_str lib (call_name c)),
          (''arguments'', jl_str lib (case call_input c of Some i \<Rightarrow> i | None \<Rightarrow> ''{}''))])]"

definition assistant_json :: "'j json_lib \<Rightarrow> string option \<Rightarrow> string option \<Rightarrow> llm_tool_call list \<Rightarrow> 'j" where
  "assistant_json lib t reasoning calls =
     jl_obj lib ([(''role'', jl_str lib ''assistant''), (''content'', case t of Some s \<Rightarrow> jl_str lib s | None \<Rightarrow> jl_null lib)]
       @ (case reasoning of Some r \<Rightarrow> [(''reasoning_content'', jl_str lib r)] | None \<Rightarrow> [])
       @ (if calls = [] then [] else [(''tool_calls'', jl_arr lib (map (call_json lib) calls))]))"

definition result_json :: "'j json_lib \<Rightarrow> string \<Rightarrow> string \<Rightarrow> 'j" where
  "result_json lib cid content =
     jl_obj lib [(''role'', jl_str lib ''tool''), (''tool_call_id'', jl_str lib cid), (''content'', jl_str lib content)]"

fun chat_json :: "'j json_lib \<Rightarrow> chat_msg \<Rightarrow> 'j" where
  "chat_json lib (Text_Msg role content) = text_json lib role content"
| "chat_json lib (Assistant_Msg t r calls) = assistant_json lib t r calls"
| "chat_json lib (Tool_Msg cid content) = result_json lib cid content"

text \<open>A call that the client has read is echoed so that it reads the same again.\<close>

lemma call_echo:
  assumes "length (call_id c) < 64" "length (call_name c) < 32" "call_input c = Some i" "mem i"
  shows "openai_call (sample_lib q r) mem True (call_json (sample_lib q r) c) = c"
  using assms by (simp add: openai_call_def call_json_def get_string_def call_arguments_def cstr_copy_fits)

section \<open>The agent with the client\<close>

definition uses_client :: "'w agent_env \<Rightarrow> 'j json_lib \<Rightarrow> (string \<Rightarrow> bool) \<Rightarrow> bool" where
  "uses_client env lib mem \<longleftrightarrow> (\<forall>p ms t w. \<exists>cfg att slept.
     llm_chat_tools lib mem cfg att p (map (chat_json lib) ms) t = Some (fst (ae_llm env p ms t w), fst (snd (ae_llm env p ms t w)), slept))"

lemma client_few_calls:
  assumes "uses_client env lib mem" "from_llm env r"
  shows "few_calls r"
proof -
  obtain p ms t w where r: "r = fst (snd (ae_llm env p ms t w))" using assms(2) by (auto simp: from_llm_def)
  obtain cfg att slept where "llm_chat_tools lib mem cfg att p (map (chat_json lib) ms) t = Some (fst (ae_llm env p ms t w), r, slept)"
    using assms(1) unfolding uses_client_def r by blast
  from chat_tools_calls_fit [OF this] show ?thesis by (simp add: few_calls_def calls_fit_def)
qed

text \<open>
  C3. The whole path of a message: an agent that asks the LLM through the client (under any settings,
  with any answers and network failures, as long as each call returns) handles every message with a
  content within at most 21 LLM calls and 22 tool runs, and, while memory can be allocated, with
  exactly one reply to the message's own channel and chat, after at most one status phrase.
\<close>

theorem message_handled_with_client:
  assumes "prompt_fits env bufs" "msg_content msg \<noteq> None" "order_ok env" "uses_client env lib mem" "\<And>w. ae_mem env w"
  shows "\<exists>s' l t st. process_message env bufs msg s = Some s' \<and> ag_log s' = ag_log s @ l \<and> llm_calls l \<le> 21 \<and> tool_runs l \<le> 22
    \<and> sent_msgs l = st @ [reply_to msg t] \<and> length st \<le> 1"
proof -
  obtain s' where s': "process_message env bufs msg s = Some s'" using process_total [OF assms(1,2)] by blast
  obtain ms where ms: "replied env msg ms" "eff (\<lambda>_. True) 21 22 ms s s'"
    using any_chat.process_eff [OF assms(3) client_few_calls [OF assms(4)] _ s'] by auto
  from ms(2) obtain l where l: "ag_log s' = ag_log s @ l" "sent_msgs l = ms" "llm_calls l \<le> 21" "tool_runs l \<le> 22" by (auto simp: eff_def)
  moreover from ms(1) assms(5) obtain st t where "working_status msg 0 st" "ms = st @ [reply_to msg t]" by (auto simp: replied_def)
  moreover from this(1) have "length st \<le> 1" by (auto simp: working_status_def)
  ultimately show ?thesis using s' by blast
qed

definition client_env :: "unit agent_env" where
  "client_env = demo_env\<lparr>ae_llm := (\<lambda>p ms t w. (OK, demo_response, ()))\<rparr>"

theorem message_handled_with_client_witness:
  "\<exists>s' l t st. process_message client_env demo_bufs (demo_msg ''hello there'') demo_agent = Some s' \<and> ag_log s' = ag_log demo_agent @ l
     \<and> llm_calls l \<le> 21 \<and> tool_runs l \<le> 22 \<and> sent_msgs l = st @ [reply_to (demo_msg ''hello there'') t] \<and> length st \<le> 1"
proof (rule message_handled_with_client)
  show "prompt_fits client_env demo_bufs" "order_ok client_env" "ae_mem client_env w" for w
    using demo_ok by (auto simp: client_env_def prompt_fits_def order_ok_def)
  show "uses_client client_env demo_json (\<lambda>t. True)"
    unfolding uses_client_def using demo_call_ok by (fastforce simp: client_env_def)
qed (simp add: demo_msg_def)

end
