(* ===== verification/Skill_Loader.thy ===== *)
theory Skill_Loader
  imports Context_Builder C_Text
begin

text \<open>
  The skills of the agent (\<^verbatim>\<open>services/ai_agent/src/tools/skill_loader.c\<close>): Markdown files in one directory, of
  which the built-in ones are written at start when they are missing; a summary of all of them for
  the system prompt; and a hash of the directory that tells when to load it again.

  A directory is what \<^verbatim>\<open>readdir\<close> yields, in its order: each name with the content of the file, or
  \<open>None\<close> when it cannot be opened.
\<close>

section \<open>The built-in skills\<close>

definition BUILTIN_WEATHER :: string where
  "BUILTIN_WEATHER = join_lines
    [''# Weather'',
     [],
     ''Get current weather and forecasts using web_search.'',
     [],
     ''## When to use'',
     ''When the user asks about weather, temperature, or forecasts.'',
     [],
     ''## How to use'',
     ''1. Use get_current_time to know the current date'',
     ''2. Use web_search with a query like '' @ [CHR 0x22] @ ''weather in [city] today'' @ [CHR 0x22],
     ''3. Extract temperature, conditions, and forecast from results'',
     ''4. Present in a concise, friendly format'',
     [],
     ''## Example'',
     ''User: '' @ [CHR 0x22] @ ''What'' @ [CHR 0x27] @ ''s the weather in Tokyo?'' @ [CHR 0x22],
     [CHR 0xE2, CHR 0x86, CHR 0x92] @ '' get_current_time'',
     [CHR 0xE2, CHR 0x86, CHR 0x92] @ '' web_search '' @ [CHR 0x22] @ ''weather Tokyo today February 2026'' @ [CHR 0x22],
     [CHR 0xE2, CHR 0x86, CHR 0x92] @ '' '' @ [CHR 0x22] @ ''Tokyo: 8'' @ [CHR 0xC2, CHR 0xB0] @ ''C, partly cloudy. High 12'' @ [CHR 0xC2, CHR 0xB0] @ ''C, low 4'' @ [CHR 0xC2, CHR 0xB0] @ ''C. Light wind from the north.'' @ [CHR 0x22]]"

definition BUILTIN_DAILY_BRIEFING :: string where
  "BUILTIN_DAILY_BRIEFING = join_lines
    [''# Daily Briefing'',
     [],
     ''Compile a personalized daily briefing for the user.'',
     [],
     ''## When to use'',
     ''When the user asks for a daily briefing, morning update, or '' @ [CHR 0x22] @ ''what'' @ [CHR 0x27] @ ''s new today'' @ [CHR 0x22] @ ''.'',
     ''Also useful as a heartbeat/cron task.'',
     [],
     ''## How to use'',
     ''1. Use get_current_time for today'' @ [CHR 0x27] @ ''s date'',
     ''2. Read '' @ AGENT_MEMORY_DIR @ ''/MEMORY.md for user preferences and context'',
     ''3. Read today'' @ [CHR 0x27] @ ''s daily note if it exists'',
     ''4. Use web_search for relevant news based on user interests'',
     ''5. Compile a concise briefing covering:'',
     ''   - Date and time'',
     ''   - Weather (if location known from USER.md)'',
     ''   - Relevant news/updates based on user interests'',
     ''   - Any pending tasks from memory'',
     ''   - Any scheduled cron jobs'',
     [],
     ''## Format'',
     ''Keep it brief '' @ [CHR 0xE2, CHR 0x80, CHR 0x94] @ '' 5-10 bullet points max. Use the user'' @ [CHR 0x27] @ ''s preferred language.'']"

definition BUILTIN_SKILL_CREATOR :: string where
  "BUILTIN_SKILL_CREATOR = join_lines
    [''# Skill Creator'',
     [],
     ''Create new skills for AI Agent.'',
     [],
     ''## When to use'',
     ''When the user asks to create a new skill, teach the bot something, or add a new capability.'',
     [],
     ''## How to create a skill'',
     ''1. Choose a short, descriptive name (lowercase, hyphens ok)'',
     ''2. Write a SKILL.md file with this structure:'',
     ''   - '' @ [CHR 0x60] @ ''# Title'' @ [CHR 0x60] @ '' '' @ [CHR 0xE2, CHR 0x80, CHR 0x94] @ '' clear name'',
     ''   - Brief description paragraph'',
     ''   - '' @ [CHR 0x60] @ ''## When to use'' @ [CHR 0x60] @ '' '' @ [CHR 0xE2, CHR 0x80, CHR 0x94] @ '' trigger conditions'',
     ''   - '' @ [CHR 0x60] @ ''## How to use'' @ [CHR 0x60] @ '' '' @ [CHR 0xE2, CHR 0x80, CHR 0x94] @ '' step-by-step instructions'',
     ''   - '' @ [CHR 0x60] @ ''## Example'' @ [CHR 0x60] @ '' '' @ [CHR 0xE2, CHR 0x80, CHR 0x94] @ '' concrete example (optional but helpful)'',
     ''3. Save to '' @ [CHR 0x60] @ AGENT_SKILLS_DIR @ ''<name>.md'' @ [CHR 0x60] @ '' using write_file'',
     ''4. The skill will be automatically available after the next conversation'',
     [],
     ''## Best practices'',
     ''- Keep skills concise '' @ [CHR 0xE2, CHR 0x80, CHR 0x94] @ '' the context window is limited'',
     ''- Focus on WHAT to do, not HOW (the agent is smart)'',
     ''- Include specific tool calls the agent should use'',
     ''- Test by asking the agent to use the new skill'',
     [],
     ''## Example'',
     ''To create a '' @ [CHR 0x22] @ ''translate'' @ [CHR 0x22] @ '' skill:'',
     ''write_file path='' @ [CHR 0x22] @ AGENT_SKILLS_DIR @ ''translate.md'' @ [CHR 0x22] @ '' content='' @ [CHR 0x22] @ ''# Translate'' @ [CHR 0x5C] @ ''n'' @ [CHR 0x5C] @ ''nTranslate text between languages.'' @ [CHR 0x5C] @ ''n'' @ [CHR 0x5C] @ ''n'' @ ''## When to use'' @ [CHR 0x5C] @ ''nWhen the user asks to translate text.'' @ [CHR 0x5C] @ ''n'' @ [CHR 0x5C] @ ''n'' @ ''## How to use'' @ [CHR 0x5C] @ ''n1. Identify source and target languages'' @ [CHR 0x5C] @ ''n'' @ ''2. Translate directly using your language knowledge'' @ [CHR 0x5C] @ ''n'' @ ''3. For specialized terms, use web_search to verify'' @ [CHR 0x5C] @ ''n'' @ [CHR 0x22]]"

definition BUILTIN_SYSTEM_HEALTH :: string where
  "BUILTIN_SYSTEM_HEALTH = join_lines
    [''# System Health Check'',
     [],
     ''Check AI Agent system status and summarize key info.'',
     [],
     ''## When to use'',
     ''When user asks about system status, health check, or running state.'',
     [],
     ''## How to use'',
     ''1. get_current_time to get current time'',
     ''2. list_dir to list /data/agent/ files'',
     ''3. read_file /data/agent/config/config.json to check config'',
     ''4. cron_list to check scheduled tasks'',
     ''5. Summarize: time, file count, config status, cron jobs'']"

definition BUILTIN_REMINDER :: string where
  "BUILTIN_REMINDER = join_lines
    [''# Reminder'',
     [],
     ''Set timed reminders that auto-notify the user.'',
     [],
     ''## When to use'',
     ''When user says remind me, set alarm, notify me later.'',
     [],
     ''## How to use'',
     ''1. get_current_time for current epoch'',
     ''2. Parse user request into schedule_type and timing'',
     ''3. Set channel/chat_id matching the message source (feishu/system)'',
     ''4. cron_add to create the job'',
     ''5. Confirm with trigger time'']"

definition BUILTIN_NOTE_TAKER :: string where
  "BUILTIN_NOTE_TAKER = join_lines
    [''# Note Taker'',
     [],
     ''Quick notes saved to daily diary files.'',
     [],
     ''## When to use'',
     ''ONLY when user explicitly asks to take a note, save a memo, or record something.'',
     ''Do NOT auto-save notes for other tasks (weather, search, etc.).'',
     [],
     ''## How to use'',
     ''1. get_current_time for today'' @ [CHR 0x27] @ ''s date'',
     ''2. Path: '' @ AGENT_DATA_DIR @ ''/memory/daily/YYYY-MM-DD.md'',
     ''3. read_file to check if today'' @ [CHR 0x27] @ ''s diary exists'',
     ''4. If exists: edit_file to append. If not: write_file to create'',
     ''5. Format: - [HH:MM] content'']"

definition BUILTIN_TRANSLATE :: string where
  "BUILTIN_TRANSLATE = join_lines
    [''# Translate'',
     [],
     ''Translate text between languages.'',
     [],
     ''## When to use'',
     ''When user asks to translate text.'',
     [],
     ''## How to use'',
     ''1. Identify source and target languages'',
     ''2. Translate using language knowledge'',
     ''3. For specialized terms, use web_search to verify'',
     ''4. Provide translation with key term notes if needed'']"

definition BUILTIN_NEWS_DIGEST :: string where
  "BUILTIN_NEWS_DIGEST = join_lines
    [''# News Digest'',
     [],
     ''Search and compile news summaries based on user interests.'',
     [],
     ''## When to use'',
     ''When user asks about recent news, headlines, or latest updates on a topic.'',
     [],
     ''## How to use'',
     ''1. get_current_time for current date'',
     ''2. Determine search keywords from user request or MEMORY.md interests'',
     ''3. news_search for relevant news (top_headlines=true for headlines)'',
     ''4. web_search to supplement if needed'',
     ''5. Compile 3-5 items: title, source, one-line summary'']"

definition BUILTIN_FEISHU_TEST :: string where
  "BUILTIN_FEISHU_TEST = join_lines
    [''# Feishu Integration Test'',
     [],
     ''Test Feishu Bot capabilities end-to-end.'',
     [],
     ''## When to use'',
     ''When user says test feishu, feishu test, or verify feishu connection.'',
     [],
     ''## How to use'',
     ''Run these tests in sequence, report each result:'',
     ''1. get_current_time - verify time'',
     ''2. get_weather location=Beijing - verify weather'',
     ''3. write_file + read_file a test file - verify file I/O'',
     ''4. read_file '' @ AGENT_DATA_DIR @ ''/memory/MEMORY.md - verify memory'',
     ''5. cron_list - verify cron'',
     ''6. Summarize all results with pass/fail status'']"

definition BUILTIN_TASK_MANAGER :: string where
  "BUILTIN_TASK_MANAGER = join_lines
    [''# Task Manager'',
     [],
     ''Manage a TODO list with add, complete, and view.'',
     [],
     ''## When to use'',
     ''When user says add task, TODO, done with X, what'' @ [CHR 0x27] @ ''s pending.'',
     [],
     ''## How to use'',
     ''Task file: '' @ AGENT_DATA_DIR @ ''/TASKS.md'',
     ''- View: read_file the task file'',
     ''- Add: get_current_time, then edit_file/write_file to append: - [ ] [YYYY-MM-DD] desc'',
     ''- Complete: edit_file to change - [ ] to - [x]'']"

definition s_builtins :: "(string \<times> string) list" where
  "s_builtins =
     [(''weather'', BUILTIN_WEATHER), (''daily-briefing'', BUILTIN_DAILY_BRIEFING), (''skill-creator'', BUILTIN_SKILL_CREATOR),
      (''system-health'', BUILTIN_SYSTEM_HEALTH), (''reminder'', BUILTIN_REMINDER), (''note-taker'', BUILTIN_NOTE_TAKER),
      (''translate'', BUILTIN_TRANSLATE), (''news-digest'', BUILTIN_NEWS_DIGEST), (''feishu-test'', BUILTIN_FEISHU_TEST),
      (''task-manager'', BUILTIN_TASK_MANAGER)]"

text \<open>Files by path; \<open>writable\<close> says whether a file can be created.\<close>

definition skill_path :: "string \<Rightarrow> string" where
  "skill_path n = cstr_copy 128 (AGENT_SKILLS_DIR @ n @ ''.md'')"

definition install_builtin :: "(string \<Rightarrow> bool) \<Rightarrow> string \<times> string \<Rightarrow> (string \<rightharpoonup> string) \<Rightarrow> string \<rightharpoonup> string" where
  "install_builtin writable skill fs =
     (case skill of (n, content) \<Rightarrow>
        if fs (skill_path n) \<noteq> None then fs
        else if writable (skill_path n) then fs(skill_path n \<mapsto> content)
        else fs)"

definition skill_loader_init :: "(string \<Rightarrow> bool) \<Rightarrow> (string \<rightharpoonup> string) \<Rightarrow> string \<rightharpoonup> string" where
  "skill_loader_init writable fs = fold (install_builtin writable) s_builtins fs"

section \<open>The summary\<close>

definition skill_name :: "string \<Rightarrow> bool" where
  "skill_name n \<longleftrightarrow> length n \<ge> 4 \<and> drop (length n - 3) n = ''.md'' \<and> hd n \<noteq> CHR ''.''"

definition rtrim :: "char set \<Rightarrow> string \<Rightarrow> string" where
  "rtrim cs s = rev (dropWhile (\<lambda>c. c \<in> cs) (rev s))"

definition extract_title :: "string \<Rightarrow> nat \<Rightarrow> string" where
  "extract_title line out_size =
     cstr_copy out_size (rtrim {CHR 0x0A, CHR 0x0D, CHR '' ''} (if take 2 line = ''# '' then drop 2 line else line))"

text \<open>The lines as \<^verbatim>\<open>fgets\<close> cuts them; the text so far is \<open>out\<close>.\<close>

fun description_loop :: "nat \<Rightarrow> string \<Rightarrow> string list \<Rightarrow> string" where
  "description_loop out_size out [] = out"
| "description_loop out_size out (l # ls) =
     (if length out \<ge> out_size - 1 then out
      else let line = cstr l in
           if line = [] \<or> line = [CHR 0x0A] \<or> take 2 line = ''##'' then out
           else if out = [] \<and> hd line = CHR 0x0A then description_loop out_size out ls
           else let line' = (if last line = CHR 0x0A then butlast line @ '' '' else line)
                in description_loop out_size (out @ take (out_size - length out - 1) line') ls)"

definition extract_description :: "string \<Rightarrow> nat \<Rightarrow> string" where
  "extract_description rest out_size = rtrim {CHR '' ''} (description_loop out_size [] (fgets_lines 256 rest))"

definition skill_line :: "string \<Rightarrow> string \<Rightarrow> string" where
  "skill_line n content =
     (case split_line 127 content of (first, rest) \<Rightarrow>
        ''- **'' @ extract_title (cstr first) 64 @ ''**: '' @ extract_description rest 256 @ '' (read with: read_file ''
        @ cstr_copy 256 (AGENT_SKILLS_DIR @ n) @ '')'' @ [CHR 0x0A])"

text \<open>
  The text in the buffer and the offset, which counts what \<^verbatim>\<open>snprintf\<close> would have written: at the end
  the NUL goes to that offset, inside the buffer or not (the last component: outside).
\<close>

fun summary_loop :: "nat \<Rightarrow> nat \<Rightarrow> string \<Rightarrow> (string \<times> string option) list \<Rightarrow> string \<times> nat" where
  "summary_loop sz off buf [] = (buf, off)"
| "summary_loop sz off buf ((n, file) # es) =
     (if off \<ge> sz - 1 then (buf, off)
      else if \<not> skill_name n then summary_loop sz off buf es
      else case file of
             None \<Rightarrow> summary_loop sz off buf es
           | Some content \<Rightarrow>
               if content = [] then summary_loop sz off buf es
               else let e = skill_line n content
                    in summary_loop sz (off + length e) (buf @ take (sz - off - 1) e) es)"

definition skill_loader_build_summary :: "(string \<times> string option) list option \<Rightarrow> nat \<Rightarrow> string \<times> nat \<times> bool" where
  "skill_loader_build_summary dir sz =
     (case dir of
        None \<Rightarrow> ([], 0, False)
      | Some es \<Rightarrow> case summary_loop sz 0 [] es of (buf, off) \<Rightarrow> (buf, off, off \<ge> sz))"

section \<open>Changes of the directory\<close>

text \<open>A name with the size and the time of the file, when \<^verbatim>\<open>stat\<close> works.\<close>

definition hash_step :: "u32 \<Rightarrow> u32 \<Rightarrow> u32" where
  "hash_step v h = push_bit 5 h + h + v"

definition hash_entry :: "string \<times> (u32 \<times> u32) option \<Rightarrow> u32 \<Rightarrow> u32" where
  "hash_entry e h =
     (case e of (n, st) \<Rightarrow>
        if \<not> skill_name n then h
        else let h1 = fold (\<lambda>c. hash_step (of_char c)) n h in
             (case st of None \<Rightarrow> h1 | Some (sz, mtime) \<Rightarrow> hash_step mtime (hash_step sz h1)))"

definition compute_skills_hash :: "(string \<times> (u32 \<times> u32) option) list option \<Rightarrow> u32" where
  "compute_skills_hash dir = (case dir of None \<Rightarrow> 0 | Some es \<Rightarrow> fold hash_entry es 5381)"

definition skill_loader_check_changed :: "(string \<times> (u32 \<times> u32) option) list option \<Rightarrow> u32 \<Rightarrow> bool \<times> u32" where
  "skill_loader_check_changed dir s_last =
     (let current = compute_skills_hash dir in
      if s_last = 0 then (False, current)
      else if current \<noteq> s_last then (True, current)
      else (False, s_last))"

text \<open>Besides, the tools text of the registry is dropped.\<close>

definition skill_loader_refresh :: "(string \<times> (u32 \<times> u32) option) list option \<Rightarrow> u32 \<Rightarrow> u32" where
  "skill_loader_refresh dir s_last = compute_skills_hash dir"

section \<open>Installation\<close>

lemma install_fold:
  assumes "distinct (map (skill_path \<circ> fst) ss)" "\<And>s. s \<in> set ss \<Longrightarrow> writable (skill_path (fst s))"
  shows "fold (install_builtin writable) ss fs p =
    (case fs p of Some c \<Rightarrow> Some c | None \<Rightarrow> map_of (map (\<lambda>(n, c). (skill_path n, c)) ss) p)"
  using assms
proof (induction ss arbitrary: fs)
  case (Cons s ss)
  obtain n c where s: "s = (n, c)" by fastforce
  have notin: "map_of (map (\<lambda>(n, c). (skill_path n, c)) ss) (skill_path n) = None"
    using Cons.prems(1) s by (auto simp: map_of_eq_None_iff image_iff)
  have "writable (skill_path n)" using Cons.prems(2) [of s] s by simp
  then show ?case using Cons notin s by (auto simp: install_builtin_def split: option.splits)
qed (simp split: option.split)

text \<open>
  After the start every built-in skill is there, a file that the user has put in its place is kept,
  and no other file is touched.
\<close>

lemma builtins_installed:
  assumes "\<And>s. s \<in> set s_builtins \<Longrightarrow> writable (skill_path (fst s))"
  shows "skill_loader_init writable fs p =
    (case fs p of Some c \<Rightarrow> Some c | None \<Rightarrow> map_of (map (\<lambda>(n, c). (skill_path n, c)) s_builtins) p)"
  unfolding skill_loader_init_def
proof (rule install_fold)
  show "distinct (map (skill_path \<circ> fst) s_builtins)"
    by (simp add: s_builtins_def skill_path_def cstr_copy_def AGENT_SKILLS_DIR_def AGENT_DATA_DIR_def)
qed (rule assms)

section \<open>The summary and its buffer\<close>

text \<open>The lines of the summary that the directory gives.\<close>

fun summary_lines :: "(string \<times> string option) list \<Rightarrow> string list" where
  "summary_lines [] = []"
| "summary_lines ((n, file) # es) =
     (case file of
        Some (c # cs) \<Rightarrow> if skill_name n then skill_line n (c # cs) # summary_lines es else summary_lines es
      | _ \<Rightarrow> summary_lines es)"

text \<open>What the loop has printed when it stops: lines as long as there is room for more.\<close>

fun printed :: "nat \<Rightarrow> nat \<Rightarrow> string list \<Rightarrow> string list" where
  "printed sz off [] = []"
| "printed sz off (l # ls) = (if off \<ge> sz - 1 then [] else l # printed sz (off + length l) ls)"

lemma printed_full: "off \<ge> sz - 1 \<Longrightarrow> printed sz off ls = []"
  by (cases ls) simp_all

lemma summary_loop_printed:
  assumes "buf = take (sz - 1) t" "off = length t"
  shows "summary_loop sz off buf es =
    (take (sz - 1) (t @ concat (printed sz off (summary_lines es))), off + length (concat (printed sz off (summary_lines es))))"
  using assms
proof (induction sz off buf es arbitrary: t rule: summary_loop.induct)
  case (1 sz off buf)
  then show ?case by simp
next
  case (2 sz off buf n f es)
  show ?case
  proof (cases "off \<ge> sz - 1")
    case True
    then show ?thesis using 2(5,6) printed_full [OF True] by simp
  next
    case False
    have buf: "buf = t" using 2(5,6) False by simp
    show ?thesis
    proof (cases "skill_name n \<and> f \<noteq> None \<and> f \<noteq> Some []")
      case True
      then obtain c cs where f: "f = Some (c # cs)" by (cases f; cases "the f") auto
      let ?e = "skill_line n (c # cs)"
      have "buf @ take (sz - off - 1) ?e = take (sz - 1) (t @ ?e)" using buf 2(6) False by simp
      from 2(4) [OF False _ f _ refl this] True f 2(6) False show ?thesis by (simp add: Let_def)
    next
      case skip: False
      then have l: "summary_lines ((n, f) # es) = summary_lines es" by (auto split: option.splits list.splits)
      consider "\<not> skill_name n" | "skill_name n" "f = None" | "skill_name n" "f = Some []" using skip by auto
      then have "summary_loop sz off buf ((n, f) # es) = summary_loop sz off buf es \<and> summary_loop sz off buf es =
        (take (sz - 1) (t @ concat (printed sz off (summary_lines es))), off + length (concat (printed sz off (summary_lines es))))"
      proof cases
        case 1
        then show ?thesis using 2(1) [OF False 1 2(5,6)] False by simp
      next
        case 2
        then show ?thesis using "2.IH"(2) [OF False _ _ "2.prems"] False by simp
      next
        case 3
        then show ?thesis using "2.IH"(3) [OF False _ _ _ "2.prems"] False by simp
      qed
      then show ?thesis unfolding l by simp
    qed
  qed
qed

lemma printed_all: "off + length (concat ls) < sz \<Longrightarrow> concat (printed sz off ls) = concat ls"
proof (induction ls arbitrary: off)
  case (Cons l ls)
  show ?case
  proof (cases "off \<ge> sz - 1")
    case True
    then have "length (concat (l # ls)) = 0" using Cons.prems by linarith
    then have "concat (l # ls) = []" by (simp only: length_0_conv)
    then show ?thesis using printed_full [OF True, of "l # ls"] by simp
  next
    case False
    have "off + length l + length (concat ls) < sz" using Cons.prems by simp
    from Cons.IH [OF this] False show ?thesis by simp
  qed
qed simp

lemma printed_over:
  assumes "ls = a @ x # b" "off + length (concat a) < sz - 1" "sz \<le> off + length (concat (a @ [x]))"
  shows "printed sz off ls = a @ [x]"
  using assms
proof (induction a arbitrary: off ls)
  case Nil
  then show ?case using printed_full [of sz "off + length x" b] by simp
next
  case (Cons l a)
  then show ?case using Cons.IH [of "a @ x # b" "off + length l"] by simp
qed

text \<open>
  C40. The summary of the skills and its buffer: as long as all lines fit, the buffer holds exactly the
  lines and the terminator is inside. When the line that no longer fits starts inside the buffer,
  its text is cut but its full length is counted, and the terminating zero is written behind the
  buffer, by as much as the line is too long (the callers' buffers are on the stack, 1024 bytes for
  the system prompt).
\<close>

theorem skill_summary_bounds:
  fixes dir
  defines "ls \<equiv> summary_lines dir"
  assumes "0 < sz"
  shows "(length (concat ls) < sz \<longrightarrow> skill_loader_build_summary (Some dir) sz = (concat ls, length (concat ls), False))
    \<and> (\<forall>a x b. ls = a @ x # b \<and> length (concat a) < sz - 1 \<and> sz \<le> length (concat (a @ [x])) \<longrightarrow>
         skill_loader_build_summary (Some dir) sz = (take (sz - 1) (concat (a @ [x])), length (concat (a @ [x])), True))"
proof -
  have r: "skill_loader_build_summary (Some dir) sz =
    (take (sz - 1) (concat (printed sz 0 ls)), length (concat (printed sz 0 ls)), sz \<le> length (concat (printed sz 0 ls)))"
    using summary_loop_printed [of "[]" sz "[]" 0 dir] by (simp add: skill_loader_build_summary_def ls_def)
  have fits: "concat (printed sz 0 ls) = concat ls" if "length (concat ls) < sz"
    using printed_all [of 0 ls sz] that by simp
  have over: "printed sz 0 ls = a @ [x]" if "ls = a @ x # b" "length (concat a) < sz - 1" "sz \<le> length (concat (a @ [x]))" for a x b
    using printed_over [OF that(1), of 0 sz] that by simp
  show ?thesis
  proof (intro conjI impI allI)
    assume l: "length (concat ls) < sz"
    then show "skill_loader_build_summary (Some dir) sz = (concat ls, length (concat ls), False)"
      unfolding r fits [OF l] by simp
  next
    fix a x b
    assume "ls = a @ x # b \<and> length (concat a) < sz - 1 \<and> sz \<le> length (concat (a @ [x]))"
    then show "skill_loader_build_summary (Some dir) sz = (take (sz - 1) (concat (a @ [x])), length (concat (a @ [x])), True)"
      using over [of a x b] unfolding r by simp
  qed
qed

theorem skill_summary_bounds_witness:
  "snd (skill_loader_build_summary (Some [(''sing.md'', Some (''# Sing'' @ [CHR 0x0A] @ ''Sing a song.'' @ [CHR 0x0A]))]) 64) = (75, True)"
proof -
  let ?l = "skill_line ''sing.md'' (''# Sing'' @ [CHR 0x0A] @ ''Sing a song.'' @ [CHR 0x0A])"
  have "summary_lines [(''sing.md'', Some (''# Sing'' @ [CHR 0x0A] @ ''Sing a song.'' @ [CHR 0x0A]))] = [] @ ?l # []"
    by (simp add: skill_name_def)
  moreover have "length ?l = 75" by code_simp
  ultimately have "skill_loader_build_summary (Some [(''sing.md'', Some (''# Sing'' @ [CHR 0x0A] @ ''Sing a song.'' @ [CHR 0x0A]))]) 64
      = (take (64 - 1) (concat ([] @ [?l])), length (concat ([] @ [?l])), True)"
    using skill_summary_bounds [of 64 "[(''sing.md'', Some (''# Sing'' @ [CHR 0x0A] @ ''Sing a song.'' @ [CHR 0x0A]))]",
        THEN conjunct2, THEN spec, THEN spec, THEN spec, of "[]" ?l "[]"] by simp
  then show ?thesis using \<open>length ?l = 75\<close> by simp
qed

section \<open>Descriptions\<close>

text \<open>A blank line after the title, as in every built-in skill, ends the description before it begins.\<close>

lemma blank_description: "extract_description (CHR 0x0A # r) n = []"
proof -
  have "fgets_lines 256 (CHR 0x0A # r) = [CHR 0x0A] # fgets_lines 256 r"
    using split_line_first [of "[]" 255 r] by (simp add: fgets_lines.simps [of 256 "CHR 0x0A # r"])
  moreover have "cstr [CHR 0x0A] = [CHR 0x0A]" by (simp add: cstr_def)
  ultimately show ?thesis by (simp add: extract_description_def rtrim_def)
qed

lemma builtin_description_lost:
  "list_all (\<lambda>(n, c). extract_description (snd (split_line 127 c)) 256 = []) s_builtins"
proof -
  have "extract_description (snd (split_line 127 (join_lines (t # [] # ls)))) 256 = []"
    if "CHR 0x0A \<notin> set t" "length t < 127" for t ls
    using split_line_first [OF that] by (simp add: join_lines_def blank_description)
  then show ?thesis
    unfolding s_builtins_def BUILTIN_WEATHER_def BUILTIN_DAILY_BRIEFING_def BUILTIN_SKILL_CREATOR_def BUILTIN_SYSTEM_HEALTH_def
      BUILTIN_REMINDER_def BUILTIN_NOTE_TAKER_def BUILTIN_TRANSLATE_def BUILTIN_NEWS_DIGEST_def BUILTIN_FEISHU_TEST_def
      BUILTIN_TASK_MANAGER_def
    by (simp only: list.pred_inject prod.case simp_thms) simp
qed

text \<open>A refresh leaves nothing to report until the listing changes.\<close>

lemma refresh_settles: "fst (skill_loader_check_changed dir (skill_loader_refresh dir s)) = False"
  by (simp add: skill_loader_check_changed_def skill_loader_refresh_def Let_def)

end
