(* ===== verification/Heartbeat.thy ===== *)
theory Heartbeat
  imports Message_Bus C_Text
begin

text \<open>
  The heartbeat (\<^verbatim>\<open>services/ai_agent/src/infra/heartbeat.c\<close>): a thread that wakes every half hour, looks
  for pending lines in a Markdown file and, if there are any, asks the agent to work on them.

  The state has the flag of the service, the number of its threads that are asleep, and the message
  bus. A wake-up is a step of one thread: it sends and then looks at the flag.
\<close>

section \<open>Pending lines\<close>

definition done_box :: "string \<Rightarrow> bool" where
  "done_box p \<longleftrightarrow> (\<exists>b m rest. p = b # CHR '' '' # CHR ''['' # m # CHR '']'' # rest \<and> b \<in> {CHR ''-'', CHR ''*''} \<and> m \<in> {CHR ''x'', CHR ''X''})"

lemma done_box_code [code]:
  "done_box p = (case p of b # s # o' # m # c # rest \<Rightarrow>
     (b = CHR ''-'' \<or> b = CHR ''*'') \<and> s = CHR '' '' \<and> o' = CHR ''['' \<and> (m = CHR ''x'' \<or> m = CHR ''X'') \<and> c = CHR '']'' | _ \<Rightarrow> False)"
  by (auto simp: done_box_def split: list.splits)

definition actionable :: "string \<Rightarrow> bool" where
  "actionable line =
     (let p = dropWhile c_isspace (cstr line) in
      if p = [] then False
      else if hd p = CHR ''#'' then False
      else \<not> done_box p)"

definition heartbeat_has_tasks :: "string option \<Rightarrow> bool" where
  "heartbeat_has_tasks f = (case f of None \<Rightarrow> False | Some content \<Rightarrow> list_ex actionable (fgets_lines 256 content))"

section \<open>The service\<close>

definition AGENT_CHAN_SYSTEM :: string where "AGENT_CHAN_SYSTEM = ''system''"

definition HEARTBEAT_PROMPT :: string where
  "HEARTBEAT_PROMPT = ''Read '' @ AGENT_DATA_DIR @ ''/HEARTBEAT.md and follow any instructions or tasks listed there. If nothing needs attention, reply with just: HEARTBEAT_OK''"

definition heartbeat_msg :: agent_msg where
  "heartbeat_msg = \<lparr>msg_channel = AGENT_CHAN_SYSTEM, msg_chat_id = ''heartbeat'', msg_content = Some HEARTBEAT_PROMPT, msg_image_b64 = None\<rparr>"

text \<open>The file, the allocator and the waits of the queue at the moment of the call; \<open>None\<close>: the push never returns.\<close>

definition heartbeat_send :: "string option \<Rightarrow> bool \<Rightarrow> wait_result list \<Rightarrow> bus \<Rightarrow> (bool \<times> bus) option" where
  "heartbeat_send f mem ws b =
     (if \<not> heartbeat_has_tasks f then Some (False, b)
      else if \<not> mem then Some (False, b)
      else map_option (\<lambda>(err, b'). (err = OK, b')) (message_bus_push_inbound ws b (Some heartbeat_msg)))"

record heart =
  s_heartbeat_running :: bool
  hb_sleeping :: nat
  hb_bus :: bus

definition heartbeat_start :: "bool \<Rightarrow> heart \<Rightarrow> int \<times> heart" where
  "heartbeat_start created h =
     (if s_heartbeat_running h then (OK, h)
      else if \<not> created then (ERROR, h\<lparr>s_heartbeat_running := False\<rparr>)
      else (OK, h\<lparr>s_heartbeat_running := True, hb_sleeping := hb_sleeping h + 1\<rparr>))"

definition heartbeat_stop :: "heart \<Rightarrow> heart" where
  "heartbeat_stop h = (if s_heartbeat_running h then h\<lparr>s_heartbeat_running := False\<rparr> else h)"

definition heartbeat_trigger :: "string option \<Rightarrow> bool \<Rightarrow> wait_result list \<Rightarrow> bus \<Rightarrow> (bool \<times> bus) option" where
  "heartbeat_trigger f mem ws b = heartbeat_send f mem ws b"

text \<open>One thread wakes: it sends, and goes to sleep again if the service is still running.\<close>

definition heartbeat_thread :: "string option \<Rightarrow> bool \<Rightarrow> wait_result list \<Rightarrow> heart \<Rightarrow> heart option" where
  "heartbeat_thread f mem ws h =
     (if hb_sleeping h = 0 then None
      else map_option (\<lambda>(sent, b). h\<lparr>hb_bus := b, hb_sleeping := (if s_heartbeat_running h then hb_sleeping h else hb_sleeping h - 1)\<rparr>)
             (heartbeat_send f mem ws (hb_bus h)))"

section \<open>Which files have tasks\<close>

definition short_line :: "string \<Rightarrow> bool" where
  "short_line l \<longleftrightarrow> CHR 0x0A \<notin> set l \<and> CHR 0x00 \<notin> set l \<and> length l < 255"

lemma fgets_whole_lines: "list_all short_line ls \<Longrightarrow> fgets_lines 256 (join_lines ls) = map (\<lambda>l. l @ [CHR 0x0A]) ls"
proof (induction ls)
  case Nil
  then show ?case by (simp add: join_lines_def fgets_lines.simps)
next
  case (Cons l ls)
  have "join_lines (l # ls) = l @ CHR 0x0A # join_lines ls" by (simp add: join_lines_def)
  moreover have "split_line 255 (l @ CHR 0x0A # join_lines ls) = (l @ [CHR 0x0A], join_lines ls)"
    using Cons.prems by (intro split_line_first) (auto simp: short_line_def)
  ultimately show ?case using Cons by (simp add: fgets_lines.simps [of 256 "_ @ _"])
qed

text \<open>The meaning of a line: blank, a heading, a finished box, or something to do.\<close>

definition pending :: "string \<Rightarrow> bool" where
  "pending l \<longleftrightarrow> (\<exists>c rest. dropWhile c_isspace l = c # rest \<and> c \<noteq> CHR ''#'' \<and> \<not> done_box (c # rest))"

lemma done_box_newline: "done_box (p @ [CHR 0x0A]) = done_box p"
  unfolding done_box_code by (auto split: list.splits simp: append_eq_Cons_conv Cons_eq_append_conv)

lemma space_newline: "c_isspace (CHR 0x0A)" by (simp add: c_isspace_def)

lemma actionable_line:
  assumes "short_line l"
  shows "actionable (l @ [CHR 0x0A]) = pending l"
proof -
  have c: "cstr (l @ [CHR 0x0A]) = l @ [CHR 0x0A]"
    using assms by (auto simp: cstr_def short_line_def)
  show ?thesis
  proof (cases "dropWhile c_isspace l")
    case Nil
    then have n: "dropWhile c_isspace (l @ [CHR 0x0A]) = []" using space_newline by (simp add: dropWhile_append)
    show ?thesis unfolding actionable_def c n pending_def Nil Let_def by simp
  next
    case (Cons d rest)
    then have "\<exists>x\<in>set l. \<not> c_isspace x" by (metis dropWhile_eq_Nil_conv list.distinct(1))
    then have n: "dropWhile c_isspace (l @ [CHR 0x0A]) = (d # rest) @ [CHR 0x0A]" using Cons by (simp add: dropWhile_append)
    show ?thesis unfolding actionable_def c n pending_def Cons Let_def done_box_newline by simp
  qed
qed

text \<open>
  The heartbeat speaks up exactly when there is something to do: for a file of lines of fewer
  than 255 characters it finds a task iff some line is neither blank nor a heading nor a ticked box.
\<close>

theorem heartbeat_tasks_exact:
  assumes "list_all short_line ls"
  shows "heartbeat_has_tasks (Some (join_lines ls)) \<longleftrightarrow> list_ex pending ls"
  using assms by (auto simp: heartbeat_has_tasks_def fgets_whole_lines list_ex_iff list_all_iff actionable_line)

theorem heartbeat_tasks_exact_witness:
  "heartbeat_has_tasks (Some (join_lines [''# Today'', '''', ''- [x] milk''])) = False
   \<and> heartbeat_has_tasks (Some (join_lines [''# Today'', ''- [ ] milk''])) = True"
proof -
  have "list_ex pending [''# Today'', '''', ''- [x] milk''] = False" "list_ex pending [''# Today'', ''- [ ] milk''] = True"
    by (simp_all add: pending_def c_isspace_def done_box_code)
  then show ?thesis
    using heartbeat_tasks_exact [of "[''# Today'', '''', ''- [x] milk'']"] heartbeat_tasks_exact [of "[''# Today'', ''- [ ] milk'']"]
    by (simp add: short_line_def)
qed

text \<open>
  A stop does not end the sleeping thread, which still sends once when it wakes; and a start before
  that leaves two threads, so that from then on every period has two heartbeats.
\<close>

lemma restart_doubles:
  assumes "s_heartbeat_running h" "hb_sleeping h = n"
  shows "s_heartbeat_running (snd (heartbeat_start True (heartbeat_stop h)))"
    "hb_sleeping (snd (heartbeat_start True (heartbeat_stop h))) = n + 1"
  using assms by (simp_all add: heartbeat_start_def heartbeat_stop_def)

lemma running_threads_stay:
  assumes "heartbeat_thread f mem ws h = Some h'" "s_heartbeat_running h"
  shows "hb_sleeping h' = hb_sleeping h" "s_heartbeat_running h'"
  using assms by (auto simp: heartbeat_thread_def split: if_splits)

end
